(* ===== verification/Prelude.thy ===== *)
theory Prelude
  imports Complex_Main "HOL-Library.Monad_Syntax"
begin

text \<open>
  Shared vocabulary of the development. JavaScript objects used as dictionaries
  (\<open>Record<string, T>\<close>, read and written through \<open>get\<close> and \<open>put\<close> of
  src/packages/core/src/emit.ts) are association lists in insertion order. The theory also holds
  the enumeration order of \<open>Object.keys\<close>, the parent walk with a visited set that several
  functions of the core repeat, and the interface of a dictionary as a locale.

  A thrown exception is the value \<^term>\<open>None\<close> of an option, threaded with the \<open>do\<close>
  notation; keys and identifiers are \<^typ>\<open>string\<close>s.
\<close>

named_theorems dict_simps "reading a dictionary after a write"
named_theorems frame_simps "what an operation leaves unchanged"

type_synonym key = string
type_synonym 'v dict = "(key \<times> 'v) list"

subsection \<open>Dictionaries\<close>

text \<open>\<open>get\<close>: the own property or undefined.\<close>

definition get :: "'v dict \<Rightarrow> key \<Rightarrow> 'v option" where
  "get d k = map_of d k"

text \<open>\<open>put\<close>: defines or overwrites the property; an existing key keeps its position.\<close>

fun put :: "'v dict \<Rightarrow> key \<Rightarrow> 'v \<Rightarrow> 'v dict" where
  "put [] k v = [(k, v)]"
| "put ((k', w) # d) k v = (if k' = k then (k, v) # d else (k', w) # put d k v)"

text \<open>The \<open>delete\<close> operator.\<close>

definition del :: "'v dict \<Rightarrow> key \<Rightarrow> 'v dict" where
  "del d k = filter (\<lambda>p. fst p \<noteq> k) d"

text \<open>Mutation of the object stored under a key, through the reference the code holds.\<close>

definition modify :: "'v dict \<Rightarrow> key \<Rightarrow> ('v \<Rightarrow> 'v) \<Rightarrow> 'v dict" where
  "modify d k f = (case get d k of None \<Rightarrow> d | Some v \<Rightarrow> put d k (f v))"

definition has :: "'v dict \<Rightarrow> key \<Rightarrow> bool" where
  "has d k \<longleftrightarrow> get d k \<noteq> None"

lemma get_Nil [simp]: "get [] k = None"
  by (simp add: get_def)

lemma get_Cons [simp]: "get ((k', v) # d) k = (if k' = k then Some v else get d k)"
  by (simp add: get_def)

lemma get_put [simp, dict_simps]: "get (put d k v) k' = (if k = k' then Some v else get d k')"
  by (induction d k v rule: put.induct) auto

lemma get_del [simp, dict_simps]: "get (del d k) k' = (if k = k' then None else get d k')"
  by (induction d) (auto simp: del_def)

lemma get_modify [simp, dict_simps]:
  "get (modify d k f) k' = (if k = k' then map_option f (get d k) else get d k')"
  by (auto simp: modify_def split: option.splits)

lemma has_put [simp]: "has (put d k v) k' \<longleftrightarrow> k = k' \<or> has d k'"
  by (simp add: has_def)

lemma has_del [simp]: "has (del d k) k' \<longleftrightarrow> k \<noteq> k' \<and> has d k'"
  by (simp add: has_def)

lemma has_Nil [simp]: "\<not> has [] k"
  by (simp add: has_def)

lemma has_Some: "get d k = Some v \<Longrightarrow> has d k"
  by (simp add: has_def)

lemma has_iff: "has d k \<longleftrightarrow> (\<exists>v. get d k = Some v)"
  by (auto simp: has_def)

lemma has_modify [simp]: "has (modify d k f) k' \<longleftrightarrow> has d k'"
  by (auto simp: has_def)

lemma put_same: "get d k = Some x \<Longrightarrow> put d k x = d"
  by (induction d k x rule: put.induct) (auto split: if_splits)

lemma put_put: "put (put d k x) k y = put d k y"
  by (induction d k x rule: put.induct) auto

lemma modify_id: "get d k = None \<Longrightarrow> modify d k f = d"
  by (simp add: modify_def)

lemma in_keys_iff: "k \<in> fst ` set d \<longleftrightarrow> has d k"
  by (induction d) (auto simp: has_def)

lemma keys_put: "map fst (put d k v) = (if has d k then map fst d else map fst d @ [k])"
  by (induction d k v rule: put.induct) (auto simp: has_def)

lemma keys_del: "map fst (del d k) = filter (\<lambda>k'. k' \<noteq> k) (map fst d)"
  by (induction d) (auto simp: del_def)

lemma keys_modify: "map fst (modify d k f) = map fst d"
  by (auto simp: modify_def keys_put has_def split: option.splits)

lemma get_in_set: "get d k = Some v \<Longrightarrow> (k, v) \<in> set d"
  by (simp add: get_def map_of_SomeD)

lemma get_distinct: "distinct (map fst d) \<Longrightarrow> (k, v) \<in> set d \<Longrightarrow> get d k = Some v"
  by (simp add: get_def)

lemma distinct_put: "distinct (map fst d) \<Longrightarrow> distinct (map fst (put d k v))"
  by (simp add: keys_put has_def get_def map_of_eq_None_iff)

lemma distinct_del: "distinct (map fst d) \<Longrightarrow> distinct (map fst (del d k))"
  by (simp add: keys_del)

lemma finite_has: "finite {k. has d k}"
proof -
  have "{k. has d k} = fst ` set d" using in_keys_iff [of _ d] by auto
  then show ?thesis by simp
qed

subsection \<open>The order of Object.keys\<close>

text \<open>
  Canonical array indexes come first, in ascending order; the other keys follow in insertion
  order. \<open>remdups\<close> does nothing on a dictionary built with \<^const>\<open>put\<close>.
\<close>

definition digits_value :: "string \<Rightarrow> nat" where
  "digits_value s = foldl (\<lambda>n c. n * 10 + (of_char c - 48)) 0 s"

definition isArrayIndex :: "string \<Rightarrow> bool" where
  "isArrayIndex s \<longleftrightarrow> s \<noteq> [] \<and> list_all (\<lambda>c. (48::nat) \<le> of_char c \<and> (of_char c :: nat) \<le> 57) s
     \<and> (length s = 1 \<or> hd s \<noteq> CHR ''0'') \<and> digits_value s < 4294967295"

definition okeys :: "'v dict \<Rightarrow> key list" where
  "okeys d = (let ks = remdups (map fst d) in
     sort_key digits_value (filter isArrayIndex ks) @ filter (\<lambda>k. \<not> isArrayIndex k) ks)"

definition ovalues :: "'v dict \<Rightarrow> 'v list" where
  "ovalues d = List.map_filter (get d) (okeys d)"

definition oentries :: "'v dict \<Rightarrow> (key \<times> 'v) list" where
  "oentries d = List.map_filter (\<lambda>k. map_option (Pair k) (get d k)) (okeys d)"

lemma set_okeys [simp]: "set (okeys d) = {k. has d k}"
  using in_keys_iff [of _ d] by (auto simp: okeys_def Let_def)

lemma distinct_okeys [simp]: "distinct (okeys d)"
  by (auto simp: okeys_def Let_def)

lemma set_map_filter: "set (List.map_filter f xs) = {y. \<exists>x \<in> set xs. f x = Some y}"
  by (force simp: List.map_filter_def)

lemma set_ovalues: "set (ovalues d) = {v. \<exists>k. get d k = Some v}"
  by (auto simp: ovalues_def set_map_filter has_def)

lemma set_oentries: "set (oentries d) = {(k, v). get d k = Some v}"
  by (auto simp: oentries_def set_map_filter has_def)

lemma okeys_Nil [simp]: "okeys [] = []"
  by (simp add: okeys_def)

lemma okeys_empty_iff: "okeys d = [] \<longleftrightarrow> (\<forall>k. get d k = None)"
proof -
  have "okeys d = [] \<longleftrightarrow> set (okeys d) = {}" by blast
  then show ?thesis by (auto simp: has_def)
qed

subsection \<open>A dictionary as an interface\<close>

locale key_store =
  fixes empty :: 'm
    and lookup :: "'m \<Rightarrow> key \<Rightarrow> 'v option"
    and store :: "'m \<Rightarrow> key \<Rightarrow> 'v \<Rightarrow> 'm"
    and remove :: "'m \<Rightarrow> key \<Rightarrow> 'm"
    and keys :: "'m \<Rightarrow> key list"
  assumes lookup_empty: "lookup empty k = None"
    and lookup_store: "lookup (store m k v) k' = (if k = k' then Some v else lookup m k')"
    and lookup_remove: "lookup (remove m k) k' = (if k = k' then None else lookup m k')"
    and keys_lookup: "set (keys m) = {k. lookup m k \<noteq> None}"
    and keys_distinct: "distinct (keys m)"
begin

lemma store_store: "lookup (store (store m k v) k w) k' = lookup (store m k w) k'"
  by (simp add: lookup_store)

lemma remove_store: "lookup (remove (store m k v) k) k' = lookup (remove m k) k'"
  by (simp add: lookup_store lookup_remove)

lemma length_keys_store:
  "length (keys (store m k v)) = (if lookup m k = None then Suc (length (keys m)) else length (keys m))"
proof -
  have "set (keys (store m k v)) = insert k (set (keys m))"
    by (auto simp: keys_lookup lookup_store)
  then have "length (keys (store m k v)) = card (insert k (set (keys m)))"
    by (metis distinct_card keys_distinct)
  also have "\<dots> = (if k \<in> set (keys m) then length (keys m) else Suc (length (keys m)))"
    by (simp add: card_insert_if distinct_card keys_distinct)
  finally show ?thesis by (simp add: keys_lookup)
qed

lemma length_keys_remove:
  "lookup m k \<noteq> None \<Longrightarrow> Suc (length (keys (remove m k))) = length (keys m)"
proof -
  assume "lookup m k \<noteq> None"
  then have k: "k \<in> set (keys m)" by (simp add: keys_lookup)
  have "set (keys (remove m k)) = set (keys m) - {k}"
    by (auto simp: keys_lookup lookup_remove)
  then have "length (keys (remove m k)) = card (set (keys m) - {k})"
    by (metis distinct_card keys_distinct)
  with card_Suc_Diff1 [OF _ k] have "Suc (length (keys (remove m k))) = card (set (keys m))" by simp
  then show ?thesis by (simp add: distinct_card keys_distinct)
qed

end

interpretation js_dict: key_store "[]" get put del okeys
  by unfold_locales (auto simp: has_def)

subsection \<open>Walking a parent chain with a visited set\<close>

text \<open>
  The loop \<open>while (key !== undefined && !visited.has(key))\<close> that follows a parent pointer:
  the keys it visits, in order. \<open>ks\<close> bounds the keys that have a successor.
\<close>

function chain :: "(key \<Rightarrow> key option) \<Rightarrow> key list \<Rightarrow> key list \<Rightarrow> key \<Rightarrow> key list" where
  "chain nxt ks visited k =
     (if k \<in> set visited then []
      else if k \<in> set ks then
        k # (case nxt k of None \<Rightarrow> [] | Some p \<Rightarrow> chain nxt ks (k # visited) p)
      else [k])"
  by pat_completeness auto
termination
proof (relation "measure (\<lambda>(nxt, ks, visited, k). card (set ks - set visited))", goal_cases)
  case (2 nxt ks visited k p)
  then have "set ks - set (k # visited) \<subset> set ks - set visited" by auto
  then show ?case by (simp add: psubset_card_mono)
qed simp

declare chain.simps [simp del]

lemma chain_visited: "k \<in> set visited \<Longrightarrow> chain nxt ks visited k = []"
  by (simp add: chain.simps)

lemma chain_unknown: "k \<notin> set visited \<Longrightarrow> k \<notin> set ks \<Longrightarrow> chain nxt ks visited k = [k]"
  by (simp add: chain.simps)

lemma chain_end:
  "k \<notin> set visited \<Longrightarrow> k \<in> set ks \<Longrightarrow> nxt k = None \<Longrightarrow> chain nxt ks visited k = [k]"
  by (simp add: chain.simps)

lemma chain_step:
  "k \<notin> set visited \<Longrightarrow> k \<in> set ks \<Longrightarrow> nxt k = Some p \<Longrightarrow>
     chain nxt ks visited k = k # chain nxt ks (k # visited) p"
  by (subst chain.simps) simp

lemma chain_cases:
  obtains (visited) "k \<in> set visited" "chain nxt ks visited k = []"
  | (leaf) "k \<notin> set visited" "k \<notin> set ks \<or> nxt k = None" "chain nxt ks visited k = [k]"
  | (step) p where "k \<notin> set visited" "k \<in> set ks" "nxt k = Some p"
      "chain nxt ks visited k = k # chain nxt ks (k # visited) p"
  using chain_visited [of k visited nxt ks] chain_unknown [of k visited ks nxt]
    chain_end [of k visited ks nxt] chain_step [of k visited ks nxt]
  by (cases "nxt k") auto

lemma chain_hd: "k \<notin> set visited \<Longrightarrow> \<exists>rest. chain nxt ks visited k = k # rest"
  by (subst chain.simps) auto

lemma chain_Cons_in: "k \<notin> set visited \<Longrightarrow> k \<in> set (chain nxt ks visited k)"
  using chain_hd [of k visited nxt ks] by auto

lemma chain_disjoint: "set (chain nxt ks visited k) \<inter> set visited = {}"
proof (induction nxt ks visited k rule: chain.induct)
  case (1 nxt ks visited k)
  show ?case
  proof (cases rule: chain_cases [of k visited nxt ks])
    case (step p)
    with "1.IH" [OF step(1-3)] show ?thesis by auto
  qed auto
qed

lemma distinct_chain: "distinct (chain nxt ks visited k)"
proof (induction nxt ks visited k rule: chain.induct)
  case (1 nxt ks visited k)
  show ?case
  proof (cases rule: chain_cases [of k visited nxt ks])
    case (step p)
    with "1.IH" [OF step(1-3)] chain_disjoint [of nxt ks "k # visited" p] show ?thesis by auto
  qed auto
qed

text \<open>Every visited key is an ancestor of the start, or the start itself.\<close>

definition step_rel :: "(key \<Rightarrow> key option) \<Rightarrow> (key \<times> key) set" where
  "step_rel nxt = {(k, p). nxt k = Some p}"

lemma chain_reachable: "x \<in> set (chain nxt ks visited k) \<Longrightarrow> (k, x) \<in> (step_rel nxt)\<^sup>*"
proof (induction nxt ks visited k rule: chain.induct)
  case (1 nxt ks visited k)
  show ?case
  proof (cases rule: chain_cases [of k visited nxt ks])
    case (step p)
    with "1.prems" consider "x = k" | "x \<in> set (chain nxt ks (k # visited) p)" by auto
    then show ?thesis
    proof cases
      case 2
      with "1.IH" [OF step(1-3)] step(3) show ?thesis
        by (auto simp: step_rel_def intro: converse_rtrancl_into_rtrancl)
    qed simp
  qed (use "1.prems" in auto)
qed

text \<open>Without a cycle the walk misses no ancestor.\<close>

lemma reachable_in_chain:
  assumes "(k, x) \<in> (step_rel nxt)\<^sup>*" and "\<And>a b. nxt a = Some b \<Longrightarrow> a \<in> set ks"
    and "\<forall>v \<in> set visited. (k, v) \<notin> (step_rel nxt)\<^sup>*" and "acyclic (step_rel nxt)"
  shows "x \<in> set (chain nxt ks visited k)"
  using assms
proof (induction nxt ks visited k rule: chain.induct)
  case (1 nxt ks visited k)
  from "1.prems"(3) have k: "k \<notin> set visited" by auto
  show ?case
  proof (cases "x = k")
    case True
    with k show ?thesis by (simp add: chain_Cons_in)
  next
    case False
    with "1.prems"(1) obtain p where p: "nxt k = Some p" and px: "(p, x) \<in> (step_rel nxt)\<^sup>*"
      by (auto elim: converse_rtranclE simp: step_rel_def)
    have kp: "(k, p) \<in> step_rel nxt" using p by (simp add: step_rel_def)
    have ks: "k \<in> set ks" using "1.prems"(2) p by blast
    have "(p, v) \<notin> (step_rel nxt)\<^sup>*" if "v \<in> set (k # visited)" for v
    proof
      assume pv: "(p, v) \<in> (step_rel nxt)\<^sup>*"
      with kp have "(k, v) \<in> (step_rel nxt)\<^sup>+" by (rule rtrancl_into_trancl2)
      with that "1.prems"(3,4) show False
        by (auto simp: acyclic_def dest: trancl_into_rtrancl)
    qed
    with "1.IH" [OF k ks p px] "1.prems"(2,4) have "x \<in> set (chain nxt ks (k # visited) p)" by blast
    with chain_step [of k visited ks nxt p] k ks p show ?thesis by simp
  qed
qed

subsection \<open>Option-valued code\<close>

lemma bind_Some_iff: "Option.bind m f = Some y \<longleftrightarrow> (\<exists>x. m = Some x \<and> f x = Some y)"
  by (cases m) auto

lemma bind_SomeE [elim]:
  assumes "Option.bind m f = Some y" obtains x where "m = Some x" and "f x = Some y"
  using assms by (cases m) auto

text \<open>A loop whose body may throw: \<open>for (const x of xs) body\<close> over a threaded state.\<close>

fun foldM :: "('a \<Rightarrow> 's \<Rightarrow> 's option) \<Rightarrow> 'a list \<Rightarrow> 's \<Rightarrow> 's option" where
  "foldM f [] s = Some s"
| "foldM f (x # xs) s = Option.bind (f x s) (foldM f xs)"

lemma foldM_invariant:
  assumes "foldM f xs s = Some t" and "I s"
    and "\<And>x s t. x \<in> set xs \<Longrightarrow> f x s = Some t \<Longrightarrow> I s \<Longrightarrow> I t"
  shows "I t"
  using assms by (induction xs arbitrary: s) (auto elim!: bind_SomeE)

lemma fold_invariant_list:
  assumes "I s" and "\<And>x s. x \<in> set xs \<Longrightarrow> I s \<Longrightarrow> I (f x s)"
  shows "I (fold f xs s)"
  using assms by (induction xs arbitrary: s) auto

end
