(* ===== verification/Expiry_Map.thy ===== *)
theory Expiry_Map
  imports Prelude
begin

text \<open>
  The indexed binary min-heap of src/packages/core/src/expiry-map.ts: entries ordered by their
  expiry in an array, and a map from each key to its position, so that deletion leaves no
  tombstones. \<^const>\<open>None\<close> is the exception \<open>Invalid expiry heap index\<close>; the theorems show
  that the public operations never raise it. The contract the deadline scheduler relies on is the
  locale \<open>expiry_queue\<close>, interpreted on the heap at the end.
\<close>

subsection \<open>Definitions\<close>

record 'v entry =
  ekey :: key
  evalue :: 'v
  expiresAt :: int

record 'v expiry_map =
  heap :: "'v entry list"
  indexes :: "nat dict"

definition em_empty :: "'v expiry_map" where
  "em_empty = \<lparr>heap = [], indexes = []\<rparr>"

definition first :: "'v expiry_map \<Rightarrow> 'v entry option" where
  "first em = (case heap em of [] \<Rightarrow> None | e # _ \<Rightarrow> Some e)"

definition clear :: "'v expiry_map \<Rightarrow> 'v expiry_map" where
  "clear em = em\<lparr>heap := [], indexes := []\<rparr>"

definition em_size :: "'v expiry_map \<Rightarrow> nat" where
  "em_size em = length (heap em)"

definition em_at :: "'v expiry_map \<Rightarrow> nat \<Rightarrow> 'v entry option" where
  "em_at em i = (if i < length (heap em) then Some (heap em ! i) else None)"

text \<open>\<open>deadline\<close> and \<open>get\<close> return undefined for an unknown key and throw through \<open>at\<close>
  otherwise; the outer option is the exception.\<close>

definition deadline :: "'v expiry_map \<Rightarrow> key \<Rightarrow> int option option" where
  "deadline em k = (case get (indexes em) k of None \<Rightarrow> Some None
     | Some i \<Rightarrow> map_option (\<lambda>e. Some (expiresAt e)) (em_at em i))"

definition em_get :: "'v expiry_map \<Rightarrow> key \<Rightarrow> 'v option option" where
  "em_get em k = (case get (indexes em) k of None \<Rightarrow> Some None
     | Some i \<Rightarrow> map_option (\<lambda>e. Some (evalue e)) (em_at em i))"

definition swap :: "'v expiry_map \<Rightarrow> nat \<Rightarrow> nat \<Rightarrow> 'v expiry_map option" where
  "swap em left right = do {
     fst_entry \<leftarrow> em_at em left;
     snd_entry \<leftarrow> em_at em right;
     Some (em\<lparr>heap := (heap em)[left := snd_entry, right := fst_entry],
              indexes := put (put (indexes em) (ekey fst_entry) right) (ekey snd_entry) left\<rparr>)
   }"

definition par :: "nat \<Rightarrow> nat" where
  "par i = (i - 1) div 2"

fun up :: "'v expiry_map \<Rightarrow> nat \<Rightarrow> (nat \<times> 'v expiry_map) option" where
  "up em i =
     (if i > 0 then do {
        p \<leftarrow> em_at em ((i - 1) div 2);
        e \<leftarrow> em_at em i;
        if expiresAt p \<le> expiresAt e then Some (i, em)
        else do { em' \<leftarrow> swap em ((i - 1) div 2) i; up em' ((i - 1) div 2) }
      } else Some (i, em))"

declare up.simps [simp del]

lemma length_swap: "swap em l r = Some em' \<Longrightarrow> length (heap em') = length (heap em)"
  by (auto simp: swap_def elim!: bind_SomeE)

text \<open>The child a sift-down step compares with: the right one only when strictly earlier.\<close>

definition down_child :: "'v expiry_map \<Rightarrow> nat \<Rightarrow> nat option" where
  "down_child em i =
     (let child = i * 2 + 1 in
      if child + 1 < length (heap em) then do {
        r \<leftarrow> em_at em (child + 1);
        l \<leftarrow> em_at em child;
        Some (if expiresAt r < expiresAt l then child + 1 else child)
      } else Some child)"

lemma down_child_cases: "down_child em i = Some c \<Longrightarrow> c = i * 2 + 1 \<or> c = i * 2 + 2"
  by (auto simp: down_child_def Let_def split: if_splits elim!: bind_SomeE)

function down :: "'v expiry_map \<Rightarrow> nat \<Rightarrow> 'v expiry_map option" where
  "down em i =
     (if i * 2 + 1 < length (heap em) then do {
        child \<leftarrow> down_child em i;
        e \<leftarrow> em_at em i;
        c \<leftarrow> em_at em child;
        if expiresAt e \<le> expiresAt c then Some em
        else do { em' \<leftarrow> swap em i child; down em' child }
      } else Some em)"
  by pat_completeness auto
termination
  by (relation "measure (\<lambda>(em, i). length (heap em) - i)")
    (auto dest!: length_swap down_child_cases)

declare down.simps [simp del]

definition remove :: "'v expiry_map \<Rightarrow> nat \<Rightarrow> ('v entry \<times> 'v expiry_map) option" where
  "remove em index = do {
     removed \<leftarrow> em_at em index;
     let lst = last (heap em);
     let em1 = em\<lparr>heap := butlast (heap em), indexes := del (indexes em) (ekey removed)\<rparr>;
     if index < length (heap em1) then do {
       let em2 = em1\<lparr>heap := (heap em1)[index := lst], indexes := put (indexes em1) (ekey lst) index\<rparr>;
       (j, em3) \<leftarrow> up em2 index;
       em4 \<leftarrow> down em3 j;
       Some (removed, em4)
     } else Some (removed, em1)
   }"

text \<open>\<open>delete(key)\<close>: the removed value, or undefined.\<close>

definition delete :: "'v expiry_map \<Rightarrow> key \<Rightarrow> ('v option \<times> 'v expiry_map) option" where
  "delete em k = (case get (indexes em) k of None \<Rightarrow> Some (None, em)
     | Some i \<Rightarrow> map_option (\<lambda>(e, em'). (Some (evalue e), em')) (remove em i))"

text \<open>\<open>set(key, value, expiresAt)\<close>.\<close>

definition set_expiry :: "'v expiry_map \<Rightarrow> key \<Rightarrow> 'v \<Rightarrow> int \<Rightarrow> 'v expiry_map option" where
  "set_expiry em k v t = do {
     (_, em1) \<leftarrow> delete em k;
     let index = length (heap em1);
     let em2 = em1\<lparr>heap := heap em1 @ [\<lparr>ekey = k, evalue = v, expiresAt = t\<rparr>],
                   indexes := put (indexes em1) k index\<rparr>;
     (_, em3) \<leftarrow> up em2 index;
     Some em3
   }"

subsection \<open>Case rules of the loops\<close>

lemma swap_SomeD:
  assumes "swap em l r = Some em'"
  shows "l < length (heap em)" and "r < length (heap em)"
    and "em' = em\<lparr>heap := (heap em)[l := heap em ! r, r := heap em ! l],
                 indexes := put (put (indexes em) (ekey (heap em ! l)) r) (ekey (heap em ! r)) l\<rparr>"
  using assms by (auto simp: swap_def em_at_def split: if_splits elim!: bind_SomeE)

lemma up_cases:
  assumes "up em i = Some (j, em')"
  obtains (stop) "j = i" "em' = em"
      "i > 0 \<Longrightarrow> i < length (heap em) \<and> expiresAt (heap em ! par i) \<le> expiresAt (heap em ! i)"
  | (step) em1 where "i > 0" "i < length (heap em)" "par i < length (heap em)"
      "expiresAt (heap em ! i) < expiresAt (heap em ! par i)"
      "swap em (par i) i = Some em1" "up em1 (par i) = Some (j, em')"
proof (cases "i > 0")
  case False
  with assms show ?thesis by (intro stop) (auto simp: up.simps)
next
  case True
  with assms show ?thesis
    by (subst (asm) up.simps)
      (auto simp: par_def em_at_def split: if_splits elim!: bind_SomeE intro: stop step)
qed

lemma down_cases:
  assumes "down em i = Some em'"
  obtains (leaf) "em' = em" "length (heap em) \<le> Suc (i * 2)"
  | (stop) c where "em' = em" "Suc (i * 2) < length (heap em)" "down_child em i = Some c"
      "c < length (heap em)" "expiresAt (heap em ! i) \<le> expiresAt (heap em ! c)"
  | (step) c em1 where "Suc (i * 2) < length (heap em)" "down_child em i = Some c"
      "c < length (heap em)" "expiresAt (heap em ! c) < expiresAt (heap em ! i)"
      "swap em i c = Some em1" "down em1 c = Some em'"
proof (cases "Suc (i * 2) < length (heap em)")
  case False
  with assms show ?thesis by (intro leaf) (auto simp: down.simps)
next
  case True
  with assms obtain c where c: "down_child em i = Some c" "c < length (heap em)"
    and *: "(if expiresAt (heap em ! i) \<le> expiresAt (heap em ! c) then Some em
             else Option.bind (swap em i c) (\<lambda>em'. down em' c)) = Some em'"
    by (subst (asm) down.simps) (auto simp: em_at_def split: if_splits elim!: bind_SomeE)
  show ?thesis
  proof (cases "expiresAt (heap em ! i) \<le> expiresAt (heap em ! c)")
    case le: True
    with * stop [OF _ True c le] show ?thesis by simp
  next
    case nle: False
    with * obtain em1 where "swap em i c = Some em1" "down em1 c = Some em'" by auto
    with step [OF True c] nle show ?thesis by simp
  qed
qed

lemma length_up: "up em i = Some (j, em') \<Longrightarrow> length (heap em') = length (heap em)"
proof (induction i arbitrary: em rule: less_induct)
  case (less i)
  from less.prems show ?case
  proof (cases rule: up_cases)
    case (step em1)
    have "par i < i" using step(1) by (auto simp: par_def)
    with less.IH [OF this step(6)] length_swap [OF step(5)] show ?thesis by simp
  qed simp
qed

lemma length_down: "down em i = Some em' \<Longrightarrow> length (heap em') = length (heap em)"
proof (induction "length (heap em) - i" arbitrary: em i rule: less_induct)
  case less
  from less.prems show ?case
  proof (cases rule: down_cases)
    case (step c em1)
    have "length (heap em1) - c < length (heap em) - i"
      using step(1) down_child_cases [OF step(2)] length_swap [OF step(5)] by auto
    with less.hyps [OF this step(6)] length_swap [OF step(5)] show ?thesis by simp
  qed simp_all
qed

lemma remove_cases:
  assumes "remove em i = Some (e, em')"
  obtains (tail) "i < length (heap em)" "e = heap em ! i" "i = length (heap em) - 1"
      "em' = em\<lparr>heap := butlast (heap em), indexes := del (indexes em) (ekey e)\<rparr>"
  | (inner) j em2 em3 where "i < length (heap em)" "e = heap em ! i" "i < length (heap em) - 1"
      "em2 = em\<lparr>heap := (butlast (heap em))[i := last (heap em)],
               indexes := put (del (indexes em) (ekey e)) (ekey (last (heap em))) i\<rparr>"
      "up em2 i = Some (j, em3)" "down em3 j = Some em'"
proof (cases "i < length (heap em) - 1")
  case True
  with assms show ?thesis
    by (auto simp: remove_def em_at_def Let_def split: if_splits elim!: bind_SomeE intro: inner)
next
  case False
  with assms show ?thesis
    by (auto simp: remove_def em_at_def split: if_splits elim!: bind_SomeE intro!: tail)
qed

lemma length_remove: "remove em i = Some (e, em') \<Longrightarrow> length (heap em) = Suc (length (heap em'))"
  by (erule remove_cases) (auto dest!: length_up length_down)

text \<open>\<open>expire(now)\<close>, run to its end: the yielded entries in order and the map left over.\<close>

function expire :: "'v expiry_map \<Rightarrow> int \<Rightarrow> ('v entry list \<times> 'v expiry_map) option" where
  "expire em now =
     (if heap em \<noteq> [] then do {
        e \<leftarrow> em_at em 0;
        if expiresAt e \<le> now then do {
          (removed, em') \<leftarrow> remove em 0;
          (rest, em'') \<leftarrow> expire em' now;
          Some (removed # rest, em'')
        } else Some ([], em)
      } else Some ([], em))"
  by pat_completeness auto
termination
  by (relation "measure (\<lambda>(em, now). length (heap em))") (auto dest: length_remove)

declare expire.simps [simp del]

subsection \<open>The position index\<close>

definition indexed :: "'v expiry_map \<Rightarrow> bool" where
  "indexed em \<longleftrightarrow> (\<forall>k i. get (indexes em) k = Some i \<longleftrightarrow> i < length (heap em) \<and> ekey (heap em ! i) = k)"

lemma indexed_inj:
  "indexed em \<Longrightarrow> i < length (heap em) \<Longrightarrow> j < length (heap em) \<Longrightarrow>
     ekey (heap em ! i) = ekey (heap em ! j) \<Longrightarrow> i = j"
  by (metis indexed_def option.inject)

lemma swap_total:
  "l < length (heap em) \<Longrightarrow> r < length (heap em) \<Longrightarrow> \<exists>em'. swap em l r = Some em'"
  by (simp add: swap_def em_at_def)

lemma nth_swap:
  assumes "swap em l r = Some em'" and "i < length (heap em)"
  shows "heap em' ! i = (if i = r then heap em ! l else if i = l then heap em ! r else heap em ! i)"
  using swap_SomeD [OF assms(1)] assms(2) by (auto simp: nth_list_update)

lemma set_heap_swap: "swap em l r = Some em' \<Longrightarrow> set (heap em') = set (heap em)"
  using swap_SomeD [of em l r em'] by (simp add: set_swap)

lemma indexed_swap:
  assumes sw: "swap em l r = Some em'" and ix: "indexed em" and ne: "l \<noteq> r"
  shows "indexed em'"
proof -
  note D = swap_SomeD [OF sw]
  have neq: "ekey (heap em ! l) \<noteq> ekey (heap em ! r)"
    using indexed_inj [OF ix D(1,2)] ne by blast
  show ?thesis
    unfolding indexed_def
  proof (intro allI)
    fix k i
    have old: "get (indexes em) k = Some i \<longleftrightarrow> i < length (heap em) \<and> ekey (heap em ! i) = k"
      using ix by (simp add: indexed_def)
    have g: "get (indexes em') k = (if ekey (heap em ! r) = k then Some l
        else if ekey (heap em ! l) = k then Some r else get (indexes em) k)"
      using D(3) by simp
    show "get (indexes em') k = Some i \<longleftrightarrow> i < length (heap em') \<and> ekey (heap em' ! i) = k"
    proof (cases "i < length (heap em)")
      case True
      consider "i = r" | "i = l" "i \<noteq> r" | "i \<noteq> l" "i \<noteq> r" by blast
      then show ?thesis
        using indexed_inj [OF ix True D(1)] indexed_inj [OF ix True D(2)] neq ne old True
        by cases (auto simp: g nth_swap [OF sw] length_swap [OF sw])
    next
      case False
      with D(1,2) old show ?thesis by (auto simp: g length_swap [OF sw])
    qed
  qed
qed

lemma up_total: "i < length (heap em) \<Longrightarrow> \<exists>j em'. up em i = Some (j, em')"
proof (induction i arbitrary: em rule: less_induct)
  case (less i)
  show ?case
  proof (cases "i > 0 \<and> \<not> expiresAt (heap em ! par i) \<le> expiresAt (heap em ! i)")
    case True
    have p: "par i < i" "par i < length (heap em)" using True less.prems by (auto simp: par_def)
    obtain em1 where sw: "swap em (par i) i = Some em1" using swap_total p less.prems by blast
    then have "par i < length (heap em1)" using p length_swap by metis
    with less.IH [OF p(1)] obtain j em' where "up em1 (par i) = Some (j, em')" by blast
    with True less.prems p sw show ?thesis by (subst up.simps) (simp add: em_at_def par_def)
  next
    case False
    have "par i < length (heap em)" using less.prems by (auto simp: par_def)
    with False less.prems show ?thesis by (subst up.simps) (auto simp: em_at_def par_def)
  qed
qed

lemma up_keeps:
  "up em i = Some (j, em') \<Longrightarrow> indexed em \<Longrightarrow> indexed em' \<and> set (heap em') = set (heap em)"
proof (induction i arbitrary: em rule: less_induct)
  case (less i)
  from less.prems(1) show ?case
  proof (cases rule: up_cases)
    case (step em1)
    have p: "par i < i" using step(1) by (auto simp: par_def)
    then have "indexed em1" using indexed_swap [OF step(5) less.prems(2)] by simp
    with less.IH [OF p step(6)] set_heap_swap [OF step(5)] show ?thesis by simp
  qed (use less.prems in simp)
qed

lemma down_child_total: "i * 2 + 1 < length (heap em) \<Longrightarrow>
   \<exists>c. down_child em i = Some c \<and> c < length (heap em) \<and> i < c"
  by (auto simp: down_child_def em_at_def Let_def)

lemma down_total: "\<exists>em'. down em i = Some em'"
proof (induction "length (heap em) - i" arbitrary: em i rule: less_induct)
  case less
  show ?case
  proof (cases "i * 2 + 1 < length (heap em)")
    case True
    then obtain c where c: "down_child em i = Some c" "c < length (heap em)" "i < c"
      using down_child_total by blast
    obtain em1 where sw: "swap em i c = Some em1" using swap_total c by (meson less_trans)
    have "length (heap em1) - c < length (heap em) - i" using length_swap [OF sw] c by auto
    from less.hyps [OF this] obtain em' where "down em1 c = Some em'" by blast
    with True c sw show ?thesis by (subst down.simps) (simp add: em_at_def)
  qed (simp add: down.simps)
qed

lemma down_keeps:
  "down em i = Some em' \<Longrightarrow> indexed em \<Longrightarrow> indexed em' \<and> set (heap em') = set (heap em)"
proof (induction "length (heap em) - i" arbitrary: em i rule: less_induct)
  case less
  from less.prems(1) show ?case
  proof (cases rule: down_cases)
    case (step c em1)
    have lt: "i < c" using down_child_cases [OF step(2)] by auto
    then have *: "length (heap em1) - c < length (heap em) - i"
      using length_swap [OF step(5)] step(3) by auto
    have "indexed em1" using indexed_swap [OF step(5) less.prems(2)] lt by simp
    with less.hyps [OF * step(6)] set_heap_swap [OF step(5)] show ?thesis by simp
  qed (use less.prems in simp_all)
qed

subsection \<open>The heap order\<close>

definition heap_ok :: "'v entry list \<Rightarrow> bool" where
  "heap_ok h \<longleftrightarrow> (\<forall>c. 0 < c \<and> c < length h \<longrightarrow> expiresAt (h ! par c) \<le> expiresAt (h ! c))"

text \<open>Order everywhere but around position \<open>i\<close>, whose parent precedes its children.\<close>

definition near :: "'v entry list \<Rightarrow> nat \<Rightarrow> bool" where
  "near h i \<longleftrightarrow>
     (\<forall>c. 0 < c \<and> c < length h \<and> c \<noteq> i \<and> par c \<noteq> i \<longrightarrow> expiresAt (h ! par c) \<le> expiresAt (h ! c)) \<and>
     (\<forall>c. 0 < c \<and> c < length h \<and> par c = i \<and> 0 < i \<longrightarrow> expiresAt (h ! par i) \<le> expiresAt (h ! c))"

definition above :: "'v entry list \<Rightarrow> nat \<Rightarrow> bool" where
  "above h i \<longleftrightarrow> (0 < i \<longrightarrow> expiresAt (h ! par i) \<le> expiresAt (h ! i))"

definition below :: "'v entry list \<Rightarrow> nat \<Rightarrow> bool" where
  "below h i \<longleftrightarrow> (\<forall>c. 0 < c \<and> c < length h \<and> par c = i \<longrightarrow> expiresAt (h ! i) \<le> expiresAt (h ! c))"

lemma heap_okI: "near h i \<Longrightarrow> above h i \<Longrightarrow> below h i \<Longrightarrow> heap_ok h"
  unfolding heap_ok_def near_def above_def below_def by metis

lemma par_less: "0 < c \<Longrightarrow> par c < c"
  by (auto simp: par_def)

lemma near_swap_up:
  assumes sw: "swap em (par i) i = Some em1" and i: "0 < i" "i < length (heap em)"
    and nr: "near (heap em) i" and lt: "expiresAt (heap em ! i) < expiresAt (heap em ! par i)"
  shows "near (heap em1) (par i)" and "below (heap em) i \<Longrightarrow> below (heap em1) (par i)"
proof -
  let ?h = "heap em" and ?g = "heap em1"
  have L: "length ?g = length ?h" by (rule length_swap [OF sw])
  have p: "par i < i" "par i < length ?h" using i par_less [of i] by auto
  have at: "?g ! c = (if c = i then ?h ! par i else if c = par i then ?h ! i else ?h ! c)"
    if "c < length ?h" for c using nth_swap [OF sw that] .
  have nr1: "expiresAt (?h ! par c) \<le> expiresAt (?h ! c)"
    if "0 < c" "c < length ?h" "c \<noteq> i" "par c \<noteq> i" for c using nr that by (auto simp: near_def)
  have nr2: "expiresAt (?h ! par i) \<le> expiresAt (?h ! c)"
    if "0 < c" "c < length ?h" "par c = i" for c using nr that i by (auto simp: near_def)
  have sib: "expiresAt (?h ! par i) \<le> expiresAt (?h ! c)"
    if "0 < c" "c < length ?h" "par c = par i" "c \<noteq> i" for c using nr1 [of c] that p by auto
  show "near ?g (par i)"
    unfolding near_def L
  proof (intro conjI allI impI; elim conjE)
    fix c assume c: "0 < c" "c < length ?h" "c \<noteq> par i" "par c \<noteq> par i"
    have pc: "par c < length ?h" using par_less [of c] c by auto
    have ci: "c \<noteq> i" using c by auto
    show "expiresAt (?g ! par c) \<le> expiresAt (?g ! c)"
      using nr1 [of c] nr2 [of c] c ci pc by (cases "par c = i") (auto simp: at)
  next
    fix c assume c: "0 < c" "c < length ?h" "par c = par i" "0 < par i"
    have pp: "par (par i) < par i" using par_less c by simp
    have top: "expiresAt (?h ! par (par i)) \<le> expiresAt (?h ! par i)"
      using nr1 [of "par i"] c p pp by auto
    show "expiresAt (?g ! par (par i)) \<le> expiresAt (?g ! c)"
      using top sib [of c] c pp p by (cases "c = i") (auto simp: at)
  qed
  show "below ?g (par i)" if "below ?h i"
    unfolding below_def L
  proof (intro allI impI; elim conjE)
    fix c assume c: "0 < c" "c < length ?h" "par c = par i"
    have "c \<noteq> par i" using par_less [of c] c by auto
    with c sib [of c] lt p i show "expiresAt (?g ! par i) \<le> expiresAt (?g ! c)"
      by (cases "c = i") (auto simp: at)
  qed
qed

lemma up_near:
  assumes "up em i = Some (j, em')" and "near (heap em) i" and "i < length (heap em)"
  shows "near (heap em') j \<and> above (heap em') j \<and> j < length (heap em')
     \<and> (below (heap em) i \<longrightarrow> below (heap em') j)"
  using assms
proof (induction i arbitrary: em rule: less_induct)
  case (less i)
  from less.prems(1) show ?case
  proof (cases rule: up_cases)
    case stop
    with less.prems show ?thesis by (auto simp: above_def)
  next
    case (step em1)
    note sw = near_swap_up [OF step(5,1,2) less.prems(2) step(4)]
    have "par i < length (heap em1)" using step(3) length_swap [OF step(5)] by simp
    with less.IH [OF par_less [OF step(1)] step(6) sw(1)] sw(2) show ?thesis by blast
  qed
qed

lemma par_child: "0 < c \<Longrightarrow> par c = i \<longleftrightarrow> c = i * 2 + 1 \<or> c = i * 2 + 2"
  by (auto simp: par_def)

text \<open>The chosen child is the earliest one.\<close>

lemma down_child_min:
  assumes "down_child em i = Some m" and "i * 2 + 1 < length (heap em)"
  shows "0 < m" "m < length (heap em)" "par m = i"
    and "0 < c \<Longrightarrow> c < length (heap em) \<Longrightarrow> par c = i \<Longrightarrow>
           expiresAt (heap em ! m) \<le> expiresAt (heap em ! c)"
proof -
  show m: "0 < m" "m < length (heap em)" "par m = i"
    using assms down_child_cases [OF assms(1)] par_child [of m i]
    by (auto simp: down_child_def em_at_def Let_def split: if_splits elim!: bind_SomeE)
  show "expiresAt (heap em ! m) \<le> expiresAt (heap em ! c)"
    if "0 < c" "c < length (heap em)" "par c = i"
  proof -
    from that par_child [of c i] consider "c = i * 2 + 1" | "c = i * 2 + 2" by blast
    then show ?thesis
      using assms that
      by cases (auto simp: down_child_def em_at_def Let_def split: if_splits elim!: bind_SomeE)
  qed
qed

lemma near_swap_down:
  assumes sw: "swap em i m = Some em1" and nr: "near (heap em) i"
    and m: "0 < m" "m < length (heap em)" "par m = i"
    and least: "\<And>c. 0 < c \<Longrightarrow> c < length (heap em) \<Longrightarrow> par c = i \<Longrightarrow>
           expiresAt (heap em ! m) \<le> expiresAt (heap em ! c)"
    and lt: "expiresAt (heap em ! m) < expiresAt (heap em ! i)"
  shows "near (heap em1) m" and "above (heap em1) m"
proof -
  let ?h = "heap em" and ?g = "heap em1"
  have L: "length ?g = length ?h" by (rule length_swap [OF sw])
  have im: "i < m" using par_less [OF m(1)] m(3) by simp
  then have i: "i < length ?h" using m by simp
  have at: "?g ! c = (if c = m then ?h ! i else if c = i then ?h ! m else ?h ! c)"
    if "c < length ?h" for c using nth_swap [OF sw that] .
  have nr1: "expiresAt (?h ! par c) \<le> expiresAt (?h ! c)"
    if "0 < c" "c < length ?h" "c \<noteq> i" "par c \<noteq> i" for c using nr that by (auto simp: near_def)
  have nr2: "expiresAt (?h ! par i) \<le> expiresAt (?h ! m)" if "0 < i"
    using nr that m by (auto simp: near_def)
  show "above ?g m" using lt m i im by (simp add: above_def at)
  show "near ?g m"
    unfolding near_def L
  proof (intro conjI allI impI; elim conjE)
    fix c assume c: "0 < c" "c < length ?h" "c \<noteq> m" "par c \<noteq> m"
    have pc: "par c < length ?h" "par c < c" using par_less [OF c(1)] c by auto
    show "expiresAt (?g ! par c) \<le> expiresAt (?g ! c)"
    proof (cases "c = i")
      case True
      with nr2 c pc show ?thesis by (auto simp: at)
    next
      case False
      with nr1 [of c] least [of c] c pc show ?thesis by (cases "par c = i") (auto simp: at)
    qed
  next
    fix c assume c: "0 < c" "c < length ?h" "par c = m" "0 < m"
    have "c \<noteq> i" "c \<noteq> m" using par_less [OF c(1)] c im by auto
    with nr1 [of c] c im i m show "expiresAt (?g ! par m) \<le> expiresAt (?g ! c)" by (auto simp: at)
  qed
qed

lemma down_heap_ok:
  "down em i = Some em' \<Longrightarrow> near (heap em) i \<Longrightarrow> above (heap em) i \<Longrightarrow> heap_ok (heap em')"
proof (induction "length (heap em) - i" arbitrary: em i rule: less_induct)
  case less
  from less.prems(1) show ?case
  proof (cases rule: down_cases)
    case leaf
    then have "below (heap em) i" by (auto simp: below_def par_def)
    with less.prems leaf show ?thesis by (auto intro: heap_okI)
  next
    case (stop c)
    have "below (heap em) i"
      unfolding below_def using down_child_min(4) [OF stop(3)] stop(2,5) by (auto intro: order_trans)
    with less.prems stop show ?thesis by (auto intro: heap_okI)
  next
    case (step c em1)
    have len: "i * 2 + 1 < length (heap em)" using step(1) by simp
    note m = down_child_min [OF step(2) len]
    note sw = near_swap_down [OF step(5) less.prems(2) m(1-3) m(4) step(4)]
    have "length (heap em1) - c < length (heap em) - i"
      using length_swap [OF step(5)] m par_less [OF m(1)] by auto
    from less.hyps [OF this step(6) sw] show ?thesis .
  qed
qed

subsection \<open>The map the heap represents\<close>

definition em_inv :: "'v expiry_map \<Rightarrow> bool" where
  "em_inv em \<longleftrightarrow> indexed em \<and> heap_ok (heap em)"

definition em_lookup :: "'v expiry_map \<Rightarrow> key \<Rightarrow> 'v entry option" where
  "em_lookup em k = map_option (\<lambda>i. heap em ! i) (get (indexes em) k)"

lemma em_lookup_iff:
  "indexed em \<Longrightarrow> em_lookup em k = Some e \<longleftrightarrow> e \<in> set (heap em) \<and> ekey e = k"
  by (auto simp: em_lookup_def indexed_def in_set_conv_nth)

lemma em_lookup_eqI:
  assumes "indexed em" and "\<And>e. e \<in> set (heap em) \<and> ekey e = k \<longleftrightarrow> x = Some e"
  shows "em_lookup em k = x"
  using assms em_lookup_iff [OF assms(1), of k]
  by (cases x; cases "em_lookup em k") auto

lemma set_remove_nth:
  assumes "indexed em" and "i < length (heap em)"
  shows "set (heap em) - {heap em ! i} = {e \<in> set (heap em). ekey e \<noteq> ekey (heap em ! i)}"
  using assms indexed_inj [OF assms(1)] by (fastforce simp: in_set_conv_nth)

lemma set_butlast_update:
  assumes "distinct h" and "i < length h - 1"
  shows "set ((butlast h)[i := last h]) = set h - {h ! i}"
proof -
  obtain xs y where h: "h = xs @ [y]" using assms(2) by (cases h rule: rev_cases) auto
  with assms have i: "i < length xs" and d: "distinct xs" "y \<notin> set xs" by auto
  then have "set (xs[i := y]) = insert y (set xs - {xs ! i})" by (simp add: set_update_distinct)
  with h i d show ?thesis by (auto simp: nth_append)
qed

lemma indexed_distinct: "indexed em \<Longrightarrow> distinct (heap em)"
  by (metis distinct_conv_nth indexed_inj)

lemma near_replace:
  assumes "heap_ok h" and "i < length h - 1"
  shows "near ((butlast h)[i := x]) i"
proof -
  have ok: "expiresAt (h ! par c) \<le> expiresAt (h ! c)" if "0 < c" "c < length h" for c
    using assms(1) that by (simp add: heap_ok_def)
  have nth: "(butlast h)[i := x] ! c = h ! c" if "c < length h - 1" "c \<noteq> i" for c
    using that by (simp add: nth_butlast)
  show ?thesis
    unfolding near_def length_list_update length_butlast
  proof (intro conjI allI impI; elim conjE)
    fix c assume "0 < c" "c < length h - 1" "c \<noteq> i" "par c \<noteq> i"
    moreover have "par c < c" using \<open>0 < c\<close> by (rule par_less)
    ultimately show "expiresAt ((butlast h)[i := x] ! par c) \<le> expiresAt ((butlast h)[i := x] ! c)"
      using ok [of c] nth [of c] nth [of "par c"] by simp
  next
    fix c assume c: "0 < c" "c < length h - 1" "par c = i" "0 < i"
    have "par c < c" "par i < i" using par_less [of c] par_less [of i] c by auto
    moreover from this c have "i < length h" "c < length h" by auto
    ultimately have "expiresAt (h ! par i) \<le> expiresAt (h ! c)"
      using ok [of c] ok [of i] c by auto
    with \<open>par c < c\<close> \<open>par i < i\<close> c nth [of c] nth [of "par i"]
    show "expiresAt ((butlast h)[i := x] ! par i) \<le> expiresAt ((butlast h)[i := x] ! c)" by simp
  qed
qed

lemma indexed_butlast:
  assumes "indexed em" and "heap em \<noteq> []"
  shows "indexed (em\<lparr>heap := butlast (heap em), indexes := del (indexes em) (ekey (last (heap em)))\<rparr>)"
proof -
  let ?n = "length (heap em) - 1"
  have last: "last (heap em) = heap em ! ?n" using assms(2) by (simp add: last_conv_nth)
  have n: "?n < length (heap em)" using assms(2) by (cases "heap em") auto
  have "i < ?n" if "i < length (heap em)" "ekey (heap em ! i) \<noteq> ekey (heap em ! ?n)" for i
    using that by (cases "i = ?n") auto
  moreover have "ekey (heap em ! i) \<noteq> ekey (heap em ! ?n)" if "i < ?n" for i
    using that indexed_inj [OF assms(1) less_trans [OF that n] n] by auto
  ultimately show ?thesis
    using assms by (auto simp: indexed_def last nth_butlast)
qed

lemma indexed_replace:
  assumes ix: "indexed em" and i: "i < length (heap em) - 1"
  shows "indexed (em\<lparr>heap := (butlast (heap em))[i := last (heap em)],
     indexes := put (del (indexes em) (ekey (heap em ! i))) (ekey (last (heap em))) i\<rparr>)"
proof -
  let ?h = "heap em" and ?n = "length (heap em) - 1"
  have last: "last ?h = ?h ! ?n" using i by (intro last_conv_nth) auto
  have n: "?n < length ?h" using i by simp
  have old: "get (indexes em) k = Some j \<longleftrightarrow> j < length ?h \<and> ekey (?h ! j) = k" for k j
    using ix by (simp add: indexed_def)
  have inj: "ekey (?h ! a) = ekey (?h ! b) \<longleftrightarrow> a = b" if "a < length ?h" "b < length ?h" for a b
    using indexed_inj [OF ix that] by auto
  show ?thesis
    unfolding indexed_def
  proof (intro allI)
    fix k j
    show "get (indexes (em\<lparr>heap := (butlast ?h)[i := last ?h],
        indexes := put (del (indexes em) (ekey (?h ! i))) (ekey (last ?h)) i\<rparr>)) k = Some j \<longleftrightarrow>
      j < length (heap (em\<lparr>heap := (butlast ?h)[i := last ?h],
        indexes := put (del (indexes em) (ekey (?h ! i))) (ekey (last ?h)) i\<rparr>)) \<and>
      ekey (heap (em\<lparr>heap := (butlast ?h)[i := last ?h],
        indexes := put (del (indexes em) (ekey (?h ! i))) (ekey (last ?h)) i\<rparr>) ! j) = k"
    proof (cases "j < ?n")
      case True
      with old [of k j] inj [OF less_trans [OF i n] less_trans [OF True n]]
        inj [OF n less_trans [OF True n]] i show ?thesis
        by (auto simp: last nth_list_update nth_butlast)
    next
      case False
      with i old [of k j] inj [OF n, of j] show ?thesis
        by (auto simp: last)
    qed
  qed
qed

lemma remove_spec:
  assumes inv: "em_inv em" and i: "i < length (heap em)"
  obtains em' where "remove em i = Some (heap em ! i, em')" and "em_inv em'"
    and "set (heap em') = set (heap em) - {heap em ! i}"
proof (cases "i < length (heap em) - 1")
  case False
  with i have il: "i = length (heap em) - 1" by simp
  let ?em' = "em\<lparr>heap := butlast (heap em), indexes := del (indexes em) (ekey (heap em ! i))\<rparr>"
  have ne: "heap em \<noteq> []" using i by auto
  then have lst: "last (heap em) = heap em ! i" using il by (simp add: last_conv_nth)
  have "remove em i = Some (heap em ! i, ?em')" using i il by (simp add: remove_def em_at_def Let_def)
  moreover have "em_inv ?em'"
    using inv indexed_butlast [of em] ne lst
    by (auto simp: em_inv_def heap_ok_def nth_butlast par_def)
  moreover have "set (butlast (heap em)) = set (heap em) - {heap em ! i}"
  proof -
    have "heap em = butlast (heap em) @ [heap em ! i]" using ne lst by (metis append_butlast_last_id)
    moreover have "distinct (heap em)" using inv by (simp add: em_inv_def indexed_distinct)
    ultimately obtain xs y where "heap em = xs @ [y]" "y = heap em ! i" "y \<notin> set xs" "xs = butlast (heap em)"
      by (metis distinct_append disjoint_insert(1) list.set(2))
    then show ?thesis by (metis Diff_insert_absorb Un_insert_right append_Nil2 list.set(1,2) set_append)
  qed
  ultimately show ?thesis using that by simp
next
  case True
  let ?em2 = "em\<lparr>heap := (butlast (heap em))[i := last (heap em)],
     indexes := put (del (indexes em) (ekey (heap em ! i))) (ekey (last (heap em))) i\<rparr>"
  have ix: "indexed ?em2" using inv by (intro indexed_replace True) (simp add: em_inv_def)
  have nr: "near (heap ?em2) i" using near_replace [OF _ True] inv by (simp add: em_inv_def)
  have i2: "i < length (heap ?em2)" using True by simp
  obtain j em3 where up: "up ?em2 i = Some (j, em3)" using up_total [OF i2] by blast
  obtain em4 where dn: "down em3 j = Some em4" using down_total by blast
  have "remove em i = Some (heap em ! i, em4)"
    using i True up dn by (simp add: remove_def em_at_def Let_def)
  moreover have "em_inv em4"
    using up_keeps [OF up ix] down_keeps [OF dn] up_near [OF up nr i2] down_heap_ok [OF dn]
    by (simp add: em_inv_def)
  moreover have "set (heap em4) = set (heap em) - {heap em ! i}"
    using up_keeps [OF up ix] down_keeps [OF dn] set_butlast_update [OF indexed_distinct True] inv
    by (simp add: em_inv_def)
  ultimately show ?thesis using that by blast
qed

subsection \<open>The public operations\<close>

lemma em_inv_empty: "em_inv em_empty"
  by (simp add: em_inv_def em_empty_def indexed_def heap_ok_def)

lemma indexedD: "indexed em \<Longrightarrow> get (indexes em) k = Some i \<Longrightarrow> i < length (heap em)"
  by (simp add: indexed_def)

lemma deadline_spec: "em_inv em \<Longrightarrow> deadline em k = Some (map_option expiresAt (em_lookup em k))"
  by (cases "get (indexes em) k")
    (auto simp: deadline_def em_lookup_def em_inv_def em_at_def dest: indexedD)

lemma em_get_spec: "em_inv em \<Longrightarrow> em_get em k = Some (map_option evalue (em_lookup em k))"
  by (cases "get (indexes em) k")
    (auto simp: em_get_def em_lookup_def em_inv_def em_at_def dest: indexedD)

lemma delete_spec:
  assumes inv: "em_inv em"
  obtains em' where "delete em k = Some (map_option evalue (em_lookup em k), em')" and "em_inv em'"
    and "\<And>k'. em_lookup em' k' = (if k' = k then None else em_lookup em k')"
    and "set (heap em') = {e \<in> set (heap em). ekey e \<noteq> k}"
proof (cases "get (indexes em) k")
  case None
  have ix: "indexed em" using inv by (simp add: em_inv_def)
  have "em_lookup em k = None" using None by (simp add: em_lookup_def)
  moreover then have "\<forall>e \<in> set (heap em). ekey e \<noteq> k"
    using em_lookup_iff [OF ix, of k] by (metis option.distinct(1))
  ultimately show ?thesis using None inv by (intro that [of em]) (auto simp: delete_def)
next
  case (Some i)
  have ix: "indexed em" using inv by (simp add: em_inv_def)
  with Some have i: "i < length (heap em)" and k: "ekey (heap em ! i) = k" by (auto simp: indexed_def)
  obtain em' where rm: "remove em i = Some (heap em ! i, em')" and inv': "em_inv em'"
    and set': "set (heap em') = set (heap em) - {heap em ! i}" by (rule remove_spec [OF inv i])
  have ix': "indexed em'" using inv' by (simp add: em_inv_def)
  have set'': "set (heap em') = {e \<in> set (heap em). ekey e \<noteq> k}"
    using set' set_remove_nth [OF ix i] k by simp
  have "em_lookup em' k' = (if k' = k then None else em_lookup em k')" for k'
    by (rule em_lookup_eqI [OF ix']) (auto simp: set'' em_lookup_iff [OF ix])
  moreover have "delete em k = Some (map_option evalue (em_lookup em k), em')"
    using Some rm by (simp add: delete_def em_lookup_def)
  ultimately show ?thesis using that inv' set'' by blast
qed

lemma near_append: "heap_ok h \<Longrightarrow> near (h @ [x]) (length h) \<and> below (h @ [x]) (length h)"
proof
  assume ok: "heap_ok h"
  show "near (h @ [x]) (length h)"
    unfolding near_def
  proof (intro conjI allI impI; elim conjE)
    fix c assume c: "0 < c" "c < length (h @ [x])" "c \<noteq> length h"
    then have "par c < length h" "c < length h" using par_less [of c] by auto
    then show "expiresAt ((h @ [x]) ! par c) \<le> expiresAt ((h @ [x]) ! c)"
      using ok c by (simp add: heap_ok_def nth_append)
  next
    fix c assume "0 < c" "c < length (h @ [x])" "par c = length h"
    then show "expiresAt ((h @ [x]) ! par (length h)) \<le> expiresAt ((h @ [x]) ! c)"
      using par_less [of c] by simp
  qed
  show "below (h @ [x]) (length h)"
    unfolding below_def
  proof (intro allI impI; elim conjE)
    fix c assume "0 < c" "c < length (h @ [x])" "par c = length h"
    then show "expiresAt ((h @ [x]) ! length h) \<le> expiresAt ((h @ [x]) ! c)"
      using par_less [of c] by simp
  qed
qed

lemma set_expiry_spec:
  assumes inv: "em_inv em"
  obtains em' where "set_expiry em k v t = Some em'" and "em_inv em'"
    and "\<And>k'. em_lookup em' k' = (if k' = k then Some \<lparr>ekey = k, evalue = v, expiresAt = t\<rparr>
                                   else em_lookup em k')"
proof -
  obtain em1 where dl: "delete em k = Some (map_option evalue (em_lookup em k), em1)"
    and inv1: "em_inv em1" and l1: "\<And>k'. em_lookup em1 k' = (if k' = k then None else em_lookup em k')"
    and s1: "set (heap em1) = {e \<in> set (heap em). ekey e \<noteq> k}"
    using delete_spec [OF inv, of k] by blast
  let ?e = "\<lparr>ekey = k, evalue = v, expiresAt = t\<rparr>"
  let ?em2 = "em1\<lparr>heap := heap em1 @ [?e], indexes := put (indexes em1) k (length (heap em1))\<rparr>"
  have ix1: "indexed em1" using inv1 by (simp add: em_inv_def)
  have fresh: "ekey (heap em1 ! i) \<noteq> k" if "i < length (heap em1)" for i
    using s1 that nth_mem [OF that] by auto
  have ix2: "indexed ?em2"
    using ix1 fresh by (auto simp: indexed_def nth_append less_Suc_eq)
  have nb: "near (heap ?em2) (length (heap em1)) \<and> below (heap ?em2) (length (heap em1))"
    using near_append inv1 by (auto simp: em_inv_def)
  obtain j em3 where up: "up ?em2 (length (heap em1)) = Some (j, em3)"
    using up_total [of "length (heap em1)" ?em2] by auto
  have kept: "indexed em3" "set (heap em3) = insert ?e (set (heap em1))"
    using up_keeps [OF up ix2] by auto
  have "heap_ok (heap em3)" using up_near [OF up] nb by (auto intro: heap_okI)
  with kept have inv3: "em_inv em3" by (simp add: em_inv_def)
  have "em_lookup em3 k' = (if k' = k then Some ?e else em_lookup em k')" for k'
  proof (rule em_lookup_eqI [OF kept(1)])
    fix e
    have "em_lookup em1 k' = Some e \<longleftrightarrow> e \<in> set (heap em1) \<and> ekey e = k'"
      by (rule em_lookup_iff [OF ix1])
    moreover have "ekey e \<noteq> k" if "e \<in> set (heap em1)" using that s1 by simp
    moreover have "ekey ?e = k" by simp
    ultimately show "e \<in> set (heap em3) \<and> ekey e = k' \<longleftrightarrow>
        (if k' = k then Some ?e else em_lookup em k') = Some e"
      unfolding kept(2) using l1 [of k'] by (cases "k' = k") auto
  qed
  moreover have "set_expiry em k v t = Some em3" using dl up by (simp add: set_expiry_def Let_def)
  ultimately show ?thesis using that inv3 by blast
qed

lemma heap_ok_root: "heap_ok h \<Longrightarrow> i < length h \<Longrightarrow> expiresAt (h ! 0) \<le> expiresAt (h ! i)"
proof (induction i rule: less_induct)
  case (less i)
  show ?case
  proof (cases "i = 0")
    case False
    then have "par i < i" by (simp add: par_less)
    with less have "expiresAt (h ! 0) \<le> expiresAt (h ! par i)" by simp
    also have "\<dots> \<le> expiresAt (h ! i)" using less.prems False by (simp add: heap_ok_def)
    finally show ?thesis .
  qed simp
qed

lemma first_None_iff: "em_inv em \<Longrightarrow> first em = None \<longleftrightarrow> (\<forall>k. em_lookup em k = None)"
proof -
  assume "em_inv em"
  then have ix: "indexed em" by (simp add: em_inv_def)
  have "heap em = [] \<longleftrightarrow> (\<forall>k. em_lookup em k = None)"
    using em_lookup_iff [OF ix] by (metis list.set_intros(1) neq_Nil_conv empty_iff list.set(1)
      option.exhaust option.distinct(1))
  then show ?thesis by (auto simp: first_def split: list.splits)
qed

lemma first_Some:
  assumes "em_inv em" and "first em = Some e"
  shows "em_lookup em (ekey e) = Some e"
    and "em_lookup em k = Some e' \<Longrightarrow> expiresAt e \<le> expiresAt e'"
proof -
  have ix: "indexed em" and ok: "heap_ok (heap em)" using assms(1) by (auto simp: em_inv_def)
  obtain rest where h: "heap em = e # rest" using assms(2) by (auto simp: first_def split: list.splits)
  show "em_lookup em (ekey e) = Some e" using em_lookup_iff [OF ix] h by simp
  show "expiresAt e \<le> expiresAt e'" if "em_lookup em k = Some e'"
  proof -
    from that em_lookup_iff [OF ix] obtain i where "i < length (heap em)" "heap em ! i = e'"
      by (auto simp: in_set_conv_nth)
    with heap_ok_root [OF ok] h show ?thesis by force
  qed
qed

lemma expire_spec:
  assumes "em_inv em"
  shows "\<exists>out em'. expire em now = Some (out, em') \<and> em_inv em'
     \<and> set out = {e \<in> set (heap em). expiresAt e \<le> now} \<and> distinct out
     \<and> set (heap em') = {e \<in> set (heap em). now < expiresAt e}
     \<and> sorted (map expiresAt out)"
  using assms
proof (induction "length (heap em)" arbitrary: em rule: less_induct)
  case less
  show ?case
  proof (cases "heap em \<noteq> [] \<and> expiresAt (heap em ! 0) \<le> now")
    case False
    have "\<forall>e \<in> set (heap em). now < expiresAt e"
    proof
      fix e assume "e \<in> set (heap em)"
      then obtain i where i: "i < length (heap em)" "heap em ! i = e" by (auto simp: in_set_conv_nth)
      with heap_ok_root [of "heap em" i] less.prems False show "now < expiresAt e"
        by (cases "heap em") (auto simp: em_inv_def)
    qed
    moreover have "expire em now = Some ([], em)"
      using False by (subst expire.simps) (auto simp: em_at_def)
    moreover from calculation have "{e \<in> set (heap em). expiresAt e \<le> now} = {}"
      "{e \<in> set (heap em). now < expiresAt e} = set (heap em)" by auto
    ultimately show ?thesis using less.prems by simp
  next
    case True
    let ?e = "heap em ! 0"
    have l0: "0 < length (heap em)" using True by simp
    obtain em1 where rm: "remove em 0 = Some (?e, em1)" and inv1: "em_inv em1"
      and s1: "set (heap em1) = set (heap em) - {?e}" by (rule remove_spec [OF less.prems l0])
    have "length (heap em1) < length (heap em)" using length_remove [OF rm] by simp
    from less.hyps [OF this inv1] obtain out em' where ih: "expire em1 now = Some (out, em')"
      "em_inv em'" "set out = {e \<in> set (heap em1). expiresAt e \<le> now}" "distinct out"
      "set (heap em') = {e \<in> set (heap em1). now < expiresAt e}" "sorted (map expiresAt out)" by blast
    have ex: "expire em now = Some (?e # out, em')"
      using True rm ih(1) l0 by (subst expire.simps) (simp add: em_at_def)
    have least: "expiresAt ?e \<le> expiresAt e" if "e \<in> set (heap em)" for e
      using heap_ok_root [of "heap em"] less.prems that by (auto simp: em_inv_def in_set_conv_nth)
    have "?e \<in> set (heap em)" using l0 by simp
    with True have "{e \<in> set (heap em). expiresAt e \<le> now}
        = insert ?e {e \<in> set (heap em) - {?e}. expiresAt e \<le> now}" by blast
    then have "set (?e # out) = {e \<in> set (heap em). expiresAt e \<le> now}" using ih(3) s1 by simp
    moreover have "distinct (?e # out)" using ih(3,4) s1 by simp
    moreover have "set (heap em') = {e \<in> set (heap em). now < expiresAt e}"
      unfolding ih(5) s1 using True by auto
    moreover have "sorted (map expiresAt (?e # out))" using ih(3,6) s1 least by auto
    ultimately show ?thesis using ex ih(2) by blast
  qed
qed

subsection \<open>The contract of an expiry queue\<close>

text \<open>
  What the deadline scheduler relies on: keyed deadlines that can be set and read, and the
  earliest of them. \<open>due\<close> is the abstraction, the partial map from keys to deadlines.
\<close>

locale expiry_queue =
  fixes invar :: "'q \<Rightarrow> bool"
    and due :: "'q \<Rightarrow> key \<Rightarrow> int option"
    and none :: 'q
    and schedule :: "'q \<Rightarrow> key \<Rightarrow> int \<Rightarrow> 'q option"
    and soonest :: "'q \<Rightarrow> int option"
  assumes invar_none: "invar none"
    and due_none: "due none k = None"
    and schedule_ok: "invar q \<Longrightarrow> \<exists>q'. schedule q k t = Some q' \<and> invar q' \<and> due q' = (due q)(k \<mapsto> t)"
    and soonest_None: "invar q \<Longrightarrow> soonest q = None \<longleftrightarrow> (\<forall>k. due q k = None)"
    and soonest_Some: "invar q \<Longrightarrow> soonest q = Some t \<Longrightarrow>
           (\<exists>k. due q k = Some t) \<and> (\<forall>k t'. due q k = Some t' \<longrightarrow> t \<le> t')"
begin

definition schedule_all :: "(key \<times> int) list \<Rightarrow> 'q \<Rightarrow> 'q option" where
  "schedule_all = foldM (\<lambda>(k, t) q. schedule q k t)"

lemma schedule_all_ok:
  "invar q \<Longrightarrow> \<exists>q'. schedule_all xs q = Some q' \<and> invar q' \<and> due q' = due q ++ map_of (rev xs)"
proof (induction xs arbitrary: q)
  case (Cons x xs)
  obtain k t where x: "x = (k, t)" by (cases x)
  obtain q1 where q1: "schedule q k t = Some q1" "invar q1" "due q1 = (due q)(k \<mapsto> t)"
    using schedule_ok [OF Cons.prems] by blast
  from Cons.IH [OF q1(2)] obtain q' where "schedule_all xs q1 = Some q'" "invar q'"
    "due q' = due q1 ++ map_of (rev xs)" by blast
  with x q1 show ?case by (simp add: schedule_all_def map_add_def fun_eq_iff split: option.splits)
qed (simp add: schedule_all_def)

lemma soonest_eqI:
  assumes "invar q" and "due q k = Some t" and "\<And>k t'. due q k = Some t' \<Longrightarrow> t \<le> t'"
  shows "soonest q = Some t"
proof (cases "soonest q")
  case None
  with soonest_None [OF assms(1)] assms(2) show ?thesis by simp
next
  case (Some u)
  with soonest_Some [OF assms(1) Some] assms(2,3) show ?thesis
    by (metis order_antisym)
qed

text \<open>The earliest deadline of a freshly built queue is the minimum of its distinct entries.\<close>

lemma soonest_schedule_all:
  assumes "distinct (map fst xs)" and "schedule_all xs none = Some q" and "xs \<noteq> []"
  shows "soonest q = Some (Min (snd ` set xs))"
proof -
  from schedule_all_ok [OF invar_none, of xs] assms(2) have q: "invar q"
    and d: "due q = map_of (rev xs)" by (auto simp: due_none fun_eq_iff map_add_def split: option.splits)
  have "distinct (map fst (rev xs))" using assms(1) by (simp flip: rev_map)
  then have at: "due q k = Some t \<longleftrightarrow> (k, t) \<in> set xs" for k t using d by simp
  have "Min (snd ` set xs) \<in> snd ` set xs" using assms(3) by (intro Min_in) auto
  then obtain k where "due q k = Some (Min (snd ` set xs))" using at by auto
  moreover have "Min (snd ` set xs) \<le> t'" if "due q k' = Some t'" for k' t'
    using at that by (intro Min_le) (force)+
  ultimately show ?thesis by (rule soonest_eqI [OF q])
qed

end

definition em_due :: "'v expiry_map \<Rightarrow> key \<Rightarrow> int option" where
  "em_due em k = map_option expiresAt (em_lookup em k)"

definition em_soonest :: "'v expiry_map \<Rightarrow> int option" where
  "em_soonest em = map_option expiresAt (first em)"

interpretation heap_queue: expiry_queue em_inv em_due em_empty "\<lambda>em k t. set_expiry em k () t" em_soonest
proof (unfold_locales, goal_cases)
  case 1
  show ?case by (rule em_inv_empty)
next
  case (2 k)
  show ?case by (simp add: em_due_def em_lookup_def em_empty_def)
next
  case (3 q k t)
  obtain q' where q': "set_expiry q k () t = Some q'" "em_inv q'"
    and l: "\<And>k'. em_lookup q' k' = (if k' = k then Some \<lparr>ekey = k, evalue = (), expiresAt = t\<rparr>
                 else em_lookup q k')"
    using set_expiry_spec [OF 3, of k "()" t] by blast
  have "em_due q' = (em_due q)(k \<mapsto> t)" by (rule ext) (simp add: em_due_def l)
  with q' show ?case by blast
next
  case (4 q)
  then show ?case by (auto simp: em_soonest_def em_due_def first_None_iff)
next
  case (5 q t)
  then obtain e where e: "first q = Some e" "t = expiresAt e" by (auto simp: em_soonest_def)
  with first_Some [OF 5(1) e(1)] show ?case by (auto simp: em_due_def)
qed

subsection \<open>Properties\<close>

text \<open>The public operations as steps on the heap, and what each means on the partial map from
  keys to a value and its deadline.\<close>

datatype 'v em_op =
    Op_set key 'v int
  | Op_delete key
  | Op_expire int
  | Op_clear

fun em_step :: "'v em_op \<Rightarrow> 'v expiry_map \<Rightarrow> 'v expiry_map option" where
  "em_step (Op_set k v t) em = set_expiry em k v t"
| "em_step (Op_delete k) em = map_option snd (delete em k)"
| "em_step (Op_expire now) em = map_option snd (expire em now)"
| "em_step Op_clear em = Some (clear em)"

fun map_step :: "'v em_op \<Rightarrow> (key \<rightharpoonup> 'v \<times> int) \<Rightarrow> (key \<rightharpoonup> 'v \<times> int)" where
  "map_step (Op_set k v t) m = m(k \<mapsto> (v, t))"
| "map_step (Op_delete k) m = m(k := None)"
| "map_step (Op_expire now) m = (\<lambda>k. case m k of Some (v, t) \<Rightarrow> if now < t then Some (v, t) else None | None \<Rightarrow> None)"
| "map_step Op_clear m = Map.empty"

definition em_abs :: "'v expiry_map \<Rightarrow> key \<rightharpoonup> 'v \<times> int" where
  "em_abs em k = map_option (\<lambda>e. (evalue e, expiresAt e)) (em_lookup em k)"

lemma em_step_refines:
  assumes "em_inv em"
  shows "\<exists>em'. em_step op em = Some em' \<and> em_inv em' \<and> em_abs em' = map_step op (em_abs em)"
proof (cases op)
  case (Op_set k v t)
  obtain em' where em': "set_expiry em k v t = Some em'" "em_inv em'"
    and l: "\<And>k'. em_lookup em' k' = (if k' = k then Some \<lparr>ekey = k, evalue = v, expiresAt = t\<rparr>
                 else em_lookup em k')"
    using set_expiry_spec [OF assms, of k v t] by blast
  have "em_abs em' = (em_abs em)(k \<mapsto> (v, t))" by (rule ext) (simp add: em_abs_def l)
  with em' Op_set show ?thesis by simp
next
  case (Op_delete k)
  obtain em' where em': "delete em k = Some (map_option evalue (em_lookup em k), em')" "em_inv em'"
    and l: "\<And>k'. em_lookup em' k' = (if k' = k then None else em_lookup em k')"
    using delete_spec [OF assms, of k] by blast
  have "em_abs em' = (em_abs em)(k := None)" by (rule ext) (simp add: em_abs_def l)
  with em' Op_delete show ?thesis by simp
next
  case (Op_expire now)
  obtain out em' where em': "expire em now = Some (out, em')" "em_inv em'"
    and s: "set (heap em') = {e \<in> set (heap em). now < expiresAt e}"
    using expire_spec [OF assms, of now] by blast
  have ix: "indexed em" "indexed em'" using assms em'(2) by (simp_all add: em_inv_def)
  have "em_abs em' k = map_step (Op_expire now) (em_abs em) k" for k
  proof (cases "em_lookup em k")
    case None
    then have "em_lookup em' k = None"
      using em_lookup_iff [OF ix(1), of k] em_lookup_iff [OF ix(2), of k] s by (cases "em_lookup em' k") auto
    with None show ?thesis by (simp add: em_abs_def)
  next
    case (Some e)
    have only: "e' \<in> set (heap em) \<and> ekey e' = k \<longleftrightarrow> e = e'" for e'
      using em_lookup_iff [OF ix(1), of k e'] Some by auto
    have "em_lookup em' k = (if now < expiresAt e then Some e else None)"
    proof (rule em_lookup_eqI [OF ix(2)])
      fix e'
      have "e' \<in> set (heap em') \<and> ekey e' = k \<longleftrightarrow> e = e' \<and> now < expiresAt e'"
        unfolding s using only by blast
      then show "(e' \<in> set (heap em') \<and> ekey e' = k) = ((if now < expiresAt e then Some e else None) = Some e')"
        by auto
    qed
    with Some show ?thesis by (simp add: em_abs_def)
  qed
  with em' Op_expire show ?thesis by auto
next
  case Op_clear
  have "em_inv (clear em)" "em_abs (clear em) = Map.empty"
    by (simp_all add: clear_def em_inv_def indexed_def heap_ok_def em_abs_def em_lookup_def fun_eq_iff)
  with Op_clear show ?thesis by simp
qed

lemma em_run_refines:
  "em_inv em \<Longrightarrow>
    \<exists>em'. foldM em_step ops em = Some em' \<and> em_inv em' \<and> em_abs em' = fold map_step ops (em_abs em)"
proof (induction ops arbitrary: em)
  case (Cons op ops)
  obtain em1 where "em_step op em = Some em1" "em_inv em1" "em_abs em1 = map_step op (em_abs em)"
    using em_step_refines [OF Cons.prems] by blast
  with Cons.IH [of em1] show ?case by simp
qed simp

lemma em_abs_empty: "em_abs em_empty = Map.empty"
  by (simp add: em_abs_def em_lookup_def em_empty_def fun_eq_iff)

text \<open>C36: the indexed heap implements a partial map from keys to values with deadlines. Every
  sequence of \<open>set\<close>, \<open>delete\<close>, \<open>expire\<close> and \<open>clear\<close> from the empty map runs without the
  invalid-index exception, keeps the heap order and the position index consistent, and leaves
  exactly the map the same operations leave.\<close>

theorem expiry_map_refines:
  "\<exists>em. foldM em_step ops em_empty = Some em \<and> em_inv em \<and>
     em_abs em = fold map_step ops Map.empty \<and>
     (\<forall>k. em_get em k = Some (map_option fst (em_abs em k)) \<and>
          deadline em k = Some (map_option snd (em_abs em k)))"
proof -
  obtain em where em: "foldM em_step ops em_empty = Some em" "em_inv em"
      "em_abs em = fold map_step ops Map.empty"
    using em_run_refines [OF em_inv_empty, of ops] unfolding em_abs_empty by blast
  moreover have "em_get em k = Some (map_option fst (em_abs em k)) \<and>
      deadline em k = Some (map_option snd (em_abs em k))" for k
    using em_get_spec [OF em(2), of k] deadline_spec [OF em(2), of k]
    by (simp add: em_abs_def option.map_comp comp_def)
  ultimately show ?thesis by blast
qed

text \<open>C37: \<open>expire(now)\<close> yields exactly the entries that are due, each once and earliest first, and
  keeps exactly the others, whatever operations built the map.\<close>

theorem expire_exact:
  assumes "foldM em_step ops em_empty = Some em"
  shows "\<exists>out em'. expire em now = Some (out, em') \<and>
     set out = {e \<in> set (heap em). expiresAt e \<le> now} \<and> distinct out \<and>
     sorted (map expiresAt out) \<and> set (heap em') = {e \<in> set (heap em). now < expiresAt e}"
proof -
  have "em_inv em" using assms em_run_refines [OF em_inv_empty, of ops] by auto
  from expire_spec [OF this, of now] show ?thesis by blast
qed

theorem expire_exact_witness:
  "\<exists>em. foldM em_step [Op_set ''a'' () 2, Op_set ''b'' () 1] em_empty = Some em \<and>
     (\<exists>out em'. expire em 1 = Some (out, em') \<and>
       set out = {e \<in> set (heap em). expiresAt e \<le> 1} \<and> distinct out \<and>
       sorted (map expiresAt out) \<and> set (heap em') = {e \<in> set (heap em). 1 < expiresAt e})"
proof -
  obtain em where em: "foldM em_step [Op_set ''a'' () 2, Op_set ''b'' () 1] em_empty = Some em"
    using em_run_refines [OF em_inv_empty] by blast
  from expire_exact [OF em, of 1] em show ?thesis by blast
qed

text \<open>\<open>first()\<close> is an entry with the earliest deadline, and undefined only for an empty map.\<close>

theorem first_earliest:
  assumes "foldM em_step ops em_empty = Some em"
  shows "case first em of
      None \<Rightarrow> (\<forall>k. em_abs em k = None)
    | Some e \<Rightarrow> em_abs em (ekey e) = Some (evalue e, expiresAt e) \<and>
        (\<forall>k v t. em_abs em k = Some (v, t) \<longrightarrow> expiresAt e \<le> t)"
proof -
  have inv: "em_inv em" using assms em_run_refines [OF em_inv_empty, of ops] by auto
  show ?thesis
    using first_None_iff [OF inv] first_Some [OF inv]
    by (cases "first em") (auto simp: em_abs_def)
qed

theorem first_earliest_witness:
  "\<exists>em. foldM em_step [Op_set ''a'' () 2, Op_set ''b'' () 1] em_empty = Some em \<and>
    (case first em of
      None \<Rightarrow> (\<forall>k. em_abs em k = None)
    | Some e \<Rightarrow> em_abs em (ekey e) = Some (evalue e, expiresAt e) \<and>
        (\<forall>k v t. em_abs em k = Some (v, t) \<longrightarrow> expiresAt e \<le> t))"
proof -
  obtain em where em: "foldM em_step [Op_set ''a'' () 2, Op_set ''b'' () 1] em_empty = Some em"
    using em_run_refines [OF em_inv_empty] by blast
  from first_earliest [OF em] em show ?thesis by blast
qed

end
