(* ===== verification/Json.thy ===== *)
theory Json
  imports Prelude
begin

text \<open>
  JSON data: the values of \<open>unknown\<close> and of the open parts of the protocol's schemas. Objects
  are dictionaries in property order. \<open>spread\<close> is the object spread \<open>{...a, ...b}\<close>;
  \<open>diagnosticData\<close> and \<open>preservesFields\<close> are the two JSON walks of the core
  (src/packages/core/src/diagnostics.ts, src/packages/core/src/fact-data.ts).
\<close>

datatype json =
    JNull
  | JBool bool
  | JNum rat
  | JStr string
  | JArr "json list"
  | JObj "(string \<times> json) list"

type_synonym fields = "json dict"

definition spread :: "'v dict \<Rightarrow> 'v dict \<Rightarrow> 'v dict" where
  "spread a b = foldl (\<lambda>d (k, v). put d k v) a b"

lemma get_spread:
  "distinct (map fst b) \<Longrightarrow> get (spread a b) k = (case get b k of None \<Rightarrow> get a k | Some v \<Rightarrow> Some v)"
proof (induction b arbitrary: a)
  case (Cons p b)
  obtain k0 v0 where p: "p = (k0, v0)" by (cases p)
  with Cons.prems have "k0 \<notin> fst ` set b" by auto
  then have "get b k0 = None" by (simp add: get_def map_of_eq_None_iff)
  with Cons p show ?case by (auto simp: spread_def split: option.splits)
qed (simp add: spread_def)

lemma distinct_spread: "distinct (map fst a) \<Longrightarrow> distinct (map fst (spread a b))"
  by (induction b arbitrary: a) (auto simp: spread_def distinct_put split: prod.splits)

text \<open>\<open>record.safeParse(value).data\<close>: the fields of an object, else undefined.\<close>

fun asObject :: "json \<Rightarrow> fields option" where
  "asObject (JObj fs) = Some fs"
| "asObject _ = None"

fun asString :: "json \<Rightarrow> string option" where
  "asString (JStr s) = Some s"
| "asString _ = None"

text \<open>
  \<open>diagnosticData(value, seen, depth)\<close> on JSON values, which have no cycles, accessors or
  non-finite numbers: containers nested deeper than 100 become a marker.
\<close>

definition unsupported :: "string \<Rightarrow> json" where
  "unsupported s = JObj [(''unsupported'', JStr s)]"

fun diagnosticData :: "json \<Rightarrow> nat \<Rightarrow> json" where
  "diagnosticData (JArr xs) depth =
     (if depth > 100 then unsupported ''excessive nesting''
      else JArr (map (\<lambda>x. diagnosticData x (depth + 1)) xs))"
| "diagnosticData (JObj fs) depth =
     (if depth > 100 then unsupported ''excessive nesting''
      else JObj (map (\<lambda>(k, x). (k, diagnosticData x (depth + 1))) fs))"
| "diagnosticData v depth = v"

fun json_depth :: "json \<Rightarrow> nat" where
  "json_depth (JArr xs) = Suc (foldr max (map json_depth xs) 0)"
| "json_depth (JObj fs) = Suc (foldr max (map (\<lambda>(k, x). json_depth x) fs) 0)"
| "json_depth v = 0"

lemma foldr_max_le: "x \<in> set xs \<Longrightarrow> f x \<le> foldr max (map f xs) (0::nat)"
  by (induction xs) auto

lemma foldr_max_pair_le:
  "(k, x) \<in> set fs \<Longrightarrow> f x \<le> foldr max (map (\<lambda>(k, x). f x) fs) (0::nat)"
  by (induction fs) auto

text \<open>Facts nested at most 101 deep are kept verbatim.\<close>

lemma diagnosticData_verbatim:
  "json_depth v + depth \<le> 101 \<Longrightarrow> diagnosticData v depth = v"
proof (induction v depth rule: diagnosticData.induct)
  case (1 xs depth)
  have "diagnosticData x (depth + 1) = x" if "x \<in> set xs" for x
    using 1 that foldr_max_le [OF that, of json_depth] by auto
  with "1.prems" show ?case by (auto intro!: map_idI)
next
  case (2 fs depth)
  have "diagnosticData x (depth + 1) = x" if "(k, x) \<in> set fs" for k x
    using 2 that foldr_max_pair_le [OF that, of json_depth] by fastforce
  with "2.prems" show ?case by (auto intro!: map_idI)
qed auto

text \<open>
  \<open>preservesFields(input, parsed)\<close>: every field of the input reappears in the parsed value.
\<close>

lemma size_zip_left [termination_simp]:
  "(x, y) \<in> set (zip xs ys) \<Longrightarrow> f x < Suc (size_list f xs)"
  by (induction xs ys rule: list_induct2') (auto simp: less_Suc_eq_le trans_le_add2 trans_le_add1)

fun preservesFields :: "json \<Rightarrow> json \<Rightarrow> bool" where
  "preservesFields (JObj fs) (JObj gs) \<longleftrightarrow>
     list_all (\<lambda>(k, v). case map_of gs k of None \<Rightarrow> False | Some w \<Rightarrow> preservesFields v w) fs"
| "preservesFields (JArr xs) (JArr ys) \<longleftrightarrow>
     length xs \<le> length ys \<and> list_all (\<lambda>(x, y). preservesFields x y) (zip xs ys)"
| "preservesFields (JObj fs) (JArr ys) \<longleftrightarrow> fs = []"
| "preservesFields (JArr xs) (JObj gs) \<longleftrightarrow> xs = []"
| "preservesFields v w \<longleftrightarrow> v = w"

lemma preservesFields_field:
  "preservesFields (JObj fs) (JObj gs) \<Longrightarrow> (k, v) \<in> set fs \<Longrightarrow>
     \<exists>w. get gs k = Some w \<and> preservesFields v w"
  by (fastforce simp: list_all_iff get_def split: option.splits)

end
