(* ===== verification/Protocol.thy ===== *)
theory Protocol
  imports Json
begin

text \<open>
  The canonical protocol's entities (src/packages/protocol/src): statuses, agents, runs, items with
  their tool calls, interactions, background tasks and the events the core emits. Fields the core
  reads or writes are typed; the other fields of a schema, which the core only carries through
  object spreads, are kept together as a JSON dictionary (\<open>\<dots>_rest\<close>). Optional properties are
  options; identifiers and timestamps are strings and integers as in ids.ts.
\<close>

type_synonym ident = string
type_synonym timestamp = int

subsection \<open>Statuses (agent-status.ts, thread-status.ts)\<close>

datatype agent_activity = Thinking | Responding | Tool | Compacting | Retrying | Starting_turn

datatype blocked_reason =
  Human | Subagents | Queue | Background_task | Rate_limit | Network | Upstream

datatype error_kind =
  Err_provider | Err_auth | Err_quota | Err_network | Err_process_exit | Err_unknown

record agent_error =
  err_kind :: error_kind
  err_message :: string
  err_rest :: fields

datatype agent_status =
    Starting
  | Working agent_activity (working_item: "ident option") (working_detail: "string option")
  | Blocked blocked_reason (blocked_refs: "string list") (blocked_until: "timestamp option")
      (blocked_attempt: "nat option") (blocked_message: "string option")
  | Idle
  | Interrupted
  | Failed agent_error
  | Unresponsive timestamp

datatype waiting_on = On_background_task | On_rate_limit | On_network | On_upstream | On_queue

datatype thread_status =
    Needs_you nat
  | Thread_working nat
  | Waiting waiting_on fields
  | Limited "timestamp option"
  | Thread_failed
  | Thread_unresponsive
  | Done
  | New

subsection \<open>Providers and raw payloads (provider-data.ts, provider.ts)\<close>

datatype provider_kind = Claude | Codex | Opencode | Cursor | Antigravity | Acp | Pi

datatype raw_payload =
    Inline_raw (raw_type: string) (raw_name: "string option") (raw_data: json)
  | Blob_raw (raw_type: string) (raw_name: "string option") string nat string

record native_ref =
  nat_provider :: provider_kind
  nat_nativeId :: "string option"
  nat_rest :: fields

subsection \<open>Agents (agent.ts)\<close>

datatype agent_fidelity = Full | Summary | Placeholder
datatype agent_origin = Root | Provider_subagent | Ace

record agent =
  a_id :: ident
  a_threadId :: ident
  a_childThreadId :: "ident option"
  a_machine :: "json option"
  a_parentId :: "ident option"
  a_origin :: agent_origin
  a_lineage :: "json option"
  a_native :: native_ref
  a_fidelity :: agent_fidelity
  a_spawnedBy :: "ident option option"
  a_name :: "string option"
  a_role :: "string option"
  a_model :: "string option"
  a_cwd :: string
  a_status :: agent_status
  a_background :: bool
  a_createdAt :: timestamp

subsection \<open>Runs (thread.ts)\<close>

datatype run_trigger =
    Tr_user | Tr_restart | Tr_limit_resume | Tr_spawn | Tr_parent_agent | Tr_background_completion
  | Tr_subagent_result | Tr_goal | Tr_queue | Tr_schedule | Tr_unknown

datatype run_state = Run_active | Run_completed | Run_interrupted | Run_failed

record run =
  run_id :: ident
  run_threadId :: ident
  run_agentId :: ident
  run_trigger :: run_trigger
  run_provider :: "provider_kind option"
  run_permissionMode :: "string option option"
  run_state :: run_state
  run_endedBy_steer :: bool
  run_startedAt :: timestamp
  run_endedAt :: "timestamp option"
  run_nativeId :: "string option"

subsection \<open>Tool calls (tools.ts)\<close>

datatype tool_kind =
    K_shell | K_file_read | K_file_edit | K_file_write | K_file_delete | K_file_move | K_search
  | K_web_search | K_web_fetch | K_mcp | K_agent_spawn | K_agent_message | K_todo | K_plan
  | K_ask_user | K_browser | K_image | K_notebook | K_custom

datatype tool_status =
  T_pending | T_awaiting_approval | T_running | T_succeeded | T_failed | T_declined | T_cancelled

record output_summary =
  out_streamId :: string
  out_bytes :: nat
  out_tail :: string
  out_truncated :: bool

record tool_detail =
  det_kind :: tool_kind
  det_output :: "output_summary option"
  det_childAgentId :: "ident option"
  det_targetAgentId :: "ident option"
  det_rest :: fields

record tool_call =
  call_id :: ident
  call_agentId :: ident
  call_kind :: tool_kind
  call_title :: string
  call_status :: tool_status
  call_detail :: tool_detail
  call_backgroundTaskId :: "ident option"
  call_error :: "string option"
  call_startedAt :: timestamp
  call_endedAt :: "timestamp option"
  call_raw :: "raw_payload list"
  call_rest :: fields

subsection \<open>Items (items.ts)\<close>

record text_source =
  src_streamId :: string
  src_bytes :: nat
  src_offset :: "nat option"

datatype content_part =
    Text_part string "text_source option"
  | Other_part json

datatype message_role = User_role | Assistant_role
datatype notice_level = Info | Warning | Error_level

text \<open>
  \<open>Other_item\<close> stands for the item types the core carries without looking inside: html, image,
  delegation.started, delegation.settled, unknown and artifact.
\<close>

datatype item_body =
    Message message_role "content_part list"
  | Reasoning string "text_source option"
  | Tool_call tool_call
  | Notice notice_level string "text_source option"
  | Compaction
  | Other_item string

record item =
  item_id :: ident
  item_agentId :: ident
  item_runId :: "ident option"
  item_createdAt :: timestamp
  item_complete :: bool
  item_body :: item_body
  item_raw :: "raw_payload list"
  item_rest :: fields

subsection \<open>Interactions (interactions.ts)\<close>

datatype request_kind = Rq_approval | Rq_question | Rq_plan_review | Rq_elicitation | Rq_browser_help

record approval_target =
  tgt_tool :: string
  tgt_origin_ace :: bool
  tgt_description :: "string option"
  tgt_input :: "json option"
  tgt_rest :: fields

record interaction_request =
  req_kind :: request_kind
  req_target :: "approval_target option"
  req_title :: "string option"
  req_description :: "string option"
  req_mcpServer :: "string option"
  req_rest :: fields

record interaction_resolution =
  res_kind :: request_kind
  res_rest :: fields

datatype interaction_state = Int_pending | Int_resolved | Int_cancelled | Int_expired

record interaction =
  int_id :: ident
  int_threadId :: ident
  int_agentId :: ident
  int_toolCallId :: "ident option"
  int_blocking :: bool
  int_request :: interaction_request
  int_state :: interaction_state
  int_resolution :: "interaction_resolution option"
  int_resolvedBy :: "ident option"
  int_autoReviewed :: "bool option"
  int_createdAt :: timestamp
  int_closedAt :: "timestamp option"
  int_raw :: "raw_payload list"

subsection \<open>Background tasks (background.ts)\<close>

datatype task_kind = Task_shell | Task_monitor | Task_subagent | Task_other
datatype task_status = Task_running | Task_completed | Task_failed | Task_stopped | Task_unknown

record background_task =
  task_id :: ident
  task_agentId :: ident
  task_owner_ace :: bool
  task_kind :: task_kind
  task_title :: string
  task_status :: task_status
  task_ambient :: bool
  task_internal :: bool
  task_wakesAgent_false :: bool
  task_listening :: "nat list option"
  task_outputPath :: "string option"
  task_toolCallId :: "ident option"
  task_childAgentId :: "ident option"
  task_stoppable :: bool
  task_startedAt :: timestamp
  task_endedAt :: "timestamp option"
  task_raw :: "raw_payload list"

subsection \<open>Events (events.ts)\<close>

datatype delta_field = Text_field | Reasoning_field | Output_field

text \<open>The changed fields of an \<open>agent.updated\<close> event; a cleared spawn link is \<open>Some None\<close>.\<close>

record agent_update =
  u_childThreadId :: "ident option"
  u_machine :: "json option"
  u_parentId :: "ident option option"
  u_origin :: "agent_origin option"
  u_lineage :: "json option"
  u_fidelity :: "agent_fidelity option"
  u_native :: "native_ref option"
  u_cwd :: "string option"
  u_name :: "string option"
  u_role :: "string option"
  u_model :: "string option"
  u_spawnedBy :: "ident option option"
  u_background :: "bool option"

datatype event =
    Agent_created agent
  | Agent_status_changed ident agent_status bool
  | Agent_updated ident agent_update
  | Input_admitted ident string "string option"
  | Run_started run
  | Run_ended ident run_state bool timestamp "run_trigger option"
  | Item_created item
  | Item_updated item
  | Item_delta ident ident delta_field string
  | Interaction_opened interaction
  | Interaction_closed ident interaction_state timestamp "interaction_resolution option"
      "ident option" "bool option"
  | Background_task_started background_task
  | Background_task_updated ident task_status timestamp
  | Thread_updated thread_status
  | Usage_updated ident fields
  | Context_sampled ident fields

end
