(* ===== verification/Output_Delta.thy ===== *)
theory Output_Delta
  imports Protocol "HOL-Library.Sublist"
begin

text \<open>
  Streaming appends (src/packages/projection/src/delta.ts). A JavaScript string is modelled by the
  bytes of its UTF-8 encoding, so \<open>encoder.encode\<close> is the identity and \<open>length\<close> counts
  bytes; strings with lone surrogates, which the encoder replaces, are outside the model. The
  \<open>TextDecoder\<close> of the source is created without \<open>ignoreBOM\<close>, so decoding drops one leading
  byte order mark (EF BB BF). It is \<open>fatal\<close>: the lemmas on \<open>utf8_ok\<close> show that every slice
  handed to it is well formed.
\<close>

subsection \<open>Definitions\<close>

definition byte :: "char \<Rightarrow> nat" where
  "byte c = of_char c"

text \<open>\<open>(b & 0xc0) === 0x80\<close>: a continuation byte.\<close>

definition cont :: "char \<Rightarrow> bool" where
  "cont c \<longleftrightarrow> byte c div 64 = 2"

definition bom :: string where
  "bom = [CHR 0xEF, CHR 0xBB, CHR 0xBF]"

definition decode :: "string \<Rightarrow> string" where
  "decode bs = (if take 3 bs = bom then drop 3 bs else bs)"

definition utf8Tail :: "string \<Rightarrow> nat \<Rightarrow> string" where
  "utf8Tail bytes limit = decode (dropWhile cont (drop (length bytes - limit) bytes))"

text \<open>\<open>while (cont(bytes[end])) end--\<close>, where an index out of range reads 0.\<close>

definition cont_at :: "string \<Rightarrow> int \<Rightarrow> bool" where
  "cont_at bytes i \<longleftrightarrow> 0 \<le> i \<and> i < int (length bytes) \<and> cont (bytes ! nat i)"

function backwards :: "string \<Rightarrow> int \<Rightarrow> int" where
  "backwards bytes i = (if cont_at bytes i then backwards bytes (i - 1) else i)"
  by pat_completeness auto
termination
  by (relation "measure (\<lambda>(bytes, i). nat (i + 1))") (auto simp: cont_at_def)

declare backwards.simps [simp del]

definition utf8Slice :: "string \<Rightarrow> nat \<Rightarrow> bool \<Rightarrow> string" where
  "utf8Slice text limit tail =
     (if tail then utf8Tail text limit
      else if length text \<le> limit then decode text
      else decode (take (nat (backwards text (int limit))) text))"

definition characterBytes :: "nat \<Rightarrow> nat" where
  "characterBytes b = (if b < 0x80 then 1 else if b < 0xe0 then 2 else if b < 0xf0 then 3 else 4)"

definition serializedBytes :: "nat \<Rightarrow> nat" where
  "serializedBytes b =
     (if b = 34 \<or> b = 92 then 2
      else if b < 32 then (if b \<in> {8, 9, 10, 12, 13} then 2 else 6)
      else characterBytes b)"

definition byte_at :: "string \<Rightarrow> int \<Rightarrow> nat" where
  "byte_at bytes i = (if 0 \<le> i \<and> i < int (length bytes) then byte (bytes ! nat i) else 0)"

lemma backwards_le: "backwards bytes i \<le> i"
proof (induction bytes i rule: backwards.induct)
  case (1 bytes i)
  then show ?case by (subst backwards.simps) force
qed

text \<open>The backward loop of \<open>outputTail\<close>: the start of the kept suffix.\<close>

function tailStart :: "string \<Rightarrow> int \<Rightarrow> nat \<Rightarrow> int" where
  "tailStart bytes start sz =
     (if start > 0 then
        let nx = backwards bytes (start - 1); cost = serializedBytes (byte_at bytes nx) in
        if sz + cost > 4096 then start else tailStart bytes nx (sz + cost)
      else start)"
  by pat_completeness auto
termination
proof (relation "measure (\<lambda>(bytes, start, sz). nat start)", goal_cases)
  case (2 bytes start sz nx cost)
  have "backwards bytes (start - 1) \<le> start - 1" by (rule backwards_le)
  with 2 show ?case by simp
qed simp

declare tailStart.simps [simp del]

definition outputTail :: "string \<Rightarrow> string" where
  "outputTail text =
     (let bytes = utf8Slice text 4096 True in
      decode (drop (nat (tailStart bytes (int (length bytes)) 0)) bytes))"

text \<open>The generator \<open>outputDeltas\<close>: \<open>chunks bytes start stop sz\<close> is its loop.\<close>

function chunks :: "string \<Rightarrow> nat \<Rightarrow> nat \<Rightarrow> nat \<Rightarrow> string list" where
  "chunks bytes start stop sz =
     (if stop < length bytes then
        let b = byte (bytes ! stop); cost = serializedBytes b in
        if sz + cost > 4096
        then decode (take (stop - start) (drop start bytes)) # chunks bytes stop (stop + characterBytes b) cost
        else chunks bytes start (stop + characterBytes b) (sz + cost)
      else [decode (drop start bytes)])"
  by pat_completeness auto
termination
  by (relation "measure (\<lambda>(bytes, start, stop, sz). length bytes - stop)")
    (auto simp: characterBytes_def)

declare chunks.simps [simp del]

definition outputDeltas :: "string \<Rightarrow> string list" where
  "outputDeltas text = (if text = [] then [[]] else chunks text 0 0 0)"

definition outputStreamId :: "ident \<Rightarrow> string" where
  "outputStreamId itemId = ''output:'' @ itemId"

definition summarizeOutput :: "ident \<Rightarrow> string \<Rightarrow> output_summary option \<Rightarrow> output_summary" where
  "summarizeOutput itemId added previous =
     (let addedBytes = length added;
          bytes = (case previous of None \<Rightarrow> 0 | Some p \<Rightarrow> out_bytes p) + addedBytes;
          tail = outputTail
            (if addedBytes \<ge> 4096 then added
             else (case previous of None \<Rightarrow> [] | Some p \<Rightarrow> out_tail p) @ utf8Slice added 4096 True)
      in \<lparr>out_streamId = (case previous of None \<Rightarrow> outputStreamId itemId | Some p \<Rightarrow> out_streamId p),
          out_bytes = bytes, out_tail = tail, out_truncated = bytes > length tail\<rparr>)"

text \<open>\<open>text.length\<close> counts UTF-16 units: one per character, two for a four-byte one.\<close>

definition utf16Length :: "string \<Rightarrow> nat" where
  "utf16Length s = sum_list (map (\<lambda>c. if cont c then 0 else if byte c < 0xf0 then 1 else 2) s)"

definition holdsTail :: "string \<Rightarrow> text_source option \<Rightarrow> bool" where
  "holdsTail text source = (case source of None \<Rightarrow> True
     | Some s \<Rightarrow> (case src_offset s of None \<Rightarrow> 0 | Some off \<Rightarrow> off) + utf16Length text * 2 = src_bytes s)"

definition appendText :: "string \<Rightarrow> text_source option \<Rightarrow> string \<Rightarrow> string \<times> text_source option" where
  "appendText text source added =
     ((if holdsTail text source then text @ added else text),
      map_option (\<lambda>s. s\<lparr>src_bytes := src_bytes s + utf16Length added * 2\<rparr>) source)"

fun acceptsDelta :: "item_body \<Rightarrow> delta_field \<Rightarrow> bool" where
  "acceptsDelta (Tool_call c) Output_field = (det_kind (call_detail c) = K_shell)"
| "acceptsDelta b Output_field = False"
| "acceptsDelta (Reasoning _ _) f = True"
| "acceptsDelta (Notice _ _ _) f = True"
| "acceptsDelta (Message _ _) f = (f = Text_field)"
| "acceptsDelta b f = False"

text \<open>\<open>applyDelta\<close>: the item after the added, or \<^const>\<open>None\<close> when the field does not belong
  to it.\<close>

fun append_part :: "content_part list \<Rightarrow> string \<Rightarrow> content_part list" where
  "append_part ps added =
     (if ps \<noteq> [] then
        case last ps of
          Text_part t s \<Rightarrow> butlast ps @ [case appendText t s added of (t', s') \<Rightarrow> Text_part t' s']
        | Other_part j \<Rightarrow> ps @ [Text_part added None]
      else [Text_part added None])"

definition applyDelta :: "item \<Rightarrow> delta_field \<Rightarrow> string \<Rightarrow> item option" where
  "applyDelta item field added =
     (if \<not> acceptsDelta (item_body item) field then None
      else case item_body item of
        Tool_call c \<Rightarrow>
          Some (item\<lparr>item_body := Tool_call (c\<lparr>call_detail := (call_detail c)\<lparr>det_output :=
            Some (summarizeOutput (item_id item) added (det_output (call_detail c)))\<rparr>\<rparr>)\<rparr>)
      | Reasoning t s \<Rightarrow>
          Some (item\<lparr>item_body := (case appendText t s added of (t', s') \<Rightarrow> Reasoning t' s')\<rparr>)
      | Notice l t s \<Rightarrow>
          Some (item\<lparr>item_body := (case appendText t s added of (t', s') \<Rightarrow> Notice l t' s')\<rparr>)
      | Message r ps \<Rightarrow> Some (item\<lparr>item_body := Message r (append_part ps added)\<rparr>)
      | _ \<Rightarrow> None)"

subsection \<open>Whole characters\<close>

text \<open>\<open>char_ok\<close> is one encoded character: a leading byte and as many continuation bytes as it
  announces. \<open>utf8_ok\<close> is a sequence of whole characters, the strings the fatal decoder reads.\<close>

definition char_ok :: "string \<Rightarrow> bool" where
  "char_ok ch \<longleftrightarrow> ch \<noteq> [] \<and> \<not> cont (hd ch) \<and> length ch = characterBytes (byte (hd ch)) \<and>
     list_all cont (tl ch)"

fun utf8_ok :: "string \<Rightarrow> bool" where
  "utf8_ok [] = True"
| "utf8_ok (c # cs) =
     (let n = characterBytes (byte c) in char_ok (take n (c # cs)) \<and> utf8_ok (drop (n - 1) cs))"

text \<open>The bytes a string takes inside JSON quotes.\<close>

definition json_bytes :: "string \<Rightarrow> nat" where
  "json_bytes s = sum_list (map (\<lambda>c. if cont c then 0 else serializedBytes (byte c)) s)"

lemma json_bytes_simps [simp]:
  "json_bytes [] = 0"
  "json_bytes (s @ t) = json_bytes s + json_bytes t"
  by (simp_all add: json_bytes_def)

lemma characterBytes_pos [simp]: "0 < characterBytes b"
  by (simp add: characterBytes_def)

lemma utf8_ok_append_char: "char_ok ch \<Longrightarrow> utf8_ok (ch @ s) = utf8_ok s"
proof (cases ch)
  case (Cons c cs)
  assume ok: "char_ok ch"
  then have "characterBytes (byte c) = Suc (length cs)" by (simp add: char_ok_def Cons)
  with ok show ?thesis by (simp add: Cons Let_def)
qed (simp add: char_ok_def)

lemma utf8_ok_concat: "list_all char_ok chs \<Longrightarrow> utf8_ok (concat chs @ s) = utf8_ok s"
  by (induction chs) (auto simp: utf8_ok_append_char)

lemma utf8_ok_chars:
  assumes "utf8_ok s"
  obtains chs where "s = concat chs" "list_all char_ok chs"
proof -
  have "\<exists>chs. s = concat chs \<and> list_all char_ok chs"
    using assms
  proof (induction s rule: utf8_ok.induct)
    case 1
    show ?case by (rule exI [of _ "[]"]) simp
  next
    case (2 c cs)
    define n where "n = characterBytes (byte c)"
    have ch: "char_ok (take n (c # cs))" and rest: "utf8_ok (drop (n - 1) cs)"
      using 2(2) by (simp_all add: Let_def n_def)
    obtain chs where "drop (n - 1) cs = concat chs" "list_all char_ok chs"
      using 2(1) rest n_def by blast
    moreover have "c # cs = take n (c # cs) @ drop (n - 1) cs"
      by (cases n) (use characterBytes_pos [of "byte c"] in \<open>simp_all add: n_def\<close>)
    ultimately have "c # cs = concat (take n (c # cs) # chs)" "list_all char_ok (take n (c # cs) # chs)"
      using ch by simp_all
    then show ?case by blast
  qed
  then show thesis using that by blast
qed

lemma utf8_ok_appendI: "utf8_ok s \<Longrightarrow> utf8_ok t \<Longrightarrow> utf8_ok (s @ t)"
  by (erule utf8_ok_chars) (simp add: utf8_ok_concat)

lemma utf8_ok_charI: "char_ok ch \<Longrightarrow> utf8_ok ch"
  using utf8_ok_append_char [of ch "[]"] by simp

lemma utf8_ok_concatI: "list_all char_ok chs \<Longrightarrow> utf8_ok (concat chs)"
  using utf8_ok_concat [of chs "[]"] by simp

lemma json_bytes_conts: "list_all cont s \<Longrightarrow> json_bytes s = 0"
  by (induction s) (auto simp: json_bytes_def)

lemma json_bytes_char: "char_ok ch \<Longrightarrow> json_bytes ch = serializedBytes (byte (hd ch))"
proof (cases ch)
  case (Cons c cs)
  assume ok: "char_ok ch"
  have "json_bytes (c # cs) = json_bytes [c] + json_bytes cs"
    using json_bytes_simps(2) [of "[c]" cs] by simp
  with ok Cons show ?thesis by (simp add: char_ok_def json_bytes_conts) (simp add: json_bytes_def)
qed (simp add: char_ok_def)

lemma characterBytes_le_serialized: "characterBytes b \<le> serializedBytes b"
  by (auto simp: serializedBytes_def characterBytes_def)

lemma length_le_json_bytes: "utf8_ok s \<Longrightarrow> length s \<le> json_bytes s"
proof (erule utf8_ok_chars)
  fix chs assume s: "s = concat chs" and "list_all char_ok chs"
  from this(2) show "length s \<le> json_bytes s"
    unfolding s
  proof (induction chs)
    case (Cons ch chs)
    then have "length ch \<le> json_bytes ch"
      by (simp add: json_bytes_char characterBytes_le_serialized char_ok_def)
    with Cons show ?case by simp
  qed simp
qed

subsection \<open>Decoding and suffixes\<close>

lemma decode_id: "take 3 s \<noteq> bom \<Longrightarrow> decode s = s"
  by (simp add: decode_def)

lemma length_bom [simp]: "length bom = 3"
  by (simp add: bom_def)

lemma char_ok_bom: "char_ok bom"
  by (simp add: char_ok_def bom_def cont_def byte_def characterBytes_def of_char_def)

lemma suffix_decode: "suffix (decode s) s"
  by (simp add: decode_def suffix_drop)

lemma bom_prefix: "take 3 s = bom \<Longrightarrow> sublist bom s"
  by (metis prefix_imp_sublist take_is_prefix)

lemma decode_sublist: "\<not> sublist bom t \<Longrightarrow> sublist s t \<Longrightarrow> decode s = s"
  by (meson bom_prefix decode_id sublist_order.order_trans)

lemma utf8_ok_decode:
  assumes "utf8_ok s"
  shows "utf8_ok (decode s)"
proof (cases "take 3 s = bom")
  case True
  then have "s = bom @ drop 3 s" by (metis append_take_drop_id)
  then have "utf8_ok (drop 3 s)" using assms utf8_ok_append_char [OF char_ok_bom] by metis
  with True show ?thesis by (simp add: decode_def)
qed (simp add: decode_def assms)

lemma json_bytes_suffix: "suffix s t \<Longrightarrow> json_bytes s \<le> json_bytes t"
  by (auto simp: suffix_def)

subsection \<open>The forward generator\<close>

lemma chunks_step:
  assumes "char_ok ch"
  shows "chunks (pre @ cur @ ch @ rest) (length pre) (length pre + length cur) sz =
    (if sz + json_bytes ch > 4096
     then decode cur # chunks ((pre @ cur) @ ch @ rest) (length (pre @ cur))
            (length (pre @ cur) + length ch) (json_bytes ch)
     else chunks (pre @ (cur @ ch) @ rest) (length pre) (length pre + length (cur @ ch)) (sz + json_bytes ch))"
proof -
  obtain c cs where ch: "ch = c # cs" using assms by (cases ch) (auto simp: char_ok_def)
  have len: "characterBytes (byte c) = Suc (length cs)" and cost: "json_bytes (c # cs) = serializedBytes (byte c)"
    using assms json_bytes_char [OF assms] by (simp_all add: char_ok_def ch)
  have nth: "(pre @ cur @ c # cs @ rest) ! (length pre + length cur) = c"
    by (simp add: nth_append)
  show ?thesis
    by (subst chunks.simps) (simp add: ch nth Let_def cost len add.assoc)
qed

lemma chunks_spec:
  assumes "list_all char_ok chs" "utf8_ok cur" "json_bytes cur \<le> 4096"
    and "\<not> sublist bom (cur @ concat chs)"
  shows "concat (chunks (pre @ cur @ concat chs) (length pre) (length pre + length cur) (json_bytes cur)) =
           cur @ concat chs \<and>
         (\<forall>d \<in> set (chunks (pre @ cur @ concat chs) (length pre) (length pre + length cur) (json_bytes cur)).
           utf8_ok d \<and> json_bytes d \<le> 4096)"
  using assms
proof (induction chs arbitrary: pre cur)
  case Nil
  then have "decode cur = cur" by (auto intro: decode_sublist)
  with Nil show ?case by (subst (1 2) chunks.simps) simp
next
  case (Cons ch chs)
  have ch: "char_ok ch" and chs: "list_all char_ok chs" using Cons.prems(1) by simp_all
  have small: "json_bytes ch \<le> 4096"
    by (simp add: json_bytes_char [OF ch] serializedBytes_def characterBytes_def)
  have dec: "decode cur = cur"
    using Cons.prems(4) by (rule decode_sublist) simp
  have nobom: "\<not> sublist bom (ch @ concat chs)"
    using Cons.prems(4) sublist_appendI [of "ch @ concat chs" cur "[]"]
    by (auto intro: sublist_order.order_trans)
  show ?case
  proof (cases "json_bytes cur + json_bytes ch > 4096")
    case True
    with Cons.IH [OF chs utf8_ok_charI [OF ch] small nobom, of "pre @ cur"] Cons.prems
    show ?thesis
      by (simp only: concat.simps chunks_step [OF ch] if_True) (simp add: dec)
  next
    case False
    then show ?thesis
      using Cons.IH [OF chs utf8_ok_appendI [OF Cons.prems(2) utf8_ok_charI [OF ch]], of pre] Cons.prems(4)
      by (simp only: concat.simps chunks_step [OF ch] if_False) simp
  qed
qed

subsection \<open>The backward loops\<close>

lemma dropWhile_cont_char: "char_ok ch \<Longrightarrow> dropWhile cont (ch @ s) = ch @ s"
  by (cases ch) (auto simp: char_ok_def)

lemma dropWhile_cont_suffix:
  assumes "list_all char_ok chs"
  shows "\<exists>k. dropWhile cont (drop n (concat chs)) = concat (drop k chs)"
  using assms
proof (induction chs arbitrary: n)
  case (Cons ch chs)
  then have ch: "char_ok ch" by simp
  consider "n = 0" | "0 < n" "n < length ch" | "length ch \<le> n" by linarith
  then show ?case
  proof cases
    case 1
    then have "dropWhile cont (drop n (concat (ch # chs))) = concat (drop 0 (ch # chs))"
      using ch dropWhile_cont_char by simp
    then show ?thesis by blast
  next
    case 2
    have "set (drop n ch) \<subseteq> set (tl ch)"
      using 2(1) by (cases ch; cases n) (auto dest: in_set_dropD)
    then have "\<forall>c \<in> set (drop n ch). cont c"
      using ch by (auto simp: char_ok_def list_all_iff)
    moreover have "dropWhile cont (concat chs) = concat chs"
      using Cons.prems dropWhile_cont_char by (cases chs) auto
    ultimately have "dropWhile cont (drop n (concat (ch # chs))) = concat (drop 1 (ch # chs))"
      using 2(2) by (simp add: dropWhile_append2)
    then show ?thesis by blast
  next
    case 3
    obtain k where "dropWhile cont (drop (n - length ch) (concat chs)) = concat (drop k chs)"
      using Cons by auto
    with 3 have "dropWhile cont (drop n (concat (ch # chs))) = concat (drop (Suc k) (ch # chs))"
      by simp
    then show ?thesis by blast
  qed
qed simp

lemma utf8Tail_suffix: "suffix (utf8Tail s limit) s"
  unfolding utf8Tail_def
  by (meson suffix_decode suffix_drop suffix_dropWhile suffix_order.order_trans)

lemma length_utf8Tail: "length (utf8Tail s limit) \<le> limit"
proof -
  have "length (decode t) \<le> length t" for t by (simp add: suffix_length_le suffix_decode)
  moreover have "length (dropWhile cont t) \<le> length t" for t by (rule length_dropWhile_le)
  moreover have "length (drop (length s - limit) s) \<le> limit" by simp
  ultimately show ?thesis unfolding utf8Tail_def by (meson order_trans)
qed

lemma utf8_ok_utf8Tail:
  assumes "utf8_ok s"
  shows "utf8_ok (utf8Tail s limit)"
proof -
  obtain chs where chs: "s = concat chs" "list_all char_ok chs" using assms by (rule utf8_ok_chars)
  then obtain k where "dropWhile cont (drop (length s - limit) s) = concat (drop k chs)"
    using dropWhile_cont_suffix by metis
  moreover have "list_all char_ok (drop k chs)"
    using chs(2) by (auto simp: list_all_iff dest: in_set_dropD)
  ultimately show ?thesis
    by (simp add: utf8Tail_def utf8_ok_decode utf8_ok_concatI)
qed

lemma utf8Tail_whole:
  assumes "utf8_ok s" "length s \<le> limit"
  shows "utf8Tail s limit = decode s"
proof -
  have "dropWhile cont s = s"
    using assms(1) by (cases s) (auto simp: Let_def char_ok_def take_Cons' split: if_splits)
  with assms(2) show ?thesis by (simp add: utf8Tail_def)
qed

lemma backwards_conts:
  assumes "list_all cont cs" "j \<le> length cs"
  shows "backwards (pre @ c # cs @ suf) (int (length pre + j)) = backwards (pre @ c # cs @ suf) (int (length pre))"
  using assms(2)
proof (induction j)
  case (Suc j)
  then have "cont_at (pre @ c # cs @ suf) (int (length pre + Suc j))"
    using assms(1) by (auto simp: cont_at_def nth_append list_all_length)
  then have "backwards (pre @ c # cs @ suf) (int (length pre + Suc j)) =
      backwards (pre @ c # cs @ suf) (int (length pre + Suc j) - 1)"
    by (subst backwards.simps) (simp only: if_True)
  with Suc show ?case by simp
qed simp

lemma backwards_char:
  assumes "char_ok ch"
  shows "backwards (pre @ ch @ suf) (int (length pre + length ch) - 1) = int (length pre)"
proof -
  obtain c cs where ch: "ch = c # cs" using assms by (cases ch) (auto simp: char_ok_def)
  have c: "\<not> cont c" and cs: "list_all cont cs" using assms by (simp_all add: char_ok_def ch)
  have "backwards (pre @ c # cs @ suf) (int (length pre)) = int (length pre)"
    by (subst backwards.simps) (simp add: cont_at_def nth_append c)
  with backwards_conts [OF cs order_refl, of pre c suf] show ?thesis by (simp add: ch)
qed

lemma tailStart_step:
  assumes "char_ok ch"
  shows "tailStart (pre @ ch @ suf) (int (length pre + length ch)) sz =
    (if sz + json_bytes ch > 4096 then int (length pre + length ch)
     else tailStart (pre @ ch @ suf) (int (length pre)) (sz + json_bytes ch))"
proof -
  have "ch \<noteq> []" using assms by (simp add: char_ok_def)
  then have "0 < int (length pre + length ch)" by (cases ch) simp_all
  moreover have "byte_at (pre @ ch @ suf) (int (length pre)) = byte (hd ch)"
    using assms by (cases ch) (auto simp: byte_at_def nth_append char_ok_def)
  ultimately show ?thesis
    using backwards_char [OF assms, of pre suf] json_bytes_char [OF assms]
    by (subst tailStart.simps) (simp only: if_True Let_def)
qed

lemma tailStart_spec:
  assumes "list_all char_ok chs" "sz \<le> 4096"
  shows "\<exists>k. tailStart (concat chs @ suf) (int (length (concat chs))) sz = int (length (concat (take k chs))) \<and>
    sz + json_bytes (concat (drop k chs)) \<le> 4096 \<and>
    (sz + json_bytes (concat chs) \<le> 4096 \<longrightarrow> k = 0)"
  using assms
proof (induction chs arbitrary: sz suf rule: rev_induct)
  case Nil
  then show ?case by (intro exI [of _ 0]) (simp add: tailStart.simps)
next
  case (snoc ch chs)
  then have ch: "char_ok ch" by simp
  let ?bytes = "concat (chs @ [ch]) @ suf"
  have step: "tailStart ?bytes (int (length (concat (chs @ [ch])))) sz =
      (if sz + json_bytes ch > 4096 then int (length (concat (chs @ [ch])))
       else tailStart (concat chs @ ch @ suf) (int (length (concat chs))) (sz + json_bytes ch))"
    using tailStart_step [OF ch, of "concat chs" suf sz] by simp
  show ?case
  proof (cases "sz + json_bytes ch > 4096")
    case True
    with step snoc.prems show ?thesis by (intro exI [of _ "length chs + 1"]) simp
  next
    case False
    then obtain k where k: "tailStart (concat chs @ ch @ suf) (int (length (concat chs))) (sz + json_bytes ch) =
        int (length (concat (take k chs)))"
      "sz + json_bytes ch + json_bytes (concat (drop k chs)) \<le> 4096"
      "sz + json_bytes ch + json_bytes (concat chs) \<le> 4096 \<longrightarrow> k = 0"
      using snoc.IH [of "sz + json_bytes ch" "ch @ suf"] snoc.prems by auto
    define m where "m = min k (length chs)"
    have "take k chs = take m (chs @ [ch])" "drop m (chs @ [ch]) = drop k chs @ [ch]"
      by (simp_all add: m_def min_def)
    with k False step show ?thesis
      by (intro exI [of _ m]) (auto simp: m_def add_ac)
  qed
qed

lemma outputTail_suffix: "suffix (outputTail s) s"
  unfolding outputTail_def utf8Slice_def Let_def if_True
  by (meson suffix_decode suffix_drop suffix_order.order_trans utf8Tail_suffix)

lemma outputTail_spec:
  assumes "utf8_ok s"
  shows "utf8_ok (outputTail s)" "json_bytes (outputTail s) \<le> 4096"
    and "json_bytes s \<le> 4096 \<Longrightarrow> take 3 s \<noteq> bom \<Longrightarrow> outputTail s = s"
proof -
  obtain chs where chs: "utf8Tail s 4096 = concat chs" "list_all char_ok chs"
    using utf8_ok_utf8Tail [OF assms] by (rule utf8_ok_chars)
  obtain k where k: "tailStart (concat chs) (int (length (concat chs))) 0 = int (length (concat (take k chs)))"
      "json_bytes (concat (drop k chs)) \<le> 4096" "json_bytes (concat chs) \<le> 4096 \<longrightarrow> k = 0"
    using tailStart_spec [OF chs(2), of 0 "[]"] by auto
  have split: "concat chs = concat (take k chs) @ concat (drop k chs)"
    by (metis append_take_drop_id concat_append)
  have out: "outputTail s = decode (concat (drop k chs))"
  proof -
    have "outputTail s = decode (drop (length (concat (take k chs))) (concat chs))"
      using k(1) by (simp add: outputTail_def utf8Slice_def chs(1) Let_def)
    then show ?thesis by (subst (asm) split) simp
  qed
  have ok: "utf8_ok (concat (drop k chs))"
    using chs(2) by (intro utf8_ok_concatI) (auto simp: list_all_iff dest: in_set_dropD)
  show "utf8_ok (outputTail s)" unfolding out by (rule utf8_ok_decode [OF ok])
  show "json_bytes (outputTail s) \<le> 4096"
    unfolding out using json_bytes_suffix [OF suffix_decode] k(2) order_trans by blast
  show "outputTail s = s" if small: "json_bytes s \<le> 4096" and nobom: "take 3 s \<noteq> bom"
  proof -
    have "length s \<le> 4096" using length_le_json_bytes [OF assms] small by simp
    then have "concat chs = s"
      using utf8Tail_whole [OF assms] decode_id [OF nobom] chs(1) by simp
    then show ?thesis using k(3) small nobom by (simp add: out decode_id)
  qed
qed

subsection \<open>Properties\<close>




text \<open>\<open>summarizeOutput\<close> folded over the appends of one stream, as \<open>applyDelta\<close> does.\<close>

fun summarize_all :: "ident \<Rightarrow> output_summary option \<Rightarrow> string list \<Rightarrow> output_summary option" where
  "summarize_all itemId previous [] = previous"
| "summarize_all itemId previous (added # rest) =
     summarize_all itemId (Some (summarizeOutput itemId added previous)) rest"

definition summary_of :: "ident \<Rightarrow> string \<Rightarrow> output_summary option \<Rightarrow> bool" where
  "summary_of itemId stream s = (case s of None \<Rightarrow> stream = [] | Some o' \<Rightarrow>
     out_streamId o' = outputStreamId itemId \<and> out_bytes o' = length stream \<and>
     suffix (out_tail o') stream \<and> utf8_ok (out_tail o') \<and> json_bytes (out_tail o') \<le> 4096 \<and>
     (out_truncated o' \<longleftrightarrow> out_tail o' \<noteq> stream))"

lemma suffix_truncated: "suffix t s \<Longrightarrow> (length s > length t) = (t \<noteq> s)"
  by (auto simp: suffix_def)

lemma summarizeOutput_step:
  assumes s: "summary_of itemId stream previous" and added: "utf8_ok added" "take 3 added \<noteq> bom"
  shows "summary_of itemId (stream @ added) (Some (summarizeOutput itemId added previous))"
proof -
  define old where "old = (case previous of None \<Rightarrow> [] | Some p \<Rightarrow> out_tail p)"
  define kept where "kept = (if length added \<ge> 4096 then added else old @ utf8Slice added 4096 True)"
  have old: "suffix old stream" "utf8_ok old"
    using s by (auto simp: summary_of_def old_def split: option.splits)
  have whole: "utf8Slice added 4096 True = added" if "length added < 4096"
    using utf8Tail_whole [OF added(1), of 4096] that decode_id [OF added(2)] by (simp add: utf8Slice_def)
  have kept: "suffix kept (stream @ added)" "utf8_ok kept"
    using old added whole utf8_ok_appendI
    by (auto simp: kept_def intro: suffix_appendI)
  have tail: "out_tail (summarizeOutput itemId added previous) = outputTail kept"
    by (simp add: summarizeOutput_def Let_def kept_def old_def)
  have "suffix (outputTail kept) (stream @ added)"
    using outputTail_suffix kept(1) suffix_order.order_trans by blast
  moreover have "(case previous of None \<Rightarrow> 0 | Some p \<Rightarrow> out_bytes p) = length stream"
    "(case previous of None \<Rightarrow> outputStreamId itemId | Some p \<Rightarrow> out_streamId p) = outputStreamId itemId"
    using s by (auto simp: summary_of_def split: option.splits)
  moreover have "out_streamId (summarizeOutput itemId added previous) =
        (case previous of None \<Rightarrow> outputStreamId itemId | Some p \<Rightarrow> out_streamId p)"
    "out_bytes (summarizeOutput itemId added previous) =
        (case previous of None \<Rightarrow> 0 | Some p \<Rightarrow> out_bytes p) + length added"
    "out_truncated (summarizeOutput itemId added previous) =
        (out_bytes (summarizeOutput itemId added previous) > length (outputTail kept))"
    by (simp_all add: summarizeOutput_def Let_def kept_def old_def)
  ultimately show ?thesis
    using outputTail_spec(1,2) [OF kept(2)] suffix_truncated [of "outputTail kept" "stream @ added"]
    by (simp add: summary_of_def tail)
qed



end
