(* ===== verification/Core_State.thy ===== *)
theory Core_State
  imports Protocol
begin

text \<open>
  The facts adapters report and the state the core folds them into
  (src/packages/core/src/facts.ts, src/packages/core/src/state.ts).

  An \<open>agent_record\<close>, the live indexes and the thread state are records with one field per
  property of the source; an absent optional property is \<^const>\<open>None\<close>, and a
  \<open>Record<Key, T>\<close> is a \<^typ>\<open>'v dict\<close>. Operations that mutate the state, allocate identities
  and append to the event list take and return one \<open>world\<close>: the thread state extended by the
  events emitted so far and the number of identities drawn. The clock, the identity source and the
  two zod schemas the core applies to data it carries are fields of \<open>apply_context\<close>.
\<close>

subsection \<open>Facts (facts.ts)\<close>

record detail_draft =
  dd_kind :: "tool_kind option"
  dd_output :: "string option"
  dd_childAgent :: "key option"
  dd_targetAgent :: "key option"
  dd_rest :: fields

record call_draft =
  cd_kind :: "tool_kind option"
  cd_title :: "string option"
  cd_status :: "tool_status option"
  cd_detail :: "detail_draft option"
  cd_error :: "string option"
  cd_startedAt :: "timestamp option"
  cd_endedAt :: "timestamp option"
  cd_raw :: "raw_payload list option"
  cd_rest :: fields

datatype draft_body =
    D_message "message_role option" "content_part list option"
  | D_reasoning "string option" "text_source option"
  | D_tool_call "call_draft option"
  | D_notice "notice_level option" "string option" "text_source option"
  | D_compaction
  | D_other string

record item_draft =
  dr_complete :: "bool option"
  dr_body :: draft_body
  dr_raw :: "raw_payload list option"
  dr_rest :: fields

datatype retry_on = On_rate_limit_retry | On_network_retry | On_upstream_retry

record retry =
  rt_on :: retry_on
  rt_attempt :: "nat option"
  rt_until :: "timestamp option"
  rt_message :: "string option"

record agent_seen =
  seen_agent :: key
  seen_parent :: "key option"
  seen_spawnedBy :: "key option"
  seen_origin :: agent_origin
  seen_lineage :: "json option"
  seen_fidelity :: agent_fidelity
  seen_native :: native_ref
  seen_cwd :: string
  seen_name :: "string option"
  seen_role :: "string option"
  seen_model :: "string option"
  seen_background :: "bool option"
  seen_machine :: "json option"

record agent_linked =
  lnk_agent :: key
  lnk_parent :: "key option"
  lnk_spawnedBy :: "key option"
  lnk_background :: "bool option"
  lnk_name :: "string option"
  lnk_model :: "string option"

record turn_started =
  ts_agent :: key
  ts_nativeTurnId :: "string option"
  ts_trigger :: run_trigger
  ts_permissionMode :: "string option option"

datatype outcome = Completed | Was_interrupted | Has_failed

record turn_ended =
  te_agent :: key
  te_nativeTurnId :: "string option"
  te_outcome :: outcome
  te_endedBy_steer :: bool
  te_trigger :: "run_trigger option"
  te_error :: "agent_error option"
  te_historical :: bool

record interaction_opened =
  io_agent :: key
  io_interaction :: key
  io_blocking :: bool
  io_request :: interaction_request
  io_item :: "key option"
  io_raw :: "raw_payload list option"

datatype close_state = Cl_resolved | Cl_cancelled | Cl_expired

record interaction_closed =
  ic_interaction :: key
  ic_state :: close_state
  ic_resolution :: "interaction_resolution option"
  ic_resolvedBy :: "ident option"
  ic_autoReviewed :: "bool option"

record background_started =
  bs_owner_ace :: bool
  bs_agent :: key
  bs_task :: key
  bs_kind :: task_kind
  bs_title :: string
  bs_item :: "key option"
  bs_childAgent :: "key option"
  bs_ambient :: "bool option"
  bs_internal :: bool
  bs_stoppable :: bool
  bs_outputPath :: "string option"
  bs_wakesAgent_false :: bool
  bs_raw :: "raw_payload list option"

datatype end_status = End_completed | End_failed | End_stopped | End_unknown
datatype queue_source = Engine | Provider

datatype fact =
    F_agent_external key ident thread_status
  | F_agent_seen agent_seen
  | F_agent_linked agent_linked
  | F_input_admitted key string "string option"
  | F_input_consumed key "string list"
  | F_turn_started turn_started
  | F_turn_ended turn_ended
  | F_subagents_waiting key key "key list"
  | F_activity key agent_activity "string option"
  | F_item_upsert key key item_draft
  | F_item_reconciled key key item_draft
  | F_item_delta key key delta_field string
  | F_interaction_opened interaction_opened
  | F_interaction_closed interaction_closed
  | F_background_started background_started
  | F_background_listening key "nat list"
  | F_background_ended key end_status bool
  | F_retry key retry
  | F_agent_disconnected key
  | F_agent_reconnected key
  | F_retry_cleared key
  | F_limit_cleared key
  | F_wake_expected key timestamp
  | F_goal_updated key "json option"
  | F_usage key fields
  | F_context_sample key fields
  | F_signal "key option"
  | F_process_started
  | F_process_exited bool "string option"
  | F_queue_changed nat "queue_source option" "bool option" "bool option"
  | F_tick

text \<open>\<open>"agent" in fact && fact.agent !== undefined\<close>.\<close>

fun fact_agent :: "fact \<Rightarrow> key option" where
  "fact_agent (F_agent_external a _ _) = Some a"
| "fact_agent (F_agent_seen f) = Some (seen_agent f)"
| "fact_agent (F_agent_linked f) = Some (lnk_agent f)"
| "fact_agent (F_input_admitted a _ _) = Some a"
| "fact_agent (F_input_consumed a _) = Some a"
| "fact_agent (F_turn_started f) = Some (ts_agent f)"
| "fact_agent (F_turn_ended f) = Some (te_agent f)"
| "fact_agent (F_subagents_waiting a _ _) = Some a"
| "fact_agent (F_activity a _ _) = Some a"
| "fact_agent (F_item_upsert a _ _) = Some a"
| "fact_agent (F_item_reconciled a _ _) = Some a"
| "fact_agent (F_item_delta a _ _ _) = Some a"
| "fact_agent (F_interaction_opened f) = Some (io_agent f)"
| "fact_agent (F_interaction_closed f) = None"
| "fact_agent (F_background_started f) = Some (bs_agent f)"
| "fact_agent (F_background_listening _ _) = None"
| "fact_agent (F_background_ended _ _ _) = None"
| "fact_agent (F_retry a _) = Some a"
| "fact_agent (F_agent_disconnected a) = Some a"
| "fact_agent (F_agent_reconnected a) = Some a"
| "fact_agent (F_retry_cleared a) = Some a"
| "fact_agent (F_limit_cleared a) = Some a"
| "fact_agent (F_wake_expected a _) = Some a"
| "fact_agent (F_goal_updated a _) = Some a"
| "fact_agent (F_usage a _) = Some a"
| "fact_agent (F_context_sample a _) = Some a"
| "fact_agent (F_signal a) = a"
| "fact_agent F_process_started = None"
| "fact_agent (F_process_exited _ _) = None"
| "fact_agent (F_queue_changed _ _ _ _) = None"
| "fact_agent F_tick = None"

subsection \<open>Configuration and context (state.ts)\<close>

datatype liveness = Live_agent | Live_transport
datatype id_kind = Id_agent | Id_run | Id_item | Id_interaction | Id_task

record core_config =
  cfg_provider :: provider_kind
  cfg_silenceMs :: int
  cfg_liveness :: "liveness option"

abbreviation by_transport :: "core_config \<Rightarrow> bool" where
  "by_transport cfg \<equiv> cfg_liveness cfg = Some Live_transport"

text \<open>
  \<open>ids\<close> answers the n-th call of \<open>IdSource.next\<close>. \<open>item_schema\<close> and \<open>request_schema\<close>
  are what zod makes of the carried fields of a candidate item (item, call and detail) and of an
  interaction request; \<^const>\<open>None\<close> is a parse error.
\<close>

record apply_context =
  now :: timestamp
  ids :: "id_kind \<Rightarrow> nat \<Rightarrow> ident"
  resolving :: "ident list"
  item_schema :: "item \<Rightarrow> (fields \<times> fields \<times> fields) option"
  request_schema :: "interaction_request \<Rightarrow> fields option"

subsection \<open>Agent records and the thread state (state.ts)\<close>

record limit =
  lim_until :: "timestamp option"
  lim_message :: "string option"

record agent_record =
  ar_agent :: agent
  ar_externalStatus :: "thread_status option"
  ar_activeRun :: "ident option"
  ar_completionRelevant :: "bool option"
  ar_lastRun :: "ident option"
  ar_nativeRuns :: "ident dict"
  ar_lastOutcomeOrder :: "nat option"
  ar_lastSuccessfulOutcomeOrder :: "nat option"
  ar_lastError :: "agent_error option"
  ar_processSettledStatus :: "agent_status option"
  ar_activity :: agent_activity
  ar_detail :: "string option"
  ar_lastSignalAt :: timestamp
  ar_disconnectedAt :: "timestamp option"
  ar_limited :: "limit option"
  ar_retry :: "retry option"
  ar_wakeUntil :: "timestamp option"
  ar_parentKey :: "key option"
  ar_spawnedByKey :: "key option"

record live_indexes =
  liveTools :: "unit dict"
  openText :: "unit dict"
  pendingInteractions :: "unit dict"
  runningTasks :: "unit dict"
  agentKeysById :: "key dict"
  childrenByParent :: "unit dict dict"
  pendingSpawnLinks :: "unit dict dict"
  pendingItemLinks :: "unit dict"

record process_exit =
  exit_deliberate :: bool
  exit_message :: "string option"
  exit_unsettled :: "key list"

record pending_notice =
  pn_createdAt :: timestamp
  pn_text :: string
  pn_raw :: "raw_payload list"

record rejection_notice =
  rn_item :: key
  rn_count :: nat

record rejection_notices =
  rns_run :: ident
  rns_notices :: "rejection_notice dict"

record item_link =
  lk_childAgent :: "key option"
  lk_targetAgent :: "key option"
  lk_waitingFor :: "key list option"

record thread_state =
  st_threadId :: ident
  st_config :: core_config
  st_rootKey :: "key option"
  st_initialRoot :: "agent_seen option"
  st_processExit :: "process_exit option"
  st_lastTransportSignalAt :: "timestamp option"
  st_statusObservedAt :: "timestamp option"
  st_agents :: "agent_record dict"
  st_runs :: "run dict"
  st_items :: "item dict"
  st_interactions :: "interaction dict"
  st_tasks :: "background_task dict"
  st_uncertainTasks :: "unit dict"
  st_interactionHistory :: "interaction dict"
  st_taskHistory :: "background_task dict"
  st_indexes :: live_indexes
  st_outcomeOrder :: nat
  st_pendingNotices :: "pending_notice list"
  st_rejectionNotices :: "rejection_notices option"
  st_itemLinks :: "item_link dict"
  st_queueCount :: nat
  st_queueEngine :: nat
  st_queueProvider :: nat
  st_queueHeld :: bool
  st_queueStopped :: bool
  st_hasRun :: bool
  st_status :: thread_status

record world = thread_state +
  w_events :: "event list"
  w_seq :: nat

type_synonym 'a state = "'a thread_state_scheme"

definition no_indexes :: live_indexes where
  "no_indexes = \<lparr>liveTools = [], openText = [], pendingInteractions = [], runningTasks = [],
     agentKeysById = [], childrenByParent = [], pendingSpawnLinks = [], pendingItemLinks = []\<rparr>"

text \<open>
  \<open>createThreadState\<close>: a negative silence threshold throws. A root given up front is kept as the
  fact \<open>agent.seen\<close> with origin root that \<open>ensureInitialRoot\<close> makes of it.
\<close>

definition createThreadState :: "ident \<Rightarrow> agent_seen option \<Rightarrow> core_config \<Rightarrow> thread_state option" where
  "createThreadState threadId rootAgent config =
     (if cfg_silenceMs config < 0 then None
      else Some \<lparr>st_threadId = threadId, st_config = config, st_rootKey = None,
        st_initialRoot = rootAgent,
        st_processExit = None, st_lastTransportSignalAt = None, st_statusObservedAt = None,
        st_agents = [], st_runs = [], st_items = [], st_interactions = [], st_tasks = [],
        st_uncertainTasks = [], st_interactionHistory = [], st_taskHistory = [],
        st_indexes = no_indexes, st_outcomeOrder = 0, st_pendingNotices = [],
        st_rejectionNotices = None, st_itemLinks = [], st_queueCount = 0, st_queueEngine = 0,
        st_queueProvider = 0, st_queueHeld = False, st_queueStopped = False, st_hasRun = False,
        st_status = New\<rparr>)"

subsection \<open>Effects\<close>

text \<open>\<open>emit\<close>: events are snapshots, appended in order.\<close>

definition emit :: "event \<Rightarrow> world \<Rightarrow> world" where
  "emit e w = w\<lparr>w_events := w_events w @ [e]\<rparr>"

text \<open>\<open>ctx.ids.next(kind)\<close>.\<close>

definition next_id :: "apply_context \<Rightarrow> id_kind \<Rightarrow> world \<Rightarrow> ident \<times> world" where
  "next_id ctx k w = (ids ctx k (w_seq w), w\<lparr>w_seq := Suc (w_seq w)\<rparr>)"

text \<open>Writes through the reference to an agent record.\<close>

definition upd_agent :: "key \<Rightarrow> (agent_record \<Rightarrow> agent_record) \<Rightarrow> 'a state \<Rightarrow> 'a state" where
  "upd_agent k f s = s\<lparr>st_agents := modify (st_agents s) k f\<rparr>"

definition upd_indexes :: "(live_indexes \<Rightarrow> live_indexes) \<Rightarrow> 'a state \<Rightarrow> 'a state" where
  "upd_indexes f s = s\<lparr>st_indexes := f (st_indexes s)\<rparr>"

definition put_item :: "key \<Rightarrow> item \<Rightarrow> 'a state \<Rightarrow> 'a state" where
  "put_item k i s = s\<lparr>st_items := put (st_items s) k i\<rparr>"

definition put_run :: "ident \<Rightarrow> run \<Rightarrow> 'a state \<Rightarrow> 'a state" where
  "put_run k r s = s\<lparr>st_runs := put (st_runs s) k r\<rparr>"

definition put_interaction :: "key \<Rightarrow> interaction \<Rightarrow> 'a state \<Rightarrow> 'a state" where
  "put_interaction k i s = s\<lparr>st_interactions := put (st_interactions s) k i\<rparr>"

definition put_task :: "key \<Rightarrow> background_task \<Rightarrow> 'a state \<Rightarrow> 'a state" where
  "put_task k t s = s\<lparr>st_tasks := put (st_tasks s) k t\<rparr>"

definition put_link :: "key \<Rightarrow> item_link \<Rightarrow> 'a state \<Rightarrow> 'a state" where
  "put_link k l s = s\<lparr>st_itemLinks := put (st_itemLinks s) k l\<rparr>"

definition no_link :: item_link where
  "no_link = \<lparr>lk_childAgent = None, lk_targetAgent = None, lk_waitingFor = None\<rparr>"

definition link_of :: "'a state \<Rightarrow> key \<Rightarrow> item_link" where
  "link_of s k = (case get (st_itemLinks s) k of None \<Rightarrow> no_link | Some l \<Rightarrow> l)"

text \<open>The frame of each effect: the other fields stay as they were.\<close>

lemmas effect_defs = emit_def next_id_def upd_agent_def upd_indexes_def put_item_def put_run_def
  put_interaction_def put_task_def put_link_def

lemma emit_frame [simp, frame_simps]:
  "st_agents (emit e w) = st_agents w" "st_runs (emit e w) = st_runs w"
  "st_items (emit e w) = st_items w" "st_interactions (emit e w) = st_interactions w"
  "st_tasks (emit e w) = st_tasks w" "st_indexes (emit e w) = st_indexes w"
  "st_rootKey (emit e w) = st_rootKey w" "st_itemLinks (emit e w) = st_itemLinks w"
  "st_uncertainTasks (emit e w) = st_uncertainTasks w" "w_seq (emit e w) = w_seq w"
  "st_threadId (emit e w) = st_threadId w" "st_config (emit e w) = st_config w"
  "w_events (emit e w) = w_events w @ [e]"
  by (simp_all add: emit_def)

lemma upd_agent_frame [simp, frame_simps]:
  "st_agents (upd_agent k f s) = modify (st_agents s) k f" "st_runs (upd_agent k f s) = st_runs s"
  "st_items (upd_agent k f s) = st_items s" "st_interactions (upd_agent k f s) = st_interactions s"
  "st_tasks (upd_agent k f s) = st_tasks s" "st_indexes (upd_agent k f s) = st_indexes s"
  "st_rootKey (upd_agent k f s) = st_rootKey s" "st_itemLinks (upd_agent k f s) = st_itemLinks s"
  "st_uncertainTasks (upd_agent k f s) = st_uncertainTasks s"
  by (simp_all add: upd_agent_def)

lemma upd_agent_world [simp, frame_simps]:
  "w_events (upd_agent k f w) = w_events w" "w_seq (upd_agent k f w) = w_seq w"
  by (simp_all add: upd_agent_def)

end
