(* ===== verification/Core_Indexes.thy ===== *)
theory Core_Indexes
  imports Core_State
begin

text \<open>
  The live indexes of src/packages/core/src/indexes.ts: the sets of keys whose item, interaction or
  task is still open, and the two agent indexes. The contract every live index keeps (a refresh
  after a write at one key restores the agreement between the index and the entities) is the locale
  \<open>live_index\<close>, interpreted on the four indexes of the state.
\<close>

subsection \<open>Definitions\<close>

definition live_status :: "tool_status \<Rightarrow> bool" where
  "live_status s \<longleftrightarrow> s \<in> {T_running, T_pending, T_awaiting_approval}"

fun isLiveTool :: "item \<Rightarrow> bool" where
  "isLiveTool i = (case item_body i of Tool_call c \<Rightarrow> live_status (call_status c) | _ \<Rightarrow> False)"

fun isOpenText :: "item \<Rightarrow> bool" where
  "isOpenText i = (\<not> item_complete i \<and> (case item_body i of
       Reasoning _ _ \<Rightarrow> True
     | Compaction \<Rightarrow> True
     | Message r _ \<Rightarrow> r = Assistant_role
     | _ \<Rightarrow> False))"

declare isLiveTool.simps [simp del] isOpenText.simps [simp del]

definition mark :: "bool \<Rightarrow> unit dict \<Rightarrow> key \<Rightarrow> unit dict" where
  "mark b d k = (if b then put d k () else del d k)"

definition registerItemLink :: "key \<Rightarrow> 'a state \<Rightarrow> 'a state" where
  "registerItemLink itemKey = upd_indexes (\<lambda>ix. ix\<lparr>pendingItemLinks := put (pendingItemLinks ix) itemKey ()\<rparr>)"

definition refreshItemIndex :: "key \<Rightarrow> 'a state \<Rightarrow> 'a state" where
  "refreshItemIndex k s =
     (let item = get (st_items s) k;
          s1 = upd_indexes (\<lambda>ix. ix\<lparr>
            liveTools := mark (case item of None \<Rightarrow> False | Some i \<Rightarrow> isLiveTool i) (liveTools ix) k,
            openText := mark (case item of None \<Rightarrow> False | Some i \<Rightarrow> isOpenText i) (openText ix) k\<rparr>) s
      in if has (st_itemLinks s) k then registerItemLink k s1 else s1)"

definition refreshInteractionIndex :: "key \<Rightarrow> 'a state \<Rightarrow> 'a state" where
  "refreshInteractionIndex k s = upd_indexes (\<lambda>ix. ix\<lparr>pendingInteractions := mark
     (case get (st_interactions s) k of None \<Rightarrow> False | Some i \<Rightarrow> int_state i = Int_pending)
     (pendingInteractions ix) k\<rparr>) s"

definition refreshTaskIndex :: "key \<Rightarrow> 'a state \<Rightarrow> 'a state" where
  "refreshTaskIndex k s = upd_indexes (\<lambda>ix. ix\<lparr>runningTasks := mark
     (case get (st_tasks s) k of None \<Rightarrow> False
      | Some t \<Rightarrow> task_status t = Task_running \<or> task_status t = Task_unknown \<and> has (st_uncertainTasks s) k)
     (runningTasks ix) k\<rparr>) s"

text \<open>\<open>previousParentId\<close> is \<^const>\<open>None\<close> for both null and undefined, which the code treats alike.\<close>

definition refreshAgentIndex :: "key \<Rightarrow> ident option \<Rightarrow> 'a state \<Rightarrow> 'a state" where
  "refreshAgentIndex k previousParentId s =
     (case get (st_agents s) k of
        None \<Rightarrow> s
      | Some r \<Rightarrow> upd_indexes (\<lambda>ix.
          let byId = put (agentKeysById ix) (a_id (ar_agent r)) k;
              children1 = (case previousParentId of
                  None \<Rightarrow> childrenByParent ix
                | Some pid \<Rightarrow> if previousParentId \<noteq> a_parentId (ar_agent r)
                    then modify (childrenByParent ix) pid (\<lambda>previous. del previous k)
                    else childrenByParent ix);
              children2 = (case a_parentId (ar_agent r) of
                  None \<Rightarrow> children1
                | Some pid \<Rightarrow> put children1 pid (put (case get children1 pid of None \<Rightarrow> [] | Some c \<Rightarrow> c) k ()))
          in ix\<lparr>agentKeysById := byId, childrenByParent := children2\<rparr>) s)"

definition registerSpawnLink :: "key \<Rightarrow> key \<Rightarrow> 'a state \<Rightarrow> 'a state" where
  "registerSpawnLink agentKey itemKey = upd_indexes (\<lambda>ix. ix\<lparr>pendingSpawnLinks :=
     put (pendingSpawnLinks ix) itemKey
       (put (case get (pendingSpawnLinks ix) itemKey of None \<Rightarrow> [] | Some a \<Rightarrow> a) agentKey ())\<rparr>)"

text \<open>The readers: the keys of one index, optionally of one agent only.\<close>

definition owned :: "('v \<Rightarrow> ident) \<Rightarrow> 'v dict \<Rightarrow> ident option \<Rightarrow> key \<Rightarrow> bool" where
  "owned owner d agentId k = (case agentId of None \<Rightarrow> True
     | Some a \<Rightarrow> map_option owner (get d k) = Some a)"

definition liveToolKeys :: "'a state \<Rightarrow> ident option \<Rightarrow> key list" where
  "liveToolKeys s agentId = filter (owned item_agentId (st_items s) agentId) (okeys (liveTools (st_indexes s)))"

definition pendingInteractionKeys :: "'a state \<Rightarrow> ident option \<Rightarrow> key list" where
  "pendingInteractionKeys s agentId =
     filter (owned int_agentId (st_interactions s) agentId) (okeys (pendingInteractions (st_indexes s)))"

definition runningTaskKeys :: "'a state \<Rightarrow> ident option \<Rightarrow> key list" where
  "runningTaskKeys s agentId = filter (owned task_agentId (st_tasks s) agentId) (okeys (runningTasks (st_indexes s)))"

definition openTextKeys :: "'a state \<Rightarrow> ident option \<Rightarrow> key list" where
  "openTextKeys s agentId = filter (owned item_agentId (st_items s) agentId) (okeys (openText (st_indexes s)))"

text \<open>The keys under a parent id.\<close>

definition childKeys :: "live_indexes \<Rightarrow> ident \<Rightarrow> key list" where
  "childKeys ix agentId = okeys (case get (childrenByParent ix) agentId of None \<Rightarrow> [] | Some c \<Rightarrow> c)"

subsection \<open>The contract of a live index\<close>

lemma has_mark [simp]: "has (mark b d k) k' \<longleftrightarrow> (if k = k' then b else has d k')"
  by (simp add: mark_def)

lemma mark_frame [simp]:
  "st_agents (upd_indexes f s) = st_agents s" "st_runs (upd_indexes f s) = st_runs s"
  "st_items (upd_indexes f s) = st_items s" "st_interactions (upd_indexes f s) = st_interactions s"
  "st_tasks (upd_indexes f s) = st_tasks s" "st_indexes (upd_indexes f s) = f (st_indexes s)"
  "st_rootKey (upd_indexes f s) = st_rootKey s" "st_itemLinks (upd_indexes f s) = st_itemLinks s"
  "st_uncertainTasks (upd_indexes f s) = st_uncertainTasks s"
  by (simp_all add: upd_indexes_def)

locale live_index =
  fixes live :: "'s \<Rightarrow> key \<Rightarrow> bool"
    and index :: "'s \<Rightarrow> unit dict"
    and refresh :: "key \<Rightarrow> 's \<Rightarrow> 's"
  assumes refresh_index: "has (index (refresh k s)) k' \<longleftrightarrow> (if k = k' then live s k else has (index s) k')"
    and refresh_live: "live (refresh k s) k' = live s k'"
begin

definition consistent :: "'s \<Rightarrow> bool" where
  "consistent s \<longleftrightarrow> (\<forall>k. has (index s) k \<longleftrightarrow> live s k)"

lemma consistent_keys: "consistent s \<Longrightarrow> set (okeys (index s)) = {k. live s k}"
  by (simp add: consistent_def)

lemma consistent_refresh: "consistent s \<Longrightarrow> consistent (refresh k s)"
  by (simp add: consistent_def refresh_index refresh_live)

text \<open>A write at one key followed by a refresh of that key.\<close>

lemma consistent_write:
  assumes "consistent s" and "index s' = index s" and "\<And>k'. k' \<noteq> k \<Longrightarrow> live s' k' = live s k'"
  shows "consistent (refresh k s')"
  using assms by (simp add: consistent_def refresh_index refresh_live)

text \<open>Writes that leave the entities and the index alone.\<close>

lemma consistent_frame:
  assumes "consistent s" and "index s' = index s" and "live s' = live s"
  shows "consistent s'"
  using assms by (simp add: consistent_def)

end

definition tool_live :: "'a state \<Rightarrow> key \<Rightarrow> bool" where
  "tool_live s k = (case get (st_items s) k of None \<Rightarrow> False | Some i \<Rightarrow> isLiveTool i)"

definition text_open :: "'a state \<Rightarrow> key \<Rightarrow> bool" where
  "text_open s k = (case get (st_items s) k of None \<Rightarrow> False | Some i \<Rightarrow> isOpenText i)"

definition interaction_live :: "'a state \<Rightarrow> key \<Rightarrow> bool" where
  "interaction_live s k =
     (case get (st_interactions s) k of None \<Rightarrow> False | Some i \<Rightarrow> int_state i = Int_pending)"

definition task_live :: "'a state \<Rightarrow> key \<Rightarrow> bool" where
  "task_live s k = (case get (st_tasks s) k of None \<Rightarrow> False
     | Some t \<Rightarrow> task_status t = Task_running \<or> task_status t = Task_unknown \<and> has (st_uncertainTasks s) k)"

abbreviation "live_tools s \<equiv> liveTools (st_indexes s)"
abbreviation "open_text s \<equiv> openText (st_indexes s)"
abbreviation "pending_ints s \<equiv> pendingInteractions (st_indexes s)"
abbreviation "running_tasks s \<equiv> runningTasks (st_indexes s)"

lemmas live_defs = tool_live_def text_open_def interaction_live_def task_live_def

interpretation tools: live_index "tool_live :: 'a state \<Rightarrow> _" "\<lambda>s. live_tools s" refreshItemIndex
  by unfold_locales (auto simp: refreshItemIndex_def registerItemLink_def tool_live_def Let_def)

interpretation texts: live_index "text_open :: 'a state \<Rightarrow> _" "\<lambda>s. open_text s" refreshItemIndex
  by unfold_locales (auto simp: refreshItemIndex_def registerItemLink_def text_open_def Let_def)

interpretation ints: live_index "interaction_live :: 'a state \<Rightarrow> _" "\<lambda>s. pending_ints s"
    refreshInteractionIndex
  by unfold_locales (auto simp: refreshInteractionIndex_def interaction_live_def)

interpretation bgs: live_index "task_live :: 'a state \<Rightarrow> _" "\<lambda>s. running_tasks s" refreshTaskIndex
  by unfold_locales (auto simp: refreshTaskIndex_def task_live_def split: option.splits)

end
