(* ===== verification/Core_Tree.thy ===== *)
theory Core_Tree
  imports Core_Indexes
begin

text \<open>
  The agent tree (src/packages/core/src/tree.ts): placeholders for agents whose frames arrive
  first, links to parents and to the tool call that spawned an agent, and the choice of the root.
  \<^const>\<open>None\<close> is a thrown exception.
\<close>

subsection \<open>Definitions\<close>

definition agent_of :: "'a state \<Rightarrow> key \<Rightarrow> agent option" where
  "agent_of s k = map_option ar_agent (get (st_agents s) k)"

definition parent_of :: "'a state \<Rightarrow> key \<Rightarrow> key option" where
  "parent_of s k = Option.bind (get (st_agents s) k) ar_parentKey"

text \<open>The walk up the parent keys with a visited set, as the loops of the core do it.\<close>

definition ancestors :: "'a state \<Rightarrow> key \<Rightarrow> key list" where
  "ancestors s k = chain (parent_of s) (map fst (st_agents s)) [] k"

definition created_ids :: "event list \<Rightarrow> ident list" where
  "created_ids es = List.map_filter (\<lambda>e. case e of Agent_created a \<Rightarrow> Some (a_id a) | _ \<Rightarrow> None) es"

definition announceAgentBranch :: "key \<Rightarrow> world \<Rightarrow> world" where
  "announceAgentBranch k w =
     (let branch = List.map_filter (agent_of w) (ancestors w k);
          announced = created_ids (w_events w)
      in fold (\<lambda>a w. if a_id a \<in> set announced then w else emit (Agent_created a) w) (rev branch) w)"

definition placeholder_agent :: "apply_context \<Rightarrow> ident \<Rightarrow> key \<Rightarrow> 'a state \<Rightarrow> agent" where
  "placeholder_agent ctx agentId k s =
     (let root = Option.bind (st_rootKey s) (agent_of s) in
      \<lparr>a_id = agentId, a_threadId = st_threadId s, a_childThreadId = None, a_machine = None,
       a_parentId = map_option a_id root,
       a_origin = (if root = None then Root else Provider_subagent),
       a_lineage = None,
       a_native = \<lparr>nat_provider = (case root of None \<Rightarrow> cfg_provider (st_config s)
                                    | Some r \<Rightarrow> nat_provider (a_native r)),
                   nat_nativeId = Some k, nat_rest = []\<rparr>,
       a_fidelity = Placeholder, a_spawnedBy = None, a_name = None, a_role = None, a_model = None,
       a_cwd = (case root of None \<Rightarrow> [] | Some r \<Rightarrow> a_cwd r),
       a_status = Starting, a_background = False, a_createdAt = now ctx\<rparr>)"

definition new_record :: "agent \<Rightarrow> timestamp \<Rightarrow> key option \<Rightarrow> agent_record" where
  "new_record a t parentKey =
     \<lparr>ar_agent = a, ar_externalStatus = None, ar_activeRun = None, ar_completionRelevant = None,
      ar_lastRun = None, ar_nativeRuns = [], ar_lastOutcomeOrder = None,
      ar_lastSuccessfulOutcomeOrder = None, ar_lastError = None, ar_processSettledStatus = None,
      ar_activity = Starting_turn, ar_detail = None, ar_lastSignalAt = t, ar_disconnectedAt = None,
      ar_limited = None, ar_retry = None, ar_wakeUntil = None, ar_parentKey = parentKey,
      ar_spawnedByKey = None\<rparr>"

definition ensureAgent :: "apply_context \<Rightarrow> key \<Rightarrow> world \<Rightarrow> world" where
  "ensureAgent ctx k w =
     (if has (st_agents w) k then w
      else
        let (agentId, w1) = next_id ctx Id_agent w;
            a = placeholder_agent ctx agentId k w1;
            w2 = w1\<lparr>st_agents := put (st_agents w1) k (new_record a (now ctx) (st_rootKey w1))\<rparr>;
            w3 = refreshAgentIndex k None w2;
            w4 = (if st_rootKey w3 = None then w3\<lparr>st_rootKey := Some k\<rparr> else w3)
        in emit (Agent_created a) w4)"

definition no_update :: agent_update where
  "no_update = \<lparr>u_childThreadId = None, u_machine = None, u_parentId = None, u_origin = None,
     u_lineage = None, u_fidelity = None, u_native = None, u_cwd = None, u_name = None,
     u_role = None, u_model = None, u_spawnedBy = None, u_background = None\<rparr>"

text \<open>A field changes when it is given and differs from the agent's; \<open>cur\<close> is the agent's value,
  \<^const>\<open>None\<close> when absent.\<close>

definition changed :: "'v option \<Rightarrow> 'v option \<Rightarrow> 'v option" where
  "changed cur new = (if new = None \<or> cur = new then None else new)"

definition diff_update :: "agent \<Rightarrow> agent_update \<Rightarrow> agent_update" where
  "diff_update a u = \<lparr>
     u_childThreadId = changed (a_childThreadId a) (u_childThreadId u),
     u_machine = changed (a_machine a) (u_machine u),
     u_parentId = changed (Some (a_parentId a)) (u_parentId u),
     u_origin = changed (Some (a_origin a)) (u_origin u),
     u_lineage = changed (a_lineage a) (u_lineage u),
     u_fidelity = changed (Some (a_fidelity a)) (u_fidelity u),
     u_native = changed (Some (a_native a)) (u_native u),
     u_cwd = changed (Some (a_cwd a)) (u_cwd u),
     u_name = changed (a_name a) (u_name u),
     u_role = changed (a_role a) (u_role u),
     u_model = changed (a_model a) (u_model u),
     u_spawnedBy = changed (a_spawnedBy a) (u_spawnedBy u),
     u_background = changed (Some (a_background a)) (u_background u)\<rparr>"

definition orelse :: "'v option \<Rightarrow> 'v option \<Rightarrow> 'v option" where
  "orelse new cur = (case new of None \<Rightarrow> cur | Some v \<Rightarrow> Some v)"

definition given :: "'v option \<Rightarrow> 'v \<Rightarrow> 'v" where
  "given new cur = (case new of None \<Rightarrow> cur | Some v \<Rightarrow> v)"

text \<open>\<open>Object.assign(record.agent, changed)\<close>.\<close>

definition apply_update :: "agent_update \<Rightarrow> agent \<Rightarrow> agent" where
  "apply_update u a = a\<lparr>
     a_childThreadId := orelse (u_childThreadId u) (a_childThreadId a),
     a_machine := orelse (u_machine u) (a_machine a),
     a_parentId := given (u_parentId u) (a_parentId a),
     a_origin := given (u_origin u) (a_origin a),
     a_lineage := orelse (u_lineage u) (a_lineage a),
     a_fidelity := given (u_fidelity u) (a_fidelity a),
     a_native := given (u_native u) (a_native a),
     a_cwd := given (u_cwd u) (a_cwd a),
     a_name := orelse (u_name u) (a_name a),
     a_role := orelse (u_role u) (a_role a),
     a_model := orelse (u_model u) (a_model a),
     a_spawnedBy := orelse (u_spawnedBy u) (a_spawnedBy a),
     a_background := given (u_background u) (a_background a)\<rparr>"

definition changeAgent :: "key \<Rightarrow> agent_update \<Rightarrow> world \<Rightarrow> world" where
  "changeAgent k u w =
     (case get (st_agents w) k of None \<Rightarrow> w
      | Some r \<Rightarrow>
          let c = diff_update (ar_agent r) u in
          if c = no_update then w
          else emit (Agent_updated (a_id (ar_agent r)) c)
                 (upd_agent k (\<lambda>r. r\<lparr>ar_agent := apply_update c (ar_agent r)\<rparr>) w))"

definition clears_spawn :: "agent_record \<Rightarrow> key option \<Rightarrow> bool" where
  "clears_spawn r parentKey \<longleftrightarrow> ar_parentKey r \<noteq> parentKey \<and>
     (ar_spawnedByKey r \<noteq> None \<or> a_spawnedBy (ar_agent r) \<notin> {None, Some None})"

text \<open>The write both branches of \<open>setParent\<close> make once the new parent's id is known.\<close>

definition link_parent :: "key \<Rightarrow> key option \<Rightarrow> ident option \<Rightarrow> bool \<Rightarrow> world \<Rightarrow> world" where
  "link_parent k parentKey parentId clears w =
     (let w1 = upd_agent k (\<lambda>r. r\<lparr>ar_spawnedByKey := (if clears then None else ar_spawnedByKey r),
                                   ar_parentKey := parentKey\<rparr>) w;
          previousParentId = Option.bind (agent_of w1 k) a_parentId;
          w2 = changeAgent k (no_update\<lparr>u_parentId := Some parentId,
                 u_spawnedBy := (if clears then Some None else None)\<rparr>) w1
      in refreshAgentIndex k previousParentId w2)"

definition setParent :: "apply_context \<Rightarrow> key \<Rightarrow> key option \<Rightarrow> world \<Rightarrow> world option" where
  "setParent ctx k parentKey w0 = do {
     let w = ensureAgent ctx k w0;
     if parentKey = Some k then None
     else do {
       r \<leftarrow> get (st_agents w) k;
       let clears = clears_spawn r parentKey;
       case parentKey of
         None \<Rightarrow> Some (link_parent k None None clears w)
       | Some p \<Rightarrow>
           if k \<in> set (ancestors w p) then None
           else do {
             let w' = ensureAgent ctx p w;
             parent \<leftarrow> agent_of w' p;
             Some (link_parent k (Some p) (Some (a_id parent)) clears w')
           }
     }
   }"

definition origin_update :: "agent_origin \<Rightarrow> agent_update" where
  "origin_update og = no_update\<lparr>u_origin := Some og\<rparr>"

definition adoptRoot :: "apply_context \<Rightarrow> key \<Rightarrow> world \<Rightarrow> world option" where
  "adoptRoot ctx k w = do {
     let oldRootKey = st_rootKey w;
     w1 \<leftarrow> setParent ctx k None (w\<lparr>st_rootKey := Some k\<rparr>);
     let w2 = changeAgent k (origin_update Root) (ensureAgent ctx k w1);
     case oldRootKey of
       None \<Rightarrow> Some w2
     | Some old \<Rightarrow>
         if old = k then Some w2
         else (case agent_of w2 old of
             None \<Rightarrow> Some w2
           | Some oldRoot \<Rightarrow>
               if a_fidelity oldRoot = Placeholder \<or> a_origin oldRoot \<noteq> Root
               then map_option (changeAgent old (origin_update Provider_subagent)) (setParent ctx old (Some k) w2)
               else Some w2)
   }"

definition ensureParent :: "apply_context \<Rightarrow> key \<Rightarrow> key \<Rightarrow> world \<Rightarrow> world option" where
  "ensureParent ctx k parentKey w =
     (if k = parentKey then None
      else let w1 = ensureAgent ctx parentKey w in
        if st_rootKey w1 = Some k then adoptRoot ctx parentKey w1 else Some w1)"

text \<open>\<open>reconcileLinks\<close>, first loop: agents that name a spawning item which now exists.\<close>

definition spawn_link_agent :: "key \<Rightarrow> item \<Rightarrow> key \<Rightarrow> world \<Rightarrow> world" where
  "spawn_link_agent itemKey item k w =
     (case get (st_agents w) k of None \<Rightarrow> w
      | Some r \<Rightarrow>
          if ar_spawnedByKey r \<noteq> Some itemKey then w
          else let w1 = changeAgent k (no_update\<lparr>u_spawnedBy := Some (Some (item_id item))\<rparr>) w in
            if lk_childAgent (link_of w1 itemKey) = None
            then registerItemLink itemKey (put_link itemKey ((link_of w1 itemKey)\<lparr>lk_childAgent := Some k\<rparr>) w1)
            else w1)"

definition drop_spawn_link :: "key \<Rightarrow> 'a state \<Rightarrow> 'a state" where
  "drop_spawn_link itemKey = upd_indexes (\<lambda>ix. ix\<lparr>pendingSpawnLinks := del (pendingSpawnLinks ix) itemKey\<rparr>)"

definition reconcile_spawns :: "world \<Rightarrow> world" where
  "reconcile_spawns w = fold (\<lambda>(itemKey, agents) w.
     case get (st_items w) itemKey of None \<Rightarrow> w
     | Some item \<Rightarrow> drop_spawn_link itemKey (fold (spawn_link_agent itemKey item) (okeys agents) w))
     (oentries (pendingSpawnLinks (st_indexes w))) w"

text \<open>The second loop: tool calls that name the agent they spawned or addressed.\<close>

definition drop_item_link :: "key \<Rightarrow> 'a state \<Rightarrow> 'a state" where
  "drop_item_link k = upd_indexes (\<lambda>ix. ix\<lparr>pendingItemLinks := del (pendingItemLinks ix) k\<rparr>)"

definition set_detail :: "(tool_detail \<Rightarrow> tool_detail) \<Rightarrow> item \<Rightarrow> item" where
  "set_detail f item = (case item_body item of
       Tool_call c \<Rightarrow> item\<lparr>item_body := Tool_call (c\<lparr>call_detail := f (call_detail c)\<rparr>)\<rparr>
     | _ \<Rightarrow> item)"

definition linked_key :: "tool_detail \<Rightarrow> item_link \<Rightarrow> key option" where
  "linked_key detail links =
     (if det_kind detail = K_agent_spawn then lk_childAgent links
      else if det_kind detail = K_agent_message then lk_targetAgent links else None)"

definition link_item :: "apply_context \<Rightarrow> key \<Rightarrow> item \<Rightarrow> tool_detail \<Rightarrow> key \<Rightarrow> world \<Rightarrow> world option" where
  "link_item ctx k item detail linkedKey w0 = do {
     let w = ensureAgent ctx linkedKey w0;
     linked \<leftarrow> agent_of w linkedKey;
     if det_kind detail = K_agent_spawn \<and> det_childAgentId detail \<noteq> Some (a_id linked) then do {
       let item' = set_detail (\<lambda>d. d\<lparr>det_childAgentId := Some (a_id linked)\<rparr>) item;
       let w1 = upd_agent linkedKey (\<lambda>r. r\<lparr>ar_spawnedByKey := Some k\<rparr>) (put_item k item' w);
       w2 \<leftarrow> setParent ctx linkedKey (get (agentKeysById (st_indexes w1)) (item_agentId item)) w1;
       let w3 = changeAgent linkedKey (no_update\<lparr>u_spawnedBy := Some (Some (item_id item))\<rparr>) w2;
       Some (emit (Item_updated item') w3)
     }
     else if det_kind detail = K_agent_message \<and> det_targetAgentId detail \<noteq> Some (a_id linked) then do {
       let item' = set_detail (\<lambda>d. d\<lparr>det_targetAgentId := Some (a_id linked)\<rparr>) item;
       Some (emit (Item_updated item') (put_item k item' w))
     }
     else Some w
   }"

definition reconcile_item :: "apply_context \<Rightarrow> key \<Rightarrow> world \<Rightarrow> world option" where
  "reconcile_item ctx k w =
     (case get (st_itemLinks w) k of
        None \<Rightarrow> Some (drop_item_link k w)
      | Some links \<Rightarrow>
          (case get (st_items w) k of
             None \<Rightarrow> Some (drop_item_link k w)
           | Some item \<Rightarrow>
               (case item_body item of
                  Tool_call c \<Rightarrow>
                    (case linked_key (call_detail c) links of
                       None \<Rightarrow> Some (drop_item_link k w)
                     | Some linkedKey \<Rightarrow>
                         map_option (drop_item_link k) (link_item ctx k item (call_detail c) linkedKey w))
                | _ \<Rightarrow> Some (drop_item_link k w))))"

definition reconcileLinks :: "apply_context \<Rightarrow> world \<Rightarrow> world option" where
  "reconcileLinks ctx w =
     (let w1 = reconcile_spawns w in
      foldM (reconcile_item ctx) (okeys (pendingItemLinks (st_indexes w1))) w1)"

definition note_spawn :: "key \<Rightarrow> key option \<Rightarrow> world \<Rightarrow> world" where
  "note_spawn k spawnedBy w = (case spawnedBy of None \<Rightarrow> w
     | Some i \<Rightarrow> registerSpawnLink k i (upd_agent k (\<lambda>r. r\<lparr>ar_spawnedByKey := Some i\<rparr>) w))"

definition seeAgent :: "apply_context \<Rightarrow> agent_seen \<Rightarrow> world \<Rightarrow> world option" where
  "seeAgent ctx f w = do {
     w1 \<leftarrow> (case seen_parent f of None \<Rightarrow> Some w | Some p \<Rightarrow> ensureParent ctx (seen_agent f) p w);
     let w2 = ensureAgent ctx (seen_agent f) w1;
     w3 \<leftarrow> (if seen_origin f = Root then adoptRoot ctx (seen_agent f) w2
            else if seen_parent f \<noteq> None then setParent ctx (seen_agent f) (seen_parent f) w2
            else Some w2);
     let w4 = note_spawn (seen_agent f) (seen_spawnedBy f) w3;
     let w5 = changeAgent (seen_agent f) (no_update\<lparr>u_origin := Some (seen_origin f),
           u_lineage := seen_lineage f, u_fidelity := Some (seen_fidelity f),
           u_native := Some (seen_native f), u_cwd := Some (seen_cwd f), u_name := seen_name f,
           u_role := seen_role f, u_model := seen_model f, u_background := seen_background f,
           u_machine := seen_machine f\<rparr>) w4;
     reconcileLinks ctx w5
   }"

definition linkAgent :: "apply_context \<Rightarrow> agent_linked \<Rightarrow> world \<Rightarrow> world option" where
  "linkAgent ctx f w = do {
     w1 \<leftarrow> (case lnk_parent f of None \<Rightarrow> Some w | Some p \<Rightarrow> ensureParent ctx (lnk_agent f) p w);
     let w2 = ensureAgent ctx (lnk_agent f) w1;
     w3 \<leftarrow> (if lnk_parent f \<noteq> None then setParent ctx (lnk_agent f) (lnk_parent f) w2 else Some w2);
     let w4 = note_spawn (lnk_agent f) (lnk_spawnedBy f) w3;
     let w5 = changeAgent (lnk_agent f) (no_update\<lparr>u_name := lnk_name f, u_model := lnk_model f,
           u_background := lnk_background f\<rparr>) w4;
     reconcileLinks ctx w5
   }"

definition ensureInitialRoot :: "apply_context \<Rightarrow> world \<Rightarrow> world option" where
  "ensureInitialRoot ctx w = (case st_initialRoot w of None \<Rightarrow> Some w
     | Some f \<Rightarrow> seeAgent ctx (f\<lparr>seen_parent := None, seen_spawnedBy := None, seen_origin := Root\<rparr>)
         (w\<lparr>st_initialRoot := None\<rparr>))"

end
