(* ===== verification/Core_Tree_Inv.thy ===== *)
theory Core_Tree_Inv
  imports Core_Tree
begin

text \<open>
  The invariant of the agent tree: the identity index and the children index agree with the agent
  records, every parent key names an existing agent whose id is the child's parent id, the parent
  relation has no cycle, and there is a root as soon as there is an agent. Identities come from an
  injective source (the locale \<open>id_source\<close>, interpreted on a counter of the kind README.md shows).
\<close>

subsection \<open>The abstract tree\<close>

type_synonym tree_view = "key \<Rightarrow> (ident \<times> ident option \<times> key option) option"

definition edges :: "tree_view \<Rightarrow> (key \<times> key) set" where
  "edges t = {(k, p). \<exists>i pid. t k = Some (i, pid, Some p)}"

definition tree_ok ::
    "tree_view \<Rightarrow> (ident \<Rightarrow> key option) \<Rightarrow> (ident \<Rightarrow> key \<Rightarrow> bool) \<Rightarrow> key option \<Rightarrow> bool" where
  "tree_ok t b c rk \<longleftrightarrow>
     (\<forall>i k. b i = Some k \<longleftrightarrow> (\<exists>pid p. t k = Some (i, pid, p))) \<and>
     (\<forall>pid k. c pid k \<longleftrightarrow> (\<exists>i p. t k = Some (i, Some pid, p))) \<and>
     (\<forall>k i pid p. t k = Some (i, pid, p) \<longrightarrow>
        (case p of None \<Rightarrow> pid = None | Some pk \<Rightarrow> \<exists>i' pid' p'. t pk = Some (i', pid', p') \<and> pid = Some i')) \<and>
     acyclic (edges t) \<and>
     (case rk of None \<Rightarrow> \<forall>k. t k = None | Some r \<Rightarrow> t r \<noteq> None)"

lemma tree_okD:
  assumes "tree_ok t b c rk"
  shows "b i = Some k \<longleftrightarrow> (\<exists>pid p. t k = Some (i, pid, p))"
    and "c q k \<longleftrightarrow> (\<exists>i p. t k = Some (i, Some q, p))"
    and "t k = Some (i, pid, None) \<Longrightarrow> pid = None"
    and "t k = Some (i, pid, Some pk) \<Longrightarrow> \<exists>i' pid' p'. t pk = Some (i', pid', p') \<and> pid = Some i'"
    and "acyclic (edges t)"
    and "rk = None \<Longrightarrow> t k = None"
    and "rk = Some r \<Longrightarrow> t r \<noteq> None"
  using assms unfolding tree_ok_def by fastforce+

lemma edges_add:
  assumes "t k = None"
  shows "edges (t(k \<mapsto> (i, pid, p))) = edges t \<union> (case p of None \<Rightarrow> {} | Some q \<Rightarrow> {(k, q)})"
  using assms by (auto simp: edges_def split: option.splits if_splits)

lemma no_edge_into:
  assumes "tree_ok t b c rk" "t k = None"
  shows "(q, k) \<in> (edges t)\<^sup>* \<Longrightarrow> q = k"
proof (erule rtranclE)
  fix y assume "(y, k) \<in> edges t"
  then obtain i pid where "t y = Some (i, pid, Some k)" by (auto simp: edges_def)
  with tree_okD(4) [OF assms(1)] assms(2) show "q = k" by fastforce
qed simp

text \<open>A new leaf under the root, or the first agent.\<close>

lemma tree_ok_add:
  assumes ok: "tree_ok t b c rk" and k: "t k = None" and i: "b i = None"
    and pid: "pid = Option.bind rk (\<lambda>r. map_option fst (t r))"
    and c': "\<And>q k'. c' q k' \<longleftrightarrow> c q k' \<or> k' = k \<and> pid = Some q"
  shows "tree_ok (t(k \<mapsto> (i, pid, rk))) (b(i \<mapsto> k)) c' (Some (case rk of None \<Rightarrow> k | Some r \<Rightarrow> r))"
proof -
  let ?t = "t(k \<mapsto> (i, pid, rk))"
  have fresh: "t k' \<noteq> Some (i, q, p)" for k' q p
    using tree_okD(1) [OF ok, of i k'] i by auto
  have root_id: "\<exists>i' pid' p'. ?t r = Some (i', pid', p') \<and> pid = Some i'" if r: "rk = Some r" for r
    using tree_okD(7) [OF ok r] k pid r by (cases "t r") auto
  have parents: "case p of None \<Rightarrow> q = None | Some pk \<Rightarrow> \<exists>i' pid' p'. ?t pk = Some (i', pid', p') \<and> q = Some i'"
    if "?t k' = Some (i', q, p)" for k' i' q p
  proof (cases "k' = k")
    case True
    with that root_id pid show ?thesis by (cases rk) auto
  next
    case False
    with that have tk: "t k' = Some (i', q, p)" by simp
    show ?thesis
    proof (cases p)
      case None
      with tree_okD(3) [OF ok] tk show ?thesis by auto
    next
      case (Some pk)
      then have "\<exists>i' pid' p'. t pk = Some (i', pid', p') \<and> q = Some i'"
        using tree_okD(4) [OF ok] tk by blast
      with k Some show ?thesis by (cases "pk = k") auto
    qed
  qed
  have acyc: "acyclic (edges ?t)"
  proof (cases rk)
    case None
    with edges_add [of t k i pid, OF k] tree_okD(5) [OF ok] show ?thesis by simp
  next
    case (Some r)
    have "r \<noteq> k" using tree_okD(7) [OF ok Some] k by auto
    then have "(r, k) \<notin> (edges t)\<^sup>*" using no_edge_into [OF ok k] by blast
    with edges_add [of t k i pid, OF k] tree_okD(5) [OF ok] Some show ?thesis by (simp add: acyclic_insert)
  qed
  have "(b(i \<mapsto> k)) i' = Some k' \<longleftrightarrow> (\<exists>q p. ?t k' = Some (i', q, p))" for i' k'
    using tree_okD(1) [OF ok, of i' k'] k fresh by auto
  moreover have "c' q k' \<longleftrightarrow> (\<exists>i p. ?t k' = Some (i, Some q, p))" for q k'
    using tree_okD(2) [OF ok, of q k'] c' k by auto
  moreover have "case Some (case rk of None \<Rightarrow> k | Some r \<Rightarrow> r) of None \<Rightarrow> \<forall>k. ?t k = None | Some r \<Rightarrow> ?t r \<noteq> None"
    using tree_okD(7) [OF ok] by (cases rk) auto
  ultimately show ?thesis unfolding tree_ok_def using parents acyc by auto
qed

text \<open>A new parent for an existing agent that is not among the parent's ancestors.\<close>

lemma tree_ok_link:
  assumes ok: "tree_ok t b c rk" and k: "t k = Some (i, pid0, p0)"
    and p: "case p of None \<Rightarrow> pid = None
            | Some q \<Rightarrow> (\<exists>iq pq ppq. t q = Some (iq, pq, ppq) \<and> pid = Some iq) \<and> (q, k) \<notin> (edges t)\<^sup>*"
    and c': "\<And>q k'. c' q k' \<longleftrightarrow> (if k' = k then pid = Some q else c q k')"
  shows "tree_ok (t(k \<mapsto> (i, pid, p))) b c' rk"
proof -
  let ?t = "t(k \<mapsto> (i, pid, p))"
  have keep: "\<exists>i' pid' p'. ?t x = Some (i', pid', p') \<and> q = Some i'"
    if "\<exists>i' pid' p'. t x = Some (i', pid', p') \<and> q = Some i'" for x q
    using that k by (cases "x = k") auto
  have parents: "case p' of None \<Rightarrow> q = None | Some pk \<Rightarrow> \<exists>i' pid' p'. ?t pk = Some (i', pid', p') \<and> q = Some i'"
    if "?t k' = Some (i', q, p')" for k' i' q p'
  proof (cases "k' = k")
    case True
    with that have eq: "p' = p" "q = pid" by simp_all
    show ?thesis
    proof (cases p)
      case None
      with p eq show ?thesis by simp
    next
      case (Some x)
      with p keep [of x pid] eq show ?thesis by simp
    qed
  next
    case False
    with that have tk: "t k' = Some (i', q, p')" by simp
    show ?thesis
    proof (cases p')
      case None
      with tree_okD(3) [OF ok] tk show ?thesis by simp
    next
      case (Some x)
      with tree_okD(4) [OF ok, of k' i' q x] tk have "\<exists>i' pid' p'. t x = Some (i', pid', p') \<and> q = Some i'" by simp
      with keep [of x q] Some show ?thesis by simp
    qed
  qed
  have "edges ?t \<subseteq> (case p of None \<Rightarrow> edges t | Some q \<Rightarrow> insert (k, q) (edges t))"
    by (auto simp: edges_def split: option.splits if_splits)
  moreover have "acyclic (case p of None \<Rightarrow> edges t | Some q \<Rightarrow> insert (k, q) (edges t))"
    using tree_okD(5) [OF ok] p by (auto simp: acyclic_insert split: option.splits)
  ultimately have acyc: "acyclic (edges ?t)" by (rule acyclic_subset [rotated])
  have "b i' = Some k' \<longleftrightarrow> (\<exists>q p. ?t k' = Some (i', q, p))" for i' k'
    using tree_okD(1) [OF ok, of i' k'] k by auto
  moreover have "c' q k' \<longleftrightarrow> (\<exists>i p. ?t k' = Some (i, Some q, p))" for q k'
    using tree_okD(2) [OF ok, of q k'] c' by auto
  moreover have "case rk of None \<Rightarrow> \<forall>k. ?t k = None | Some r \<Rightarrow> ?t r \<noteq> None"
    using tree_okD(6,7) [OF ok] k by (cases rk) auto
  ultimately show ?thesis unfolding tree_ok_def using parents acyc by auto
qed

subsection \<open>Identity sources\<close>

locale id_source =
  fixes gen :: "id_kind \<Rightarrow> nat \<Rightarrow> ident"
  assumes ids_inj: "gen k m = gen k n \<Longrightarrow> m = n"
    and ids_nonempty: "gen k n \<noteq> []"
begin

lemma fresh_id: "gen k n \<notin> gen k ` {..<n}"
  using ids_inj by auto

end

function decimal :: "nat \<Rightarrow> string" where
  "decimal n = (if n < 10 then [char_of (48 + n)] else decimal (n div 10) @ [char_of (48 + n mod 10)])"
  by pat_completeness auto
termination by (relation "measure id") auto

declare decimal.simps [simp del]

lemma digits_value_snoc: "digits_value (s @ [c]) = digits_value s * 10 + (of_char c - 48)"
  by (simp add: digits_value_def)

lemma digits_value_decimal: "digits_value (decimal n) = n"
proof (induction n rule: decimal.induct)
  case (1 n)
  have d: "of_char (char_of (48 + m) :: char) = 48 + m" if "m < 10" for m :: nat
    using that by (simp add: of_char_of)
  show ?case
  proof (cases "n < 10")
    case True
    then show ?thesis by (subst decimal.simps) (simp add: digits_value_def d)
  next
    case False
    then have "decimal n = decimal (n div 10) @ [char_of (48 + n mod 10)]" by (subst decimal.simps) simp
    with 1 False d [of "n mod 10"] show ?thesis by (simp only: digits_value_snoc) simp
  qed
qed

fun kind_name :: "id_kind \<Rightarrow> string" where
  "kind_name Id_agent = ''agent''"
| "kind_name Id_run = ''run''"
| "kind_name Id_item = ''item''"
| "kind_name Id_interaction = ''interaction''"
| "kind_name Id_task = ''task''"

text \<open>The identity source of README.md: the kind, an underscore and a counter.\<close>

definition counter_ids :: "id_kind \<Rightarrow> nat \<Rightarrow> ident" where
  "counter_ids k n = kind_name k @ ''_'' @ decimal n"

interpretation counter: id_source counter_ids
proof (unfold_locales, goal_cases)
  case (1 k m n)
  then have "digits_value (decimal m) = digits_value (decimal n)" by (simp add: counter_ids_def)
  then show ?case by (simp only: digits_value_decimal)
next
  case (2 k n)
  show ?case by (simp add: counter_ids_def)
qed

subsection \<open>The tree of a state\<close>

definition view :: "agent_record \<Rightarrow> ident \<times> ident option \<times> key option" where
  "view r = (a_id (ar_agent r), a_parentId (ar_agent r), ar_parentKey r)"

definition tv :: "'a state \<Rightarrow> tree_view" where
  "tv s k = map_option view (get (st_agents s) k)"

definition by_id :: "'a state \<Rightarrow> ident \<Rightarrow> key option" where
  "by_id s i = get (agentKeysById (st_indexes s)) i"

definition child_of :: "'a state \<Rightarrow> ident \<Rightarrow> key \<Rightarrow> bool" where
  "child_of s pid k \<longleftrightarrow> k \<in> set (childKeys (st_indexes s) pid)"

definition ids_below :: "(id_kind \<Rightarrow> nat \<Rightarrow> ident) \<Rightarrow> world \<Rightarrow> bool" where
  "ids_below gen w \<longleftrightarrow> (\<forall>k x. tv w k = Some x \<longrightarrow> fst x \<in> gen Id_agent ` {..<w_seq w})"

definition tree_inv :: "(id_kind \<Rightarrow> nat \<Rightarrow> ident) \<Rightarrow> world \<Rightarrow> bool" where
  "tree_inv gen w \<longleftrightarrow> tree_ok (tv w) (by_id w) (child_of w) (st_rootKey w) \<and> ids_below gen w"

lemma ids_belowD: "ids_below gen w \<Longrightarrow> tv w k = Some (i, q, p) \<Longrightarrow> i \<in> gen Id_agent ` {..<w_seq w}"
  unfolding ids_below_def by (metis fst_conv)

lemma ids_belowI:
  "(\<And>k i q p. tv w k = Some (i, q, p) \<Longrightarrow> i \<in> gen Id_agent ` {..<w_seq w}) \<Longrightarrow> ids_below gen w"
  by (auto simp: ids_below_def)

text \<open>Steps that leave the tree as it is.\<close>

definition same_tree :: "world \<Rightarrow> world \<Rightarrow> bool" where
  "same_tree w w' \<longleftrightarrow> tv w' = tv w \<and> agentKeysById (st_indexes w') = agentKeysById (st_indexes w) \<and>
     childrenByParent (st_indexes w') = childrenByParent (st_indexes w) \<and>
     st_rootKey w' = st_rootKey w \<and> w_seq w \<le> w_seq w'"

lemma same_tree_refl [simp]: "same_tree w w"
  by (simp add: same_tree_def)

lemma same_tree_trans: "same_tree w w' \<Longrightarrow> same_tree w' w'' \<Longrightarrow> same_tree w w''"
  by (auto simp: same_tree_def)

lemma tree_inv_same:
  assumes "same_tree w w'" "tree_inv gen w"
  shows "tree_inv gen w'"
proof -
  have "by_id w' = by_id w" "child_of w' = child_of w"
    using assms(1) by (auto simp: same_tree_def by_id_def child_of_def childKeys_def fun_eq_iff)
  moreover have "ids_below gen w'"
    using assms unfolding same_tree_def tree_inv_def ids_below_def by fastforce
  ultimately show ?thesis using assms by (simp add: same_tree_def tree_inv_def)
qed

lemma tv_parent_of: "parent_of s k = Option.bind (tv s k) (\<lambda>(i, pid, p). p)"
  by (cases "get (st_agents s) k") (auto simp: parent_of_def tv_def view_def)

lemma edges_step_rel: "edges (tv s) = step_rel (parent_of s)"
proof -
  have "(a, b) \<in> edges (tv s) \<longleftrightarrow> (a, b) \<in> step_rel (parent_of s)" for a b
    by (cases "tv s a") (auto simp: edges_def step_rel_def tv_parent_of split: prod.splits)
  then show ?thesis by auto
qed

lemma tv_has: "tv s k \<noteq> None \<longleftrightarrow> has (st_agents s) k"
  by (simp add: tv_def has_def)

lemma tv_upd_agent:
  assumes "\<And>r. view (f r) = view r"
  shows "tv (upd_agent k f s) = tv s"
proof
  fix k'
  show "tv (upd_agent k f s) k' = tv s k'"
    using assms by (cases "get (st_agents s) k'") (auto simp: tv_def)
qed

lemma same_tree_upd_agent:
  assumes "\<And>r. view (f r) = view r"
  shows "same_tree w (upd_agent k f w)"
  using tv_upd_agent [OF assms] by (simp add: same_tree_def)

lemma same_tree_emit: "same_tree w (emit e w)"
  by (simp add: same_tree_def tv_def fun_eq_iff)

text \<open>Not an ancestor: what the loop of \<open>setParent\<close> establishes.\<close>

lemma ancestors_complete:
  assumes "tree_inv gen w" "k \<notin> set (ancestors w p)"
  shows "(p, k) \<notin> (edges (tv w))\<^sup>*"
proof
  assume "(p, k) \<in> (edges (tv w))\<^sup>*"
  then have "k \<in> set (chain (parent_of w) (map fst (st_agents w)) [] p)"
  proof (intro reachable_in_chain)
    show "(p, k) \<in> (step_rel (parent_of w))\<^sup>*" if "(p, k) \<in> (edges (tv w))\<^sup>*"
      using that by (simp add: edges_step_rel)
    show "a \<in> set (map fst (st_agents w))" if "parent_of w a = Some b" for a b
      using that in_keys_iff [of a "st_agents w"] by (auto simp: parent_of_def has_def)
    show "acyclic (step_rel (parent_of w))"
      using assms(1) tree_okD(5) by (fastforce simp: tree_inv_def edges_step_rel)
  qed simp_all
  with assms(2) show False by (simp add: ancestors_def)
qed

subsection \<open>The agent index\<close>

definition kids :: "live_indexes \<Rightarrow> ident \<Rightarrow> unit dict" where
  "kids ix pid = (case get (childrenByParent ix) pid of None \<Rightarrow> [] | Some c \<Rightarrow> c)"

lemma child_of_kids: "child_of s pid k \<longleftrightarrow> has (kids (st_indexes s) pid) k"
  by (simp add: child_of_def childKeys_def kids_def)

lemma refreshAgentIndex_spec:
  assumes r: "get (st_agents s) k = Some r"
  shows "by_id (refreshAgentIndex k prev s) = (by_id s)(a_id (ar_agent r) \<mapsto> k)"
    and "child_of (refreshAgentIndex k prev s) pid k' \<longleftrightarrow>
      (if k' = k \<and> a_parentId (ar_agent r) = Some pid then True
       else if k' = k \<and> prev = Some pid then False
       else child_of s pid k')"
    and "st_agents (refreshAgentIndex k prev s) = st_agents s"
    and "st_rootKey (refreshAgentIndex k prev s) = st_rootKey s"
  using r unfolding refreshAgentIndex_def by_id_def child_of_kids
  by (auto simp: Let_def kids_def fun_eq_iff split: option.splits)

lemma refreshAgentIndex_frame [simp]:
  "st_agents (refreshAgentIndex k prev s) = st_agents s"
  "st_rootKey (refreshAgentIndex k prev s) = st_rootKey s"
  "w_seq (refreshAgentIndex k prev w) = w_seq w"
  "st_items (refreshAgentIndex k prev s) = st_items s"
  "st_runs (refreshAgentIndex k prev s) = st_runs s"
  "st_interactions (refreshAgentIndex k prev s) = st_interactions s"
  "st_tasks (refreshAgentIndex k prev s) = st_tasks s"
  "st_uncertainTasks (refreshAgentIndex k prev s) = st_uncertainTasks s"
  "st_itemLinks (refreshAgentIndex k prev s) = st_itemLinks s"
  "live_tools (refreshAgentIndex k prev s) = live_tools s"
  "open_text (refreshAgentIndex k prev s) = open_text s"
  "pending_ints (refreshAgentIndex k prev s) = pending_ints s"
  "running_tasks (refreshAgentIndex k prev s) = running_tasks s"
  "w_events (refreshAgentIndex k prev w) = w_events w"
  by (auto simp: refreshAgentIndex_def upd_indexes_def Let_def split: option.splits)

lemma tv_refreshAgentIndex [simp]: "tv (refreshAgentIndex k prev s) = tv s"
  by (simp add: tv_def fun_eq_iff)

subsection \<open>ensureAgent\<close>

lemma ensureAgent_old [simp]: "has (st_agents w) k \<Longrightarrow> ensureAgent ctx k w = w"
  by (simp add: ensureAgent_def)

lemma ensureAgent_new:
  fixes w :: world and ctx :: apply_context
  assumes "\<not> has (st_agents w) k"
  defines "i \<equiv> ids ctx Id_agent (w_seq w)"
    and "w' \<equiv> ensureAgent ctx k w"
  shows "st_agents w' = put (st_agents w) k (new_record (placeholder_agent ctx i k w) (now ctx) (st_rootKey w))"
    and "w_seq w' = Suc (w_seq w)"
    and "st_rootKey w' = Some (case st_rootKey w of None \<Rightarrow> k | Some r \<Rightarrow> r)"
    and "by_id w' = (by_id w)(i \<mapsto> k)"
    and "child_of w' q k' \<longleftrightarrow> child_of w q k' \<or> k' = k \<and> a_parentId (placeholder_agent ctx i k w) = Some q"
    and "w_events w' = w_events w @ [Agent_created (placeholder_agent ctx i k w)]"
proof -
  have ph: "placeholder_agent ctx i k (w\<lparr>w_seq := n\<rparr>) = placeholder_agent ctx i k w" for n
  proof -
    have "agent_of (w\<lparr>w_seq := n\<rparr>) = agent_of w" by (simp add: fun_eq_iff agent_of_def)
    then show ?thesis by (simp add: placeholder_agent_def Let_def split: option.splits)
  qed
  define a where "a = placeholder_agent ctx i k w"
  define w2 where "w2 = w\<lparr>w_seq := Suc (w_seq w), st_agents := put (st_agents w) k (new_record a (now ctx) (st_rootKey w))\<rparr>"
  define w3 where "w3 = refreshAgentIndex k None w2"
  have w': "w' = emit (Agent_created a) (if st_rootKey w3 = None then w3\<lparr>st_rootKey := Some k\<rparr> else w3)"
    using assms(1) ph [of "Suc (w_seq w)"]
    by (simp add: w'_def ensureAgent_def next_id_def Let_def a_def w3_def w2_def i_def)
  have r: "get (st_agents w2) k = Some (new_record a (now ctx) (st_rootKey w))" by (simp add: w2_def)
  note spec = refreshAgentIndex_spec [OF r, of None, folded w3_def]
  have b: "by_id w2 = by_id w" "child_of w2 = child_of w"
    by (simp_all add: w2_def by_id_def child_of_def fun_eq_iff)
  have ai: "a_id a = i" by (simp add: a_def placeholder_agent_def Let_def)
  have e: "by_id w' = by_id w3" "child_of w' = child_of w3"
    by (auto simp: w' by_id_def child_of_def fun_eq_iff)
  show "st_agents w' = put (st_agents w) k (new_record (placeholder_agent ctx i k w) (now ctx) (st_rootKey w))"
    by (simp add: w' w3_def w2_def a_def)
  show "w_seq w' = Suc (w_seq w)" by (simp add: w' w3_def w2_def)
  show "st_rootKey w' = Some (case st_rootKey w of None \<Rightarrow> k | Some r \<Rightarrow> r)"
    by (simp add: w' w3_def w2_def split: option.splits)
  show "by_id w' = (by_id w)(i \<mapsto> k)" using spec(1) b e ai by (simp add: new_record_def)
  show "child_of w' q k' \<longleftrightarrow> child_of w q k' \<or> k' = k \<and> a_parentId (placeholder_agent ctx i k w) = Some q"
    using spec(2) [of q k'] b e by (auto simp: new_record_def a_def)
  show "w_events w' = w_events w @ [Agent_created (placeholder_agent ctx i k w)]"
    by (simp add: w' w3_def w2_def a_def)
qed

lemma placeholder_agent_fields [simp]:
  "a_id (placeholder_agent ctx i k s) = i"
  "a_parentId (placeholder_agent ctx i k s) = map_option a_id (Option.bind (st_rootKey s) (agent_of s))"
  "a_status (placeholder_agent ctx i k s) = Starting"
  "a_fidelity (placeholder_agent ctx i k s) = Placeholder"
  by (simp_all add: placeholder_agent_def Let_def)

lemma tv_agent_of: "map_option a_id (agent_of s k) = map_option fst (tv s k)"
  by (simp add: agent_of_def tv_def view_def option.map_comp comp_def)

lemma tree_inv_ensureAgent:
  assumes src: "id_source (ids ctx)" and inv: "tree_inv (ids ctx) w"
  shows "tree_inv (ids ctx) (ensureAgent ctx k w)"
proof (cases "has (st_agents w) k")
  case False
  let ?w = "ensureAgent ctx k w" and ?i = "ids ctx Id_agent (w_seq w)"
  let ?pid = "Option.bind (st_rootKey w) (\<lambda>r. map_option fst (tv w r))"
  note new = ensureAgent_new [OF False, of ctx]
  have ok: "tree_ok (tv w) (by_id w) (child_of w) (st_rootKey w)" and below: "ids_below (ids ctx) w"
    using inv by (simp_all add: tree_inv_def)
  have k: "tv w k = None" using False tv_has by fastforce
  have i: "by_id w ?i = None"
  proof (cases "by_id w ?i")
    case (Some k')
    then obtain q p where "tv w k' = Some (?i, q, p)" using tree_okD(1) [OF ok, of ?i k'] by blast
    then have "?i \<in> ids ctx Id_agent ` {..<w_seq w}" using below unfolding ids_below_def by (metis fst_conv)
    with id_source.fresh_id [OF src] show ?thesis by blast
  qed
  have pid: "map_option a_id (Option.bind (st_rootKey w) (agent_of w)) = ?pid"
    by (cases "st_rootKey w") (simp_all add: tv_agent_of)
  have t: "tv ?w = (tv w)(k \<mapsto> (?i, ?pid, st_rootKey w))"
    using pid by (simp add: tv_def new(1) fun_eq_iff view_def new_record_def)
  have "tree_ok (tv ?w) (by_id ?w) (child_of ?w) (st_rootKey ?w)"
    unfolding t new(3,4) using new(5) pid by (intro tree_ok_add [OF ok k i refl]) simp
  moreover have "ids_below (ids ctx) ?w"
  proof (rule ids_belowI, unfold t new(2))
    fix k' i' q' p' assume "((tv w)(k \<mapsto> (?i, ?pid, st_rootKey w))) k' = Some (i', q', p')"
    then consider "i' = ?i" | "tv w k' = Some (i', q', p')" by (cases "k' = k") auto
    then show "i' \<in> ids ctx Id_agent ` {..<Suc (w_seq w)}"
      using ids_belowD [OF below, of k' i' q' p'] by cases (simp_all add: lessThan_Suc)
  qed
  ultimately show ?thesis by (simp add: tree_inv_def)
qed (use inv in simp)

lemma has_ensureAgent [simp]: "has (st_agents (ensureAgent ctx k w)) k' \<longleftrightarrow> k' = k \<or> has (st_agents w) k'"
  by (cases "has (st_agents w) k") (auto simp: ensureAgent_new(1))

subsection \<open>changeAgent and link_parent\<close>

lemma changed_None [simp]: "changed cur None = None"
  by (simp add: changed_def)

lemma diff_update_parent [simp]:
  "u_parentId (diff_update a u) = changed (Some (a_parentId a)) (u_parentId u)"
  by (simp add: diff_update_def)

lemma apply_update_fields [simp]:
  "a_id (apply_update u a) = a_id a"
  "a_parentId (apply_update u a) = given (u_parentId u) (a_parentId a)"
  "a_status (apply_update u a) = a_status a"
  by (simp_all add: apply_update_def)

lemma diff_update_none: "diff_update a u = no_update \<Longrightarrow> changed (Some (a_parentId a)) (u_parentId u) = None"
  by (simp add: diff_update_def no_update_def)

lemma changeAgent_frame [simp]:
  "st_rootKey (changeAgent k u w) = st_rootKey w" "st_indexes (changeAgent k u w) = st_indexes w"
  "st_items (changeAgent k u w) = st_items w" "st_runs (changeAgent k u w) = st_runs w"
  "st_interactions (changeAgent k u w) = st_interactions w" "st_tasks (changeAgent k u w) = st_tasks w"
  "st_uncertainTasks (changeAgent k u w) = st_uncertainTasks w" "w_seq (changeAgent k u w) = w_seq w"
  "st_itemLinks (changeAgent k u w) = st_itemLinks w"
  by (auto simp: changeAgent_def Let_def split: option.splits)

lemma has_changeAgent [simp]: "has (st_agents (changeAgent k u w)) k' = has (st_agents w) k'"
  by (auto simp: changeAgent_def Let_def has_def split: option.splits)

text \<open>The record under the key, and no other, gets the changed fields.\<close>

lemma changeAgent_get:
  "\<exists>c. get (st_agents (changeAgent k u w)) k' =
     (if k' = k then map_option (\<lambda>r. r\<lparr>ar_agent := apply_update (c r) (ar_agent r)\<rparr>) (get (st_agents w) k)
      else get (st_agents w) k') \<and>
     (\<forall>r. get (st_agents w) k = Some r \<longrightarrow> u_parentId (c r) = changed (Some (a_parentId (ar_agent r))) (u_parentId u))"
proof (cases "get (st_agents w) k")
  case (Some r)
  have nu: "apply_update no_update a = a" for a
    by (simp add: apply_update_def no_update_def orelse_def given_def)
  show ?thesis
    using Some nu [of "ar_agent r"] diff_update_none [of "ar_agent r" u]
    by (intro exI [of _ "\<lambda>r. diff_update (ar_agent r) u"]) (auto simp: changeAgent_def Let_def)
qed (auto simp: changeAgent_def)

lemma tv_changeAgent:
  "tv (changeAgent k u w) k' =
     (if k' = k then map_option (\<lambda>(i, pid, p). (i, given (u_parentId u) pid, p)) (tv w k) else tv w k')"
proof -
  have g: "given (changed (Some x) y) x = given y x" for x :: "ident option" and y
    by (auto simp: given_def changed_def split: option.splits)
  obtain c where c: "get (st_agents (changeAgent k u w)) k' =
     (if k' = k then map_option (\<lambda>r. r\<lparr>ar_agent := apply_update (c r) (ar_agent r)\<rparr>) (get (st_agents w) k)
      else get (st_agents w) k')"
     "\<forall>r. get (st_agents w) k = Some r \<longrightarrow> u_parentId (c r) = changed (Some (a_parentId (ar_agent r))) (u_parentId u)"
    using changeAgent_get by blast
  then show ?thesis
    by (cases "get (st_agents w) k") (auto simp: tv_def view_def g)
qed

lemma same_tree_changeAgent: "u_parentId u = None \<Longrightarrow> same_tree w (changeAgent k u w)"
  unfolding same_tree_def
  by (auto simp: tv_changeAgent given_def fun_eq_iff option.map_id case_prod_beta)

lemma link_parent_tv:
  assumes "has (st_agents w) k"
  shows "tv (link_parent k p pid clears w) = (tv w)(k \<mapsto> (fst (the (tv w k)), pid, p))"
proof
  fix k'
  obtain r where r: "get (st_agents w) k = Some r" using assms by (auto simp: has_def)
  then show "tv (link_parent k p pid clears w) k' = ((tv w)(k \<mapsto> (fst (the (tv w k)), pid, p))) k'"
    by (auto simp: link_parent_def Let_def tv_changeAgent given_def) (auto simp: tv_def view_def)
qed

lemma link_parent_index:
  assumes "get (st_agents w) k = Some r" and "by_id w (a_id (ar_agent r)) = Some k"
    and c: "\<And>q. child_of w q k \<longleftrightarrow> a_parentId (ar_agent r) = Some q"
  shows "by_id (link_parent k p pid clears w) = by_id w"
    and "child_of (link_parent k p pid clears w) q k' \<longleftrightarrow> (if k' = k then pid = Some q else child_of w q k')"
    and "st_rootKey (link_parent k p pid clears w) = st_rootKey w"
    and "w_seq (link_parent k p pid clears w) = w_seq w"
proof -
  let ?w1 = "upd_agent k (\<lambda>r. r\<lparr>ar_spawnedByKey := (if clears then None else ar_spawnedByKey r), ar_parentKey := p\<rparr>) w"
  let ?u = "no_update\<lparr>u_parentId := Some pid, u_spawnedBy := (if clears then Some None else None)\<rparr>"
  let ?w2 = "changeAgent k ?u ?w1"
  have prev: "Option.bind (agent_of ?w1 k) a_parentId = a_parentId (ar_agent r)"
    using assms(1) by (simp add: agent_of_def)
  have lp: "link_parent k p pid clears w = refreshAgentIndex k (a_parentId (ar_agent r)) ?w2"
    by (simp add: link_parent_def Let_def prev)
  obtain r2 where r2: "get (st_agents ?w2) k = Some r2"
    using assms(1) has_changeAgent [of k ?u ?w1 k] by (auto simp: has_def)
  have "tv ?w2 k = Some (a_id (ar_agent r), pid, p)"
    using assms(1) by (simp add: tv_changeAgent given_def) (simp add: tv_def view_def)
  then have r2': "a_id (ar_agent r2) = a_id (ar_agent r)" "a_parentId (ar_agent r2) = pid"
    using r2 by (simp_all add: tv_def view_def)
  note spec = refreshAgentIndex_spec [OF r2, of "a_parentId (ar_agent r)", unfolded r2', folded lp]
  have b: "by_id ?w2 = by_id w" "child_of ?w2 = child_of w"
    by (simp_all add: by_id_def child_of_def fun_eq_iff)
  show "by_id (link_parent k p pid clears w) = by_id w" using spec(1) assms(2) b by auto
  show "child_of (link_parent k p pid clears w) q k' \<longleftrightarrow> (if k' = k then pid = Some q else child_of w q k')"
    using spec(2) [of q k'] c [of q] b by auto
  show "st_rootKey (link_parent k p pid clears w) = st_rootKey w" by (simp add: lp)
  show "w_seq (link_parent k p pid clears w) = w_seq w" by (simp add: lp)
qed

lemma tree_inv_link_parent:
  assumes inv: "tree_inv gen w" and k: "has (st_agents w) k"
    and p: "case p of None \<Rightarrow> pid = None
            | Some q \<Rightarrow> map_option a_id (agent_of w q) = pid \<and> pid \<noteq> None \<and> (q, k) \<notin> (edges (tv w))\<^sup>*"
  shows "tree_inv gen (link_parent k p pid clears w)"
proof -
  have ok: "tree_ok (tv w) (by_id w) (child_of w) (st_rootKey w)" and below: "ids_below gen w"
    using inv by (simp_all add: tree_inv_def)
  obtain r where r: "get (st_agents w) k = Some r" using k by (auto simp: has_def)
  define i where "i = a_id (ar_agent r)"
  have t: "tv w k = Some (i, a_parentId (ar_agent r), ar_parentKey r)"
    by (simp add: tv_def r view_def i_def)
  have b: "by_id w i = Some k" using tree_okD(1) [OF ok] t by blast
  have c: "child_of w q k \<longleftrightarrow> a_parentId (ar_agent r) = Some q" for q
    using tree_okD(2) [OF ok, of q k] t by auto
  note ix = link_parent_index [OF r b [unfolded i_def] c, of p pid clears]
  have tv': "tv (link_parent k p pid clears w) = (tv w)(k \<mapsto> (i, pid, p))"
    using link_parent_tv [OF k, of p pid clears] t by simp
  have p': "case p of None \<Rightarrow> pid = None
      | Some q \<Rightarrow> (\<exists>iq pq ppq. tv w q = Some (iq, pq, ppq) \<and> pid = Some iq) \<and> (q, k) \<notin> (edges (tv w))\<^sup>*"
  proof (cases p)
    case (Some q)
    with p have "map_option fst (tv w q) = pid" "pid \<noteq> None" by (simp_all add: tv_agent_of)
    with p Some show ?thesis by (cases "tv w q") auto
  qed (use p in simp)
  have "tree_ok (tv (link_parent k p pid clears w)) (by_id (link_parent k p pid clears w))
      (child_of (link_parent k p pid clears w)) (st_rootKey (link_parent k p pid clears w))"
    unfolding tv' ix(1,3) by (rule tree_ok_link [OF ok t p']) (rule ix(2))
  moreover have "ids_below gen (link_parent k p pid clears w)"
  proof (rule ids_belowI, unfold tv' ix(4))
    fix k' i' q' p' assume "((tv w)(k \<mapsto> (i, pid, p))) k' = Some (i', q', p')"
    then have "\<exists>k' q' p'. tv w k' = Some (i', q', p')" using t by (cases "k' = k") auto
    with ids_belowD [OF below] show "i' \<in> gen Id_agent ` {..<w_seq w}" by blast
  qed
  ultimately show ?thesis by (simp add: tree_inv_def)
qed

subsection \<open>Links\<close>

text \<open>\<open>setParent\<close> keeps the invariant. Its callers create the parent first.\<close>

lemma agent_of_has: "has (st_agents s) k \<Longrightarrow> \<exists>a. agent_of s k = Some a"
  by (auto simp: agent_of_def has_def)

lemma setParent_cases:
  assumes "setParent ctx k parentKey w0 = Some w'"
  obtains r where "get (st_agents (ensureAgent ctx k w0)) k = Some r" and "parentKey = None"
      "w' = link_parent k None None (clears_spawn r None) (ensureAgent ctx k w0)"
  | r p a where "get (st_agents (ensureAgent ctx k w0)) k = Some r" and "parentKey = Some p" "p \<noteq> k"
      "k \<notin> set (ancestors (ensureAgent ctx k w0) p)"
      "agent_of (ensureAgent ctx p (ensureAgent ctx k w0)) p = Some a"
      "w' = link_parent k (Some p) (Some (a_id a)) (clears_spawn r (Some p)) (ensureAgent ctx p (ensureAgent ctx k w0))"
  using assms unfolding setParent_def Let_def
  by (auto split: if_splits option.splits elim!: bind_SomeE)

lemma setParent_inv:
  assumes src: "id_source (ids ctx)" and inv: "tree_inv (ids ctx) w0"
    and sp: "setParent ctx k parentKey w0 = Some w'"
    and known: "\<And>p. parentKey = Some p \<Longrightarrow> has (st_agents w0) p"
  shows "tree_inv (ids ctx) w'"
proof -
  define w where "w = ensureAgent ctx k w0"
  have iw: "tree_inv (ids ctx) w" unfolding w_def by (rule tree_inv_ensureAgent [OF src inv])
  have k: "has (st_agents w) k" by (simp add: w_def)
  from sp show ?thesis
  proof (cases rule: setParent_cases)
    case (1 r)
    then show ?thesis using tree_inv_link_parent [OF iw k, of None None] by (simp flip: w_def)
  next
    case (2 r p a)
    have e: "ensureAgent ctx p w = w" using known 2(2) by (simp add: w_def)
    have "(p, k) \<notin> (edges (tv w))\<^sup>*"
      using ancestors_complete [OF iw] 2(4) by (simp flip: w_def)
    then show ?thesis
      using 2(5,6) tree_inv_link_parent [OF iw k, where p = "Some p" and pid = "Some (a_id a)"]
      by (simp add: e flip: w_def)
  qed
qed

lemma has_link_parent [simp]: "has (st_agents (link_parent k p pid clears w)) k' = has (st_agents w) k'"
  by (simp add: link_parent_def Let_def)

lemma setParent_has:
  assumes "setParent ctx k parentKey w = Some w'" "has (st_agents w) k'"
  shows "has (st_agents w') k'"
  using assms(1) by (cases rule: setParent_cases) (use assms(2) in auto)

lemma setParent_has_self:
  assumes "setParent ctx k parentKey w = Some w'"
  shows "has (st_agents w') k"
  using assms by (cases rule: setParent_cases) auto

text \<open>\<open>setParent\<close> with an existing agent and no parent never fails.\<close>

lemma setParent_None: "has (st_agents w) k \<Longrightarrow> \<exists>w'. setParent ctx k None w = Some w'"
  by (auto simp: setParent_def has_def)

lemma tree_inv_root:
  assumes "tree_inv gen w" "has (st_agents w) k"
  shows "tree_inv gen (w\<lparr>st_rootKey := Some k\<rparr>)"
proof -
  have "tv (w\<lparr>st_rootKey := Some k\<rparr>) = tv w" "by_id (w\<lparr>st_rootKey := Some k\<rparr>) = by_id w"
    "child_of (w\<lparr>st_rootKey := Some k\<rparr>) = child_of w"
    by (simp_all add: tv_def by_id_def child_of_def fun_eq_iff)
  with assms show ?thesis
    using tv_has [of w k] by (simp add: tree_inv_def tree_ok_def ids_below_def)
qed

lemma adoptRoot_inv:
  assumes src: "id_source (ids ctx)" and inv: "tree_inv (ids ctx) w" and k: "has (st_agents w) k"
    and ad: "adoptRoot ctx k w = Some w'"
  shows "tree_inv (ids ctx) w' \<and> has (st_agents w') k"
proof -
  obtain w1 where w1: "setParent ctx k None (w\<lparr>st_rootKey := Some k\<rparr>) = Some w1"
    using ad by (auto simp: adoptRoot_def elim!: bind_SomeE)
  have i1: "tree_inv (ids ctx) w1"
    by (rule setParent_inv [OF src tree_inv_root [OF inv k] w1]) simp
  have k1: "has (st_agents w1) k" by (rule setParent_has_self [OF w1])
  define w2 where "w2 = changeAgent k (origin_update Root) w1"
  have st: "same_tree w (changeAgent k' (origin_update og) w)" for w k' og
    by (rule same_tree_changeAgent) (simp add: origin_update_def no_update_def)
  have i2: "tree_inv (ids ctx) w2" unfolding w2_def by (rule tree_inv_same [OF st i1])
  have k2: "has (st_agents w2) k" using k1 by (simp add: w2_def)
  consider "w' = w2" | old w3 where "setParent ctx old (Some k) w2 = Some w3"
      "w' = changeAgent old (origin_update Provider_subagent) w3"
    using ad w1 k1 unfolding adoptRoot_def
    by (auto simp: w2_def Let_def split: option.splits if_splits)
  then show ?thesis
  proof cases
    case 2
    have "tree_inv (ids ctx) w3" by (rule setParent_inv [OF src i2 2(1)]) (simp add: k2)
    then show ?thesis using 2 tree_inv_same [OF st] setParent_has [OF 2(1) k2] by simp
  qed (use i2 k2 in simp)
qed

lemma ensureParent_inv:
  assumes src: "id_source (ids ctx)" and inv: "tree_inv (ids ctx) w"
    and ep: "ensureParent ctx k p w = Some w'"
  shows "tree_inv (ids ctx) w' \<and> has (st_agents w') p"
proof -
  have i1: "tree_inv (ids ctx) (ensureAgent ctx p w)" by (rule tree_inv_ensureAgent [OF src inv])
  show ?thesis
  proof (cases "st_rootKey (ensureAgent ctx p w) = Some k")
    case True
    with ep have "adoptRoot ctx p (ensureAgent ctx p w) = Some w'"
      by (auto simp: ensureParent_def Let_def split: if_splits)
    from adoptRoot_inv [OF src i1 _ this] show ?thesis by simp
  next
    case False
    with ep have "w' = ensureAgent ctx p w" by (auto simp: ensureParent_def Let_def split: if_splits)
    with i1 show ?thesis by simp
  qed
qed

lemma same_tree_upd_indexes:
  assumes "agentKeysById (f (st_indexes w)) = agentKeysById (st_indexes w)"
    and "childrenByParent (f (st_indexes w)) = childrenByParent (st_indexes w)"
  shows "same_tree w (upd_indexes f w)"
  using assms by (simp add: same_tree_def tv_def fun_eq_iff) (simp add: upd_indexes_def)

lemma same_tree_links:
  "same_tree w (registerItemLink k w)" "same_tree w (drop_item_link k w)"
  "same_tree w (drop_spawn_link k w)" "same_tree w (registerSpawnLink a k w)"
  "same_tree w (put_link k l w)" "same_tree w (put_item k i w)"
  unfolding registerItemLink_def drop_item_link_def drop_spawn_link_def registerSpawnLink_def
  by (rule same_tree_upd_indexes; simp)+ (simp_all add: same_tree_def put_link_def put_item_def tv_def fun_eq_iff)

lemma same_tree_spawn_link_agent: "same_tree w (spawn_link_agent ik item k w)"
proof -
  have "same_tree w (changeAgent k (no_update\<lparr>u_spawnedBy := x\<rparr>) w)" for x
    by (rule same_tree_changeAgent) (simp add: no_update_def)
  moreover have "same_tree w (registerItemLink ik (put_link ik l w))" for l w
    by (rule same_tree_trans [OF same_tree_links(5) same_tree_links(1)])
  ultimately show ?thesis
    by (auto simp: spawn_link_agent_def Let_def split: option.splits intro: same_tree_trans)
qed

lemma same_tree_fold:
  assumes "\<And>x w. same_tree w (f x w)"
  shows "same_tree w (fold f xs w)"
  using assms by (induction xs arbitrary: w) (auto intro: same_tree_trans)

lemma same_tree_reconcile_spawns: "same_tree w (reconcile_spawns w)"
  unfolding reconcile_spawns_def
  by (rule same_tree_fold)
    (auto split: option.splits prod.splits
      intro: same_tree_trans [OF same_tree_fold same_tree_links(3)] same_tree_spawn_link_agent)

lemma link_item_inv:
  assumes src: "id_source (ids ctx)" and inv: "tree_inv (ids ctx) w0"
    and li: "link_item ctx k item detail lk w0 = Some w'"
  shows "tree_inv (ids ctx) w'"
proof -
  define w where "w = ensureAgent ctx lk w0"
  have iw: "tree_inv (ids ctx) w" unfolding w_def by (rule tree_inv_ensureAgent [OF src inv])
  obtain a where a: "agent_of w lk = Some a" using agent_of_has [of w lk] by (auto simp: w_def)
  let ?item = "set_detail (\<lambda>d. d\<lparr>det_childAgentId := Some (a_id a)\<rparr>) item"
  let ?w1 = "upd_agent lk (\<lambda>r. r\<lparr>ar_spawnedByKey := Some k\<rparr>) (put_item k ?item w)"
  consider (spawn) w2 where "setParent ctx lk (get (agentKeysById (st_indexes ?w1)) (item_agentId item)) ?w1 = Some w2"
      "w' = emit (Item_updated ?item) (changeAgent lk (no_update\<lparr>u_spawnedBy := Some (Some (item_id item))\<rparr>) w2)"
    | (message) e i where "w' = emit e (put_item k i w)" | (same) "w' = w"
    using li a unfolding link_item_def by (auto simp: Let_def simp flip: w_def split: if_splits elim!: bind_SomeE)
  then show ?thesis
  proof cases
    case spawn
    have st: "same_tree w ?w1"
      by (rule same_tree_trans [OF same_tree_links(6) same_tree_upd_agent]) (simp add: view_def)
    have i1: "tree_inv (ids ctx) ?w1" by (rule tree_inv_same [OF st iw])
    have "has (st_agents ?w1) p" if "get (agentKeysById (st_indexes ?w1)) x = Some p" for x p
    proof -
      have "by_id ?w1 x = Some p" using that by (simp add: by_id_def)
      then have "tv ?w1 p \<noteq> None"
        using i1 tree_okD(1) [of "tv ?w1" "by_id ?w1" "child_of ?w1" "st_rootKey ?w1" x p] by (auto simp: tree_inv_def)
      then show ?thesis by (subst tv_has [symmetric])
    qed
    then have "tree_inv (ids ctx) w2" by (rule setParent_inv [OF src i1 spawn(1)])
    then have "tree_inv (ids ctx) (changeAgent lk (no_update\<lparr>u_spawnedBy := Some (Some (item_id item))\<rparr>) w2)"
      by (rule tree_inv_same [rotated]) (rule same_tree_changeAgent, simp add: no_update_def)
    then show ?thesis unfolding spawn(2) by (rule tree_inv_same [OF same_tree_emit])
  next
    case message
    then show ?thesis
      using tree_inv_same [OF same_tree_trans [OF same_tree_links(6) same_tree_emit] iw] by simp
  qed (use iw in simp)
qed

lemma reconcile_item_inv:
  assumes "id_source (ids ctx)" "tree_inv (ids ctx) w" "reconcile_item ctx k w = Some w'"
  shows "tree_inv (ids ctx) w'"
proof -
  consider "w' = drop_item_link k w"
    | item d lk w1 where "link_item ctx k item d lk w = Some w1" "w' = drop_item_link k w1"
    using assms(3) by (auto simp: reconcile_item_def split: option.splits item_body.splits)
  then show ?thesis
    using tree_inv_same [OF same_tree_links(2)] link_item_inv [OF assms(1,2)] assms(2) by cases auto
qed

lemma reconcileLinks_inv:
  assumes "id_source (ids ctx)" "tree_inv (ids ctx) w" "reconcileLinks ctx w = Some w'"
  shows "tree_inv (ids ctx) w'"
  using assms(3) unfolding reconcileLinks_def Let_def
  by (rule foldM_invariant)
    (use assms(2) tree_inv_same [OF same_tree_reconcile_spawns] reconcile_item_inv [OF assms(1)] in blast)+

lemma same_tree_note_spawn: "same_tree w (note_spawn k i w)"
proof (cases i)
  case (Some x)
  have "same_tree w (upd_agent k (\<lambda>r. r\<lparr>ar_spawnedByKey := Some x\<rparr>) w)"
    by (rule same_tree_upd_agent) (simp add: view_def)
  with Some show ?thesis by (auto simp: note_spawn_def intro: same_tree_trans same_tree_links)
qed (simp add: note_spawn_def)

lemma has_same_tree: "same_tree w w' \<Longrightarrow> has (st_agents w') k = has (st_agents w) k"
  using tv_has [of w k] tv_has [of w' k] by (simp add: same_tree_def)

lemma seeAgent_cases:
  assumes "seeAgent ctx f w = Some w'"
  obtains w1 w3 where
    "(case seen_parent f of None \<Rightarrow> Some w | Some p \<Rightarrow> ensureParent ctx (seen_agent f) p w) = Some w1"
    "(if seen_origin f = Root then adoptRoot ctx (seen_agent f) (ensureAgent ctx (seen_agent f) w1)
      else if seen_parent f \<noteq> None then setParent ctx (seen_agent f) (seen_parent f) (ensureAgent ctx (seen_agent f) w1) else Some (ensureAgent ctx (seen_agent f) w1)) = Some w3"
    "reconcileLinks ctx (changeAgent (seen_agent f) (no_update\<lparr>u_origin := Some (seen_origin f),
           u_lineage := seen_lineage f, u_fidelity := Some (seen_fidelity f),
           u_native := Some (seen_native f), u_cwd := Some (seen_cwd f), u_name := seen_name f,
           u_role := seen_role f, u_model := seen_model f, u_background := seen_background f,
           u_machine := seen_machine f\<rparr>) (note_spawn (seen_agent f) (seen_spawnedBy f) w3)) = Some w'"
  using assms unfolding seeAgent_def Let_def by (elim bind_SomeE) (rule that)

lemma seeAgent_inv:
  assumes src: "id_source (ids ctx)" and inv: "tree_inv (ids ctx) w" and "seeAgent ctx f w = Some w'"
  shows "tree_inv (ids ctx) w'"
proof -
  let ?k = "seen_agent f"
  obtain w1 w3 where w1: "(case seen_parent f of None \<Rightarrow> Some w | Some p \<Rightarrow> ensureParent ctx ?k p w) = Some w1"
    and w3: "(if seen_origin f = Root then adoptRoot ctx ?k (ensureAgent ctx ?k w1)
      else if seen_parent f \<noteq> None then setParent ctx ?k (seen_parent f) (ensureAgent ctx ?k w1) else Some (ensureAgent ctx ?k w1)) = Some w3"
    and fin: "reconcileLinks ctx (changeAgent ?k (no_update\<lparr>u_origin := Some (seen_origin f),
           u_lineage := seen_lineage f, u_fidelity := Some (seen_fidelity f),
           u_native := Some (seen_native f), u_cwd := Some (seen_cwd f), u_name := seen_name f,
           u_role := seen_role f, u_model := seen_model f, u_background := seen_background f,
           u_machine := seen_machine f\<rparr>) (note_spawn ?k (seen_spawnedBy f) w3)) = Some w'"
    using seeAgent_cases [OF assms(3)] by blast
  define w2 where "w2 = ensureAgent ctx ?k w1"
  have i1: "tree_inv (ids ctx) w1" and p1: "\<And>p. seen_parent f = Some p \<Longrightarrow> has (st_agents w1) p"
    using w1 inv ensureParent_inv [OF src inv] by (auto split: option.splits)
  have i2: "tree_inv (ids ctx) w2" unfolding w2_def by (rule tree_inv_ensureAgent [OF src i1])
  have i3: "tree_inv (ids ctx) w3"
  proof -
    have k2: "has (st_agents w2) ?k" and p2: "\<And>p. seen_parent f = Some p \<Longrightarrow> has (st_agents w2) p"
      using p1 by (simp_all add: w2_def)
    show ?thesis
    proof (cases "seen_origin f = Root")
      case True
      with w3 have "adoptRoot ctx ?k w2 = Some w3" unfolding w2_def by simp
      from adoptRoot_inv [OF src i2 k2 this] show ?thesis by blast
    next
      case False
      show ?thesis
      proof (cases "seen_parent f = None")
        case True
        with w3 False have "w2 = w3" unfolding w2_def by simp
        with i2 show ?thesis by simp
      next
        case parent: False
        with w3 False have sp: "setParent ctx ?k (seen_parent f) w2 = Some w3" unfolding w2_def by simp
        show ?thesis by (rule setParent_inv [OF src i2 sp p2])
      qed
    qed
  qed
  let ?u = "no_update\<lparr>u_origin := Some (seen_origin f),
           u_lineage := seen_lineage f, u_fidelity := Some (seen_fidelity f),
           u_native := Some (seen_native f), u_cwd := Some (seen_cwd f), u_name := seen_name f,
           u_role := seen_role f, u_model := seen_model f, u_background := seen_background f,
           u_machine := seen_machine f\<rparr>"
  have "tree_inv (ids ctx) (note_spawn ?k (seen_spawnedBy f) w3)"
    by (rule tree_inv_same [OF same_tree_note_spawn i3])
  then have "tree_inv (ids ctx) (changeAgent ?k ?u (note_spawn ?k (seen_spawnedBy f) w3))"
    by (rule tree_inv_same [rotated]) (rule same_tree_changeAgent, simp add: no_update_def)
  with fin show ?thesis using reconcileLinks_inv [OF src] by blast
qed

lemma linkAgent_cases:
  assumes "linkAgent ctx f w = Some w'"
  obtains w1 w3 where
    "(case lnk_parent f of None \<Rightarrow> Some w | Some p \<Rightarrow> ensureParent ctx (lnk_agent f) p w) = Some w1"
    "(if lnk_parent f \<noteq> None then setParent ctx (lnk_agent f) (lnk_parent f) (ensureAgent ctx (lnk_agent f) w1) else Some (ensureAgent ctx (lnk_agent f) w1)) = Some w3"
    "reconcileLinks ctx (changeAgent (lnk_agent f) (no_update\<lparr>u_name := lnk_name f, u_model := lnk_model f, u_background := lnk_background f\<rparr>) (note_spawn (lnk_agent f) (lnk_spawnedBy f) w3)) = Some w'"
  using assms unfolding linkAgent_def Let_def by (elim bind_SomeE) (rule that)

lemma linkAgent_inv:
  assumes src: "id_source (ids ctx)" and inv: "tree_inv (ids ctx) w" and "linkAgent ctx f w = Some w'"
  shows "tree_inv (ids ctx) w'"
proof -
  let ?k = "lnk_agent f"
  obtain w1 w3 where w1: "(case lnk_parent f of None \<Rightarrow> Some w | Some p \<Rightarrow> ensureParent ctx ?k p w) = Some w1"
    and w3: "(if lnk_parent f \<noteq> None then setParent ctx ?k (lnk_parent f) (ensureAgent ctx ?k w1) else Some (ensureAgent ctx ?k w1)) = Some w3"
    and fin: "reconcileLinks ctx (changeAgent ?k (no_update\<lparr>u_name := lnk_name f, u_model := lnk_model f, u_background := lnk_background f\<rparr>) (note_spawn ?k (lnk_spawnedBy f) w3)) = Some w'"
    using linkAgent_cases [OF assms(3)] by blast
  define w2 where "w2 = ensureAgent ctx ?k w1"
  have i1: "tree_inv (ids ctx) w1" and p1: "\<And>p. lnk_parent f = Some p \<Longrightarrow> has (st_agents w1) p"
    using w1 inv ensureParent_inv [OF src inv] by (auto split: option.splits)
  have i2: "tree_inv (ids ctx) w2" unfolding w2_def by (rule tree_inv_ensureAgent [OF src i1])
  have i3: "tree_inv (ids ctx) w3"
  proof -
    have p2: "\<And>p. lnk_parent f = Some p \<Longrightarrow> has (st_agents w2) p"
      using p1 by (simp add: w2_def)
    show ?thesis
    proof (cases "lnk_parent f = None")
      case True
      with w3 have "w2 = w3" unfolding w2_def by simp
      with i2 show ?thesis by simp
    next
      case False
      with w3 have sp: "setParent ctx ?k (lnk_parent f) w2 = Some w3" unfolding w2_def by simp
      show ?thesis by (rule setParent_inv [OF src i2 sp p2])
    qed
  qed
  let ?u = "no_update\<lparr>u_name := lnk_name f, u_model := lnk_model f, u_background := lnk_background f\<rparr>"
  have "tree_inv (ids ctx) (note_spawn ?k (lnk_spawnedBy f) w3)"
    by (rule tree_inv_same [OF same_tree_note_spawn i3])
  then have "tree_inv (ids ctx) (changeAgent ?k ?u (note_spawn ?k (lnk_spawnedBy f) w3))"
    by (rule tree_inv_same [rotated]) (rule same_tree_changeAgent, simp add: no_update_def)
  with fin show ?thesis using reconcileLinks_inv [OF src] by blast
qed

lemma ensureInitialRoot_inv:
  assumes "id_source (ids ctx)" "tree_inv (ids ctx) w" "ensureInitialRoot ctx w = Some w'"
  shows "tree_inv (ids ctx) w'"
proof (cases "st_initialRoot w")
  case (Some f)
  have "same_tree w (w\<lparr>st_initialRoot := None\<rparr>)" by (simp add: same_tree_def tv_def fun_eq_iff)
  from tree_inv_same [OF this assms(2)] show ?thesis
    using seeAgent_inv [OF assms(1)] assms(3) Some by (auto simp: ensureInitialRoot_def)
qed (use assms in \<open>simp add: ensureInitialRoot_def\<close>)

end
