(* ===== verification/Core_Frame.thy ===== *)
theory Core_Frame
  imports Core_Tree_Inv
begin

text \<open>
  What the operations of tree.ts leave alone: runs, interactions, tasks, the live indexes, every
  item up to the two agent references of its tool detail, and the active runs of the agents.
  The relation \<open>tree_step\<close> collects this, and the invariant \<open>work_ok\<close> (the four live indexes
  agree with the entities) passes through it.
\<close>

definition erase :: "item \<Rightarrow> item" where
  "erase = set_detail (\<lambda>d. d\<lparr>det_childAgentId := None, det_targetAgentId := None\<rparr>)"

definition iv :: "'a state \<Rightarrow> key \<Rightarrow> item option" where
  "iv s k = map_option erase (get (st_items s) k)"

text \<open>What the runs of a thread depend on in an agent record.\<close>

type_synonym sight = "ident \<times> ident option \<times> ident dict"

definition sight :: "agent_record \<Rightarrow> sight" where
  "sight r = (a_id (ar_agent r), ar_activeRun r, ar_nativeRuns r)"

definition run_view :: "'a state \<Rightarrow> key \<Rightarrow> sight option" where
  "run_view s k = map_option sight (get (st_agents s) k)"

text \<open>Known agents keep their runs; a new agent has none.\<close>

definition grows :: "(key \<Rightarrow> sight option) \<Rightarrow> (key \<Rightarrow> sight option) \<Rightarrow> bool" where
  "grows v v' \<longleftrightarrow> (\<forall>k x. v k = Some x \<longrightarrow> v' k = Some x) \<and>
     (\<forall>k x. v k = None \<and> v' k = Some x \<longrightarrow> snd x = (None, []))"

lemma grows_refl [simp]: "grows v v"
  by (auto simp: grows_def)

lemma growsD: "grows v v' \<Longrightarrow> v k = Some x \<Longrightarrow> v' k = Some x"
  unfolding grows_def by blast

lemma grows_trans:
  assumes "grows v v'" "grows v' v''"
  shows "grows v v''"
  unfolding grows_def
proof (intro conjI allI impI)
  fix k x assume "v k = Some x"
  with assms show "v'' k = Some x" by (blast dest: growsD)
next
  fix k x assume *: "v k = None \<and> v'' k = Some x"
  show "snd x = (None, [])"
  proof (cases "v' k")
    case None
    with * assms(2) show ?thesis unfolding grows_def by blast
  next
    case (Some y)
    with * growsD [OF assms(2)] have "v' k = Some x" by fastforce
    with * assms(1) show ?thesis unfolding grows_def by blast
  qed
qed

definition tree_step :: "world \<Rightarrow> world \<Rightarrow> bool" where
  "tree_step w w' \<longleftrightarrow>
     st_runs w' = st_runs w \<and> iv w' = iv w \<and> st_interactions w' = st_interactions w \<and>
     st_tasks w' = st_tasks w \<and> st_uncertainTasks w' = st_uncertainTasks w \<and>
     live_tools w' = live_tools w \<and> open_text w' = open_text w \<and>
     pending_ints w' = pending_ints w \<and> running_tasks w' = running_tasks w \<and>
     w_seq w \<le> w_seq w' \<and> grows (run_view w) (run_view w')"

lemma tree_step_refl [simp]: "tree_step w w"
  by (simp add: tree_step_def)

lemma tree_step_trans: "tree_step w w' \<Longrightarrow> tree_step w' w'' \<Longrightarrow> tree_step w w''"
  by (auto simp: tree_step_def intro: grows_trans)

lemma tree_stepI:
  assumes "st_runs w' = st_runs w" "iv w' = iv w" "st_interactions w' = st_interactions w"
    "st_tasks w' = st_tasks w" "st_uncertainTasks w' = st_uncertainTasks w"
    "live_tools w' = live_tools w" "open_text w' = open_text w" "pending_ints w' = pending_ints w"
    "running_tasks w' = running_tasks w" "w_seq w \<le> w_seq w'" "run_view w' = run_view w"
  shows "tree_step w w'"
  using assms by (simp add: tree_step_def)

lemma iv_cong: "st_items s' = st_items s \<Longrightarrow> iv s' = iv s"
  by (simp add: iv_def fun_eq_iff)

lemma run_view_upd_agent:
  assumes "\<And>r. sight (f r) = sight r"
  shows "run_view (upd_agent k f s) = run_view s"
proof
  fix k'
  show "run_view (upd_agent k f s) k' = run_view s k'"
    using assms by (cases "get (st_agents s) k'") (auto simp: run_view_def)
qed

lemma tree_step_upd_agent:
  assumes "\<And>r. sight (f r) = sight r"
  shows "tree_step w (upd_agent k f w)"
  using run_view_upd_agent [OF assms] by (intro tree_stepI) (simp_all add: iv_def fun_eq_iff)

lemma tree_step_emit: "tree_step w (emit e w)"
  by (intro tree_stepI) (simp_all add: iv_def run_view_def fun_eq_iff)

lemma tree_step_upd_indexes:
  assumes "liveTools (f (st_indexes w)) = live_tools w" "openText (f (st_indexes w)) = open_text w"
    "pendingInteractions (f (st_indexes w)) = pending_ints w"
    "runningTasks (f (st_indexes w)) = running_tasks w"
  shows "tree_step w (upd_indexes f w)"
  using assms by (intro tree_stepI) (simp_all add: iv_def run_view_def upd_indexes_def fun_eq_iff)

lemma tree_step_fold:
  assumes "\<And>x w. tree_step w (f x w)"
  shows "tree_step w (fold f xs w)"
  using assms by (induction xs arbitrary: w) (auto intro: tree_step_trans)

lemma tree_step_foldM:
  assumes "foldM f xs w = Some w'" and "\<And>x w w'. f x w = Some w' \<Longrightarrow> tree_step w w'"
  shows "tree_step w w'"
  using assms(1)
  by (rule foldM_invariant [where I = "tree_step w"]) (auto intro: tree_step_trans assms(2))

subsection \<open>The operations of tree.ts\<close>

lemma run_view_None: "run_view s k = None \<longleftrightarrow> \<not> has (st_agents s) k"
  by (simp add: run_view_def has_def)

lemma tree_step_ensureAgent: "tree_step w (ensureAgent ctx k w)"
proof (cases "has (st_agents w) k")
  case False
  let ?w = "ensureAgent ctx k w"
  note new = ensureAgent_new [OF False, of ctx]
  have fields: "st_runs ?w = st_runs w" "st_items ?w = st_items w" "st_interactions ?w = st_interactions w"
    "st_tasks ?w = st_tasks w" "st_uncertainTasks ?w = st_uncertainTasks w" "live_tools ?w = live_tools w"
    "open_text ?w = open_text w" "pending_ints ?w = pending_ints w" "running_tasks ?w = running_tasks w"
    using False by (simp_all add: ensureAgent_def next_id_def Let_def)
  have rv: "run_view ?w k' = (if k' = k then Some (ids ctx Id_agent (w_seq w), None, []) else run_view w k')" for k'
    by (simp add: run_view_def new(1) new_record_def sight_def)
  have none: "run_view w k = None" using False by (simp add: run_view_None)
  show ?thesis
    unfolding tree_step_def grows_def
    using none by (auto simp: fields iv_cong [OF fields(2)] new(2) rv)
qed simp

lemma changeAgent_activeRun:
  "run_view (changeAgent k u w) = run_view w"
proof
  fix k'
  obtain c where "get (st_agents (changeAgent k u w)) k' =
     (if k' = k then map_option (\<lambda>r. r\<lparr>ar_agent := apply_update (c r) (ar_agent r)\<rparr>) (get (st_agents w) k)
      else get (st_agents w) k')"
    using changeAgent_get by blast
  then show "run_view (changeAgent k u w) k' = run_view w k'"
    by (cases "get (st_agents w) k") (auto simp: run_view_def sight_def)
qed

lemma tree_step_changeAgent: "tree_step w (changeAgent k u w)"
  by (intro tree_stepI) (simp_all add: changeAgent_activeRun iv_def fun_eq_iff)

lemma tree_step_refreshAgentIndex: "tree_step w (refreshAgentIndex k prev w)"
  by (intro tree_stepI) (simp_all add: iv_def run_view_def fun_eq_iff)

lemma tree_step_link_parent: "tree_step w (link_parent k p pid clears w)"
proof -
  have "tree_step w (upd_agent k (\<lambda>r. r\<lparr>ar_spawnedByKey := (if clears then None else ar_spawnedByKey r), ar_parentKey := p\<rparr>) w)"
    by (rule tree_step_upd_agent) (simp add: sight_def)
  then show ?thesis unfolding link_parent_def Let_def
    by (blast intro: tree_step_trans tree_step_changeAgent tree_step_refreshAgentIndex)
qed

lemma tree_step_setParent:
  assumes "setParent ctx k p w = Some w'"
  shows "tree_step w w'"
  using assms
  by (cases rule: setParent_cases) (blast intro: tree_step_trans tree_step_ensureAgent tree_step_link_parent)+

lemma tree_step_root: "tree_step w (w\<lparr>st_rootKey := r\<rparr>)"
  by (intro tree_stepI) (simp_all add: iv_def run_view_def fun_eq_iff)

lemma tree_step_adoptRoot:
  assumes "adoptRoot ctx k w = Some w'"
  shows "tree_step w w'"
proof -
  obtain w1 where w1: "setParent ctx k None (w\<lparr>st_rootKey := Some k\<rparr>) = Some w1"
    using assms by (auto simp: adoptRoot_def elim!: bind_SomeE)
  define w2 where "w2 = changeAgent k (origin_update Root) (ensureAgent ctx k w1)"
  have s2: "tree_step w w2"
    unfolding w2_def
    by (blast intro: tree_step_trans tree_step_root tree_step_setParent [OF w1] tree_step_ensureAgent tree_step_changeAgent)
  consider "w' = w2" | old w3 where "setParent ctx old (Some k) w2 = Some w3"
      "w' = changeAgent old (origin_update Provider_subagent) w3"
    using assms w1 unfolding adoptRoot_def
    by (auto simp: w2_def Let_def split: option.splits if_splits)
  then show ?thesis
    using s2 by cases (blast intro: tree_step_trans tree_step_setParent tree_step_changeAgent)+
qed

lemma tree_step_ensureParent:
  assumes "ensureParent ctx k p w = Some w'"
  shows "tree_step w w'"
  using assms unfolding ensureParent_def Let_def
  by (auto split: if_splits intro: tree_step_trans tree_step_ensureAgent tree_step_adoptRoot)

lemma tree_step_links:
  "tree_step w (registerItemLink k w)" "tree_step w (drop_item_link k w)"
  "tree_step w (drop_spawn_link k w)" "tree_step w (registerSpawnLink a k w)"
  "tree_step w (put_link k l w)"
  unfolding registerItemLink_def drop_item_link_def drop_spawn_link_def registerSpawnLink_def
  by (rule tree_step_upd_indexes; simp)+
    (rule tree_stepI; simp add: put_link_def iv_def run_view_def fun_eq_iff)

lemma tree_step_reconcile_spawns: "tree_step w (reconcile_spawns w)"
proof -
  have link: "tree_step w (registerItemLink ik (put_link ik l w))" for ik l w
    by (rule tree_step_trans [OF tree_step_links(5) tree_step_links(1)])
  have agent: "tree_step w (spawn_link_agent ik item k w)" for ik item k w
    using tree_step_trans [OF tree_step_changeAgent link] tree_step_changeAgent
    by (auto simp: spawn_link_agent_def Let_def split: option.splits)
  show ?thesis unfolding reconcile_spawns_def
    by (rule tree_step_fold)
      (auto split: option.splits prod.splits
        intro: tree_step_trans [OF tree_step_fold tree_step_links(3)] agent)
qed

lemma erase_set_detail:
  assumes "\<And>d. (f d)\<lparr>det_childAgentId := None, det_targetAgentId := None\<rparr> =
      d\<lparr>det_childAgentId := None, det_targetAgentId := None\<rparr>"
  shows "erase (set_detail f i) = erase i"
  using assms by (auto simp: erase_def set_detail_def split: item_body.splits)

lemma tree_step_put_item:
  assumes "get (st_items w) k = Some i" "erase i' = erase i"
  shows "tree_step w (put_item k i' w)"
  using assms by (intro tree_stepI) (auto simp: iv_def run_view_def put_item_def fun_eq_iff)

lemma tree_step_link_item:
  assumes li: "link_item ctx k item d lk w0 = Some w'" and item: "get (st_items w0) k = Some item"
  shows "tree_step w0 w'"
proof -
  define w where "w = ensureAgent ctx lk w0"
  have s0: "tree_step w0 w" unfolding w_def by (rule tree_step_ensureAgent)
  obtain a where a: "agent_of w lk = Some a" using agent_of_has [of w lk] by (auto simp: w_def)
  have "st_items w = st_items w0"
    by (cases "has (st_agents w0) lk") (simp_all add: w_def ensureAgent_def next_id_def Let_def)
  then have it: "get (st_items w) k = Some item" using item by simp
  let ?item = "set_detail (\<lambda>d. d\<lparr>det_childAgentId := Some (a_id a)\<rparr>) item"
  let ?item' = "set_detail (\<lambda>d. d\<lparr>det_targetAgentId := Some (a_id a)\<rparr>) item"
  let ?w1 = "upd_agent lk (\<lambda>r. r\<lparr>ar_spawnedByKey := Some k\<rparr>) (put_item k ?item w)"
  consider (spawn) w2 where "setParent ctx lk (get (agentKeysById (st_indexes ?w1)) (item_agentId item)) ?w1 = Some w2"
      "w' = emit (Item_updated ?item) (changeAgent lk (no_update\<lparr>u_spawnedBy := Some (Some (item_id item))\<rparr>) w2)"
    | (message) "w' = emit (Item_updated ?item') (put_item k ?item' w)" | (same) "w' = w"
    using li a unfolding link_item_def by (auto simp: Let_def simp flip: w_def split: if_splits elim!: bind_SomeE)
  then show ?thesis
  proof cases
    case spawn
    have "tree_step w (put_item k ?item w)"
      by (rule tree_step_put_item [OF it]) (rule erase_set_detail, simp)
    moreover have "tree_step (put_item k ?item w) ?w1" by (rule tree_step_upd_agent) (simp add: sight_def)
    ultimately have "tree_step w0 ?w1" using s0 tree_step_trans by blast
    with spawn show ?thesis
      by (blast intro: tree_step_trans tree_step_setParent tree_step_changeAgent tree_step_emit)
  next
    case message
    have "tree_step w (put_item k ?item' w)"
      by (rule tree_step_put_item [OF it]) (rule erase_set_detail, simp)
    with message s0 show ?thesis by (blast intro: tree_step_trans tree_step_emit)
  qed (use s0 in simp)
qed

lemma tree_step_reconcile_item:
  assumes "reconcile_item ctx k w = Some w'"
  shows "tree_step w w'"
proof -
  consider "w' = drop_item_link k w"
    | item d lk w1 where "get (st_items w) k = Some item" "link_item ctx k item d lk w = Some w1" "w' = drop_item_link k w1"
    using assms by (auto simp: reconcile_item_def split: option.splits item_body.splits)
  then show ?thesis
    by cases (auto intro: tree_step_links tree_step_trans tree_step_link_item)
qed

lemma tree_step_reconcileLinks:
  assumes "reconcileLinks ctx w = Some w'"
  shows "tree_step w w'"
  using assms unfolding reconcileLinks_def Let_def
  by (rule tree_step_trans [OF tree_step_reconcile_spawns tree_step_foldM]) (rule tree_step_reconcile_item)

lemma tree_step_note_spawn: "tree_step w (note_spawn k i w)"
proof (cases i)
  case (Some x)
  have "tree_step w (upd_agent k (\<lambda>r. r\<lparr>ar_spawnedByKey := Some x\<rparr>) w)"
    by (rule tree_step_upd_agent) (simp add: sight_def)
  with Some show ?thesis by (auto simp: note_spawn_def intro: tree_step_trans tree_step_links)
qed (simp add: note_spawn_def)

lemma tree_step_seeAgent:
  assumes "seeAgent ctx f w = Some w'"
  shows "tree_step w w'"
  using assms
proof (cases rule: seeAgent_cases)
  case (1 w1 w3)
  have "tree_step w w1" using 1(1) by (auto split: option.splits intro: tree_step_ensureParent)
  moreover have "tree_step (ensureAgent ctx (seen_agent f) w1) w3"
    using 1(2) by (auto split: if_splits intro: tree_step_adoptRoot tree_step_setParent)
  ultimately show ?thesis
    by (meson 1(3) tree_step_trans tree_step_ensureAgent tree_step_note_spawn tree_step_changeAgent tree_step_reconcileLinks)
qed

lemma tree_step_linkAgent:
  assumes "linkAgent ctx f w = Some w'"
  shows "tree_step w w'"
  using assms
proof (cases rule: linkAgent_cases)
  case (1 w1 w3)
  have "tree_step w w1" using 1(1) by (auto split: option.splits intro: tree_step_ensureParent)
  moreover have "tree_step (ensureAgent ctx (lnk_agent f) w1) w3"
    using 1(2) by (auto split: if_splits intro: tree_step_setParent)
  ultimately show ?thesis
    by (meson 1(3) tree_step_trans tree_step_ensureAgent tree_step_note_spawn tree_step_changeAgent tree_step_reconcileLinks)
qed

lemma tree_step_ensureInitialRoot:
  assumes "ensureInitialRoot ctx w = Some w'"
  shows "tree_step w w'"
proof -
  have "tree_step w (w\<lparr>st_initialRoot := None\<rparr>)"
    by (intro tree_stepI) (simp_all add: iv_def run_view_def fun_eq_iff)
  with assms show ?thesis
    by (auto simp: ensureInitialRoot_def split: option.splits intro: tree_step_trans tree_step_seeAgent)
qed

subsection \<open>The live indexes\<close>

definition work_ok :: "'a state \<Rightarrow> bool" where
  "work_ok s \<longleftrightarrow> tools.consistent s \<and> texts.consistent s \<and> ints.consistent s \<and> bgs.consistent s"

lemma erase_live [simp]: "isLiveTool (erase i) = isLiveTool i" "isOpenText (erase i) = isOpenText i"
  by (auto simp: erase_def set_detail_def isLiveTool.simps isOpenText.simps split: item_body.splits)

lemma tool_live_iv: "tool_live s k = (case iv s k of None \<Rightarrow> False | Some i \<Rightarrow> isLiveTool i)"
  by (auto simp: tool_live_def iv_def split: option.splits)

lemma text_open_iv: "text_open s k = (case iv s k of None \<Rightarrow> False | Some i \<Rightarrow> isOpenText i)"
  by (auto simp: text_open_def iv_def split: option.splits)

lemma work_ok_step:
  assumes st: "tree_step w w'" and ok: "work_ok w"
  shows "work_ok w'"
proof -
  have "tool_live w' = tool_live w" "text_open w' = text_open w" "interaction_live w' = interaction_live w"
    "task_live w' = task_live w"
    using st by (auto simp: tree_step_def fun_eq_iff tool_live_iv text_open_iv interaction_live_def task_live_def split: option.splits)
  then show ?thesis
    using st ok unfolding work_ok_def tree_step_def
    by (auto intro: tools.consistent_frame texts.consistent_frame ints.consistent_frame bgs.consistent_frame)
qed

end
