(* ===== verification/Json_Parse.thy ===== *)
theory Json_Parse
  imports Json
begin

text \<open>
  \<open>JSON.parse\<close> of the language, as src/packages/core/src/ace-tools.ts uses it on streamed tool
  input. Strings are UTF-8 bytes; escapes are encoded to UTF-8, a lone surrogate as U+FFFD. Numbers
  are exact rationals. \<^const>\<open>None\<close> is the SyntaxError. The recursion is bounded by fuel; a value
  consumes at least one byte per level, so the length of the text is enough.
\<close>

definition code :: "char \<Rightarrow> nat" where
  "code c = of_char c"

definition is_ws :: "char \<Rightarrow> bool" where
  "is_ws c \<longleftrightarrow> code c \<in> {9, 10, 13, 32}"

definition is_digit :: "char \<Rightarrow> bool" where
  "is_digit c \<longleftrightarrow> 48 \<le> code c \<and> code c \<le> 57"

definition skip :: "string \<Rightarrow> string" where
  "skip s = dropWhile is_ws s"

definition hex_val :: "char \<Rightarrow> nat option" where
  "hex_val c = (let n = code c in
     if 48 \<le> n \<and> n \<le> 57 then Some (n - 48)
     else if 65 \<le> n \<and> n \<le> 70 then Some (n - 55)
     else if 97 \<le> n \<and> n \<le> 102 then Some (n - 87) else None)"

fun hex4 :: "string \<Rightarrow> (nat \<times> string) option" where
  "hex4 (a # b # c # d # rest) = do {
     x \<leftarrow> hex_val a; y \<leftarrow> hex_val b; z \<leftarrow> hex_val c; u \<leftarrow> hex_val d;
     Some (((x * 16 + y) * 16 + z) * 16 + u, rest)
   }"
| "hex4 _ = None"

definition utf8_encode :: "nat \<Rightarrow> string" where
  "utf8_encode n =
     (if n < 0x80 then [char_of n]
      else if n < 0x800 then [char_of (0xC0 + n div 64), char_of (0x80 + n mod 64)]
      else if n < 0x10000 then
        [char_of (0xE0 + n div 4096), char_of (0x80 + n div 64 mod 64), char_of (0x80 + n mod 64)]
      else [char_of (0xF0 + n div 262144), char_of (0x80 + n div 4096 mod 64),
            char_of (0x80 + n div 64 mod 64), char_of (0x80 + n mod 64)])"

text \<open>The unit of a \<open>\u\<close> escape, joined with a low surrogate that follows it.\<close>

definition unicode_escape :: "string \<Rightarrow> (string \<times> string) option" where
  "unicode_escape s = do {
     (n, rest) \<leftarrow> hex4 s;
     if 0xD800 \<le> n \<and> n < 0xDC00 then
       (case rest of
          e # u # rest1 \<Rightarrow>
            if code e = 92 \<and> u = CHR ''u'' then
              (case hex4 rest1 of
                 Some (m, rest2) \<Rightarrow>
                   if 0xDC00 \<le> m \<and> m < 0xE000
                   then Some (utf8_encode (0x10000 + (n - 0xD800) * 1024 + (m - 0xDC00)), rest2)
                   else Some (utf8_encode 0xFFFD, rest)
               | None \<Rightarrow> Some (utf8_encode 0xFFFD, rest))
            else Some (utf8_encode 0xFFFD, rest)
        | _ \<Rightarrow> Some (utf8_encode 0xFFFD, rest))
     else if 0xDC00 \<le> n \<and> n < 0xE000 then Some (utf8_encode 0xFFFD, rest)
     else Some (utf8_encode n, rest)
   }"

definition simple_escape :: "char \<Rightarrow> char option" where
  "simple_escape c =
     (if code c \<in> {34, 47, 92} then Some c
      else if c = CHR ''b'' then Some (CHR 8) else if c = CHR ''f'' then Some (CHR 12)
      else if c = CHR ''n'' then Some (CHR 10) else if c = CHR ''r'' then Some (CHR 13)
      else if c = CHR ''t'' then Some (CHR 9) else None)"

fun parse_chars :: "nat \<Rightarrow> string \<Rightarrow> (string \<times> string) option" where
  "parse_chars 0 _ = None"
| "parse_chars (Suc n) s = (case s of
     [] \<Rightarrow> None
   | c # rest \<Rightarrow>
       if code c = 34 then Some ([], rest)
       else if code c < 32 then None
       else if code c = 92 then
         (case rest of
            [] \<Rightarrow> None
          | e # rest1 \<Rightarrow>
              if e = CHR ''u'' then do {
                (u, rest2) \<leftarrow> unicode_escape rest1;
                (t, rest3) \<leftarrow> parse_chars n rest2;
                Some (u @ t, rest3)
              } else do {
                x \<leftarrow> simple_escape e;
                (t, rest2) \<leftarrow> parse_chars n rest1;
                Some (x # t, rest2)
              })
       else map_option (\<lambda>(t, rest1). (c # t, rest1)) (parse_chars n rest))"

definition digits :: "string \<Rightarrow> string \<times> string" where
  "digits s = (takeWhile is_digit s, dropWhile is_digit s)"

definition parse_number :: "string \<Rightarrow> (json \<times> string) option" where
  "parse_number s = (let
       neg = (s \<noteq> [] \<and> hd s = CHR ''-'');
       (int_part, s1) = digits (if neg then tl s else s)
     in if int_part = [] \<or> length int_part > 1 \<and> hd int_part = CHR ''0'' then None
     else let
       has_frac = (s1 \<noteq> [] \<and> hd s1 = CHR ''.'');
       (frac, s2) = (if has_frac then digits (tl s1) else ([], s1))
     in if has_frac \<and> frac = [] then None
     else let
       has_exp = (s2 \<noteq> [] \<and> hd s2 \<in> {CHR ''e'', CHR ''E''});
       exp_neg = (has_exp \<and> tl s2 \<noteq> [] \<and> hd (tl s2) = CHR ''-'');
       exp_sign = (has_exp \<and> tl s2 \<noteq> [] \<and> hd (tl s2) \<in> {CHR ''-'', CHR ''+''});
       (ex, s3) = (if has_exp then digits (if exp_sign then tl (tl s2) else tl s2) else ([], s2))
     in if has_exp \<and> ex = [] then None
     else let
       m = (of_nat (digits_value (int_part @ frac)) :: rat) / 10 ^ length frac;
       v = (if exp_neg then m / 10 ^ digits_value ex else m * 10 ^ digits_value ex)
     in Some (JNum (if neg then - v else v), s3))"

fun parse_value :: "nat \<Rightarrow> string \<Rightarrow> (json \<times> string) option"
and parse_items :: "nat \<Rightarrow> string \<Rightarrow> (json list \<times> string) option"
and parse_members :: "nat \<Rightarrow> fields \<Rightarrow> string \<Rightarrow> (fields \<times> string) option" where
  "parse_value 0 s = None"
| "parse_value (Suc n) s0 = (let s = skip s0 in
     if s = [] then None
     else if code (hd s) = 34 then map_option (\<lambda>(t, r). (JStr t, r)) (parse_chars n (tl s))
     else if hd s = CHR ''['' then
       (if skip (tl s) \<noteq> [] \<and> hd (skip (tl s)) = CHR '']'' then Some (JArr [], tl (skip (tl s)))
        else map_option (\<lambda>(xs, r). (JArr xs, r)) (parse_items n (tl s)))
     else if hd s = CHR ''{'' then
       (if skip (tl s) \<noteq> [] \<and> hd (skip (tl s)) = CHR ''}'' then Some (JObj [], tl (skip (tl s)))
        else map_option (\<lambda>(fs, r). (JObj fs, r)) (parse_members n [] (tl s)))
     else if take 4 s = ''true'' then Some (JBool True, drop 4 s)
     else if take 5 s = ''false'' then Some (JBool False, drop 5 s)
     else if take 4 s = ''null'' then Some (JNull, drop 4 s)
     else parse_number s)"
| "parse_items 0 s = None"
| "parse_items (Suc n) s = do {
     (x, r) \<leftarrow> parse_value n s;
     (case skip r of
        c # rest \<Rightarrow>
          if c = CHR '','' then map_option (\<lambda>(xs, r). (x # xs, r)) (parse_items n rest)
          else if c = CHR '']'' then Some ([x], rest) else None
      | [] \<Rightarrow> None)
   }"
| "parse_members 0 fs s = None"
| "parse_members (Suc n) fs s = (case skip s of
     q # r \<Rightarrow>
       if code q \<noteq> 34 then None
       else do {
         (k, r1) \<leftarrow> parse_chars n r;
         (case skip r1 of
            c # r2 \<Rightarrow>
              if c \<noteq> CHR '':'' then None
              else do {
                (v, r3) \<leftarrow> parse_value n r2;
                (case skip r3 of
                   d # r4 \<Rightarrow>
                     if d = CHR '','' then parse_members n (put fs k v) r4
                     else if d = CHR ''}'' then Some (put fs k v, r4) else None
                 | [] \<Rightarrow> None)
              }
          | [] \<Rightarrow> None)
       }
   | [] \<Rightarrow> None)"

definition jsonParse :: "string \<Rightarrow> json option" where
  "jsonParse s = (case parse_value (2 * length s + 2) s of
     Some (v, r) \<Rightarrow> if skip r = [] then Some v else None
   | None \<Rightarrow> None)"

lemma jsonParse_example:
  "jsonParse [CHR ''{'', CHR 34, CHR ''a'', CHR 34, CHR '':'', CHR ''1'', CHR ''}''] = Some (JObj [(''a'', JNum 1)])"
  by code_simp

end
