(* ===== verification/Ace_Tools.thy ===== *)
theory Ace_Tools
  imports Core_State Json_Parse Output_Delta
begin

text \<open>
  Recognition and redaction of ace's own tool calls (src/packages/core/src/ace-tools.ts and
  src/packages/provider-kit/src/ace-tool-names.ts): whatever spelling a provider reports, a call of
  an ace tool becomes an \<open>mcp\<close> call of server \<open>ace\<close>, and text a person or agent typed into an
  app is replaced before the call is stored. The search of native payloads visits at most 64 values,
  which is the loop's own bound.
\<close>

subsection \<open>Names (ace-tool-names.ts)\<close>

function strip_ace :: "string \<Rightarrow> string" where
  "strip_ace bare = (if take 4 bare = ''ace_'' then strip_ace (drop 4 bare) else bare)"
  by pat_completeness auto
termination
proof (relation "measure length", goal_cases)
  case (2 bare)
  then have "bare \<noteq> []" by auto
  then show ?case by (cases bare) auto
qed simp

declare strip_ace.simps [simp del]

definition startsWith :: "string \<Rightarrow> string \<Rightarrow> bool" where
  "startsWith s p \<longleftrightarrow> take (length p) s = p"

definition endsWith :: "string \<Rightarrow> string \<Rightarrow> bool" where
  "endsWith s p \<longleftrightarrow> length p \<le> length s \<and> drop (length s - length p) s = p"

definition bareToolName :: "string \<Rightarrow> string" where
  "bareToolName name = strip_ace (if startsWith name ''mcp__ace__'' then drop 10 name else name)"

definition aceToolSearch :: string where
  "aceToolSearch = ''tools_find''"

definition aceToolDispatch :: string where
  "aceToolDispatch = ''tools_call''"

text \<open>\<open>value ?? fallback\<close> on an optional JSON value: null counts as absent.\<close>

definition nullish :: "json option \<Rightarrow> json option \<Rightarrow> json option" where
  "nullish v d = (case v of None \<Rightarrow> d | Some JNull \<Rightarrow> d | Some j \<Rightarrow> Some j)"

definition arg_or_empty :: "json option \<Rightarrow> json" where
  "arg_or_empty v = (case v of None \<Rightarrow> JObj [] | Some JNull \<Rightarrow> JObj [] | Some j \<Rightarrow> j)"

definition dispatchedAceCall :: "string \<Rightarrow> json \<Rightarrow> string \<times> json" where
  "dispatchedAceCall name input =
     (if bareToolName name \<noteq> aceToolDispatch then (name, input)
      else case asObject input of
        None \<Rightarrow> (name, input)
      | Some fs \<Rightarrow>
          (case Option.bind (get fs ''name'') asString of
             None \<Rightarrow> (name, input)
           | Some target \<Rightarrow>
               let bare = bareToolName target in
               if bare = aceToolDispatch \<or> bare = aceToolSearch then (name, input)
               else (bare, arg_or_empty (get fs ''arguments''))))"

subsection \<open>Which calls are ace's\<close>

definition is_lower :: "char \<Rightarrow> bool" where
  "is_lower c \<longleftrightarrow> 97 \<le> code c \<and> code c \<le> 122"

definition toolName :: "string \<Rightarrow> bool" where
  "toolName s \<longleftrightarrow> s \<noteq> [] \<and> is_lower (hd s) \<and> length s \<le> 101 \<and>
     list_all (\<lambda>c. is_lower c \<or> is_digit c \<or> c = CHR ''_'') (tl s)"

definition screen :: "string list" where
  "screen = [''open_app'', ''windows'', ''ui_tree'', ''ui_act'', ''input'', ''screenshot'', ''measure'',
     ''apps'', ''state'', ''act'']"

definition browser :: "string list" where
  "browser = [''open'', ''snapshot'', ''act'', ''wait_for'', ''find'', ''screenshot'', ''logs'', ''evaluate'',
     ''history'', ''settings'', ''measure'']"

definition sim :: "string list" where
  "sim = [''list'', ''start'', ''stop'', ''ui'', ''act'', ''screenshot'', ''logs'']"

definition bareFamilies :: "(string \<times> string list) list" where
  "bareFamilies = [(''browser_'', browser), (''screen_'', screen), (''sim_'', sim)]"

definition namespaced :: "string \<Rightarrow> bool" where
  "namespaced name \<longleftrightarrow> startsWith name ''mcp__ace__'' \<or> startsWith name ''ace_''"

definition aceToolName :: "string \<Rightarrow> string option" where
  "aceToolName name =
     (let bare = bareToolName name in
      if \<not> toolName bare then None
      else if namespaced name then Some bare
      else if list_ex (\<lambda>(prefix, names). startsWith bare prefix \<and> drop (length prefix) bare \<in> set names) bareFamilies
      then Some bare else None)"

definition aceMcpToolName :: "string option \<Rightarrow> string option \<Rightarrow> string option" where
  "aceMcpToolName server tool =
     (if (case server of None \<Rightarrow> [] | Some s \<Rightarrow> s) \<notin> {''ace'', ''unknown'', []} then None
      else let bare = bareToolName (case tool of None \<Rightarrow> [] | Some t \<Rightarrow> t) in
        if toolName bare then Some bare else None)"

text \<open>\<open>callDetail.safeParse(call.detail).data\<close>: kind, server, tool and arguments.\<close>

definition optional_string :: "fields \<Rightarrow> string \<Rightarrow> string option option" where
  "optional_string fs k = (case get fs k of None \<Rightarrow> Some None
     | Some (JStr s) \<Rightarrow> Some (Some s) | Some _ \<Rightarrow> None)"

definition callDetail :: "detail_draft option \<Rightarrow> (tool_kind \<times> string option \<times> string option \<times> json option) option" where
  "callDetail d = do {
     detail \<leftarrow> d;
     kind \<leftarrow> dd_kind detail;
     server \<leftarrow> optional_string (dd_rest detail) ''server'';
     tool \<leftarrow> optional_string (dd_rest detail) ''tool'';
     Some (kind, server, tool, get (dd_rest detail) ''arguments'')
   }"

record pending_value =
  pv_value :: json
  pv_depth :: nat
  pv_inputJson :: bool

definition labels :: "string list" where
  "labels = [''toolName'', ''name'', ''nativeName'', ''title'', ''_toolName'']"

definition label_name :: "fields \<Rightarrow> string option" where
  "label_name data =
     (case List.map_filter (\<lambda>k. Option.bind (Option.bind (get data k) asString) aceToolName) labels of
        [] \<Rightarrow> None | n # _ \<Rightarrow> Some n)"

definition native_input :: "fields \<Rightarrow> json option" where
  "native_input data =
     nullish (get data ''arguments'') (nullish (get data ''args'') (nullish (get data ''input'')
       (nullish (get data ''rawInput'') (nullish (get data ''currentInput'')
         (Option.bind (Option.bind (get data ''state'') asObject) (\<lambda>st. get st ''input''))))))"

definition nested_keys :: "string list" where
  "nested_keys = [''initialFrame'', ''toolCall'', ''update'', ''params'', ''body'', ''data'']"

text \<open>The loop of \<open>calledAceTool\<close>: the first argument is the visits left.\<close>

fun search_native :: "nat \<Rightarrow> string option \<Rightarrow> pending_value list \<Rightarrow> (string \<times> json) option" where
  "search_native 0 title pending = map_option (\<lambda>t. (t, JObj [])) title"
| "search_native (Suc n) title [] = map_option (\<lambda>t. (t, JObj [])) title"
| "search_native (Suc n) title (e # pending) =
     (case asObject (pv_value e) of
        None \<Rightarrow> search_native n title pending
      | Some data \<Rightarrow>
          let name = (case label_name data of Some l \<Rightarrow> Some l | None \<Rightarrow> title);
              direct = native_input data;
              input = (if direct = None \<and> name \<noteq> None \<and> pv_inputJson e then
                  (case Option.bind (get data ''text'') asString of
                     Some text \<Rightarrow> if utf16Length text \<le> 65536
                       then map_option JObj (Option.bind (jsonParse text) asObject) else None
                   | None \<Rightarrow> None)
                else direct)
          in (case (name, input) of
                (Some tool, Some inp) \<Rightarrow>
                  Some (tool, (case asObject inp of
                      Some wrapped \<Rightarrow> (case nullish (get wrapped ''args'') (Some inp) of Some j \<Rightarrow> j | None \<Rightarrow> inp)
                    | None \<Rightarrow> inp))
              | _ \<Rightarrow>
                  if pv_depth e < 5 then
                    search_native n title (fold (\<lambda>k ps. case get data k of None \<Rightarrow> ps
                      | Some v \<Rightarrow> \<lparr>pv_value = v, pv_depth = pv_depth e + 1,
                          pv_inputJson = (get data ''type'' = Some (JStr ''session.tool.input.ended''))\<rparr> # ps)
                      nested_keys pending)
                  else search_native n title pending))"

definition raw_values :: "raw_payload list \<Rightarrow> pending_value list" where
  "raw_values raws = List.map_filter (\<lambda>r. case r of
       Inline_raw _ _ d \<Rightarrow> Some \<lparr>pv_value = d, pv_depth = 0, pv_inputJson = False\<rparr>
     | Blob_raw _ _ _ _ _ \<Rightarrow> None) (rev raws)"

definition calledAceTool :: "call_draft \<Rightarrow> (string \<times> json) option" where
  "calledAceTool call =
     (let detail = callDetail (cd_detail call);
          custom = (map_option fst detail = Some K_custom \<or> cd_kind call = Some K_custom);
          title = aceToolName (case cd_title call of None \<Rightarrow> [] | Some t \<Rightarrow> t);
          fallback = (if custom then search_native 64 title
              (raw_values (case cd_raw call of None \<Rightarrow> [] | Some r \<Rightarrow> r)) else None)
      in case detail of
           Some (K_mcp, server, tool, args) \<Rightarrow>
             (case aceMcpToolName server tool of
                Some name \<Rightarrow> Some (name, arg_or_empty args)
              | None \<Rightarrow> fallback)
         | _ \<Rightarrow> fallback)"

definition aceToolInput :: "call_draft \<Rightarrow> (string \<times> json) option" where
  "aceToolInput call = map_option (\<lambda>(name, input). dispatchedAceCall name input) (calledAceTool call)"

subsection \<open>Private input\<close>

definition textSteps :: "string list" where
  "textSteps = [''type'', ''paste'', ''set_value'', ''select_text'']"

definition stepSecrets :: "string list" where
  "stepSecrets = [''text'', ''value'', ''prefix'', ''suffix'']"

definition privateStep :: "json \<Rightarrow> bool" where
  "privateStep entry = (case asObject entry of None \<Rightarrow> False
     | Some step \<Rightarrow> (case get step ''type'' of Some (JStr t) \<Rightarrow> t \<in> set textSteps | _ \<Rightarrow> False))"

fun asArray :: "json \<Rightarrow> json list option" where
  "asArray (JArr xs) = Some xs"
| "asArray _ = None"

definition privateAceInput :: "string \<Rightarrow> json \<Rightarrow> bool" where
  "privateAceInput tool input =
     (let (called, arg) = dispatchedAceCall tool input;
          name = bareToolName called;
          payload = asObject arg;
          field = (\<lambda>k. Option.bind payload (\<lambda>p. get p k));
          action = Option.bind (nullish (field ''action'') (field ''interaction'')) asObject
      in if endsWith name ''_measure'' \<and> (case action of None \<Rightarrow> False
              | Some a \<Rightarrow> has a ''text'' \<or> has a ''value'') then True
         else if name \<in> {''html_render'', ''html_preview'', ''image_show''} then True
         else if name = ''screen_act'' then
           (case Option.bind (field ''actions'') asArray of None \<Rightarrow> False | Some xs \<Rightarrow> list_ex privateStep xs)
         else name \<in> {''screen_input'', ''screen_ui_act'', ''sim_act'', ''browser_act''} \<and>
           payload \<noteq> None \<and> list_ex (\<lambda>k. field k \<noteq> None) [''text'', ''value'', ''promptText''])"

definition redacted_mark :: json where
  "redacted_mark = JStr ''[redacted]''"

definition redact_keys :: "string list \<Rightarrow> fields \<Rightarrow> fields" where
  "redact_keys keys fs = map (\<lambda>(k, child). (k, if k \<in> set keys then redacted_mark else child)) fs"

definition secretKeys :: "string list" where
  "secretKeys = [''text'', ''value'', ''html'', ''title'', ''promptText'']"

definition redact_step :: "json \<Rightarrow> json" where
  "redact_step entry = (case asObject entry of
       Some step \<Rightarrow> if privateStep entry then JObj (redact_keys stepSecrets step) else entry
     | None \<Rightarrow> entry)"

definition redact_action :: "string \<Rightarrow> fields \<Rightarrow> fields" where
  "redact_action k fs = (case Option.bind (get fs k) asObject of
       Some a \<Rightarrow> put fs k (JObj (redact_keys secretKeys a)) | None \<Rightarrow> fs)"

text \<open>The fields of an ordinary private call.\<close>

definition redact_fields :: "string \<Rightarrow> fields \<Rightarrow> fields" where
  "redact_fields tool fs =
     (let keys = (if bareToolName tool = ''image_show'' then [''data'', ''alt'', ''caption''] else secretKeys);
          r1 = redact_keys keys fs;
          r2 = (case Option.bind (get r1 ''actions'') asArray of
                  Some xs \<Rightarrow> put r1 ''actions'' (JArr (map redact_step xs)) | None \<Rightarrow> r1)
      in redact_action ''interaction'' (redact_action ''action'' r2))"

lemma size_get_less: "get fs k = Some v \<Longrightarrow> size v < size (JObj fs)"
  by (induction fs) (auto split: if_splits)

lemma size_dispatched:
  assumes "dispatchedAceCall name input = (called, arg)" "called \<noteq> name"
  shows "size arg < size input"
proof -
  obtain fs target where fs: "input = JObj fs" "get fs ''name'' = Some target"
      "arg = arg_or_empty (get fs ''arguments'')"
    using assms by (cases input) (auto simp: dispatchedAceCall_def Let_def split: if_splits option.splits)
  show ?thesis
  proof (cases "get fs ''arguments''")
    case None
    with fs size_get_less [OF fs(2)] show ?thesis by (cases fs) (auto simp: arg_or_empty_def)
  next
    case (Some v)
    with fs size_get_less [OF fs(2)] size_get_less [OF Some] show ?thesis
      by (cases v; cases fs) (auto simp: arg_or_empty_def)
  qed
qed

function redactAceArguments :: "string \<Rightarrow> json \<Rightarrow> json" where
  "redactAceArguments name value =
     (if \<not> privateAceInput name value then value
      else let (called, arg) = dispatchedAceCall name value in
        if bareToolName name = aceToolDispatch \<and> called \<noteq> name
        then JObj (put (case asObject value of Some fs \<Rightarrow> fs | None \<Rightarrow> []) ''arguments''
               (redactAceArguments called arg))
        else case asObject value of
          None \<Rightarrow> JObj [(''redacted'', JBool True)]
        | Some fs \<Rightarrow> JObj (redact_fields called fs))"
  by pat_completeness auto
termination
proof (relation "measure (\<lambda>(name, value). size value)", goal_cases)
  case (2 name v x called arg)
  then have d: "dispatchedAceCall name v = (called, arg)" by simp
  from size_dispatched [OF d] 2 show ?case by (auto simp: d)
qed simp

declare redactAceArguments.simps [simp del]

subsection \<open>Normalising a call\<close>

definition draft_of_detail :: "tool_detail \<Rightarrow> detail_draft" where
  "draft_of_detail d = \<lparr>dd_kind = Some (det_kind d), dd_output = None, dd_childAgent = None,
     dd_targetAgent = None, dd_rest = det_rest d\<rparr>"

definition private_raw :: "raw_payload list" where
  "private_raw = [Inline_raw ''ace.private-input'' None (JObj [(''redacted'', JBool True)])]"

definition mcp_detail :: "string \<Rightarrow> json \<Rightarrow> detail_draft" where
  "mcp_detail tool args = \<lparr>dd_kind = Some K_mcp, dd_output = None, dd_childAgent = None,
     dd_targetAgent = None,
     dd_rest = [(''server'', JStr ''ace''), (''tool'', JStr tool), (''arguments'', args)]\<rparr>"

definition first_some :: "'v option \<Rightarrow> 'v \<Rightarrow> 'v option" where
  "first_some a b = Some (case a of None \<Rightarrow> b | Some v \<Rightarrow> v)"

text \<open>The fields an update of an \<open>mcp\<close> call inherits from the stored call.\<close>

definition with_previous :: "call_draft \<Rightarrow> tool_call option \<Rightarrow> call_draft" where
  "with_previous call previous = (case previous of
       Some prev \<Rightarrow>
         if det_kind (call_detail prev) = K_mcp then
           let incoming = aceToolInput call;
               merged = call\<lparr>cd_kind := first_some (cd_kind call) (call_kind prev),
                 cd_title := first_some (cd_title call) (call_title prev),
                 cd_detail := first_some (cd_detail call) (draft_of_detail (call_detail prev))\<rparr>
           in (case incoming of
                 Some (_, JObj []) \<Rightarrow> merged\<lparr>cd_detail := Some (draft_of_detail (call_detail prev))\<rparr>
               | _ \<Rightarrow> merged)
         else call
     | None \<Rightarrow> call)"

definition normalizeAceCall :: "call_draft \<Rightarrow> tool_call option \<Rightarrow> call_draft" where
  "normalizeAceCall call0 previous =
     (let call = with_previous call0 previous in
      case aceToolInput call of
        None \<Rightarrow> call
      | Some (tool, input) \<Rightarrow>
          let base = call\<lparr>cd_kind := Some K_mcp,
                cd_detail := Some (mcp_detail tool (redactAceArguments tool input))\<rparr>
          in if privateAceInput tool input
             then base\<lparr>cd_title := Some tool,
               cd_error := (case cd_error call of None \<Rightarrow> None
                  | Some e \<Rightarrow> if e = [] then Some e else Some ''Ace input failed''),
               cd_raw := Some private_raw\<rparr>
             else base)"

text \<open>\<open>redactAceApproval\<close>; the name of an approval whose input is private, if any.\<close>

definition private_approval :: "interaction_request \<Rightarrow> (string \<times> approval_target) option" where
  "private_approval request =
     (if req_kind request \<noteq> Rq_approval then None
      else case req_target request of
        None \<Rightarrow> None
      | Some target \<Rightarrow>
          let ours = (tgt_origin_ace target \<or> startsWith (tgt_tool target) ''mcp__ace__'' \<or>
                req_mcpServer request = Some ''ace'');
              name = bareToolName (tgt_tool target);
              input = (case tgt_input target of None \<Rightarrow> JNull | Some j \<Rightarrow> j)
          in if ours \<and> name \<noteq> [] \<and> privateAceInput name input then Some (name, target) else None)"

definition redactAceApproval :: "interaction_request \<Rightarrow> interaction_request" where
  "redactAceApproval request = (case private_approval request of
       None \<Rightarrow> request
     | Some (name, target) \<Rightarrow>
         request\<lparr>req_title := Some ''Approve computer input'',
           req_description := Some ''Input content is redacted.'',
           req_target := Some (target\<lparr>
             tgt_input := Some (redactAceArguments name (case tgt_input target of None \<Rightarrow> JNull | Some j \<Rightarrow> j)),
             tgt_description := Some ''Input content is redacted.''\<rparr>)\<rparr>)"

subsection \<open>Properties\<close>

definition hidden :: "string list \<Rightarrow> fields \<Rightarrow> bool" where
  "hidden keys fs \<longleftrightarrow> list_all (\<lambda>k. get fs k \<in> {None, Some redacted_mark}) keys"

definition action_hidden :: "fields \<Rightarrow> string \<Rightarrow> bool" where
  "action_hidden fs k = (case Option.bind (get fs k) asObject of None \<Rightarrow> True | Some a \<Rightarrow> hidden secretKeys a)"

definition step_hidden :: "json \<Rightarrow> bool" where
  "step_hidden j = (case asObject j of Some step \<Rightarrow> privateStep j \<longrightarrow> hidden stepSecrets step | None \<Rightarrow> True)"

text \<open>What a redacted private input may still show: no secret field at the top, in the measured
  action or in a typing step of a batch.\<close>

definition secrets_hidden :: "string \<Rightarrow> fields \<Rightarrow> bool" where
  "secrets_hidden tool fs \<longleftrightarrow>
     hidden (if bareToolName tool = ''image_show'' then [''data'', ''alt'', ''caption''] else secretKeys) fs \<and>
     action_hidden fs ''action'' \<and> action_hidden fs ''interaction'' \<and>
     (case Option.bind (get fs ''actions'') asArray of None \<Rightarrow> True | Some xs \<Rightarrow> list_all step_hidden xs)"

lemma get_redact_keys:
  "get (redact_keys keys fs) k = (if k \<in> set keys then map_option (\<lambda>_. redacted_mark) (get fs k) else get fs k)"
  by (induction fs) (auto simp: redact_keys_def)

lemma hidden_redact_keys: "hidden keys (redact_keys keys fs)"
  by (auto simp: hidden_def list_all_iff get_redact_keys)

lemma step_hidden_redact: "step_hidden (redact_step j)"
proof (cases "asObject j")
  case (Some step)
  have "hidden stepSecrets (redact_keys stepSecrets step)" by (rule hidden_redact_keys)
  with Some show ?thesis by (auto simp: redact_step_def step_hidden_def)
qed (simp add: redact_step_def step_hidden_def)

lemma get_redact_action:
  "get (redact_action a fs) k =
     (if k = a then (case Option.bind (get fs a) asObject of
         Some o' \<Rightarrow> Some (JObj (redact_keys secretKeys o')) | None \<Rightarrow> get fs a) else get fs k)"
  by (auto simp: redact_action_def split: option.splits)

lemma redact_fields_hidden: "secrets_hidden tool (redact_fields tool fs)"
proof -
  define keys where "keys = (if bareToolName tool = ''image_show'' then [''data'', ''alt'', ''caption''] else secretKeys)"
  define r1 where "r1 = redact_keys keys fs"
  define r2 where "r2 = (case Option.bind (get r1 ''actions'') asArray of
      Some xs \<Rightarrow> put r1 ''actions'' (JArr (map redact_step xs)) | None \<Rightarrow> r1)"
  define r3 where "r3 = redact_action ''interaction'' (redact_action ''action'' r2)"
  have r: "redact_fields tool fs = r3"
    unfolding redact_fields_def Let_def r3_def r2_def r1_def keys_def by (rule refl)
  have ks: "''action'' \<notin> set keys" "''interaction'' \<notin> set keys" "''actions'' \<notin> set keys"
    by (simp_all add: keys_def secretKeys_def)
  have top: "get r3 k = get r1 k" if "k \<in> set keys" for k
    using that ks by (auto simp: r3_def r2_def get_redact_action split: option.splits)
  have h1: "hidden keys r3"
    using hidden_redact_keys [of keys fs] top by (auto simp: hidden_def list_all_iff r1_def)
  have h2: "action_hidden r3 ''action''" "action_hidden r3 ''interaction''"
    using hidden_redact_keys
    by (auto simp: action_hidden_def r3_def get_redact_action split: option.splits)
  have a3: "get r3 ''actions'' = get r2 ''actions''" by (simp add: r3_def get_redact_action)
  have h3: "case Option.bind (get r3 ''actions'') asArray of None \<Rightarrow> True | Some xs \<Rightarrow> list_all step_hidden xs"
  proof (cases "Option.bind (get r1 ''actions'') asArray")
    case None
    then show ?thesis by (simp add: a3 r2_def)
  next
    case (Some xs)
    then show ?thesis by (simp add: a3 r2_def list_all_iff step_hidden_redact)
  qed
  show ?thesis unfolding secrets_hidden_def r using h1 h2 h3 by (simp add: keys_def)
qed



text \<open>C27: once a call is recognised as one of ace's with private input, the stored draft carries no
  native payload, no reported title and no error text of it, whatever the adapter sent.\<close>

theorem normalizeAceCall_private:
  assumes "aceToolInput (with_previous call previous) = Some (tool, input)" and "privateAceInput tool input"
  shows "cd_raw (normalizeAceCall call previous) = Some private_raw \<and>
    cd_title (normalizeAceCall call previous) = Some tool \<and>
    cd_error (normalizeAceCall call previous) \<in> {None, Some [], Some ''Ace input failed''} \<and>
    cd_detail (normalizeAceCall call previous) = Some (mcp_detail tool (redactAceArguments tool input))"
  using assms by (auto simp: normalizeAceCall_def Let_def split: option.splits)

definition example_call :: call_draft where
  "example_call = \<lparr>cd_kind = Some K_mcp, cd_title = Some ''x'', cd_status = None,
     cd_detail = Some \<lparr>dd_kind = Some K_mcp, dd_output = None, dd_childAgent = None, dd_targetAgent = None,
       dd_rest = [(''server'', JStr ''ace''), (''tool'', JStr ''browser_act''),
                  (''arguments'', JObj [(''text'', JStr ''secret'')])]\<rparr>,
     cd_error = Some ''secret'', cd_startedAt = None, cd_endedAt = None,
     cd_raw = Some [Inline_raw ''x'' None (JStr ''secret'')], cd_rest = []\<rparr>"

theorem normalizeAceCall_private_witness:
  "cd_raw (normalizeAceCall example_call None) = Some private_raw \<and>
    cd_title (normalizeAceCall example_call None) = Some ''browser_act'' \<and>
    cd_error (normalizeAceCall example_call None) \<in> {None, Some [], Some ''Ace input failed''} \<and>
    cd_detail (normalizeAceCall example_call None) =
      Some (mcp_detail ''browser_act'' (redactAceArguments ''browser_act'' (JObj [(''text'', JStr ''secret'')])))"
  by (rule normalizeAceCall_private) code_simp+

end
