(* ===== verification/Core_Items.thy ===== *)
theory Core_Items
  imports Core_Frame Ace_Tools
begin

text \<open>
  Transcript items (src/packages/core/src/item-input.ts, items.ts, reconciled-item.ts and
  output-snapshot.ts): the canonical item a draft and the stored item merge into, upserts, streamed
  deltas and snapshot reconciliation. A draft is a record of optional fields, so the object spreads
  of the source are, field by field, the draft's value or else the stored one or else the default;
  the fields the core only carries are merged as dictionaries.
\<close>

subsection \<open>The merged item (item-input.ts)\<close>

fun kind_string :: "tool_kind \<Rightarrow> string" where
  "kind_string K_shell = ''shell''"
| "kind_string K_file_read = ''file.read''"
| "kind_string K_file_edit = ''file.edit''"
| "kind_string K_file_write = ''file.write''"
| "kind_string K_file_delete = ''file.delete''"
| "kind_string K_file_move = ''file.move''"
| "kind_string K_search = ''search''"
| "kind_string K_web_search = ''web.search''"
| "kind_string K_web_fetch = ''web.fetch''"
| "kind_string K_mcp = ''mcp''"
| "kind_string K_agent_spawn = ''agent.spawn''"
| "kind_string K_agent_message = ''agent.message''"
| "kind_string K_todo = ''todo''"
| "kind_string K_plan = ''plan''"
| "kind_string K_ask_user = ''ask_user''"
| "kind_string K_browser = ''browser''"
| "kind_string K_image = ''image''"
| "kind_string K_notebook = ''notebook''"
| "kind_string K_custom = ''custom''"

record item_identity =
  ii_id :: ident
  ii_agentId :: ident
  ii_createdAt :: timestamp
  ii_runId :: "ident option"

text \<open>A tool detail with native agent keys already replaced by ids.\<close>

record detail_patch =
  dp_kind :: "tool_kind option"
  dp_output :: "string option"
  dp_childAgentId :: "ident option"
  dp_targetAgentId :: "ident option"
  dp_rest :: fields

definition patch_of_draft :: "detail_draft \<Rightarrow> detail_patch" where
  "patch_of_draft d = \<lparr>dp_kind = dd_kind d, dp_output = dd_output d, dp_childAgentId = None,
     dp_targetAgentId = None, dp_rest = dd_rest d\<rparr>"

definition no_patch :: detail_patch where
  "no_patch = \<lparr>dp_kind = None, dp_output = None, dp_childAgentId = None, dp_targetAgentId = None, dp_rest = []\<rparr>"

definition no_call :: call_draft where
  "no_call = \<lparr>cd_kind = None, cd_title = None, cd_status = None, cd_detail = None, cd_error = None,
     cd_startedAt = None, cd_endedAt = None, cd_raw = None, cd_rest = []\<rparr>"

definition no_detail :: "tool_kind \<Rightarrow> tool_detail" where
  "no_detail k = \<lparr>det_kind = k, det_output = None, det_childAgentId = None, det_targetAgentId = None, det_rest = []\<rparr>"

definition tool_of :: "item option \<Rightarrow> tool_call option" where
  "tool_of i = Option.bind i (\<lambda>i. case item_body i of Tool_call c \<Rightarrow> Some c | _ \<Rightarrow> None)"

fun same_type :: "item_body \<Rightarrow> draft_body \<Rightarrow> bool" where
  "same_type (Message _ _) (D_message _ _) = True"
| "same_type (Reasoning _ _) (D_reasoning _ _) = True"
| "same_type (Tool_call _) (D_tool_call _) = True"
| "same_type (Notice _ _ _) (D_notice _ _ _) = True"
| "same_type Compaction D_compaction = True"
| "same_type (Other_item s) (D_other t) = (s = t)"
| "same_type _ _ = False"

definition call_of :: "item_draft \<Rightarrow> call_draft option" where
  "call_of patch = (case dr_body patch of D_tool_call c \<Rightarrow> c | _ \<Rightarrow> None)"

definition call_detail_kind :: "tool_call option \<Rightarrow> call_draft option \<Rightarrow> tool_kind option" where
  "call_detail_kind prior call =
     orelse (Option.bind (Option.bind call cd_detail) dd_kind)
       (orelse (Option.bind call cd_kind) (map_option (\<lambda>c. det_kind (call_detail c)) prior))"

definition itemDetailKind :: "item option \<Rightarrow> item_draft \<Rightarrow> tool_kind option" where
  "itemDetailKind previous patch = (case dr_body patch of
       D_tool_call c \<Rightarrow> call_detail_kind (tool_of previous) c | _ \<Rightarrow> None)"

text \<open>\<open>mergedDetail\<close>: the stored detail of the same kind, or an empty one, under the patch. A
  legacy output string of a shell becomes a summary; \<open>outputTruncated\<close> is dropped.\<close>

definition drop_boolean :: "string \<Rightarrow> fields \<Rightarrow> fields" where
  "drop_boolean k fs = (case get fs k of Some (JBool _) \<Rightarrow> del fs k | _ \<Rightarrow> fs)"

definition mergedDetail :: "ident \<Rightarrow> tool_detail \<Rightarrow> detail_patch \<Rightarrow> tool_detail" where
  "mergedDetail itemId start changes =
     (let kind = given (dp_kind changes) (det_kind start);
          shell = (kind = K_shell);
          merged = spread (det_rest start) (dp_rest changes);
          rest = (if shell then drop_boolean ''outputTruncated'' merged else merged)
      in \<lparr>det_kind = kind,
          det_output = (case dp_output changes of
              Some text \<Rightarrow> if shell then Some (summarizeOutput itemId text None) else det_output start
            | None \<Rightarrow> det_output start),
          det_childAgentId = orelse (dp_childAgentId changes) (det_childAgentId start),
          det_targetAgentId = orelse (dp_targetAgentId changes) (det_targetAgentId start),
          det_rest = (case dp_output changes of
              Some text \<Rightarrow> if shell then rest else put rest ''output'' (JStr text)
            | None \<Rightarrow> rest)\<rparr>)"

definition merged_call ::
    "ident \<Rightarrow> ident \<Rightarrow> timestamp \<Rightarrow> tool_call option \<Rightarrow> call_draft option \<Rightarrow> detail_patch option \<Rightarrow> tool_call" where
  "merged_call itemId agentId now0 prior call detailPatch =
     (let normalized = normalizeAceCall (case call of None \<Rightarrow> no_call | Some c \<Rightarrow> c) prior;
          detail = cd_detail normalized;
          patch = (if Option.bind detail dd_kind = Some K_mcp then map_option patch_of_draft detail else detailPatch);
          kind = given (orelse (cd_kind normalized) (call_detail_kind prior (Some normalized))) K_custom;
          wanted = given (Option.bind detail dd_kind) kind;
          start = (case prior of
              Some c \<Rightarrow> if det_kind (call_detail c) = wanted then call_detail c else no_detail kind
            | None \<Rightarrow> no_detail kind)
      in \<lparr>call_id = itemId, call_agentId = agentId, call_kind = kind,
          call_title = given (orelse (cd_title normalized) (map_option call_title prior)) (kind_string kind),
          call_status = given (orelse (cd_status normalized) (map_option call_status prior)) T_pending,
          call_detail = mergedDetail itemId start (given patch no_patch),
          call_backgroundTaskId = Option.bind prior call_backgroundTaskId,
          call_error = orelse (cd_error normalized) (Option.bind prior call_error),
          call_startedAt = given (orelse (cd_startedAt normalized) (map_option call_startedAt prior)) now0,
          call_endedAt = orelse (cd_endedAt normalized) (Option.bind prior call_endedAt),
          call_raw = given (orelse (cd_raw normalized) (map_option call_raw prior)) [],
          call_rest = spread (case prior of None \<Rightarrow> [] | Some c \<Rightarrow> call_rest c) (cd_rest normalized)\<rparr>)"

definition merged_body ::
    "item_identity \<Rightarrow> timestamp \<Rightarrow> item option \<Rightarrow> draft_body \<Rightarrow> detail_patch option \<Rightarrow> item_body" where
  "merged_body base now0 previous patch detailPatch = (case patch of
       D_tool_call call \<Rightarrow>
         Tool_call (merged_call (ii_id base) (ii_agentId base) now0 (tool_of previous) call detailPatch)
     | D_message role parts \<Rightarrow>
         (case map_option item_body previous of
            Some (Message role0 parts0) \<Rightarrow> Message (given role role0) (given parts parts0)
          | _ \<Rightarrow> Message (given role Assistant_role) (given parts []))
     | D_reasoning text source \<Rightarrow>
         (case map_option item_body previous of
            Some (Reasoning text0 source0) \<Rightarrow> Reasoning (given text text0) (orelse source source0)
          | _ \<Rightarrow> Reasoning (given text []) source)
     | D_notice level text source \<Rightarrow>
         (case map_option item_body previous of
            Some (Notice level0 text0 source0) \<Rightarrow>
              Notice (given level level0) (given text text0) (orelse source source0)
          | _ \<Rightarrow> Notice (given level Info) (given text []) source)
     | D_compaction \<Rightarrow> Compaction
     | D_other t \<Rightarrow> Other_item t)"

definition itemInput ::
    "item option \<Rightarrow> item_identity \<Rightarrow> item_draft \<Rightarrow> timestamp \<Rightarrow> detail_patch option \<Rightarrow> item" where
  "itemInput previous base patch now0 detailPatch =
     (let kept = (case previous of
            Some i \<Rightarrow> if same_type (item_body i) (dr_body patch) then Some i else None | None \<Rightarrow> None)
      in \<lparr>item_id = ii_id base, item_agentId = ii_agentId base, item_runId = ii_runId base,
          item_createdAt = ii_createdAt base,
          item_complete = given (orelse (dr_complete patch) (map_option item_complete kept)) False,
          item_body = merged_body base now0 previous (dr_body patch) detailPatch,
          item_raw = given (orelse (dr_raw patch) (map_option item_raw kept)) [],
          item_rest = spread (case kept of None \<Rightarrow> [] | Some i \<Rightarrow> item_rest i) (dr_rest patch)\<rparr>)"

text \<open>\<open>Item.parse\<close>: the schema keeps the typed fields and decides over the carried ones.\<close>

definition with_rest :: "fields \<times> fields \<times> fields \<Rightarrow> item \<Rightarrow> item" where
  "with_rest rs i = (case rs of (item_fields, call_fields, detail_fields) \<Rightarrow>
     i\<lparr>item_rest := item_fields,
       item_body := (case item_body i of
           Tool_call c \<Rightarrow> Tool_call (c\<lparr>call_rest := call_fields,
             call_detail := (call_detail c)\<lparr>det_rest := detail_fields\<rparr>\<rparr>)
         | b \<Rightarrow> b)\<rparr>)"

definition parseItem :: "apply_context \<Rightarrow> item \<Rightarrow> item option" where
  "parseItem ctx i = map_option (\<lambda>rs. with_rest rs i) (item_schema ctx i)"

subsection \<open>Upserts and deltas (items.ts)\<close>

definition canonicalDetail ::
    "apply_context \<Rightarrow> key \<Rightarrow> detail_draft \<Rightarrow> world \<Rightarrow> detail_patch \<times> world" where
  "canonicalDetail ctx k draft w =
     (let detail = patch_of_draft draft in
      if dd_kind draft = Some K_agent_spawn then
        (case dd_childAgent draft of
           None \<Rightarrow> (detail, w)
         | Some child \<Rightarrow>
             let w1 = ensureAgent ctx child w;
                 w2 = put_link k ((link_of w1 k)\<lparr>lk_childAgent := Some child\<rparr>) w1
             in (detail\<lparr>dp_childAgentId := map_option a_id (agent_of w1 child)\<rparr>, w2))
      else if dd_kind draft = Some K_agent_message then
        (case dd_targetAgent draft of
           None \<Rightarrow> (detail, w)
         | Some target \<Rightarrow>
             let w1 = ensureAgent ctx target w;
                 w2 = put_link k ((link_of w1 k)\<lparr>lk_targetAgent := Some target\<rparr>) w1
             in (detail\<lparr>dp_targetAgentId := map_option a_id (agent_of w1 target)\<rparr>, w2))
      else (detail, w))"

definition appendDelta :: "key \<Rightarrow> delta_field \<Rightarrow> string \<Rightarrow> world \<Rightarrow> world option" where
  "appendDelta k field text w = do {
     item \<leftarrow> get (st_items w) k;
     item' \<leftarrow> applyDelta item field text;
     Some (fold (\<lambda>piece. emit (Item_delta (item_id item') (item_agentId item') field piece))
       (if field = Output_field then outputDeltas text else [text]) (put_item k item' w))
   }"

definition shell_output :: "item option \<Rightarrow> output_summary option" where
  "shell_output previous = Option.bind (tool_of previous)
     (\<lambda>c. if det_kind (call_detail c) = K_shell then det_output (call_detail c) else None)"

text \<open>The item stored by an upsert: a legacy output string does not replace the summary, its new
  suffix is appended as a delta.\<close>

definition keep_output :: "output_summary option \<Rightarrow> item \<Rightarrow> item" where
  "keep_output out i = (case item_body i of
       Tool_call c \<Rightarrow> if det_kind (call_detail c) = K_shell then set_detail (\<lambda>d. d\<lparr>det_output := out\<rparr>) i else i
     | _ \<Rightarrow> i)"

definition store_item :: "key \<Rightarrow> item \<Rightarrow> bool \<Rightarrow> world \<Rightarrow> world" where
  "store_item k item known w =
     emit (if known then Item_updated item else Item_created item) (refreshItemIndex k (put_item k item w))"

text \<open>The link an \<open>agent.spawn\<close> call makes between its agent and the child it names.\<close>

definition link_spawn :: "apply_context \<Rightarrow> key \<Rightarrow> key \<Rightarrow> bool \<Rightarrow> bool \<Rightarrow> world \<Rightarrow> world option" where
  "link_spawn ctx agentKey k known explicitSpawn w =
     (case tool_of (get (st_items w) k) of
        None \<Rightarrow> Some w
      | Some c \<Rightarrow>
          if det_kind (call_detail c) \<noteq> K_agent_spawn then Some w
          else (case lk_childAgent (link_of w k) of
              None \<Rightarrow> Some w
            | Some child \<Rightarrow>
                if \<not> known \<or> explicitSpawn \<or> parent_of w child = Some agentKey
                then linkAgent ctx \<lparr>lnk_agent = child, lnk_parent = Some agentKey, lnk_spawnedBy = Some k,
                       lnk_background = None, lnk_name = None, lnk_model = None\<rparr> w
                else Some w))"

text \<open>The identity of the upserted item: the stored one, or a new one in the agent's active run.\<close>

definition item_base :: "apply_context \<Rightarrow> agent_record \<Rightarrow> item option \<Rightarrow> world \<Rightarrow> item_identity \<times> world" where
  "item_base ctx r previous w = (case previous of
       Some p \<Rightarrow> (\<lparr>ii_id = item_id p, ii_agentId = a_id (ar_agent r), ii_createdAt = item_createdAt p,
                   ii_runId = item_runId p\<rparr>, w)
     | None \<Rightarrow> (case next_id ctx Id_item w of (itemId, w') \<Rightarrow>
         (\<lparr>ii_id = itemId, ii_agentId = a_id (ar_agent r), ii_createdAt = now ctx,
           ii_runId = ar_activeRun r\<rparr>, w')))"

definition patch_detail :: "apply_context \<Rightarrow> key \<Rightarrow> detail_draft option \<Rightarrow> world \<Rightarrow> detail_patch option \<times> world" where
  "patch_detail ctx k detail w = (case detail of None \<Rightarrow> (None, w)
     | Some d \<Rightarrow> (case canonicalDetail ctx k d w of (p, w') \<Rightarrow> (Some p, w')))"

definition legacy_output :: "item option \<Rightarrow> item_draft \<Rightarrow> string option" where
  "legacy_output previous draft =
     (if itemDetailKind previous draft = Some K_shell
      then Option.bind (Option.bind (call_of draft) cd_detail) dd_output else None)"

definition append_legacy :: "key \<Rightarrow> item option \<Rightarrow> item_draft \<Rightarrow> world \<Rightarrow> world option" where
  "append_legacy k previous draft w = (case legacy_output previous draft of None \<Rightarrow> Some w
     | Some text \<Rightarrow> appendDelta k Output_field
         (decode (drop (case shell_output previous of None \<Rightarrow> 0 | Some out \<Rightarrow> out_bytes out) text)) w)"

definition explicit_spawn :: "item_draft \<Rightarrow> bool" where
  "explicit_spawn draft \<longleftrightarrow> (case Option.bind (call_of draft) cd_detail of None \<Rightarrow> False
     | Some d \<Rightarrow> dd_kind d = Some K_agent_spawn \<and> dd_childAgent d \<noteq> None)"

definition upsertItem :: "apply_context \<Rightarrow> key \<Rightarrow> key \<Rightarrow> item_draft \<Rightarrow> world \<Rightarrow> world option" where
  "upsertItem ctx agentKey k draft w0 = do {
     let w1 = ensureAgent ctx agentKey w0;
     r \<leftarrow> get (st_agents w1) agentKey;
     let previous = get (st_items w1) k;
     if (case previous of None \<Rightarrow> False | Some p \<Rightarrow> item_agentId p \<noteq> a_id (ar_agent r)) then None
     else do {
       let (base, w2) = item_base ctx r previous w1;
       let (patch, w3) = patch_detail ctx k (Option.bind (call_of draft) cd_detail) w2;
       parsed \<leftarrow> parseItem ctx (itemInput previous base draft (now ctx) patch);
       let item = (if legacy_output previous draft = None then parsed
                   else keep_output (shell_output previous) parsed);
       w5 \<leftarrow> append_legacy k previous draft (store_item k item (previous \<noteq> None) w3);
       link_spawn ctx agentKey k (previous \<noteq> None) (explicit_spawn draft) w5
     }
   }"

definition delta_draft :: "delta_field \<Rightarrow> item_draft" where
  "delta_draft field = \<lparr>dr_complete = None, dr_body = (case field of
       Reasoning_field \<Rightarrow> D_reasoning (Some []) None
     | Output_field \<Rightarrow> D_tool_call (Some (no_call\<lparr>cd_kind := Some K_shell, cd_title := Some ''Output'',
         cd_status := Some T_running, cd_detail := Some \<lparr>dd_kind = Some K_shell, dd_output = None,
           dd_childAgent = None, dd_targetAgent = None, dd_rest = [(''command'', JStr [])]\<rparr>\<rparr>))
     | Text_field \<Rightarrow> D_message (Some Assistant_role) (Some [])), dr_raw = None, dr_rest = []\<rparr>"

definition item_activity :: "item \<Rightarrow> agent_activity option" where
  "item_activity i = (case item_body i of
       Reasoning _ _ \<Rightarrow> Some Thinking
     | Tool_call _ \<Rightarrow> Some Tool
     | Message Assistant_role _ \<Rightarrow> Some Responding
     | _ \<Rightarrow> None)"

fun is_unresponsive :: "agent_status \<Rightarrow> bool" where
  "is_unresponsive (Unresponsive _) = True"
| "is_unresponsive _ = False"

definition activity_changes :: "agent_record \<Rightarrow> item \<Rightarrow> bool" where
  "activity_changes r item \<longleftrightarrow> ar_activeRun r \<noteq> None \<and> item_runId item = ar_activeRun r \<and>
     item_activity item \<noteq> None \<and> item_activity item \<noteq> Some (ar_activity r)"

definition note_activity :: "key \<Rightarrow> agent_record \<Rightarrow> item \<Rightarrow> world \<Rightarrow> world" where
  "note_activity k r item w =
     (if activity_changes r item
      then upd_agent k (\<lambda>r. r\<lparr>ar_activity := given (item_activity item) (ar_activity r), ar_detail := None\<rparr>) w
      else w)"

definition appendItem ::
    "apply_context \<Rightarrow> key \<Rightarrow> key \<Rightarrow> delta_field \<Rightarrow> string \<Rightarrow> world \<Rightarrow> (bool \<times> world) option" where
  "appendItem ctx agentKey k field text w0 = do {
     let w1 = ensureAgent ctx agentKey w0;
     let created = (get (st_items w1) k = None);
     w2 \<leftarrow> (if created then upsertItem ctx agentKey k (delta_draft field) w1 else Some w1);
     item \<leftarrow> get (st_items w2) k;
     r \<leftarrow> get (st_agents w2) agentKey;
     if item_agentId item \<noteq> a_id (ar_agent r) then None
     else do {
       w3 \<leftarrow> appendDelta k field text w2;
       Some (created \<or> activity_changes r item \<or> is_unresponsive (a_status (ar_agent r)),
             note_activity agentKey r item w3)
     }
   }"

subsection \<open>Snapshots (reconciled-item.ts, output-snapshot.ts)\<close>

text \<open>\<open>subarray(size - tailSize, size)\<close> counts a negative start from the end.\<close>

definition extendsOutput :: "output_summary option \<Rightarrow> string \<Rightarrow> bool" where
  "extendsOutput prior aggregate =
     (let sz = (case prior of None \<Rightarrow> 0 | Some p \<Rightarrow> out_bytes p);
          tail = (case prior of None \<Rightarrow> [] | Some p \<Rightarrow> out_tail p);
          start = (if length tail \<le> sz then sz - length tail else length aggregate - (length tail - sz))
      in length aggregate \<ge> sz \<and> decode (take (sz - start) (drop start aggregate)) = tail)"

definition last_raw :: "raw_payload list \<Rightarrow> raw_payload list" where
  "last_raw rs = (if rs = [] then [] else [last rs])"

definition reconciled_call :: "tool_call \<Rightarrow> call_draft \<Rightarrow> call_draft" where
  "reconciled_call prev call0 =
     (let call = (case (call_raw prev, cd_raw call0) of
            (first # _, Some (r # rs)) \<Rightarrow> call0\<lparr>cd_raw := Some (first # last_raw (r # rs))\<rparr>
          | _ \<Rightarrow> call0)
      in case cd_detail call of
           Some d \<Rightarrow>
             (case dd_output d of
                Some text \<Rightarrow>
                  if dd_kind d = Some K_shell \<and> det_kind (call_detail prev) = K_shell \<and>
                     \<not> extendsOutput (det_output (call_detail prev)) text
                  then call\<lparr>cd_detail := Some (d\<lparr>dd_output := None\<rparr>)\<rparr> else call
              | None \<Rightarrow> call)
         | None \<Rightarrow> call)"

definition reconcileItem :: "apply_context \<Rightarrow> key \<Rightarrow> key \<Rightarrow> item_draft \<Rightarrow> world \<Rightarrow> world option" where
  "reconcileItem ctx agentKey k draft w =
     (let previous = get (st_items w) k in
      if (case previous of None \<Rightarrow> False | Some p \<Rightarrow> item_complete p) \<and> dr_complete draft = Some False then Some w
      else case (dr_body draft, tool_of previous) of
        (D_tool_call call, Some prev) \<Rightarrow>
          upsertItem ctx agentKey k
            (draft\<lparr>dr_body := D_tool_call (Some (reconciled_call prev (given call no_call)))\<rparr>) w
      | _ \<Rightarrow> upsertItem ctx agentKey k draft w)"

end
