(* ===== verification/Core_Items_Inv.thy ===== *)
theory Core_Items_Inv
  imports Core_Items
begin

text \<open>
  Invariants of the item operations: the agent tree and the live indexes stay consistent, runs,
  interactions and tasks are untouched, and an item keeps its identity, owner, run and creation time
  through every later upsert and delta.
\<close>

subsection \<open>What item operations leave alone\<close>

definition item_step :: "world \<Rightarrow> world \<Rightarrow> bool" where
  "item_step w w' \<longleftrightarrow>
     st_runs w' = st_runs w \<and> st_interactions w' = st_interactions w \<and> st_tasks w' = st_tasks w \<and>
     st_uncertainTasks w' = st_uncertainTasks w \<and> pending_ints w' = pending_ints w \<and>
     running_tasks w' = running_tasks w \<and> w_seq w \<le> w_seq w' \<and> grows (run_view w) (run_view w')"

lemma item_step_refl [simp]: "item_step w w"
  by (simp add: item_step_def)

lemma item_step_trans: "item_step w w' \<Longrightarrow> item_step w' w'' \<Longrightarrow> item_step w w''"
  by (auto simp: item_step_def intro: grows_trans)

lemma tree_step_item: "tree_step w w' \<Longrightarrow> item_step w w'"
  by (simp add: tree_step_def item_step_def)

lemma refreshItemIndex_frame [simp]:
  "st_agents (refreshItemIndex k s) = st_agents s" "st_items (refreshItemIndex k s) = st_items s"
  "st_runs (refreshItemIndex k s) = st_runs s" "st_interactions (refreshItemIndex k s) = st_interactions s"
  "st_tasks (refreshItemIndex k s) = st_tasks s" "st_uncertainTasks (refreshItemIndex k s) = st_uncertainTasks s"
  "pending_ints (refreshItemIndex k s) = pending_ints s" "running_tasks (refreshItemIndex k s) = running_tasks s"
  "agentKeysById (st_indexes (refreshItemIndex k s)) = agentKeysById (st_indexes s)"
  "childrenByParent (st_indexes (refreshItemIndex k s)) = childrenByParent (st_indexes s)"
  "st_rootKey (refreshItemIndex k s) = st_rootKey s" "st_itemLinks (refreshItemIndex k s) = st_itemLinks s"
  by (simp_all add: refreshItemIndex_def registerItemLink_def Let_def)

lemma refreshItemIndex_world [simp]:
  "w_seq (refreshItemIndex k w) = w_seq w" "w_events (refreshItemIndex k w) = w_events w"
  by (simp_all add: refreshItemIndex_def registerItemLink_def Let_def upd_indexes_def)

lemma put_item_frame [simp]:
  "st_agents (put_item k i s) = st_agents s" "st_items (put_item k i s) = put (st_items s) k i"
  "st_runs (put_item k i s) = st_runs s" "st_interactions (put_item k i s) = st_interactions s"
  "st_tasks (put_item k i s) = st_tasks s" "st_uncertainTasks (put_item k i s) = st_uncertainTasks s"
  "st_indexes (put_item k i s) = st_indexes s" "st_rootKey (put_item k i s) = st_rootKey s"
  "st_itemLinks (put_item k i s) = st_itemLinks s" "w_seq (put_item k i w) = w_seq w"
  by (simp_all add: put_item_def)

lemma run_view_cong: "st_agents s' = st_agents s \<Longrightarrow> run_view s' = run_view s"
  by (simp add: run_view_def fun_eq_iff)

lemma item_step_put_item: "item_step w (put_item k i w)"
  using run_view_cong [of "put_item k i w" w] by (simp add: item_step_def)

lemma item_step_emit: "item_step w (emit e w)"
  by (rule tree_step_item [OF tree_step_emit])

lemma item_step_store: "item_step w (store_item k i known w)"
  using run_view_cong [of "store_item k i known w" w] by (simp add: store_item_def item_step_def)

lemma item_step_next_id: "item_step w (snd (next_id ctx kd w))"
  using run_view_cong [of "snd (next_id ctx kd w)" w] by (simp add: next_id_def item_step_def)

subsection \<open>The live indexes\<close>

lemma work_ok_put_item:
  assumes "work_ok s" "get (st_items s) k = Some i"
    and "isLiveTool i' = isLiveTool i" "isOpenText i' = isOpenText i"
  shows "work_ok (put_item k i' s)"
proof -
  have "tool_live (put_item k i' s) = tool_live s" "text_open (put_item k i' s) = text_open s"
    "interaction_live (put_item k i' s) = interaction_live s" "task_live (put_item k i' s) = task_live s"
    using assms(2-4) by (auto simp: live_defs fun_eq_iff split: option.splits)
  with assms(1) show ?thesis
    by (auto simp: work_ok_def intro: tools.consistent_frame texts.consistent_frame
        ints.consistent_frame bgs.consistent_frame)
qed

lemma work_ok_emit: "work_ok w \<Longrightarrow> work_ok (emit e w)"
  by (rule work_ok_step [OF tree_step_emit])

lemma work_ok_store:
  assumes "work_ok w"
  shows "work_ok (store_item k i known w)"
proof -
  let ?w = "refreshItemIndex k (put_item k i w)"
  have "tools.consistent ?w" "texts.consistent ?w"
    using assms
    by (auto simp: work_ok_def live_defs intro!: tools.consistent_write [of w] texts.consistent_write [of w])
  moreover have "interaction_live ?w = interaction_live w" "task_live ?w = task_live w"
    by (auto simp: live_defs fun_eq_iff split: option.splits)
  ultimately have "work_ok ?w"
    using assms by (auto simp: work_ok_def intro: ints.consistent_frame bgs.consistent_frame)
  then show ?thesis by (simp add: store_item_def work_ok_emit)
qed

lemma work_ok_next_id: "work_ok w \<Longrightarrow> work_ok (snd (next_id ctx kd w))"
  by (rule work_ok_step) (auto simp: next_id_def iv_def run_view_def fun_eq_iff intro!: tree_stepI)

subsection \<open>Deltas keep the item's identity and liveness\<close>

definition item_core :: "item \<Rightarrow> ident \<times> ident \<times> ident option \<times> timestamp" where
  "item_core i = (item_id i, item_agentId i, item_runId i, item_createdAt i)"

lemma applyDelta_keeps:
  assumes "applyDelta i f t = Some i'"
  shows "item_core i' = item_core i" "isLiveTool i' = isLiveTool i" "isOpenText i' = isOpenText i"
    "item_complete i' = item_complete i"
  using assms
  by (auto simp: applyDelta_def item_core_def isLiveTool.simps isOpenText.simps
      split: if_splits item_body.splits prod.splits)

lemma appendDelta_cases:
  assumes "appendDelta k f t w = Some w'"
  obtains i i' es where "get (st_items w) k = Some i" "applyDelta i f t = Some i'"
    "w' = fold emit es (put_item k i' w)"
proof -
  obtain i i' where i: "get (st_items w) k = Some i" "applyDelta i f t = Some i'"
    and w': "w' = fold (\<lambda>piece. emit (Item_delta (item_id i') (item_agentId i') f piece))
       (if f = Output_field then outputDeltas t else [t]) (put_item k i' w)"
    using assms by (auto simp: appendDelta_def elim!: bind_SomeE)
  have "fold (\<lambda>piece. emit (g piece)) xs v = fold emit (map g xs) v" for g :: "string \<Rightarrow> event" and xs v
    by (induction xs arbitrary: v) auto
  with i w' that show ?thesis by metis
qed

lemma fold_emit_frame [simp]:
  "st_items (fold emit es w) = st_items w" "st_agents (fold emit es w) = st_agents w"
  "st_runs (fold emit es w) = st_runs w" "st_indexes (fold emit es w) = st_indexes w"
  "st_itemLinks (fold emit es w) = st_itemLinks w"
  by (induction es arbitrary: w) auto

lemma tree_step_fold_emit: "tree_step w (fold emit es w)"
  by (rule tree_step_fold) (rule tree_step_emit)

lemma same_tree_fold_emit: "same_tree w (fold emit es w)"
  by (rule same_tree_fold) (rule same_tree_emit)

lemma appendDelta_keeps:
  assumes "appendDelta k f t w = Some w'"
  shows "item_step w w'" "work_ok w \<Longrightarrow> work_ok w'" "same_tree w w'"
    "\<exists>i'. get (st_items w') k = Some i' \<and> map_option item_core (get (st_items w) k) = Some (item_core i')"
    "k' \<noteq> k \<Longrightarrow> get (st_items w') k' = get (st_items w) k'"
    "st_itemLinks w' = st_itemLinks w" "st_agents w' = st_agents w"
proof -
  obtain i i' es where i: "get (st_items w) k = Some i" "applyDelta i f t = Some i'"
    and w': "w' = fold emit es (put_item k i' w)"
    using assms by (rule appendDelta_cases)
  note keeps = applyDelta_keeps [OF i(2)]
  show "item_step w w'" unfolding w'
    using item_step_trans [OF item_step_put_item tree_step_item [OF tree_step_fold_emit]] .
  show "work_ok w'" if "work_ok w"
    unfolding w' by (rule work_ok_step [OF tree_step_fold_emit work_ok_put_item [OF that i(1) keeps(2,3)]])
  show "same_tree w w'" unfolding w' by (rule same_tree_trans [OF same_tree_links(6) same_tree_fold_emit])
  show "\<exists>i'. get (st_items w') k = Some i' \<and> map_option item_core (get (st_items w) k) = Some (item_core i')"
    using i keeps(1) by (simp add: w')
  show "get (st_items w') k' = get (st_items w) k'" if "k' \<noteq> k" using that by (simp add: w')
  show "st_itemLinks w' = st_itemLinks w" "st_agents w' = st_agents w" by (simp_all add: w')
qed

subsection \<open>Upserts\<close>

lemma canonicalDetail_step:
  "tree_step w (snd (canonicalDetail ctx k d w))"
  "st_items (snd (canonicalDetail ctx k d w)) = st_items w"
  "id_source (ids ctx) \<Longrightarrow> tree_inv (ids ctx) w \<Longrightarrow> tree_inv (ids ctx) (snd (canonicalDetail ctx k d w))"
proof -
  have s: "tree_step w (put_link k l (ensureAgent ctx c w))" for c l
    by (rule tree_step_trans [OF tree_step_ensureAgent tree_step_links(5)])
  have i: "st_items (ensureAgent ctx c w) = st_items w" for c
    by (cases "has (st_agents w) c") (simp_all add: ensureAgent_def next_id_def Let_def)
  have t: "id_source (ids ctx) \<Longrightarrow> tree_inv (ids ctx) w \<Longrightarrow> tree_inv (ids ctx) (put_link k l (ensureAgent ctx c w))" for c l
    by (rule tree_inv_same [OF same_tree_links(5) tree_inv_ensureAgent])
  have "snd (canonicalDetail ctx k d w) = w \<or>
      (\<exists>c l. snd (canonicalDetail ctx k d w) = put_link k l (ensureAgent ctx c w))"
    by (auto simp: canonicalDetail_def Let_def split: option.splits)
  then show "tree_step w (snd (canonicalDetail ctx k d w))"
    "st_items (snd (canonicalDetail ctx k d w)) = st_items w"
    "id_source (ids ctx) \<Longrightarrow> tree_inv (ids ctx) w \<Longrightarrow> tree_inv (ids ctx) (snd (canonicalDetail ctx k d w))"
    using s i t by (auto simp: put_link_def)
qed

lemma patch_detail_step:
  "tree_step w (snd (patch_detail ctx k d w))"
  "st_items (snd (patch_detail ctx k d w)) = st_items w"
  "id_source (ids ctx) \<Longrightarrow> tree_inv (ids ctx) w \<Longrightarrow> tree_inv (ids ctx) (snd (patch_detail ctx k d w))"
  using canonicalDetail_step [where ctx = ctx and k = k and w = w]
  by (auto simp: patch_detail_def case_prod_beta split: option.splits)

lemma item_base_step:
  "item_step w (snd (item_base ctx r previous w))"
  "work_ok w \<Longrightarrow> work_ok (snd (item_base ctx r previous w))"
  "same_tree w (snd (item_base ctx r previous w))"
  "st_items (snd (item_base ctx r previous w)) = st_items w"
proof -
  have "snd (item_base ctx r previous w) = w \<or> snd (item_base ctx r previous w) = snd (next_id ctx Id_item w)"
    by (auto simp: item_base_def split: option.splits prod.splits)
  moreover have "same_tree w (snd (next_id ctx Id_item w))" "st_items (snd (next_id ctx Id_item w)) = st_items w"
    by (simp_all add: next_id_def same_tree_def tv_def fun_eq_iff)
  ultimately show "item_step w (snd (item_base ctx r previous w))"
    "work_ok w \<Longrightarrow> work_ok (snd (item_base ctx r previous w))"
    "same_tree w (snd (item_base ctx r previous w))"
    "st_items (snd (item_base ctx r previous w)) = st_items w"
    using item_step_next_id work_ok_next_id by auto
qed

text \<open>The stages of a successful upsert.\<close>

lemma upsertItem_cases:
  assumes "upsertItem ctx agentKey k draft w0 = Some w'"
  obtains r item w3 w5 where
    "get (st_agents (ensureAgent ctx agentKey w0)) agentKey = Some r"
    "w3 = snd (patch_detail ctx k (Option.bind (call_of draft) cd_detail)
            (snd (item_base ctx r (get (st_items (ensureAgent ctx agentKey w0)) k) (ensureAgent ctx agentKey w0))))"
    "case get (st_items (ensureAgent ctx agentKey w0)) k of
       Some p \<Rightarrow> item_core item = item_core p
     | None \<Rightarrow> item_id item = ids ctx Id_item (w_seq (ensureAgent ctx agentKey w0)) \<and>
         item_agentId item = a_id (ar_agent r) \<and> item_createdAt item = now ctx \<and> item_runId item = ar_activeRun r"
    "append_legacy k (get (st_items (ensureAgent ctx agentKey w0)) k) draft
       (store_item k item (get (st_items (ensureAgent ctx agentKey w0)) k \<noteq> None) w3) = Some w5"
    "link_spawn ctx agentKey k (get (st_items (ensureAgent ctx agentKey w0)) k \<noteq> None) (explicit_spawn draft) w5 = Some w'"
proof -
  let ?w1 = "ensureAgent ctx agentKey w0"
  let ?prev = "get (st_items ?w1) k"
  obtain r where r: "get (st_agents ?w1) agentKey = Some r"
    and own: "\<not> (case ?prev of None \<Rightarrow> False | Some p \<Rightarrow> item_agentId p \<noteq> a_id (ar_agent r))"
    and rest: "(let (base, w2) = item_base ctx r ?prev ?w1;
           (patch, w3) = patch_detail ctx k (Option.bind (call_of draft) cd_detail) w2
       in do {
       parsed \<leftarrow> parseItem ctx (itemInput ?prev base draft (now ctx) patch);
       let item = (if legacy_output ?prev draft = None then parsed
                   else keep_output (shell_output ?prev) parsed);
       w5 \<leftarrow> append_legacy k ?prev draft (store_item k item (?prev \<noteq> None) w3);
       link_spawn ctx agentKey k (?prev \<noteq> None) (explicit_spawn draft) w5 }) = Some w'"
    using assms unfolding upsertItem_def Let_def [of "ensureAgent ctx agentKey w0"]
    by (auto simp: Let_def [of "get _ _"] elim!: bind_SomeE split: if_splits)
  obtain base w2 where b: "item_base ctx r ?prev ?w1 = (base, w2)" by (cases "item_base ctx r ?prev ?w1")
  obtain patch w3 where p: "patch_detail ctx k (Option.bind (call_of draft) cd_detail) w2 = (patch, w3)"
    by (cases "patch_detail ctx k (Option.bind (call_of draft) cd_detail) w2")
  obtain parsed item w5 where parsed: "parseItem ctx (itemInput ?prev base draft (now ctx) patch) = Some parsed"
    and item: "item = (if legacy_output ?prev draft = None then parsed else keep_output (shell_output ?prev) parsed)"
    and w5: "append_legacy k ?prev draft (store_item k item (?prev \<noteq> None) w3) = Some w5"
    and ls: "link_spawn ctx agentKey k (?prev \<noteq> None) (explicit_spawn draft) w5 = Some w'"
    using rest unfolding b p Let_def prod.case by (auto elim!: bind_SomeE)
  have "item_core (with_rest rs i) = item_core i" for rs i
    by (auto simp: with_rest_def item_core_def split: prod.splits)
  moreover have "item_core (keep_output out i) = item_core i" for out i
    by (auto simp: keep_output_def set_detail_def item_core_def split: item_body.splits)
  ultimately have "item_core item = (ii_id base, ii_agentId base, ii_runId base, ii_createdAt base)"
    using parsed item by (auto simp: parseItem_def itemInput_def Let_def item_core_def)
  then have "case ?prev of Some p \<Rightarrow> item_core item = item_core p
     | None \<Rightarrow> item_id item = ids ctx Id_item (w_seq ?w1) \<and>
         item_agentId item = a_id (ar_agent r) \<and> item_createdAt item = now ctx \<and> item_runId item = ar_activeRun r"
    using b own by (auto simp: item_base_def item_core_def next_id_def split: option.splits prod.splits)
  then show thesis using r b p w5 ls by (intro that [of r w3 item w5]) simp_all
qed

lemma items_ensureAgent [simp]: "st_items (ensureAgent ctx k w) = st_items w"
  by (cases "has (st_agents w) k") (simp_all add: ensureAgent_def next_id_def Let_def)

lemma append_legacy_keeps:
  assumes "append_legacy k previous draft w = Some w'"
  shows "item_step w w'" "work_ok w \<Longrightarrow> work_ok w'" "same_tree w w'"
    "get (st_items w) k = Some i \<Longrightarrow> \<exists>i'. get (st_items w') k = Some i' \<and> item_core i' = item_core i"
    "k' \<noteq> k \<Longrightarrow> get (st_items w') k' = get (st_items w) k'"
proof -
  have "w = w' \<or> (\<exists>t. appendDelta k Output_field t w = Some w')"
  proof (cases "legacy_output previous draft")
    case None
    with assms show ?thesis by (simp add: append_legacy_def)
  next
    case (Some t)
    with assms show ?thesis unfolding append_legacy_def by (simp only: option.case) blast
  qed
  then have "item_step w w' \<and> (work_ok w \<longrightarrow> work_ok w') \<and> same_tree w w' \<and>
    (\<forall>i. get (st_items w) k = Some i \<longrightarrow> (\<exists>i'. get (st_items w') k = Some i' \<and> item_core i' = item_core i)) \<and>
    (\<forall>k'. k' \<noteq> k \<longrightarrow> get (st_items w') k' = get (st_items w) k')"
  proof (elim disjE exE)
    assume "w = w'"
    then show ?thesis by simp
  next
    fix t assume "appendDelta k Output_field t w = Some w'"
    note keeps = appendDelta_keeps [OF this]
    show ?thesis
    proof (intro conjI allI impI)
      fix i assume "get (st_items w) k = Some i"
      with keeps(4) show "\<exists>i'. get (st_items w') k = Some i' \<and> item_core i' = item_core i" by auto
    qed (use keeps in blast)+
  qed
  then show "item_step w w'" "work_ok w \<Longrightarrow> work_ok w'" "same_tree w w'"
    "get (st_items w) k = Some i \<Longrightarrow> \<exists>i'. get (st_items w') k = Some i' \<and> item_core i' = item_core i"
    "k' \<noteq> k \<Longrightarrow> get (st_items w') k' = get (st_items w) k'"
    by blast+
qed

lemma link_spawn_step:
  assumes "link_spawn ctx a k known expl w = Some w'"
  shows "tree_step w w'" "id_source (ids ctx) \<Longrightarrow> tree_inv (ids ctx) w \<Longrightarrow> tree_inv (ids ctx) w'"
proof -
  have "w' = w \<or> (\<exists>f. linkAgent ctx f w = Some w')"
    using assms by (auto simp: link_spawn_def split: option.splits if_splits)
  then show "tree_step w w'" "id_source (ids ctx) \<Longrightarrow> tree_inv (ids ctx) w \<Longrightarrow> tree_inv (ids ctx) w'"
    using tree_step_linkAgent linkAgent_inv by auto
qed

lemma same_tree_store: "same_tree w (store_item k i known w)"
  by (simp add: store_item_def same_tree_def tv_def fun_eq_iff)

lemma get_store [simp]: "get (st_items (store_item k i known w)) k' = (if k' = k then Some i else get (st_items w) k')"
  by (simp add: store_item_def)

lemma erase_core: "item_core (erase i) = item_core i"
  by (auto simp: erase_def set_detail_def item_core_def split: item_body.splits)

lemma iv_core: "map_option item_core (iv s k) = map_option item_core (get (st_items s) k)"
  by (simp add: iv_def option.map_comp comp_def erase_core)

lemma upsertItem_all:
  assumes "upsertItem ctx agentKey k draft w0 = Some w'"
  shows "item_step w0 w' \<and> (work_ok w0 \<longrightarrow> work_ok w') \<and>
    (id_source (ids ctx) \<longrightarrow> tree_inv (ids ctx) w0 \<longrightarrow> tree_inv (ids ctx) w') \<and>
    (\<forall>p. get (st_items w0) k = Some p \<longrightarrow> (\<exists>i. get (st_items w') k = Some i \<and> item_core i = item_core p)) \<and>
    (\<exists>i. get (st_items w') k = Some i) \<and> (\<forall>k'. k' \<noteq> k \<longrightarrow> iv w' k' = iv w0 k')"
  using assms
proof (cases rule: upsertItem_cases)
  case (1 r item w3 w5)
  define w1 where "w1 = ensureAgent ctx agentKey w0"
  define w2 where "w2 = snd (item_base ctx r (get (st_items w1) k) w1)"
  define w4 where "w4 = store_item k item (get (st_items w1) k \<noteq> None) w3"
  have w3: "w3 = snd (patch_detail ctx k (Option.bind (call_of draft) cd_detail) w2)"
    using 1(2) by (simp add: w2_def w1_def)
  have w5: "append_legacy k (get (st_items w1) k) draft w4 = Some w5" using 1(4) by (simp add: w4_def w1_def)
  note al = append_legacy_keeps [OF w5] and ls = link_spawn_step [OF 1(5)]
  have s01: "tree_step w0 w1" unfolding w1_def by (rule tree_step_ensureAgent)
  have s23: "tree_step w2 w3" unfolding w3 by (rule patch_detail_step)
  have step: "item_step w0 w'"
  proof -
    have "item_step w0 w2"
      unfolding w2_def by (rule item_step_trans [OF tree_step_item [OF s01] item_base_step(1)])
    moreover have "item_step w3 w4" unfolding w4_def by (rule item_step_store)
    ultimately show ?thesis
      using al(1) tree_step_item [OF s23] tree_step_item [OF ls(1)] by (blast intro: item_step_trans)
  qed
  have work: "work_ok w'" if "work_ok w0"
  proof -
    have "work_ok w2" unfolding w2_def by (rule item_base_step(2)) (rule work_ok_step [OF s01 that])
    then have "work_ok w4" unfolding w4_def by (intro work_ok_store work_ok_step [OF s23])
    then show ?thesis using al(2) work_ok_step [OF ls(1)] by blast
  qed
  have tree: "tree_inv (ids ctx) w'" if "id_source (ids ctx)" "tree_inv (ids ctx) w0"
  proof -
    have "tree_inv (ids ctx) w1" unfolding w1_def by (rule tree_inv_ensureAgent [OF that])
    then have "tree_inv (ids ctx) w2" unfolding w2_def by (rule tree_inv_same [OF item_base_step(3)])
    then have "tree_inv (ids ctx) w3" unfolding w3 by (rule patch_detail_step(3) [OF that(1)])
    then have "tree_inv (ids ctx) w4" unfolding w4_def by (rule tree_inv_same [OF same_tree_store])
    then show ?thesis using ls(2) that(1) tree_inv_same [OF al(3)] by blast
  qed
  have items3: "st_items w3 = st_items w0"
    unfolding w3 patch_detail_step(2) w2_def item_base_step(4) by (simp add: w1_def)
  have iv': "iv w' = iv w5" using ls(1) by (simp add: tree_step_def)
  obtain i5 where i5: "get (st_items w5) k = Some i5" "item_core i5 = item_core item"
    using al(4) by (auto simp: w4_def)
  have "map_option item_core (get (st_items w') k) = Some (item_core item)"
    using iv_core [of w' k] iv_core [of w5 k] i5 iv' by simp
  then obtain i where i: "get (st_items w') k = Some i" "item_core i = item_core item" by auto
  have core: "item_core item = item_core p" if "get (st_items w0) k = Some p" for p
    using 1(3) that by simp
  have other: "iv w' k' = iv w0 k'" if "k' \<noteq> k" for k'
    using that al(5) [OF that] iv' items3 by (simp add: iv_def w4_def)
  show ?thesis
  proof (intro conjI allI impI)
    fix p assume "get (st_items w0) k = Some p"
    with i core show "\<exists>i. get (st_items w') k = Some i \<and> item_core i = item_core p" by auto
  qed (use step work tree i(1) other in blast)+
qed

lemmas upsertItem_keeps = upsertItem_all [THEN conjunct1]
  upsertItem_all [THEN conjunct2, THEN conjunct1, rule_format]
  upsertItem_all [THEN conjunct2, THEN conjunct2, THEN conjunct1, rule_format]
  upsertItem_all [THEN conjunct2, THEN conjunct2, THEN conjunct2, THEN conjunct1, rule_format]
  upsertItem_all [THEN conjunct2, THEN conjunct2, THEN conjunct2, THEN conjunct2, THEN conjunct1]
  upsertItem_all [THEN conjunct2, THEN conjunct2, THEN conjunct2, THEN conjunct2, THEN conjunct2, rule_format]

subsection \<open>Deltas and snapshots\<close>

text \<open>What every item operation keeps: the frame, the live indexes, the tree and each item's
  identity.\<close>

definition item_op :: "apply_context \<Rightarrow> world \<Rightarrow> world \<Rightarrow> bool" where
  "item_op ctx w w' \<longleftrightarrow> item_step w w' \<and> (work_ok w \<longrightarrow> work_ok w') \<and>
     (id_source (ids ctx) \<longrightarrow> tree_inv (ids ctx) w \<longrightarrow> tree_inv (ids ctx) w') \<and>
     (\<forall>k p. get (st_items w) k = Some p \<longrightarrow> (\<exists>i. get (st_items w') k = Some i \<and> item_core i = item_core p))"

lemma item_op_refl [simp]: "item_op ctx w w"
  by (simp add: item_op_def)

lemma item_op_trans:
  assumes "item_op ctx w w'" "item_op ctx w' w''"
  shows "item_op ctx w w''"
  unfolding item_op_def
proof (intro conjI allI impI)
  show "item_step w w''" using assms item_step_trans by (simp add: item_op_def) blast
  fix k p assume "get (st_items w) k = Some p"
  then obtain i where "get (st_items w') k = Some i" "item_core i = item_core p"
    using assms(1) unfolding item_op_def by blast
  then show "\<exists>i. get (st_items w'') k = Some i \<and> item_core i = item_core p"
    using assms(2) unfolding item_op_def by metis
qed (use assms in \<open>simp_all add: item_op_def\<close>)

lemma iv_keeps:
  assumes "iv w' k = iv w k" "get (st_items w) k = Some p"
  shows "\<exists>i. get (st_items w') k = Some i \<and> item_core i = item_core p"
proof -
  have "map_option item_core (get (st_items w') k) = Some (item_core p)"
    using iv_core [of w' k] iv_core [of w k] assms by simp
  then show ?thesis by auto
qed

lemma item_op_tree:
  assumes "tree_step w w'" "id_source (ids ctx) \<Longrightarrow> tree_inv (ids ctx) w \<Longrightarrow> tree_inv (ids ctx) w'"
  shows "item_op ctx w w'"
  unfolding item_op_def
proof (intro conjI allI impI)
  fix k p assume "get (st_items w) k = Some p"
  moreover have "iv w' k = iv w k" using assms(1) by (simp add: tree_step_def)
  ultimately show "\<exists>i. get (st_items w') k = Some i \<and> item_core i = item_core p" by (rule iv_keeps [rotated])
qed (use assms tree_step_item work_ok_step in blast)+

lemma item_op_upsert:
  assumes "upsertItem ctx agentKey k draft w = Some w'"
  shows "item_op ctx w w'"
  unfolding item_op_def
proof (intro conjI allI impI)
  fix k' p assume p: "get (st_items w) k' = Some p"
  show "\<exists>i. get (st_items w') k' = Some i \<and> item_core i = item_core p"
  proof (cases "k' = k")
    case True
    with upsertItem_keeps(4) [OF assms] p show ?thesis by simp
  next
    case False
    from iv_keeps [OF upsertItem_keeps(6) [OF assms False] p] show ?thesis .
  qed
qed (use upsertItem_keeps(1-3) [OF assms] in blast)+

lemma item_op_ensureAgent: "item_op ctx w (ensureAgent ctx k w)"
  by (rule item_op_tree [OF tree_step_ensureAgent tree_inv_ensureAgent])

lemma item_op_appendDelta:
  assumes "appendDelta k f t w = Some w'"
  shows "item_op ctx w w'"
  unfolding item_op_def
proof (intro conjI allI impI)
  note keeps = appendDelta_keeps [OF assms]
  fix k' p assume p: "get (st_items w) k' = Some p"
  show "\<exists>i. get (st_items w') k' = Some i \<and> item_core i = item_core p"
    using keeps(4) keeps(5) [of k'] p by (cases "k' = k") auto
qed (use appendDelta_keeps(1-3) [OF assms] tree_inv_same in blast)+

lemma item_op_upd_agent:
  assumes "\<And>r. view (f r) = view r" "\<And>r. sight (f r) = sight r"
  shows "item_op ctx w (upd_agent k f w)"
  by (rule item_op_tree [OF tree_step_upd_agent [OF assms(2)] tree_inv_same [OF same_tree_upd_agent [OF assms(1)]]])

lemma appendItem_cases:
  assumes "appendItem ctx agentKey k field t w0 = Some (b, w')"
  obtains w2 item r w3 where
    "(if get (st_items w0) k = None then upsertItem ctx agentKey k (delta_draft field) (ensureAgent ctx agentKey w0)
      else Some (ensureAgent ctx agentKey w0)) = Some w2"
    "get (st_items w2) k = Some item" "get (st_agents w2) agentKey = Some r"
    "item_agentId item = a_id (ar_agent r)" "appendDelta k field t w2 = Some w3"
    "w' = note_activity agentKey r item w3"
    "b = (get (st_items w0) k = None \<or> activity_changes r item \<or> is_unresponsive (a_status (ar_agent r)))"
  using assms unfolding appendItem_def Let_def items_ensureAgent
proof (elim bind_SomeE, goal_cases)
  case (1 w2 item r)
  then show ?case by (cases "item_agentId item = a_id (ar_agent r)") (auto elim!: bind_SomeE)
qed

lemma item_op_note_activity: "item_op ctx w (note_activity k r item w)"
proof -
  have "item_op ctx w (upd_agent k (\<lambda>r. r\<lparr>ar_activity := given (item_activity item) (ar_activity r), ar_detail := None\<rparr>) w)"
    by (rule item_op_upd_agent) (simp_all add: view_def sight_def)
  then show ?thesis by (simp add: note_activity_def)
qed

lemma item_op_appendItem:
  assumes "appendItem ctx agentKey k field t w0 = Some (b, w')"
  shows "item_op ctx w0 w'"
  using assms
proof (cases rule: appendItem_cases)
  case (1 w2 item r w3)
  have "item_op ctx (ensureAgent ctx agentKey w0) w2"
  proof (cases "get (st_items w0) k = None")
    case True
    with 1(1) show ?thesis by (simp add: item_op_upsert)
  next
    case False
    with 1(1) show ?thesis by simp
  qed
  then show ?thesis
    unfolding 1(6)
    by (blast intro: item_op_trans item_op_ensureAgent item_op_appendDelta [OF 1(5)] item_op_note_activity)
qed

lemma item_op_reconcile:
  assumes "reconcileItem ctx agentKey k draft w = Some w'"
  shows "item_op ctx w w'"
proof -
  have "w = w' \<or> (\<exists>d. upsertItem ctx agentKey k d w = Some w')"
    using assms unfolding reconcileItem_def Let_def
    by (auto split: if_splits draft_body.splits option.splits)
  then show ?thesis using item_op_upsert by auto
qed

text \<open>C28: an item keeps its identity. Whatever an adapter upserts, streams or reconciles, an item
  that exists keeps its id, owner, run and creation time, and no other item's identity changes.\<close>

theorem item_identity_stable:
  assumes "upsertItem ctx agentKey k draft w = Some w' \<or> reconcileItem ctx agentKey k draft w = Some w' \<or>
      appendItem ctx agentKey k field added w = Some (b, w')"
    and "get (st_items w) k' = Some i"
  shows "\<exists>i'. get (st_items w') k' = Some i' \<and> item_id i' = item_id i \<and> item_agentId i' = item_agentId i \<and>
    item_runId i' = item_runId i \<and> item_createdAt i' = item_createdAt i"
proof -
  have "item_op ctx w w'"
    using assms(1) item_op_upsert item_op_reconcile item_op_appendItem by blast
  with assms(2) obtain i' where "get (st_items w') k' = Some i'" "item_core i' = item_core i"
    unfolding item_op_def by blast
  then show ?thesis by (auto simp: item_core_def)
qed

definition example_ctx :: "timestamp \<Rightarrow> apply_context" where
  "example_ctx t = \<lparr>now = t, ids = counter_ids, resolving = [],
     item_schema = (\<lambda>i. case item_body i of
         Tool_call c \<Rightarrow> Some (item_rest i, call_rest c, det_rest (call_detail c))
       | _ \<Rightarrow> Some (item_rest i, [], [])),
     request_schema = (\<lambda>r. Some (req_rest r))\<rparr>"

definition example_config :: core_config where
  "example_config = \<lparr>cfg_provider = Claude, cfg_silenceMs = 60000, cfg_liveness = None\<rparr>"

definition world_of :: "thread_state \<Rightarrow> world" where
  "world_of s = thread_state.extend s \<lparr>w_events = [], w_seq = 0\<rparr>"

definition example_world :: world where
  "example_world = world_of (the (createThreadState ''thread'' None example_config))"

definition example_draft :: item_draft where
  "example_draft = \<lparr>dr_complete = None, dr_body = D_message None (Some [Text_part ''hi'' None]), dr_raw = None, dr_rest = []\<rparr>"


lemma example_upsert_twice:
  "Option.bind (upsertItem (example_ctx 5) ''a'' ''i'' example_draft example_world)
     (upsertItem (example_ctx 6) ''a'' ''i'' example_draft) \<noteq> None"
  by code_simp

theorem item_identity_stable_witness:
  "\<exists>w w' i. upsertItem (example_ctx 6) ''a'' ''i'' example_draft w = Some w' \<and> get (st_items w) ''i'' = Some i \<and>
    (\<exists>i'. get (st_items w') ''i'' = Some i' \<and> item_id i' = item_id i \<and> item_agentId i' = item_agentId i \<and>
      item_runId i' = item_runId i \<and> item_createdAt i' = item_createdAt i)"
proof -
  obtain w w' where w: "upsertItem (example_ctx 5) ''a'' ''i'' example_draft example_world = Some w"
    and w': "upsertItem (example_ctx 6) ''a'' ''i'' example_draft w = Some w'"
    using example_upsert_twice by (auto elim!: bind_SomeE)
  obtain i where i: "get (st_items w) ''i'' = Some i" using upsertItem_keeps(5) [OF w] by blast
  have "upsertItem (example_ctx 6) ''a'' ''i'' example_draft w = Some w' \<or>
      reconcileItem (example_ctx 6) ''a'' ''i'' example_draft w = Some w' \<or>
      appendItem (example_ctx 6) ''a'' ''i'' Text_field [] w = Some (True, w')" using w' by blast
  from item_identity_stable [OF this i] w' i show ?thesis by blast
qed

end
