(* ===== verification/Core_Runs.thy ===== *)
theory Core_Runs
  imports Core_Items_Inv
begin

text \<open>
  Turns and what their end closes (src/packages/core/src/runs.ts and
  src/packages/core/src/cleanup.ts): starting and ending a run, cancelling the work a turn left
  open, and the exit of the provider process. A run is active until a boundary ends it; replayed
  boundaries are recognised by their native turn id.
\<close>

subsection \<open>Cleanup (cleanup.ts)\<close>

fun isSettled :: "agent_status \<Rightarrow> bool" where
  "isSettled Idle = True"
| "isSettled Interrupted = True"
| "isSettled (Failed _) = True"
| "isSettled _ = False"

definition cancelled_item :: "timestamp \<Rightarrow> tool_call \<Rightarrow> item \<Rightarrow> item" where
  "cancelled_item t c item = item\<lparr>item_complete := True, item_body := Tool_call (c\<lparr>
     call_status := T_cancelled, call_error := Some ''turn ended without completion'',
     call_endedAt := Some t\<rparr>)\<rparr>"

definition update_item :: "key \<Rightarrow> item \<Rightarrow> world \<Rightarrow> world" where
  "update_item k item w = emit (Item_updated item) (refreshItemIndex k (put_item k item w))"

definition cancelTool :: "key \<Rightarrow> timestamp \<Rightarrow> world \<Rightarrow> world" where
  "cancelTool k t w = (case get (st_items w) k of
       None \<Rightarrow> w
     | Some item \<Rightarrow> (case item_body item of
         Tool_call c \<Rightarrow> update_item k (cancelled_item t c item) w
       | _ \<Rightarrow> w))"

definition closeText :: "key \<Rightarrow> world \<Rightarrow> world" where
  "closeText k w = (case get (st_items w) k of
       None \<Rightarrow> refreshItemIndex k w
     | Some item \<Rightarrow>
         if item_complete item then refreshItemIndex k w
         else update_item k (item\<lparr>item_complete := True\<rparr>) w)"

definition closed_interaction :: "interaction_state \<Rightarrow> timestamp \<Rightarrow> interaction \<Rightarrow> interaction" where
  "closed_interaction s t i = i\<lparr>int_state := s, int_closedAt := Some t\<rparr>"

definition close_pending :: "interaction_state \<Rightarrow> timestamp \<Rightarrow> (interaction \<Rightarrow> bool) \<Rightarrow> key \<Rightarrow> world \<Rightarrow> world" where
  "close_pending s t skip_it k w = (case get (st_interactions w) k of
       None \<Rightarrow> w
     | Some i \<Rightarrow>
         if int_state i \<noteq> Int_pending \<or> skip_it i then w
         else emit (Interaction_closed (int_id i) s t None None None)
                (refreshInteractionIndex k (put_interaction k (closed_interaction s t i) w)))"

definition background_items :: "'a state \<Rightarrow> ident list" where
  "background_items s = List.map_filter (\<lambda>k. Option.bind (get (st_tasks s) k) task_toolCallId) (runningTaskKeys s None)"

definition cancel_foreground :: "ident list \<Rightarrow> ident \<Rightarrow> timestamp \<Rightarrow> key \<Rightarrow> world \<Rightarrow> world" where
  "cancel_foreground bg agentId t k w = (case get (st_items w) k of
       None \<Rightarrow> w
     | Some item \<Rightarrow>
         if item_agentId item \<noteq> agentId \<or> \<not> isLiveTool item \<or> item_id item \<in> set bg then w
         else cancelTool k t w)"

definition cancelOpenWork :: "ident \<Rightarrow> timestamp \<Rightarrow> ident list \<Rightarrow> world \<Rightarrow> world" where
  "cancelOpenWork agentId t resolvingIds w =
     (let bg = background_items w;
          w1 = fold (cancel_foreground bg agentId t) (liveToolKeys w (Some agentId)) w;
          w2 = fold closeText (openTextKeys w1 (Some agentId)) w1
      in fold (close_pending Int_cancelled t
           (\<lambda>i. int_agentId i \<noteq> agentId \<or> \<not> int_blocking i \<or> int_id i \<in> set resolvingIds))
           (pendingInteractionKeys w2 (Some agentId)) w2)"

definition lose_task :: "timestamp \<Rightarrow> key \<Rightarrow> world \<Rightarrow> world" where
  "lose_task t k w = (case get (st_tasks w) k of
       None \<Rightarrow> w
     | Some task \<Rightarrow>
         if task_status task \<noteq> Task_running \<or> task_owner_ace task then w
         else emit (Background_task_updated (task_id task) Task_unknown t)
                (refreshTaskIndex k (put_task k (task\<lparr>task_status := Task_unknown, task_endedAt := Some t\<rparr>) w)))"

definition exit_error :: "string option \<Rightarrow> string \<Rightarrow> agent_error" where
  "exit_error message fallback = \<lparr>err_kind = Err_process_exit, err_message = given message fallback, err_rest = []\<rparr>"

definition next_order :: "key \<Rightarrow> (agent_record \<Rightarrow> agent_record) \<Rightarrow> world \<Rightarrow> world" where
  "next_order k f w = (let n = Suc (st_outcomeOrder w) in
     upd_agent k (\<lambda>r. (f r)\<lparr>ar_lastOutcomeOrder := Some n\<rparr>) (w\<lparr>st_outcomeOrder := n\<rparr>))"

definition end_run_on_exit :: "bool \<Rightarrow> string option \<Rightarrow> timestamp \<Rightarrow> key \<Rightarrow> run \<Rightarrow> world \<Rightarrow> world" where
  "end_run_on_exit deliberate message t k run w =
     (let st = (if deliberate then Run_interrupted else Run_failed);
          w1 = put_run (run_id run) (run\<lparr>run_state := st, run_endedAt := Some t\<rparr>) w;
          w2 = next_order k (\<lambda>r. r\<lparr>ar_lastRun := Some (run_id run),
                 ar_lastError := (if deliberate then ar_lastError r
                   else Some (exit_error message ''provider process exited''))\<rparr>) w1
      in emit (Run_ended (run_id run) st False t None) w2)"

definition exit_agent :: "bool \<Rightarrow> string option \<Rightarrow> timestamp \<Rightarrow> key \<Rightarrow> world \<Rightarrow> world" where
  "exit_agent deliberate message t k w = (case get (st_agents w) k of
       None \<Rightarrow> w
     | Some r0 \<Rightarrow>
         if ar_externalStatus r0 \<noteq> None then w
         else
           let w1 = upd_agent k (\<lambda>r. r\<lparr>ar_disconnectedAt := None, ar_retry := None, ar_wakeUntil := None\<rparr>) w
           in case ar_activeRun r0 of
                None \<Rightarrow>
                  if isSettled (a_status (ar_agent r0)) then w1
                  else next_order k (\<lambda>r. r\<lparr>ar_processSettledStatus := Some (if deliberate then Interrupted
                         else Failed (exit_error message ''Provider process exited''))\<rparr>) w1
              | Some runId \<Rightarrow>
                  let w2 = (case get (st_runs w1) runId of None \<Rightarrow> w1
                        | Some run \<Rightarrow> end_run_on_exit deliberate message t k run w1)
                  in upd_agent k (\<lambda>r. r\<lparr>ar_activeRun := None\<rparr>) w2)"

definition unsettled_keys :: "'a state \<Rightarrow> key list" where
  "unsettled_keys s = map fst (filter (\<lambda>(k, r). ar_externalStatus r = None \<and> \<not> isSettled (a_status (ar_agent r)))
     (oentries (st_agents s)))"

definition exitProcess :: "bool \<Rightarrow> string option \<Rightarrow> apply_context \<Rightarrow> world \<Rightarrow> world" where
  "exitProcess deliberate message ctx w =
     (if st_processExit w \<noteq> None then w
      else
        let w1 = w\<lparr>st_processExit := Some \<lparr>exit_deliberate = deliberate, exit_message = message,
                    exit_unsettled = unsettled_keys w\<rparr>\<rparr>;
            w2 = fold (close_pending Int_expired (now ctx) (\<lambda>_. False)) (pendingInteractionKeys w1 None) w1;
            w3 = fold (lose_task (now ctx)) (runningTaskKeys w2 None) w2;
            w4 = fold (\<lambda>k. cancelTool k (now ctx)) (liveToolKeys w3 None) w3;
            w5 = fold closeText (openTextKeys w4 None) w4
        in fold (exit_agent deliberate message (now ctx)) (okeys (st_agents w5)) w5)"

subsection \<open>Turns (runs.ts)\<close>

definition matchingRun :: "'a state \<Rightarrow> agent_record \<Rightarrow> string \<Rightarrow> run option" where
  "matchingRun s r nativeId = Option.bind (get (ar_nativeRuns r) nativeId) (get (st_runs s))"

definition activeRunOf :: "'a state \<Rightarrow> agent_record \<Rightarrow> run option" where
  "activeRunOf s r = Option.bind (ar_activeRun r) (get (st_runs s))"

definition storeRun :: "key \<Rightarrow> run \<Rightarrow> world \<Rightarrow> world" where
  "storeRun k run w = (let w1 = put_run (run_id run) run w in
     case run_nativeId run of None \<Rightarrow> w1
     | Some nid \<Rightarrow> upd_agent k (\<lambda>r. r\<lparr>ar_nativeRuns := put (ar_nativeRuns r) nid (run_id run)\<rparr>) w1)"

fun outcome_state :: "outcome \<Rightarrow> run_state" where
  "outcome_state Completed = Run_completed"
| "outcome_state Was_interrupted = Run_interrupted"
| "outcome_state Has_failed = Run_failed"

definition new_run :: "apply_context \<Rightarrow> 'a state \<Rightarrow> ident \<Rightarrow> ident \<Rightarrow> run_trigger \<Rightarrow> string option \<Rightarrow> run" where
  "new_run ctx s runId agentId trigger nativeId = \<lparr>run_id = runId, run_threadId = st_threadId s,
     run_agentId = agentId, run_trigger = trigger, run_provider = None, run_permissionMode = None,
     run_state = Run_active, run_endedBy_steer = False, run_startedAt = now ctx, run_endedAt = None,
     run_nativeId = nativeId\<rparr>"

text \<open>The record once its turn has ended: the last steps of \<open>endTurn\<close> before the open work of the
  agent is cancelled.\<close>

definition settle_limit :: "turn_ended \<Rightarrow> agent_record \<Rightarrow> limit option" where
  "settle_limit f r = (case te_error f of
       Some e \<Rightarrow>
         if \<not> te_historical f \<and> err_kind e = Err_quota
         then Some \<lparr>lim_until = Option.bind (ar_limited r) lim_until, lim_message = Some (err_message e)\<rparr>
         else if \<not> te_historical f \<and> te_outcome f = Completed then None else ar_limited r
     | None \<Rightarrow> if \<not> te_historical f \<and> te_outcome f = Completed then None else ar_limited r)"

definition settle_record :: "turn_ended \<Rightarrow> ident \<Rightarrow> nat \<Rightarrow> agent_record \<Rightarrow> agent_record" where
  "settle_record f runId order r = r\<lparr>
     ar_limited := settle_limit f r,
     ar_processSettledStatus := None,
     ar_activeRun := None,
     ar_retry := None,
     ar_lastRun := Some runId,
     ar_lastOutcomeOrder := Some order,
     ar_lastSuccessfulOutcomeOrder :=
       (if te_outcome f = Completed then Some order else ar_lastSuccessfulOutcomeOrder r),
     ar_lastError := (if te_outcome f = Has_failed
       then Some (given (te_error f) \<lparr>err_kind = Err_provider, err_message = ''turn failed'', err_rest = []\<rparr>)
       else None)\<rparr>"

definition finish_turn :: "turn_ended \<Rightarrow> apply_context \<Rightarrow> agent_record \<Rightarrow> run \<Rightarrow> bool \<Rightarrow> world \<Rightarrow> world" where
  "finish_turn f ctx r run keep_active w =
     (let st = outcome_state (te_outcome f);
          run' = run\<lparr>run_state := st, run_endedAt := Some (now ctx),
                     run_endedBy_steer := (te_endedBy_steer f \<or> run_endedBy_steer run),
                     run_trigger := given (te_trigger f) (run_trigger run)\<rparr>;
          w1 = emit (Run_ended (run_id run) st (te_endedBy_steer f) (now ctx) (te_trigger f))
                 (put_run (run_id run) run' w)
      in if keep_active then w1
         else
           let n = Suc (st_outcomeOrder w1);
               w2 = upd_agent (te_agent f) (settle_record f (run_id run) n) (w1\<lparr>st_outcomeOrder := n\<rparr>)
           in cancelOpenWork (a_id (ar_agent r)) (now ctx)
                (if te_outcome f = Was_interrupted then [] else resolving ctx) w2)"

definition retrigger :: "turn_ended \<Rightarrow> apply_context \<Rightarrow> run \<Rightarrow> world \<Rightarrow> world" where
  "retrigger f ctx run w = (case te_trigger f of
       None \<Rightarrow> w
     | Some tr \<Rightarrow>
         if run_trigger run = tr then w
         else emit (Run_ended (run_id run) (run_state run) False (given (run_endedAt run) (now ctx)) (Some tr))
                (put_run (run_id run) (run\<lparr>run_trigger := tr\<rparr>) w))"

definition endTurn :: "turn_ended \<Rightarrow> apply_context \<Rightarrow> world \<Rightarrow> world" where
  "endTurn f ctx w0 =
     (let w = ensureAgent ctx (te_agent f) w0 in
      case get (st_agents w) (te_agent f) of
        None \<Rightarrow> w
      | Some r \<Rightarrow>
          let active = activeRunOf w r;
              found = (case te_nativeTurnId f of None \<Rightarrow> active | Some nid \<Rightarrow> matchingRun w r nid);
              recoveredPast = (te_historical f \<and> found = None \<and> ar_lastRun r \<noteq> None)
          in case found of
               Some run \<Rightarrow>
                 if run_state run \<noteq> Run_active then retrigger f ctx run w
                 else finish_turn f ctx r run
                        (case active of None \<Rightarrow> False | Some a \<Rightarrow> run_id a \<noteq> run_id run) w
             | None \<Rightarrow>
                 if te_nativeTurnId f = None \<and> ar_lastRun r \<noteq> None then w
                 else
                   let (runId, w1) = next_id ctx Id_run w;
                       run = new_run ctx w1 runId (a_id (ar_agent r)) (given (te_trigger f) Tr_unknown) (te_nativeTurnId f);
                       w2 = emit (Run_started run) ((storeRun (te_agent f) run w1)\<lparr>st_hasRun := True\<rparr>)
                   in finish_turn f ctx r run
                        (recoveredPast \<or> (case active of None \<Rightarrow> False | Some a \<Rightarrow> run_id a \<noteq> runId)) w2)"

definition startTurn :: "turn_started \<Rightarrow> apply_context \<Rightarrow> world \<Rightarrow> world" where
  "startTurn f ctx w0 =
     (let k = ts_agent f; w = ensureAgent ctx k w0 in
      case get (st_agents w) k of
        None \<Rightarrow> w
      | Some r \<Rightarrow>
          let active = activeRunOf w r in
          if (case ts_nativeTurnId f of None \<Rightarrow> False | Some nid \<Rightarrow> matchingRun w r nid \<noteq> None) then w
          else if active \<noteq> None \<and> ts_nativeTurnId f = None then w
          else
            let w1 = (if active = None \<and> ar_lastRun r \<noteq> None then announceAgentBranch k w else w);
                w2 = (case active of None \<Rightarrow> w1
                    | Some a \<Rightarrow> endTurn \<lparr>te_agent = k, te_nativeTurnId = run_nativeId a, te_outcome = Was_interrupted,
                        te_endedBy_steer = False, te_trigger = None, te_error = None, te_historical = False\<rparr> ctx w1);
                (runId, w3) = next_id ctx Id_run w2;
                run = (new_run ctx w3 runId (a_id (ar_agent r)) (ts_trigger f) (ts_nativeTurnId f))
                        \<lparr>run_provider := (if ts_permissionMode f = None then None else Some (cfg_provider (st_config w3))),
                         run_permissionMode := ts_permissionMode f\<rparr>;
                w4 = storeRun k run w3;
                w5 = upd_agent k (\<lambda>r. r\<lparr>ar_activeRun := Some runId, ar_processSettledStatus := None,
                       ar_activity := Starting_turn, ar_detail := None, ar_wakeUntil := None, ar_retry := None\<rparr>) w4
            in emit (Run_started run) (w5\<lparr>st_hasRun := True\<rparr>))"

end
