(* ===== verification/Core_Cleanup_Inv.thy ===== *)
theory Core_Cleanup_Inv
  imports Core_Runs
begin

text \<open>
  What the end of a turn and the exit of the process close. The loops of cleanup.ts walk the live
  indexes; on a state whose indexes are consistent they act on every entity alike, which the
  specifications below state as one function of the entity, independent of the indexes.
\<close>

subsection \<open>Steps that touch no agent and no run\<close>

definition calm :: "world \<Rightarrow> world \<Rightarrow> bool" where
  "calm w w' \<longleftrightarrow> st_agents w' = st_agents w \<and> st_runs w' = st_runs w \<and> w_seq w' = w_seq w \<and>
     agentKeysById (st_indexes w') = agentKeysById (st_indexes w) \<and>
     childrenByParent (st_indexes w') = childrenByParent (st_indexes w) \<and> st_rootKey w' = st_rootKey w"

lemma calm_refl [simp]: "calm w w"
  by (simp add: calm_def)

lemma calm_trans: "calm w w' \<Longrightarrow> calm w' w'' \<Longrightarrow> calm w w''"
  by (simp add: calm_def)

lemma calm_fold: "(\<And>x w. calm w (f x w)) \<Longrightarrow> calm w (fold f xs w)"
  by (induction xs arbitrary: w) (auto intro: calm_trans)

lemma calm_same_tree: "calm w w' \<Longrightarrow> same_tree w w'"
  by (simp add: calm_def same_tree_def tv_def fun_eq_iff)

lemma calm_run_view: "calm w w' \<Longrightarrow> run_view w' = run_view w"
  by (simp add: calm_def run_view_def fun_eq_iff)

lemma refreshInteractionIndex_frame [simp]:
  "st_agents (refreshInteractionIndex k s) = st_agents s" "st_items (refreshInteractionIndex k s) = st_items s"
  "st_runs (refreshInteractionIndex k s) = st_runs s"
  "st_interactions (refreshInteractionIndex k s) = st_interactions s"
  "st_tasks (refreshInteractionIndex k s) = st_tasks s"
  "st_uncertainTasks (refreshInteractionIndex k s) = st_uncertainTasks s"
  "live_tools (refreshInteractionIndex k s) = live_tools s" "open_text (refreshInteractionIndex k s) = open_text s"
  "running_tasks (refreshInteractionIndex k s) = running_tasks s"
  "agentKeysById (st_indexes (refreshInteractionIndex k s)) = agentKeysById (st_indexes s)"
  "childrenByParent (st_indexes (refreshInteractionIndex k s)) = childrenByParent (st_indexes s)"
  "st_rootKey (refreshInteractionIndex k s) = st_rootKey s" "w_seq (refreshInteractionIndex k w) = w_seq w"
  by (simp_all add: refreshInteractionIndex_def) (simp add: upd_indexes_def)

lemma refreshTaskIndex_frame [simp]:
  "st_agents (refreshTaskIndex k s) = st_agents s" "st_items (refreshTaskIndex k s) = st_items s"
  "st_runs (refreshTaskIndex k s) = st_runs s" "st_interactions (refreshTaskIndex k s) = st_interactions s"
  "st_tasks (refreshTaskIndex k s) = st_tasks s" "st_uncertainTasks (refreshTaskIndex k s) = st_uncertainTasks s"
  "live_tools (refreshTaskIndex k s) = live_tools s" "open_text (refreshTaskIndex k s) = open_text s"
  "pending_ints (refreshTaskIndex k s) = pending_ints s"
  "agentKeysById (st_indexes (refreshTaskIndex k s)) = agentKeysById (st_indexes s)"
  "childrenByParent (st_indexes (refreshTaskIndex k s)) = childrenByParent (st_indexes s)"
  "st_rootKey (refreshTaskIndex k s) = st_rootKey s" "w_seq (refreshTaskIndex k w) = w_seq w"
  by (simp_all add: refreshTaskIndex_def) (simp add: upd_indexes_def)

lemma put_interaction_frame [simp]:
  "st_agents (put_interaction k i s) = st_agents s" "st_items (put_interaction k i s) = st_items s"
  "st_runs (put_interaction k i s) = st_runs s"
  "st_interactions (put_interaction k i s) = put (st_interactions s) k i"
  "st_tasks (put_interaction k i s) = st_tasks s" "st_uncertainTasks (put_interaction k i s) = st_uncertainTasks s"
  "st_indexes (put_interaction k i s) = st_indexes s" "st_rootKey (put_interaction k i s) = st_rootKey s"
  "w_seq (put_interaction k i w) = w_seq w"
  by (simp_all add: put_interaction_def)

lemma put_task_frame [simp]:
  "st_agents (put_task k i s) = st_agents s" "st_items (put_task k i s) = st_items s"
  "st_runs (put_task k i s) = st_runs s" "st_interactions (put_task k i s) = st_interactions s"
  "st_tasks (put_task k i s) = put (st_tasks s) k i" "st_uncertainTasks (put_task k i s) = st_uncertainTasks s"
  "st_indexes (put_task k i s) = st_indexes s" "st_rootKey (put_task k i s) = st_rootKey s"
  "w_seq (put_task k i w) = w_seq w"
  by (simp_all add: put_task_def)

lemma calm_update_item: "calm w (update_item k i w)"
  by (simp add: update_item_def calm_def)

lemma calm_refreshItemIndex: "calm w (refreshItemIndex k w)"
  by (simp add: calm_def)

lemma calm_cancelTool: "calm w (cancelTool k t w)"
  by (auto simp: cancelTool_def calm_update_item split: option.splits item_body.splits)

lemma calm_cancel_foreground: "calm w (cancel_foreground bg a t k w)"
  by (auto simp: cancel_foreground_def calm_cancelTool split: option.splits)

lemma calm_closeText: "calm w (closeText k w)"
  by (auto simp: closeText_def calm_update_item calm_refreshItemIndex split: option.splits)

lemma calm_close_pending: "calm w (close_pending s t p k w)"
  by (auto simp: close_pending_def calm_def split: option.splits)

lemma calm_lose_task: "calm w (lose_task t k w)"
  by (auto simp: lose_task_def calm_def split: option.splits)

lemmas calm_steps = calm_cancelTool calm_cancel_foreground calm_closeText calm_close_pending calm_lose_task

lemma calm_cancelOpenWork: "calm w (cancelOpenWork a t res w)"
  unfolding cancelOpenWork_def Let_def
  by (rule calm_trans [OF calm_trans [OF calm_fold calm_fold] calm_fold]) (rule calm_steps)+

subsection \<open>Loops over the live keys\<close>

text \<open>A loop whose body rewrites the entity under its key by one function.\<close>

lemma fold_modify:
  assumes "\<And>k w k'. get (P (f k w)) k' = (if k' = k then map_option g (get (P w) k') else get (P w) k')"
    and "distinct ks"
  shows "get (P (fold f ks w)) k' = (if k' \<in> set ks then map_option g (get (P w) k') else get (P w) k')"
  using assms(2) by (induction ks arbitrary: w) (auto simp: assms(1))

lemma fold_frame:
  assumes "\<And>k w. P (f k w) = P w"
  shows "P (fold f ks w) = P w"
  using assms by (induction ks arbitrary: w) auto

text \<open>When the body does nothing to entities outside the list, the loop is a map over all of them.\<close>

lemma fold_map_all:
  assumes "\<And>k w k'. get (P (f k w)) k' = (if k' = k then map_option g (get (P w) k') else get (P w) k')"
    and "distinct ks" and "\<And>k v. get (P w) k = Some v \<Longrightarrow> k \<notin> set ks \<Longrightarrow> g v = v"
  shows "get (P (fold f ks w)) k' = map_option g (get (P w) k')"
  using fold_modify [of P f g ks w k'] assms by (cases "get (P w) k'") auto

lemma work_ok_fold: "(\<And>x w. work_ok w \<Longrightarrow> work_ok (f x w)) \<Longrightarrow> work_ok w \<Longrightarrow> work_ok (fold f xs w)"
  by (induction xs arbitrary: w) auto

lemma work_ok_update_item: "work_ok w \<Longrightarrow> work_ok (update_item k i w)"
  using work_ok_store [of w k i True] by (simp add: store_item_def update_item_def)

lemma work_ok_refreshItemIndex: "work_ok (w :: world) \<Longrightarrow> work_ok (refreshItemIndex k w)"
proof -
  assume ok: "work_ok w"
  have "interaction_live (refreshItemIndex k w) = interaction_live w" "task_live (refreshItemIndex k w) = task_live w"
    by (auto simp: live_defs fun_eq_iff split: option.splits)
  with ok show ?thesis
    by (auto simp: work_ok_def intro: tools.consistent_refresh texts.consistent_refresh
        ints.consistent_frame bgs.consistent_frame)
qed

lemma work_ok_cancelTool: "work_ok w \<Longrightarrow> work_ok (cancelTool k t w)"
  by (auto simp: cancelTool_def work_ok_update_item split: option.splits item_body.splits)

lemma work_ok_cancel_foreground: "work_ok w \<Longrightarrow> work_ok (cancel_foreground bg a t k w)"
  by (auto simp: cancel_foreground_def work_ok_cancelTool split: option.splits)

lemma work_ok_closeText: "work_ok w \<Longrightarrow> work_ok (closeText k w)"
  by (auto simp: closeText_def work_ok_update_item work_ok_refreshItemIndex split: option.splits)

lemma work_ok_put_interaction:
  assumes "work_ok (w :: world)"
  shows "work_ok (refreshInteractionIndex k (put_interaction k i w))"
proof -
  let ?w = "refreshInteractionIndex k (put_interaction k i w)"
  have "ints.consistent ?w"
    using assms by (auto simp: work_ok_def live_defs intro!: ints.consistent_write [of w])
  moreover have "tool_live ?w = tool_live w" "text_open ?w = text_open w" "task_live ?w = task_live w"
    by (auto simp: live_defs fun_eq_iff split: option.splits)
  ultimately show ?thesis
    using assms by (auto simp: work_ok_def intro: tools.consistent_frame texts.consistent_frame bgs.consistent_frame)
qed

lemma work_ok_put_task:
  assumes "work_ok (w :: world)"
  shows "work_ok (refreshTaskIndex k (put_task k i w))"
proof -
  let ?w = "refreshTaskIndex k (put_task k i w)"
  have "bgs.consistent ?w"
    using assms by (auto simp: work_ok_def live_defs intro!: bgs.consistent_write [of w] split: option.splits)
  moreover have "tool_live ?w = tool_live w" "text_open ?w = text_open w" "interaction_live ?w = interaction_live w"
    by (auto simp: live_defs fun_eq_iff split: option.splits)
  ultimately show ?thesis
    using assms by (auto simp: work_ok_def intro: tools.consistent_frame texts.consistent_frame ints.consistent_frame)
qed

lemma work_ok_close_pending: "work_ok w \<Longrightarrow> work_ok (close_pending s t p k w)"
  by (auto simp: close_pending_def work_ok_put_interaction work_ok_emit split: option.splits)

lemma work_ok_lose_task: "work_ok w \<Longrightarrow> work_ok (lose_task t k w)"
  by (auto simp: lose_task_def work_ok_put_task work_ok_emit split: option.splits)

lemmas work_ok_steps = work_ok_cancelTool work_ok_cancel_foreground work_ok_closeText
  work_ok_close_pending work_ok_lose_task

lemma work_ok_cancelOpenWork: "work_ok w \<Longrightarrow> work_ok (cancelOpenWork a t res w)"
  unfolding cancelOpenWork_def Let_def by (intro work_ok_fold work_ok_steps)

subsection \<open>The end of a turn\<close>

text \<open>What the end of a turn makes of an item, and of an interaction.\<close>

definition cancel_item :: "ident list \<Rightarrow> ident \<Rightarrow> timestamp \<Rightarrow> item \<Rightarrow> item" where
  "cancel_item bg a t i =
     (if item_agentId i = a \<and> isLiveTool i \<and> item_id i \<notin> set bg
      then (case item_body i of Tool_call c \<Rightarrow> cancelled_item t c i | _ \<Rightarrow> i) else i)"

definition finish_text :: "(item \<Rightarrow> bool) \<Rightarrow> item \<Rightarrow> item" where
  "finish_text p i = (if isOpenText i \<and> p i then i\<lparr>item_complete := True\<rparr> else i)"

definition close_if :: "interaction_state \<Rightarrow> timestamp \<Rightarrow> (interaction \<Rightarrow> bool) \<Rightarrow> interaction \<Rightarrow> interaction" where
  "close_if s t skip_it i = (if int_state i \<noteq> Int_pending \<or> skip_it i then i else closed_interaction s t i)"

lemma items_update_item [simp]: "st_items (update_item k i w) = put (st_items w) k i"
  by (simp add: update_item_def)

lemma get_cancel_foreground:
  "get (st_items (cancel_foreground bg a t k w)) k' =
     (if k' = k then map_option (cancel_item bg a t) (get (st_items w) k') else get (st_items w) k')"
  by (auto simp: cancel_foreground_def cancel_item_def cancelTool_def isLiveTool.simps
      split: option.splits item_body.splits)

lemma get_closeText:
  "get (st_items (closeText k w)) k' =
     (if k' = k then map_option (\<lambda>i. i\<lparr>item_complete := True\<rparr>) (get (st_items w) k') else get (st_items w) k')"
  by (auto simp: closeText_def split: option.splits)

lemma get_close_pending:
  "get (st_interactions (close_pending s t p k w)) k' =
     (if k' = k then map_option (close_if s t p) (get (st_interactions w) k') else get (st_interactions w) k')"
  by (auto simp: close_pending_def close_if_def split: option.splits)

lemma close_pending_frame [simp]:
  "st_items (close_pending s t p k w) = st_items w" "st_tasks (close_pending s t p k w) = st_tasks w"
  "st_uncertainTasks (close_pending s t p k w) = st_uncertainTasks w"
  by (auto simp: close_pending_def split: option.splits)

lemma item_loop_frame [simp]:
  "st_interactions (closeText k w) = st_interactions w" "st_tasks (closeText k w) = st_tasks w"
  "st_interactions (cancelTool k t w) = st_interactions w" "st_tasks (cancelTool k t w) = st_tasks w"
  "st_interactions (cancel_foreground bg a t k w) = st_interactions w"
  "st_tasks (cancel_foreground bg a t k w) = st_tasks w"
  "st_uncertainTasks (closeText k w) = st_uncertainTasks w" "st_uncertainTasks (cancelTool k t w) = st_uncertainTasks w"
  "st_uncertainTasks (cancel_foreground bg a t k w) = st_uncertainTasks w"
  by (auto simp: closeText_def cancelTool_def cancel_foreground_def update_item_def
      split: option.splits item_body.splits)

text \<open>On consistent indexes the readers list exactly the live entities of the agent.\<close>

lemma set_liveToolKeys:
  "work_ok s \<Longrightarrow> k \<in> set (liveToolKeys s a) \<longleftrightarrow> tool_live s k \<and> owned item_agentId (st_items s) a k"
  using tools.consistent_keys [of s] by (auto simp: work_ok_def liveToolKeys_def)

lemma set_openTextKeys:
  "work_ok s \<Longrightarrow> k \<in> set (openTextKeys s a) \<longleftrightarrow> text_open s k \<and> owned item_agentId (st_items s) a k"
  using texts.consistent_keys [of s] by (auto simp: work_ok_def openTextKeys_def)

lemma set_pendingInteractionKeys:
  "work_ok s \<Longrightarrow> k \<in> set (pendingInteractionKeys s a) \<longleftrightarrow>
     interaction_live s k \<and> owned int_agentId (st_interactions s) a k"
  using ints.consistent_keys [of s] by (auto simp: work_ok_def pendingInteractionKeys_def)

lemma set_runningTaskKeys:
  "work_ok s \<Longrightarrow> k \<in> set (runningTaskKeys s a) \<longleftrightarrow> task_live s k \<and> owned task_agentId (st_tasks s) a k"
  using bgs.consistent_keys [of s] by (auto simp: work_ok_def runningTaskKeys_def)

lemma distinct_readers [simp]:
  "distinct (liveToolKeys s a)" "distinct (openTextKeys s a)" "distinct (pendingInteractionKeys s a)"
  "distinct (runningTaskKeys s a)"
  by (simp_all add: liveToolKeys_def openTextKeys_def pendingInteractionKeys_def runningTaskKeys_def)

lemma get_close_texts:
  fixes w :: world
  assumes "work_ok w"
  shows "get (st_items (fold closeText (openTextKeys w a) w)) k =
    map_option (finish_text (\<lambda>i. a = None \<or> a = Some (item_agentId i))) (get (st_items w) k)"
proof -
  have "get (st_items (fold closeText (openTextKeys w a) w)) k =
      (if k \<in> set (openTextKeys w a) then map_option (\<lambda>i. i\<lparr>item_complete := True\<rparr>) (get (st_items w) k)
       else get (st_items w) k)"
    by (rule fold_modify) (auto simp: get_closeText)
  then show ?thesis
    using set_openTextKeys [OF assms, of k a]
    by (cases "get (st_items w) k"; cases a) (auto simp: finish_text_def text_open_def owned_def)
qed

text \<open>C23: the end of a turn closes exactly the work it must. On a state with consistent indexes,
  \<open>cancelOpenWork\<close> cancels every live tool call of the agent that no running background task owns,
  completes every text the agent was still streaming, cancels the agent's pending blocking
  interactions except those whose answer the engine is delivering, and changes nothing else of any
  item, interaction or task.\<close>

theorem cancelOpenWork_exact:
  assumes "work_ok w"
  shows "get (st_items (cancelOpenWork a t res w)) k =
      map_option (finish_text (\<lambda>i. item_agentId i = a) \<circ> cancel_item (background_items w) a t) (get (st_items w) k) \<and>
    get (st_interactions (cancelOpenWork a t res w)) k =
      map_option (close_if Int_cancelled t (\<lambda>i. int_agentId i \<noteq> a \<or> \<not> int_blocking i \<or> int_id i \<in> set res))
        (get (st_interactions w) k) \<and>
    st_tasks (cancelOpenWork a t res w) = st_tasks w \<and> work_ok (cancelOpenWork a t res w)"
proof -
  define bg where "bg = background_items w"
  define w1 where "w1 = fold (cancel_foreground bg a t) (liveToolKeys w (Some a)) w"
  define w2 where "w2 = fold closeText (openTextKeys w1 (Some a)) w1"
  let ?p = "\<lambda>i. int_agentId i \<noteq> a \<or> \<not> int_blocking i \<or> int_id i \<in> set res"
  have w': "cancelOpenWork a t res w = fold (close_pending Int_cancelled t ?p) (pendingInteractionKeys w2 (Some a)) w2"
    by (simp add: cancelOpenWork_def Let_def w2_def w1_def bg_def)
  have ok1: "work_ok w1" unfolding w1_def using assms by (intro work_ok_fold work_ok_steps)
  then have ok2: "work_ok w2" unfolding w2_def by (intro work_ok_fold work_ok_steps)
  have i1: "get (st_items w1) k = map_option (cancel_item bg a t) (get (st_items w) k)" for k
    unfolding w1_def
  proof (rule fold_map_all [where P = st_items])
    fix k v assume v: "get (st_items w) k = Some v" and k: "k \<notin> set (liveToolKeys w (Some a))"
    show "cancel_item bg a t v = v"
      using k set_liveToolKeys [OF assms, of k "Some a"] v
      by (auto simp: cancel_item_def tool_live_def owned_def)
  qed (auto simp: get_cancel_foreground)
  have i2: "get (st_items w2) k = map_option (finish_text (\<lambda>i. item_agentId i = a)) (get (st_items w1) k)" for k
    unfolding w2_def get_close_texts [OF ok1] by (rule arg_cong [where f = "\<lambda>f. map_option f _"]) (simp add: finish_text_def fun_eq_iff)
  have n2: "st_interactions w2 = st_interactions w" "st_tasks w2 = st_tasks w"
    unfolding w2_def w1_def by (simp_all add: fold_frame [where P = st_interactions] fold_frame [where P = st_tasks])
  have n3: "get (st_interactions (cancelOpenWork a t res w)) k = map_option (close_if Int_cancelled t ?p) (get (st_interactions w2) k)"
    unfolding w'
  proof (rule fold_map_all [where P = st_interactions])
    fix k v assume v: "get (st_interactions w2) k = Some v" and k: "k \<notin> set (pendingInteractionKeys w2 (Some a))"
    show "close_if Int_cancelled t ?p v = v"
      using k set_pendingInteractionKeys [OF ok2, of k "Some a"] v
      by (auto simp: close_if_def interaction_live_def owned_def)
  qed (auto simp: get_close_pending)
  have "st_items (cancelOpenWork a t res w) = st_items w2" "st_tasks (cancelOpenWork a t res w) = st_tasks w2"
    unfolding w' by (simp_all add: fold_frame [where P = st_items] fold_frame [where P = st_tasks])
  then show ?thesis
    using i1 i2 n2 n3 work_ok_cancelOpenWork [OF assms] by (simp add: option.map_comp bg_def)
qed

subsection \<open>The exit of the process\<close>

definition cancel_live :: "timestamp \<Rightarrow> item \<Rightarrow> item" where
  "cancel_live t i = (if isLiveTool i then (case item_body i of Tool_call c \<Rightarrow> cancelled_item t c i | _ \<Rightarrow> i) else i)"

definition lose :: "timestamp \<Rightarrow> background_task \<Rightarrow> background_task" where
  "lose t task = (if task_status task = Task_running \<and> \<not> task_owner_ace task
     then task\<lparr>task_status := Task_unknown, task_endedAt := Some t\<rparr> else task)"

lemma get_lose_task:
  "get (st_tasks (lose_task t k w)) k' =
     (if k' = k then map_option (lose t) (get (st_tasks w) k') else get (st_tasks w) k')"
  by (auto simp: lose_task_def lose_def split: option.splits)

lemma lose_task_frame [simp]:
  "st_items (lose_task t k w) = st_items w" "st_interactions (lose_task t k w) = st_interactions w"
  by (auto simp: lose_task_def split: option.splits)

lemma next_order_frame [simp]:
  "st_items (next_order k f w) = st_items w" "st_interactions (next_order k f w) = st_interactions w"
  "st_tasks (next_order k f w) = st_tasks w" "st_uncertainTasks (next_order k f w) = st_uncertainTasks w"
  "st_indexes (next_order k f w) = st_indexes w" "st_runs (next_order k f w) = st_runs w"
  "st_rootKey (next_order k f w) = st_rootKey w" "w_seq (next_order k f w) = w_seq w"
  by (simp_all add: next_order_def Let_def)

lemma put_run_frame [simp]:
  "st_items (put_run k r s) = st_items s" "st_interactions (put_run k r s) = st_interactions s"
  "st_tasks (put_run k r s) = st_tasks s" "st_uncertainTasks (put_run k r s) = st_uncertainTasks s"
  "st_indexes (put_run k r s) = st_indexes s" "st_runs (put_run k r s) = put (st_runs s) k r"
  "st_rootKey (put_run k r s) = st_rootKey s" "st_agents (put_run k r s) = st_agents s"
  "w_seq (put_run k r w) = w_seq w"
  by (simp_all add: put_run_def)

lemma end_run_on_exit_frame [simp]:
  "st_items (end_run_on_exit d m t k r w) = st_items w"
  "st_interactions (end_run_on_exit d m t k r w) = st_interactions w"
  "st_tasks (end_run_on_exit d m t k r w) = st_tasks w"
  "st_uncertainTasks (end_run_on_exit d m t k r w) = st_uncertainTasks w"
  "st_indexes (end_run_on_exit d m t k r w) = st_indexes w"
  "st_rootKey (end_run_on_exit d m t k r w) = st_rootKey w" "w_seq (end_run_on_exit d m t k r w) = w_seq w"
  by (simp_all add: end_run_on_exit_def Let_def)

lemma exit_agent_frame [simp]:
  "st_items (exit_agent d m t k w) = st_items w" "st_interactions (exit_agent d m t k w) = st_interactions w"
  "st_tasks (exit_agent d m t k w) = st_tasks w" "st_uncertainTasks (exit_agent d m t k w) = st_uncertainTasks w"
  "st_indexes (exit_agent d m t k w) = st_indexes w" "st_rootKey (exit_agent d m t k w) = st_rootKey w"
  "w_seq (exit_agent d m t k w) = w_seq w"
  by (auto simp: exit_agent_def Let_def split: option.splits)

text \<open>The agent loop ends the run of every agent of the process, and touches no other agent.\<close>

lemma get_next_order:
  "get (st_agents (next_order k f w)) k' =
     (if k' = k then map_option (\<lambda>r. (f r)\<lparr>ar_lastOutcomeOrder := Some (Suc (st_outcomeOrder w))\<rparr>) (get (st_agents w) k')
      else get (st_agents w) k')"
  by (simp add: next_order_def Let_def)

lemma exit_agent_record:
  "k' \<noteq> k \<Longrightarrow> get (st_agents (exit_agent d m t k w)) k' = get (st_agents w) k'"
  "get (st_agents w) k = Some r \<Longrightarrow>
     \<exists>r'. get (st_agents (exit_agent d m t k w)) k = Some r' \<and> view r' = view r \<and>
       ar_externalStatus r' = ar_externalStatus r \<and> ar_nativeRuns r' = ar_nativeRuns r \<and>
       ar_activeRun r' = (if ar_externalStatus r = None then None else ar_activeRun r)"
proof -
  show "get (st_agents (exit_agent d m t k w)) k' = get (st_agents w) k'" if "k' \<noteq> k"
    using that by (auto simp: exit_agent_def end_run_on_exit_def Let_def get_next_order split: option.splits)
  show "\<exists>r'. get (st_agents (exit_agent d m t k w)) k = Some r' \<and> view r' = view r \<and>
       ar_externalStatus r' = ar_externalStatus r \<and> ar_nativeRuns r' = ar_nativeRuns r \<and>
       ar_activeRun r' = (if ar_externalStatus r = None then None else ar_activeRun r)"
    if "get (st_agents w) k = Some r"
    using that
    by (auto simp: exit_agent_def end_run_on_exit_def Let_def get_next_order view_def split: option.splits)
qed

lemma exit_agents_record:
  assumes "distinct ks" "get (st_agents w) k = Some r"
  shows "\<exists>r'. get (st_agents (fold (exit_agent d m t) ks w)) k = Some r' \<and> view r' = view r \<and>
    ar_externalStatus r' = ar_externalStatus r \<and> ar_nativeRuns r' = ar_nativeRuns r \<and>
    ar_activeRun r' = (if k \<in> set ks \<and> ar_externalStatus r = None then None else ar_activeRun r)"
  using assms
proof (induction ks arbitrary: w r)
  case (Cons x ks)
  show ?case
  proof (cases "x = k")
    case True
    obtain r1 where r1: "get (st_agents (exit_agent d m t x w)) k = Some r1" "view r1 = view r"
      "ar_externalStatus r1 = ar_externalStatus r" "ar_nativeRuns r1 = ar_nativeRuns r"
      "ar_activeRun r1 = (if ar_externalStatus r = None then None else ar_activeRun r)"
      using exit_agent_record(2) [of w k r d m t] Cons.prems(2) True by auto
    from Cons.IH [OF _ r1(1)] Cons.prems(1) obtain r' where
      "get (st_agents (fold (exit_agent d m t) ks (exit_agent d m t x w))) k = Some r'" "view r' = view r1"
      "ar_externalStatus r' = ar_externalStatus r1" "ar_nativeRuns r' = ar_nativeRuns r1"
      "ar_activeRun r' = (if k \<in> set ks \<and> ar_externalStatus r1 = None then None else ar_activeRun r1)" by auto
    with r1 True show ?thesis by auto
  next
    case False
    then have "get (st_agents (exit_agent d m t x w)) k = Some r"
      using exit_agent_record(1) [of k x d m t w] Cons.prems(2) by simp
    from Cons.IH [OF _ this] Cons.prems(1) False show ?thesis by auto
  qed
qed auto

text \<open>The loops of \<open>exitProcess\<close>, one by one.\<close>

lemma get_expire_pending:
  assumes "work_ok w"
  shows "get (st_interactions (fold (close_pending Int_expired t (\<lambda>_. False)) (pendingInteractionKeys w None) w)) k =
    map_option (close_if Int_expired t (\<lambda>_. False)) (get (st_interactions w) k)"
proof (rule fold_map_all [where P = st_interactions])
  fix k v assume "get (st_interactions w) k = Some v" "k \<notin> set (pendingInteractionKeys w None)"
  then show "close_if Int_expired t (\<lambda>_. False) v = v"
    using set_pendingInteractionKeys [OF assms, of k None] by (auto simp: close_if_def interaction_live_def owned_def)
qed (auto simp: get_close_pending)

lemma get_lose_tasks:
  assumes "work_ok w"
  shows "get (st_tasks (fold (lose_task t) (runningTaskKeys w None) w)) k = map_option (lose t) (get (st_tasks w) k)"
proof (rule fold_map_all [where P = st_tasks])
  fix k v assume "get (st_tasks w) k = Some v" "k \<notin> set (runningTaskKeys w None)"
  then show "lose t v = v"
    using set_runningTaskKeys [OF assms, of k None] by (auto simp: lose_def task_live_def owned_def)
qed (auto simp: get_lose_task)

lemma get_cancel_tools:
  assumes "work_ok w"
  shows "get (st_items (fold (\<lambda>k. cancelTool k t) (liveToolKeys w None) w)) k = map_option (cancel_live t) (get (st_items w) k)"
proof -
  have "get (st_items (fold (\<lambda>k. cancelTool k t) (liveToolKeys w None) w)) k = (if k \<in> set (liveToolKeys w None)
      then map_option (\<lambda>i. case item_body i of Tool_call c \<Rightarrow> cancelled_item t c i | _ \<Rightarrow> i) (get (st_items w) k)
      else get (st_items w) k)"
    by (rule fold_modify [where P = st_items]) (auto simp: cancelTool_def split: option.splits item_body.splits)
  then show ?thesis
    using set_liveToolKeys [OF assms, of k None]
    by (cases "get (st_items w) k") (auto simp: cancel_live_def tool_live_def owned_def)
qed

lemma exit_agents_all:
  "map_option (\<lambda>r. (ar_externalStatus r, ar_activeRun r)) (get (st_agents (fold (exit_agent d m t) (okeys (st_agents w)) w)) k) =
    map_option (\<lambda>r. (ar_externalStatus r, if ar_externalStatus r = None then None else ar_activeRun r)) (get (st_agents w) k)"
proof (cases "get (st_agents w) k")
  case None
  have "get (st_agents (fold (exit_agent d m t) ks v)) k = get (st_agents v) k" if "k \<notin> set ks" for ks v
    using that by (induction ks arbitrary: v) (auto simp: exit_agent_record(1))
  moreover have "k \<notin> set (okeys (st_agents w))" using None by (simp add: has_def)
  ultimately show ?thesis using None by simp
next
  case (Some r)
  have "k \<in> set (okeys (st_agents w))" using Some by (simp add: has_def)
  with exit_agents_record [of "okeys (st_agents w)" w k r d m t] Some show ?thesis by auto
qed

lemma exit_agents_frame:
  "st_items (fold (exit_agent d m t) ks w) = st_items w" "st_interactions (fold (exit_agent d m t) ks w) = st_interactions w"
  "st_tasks (fold (exit_agent d m t) ks w) = st_tasks w" "st_indexes (fold (exit_agent d m t) ks w) = st_indexes w"
  "st_uncertainTasks (fold (exit_agent d m t) ks w) = st_uncertainTasks w"
  by (simp_all add: fold_frame [where P = st_items] fold_frame [where P = st_interactions]
      fold_frame [where P = st_tasks] fold_frame [where P = st_indexes] fold_frame [where P = st_uncertainTasks])

lemma work_ok_exit_agents:
  assumes "work_ok w"
  shows "work_ok (fold (exit_agent d m t) ks w)"
proof -
  let ?w = "fold (exit_agent d m t) ks w"
  have "tool_live ?w = tool_live w" "text_open ?w = text_open w"
    "interaction_live ?w = interaction_live w" "task_live ?w = task_live w"
    by (simp_all add: fun_eq_iff live_defs exit_agents_frame split: option.splits)
  with assms show ?thesis
    by (simp add: work_ok_def tools.consistent_def texts.consistent_def ints.consistent_def bgs.consistent_def exit_agents_frame)
qed


lemma work_ok_example_world: "work_ok example_world"
  by (simp add: example_world_def world_of_def createThreadState_def example_config_def thread_state.defs
      work_ok_def tools.consistent_def texts.consistent_def ints.consistent_def bgs.consistent_def live_defs no_indexes_def)

lemma example_upsert: "upsertItem (example_ctx 5) ''a'' ''i'' example_draft example_world \<noteq> None"
  by code_simp

lemma example_upsert_processExit:
  "map_option st_processExit (upsertItem (example_ctx 5) ''a'' ''i'' example_draft example_world) = Some None"
  by code_simp

lemma example_live_world:
  obtains w where "upsertItem (example_ctx 5) ''a'' ''i'' example_draft example_world = Some w"
    and "work_ok w" and "st_processExit w = None"
  using example_upsert example_upsert_processExit upsertItem_keeps work_ok_example_world by force

theorem cancelOpenWork_exact_witness:
  "\<exists>w. upsertItem (example_ctx 5) ''a'' ''i'' example_draft example_world = Some w \<and> work_ok w \<and>
     get (st_items (cancelOpenWork ''agent_0'' 7 [] w)) ''i'' =
       map_option (finish_text (\<lambda>i. item_agentId i = ''agent_0'') \<circ> cancel_item (background_items w) ''agent_0'' 7)
         (get (st_items w) ''i'')"
proof -
  obtain w where w: "upsertItem (example_ctx 5) ''a'' ''i'' example_draft example_world = Some w" "work_ok w"
    by (rule example_live_world)
  from cancelOpenWork_exact [OF w(2), of "''agent_0''" 7 "[]" "''i''"] w show ?thesis by blast
qed


end
