(* ===== verification/Core_Runs_Inv.thy ===== *)
theory Core_Runs_Inv
  imports Core_Cleanup_Inv
begin

text \<open>
  The invariant of the runs of a thread and its preservation by runs.ts and cleanup.ts. A run that
  is active is the active run of exactly one agent record, that record's agent owns it, and the
  native turn ids an agent has seen name its own runs. The boundaries then never leave two active
  runs of an agent, a replayed start adds nothing, and an ended run stays ended.
\<close>

subsection \<open>The abstract invariant\<close>

type_synonym run_map = "ident \<Rightarrow> run option"
type_synonym sights = "key \<Rightarrow> sight option"

abbreviation is_active :: "run \<Rightarrow> bool" where
  "is_active r \<equiv> run_state r = Run_active"

definition run_ok :: "run_map \<Rightarrow> sights \<Rightarrow> bool" where
  "run_ok rs v \<longleftrightarrow>
     (\<forall>i r. rs i = Some r \<longrightarrow> run_id r = i) \<and>
     (\<forall>k a i ns. v k = Some (a, Some i, ns) \<longrightarrow>
        (\<exists>r. rs i = Some r \<and> is_active r \<and> run_agentId r = a \<and>
           (\<forall>n. run_nativeId r = Some n \<longrightarrow> get ns n = Some i))) \<and>
     (\<forall>i r. rs i = Some r \<and> is_active r \<longrightarrow> (\<exists>k a ns. v k = Some (a, Some i, ns))) \<and>
     (\<forall>k a act ns n i. v k = Some (a, act, ns) \<and> get ns n = Some i \<longrightarrow>
        (\<exists>r. rs i = Some r \<and> run_agentId r = a))"

definition own_ids :: "sights \<Rightarrow> bool" where
  "own_ids v \<longleftrightarrow> (\<forall>k k' x x'. v k = Some x \<and> v k' = Some x' \<and> fst x = fst x' \<longrightarrow> k = k')"

lemma run_okD:
  assumes "run_ok rs v"
  shows "rs i = Some r \<Longrightarrow> run_id r = i"
    and "v k = Some (a, Some i, ns) \<Longrightarrow> \<exists>r. rs i = Some r \<and> is_active r \<and> run_agentId r = a \<and>
           (\<forall>n. run_nativeId r = Some n \<longrightarrow> get ns n = Some i)"
    and "rs i = Some r \<Longrightarrow> is_active r \<Longrightarrow> \<exists>k a ns. v k = Some (a, Some i, ns)"
    and "v k = Some (a, act, ns) \<Longrightarrow> get ns n = Some i \<Longrightarrow> \<exists>r. rs i = Some r \<and> run_agentId r = a"
  using assms unfolding run_ok_def by blast+

lemma run_okI:
  assumes "\<And>i r. rs i = Some r \<Longrightarrow> run_id r = i"
    and "\<And>k a i ns. v k = Some (a, Some i, ns) \<Longrightarrow> \<exists>r. rs i = Some r \<and> is_active r \<and> run_agentId r = a \<and>
           (\<forall>n. run_nativeId r = Some n \<longrightarrow> get ns n = Some i)"
    and "\<And>i r. rs i = Some r \<Longrightarrow> is_active r \<Longrightarrow> \<exists>k a ns. v k = Some (a, Some i, ns)"
    and "\<And>k a act ns n i. v k = Some (a, act, ns) \<Longrightarrow> get ns n = Some i \<Longrightarrow> \<exists>r. rs i = Some r \<and> run_agentId r = a"
  shows "run_ok rs v"
  using assms unfolding run_ok_def by blast

lemma run_ok_grows:
  assumes ok: "run_ok rs v" and g: "grows v v'"
  shows "run_ok rs v'"
proof (rule run_okI)
  have old: "v k = Some (a, act, ns)" if "v' k = Some (a, act, ns)" "act \<noteq> None \<or> ns \<noteq> []" for k a act ns
    using that g growsD [OF g] unfolding grows_def by (cases "v k") fastforce+
  show "run_id r = i" if "rs i = Some r" for i r using run_okD(1) [OF ok that] .
  show "\<exists>r. rs i = Some r \<and> is_active r \<and> run_agentId r = a \<and> (\<forall>n. run_nativeId r = Some n \<longrightarrow> get ns n = Some i)"
    if "v' k = Some (a, Some i, ns)" for k a i ns using run_okD(2) [OF ok old [OF that]] by simp
  show "\<exists>k a ns. v' k = Some (a, Some i, ns)" if "rs i = Some r" "is_active r" for i r
    using run_okD(3) [OF ok that] growsD [OF g] by blast
  show "\<exists>r. rs i = Some r \<and> run_agentId r = a" if "v' k = Some (a, act, ns)" "get ns n = Some i" for k a act ns n i
  proof -
    have "ns \<noteq> []" using that(2) by auto
    with old [OF that(1)] run_okD(4) [OF ok _ that(2)] show ?thesis by blast
  qed
qed

text \<open>Ending the active run of a record, or rewriting a run that has ended.\<close>

lemma run_ok_settle:
  assumes ok: "run_ok rs v" and v: "v k = Some (a, Some i, ns)" and r: "rs i = Some r"
    and r': "run_id r' = i" "\<not> is_active r'" "run_agentId r' = run_agentId r"
    and own: "own_ids v"
  shows "run_ok (rs(i \<mapsto> r')) (v(k \<mapsto> (a, None, ns)))"
proof (rule run_okI)
  have ra: "run_agentId r = a" using run_okD(2) [OF ok v] r by auto
  show "run_id s = j" if "(rs(i \<mapsto> r')) j = Some s" for j s
    using that run_okD(1) [OF ok, of j s] r' by (auto split: if_splits)
  show "\<exists>s. (rs(i \<mapsto> r')) j = Some s \<and> is_active s \<and> run_agentId s = b \<and> (\<forall>n. run_nativeId s = Some n \<longrightarrow> get m n = Some j)"
    if "(v(k \<mapsto> (a, None, ns))) k' = Some (b, Some j, m)" for k' b j m
  proof -
    have v': "v k' = Some (b, Some j, m)" and "k' \<noteq> k" using that by (auto split: if_splits)
    from run_okD(2) [OF ok v'] obtain s where s: "rs j = Some s" "is_active s" "run_agentId s = b"
      "\<forall>n. run_nativeId s = Some n \<longrightarrow> get m n = Some j" by blast
    have "j \<noteq> i"
    proof
      assume "j = i"
      with s r ra have "b = a" by auto
      with own v v' \<open>k' \<noteq> k\<close> show False unfolding own_ids_def by (metis fst_conv)
    qed
    with s show ?thesis by auto
  qed
  show "\<exists>k' b m. (v(k \<mapsto> (a, None, ns))) k' = Some (b, Some j, m)" if "(rs(i \<mapsto> r')) j = Some s" "is_active s" for j s
  proof -
    have "j \<noteq> i" "rs j = Some s" using that r' by (auto split: if_splits)
    from run_okD(3) [OF ok this(2) that(2)] obtain k' b m where k': "v k' = Some (b, Some j, m)" by blast
    then have "k' \<noteq> k" using v \<open>j \<noteq> i\<close> by auto
    with k' show ?thesis by auto
  qed
  show "\<exists>s. (rs(i \<mapsto> r')) j = Some s \<and> run_agentId s = b"
    if "(v(k \<mapsto> (a, None, ns))) k' = Some (b, act, m)" "get m n = Some j" for k' b act m n j
  proof -
    from that(1) v obtain act' where "v k' = Some (b, act', m)" by (auto split: if_splits)
    from run_okD(4) [OF ok this that(2)] r r' show ?thesis by auto
  qed
qed

lemma run_ok_rewrite:
  assumes ok: "run_ok rs v" and r: "rs i = Some r" "\<not> is_active r"
    and r': "run_id r' = i" "\<not> is_active r'" "run_agentId r' = run_agentId r"
  shows "run_ok (rs(i \<mapsto> r')) v"
proof (rule run_okI)
  show "run_id s = j" if "(rs(i \<mapsto> r')) j = Some s" for j s
    using that run_okD(1) [OF ok, of j s] r' by (auto split: if_splits)
  show "\<exists>s. (rs(i \<mapsto> r')) j = Some s \<and> is_active s \<and> run_agentId s = b \<and> (\<forall>n. run_nativeId s = Some n \<longrightarrow> get m n = Some j)"
    if "v k' = Some (b, Some j, m)" for k' b j m
    using run_okD(2) [OF ok that] r by (cases "j = i") auto
  show "\<exists>k' b m. v k' = Some (b, Some j, m)" if "(rs(i \<mapsto> r')) j = Some s" "is_active s" for j s
    using that run_okD(3) [OF ok, of j s] r' by (auto split: if_splits)
  show "\<exists>s. (rs(i \<mapsto> r')) j = Some s \<and> run_agentId s = b"
    if "v k' = Some (b, act, m)" "get m n = Some j" for k' b act m n j
    using run_okD(4) [OF ok that] r r' by auto
qed

text \<open>Storing a fresh run: ended (\<open>act'\<close> is the active run as it was), or started when none is active.\<close>

lemma run_ok_fresh:
  assumes ok: "run_ok rs v" and v: "v k = Some (a, act, ns)" and i: "rs i = None"
    and r': "run_id r' = i" "run_agentId r' = a"
    and ns': "ns' = (case run_nativeId r' of None \<Rightarrow> ns | Some n \<Rightarrow> put ns n i)"
    and fresh: "\<And>n. run_nativeId r' = Some n \<Longrightarrow> get ns n = None"
    and act': "if is_active r' then act = None \<and> act' = Some i else act' = act"
  shows "run_ok (rs(i \<mapsto> r')) (v(k \<mapsto> (a, act', ns')))"
proof (rule run_okI)
  have ext: "get ns n = Some j \<Longrightarrow> get ns' n = Some j" for n j
    using fresh by (auto simp: ns' split: option.splits)
  have old: "rs j = Some s \<Longrightarrow> j \<noteq> i" for j s using i by auto
  show "run_id s = j" if "(rs(i \<mapsto> r')) j = Some s" for j s
    using that run_okD(1) [OF ok, of j s] r' by (auto split: if_splits)
  show "\<exists>s. (rs(i \<mapsto> r')) j = Some s \<and> is_active s \<and> run_agentId s = b \<and> (\<forall>n. run_nativeId s = Some n \<longrightarrow> get m n = Some j)"
    if "(v(k \<mapsto> (a, act', ns'))) k' = Some (b, Some j, m)" for k' b j m
  proof (cases "k' = k \<and> is_active r'")
    case True
    with that act' have "j = i" "b = a" "m = ns'" by auto
    with True r' show ?thesis by (auto simp: ns')
  next
    case False
    with that act' v have "\<exists>m'. v k' = Some (b, Some j, m') \<and> (\<forall>n. get m' n = Some j \<longrightarrow> get m n = Some j)"
      using ext by (auto split: if_splits)
    then obtain m' where m': "v k' = Some (b, Some j, m')" "\<And>n. get m' n = Some j \<Longrightarrow> get m n = Some j" by blast
    from run_okD(2) [OF ok m'(1)] m'(2) old show ?thesis by fastforce
  qed
  show "\<exists>k' b m. (v(k \<mapsto> (a, act', ns'))) k' = Some (b, Some j, m)" if "(rs(i \<mapsto> r')) j = Some s" "is_active s" for j s
  proof (cases "j = i")
    case True
    with that act' have "act' = Some i" by auto
    with True show ?thesis by auto
  next
    case False
    with that have "rs j = Some s" by simp
    from run_okD(3) [OF ok this that(2)] obtain k' b m where k': "v k' = Some (b, Some j, m)" by blast
    then show ?thesis using v act' by (cases "k' = k") (auto split: if_splits)
  qed
  show "\<exists>s. (rs(i \<mapsto> r')) j = Some s \<and> run_agentId s = b"
    if "(v(k \<mapsto> (a, act', ns'))) k' = Some (b, act2, m)" "get m n = Some j" for k' b act2 m n j
  proof (cases "j = i")
    case True
    show ?thesis
    proof (cases "k' = k")
      case False
      with that have "v k' = Some (b, act2, m)" by simp
      from run_okD(4) [OF ok this that(2)] True i show ?thesis by auto
    qed (use that True r' in auto)
  next
    case False
    with that v have "\<exists>act3 m'. v k' = Some (b, act3, m') \<and> get m' n = Some j"
      by (auto simp: ns' split: if_splits option.splits)
    with run_okD(4) [OF ok] False show ?thesis by auto
  qed
qed

text \<open>One agent has at most one active run.\<close>

lemma run_ok_unique:
  assumes ok: "run_ok rs v" and own: "own_ids v"
    and r: "rs i = Some r" "is_active r" "rs j = Some s" "is_active s" "run_agentId r = run_agentId s"
  shows "i = j"
proof -
  obtain k a m where k: "v k = Some (a, Some i, m)" using run_okD(3) [OF ok r(1,2)] by blast
  obtain k' b m' where k': "v k' = Some (b, Some j, m')" using run_okD(3) [OF ok r(3,4)] by blast
  have "a = b" using run_okD(2) [OF ok k] run_okD(2) [OF ok k'] r by auto
  with own k k' have "k = k'" unfolding own_ids_def by (metis fst_conv)
  with k k' show ?thesis by simp
qed

text \<open>A run found under a native id of an agent, when active, is that agent's active run.\<close>

lemma run_ok_native_active:
  assumes ok: "run_ok rs v" and own: "own_ids v" and v: "v k = Some (a, act, ns)"
    and n: "get ns n = Some i" and r: "rs i = Some r" "is_active r"
  shows "act = Some i"
proof -
  have "run_agentId r = a" using run_okD(4) [OF ok v n] r by auto
  moreover obtain k' b m where k': "v k' = Some (b, Some i, m)" using run_okD(3) [OF ok r] by blast
  moreover have "run_agentId r = b" using run_okD(2) [OF ok k'] r by auto
  ultimately have "k' = k" using own v unfolding own_ids_def by (metis fst_conv)
  with k' v show ?thesis by simp
qed

subsection \<open>The invariant on a state\<close>

definition runs_ok :: "(id_kind \<Rightarrow> nat \<Rightarrow> ident) \<Rightarrow> world \<Rightarrow> bool" where
  "runs_ok gen w \<longleftrightarrow> run_ok (get (st_runs w)) (run_view w) \<and>
     (\<forall>i r. get (st_runs w) i = Some r \<longrightarrow> i \<in> gen Id_run ` {..<w_seq w})"

definition run_inv :: "(id_kind \<Rightarrow> nat \<Rightarrow> ident) \<Rightarrow> world \<Rightarrow> bool" where
  "run_inv gen w \<longleftrightarrow> tree_inv gen w \<and> runs_ok gen w"

definition run_frame :: "world \<Rightarrow> world \<Rightarrow> bool" where
  "run_frame w w' \<longleftrightarrow> st_runs w' = st_runs w \<and> w_seq w \<le> w_seq w' \<and> grows (run_view w) (run_view w')"

lemma run_frame_item_step: "item_step w w' \<Longrightarrow> run_frame w w'"
  by (simp add: item_step_def run_frame_def)

lemma run_frame_tree_step: "tree_step w w' \<Longrightarrow> run_frame w w'"
  by (simp add: tree_step_def run_frame_def)

lemma run_frame_calm: "calm w w' \<Longrightarrow> run_frame w w'"
  using calm_run_view [of w w'] by (simp add: calm_def run_frame_def)

lemma runs_ok_frame:
  assumes f: "run_frame w w'" and ok: "runs_ok gen w"
  shows "runs_ok gen w'"
proof -
  have "i \<in> gen Id_run ` {..<w_seq w'}" if "i \<in> gen Id_run ` {..<w_seq w}" for i
    using that f by (force simp: run_frame_def)
  then show ?thesis
    using f ok run_ok_grows unfolding runs_ok_def run_frame_def by auto
qed

lemma own_ids_run_view: "tree_inv gen w \<Longrightarrow> own_ids (run_view w)"
proof -
  assume inv: "tree_inv gen w"
  have "tv w k = Some (fst x, p, q) \<Longrightarrow> by_id w (fst x) = Some k" for k x p q
    using inv unfolding tree_inv_def tree_ok_def by blast
  moreover have "\<exists>p q. tv w k = Some (fst x, p, q)" if "run_view w k = Some x" for k x
    using that by (auto simp: run_view_def tv_def view_def sight_def)
  ultimately show ?thesis unfolding own_ids_def by (metis option.inject)
qed

lemma runs_get_put_run: "get (st_runs (put_run i r w)) = (get (st_runs w))(i \<mapsto> r)"
  by (simp add: put_run_def fun_eq_iff)

lemma put_run_keeps [simp]:
  "st_agents (put_run i r s) = st_agents s" "st_items (put_run i r s) = st_items s"
  "st_interactions (put_run i r s) = st_interactions s" "st_tasks (put_run i r s) = st_tasks s"
  "st_indexes (put_run i r s) = st_indexes s" "st_rootKey (put_run i r s) = st_rootKey s"
  "st_uncertainTasks (put_run i r s) = st_uncertainTasks s" "w_seq (put_run i r w) = w_seq w"
  by (simp_all add: put_run_def)

lemma run_view_upd:
  "run_view (upd_agent k f s) k' = (if k' = k then map_option (sight \<circ> f) (get (st_agents s) k) else run_view s k')"
  by (simp add: run_view_def option.map_comp)

lemma run_view_same: "st_agents w' = st_agents w \<Longrightarrow> run_view w' = run_view w"
  by (simp add: run_view_def fun_eq_iff)

lemma same_tree_agents:
  assumes "tv w' = tv w" "st_indexes w' = st_indexes w" "st_rootKey w' = st_rootKey w" "w_seq w \<le> w_seq w'"
  shows "same_tree w w'"
  using assms by (simp add: same_tree_def)

lemma same_tree_put_run: "same_tree w (put_run i r w)"
  by (rule same_tree_agents) (simp_all add: tv_def fun_eq_iff)

lemma view_settle_record [simp]: "view (settle_record f i n r) = view r"
  by (simp add: settle_record_def view_def)

lemma sight_settle_record [simp]:
  "sight (settle_record f i n r) = (a_id (ar_agent r), None, ar_nativeRuns r)"
  by (simp add: settle_record_def sight_def)

lemma finish_turn_runs:
  "get (st_runs (finish_turn f ctx r run keep w)) = (get (st_runs w))(run_id run \<mapsto>
     run\<lparr>run_state := outcome_state (te_outcome f), run_endedAt := Some (now ctx),
       run_endedBy_steer := (te_endedBy_steer f \<or> run_endedBy_steer run),
       run_trigger := given (te_trigger f) (run_trigger run)\<rparr>)"
proof -
  have calm: "st_runs (cancelOpenWork a t res w') = st_runs w'" for a t res w'
    using calm_cancelOpenWork [of w' a t res] by (simp add: calm_def)
  show ?thesis by (auto simp: finish_turn_def Let_def calm fun_eq_iff)
qed

lemma finish_turn_view:
  "run_view (finish_turn f ctx r run keep w) = (if keep then run_view w
     else (\<lambda>k'. if k' = te_agent f
       then map_option (\<lambda>r. (a_id (ar_agent r), None, ar_nativeRuns r)) (get (st_agents w) k') else run_view w k'))"
proof -
  have settle_sight: "sight (settle_record f i n r) = (a_id (ar_agent r), None, ar_nativeRuns r)" for i n r by simp
  have "run_view (cancelOpenWork a t res w') = run_view w'" for a t res w'
    using calm_run_view [OF calm_cancelOpenWork [of w' a t res]] .
  then show ?thesis
    by (auto simp: finish_turn_def Let_def run_view_upd fun_eq_iff option.map_comp comp_def run_view_def settle_sight)
qed

lemma finish_turn_tree: "same_tree w (finish_turn f ctx r run keep w)"
proof -
  have step: "same_tree v (upd_agent k (settle_record f i n) (v\<lparr>st_outcomeOrder := n\<rparr>))" for v :: world and k i n
    by (rule same_tree_agents) (simp_all add: tv_upd_agent, simp add: tv_def fun_eq_iff)
  have first: "same_tree w (emit e (put_run i r' w))" for e i r'
    by (rule same_tree_trans [OF same_tree_put_run same_tree_emit])
  show ?thesis
    unfolding finish_turn_def Let_def
    by (cases keep) (simp_all only: if_True if_False first,
        rule same_tree_trans [OF same_tree_trans [OF first step] calm_same_tree [OF calm_cancelOpenWork]])
qed

lemma seq_finish_turn [simp]: "w_seq (finish_turn f ctx r run keep w) = w_seq w"
proof -
  have "w_seq (cancelOpenWork a t res w') = w_seq w'" for a t res w'
    using calm_cancelOpenWork [of w' a t res] by (simp add: calm_def)
  then show ?thesis by (simp add: finish_turn_def Let_def)
qed

subsection \<open>endTurn\<close>

lemma activeRunOf_None_iff:
  assumes "run_ok (get (st_runs w)) (run_view w)" "get (st_agents w) k = Some r"
  shows "activeRunOf w r = None \<longleftrightarrow> ar_activeRun r = None"
proof (cases "ar_activeRun r")
  case (Some i)
  then have "run_view w k = Some (a_id (ar_agent r), Some i, ar_nativeRuns r)"
    using assms(2) by (simp add: run_view_def sight_def)
  from run_okD(2) [OF assms(1) this] show ?thesis using Some by (auto simp: activeRunOf_def)
qed (simp add: activeRunOf_def)

lemma matchingRun_None:
  assumes "run_ok (get (st_runs w)) (run_view w)" "get (st_agents w) k = Some r" "matchingRun w r n = None"
  shows "get (ar_nativeRuns r) n = None"
proof (cases "get (ar_nativeRuns r) n")
  case (Some i)
  have "run_view w k = Some (a_id (ar_agent r), ar_activeRun r, ar_nativeRuns r)"
    using assms(2) by (simp add: run_view_def sight_def)
  from run_okD(4) [OF assms(1) this Some] show ?thesis using assms(3) Some by (auto simp: matchingRun_def)
qed simp

lemma fresh_run:
  assumes "runs_ok gen w" "id_source gen"
  shows "get (st_runs w) (gen Id_run (w_seq w)) = None"
  using assms id_source.fresh_id [OF assms(2), of Id_run "w_seq w"]
  by (cases "get (st_runs w) (gen Id_run (w_seq w))") (auto simp: runs_ok_def)

lemma storeRun_runs: "get (st_runs (storeRun k run w)) = (get (st_runs w))(run_id run \<mapsto> run)"
  by (auto simp: storeRun_def Let_def runs_get_put_run fun_eq_iff split: option.splits)

lemma storeRun_view:
  assumes "get (st_agents w) k = Some r"
  shows "run_view (storeRun k run w) = (run_view w)(k \<mapsto> (a_id (ar_agent r), ar_activeRun r,
    case run_nativeId run of None \<Rightarrow> ar_nativeRuns r | Some n \<Rightarrow> put (ar_nativeRuns r) n (run_id run)))"
  using assms by (auto simp: storeRun_def Let_def run_view_upd run_view_def sight_def fun_eq_iff split: option.splits)

lemma seq_storeRun [simp]: "w_seq (storeRun k run w) = w_seq w"
  by (simp add: storeRun_def Let_def split: option.splits)

lemma storeRun_tree: "same_tree w (storeRun k run w)"
proof -
  have "same_tree w (upd_agent k (\<lambda>r. r\<lparr>ar_nativeRuns := g r\<rparr>) (put_run i run w))" for g i
    by (rule same_tree_agents) (simp_all add: tv_upd_agent view_def, simp add: tv_def fun_eq_iff)
  then show ?thesis by (auto simp: storeRun_def Let_def same_tree_put_run split: option.splits)
qed

text \<open>What an operation on runs has to show: the tree kept, the runs consistent again, and no identity reused.\<close>

lemma runs_okI:
  assumes "run_ok (get (st_runs w')) (run_view w')" "runs_ok gen w" "w_seq w \<le> w_seq w'"
    and "\<And>i. get (st_runs w') i \<noteq> None \<Longrightarrow> get (st_runs w) i \<noteq> None \<or> (i = gen Id_run (w_seq w) \<and> w_seq w < w_seq w')"
  shows "runs_ok gen w'"
  unfolding runs_ok_def
proof (intro conjI allI impI)
  fix i r assume "get (st_runs w') i = Some r"
  with assms(4) [of i] consider s where "get (st_runs w) i = Some s" | "i = gen Id_run (w_seq w)" "w_seq w < w_seq w'" by auto
  then show "i \<in> gen Id_run ` {..<w_seq w'}"
  proof cases
    case 1
    with assms(2) have "i \<in> gen Id_run ` {..<w_seq w}" unfolding runs_ok_def by blast
    with assms(3) show ?thesis by force
  qed auto
qed (rule assms(1))

lemma retrigger_runs_ok:
  assumes "runs_ok gen w" "get (st_runs w) (run_id run) = Some run" "\<not> is_active run"
  shows "runs_ok gen (retrigger f ctx run w)"
proof (cases "retrigger f ctx run w = w")
  case False
  then obtain tr where tr: "te_trigger f = Some tr" "run_trigger run \<noteq> tr"
    by (auto simp: retrigger_def split: option.splits if_splits)
  let ?r = "run\<lparr>run_trigger := tr\<rparr>" and ?w = "retrigger f ctx run w"
  have st: "get (st_runs ?w) = (get (st_runs w))(run_id run \<mapsto> ?r)" "run_view ?w = run_view w" "w_seq ?w = w_seq w"
    using tr by (simp_all add: retrigger_def runs_get_put_run run_view_def fun_eq_iff)
  have "run_ok ((get (st_runs w))(run_id run \<mapsto> ?r)) (run_view w)"
    using assms by (intro run_ok_rewrite [where r = run]) (auto simp: runs_ok_def)
  then show ?thesis
    by (intro runs_okI [OF _ assms(1)]) (use st assms(2) in \<open>auto split: if_splits\<close>)
qed (use assms(1) in simp)

lemma same_tree_retrigger: "same_tree w (retrigger f ctx run w)"
  by (auto simp: retrigger_def split: option.splits intro: same_tree_trans [OF same_tree_put_run same_tree_emit])

lemma finish_active_runs_ok:
  assumes inv: "run_inv gen w" and r: "get (st_agents w) (te_agent f) = Some r"
    and run: "get (st_runs w) (run_id run) = Some run" "is_active run" "ar_activeRun r = Some (run_id run)"
  shows "runs_ok gen (finish_turn f ctx r run False w)"
proof -
  let ?w = "finish_turn f ctx r run False w" and ?k = "te_agent f"
  let ?r = "run\<lparr>run_state := outcome_state (te_outcome f), run_endedAt := Some (now ctx),
       run_endedBy_steer := (te_endedBy_steer f \<or> run_endedBy_steer run),
       run_trigger := given (te_trigger f) (run_trigger run)\<rparr>"
  have ok: "runs_ok gen w" and own: "own_ids (run_view w)"
    using inv own_ids_run_view by (auto simp: run_inv_def)
  have v: "run_view w ?k = Some (a_id (ar_agent r), Some (run_id run), ar_nativeRuns r)"
    using r run by (simp add: run_view_def sight_def)
  have "\<not> is_active ?r" by (cases "te_outcome f") simp_all
  then have "run_ok ((get (st_runs w))(run_id run \<mapsto> ?r)) ((run_view w)(?k \<mapsto> (a_id (ar_agent r), None, ar_nativeRuns r)))"
    using ok v run(1) own by (intro run_ok_settle [where r = run]) (auto simp: runs_ok_def)
  moreover have "run_view ?w = (run_view w)(?k \<mapsto> (a_id (ar_agent r), None, ar_nativeRuns r))"
    using r by (auto simp: finish_turn_view fun_eq_iff)
  ultimately show ?thesis
    by (intro runs_okI [OF _ ok]) (use run(1) in \<open>auto simp: finish_turn_runs split: if_splits\<close>)
qed

lemma finish_fresh_runs_ok:
  assumes inv: "run_inv gen w" and src: "id_source gen" and r: "get (st_agents w) (te_agent f) = Some r"
    and run: "run_id run = gen Id_run (w_seq w)" "run_agentId run = a_id (ar_agent r)"
    and new: "\<And>n. run_nativeId run = Some n \<Longrightarrow> matchingRun w r n = None"
    and keep: "\<not> keep \<Longrightarrow> ar_activeRun r = None"
    and w1: "st_runs w1 = st_runs w" "run_view w1 = run_view w" "get (st_agents w1) (te_agent f) = Some r"
      "w_seq w1 = Suc (w_seq w)"
    and w2: "get (st_runs w2) = get (st_runs (storeRun (te_agent f) run w1))"
      "st_agents w2 = st_agents (storeRun (te_agent f) run w1)" "w_seq w2 = w_seq w1"
  shows "runs_ok gen (finish_turn f ctx r run keep w2)"
proof -
  let ?w = "finish_turn f ctx r run keep w2" and ?k = "te_agent f"
  let ?r = "run\<lparr>run_state := outcome_state (te_outcome f), run_endedAt := Some (now ctx),
       run_endedBy_steer := (te_endedBy_steer f \<or> run_endedBy_steer run),
       run_trigger := given (te_trigger f) (run_trigger run)\<rparr>"
  let ?ns = "case run_nativeId run of None \<Rightarrow> ar_nativeRuns r | Some n \<Rightarrow> put (ar_nativeRuns r) n (run_id run)"
  have ok: "runs_ok gen w" using inv by (simp add: run_inv_def)
  have v: "run_view w ?k = Some (a_id (ar_agent r), ar_activeRun r, ar_nativeRuns r)"
    using r by (simp add: run_view_def sight_def)
  have ended: "\<not> is_active ?r" by (cases "te_outcome f") simp_all
  have none: "get (ar_nativeRuns r) n = None" if "run_nativeId run = Some n" for n
    using matchingRun_None [OF _ r new [OF that]] ok by (simp add: runs_ok_def)
  have "run_ok ((get (st_runs w))(run_id run \<mapsto> ?r)) ((run_view w)(?k \<mapsto> (a_id (ar_agent r), ar_activeRun r, ?ns)))"
    using ok fresh_run [OF ok src] run none ended
    v by (intro run_ok_fresh [where r' = ?r and act = "ar_activeRun r" and ns = "ar_nativeRuns r"]) (auto simp: runs_ok_def)
  moreover have v2: "run_view w2 = (run_view w)(?k \<mapsto> (a_id (ar_agent r), ar_activeRun r, ?ns))"
    using storeRun_view [OF w1(3)] run_view_same [OF w2(2)] w1(2) by simp
  have "run_view ?w = run_view w2"
  proof (cases keep)
    case False
    have "map_option (\<lambda>r. (a_id (ar_agent r), None, ar_nativeRuns r)) (get (st_agents w2) ?k) = run_view w2 ?k"
      using fun_cong [OF v2, of ?k] keep [OF False] unfolding run_view_def by (auto simp: sight_def)
    then show ?thesis by (auto simp: finish_turn_view fun_eq_iff)
  qed (simp add: finish_turn_view)
  ultimately show ?thesis
    by (intro runs_okI [OF _ ok])
      (use v2 run w1 w2 in \<open>auto simp: finish_turn_runs storeRun_runs fun_upd_idem_iff split: if_splits\<close>)
qed

definition turn_found :: "turn_ended \<Rightarrow> world \<Rightarrow> agent_record \<Rightarrow> run option" where
  "turn_found f w r = (case te_nativeTurnId f of None \<Rightarrow> activeRunOf w r | Some n \<Rightarrow> matchingRun w r n)"

lemma turn_found_stored:
  assumes "run_ok (get (st_runs w)) v" "turn_found f w r = Some run"
  shows "get (st_runs w) (run_id run) = Some run"
  using assms run_okD(1) [OF assms(1)]
  by (auto simp: turn_found_def activeRunOf_def matchingRun_def bind_Some_iff split: option.splits)

lemma turn_found_active:
  assumes inv: "run_inv gen w" and r: "get (st_agents w) k = Some r"
    and found: "turn_found f w r = Some run" "is_active run"
  shows "ar_activeRun r = Some (run_id run)" and "activeRunOf w r = Some run"
proof -
  have ok: "run_ok (get (st_runs w)) (run_view w)" and own: "own_ids (run_view w)"
    using inv own_ids_run_view by (auto simp: run_inv_def runs_ok_def)
  have v: "run_view w k = Some (a_id (ar_agent r), ar_activeRun r, ar_nativeRuns r)"
    using r by (simp add: run_view_def sight_def)
  show act: "ar_activeRun r = Some (run_id run)"
  proof (cases "te_nativeTurnId f")
    case None
    with found(1) run_okD(1) [OF ok] show ?thesis by (auto simp: turn_found_def activeRunOf_def bind_Some_iff)
  next
    case (Some n)
    with found(1) obtain i where i: "get (ar_nativeRuns r) n = Some i" "get (st_runs w) i = Some run"
      by (auto simp: turn_found_def matchingRun_def bind_Some_iff)
    from run_ok_native_active [OF ok own v i found(2)] run_okD(1) [OF ok i(2)] show ?thesis by simp
  qed
  show "activeRunOf w r = Some run"
    using turn_found_stored [OF ok found(1)] act by (simp add: activeRunOf_def)
qed

lemma endTurn_eq:
  assumes "w = ensureAgent ctx (te_agent f) w0" "get (st_agents w) (te_agent f) = Some r"
  shows "endTurn f ctx w0 = (case turn_found f w r of
      Some run \<Rightarrow> if \<not> is_active run then retrigger f ctx run w
        else finish_turn f ctx r run (case activeRunOf w r of None \<Rightarrow> False | Some a \<Rightarrow> run_id a \<noteq> run_id run) w
    | None \<Rightarrow> if te_nativeTurnId f = None \<and> ar_lastRun r \<noteq> None then w
        else let (runId, w1) = next_id ctx Id_run w;
               run = new_run ctx w1 runId (a_id (ar_agent r)) (given (te_trigger f) Tr_unknown) (te_nativeTurnId f);
               w2 = emit (Run_started run) ((storeRun (te_agent f) run w1)\<lparr>st_hasRun := True\<rparr>)
             in finish_turn f ctx r run ((te_historical f \<and> ar_lastRun r \<noteq> None) \<or>
                  (case activeRunOf w r of None \<Rightarrow> False | Some a \<Rightarrow> run_id a \<noteq> runId)) w2)"
  using assms(2) unfolding endTurn_def assms(1) [symmetric] Let_def turn_found_def [symmetric]
  by (cases "turn_found f w r") simp_all

text \<open>The branches of \<open>endTurn\<close> on a consistent state.\<close>

lemma endTurn_cases:
  assumes inv: "run_inv (ids ctx) w" and src: "id_source (ids ctx)" and w: "w = ensureAgent ctx (te_agent f) w0"
    and r: "get (st_agents w) (te_agent f) = Some r"
  obtains (stale) run where "turn_found f w r = Some run" "\<not> is_active run" "endTurn f ctx w0 = retrigger f ctx run w"
  | (finish) run where "turn_found f w r = Some run" "is_active run" "endTurn f ctx w0 = finish_turn f ctx r run False w"
  | (none) "turn_found f w r = None" "te_nativeTurnId f = None" "endTurn f ctx w0 = w"
  | (fresh) run w1 keep where "turn_found f w r = None" "w1 = snd (next_id ctx Id_run w)"
      "run = new_run ctx w1 (ids ctx Id_run (w_seq w)) (a_id (ar_agent r)) (given (te_trigger f) Tr_unknown) (te_nativeTurnId f)"
      "\<not> keep \<Longrightarrow> activeRunOf w r = None"
      "endTurn f ctx w0 = finish_turn f ctx r run keep
         (emit (Run_started run) ((storeRun (te_agent f) run w1)\<lparr>st_hasRun := True\<rparr>))"
proof (cases "turn_found f w r")
  case (Some run)
  show ?thesis
  proof (cases "is_active run")
    case True
    from turn_found_active [OF inv r Some True] have "activeRunOf w r = Some run" by simp
    with Some True r show ?thesis
      by (intro finish [OF Some True]) (simp add: endTurn_eq [OF w])
  next
    case False
    with Some r show ?thesis
      by (intro stale [OF Some False]) (simp add: endTurn_eq [OF w])
  qed
next
  case None
  have stored: "get (st_runs w) i = Some s \<Longrightarrow> run_id s = i" for i s
    using inv run_okD(1) by (auto simp: run_inv_def runs_ok_def)
  show ?thesis
  proof (cases "te_nativeTurnId f = None \<and> ar_lastRun r \<noteq> None")
    case True
    with None r show ?thesis
      by (intro none) (simp_all add: endTurn_eq [OF w])
  next
    case False
    let ?i = "ids ctx Id_run (w_seq w)"
    let ?keep = "(te_historical f \<and> ar_lastRun r \<noteq> None) \<or> (case activeRunOf w r of None \<Rightarrow> False | Some a \<Rightarrow> run_id a \<noteq> ?i)"
    show ?thesis
    proof (cases "\<not> ?keep \<and> activeRunOf w r \<noteq> None")
      case True
      then obtain a where "activeRunOf w r = Some a" "run_id a = ?i" by auto
      with stored have "get (st_runs w) ?i = Some a" by (auto simp: activeRunOf_def bind_Some_iff)
      with inv fresh_run [OF _ src] show ?thesis by (simp add: run_inv_def)
    next
      case keep: False
      show ?thesis
      proof (rule fresh [where keep = ?keep])
        show "endTurn f ctx w0 = finish_turn f ctx r (new_run ctx (snd (next_id ctx Id_run w)) ?i (a_id (ar_agent r))
            (given (te_trigger f) Tr_unknown) (te_nativeTurnId f)) ?keep
            (emit (Run_started (new_run ctx (snd (next_id ctx Id_run w)) ?i (a_id (ar_agent r))
              (given (te_trigger f) Tr_unknown) (te_nativeTurnId f)))
            ((storeRun (te_agent f) (new_run ctx (snd (next_id ctx Id_run w)) ?i (a_id (ar_agent r))
              (given (te_trigger f) Tr_unknown) (te_nativeTurnId f)) (snd (next_id ctx Id_run w)))\<lparr>st_hasRun := True\<rparr>))"
          using None r False by (auto simp: endTurn_eq [OF w] Let_def next_id_def)
      qed (use None keep in auto)
    qed
  qed
qed

lemma run_inv_ensureAgent:
  assumes "id_source (ids ctx)" "run_inv (ids ctx) w"
  shows "run_inv (ids ctx) (ensureAgent ctx k w)"
  using assms tree_inv_ensureAgent runs_ok_frame [OF run_frame_tree_step [OF tree_step_ensureAgent]]
  by (auto simp: run_inv_def)

lemma ensureAgent_record: "\<exists>r. get (st_agents (ensureAgent ctx k w)) k = Some r"
  using has_ensureAgent [of ctx k w k] by (auto simp: has_def)

lemma new_run_fields [simp]:
  "run_id (new_run ctx s i a tr n) = i" "run_agentId (new_run ctx s i a tr n) = a"
  "run_nativeId (new_run ctx s i a tr n) = n" "run_state (new_run ctx s i a tr n) = Run_active"
  by (simp_all add: new_run_def)

lemma next_id_world:
  "snd (next_id ctx kd w) = w\<lparr>w_seq := Suc (w_seq w)\<rparr>"
  by (simp add: next_id_def)

lemma same_tree_next_id: "same_tree w (snd (next_id ctx kd w))"
  by (simp add: next_id_world same_tree_def tv_def fun_eq_iff)

lemma same_tree_hasRun: "same_tree w (w\<lparr>st_hasRun := b\<rparr>)"
  by (simp add: same_tree_def tv_def fun_eq_iff)

lemma endTurn_inv:
  assumes src: "id_source (ids ctx)" and inv: "run_inv (ids ctx) w0"
  shows "run_inv (ids ctx) (endTurn f ctx w0)"
proof -
  define w where "w = ensureAgent ctx (te_agent f) w0"
  have winv: "run_inv (ids ctx) w" unfolding w_def by (rule run_inv_ensureAgent [OF src inv])
  obtain r where r: "get (st_agents w) (te_agent f) = Some r" using ensureAgent_record unfolding w_def by blast
  have tree: "tree_inv (ids ctx) w" and ok: "run_ok (get (st_runs w)) (run_view w)"
    using winv by (auto simp: run_inv_def runs_ok_def)
  note inv_step = tree_inv_same [OF _ tree]
  show ?thesis
  proof (rule endTurn_cases [OF winv src w_def r], goal_cases)
    case (1 run)
    have "runs_ok (ids ctx) (retrigger f ctx run w)"
      using winv turn_found_stored [OF ok 1(1)] 1(2) by (intro retrigger_runs_ok) (auto simp: run_inv_def)
    with 1(3) inv_step [OF same_tree_retrigger] show ?thesis by (simp add: run_inv_def)
  next
    case (2 run)
    have "runs_ok (ids ctx) (finish_turn f ctx r run False w)"
      using winv r turn_found_stored [OF ok 2(1)] 2(2) turn_found_active(1) [OF winv r 2(1,2)]
      by (rule finish_active_runs_ok)
    with 2(3) inv_step [OF finish_turn_tree] show ?thesis by (simp add: run_inv_def)
  next
    case 3
    with winv show ?thesis by simp
  next
    case (4 run w1 keep)
    let ?w2 = "emit (Run_started run) ((storeRun (te_agent f) run w1)\<lparr>st_hasRun := True\<rparr>)"
    have "same_tree w ?w2"
      unfolding 4(2)
      by (rule same_tree_trans [OF same_tree_trans [OF same_tree_trans [OF same_tree_next_id storeRun_tree] same_tree_hasRun] same_tree_emit])
    then have t: "same_tree w (finish_turn f ctx r run keep ?w2)" by (rule same_tree_trans [OF _ finish_turn_tree])
    have "runs_ok (ids ctx) (finish_turn f ctx r run keep ?w2)"
    proof (rule finish_fresh_runs_ok [OF winv src r])
      show "matchingRun w r n = None" if "run_nativeId run = Some n" for n
        using that 4(1) by (simp add: 4(3) turn_found_def)
      show "ar_activeRun r = None" if "\<not> keep" using 4(4) [OF that] activeRunOf_None_iff [OF ok r] by simp
      show "st_runs w1 = st_runs w" "run_view w1 = run_view w" "get (st_agents w1) (te_agent f) = Some r"
        "w_seq w1 = Suc (w_seq w)"
        using r by (simp_all add: 4(2) next_id_world run_view_def fun_eq_iff)
    qed (simp_all add: 4(3))
    with 4(5) inv_step [OF t] show ?thesis by (simp add: run_inv_def)
  qed
qed

subsection \<open>startTurn\<close>

lemma fold_emits: "\<exists>es. fold (\<lambda>a w. if P a then w else emit (E a) w) xs w = w\<lparr>w_events := es\<rparr>"
proof (induction xs arbitrary: w)
  case Nil
  show ?case by (intro exI [of _ "w_events w"]) simp
next
  case (Cons x xs)
  from Cons [of "if P x then w else emit (E x) w"] show ?case by (auto simp: emit_def)
qed

lemma announceAgentBranch_emits: "\<exists>es. announceAgentBranch k w = w\<lparr>w_events := es\<rparr>"
  unfolding announceAgentBranch_def Let_def by (rule fold_emits)

lemma announceAgentBranch_frame [simp]:
  "st_agents (announceAgentBranch k w) = st_agents w" "st_runs (announceAgentBranch k w) = st_runs w"
  "st_items (announceAgentBranch k w) = st_items w" "st_interactions (announceAgentBranch k w) = st_interactions w"
  "st_tasks (announceAgentBranch k w) = st_tasks w" "st_indexes (announceAgentBranch k w) = st_indexes w"
  "st_rootKey (announceAgentBranch k w) = st_rootKey w" "w_seq (announceAgentBranch k w) = w_seq w"
  "st_uncertainTasks (announceAgentBranch k w) = st_uncertainTasks w" "st_config (announceAgentBranch k w) = st_config w"
  using announceAgentBranch_emits [of k w] by auto

lemma run_inv_same:
  assumes "same_tree w w'" "run_frame w w'" "run_inv gen w"
  shows "run_inv gen w'"
  using assms tree_inv_same runs_ok_frame by (auto simp: run_inv_def)

lemma announceAgentBranch_inv: "run_inv gen w \<Longrightarrow> run_inv gen (announceAgentBranch k w)"
  by (rule run_inv_same [of w]) (auto simp: same_tree_def tv_def run_frame_def run_view_def grows_def fun_eq_iff)

definition interrupt_fact :: "key \<Rightarrow> run \<Rightarrow> turn_ended" where
  "interrupt_fact k a = \<lparr>te_agent = k, te_nativeTurnId = run_nativeId a, te_outcome = Was_interrupted,
     te_endedBy_steer = False, te_trigger = None, te_error = None, te_historical = False\<rparr>"

lemma endTurn_interrupts:
  assumes inv: "run_inv (ids ctx) w" and src: "id_source (ids ctx)" and r: "get (st_agents w) k = Some r"
    and act: "activeRunOf w r = Some a"
  shows "endTurn (interrupt_fact k a) ctx w = finish_turn (interrupt_fact k a) ctx r a False w"
proof -
  have ok: "run_ok (get (st_runs w)) (run_view w)" using inv by (simp add: run_inv_def runs_ok_def)
  have w: "w = ensureAgent ctx (te_agent (interrupt_fact k a)) w"
    using r by (simp add: interrupt_fact_def has_def)
  from act obtain i where i: "ar_activeRun r = Some i" "get (st_runs w) i = Some a" by (auto simp: activeRunOf_def bind_Some_iff)
  have "run_view w k = Some (a_id (ar_agent r), Some i, ar_nativeRuns r)" using r i by (simp add: run_view_def sight_def)
  from run_okD(2) [OF ok this] i have a: "is_active a" "\<And>n. run_nativeId a = Some n \<Longrightarrow> get (ar_nativeRuns r) n = Some i" by auto
  have "turn_found (interrupt_fact k a) w r = Some a"
    using act a(2) i by (auto simp: turn_found_def interrupt_fact_def matchingRun_def split: option.splits)
  moreover have "get (st_agents w) (te_agent (interrupt_fact k a)) = Some r" using r by (simp add: interrupt_fact_def)
  ultimately show ?thesis using endTurn_eq [OF w] act a(1) by simp
qed

lemma start_run_inv:
  assumes src: "id_source (ids ctx)" and inv: "run_inv (ids ctx) w" and r: "get (st_agents w) k = Some r"
    and act: "ar_activeRun r = None" and new: "\<And>n. run_nativeId run = Some n \<Longrightarrow> get (ar_nativeRuns r) n = None"
    and run: "run_id run = ids ctx Id_run (w_seq w)" "run_agentId run = a_id (ar_agent r)" "is_active run"
    and f: "\<And>r. view (f r) = view r" "\<And>r. sight (f r) = (a_id (ar_agent r), Some (run_id run), ar_nativeRuns r)"
  shows "run_inv (ids ctx) (upd_agent k f (storeRun k run (snd (next_id ctx Id_run w))))"
proof -
  let ?w1 = "snd (next_id ctx Id_run w)"
  let ?w = "upd_agent k f (storeRun k run ?w1)"
  let ?ns = "case run_nativeId run of None \<Rightarrow> ar_nativeRuns r | Some n \<Rightarrow> put (ar_nativeRuns r) n (run_id run)"
  have ok: "runs_ok (ids ctx) w" and rok: "run_ok (get (st_runs w)) (run_view w)" using inv by (simp_all add: run_inv_def runs_ok_def)
  have v: "run_view w k = Some (a_id (ar_agent r), None, ar_nativeRuns r)"
    using r act by (simp add: run_view_def sight_def)
  have r1: "get (st_agents ?w1) k = Some r" and v1: "run_view ?w1 = run_view w"
    using r by (simp_all add: next_id_world run_view_def fun_eq_iff)
  have sv: "run_view (storeRun k run ?w1) k = Some (a_id (ar_agent r), None, ?ns)"
    using storeRun_view [OF r1, of run] act by simp
  then obtain r2 where r2: "get (st_agents (storeRun k run ?w1)) k = Some r2" "sight r2 = (a_id (ar_agent r), None, ?ns)"
    unfolding run_view_def by blast
  then have "run_view ?w k = Some (a_id (ar_agent r), Some (run_id run), ?ns)"
    by (simp add: run_view_upd f(2)) (simp add: sight_def)
  then have view: "run_view ?w = (run_view w)(k \<mapsto> (a_id (ar_agent r), Some (run_id run), ?ns))"
    using storeRun_view [OF r1, of run] v1 by (auto simp: run_view_upd fun_eq_iff)
  have "run_ok ((get (st_runs w))(run_id run \<mapsto> run)) ((run_view w)(k \<mapsto> (a_id (ar_agent r), Some (run_id run), ?ns)))"
    using rok fresh_run [OF ok src] run new v act
    by (intro run_ok_fresh [where r' = run and act = None and ns = "ar_nativeRuns r"]) auto
  then have "runs_ok (ids ctx) ?w"
    by (intro runs_okI [OF _ ok]) (use view run in \<open>auto simp: storeRun_runs next_id_world split: if_splits\<close>)
  moreover have "same_tree w ?w"
    by (rule same_tree_trans [OF same_tree_trans [OF same_tree_next_id storeRun_tree] same_tree_upd_agent]) (rule f(1))
  ultimately show ?thesis using inv tree_inv_same by (auto simp: run_inv_def)
qed

definition starts_nothing :: "turn_started \<Rightarrow> world \<Rightarrow> agent_record \<Rightarrow> bool" where
  "starts_nothing f w r \<longleftrightarrow> (case ts_nativeTurnId f of None \<Rightarrow> activeRunOf w r \<noteq> None | Some n \<Rightarrow> matchingRun w r n \<noteq> None)"

definition mark_started :: "ident \<Rightarrow> agent_record \<Rightarrow> agent_record" where
  "mark_started i r = r\<lparr>ar_activeRun := Some i, ar_processSettledStatus := None,
     ar_activity := Starting_turn, ar_detail := None, ar_wakeUntil := None, ar_retry := None\<rparr>"

definition started_run :: "turn_started \<Rightarrow> apply_context \<Rightarrow> agent_record \<Rightarrow> world \<Rightarrow> run" where
  "started_run f ctx r w = (new_run ctx (snd (next_id ctx Id_run w)) (ids ctx Id_run (w_seq w)) (a_id (ar_agent r))
       (ts_trigger f) (ts_nativeTurnId f))
     \<lparr>run_provider := (if ts_permissionMode f = None then None else Some (cfg_provider (st_config w))),
      run_permissionMode := ts_permissionMode f\<rparr>"

definition before_start :: "turn_started \<Rightarrow> apply_context \<Rightarrow> agent_record \<Rightarrow> world \<Rightarrow> world" where
  "before_start f ctx r w =
     (let w1 = (if activeRunOf w r = None \<and> ar_lastRun r \<noteq> None then announceAgentBranch (ts_agent f) w else w)
      in case activeRunOf w r of None \<Rightarrow> w1 | Some a \<Rightarrow> endTurn (interrupt_fact (ts_agent f) a) ctx w1)"

lemma startTurn_eq:
  assumes "w = ensureAgent ctx (ts_agent f) w0" "get (st_agents w) (ts_agent f) = Some r"
  shows "startTurn f ctx w0 = (if starts_nothing f w r then w
    else let w2 = before_start f ctx r w; run = started_run f ctx r w2 in
      emit (Run_started run) ((upd_agent (ts_agent f) (mark_started (run_id run))
        (storeRun (ts_agent f) run (snd (next_id ctx Id_run w2))))\<lparr>st_hasRun := True\<rparr>))"
  using assms(2) unfolding startTurn_def assms(1) [symmetric] Let_def
  by (auto simp: starts_nothing_def before_start_def started_run_def next_id_def Let_def mark_started_def [abs_def]
      interrupt_fact_def split: option.splits)

lemma before_start_state:
  assumes src: "id_source (ids ctx)" and inv: "run_inv (ids ctx) w" and r: "get (st_agents w) (ts_agent f) = Some r"
  shows "run_inv (ids ctx) (before_start f ctx r w)"
    and "\<exists>r2. get (st_agents (before_start f ctx r w)) (ts_agent f) = Some r2 \<and> ar_activeRun r2 = None \<and>
      a_id (ar_agent r2) = a_id (ar_agent r) \<and> ar_nativeRuns r2 = ar_nativeRuns r"
proof -
  have ok: "run_ok (get (st_runs w)) (run_view w)" using inv by (simp add: run_inv_def runs_ok_def)
  show "run_inv (ids ctx) (before_start f ctx r w)"
    using inv by (auto simp: before_start_def Let_def announceAgentBranch_inv endTurn_inv [OF src] split: option.splits)
  show "\<exists>r2. get (st_agents (before_start f ctx r w)) (ts_agent f) = Some r2 \<and> ar_activeRun r2 = None \<and>
      a_id (ar_agent r2) = a_id (ar_agent r) \<and> ar_nativeRuns r2 = ar_nativeRuns r"
  proof (cases "activeRunOf w r")
    case None
    with activeRunOf_None_iff [OF ok r] r show ?thesis by (auto simp: before_start_def)
  next
    case (Some a)
    let ?f = "interrupt_fact (ts_agent f) a"
    have "before_start f ctx r w = finish_turn ?f ctx r a False w"
      using Some endTurn_interrupts [OF inv src r Some] by (simp add: before_start_def)
    moreover have "run_view (finish_turn ?f ctx r a False w) (ts_agent f) = Some (a_id (ar_agent r), None, ar_nativeRuns r)"
      using r by (simp add: finish_turn_view interrupt_fact_def)
    ultimately show ?thesis by (auto simp: run_view_def sight_def)
  qed
qed

lemma run_inv_hasRun_emit: "run_inv gen w \<Longrightarrow> run_inv gen (emit e (w\<lparr>st_hasRun := b\<rparr>))"
  by (rule run_inv_same [of w]) (auto simp: same_tree_def tv_def run_frame_def run_view_def grows_def fun_eq_iff)

lemma startTurn_inv:
  assumes src: "id_source (ids ctx)" and inv: "run_inv (ids ctx) w0"
  shows "run_inv (ids ctx) (startTurn f ctx w0)"
proof -
  define w where "w = ensureAgent ctx (ts_agent f) w0"
  have winv: "run_inv (ids ctx) w" unfolding w_def by (rule run_inv_ensureAgent [OF src inv])
  obtain r where r: "get (st_agents w) (ts_agent f) = Some r" using ensureAgent_record unfolding w_def by blast
  show ?thesis
  proof (cases "starts_nothing f w r")
    case True
    with winv show ?thesis by (simp add: startTurn_eq [OF w_def r])
  next
    case False
    let ?w2 = "before_start f ctx r w" and ?k = "ts_agent f"
    let ?run = "started_run f ctx r ?w2"
    obtain r2 where r2: "get (st_agents ?w2) ?k = Some r2" "ar_activeRun r2 = None"
      "a_id (ar_agent r2) = a_id (ar_agent r)" "ar_nativeRuns r2 = ar_nativeRuns r"
      using before_start_state(2) [OF src winv r] by blast
    have "get (ar_nativeRuns r2) n = None" if "run_nativeId ?run = Some n" for n
      using that matchingRun_None [OF _ r, of n] winv False
      by (auto simp: started_run_def starts_nothing_def r2(4) run_inv_def runs_ok_def)
    then have "run_inv (ids ctx) (upd_agent ?k (mark_started (run_id ?run)) (storeRun ?k ?run (snd (next_id ctx Id_run ?w2))))"
      by (intro start_run_inv [OF src before_start_state(1) [OF src winv r] r2(1,2)])
        (simp_all add: started_run_def r2(3) mark_started_def view_def sight_def)
    with False show ?thesis
      by (simp add: startTurn_eq [OF w_def r] Let_def run_inv_hasRun_emit)
  qed
qed

text \<open>A replayed turn boundary is harmless. When the agent has already seen the native turn id,
  a \<open>turn.started\<close> fact changes no state, draws no identity and emits no event, whatever the
  state of the run it names.\<close>

theorem startTurn_replay:
  assumes "get (st_agents w) (ts_agent f) = Some r" "ts_nativeTurnId f = Some n" "matchingRun w r n \<noteq> None"
  shows "startTurn f ctx w = w"
proof -
  have w: "w = ensureAgent ctx (ts_agent f) w" using assms(1) by (simp add: has_def)
  show ?thesis using startTurn_eq [OF w assms(1)] assms by (simp add: starts_nothing_def)
qed

subsection \<open>Process exit\<close>

lemma next_order_keeps [simp]:
  "st_runs (next_order k f w) = st_runs w" "st_indexes (next_order k f w) = st_indexes w"
  "st_rootKey (next_order k f w) = st_rootKey w" "w_seq (next_order k f w) = w_seq w"
  by (simp_all add: next_order_def Let_def)

lemma exit_agent_runs:
  "get (st_runs (exit_agent d m t k w)) = (case Option.bind (get (st_agents w) k) (\<lambda>r.
       if ar_externalStatus r \<noteq> None then None else activeRunOf w r) of None \<Rightarrow> get (st_runs w)
     | Some run \<Rightarrow> (get (st_runs w))(run_id run \<mapsto>
         run\<lparr>run_state := (if d then Run_interrupted else Run_failed), run_endedAt := Some t\<rparr>))"
  by (auto simp: exit_agent_def end_run_on_exit_def Let_def activeRunOf_def runs_get_put_run fun_eq_iff
      split: option.splits)

lemma exit_agent_seq [simp]: "w_seq (exit_agent d m t k w) = w_seq w"
  by (auto simp: exit_agent_def end_run_on_exit_def Let_def split: option.splits)

lemma exit_agent_indexes [simp]:
  "st_indexes (exit_agent d m t k w) = st_indexes w" "st_rootKey (exit_agent d m t k w) = st_rootKey w"
  by (auto simp: exit_agent_def end_run_on_exit_def Let_def split: option.splits)

lemma exit_agent_tree: "same_tree w (exit_agent d m t k w)"
proof -
  have "tv (exit_agent d m t k w) k' = tv w k'" for k'
  proof (cases "k' = k")
    case True
    show ?thesis
    proof (cases "get (st_agents w) k")
      case None
      then show ?thesis by (simp add: exit_agent_def)
    next
      case (Some r)
      with exit_agent_record(2) [OF Some, of d m t] True show ?thesis by (auto simp: tv_def)
    qed
  qed (simp add: tv_def exit_agent_record(1))
  then show ?thesis by (intro same_tree_agents) (simp_all add: fun_eq_iff)
qed

lemma exit_agent_view:
  assumes "get (st_agents w) k = Some r"
  shows "run_view (exit_agent d m t k w) = (run_view w)(k \<mapsto>
    (a_id (ar_agent r), if ar_externalStatus r = None then None else ar_activeRun r, ar_nativeRuns r))"
  using exit_agent_record(2) [OF assms, of d m t]
  by (auto simp: run_view_def fun_eq_iff exit_agent_record(1) sight_def view_def)

lemma exit_agent_inv:
  assumes inv: "run_inv gen w"
  shows "run_inv gen (exit_agent d m t k w)"
proof (cases "get (st_agents w) k")
  case None
  with inv show ?thesis by (simp add: exit_agent_def)
next
  case (Some r)
  let ?w = "exit_agent d m t k w"
  have ok: "runs_ok gen w" and rok: "run_ok (get (st_runs w)) (run_view w)" and own: "own_ids (run_view w)"
    using inv own_ids_run_view by (auto simp: run_inv_def runs_ok_def)
  have v: "run_view w k = Some (a_id (ar_agent r), ar_activeRun r, ar_nativeRuns r)"
    using Some by (simp add: run_view_def sight_def)
  have "runs_ok gen ?w"
  proof (cases "ar_externalStatus r = None \<and> ar_activeRun r \<noteq> None")
    case True
    then obtain i where i: "ar_activeRun r = Some i" and ext: "ar_externalStatus r = None" by blast
    from run_okD(2) [OF rok] v i obtain run where run: "get (st_runs w) i = Some run" by force
    let ?run = "run\<lparr>run_state := (if d then Run_interrupted else Run_failed), run_endedAt := Some t\<rparr>"
    have id: "run_id run = i" using run_okD(1) [OF rok run] .
    have "get (st_runs ?w) = (get (st_runs w))(i \<mapsto> ?run)"
      using Some i ext run id by (simp add: exit_agent_runs activeRunOf_def)
    moreover have "run_ok ((get (st_runs w))(i \<mapsto> ?run)) ((run_view w)(k \<mapsto> (a_id (ar_agent r), None, ar_nativeRuns r)))"
      using rok v i run id own by (intro run_ok_settle [where r = run]) auto
    ultimately show ?thesis
      using exit_agent_view [OF Some, of d m t] ext
      by (intro runs_okI [OF _ ok]) (auto simp: run split: if_splits)
  next
    case False
    then have "get (st_runs ?w) = get (st_runs w)" "run_view ?w = run_view w"
      using Some v exit_agent_view [OF Some, of d m t]
      by (auto simp: exit_agent_runs activeRunOf_def fun_eq_iff)
    with ok rok show ?thesis by (intro runs_okI [OF _ ok]) auto
  qed
  with inv tree_inv_same [OF exit_agent_tree] show ?thesis by (auto simp: run_inv_def)
qed

lemma exitProcess_calm_then:
  assumes "st_processExit w = None"
  obtains w5 where "same_tree w w5" "run_frame w w5" "st_agents w5 = st_agents w" "st_runs w5 = st_runs w"
    "exitProcess d m ctx w = fold (exit_agent d m (now ctx)) (okeys (st_agents w5)) w5"
proof -
  define w1 where "w1 = w\<lparr>st_processExit := Some \<lparr>exit_deliberate = d, exit_message = m, exit_unsettled = unsettled_keys w\<rparr>\<rparr>"
  define w2 where "w2 = fold (close_pending Int_expired (now ctx) (\<lambda>_. False)) (pendingInteractionKeys w1 None) w1"
  define w3 where "w3 = fold (lose_task (now ctx)) (runningTaskKeys w2 None) w2"
  define w4 where "w4 = fold (\<lambda>k. cancelTool k (now ctx)) (liveToolKeys w3 None) w3"
  define w5 where "w5 = fold closeText (openTextKeys w4 None) w4"
  have e: "exitProcess d m ctx w = fold (exit_agent d m (now ctx)) (okeys (st_agents w5)) w5"
    using assms by (simp add: exitProcess_def Let_def w5_def w4_def w3_def w2_def w1_def)
  have "calm w1 w5"
    unfolding w5_def w4_def w3_def w2_def
    by (rule calm_trans [OF calm_trans [OF calm_trans [OF calm_fold calm_fold] calm_fold] calm_fold]) (rule calm_steps)+
  moreover have "calm w w1" by (simp add: w1_def calm_def)
  ultimately have c: "calm w w5" by (rule calm_trans [rotated])
  show thesis
    using calm_same_tree [OF c] run_frame_calm [OF c] c e by (intro that [of w5]) (simp_all add: calm_def)
qed

lemma exitProcess_inv:
  assumes "run_inv gen w"
  shows "run_inv gen (exitProcess d m ctx w)"
proof (cases "st_processExit w = None")
  case True
  from exitProcess_calm_then [OF this, of d m ctx] obtain w5 where w5: "same_tree w w5" "run_frame w w5"
    "exitProcess d m ctx w = fold (exit_agent d m (now ctx)) (okeys (st_agents w5)) w5" by metis
  from run_inv_same [OF w5(1,2) assms] show ?thesis
    unfolding w5(3) by (rule fold_invariant_list) (rule exit_agent_inv)
next
  case False
  with assms show ?thesis by (simp add: exitProcess_def)
qed

subsection \<open>Ended runs stay ended\<close>

definition keeps_ended :: "world \<Rightarrow> world \<Rightarrow> bool" where
  "keeps_ended w w' \<longleftrightarrow> (\<forall>i r. get (st_runs w) i = Some r \<and> \<not> is_active r \<longrightarrow>
     (\<exists>r'. get (st_runs w') i = Some r' \<and> run_state r' = run_state r \<and> run_endedAt r' = run_endedAt r \<and>
        run_agentId r' = run_agentId r))"

lemma keeps_ended_same: "st_runs w' = st_runs w \<Longrightarrow> keeps_ended w w'"
  by (simp add: keeps_ended_def)

lemma keeps_ended_trans: "keeps_ended w w' \<Longrightarrow> keeps_ended w' w'' \<Longrightarrow> keeps_ended w w''"
  unfolding keeps_ended_def by metis

lemma keeps_ended_put:
  assumes "get (st_runs w') = (get (st_runs w))(i \<mapsto> r')"
    and "\<And>r. get (st_runs w) i = Some r \<Longrightarrow> \<not> is_active r \<Longrightarrow>
      run_state r' = run_state r \<and> run_endedAt r' = run_endedAt r \<and> run_agentId r' = run_agentId r"
  shows "keeps_ended w w'"
  using assms by (auto simp: keeps_ended_def)

lemma keeps_ended_ensureAgent: "keeps_ended w (ensureAgent ctx k w)"
  using tree_step_ensureAgent [of w ctx k] by (intro keeps_ended_same) (simp add: tree_step_def)

lemma endTurn_keeps_ended:
  assumes src: "id_source (ids ctx)" and inv: "run_inv (ids ctx) w0"
  shows "keeps_ended w0 (endTurn f ctx w0)"
proof -
  define w where "w = ensureAgent ctx (te_agent f) w0"
  have winv: "run_inv (ids ctx) w" unfolding w_def by (rule run_inv_ensureAgent [OF src inv])
  obtain r where r: "get (st_agents w) (te_agent f) = Some r" using ensureAgent_record unfolding w_def by blast
  have ok: "run_ok (get (st_runs w)) (run_view w)" using winv by (auto simp: run_inv_def runs_ok_def)
  have "keeps_ended w (endTurn f ctx w0)"
  proof (rule endTurn_cases [OF winv src w_def r], goal_cases)
    case (1 run)
    then show ?thesis
    proof (cases "retrigger f ctx run w = w")
      case False
      then obtain tr where "get (st_runs (retrigger f ctx run w)) = (get (st_runs w))(run_id run \<mapsto> run\<lparr>run_trigger := tr\<rparr>)"
        by (auto simp: retrigger_def put_run_def fun_eq_iff split: option.splits if_splits)
      with 1 turn_found_stored [OF ok 1(1)] show ?thesis by (intro keeps_ended_put) auto
    qed (simp add: keeps_ended_same)
  next
    case (2 run)
    have stored: "get (st_runs w) (run_id run) = Some run" by (rule turn_found_stored [OF ok 2(1)])
    show ?thesis
      unfolding 2(3) by (rule keeps_ended_put [OF finish_turn_runs]) (use stored 2(2) in auto)
  next
    case 3
    then show ?thesis by (simp add: keeps_ended_same)
  next
    case (4 run w1 keep)
    have runs: "get (st_runs (emit (Run_started run) ((storeRun (te_agent f) run w1)\<lparr>st_hasRun := True\<rparr>))) =
        (get (st_runs w))(run_id run \<mapsto> run)" by (simp add: storeRun_runs 4(2) next_id_world)
    have "get (st_runs w) (run_id run) = None"
      using fresh_run [OF _ src] winv by (simp add: 4(3) run_inv_def)
    then show ?thesis
      unfolding 4(5) keeps_ended_def finish_turn_runs runs by auto
  qed
  then show ?thesis unfolding w_def by (rule keeps_ended_trans [OF keeps_ended_ensureAgent])
qed

lemma startTurn_keeps_ended:
  assumes src: "id_source (ids ctx)" and inv: "run_inv (ids ctx) w0"
  shows "keeps_ended w0 (startTurn f ctx w0)"
proof -
  define w where "w = ensureAgent ctx (ts_agent f) w0"
  have winv: "run_inv (ids ctx) w" unfolding w_def by (rule run_inv_ensureAgent [OF src inv])
  obtain r where r: "get (st_agents w) (ts_agent f) = Some r" using ensureAgent_record unfolding w_def by blast
  let ?w2 = "before_start f ctx r w"
  have 1: "keeps_ended w ?w2"
    unfolding before_start_def Let_def
    using winv endTurn_keeps_ended [OF src] by (auto intro: keeps_ended_same split: option.splits)
  have "get (st_runs ?w2) (run_id (started_run f ctx r ?w2)) = None"
    using fresh_run [OF _ src] before_start_state(1) [OF src winv r] by (simp add: started_run_def run_inv_def)
  then have "keeps_ended ?w2 (startTurn f ctx w0)" if "\<not> starts_nothing f w r"
    by (intro keeps_ended_put [where r' = "started_run f ctx r ?w2" and i = "run_id (started_run f ctx r ?w2)"])
      (auto simp: startTurn_eq [OF w_def r] that Let_def storeRun_runs next_id_world)
  with 1 have "keeps_ended w (startTurn f ctx w0)"
    by (cases "starts_nothing f w r") (auto simp: startTurn_eq [OF w_def r] keeps_ended_same intro: keeps_ended_trans)
  then show ?thesis unfolding w_def by (rule keeps_ended_trans [OF keeps_ended_ensureAgent])
qed

lemma exit_agent_keeps_ended:
  assumes inv: "run_inv gen w"
  shows "keeps_ended w (exit_agent d m t k w)"
proof (cases "Option.bind (get (st_agents w) k) (\<lambda>r. if ar_externalStatus r \<noteq> None then None else activeRunOf w r)")
  case None
  then show ?thesis unfolding keeps_ended_def exit_agent_runs by auto
next
  case (Some run)
  then obtain r i where r: "get (st_agents w) k = Some r" "ar_activeRun r = Some i" "get (st_runs w) i = Some run"
    by (auto simp: activeRunOf_def bind_Some_iff split: if_splits)
  have ok: "run_ok (get (st_runs w)) (run_view w)" using inv by (simp add: run_inv_def runs_ok_def)
  have "run_view w k = Some (a_id (ar_agent r), Some i, ar_nativeRuns r)" using r by (simp add: run_view_def sight_def)
  from run_okD(2) [OF ok this] r have "is_active run" by auto
  with run_okD(1) [OF ok r(3)] r(3) show ?thesis
    unfolding keeps_ended_def exit_agent_runs Some by auto
qed

lemma exitProcess_keeps_ended:
  assumes inv: "run_inv gen w"
  shows "keeps_ended w (exitProcess d m ctx w)"
proof (cases "st_processExit w = None")
  case True
  from exitProcess_calm_then [OF this, of d m ctx] obtain w5 where w5: "same_tree w w5" "run_frame w w5" "st_runs w5 = st_runs w"
    "exitProcess d m ctx w = fold (exit_agent d m (now ctx)) (okeys (st_agents w5)) w5" by metis
  have "run_inv gen (fold (exit_agent d m (now ctx)) ks v) \<and> keeps_ended v (fold (exit_agent d m (now ctx)) ks v)"
    if "run_inv gen v" for ks v
    using that
  proof (induction ks arbitrary: v)
    case (Cons x ks)
    let ?v = "exit_agent d m (now ctx) x v"
    from Cons.IH [OF exit_agent_inv [OF Cons.prems], of d m "now ctx" x]
      keeps_ended_trans [OF exit_agent_keeps_ended [OF Cons.prems, of d m "now ctx" x]] show ?case by simp
  qed (simp add: keeps_ended_same)
  from this [OF run_inv_same [OF w5(1,2) inv]] w5(3) show ?thesis
    unfolding w5(4) by (auto intro: keeps_ended_trans [OF keeps_ended_same])
qed (simp add: exitProcess_def keeps_ended_same)

text \<open>C21: the end of a turn is what the agent record says. A \<open>turn.ended\<close> that names the active
  run of the agent, or no run at all while one is active, ends that run with the reported outcome,
  leaves the agent without an active run, and makes the run its last; the outcome order grows by one.\<close>

theorem endTurn_settles:
  assumes "run_inv (ids ctx) w" "id_source (ids ctx)" "get (st_agents w) (te_agent f) = Some r"
    and "activeRunOf w r = Some run" "te_nativeTurnId f = None \<or> te_nativeTurnId f = run_nativeId run"
  shows "\<exists>run' r'. get (st_runs (endTurn f ctx w)) (run_id run) = Some run' \<and>
    run_state run' = outcome_state (te_outcome f) \<and> run_endedAt run' = Some (now ctx) \<and>
    get (st_agents (endTurn f ctx w)) (te_agent f) = Some r' \<and> ar_activeRun r' = None \<and>
    ar_lastRun r' = Some (run_id run) \<and> ar_lastOutcomeOrder r' = Some (Suc (st_outcomeOrder w))"
proof -
  have ok: "run_ok (get (st_runs w)) (run_view w)" using assms(1) by (simp add: run_inv_def runs_ok_def)
  have w: "w = ensureAgent ctx (te_agent f) w" using assms(3) by (simp add: has_def)
  from assms(4) obtain i where i: "ar_activeRun r = Some i" "get (st_runs w) i = Some run" by (auto simp: activeRunOf_def bind_Some_iff)
  have "run_view w (te_agent f) = Some (a_id (ar_agent r), Some i, ar_nativeRuns r)"
    using assms(3) i by (simp add: run_view_def sight_def)
  from run_okD(2) [OF ok this] i have act: "is_active run" "\<And>n. run_nativeId run = Some n \<Longrightarrow> get (ar_nativeRuns r) n = Some i" by auto
  have "turn_found f w r = Some run"
    using assms(4,5) act(2) i by (auto simp: turn_found_def matchingRun_def split: option.splits)
  with endTurn_eq [OF w assms(3)] assms(4) act(1) have e: "endTurn f ctx w = finish_turn f ctx r run False w" by simp
  have "st_agents (cancelOpenWork a t res v) = st_agents v" for a t res v
    using calm_cancelOpenWork [of v a t res] by (simp add: calm_def)
  then have "st_agents (endTurn f ctx w) = modify (st_agents w) (te_agent f) (settle_record f (run_id run) (Suc (st_outcomeOrder w)))"
    unfolding e by (simp add: finish_turn_def Let_def emit_def put_run_def)
  with assms(3) show ?thesis
    unfolding e by (simp add: finish_turn_runs settle_record_def)
qed

subsection \<open>The live indexes across turns and exit\<close>

lemma work_ok_cong:
  assumes "st_items w' = st_items w" "st_interactions w' = st_interactions w" "st_tasks w' = st_tasks w"
    "st_uncertainTasks w' = st_uncertainTasks w" "st_indexes w' = st_indexes w" "work_ok w"
  shows "work_ok w'"
proof -
  have "tool_live w' = tool_live w" "text_open w' = text_open w" "interaction_live w' = interaction_live w"
    "task_live w' = task_live w" by (simp_all add: fun_eq_iff live_defs assms split: option.splits)
  with assms(5,6) show ?thesis
    by (simp add: work_ok_def tools.consistent_def texts.consistent_def ints.consistent_def bgs.consistent_def)
qed

lemma work_ok_finish_turn: "work_ok w \<Longrightarrow> work_ok (finish_turn f ctx r run keep w)"
proof -
  assume ok: "work_ok w"
  have first: "work_ok (emit e (put_run i r' w))" for e i r' using ok by (rule work_ok_cong [rotated 5]) simp_all
  have "work_ok (upd_agent k g ((emit e (put_run i r' w))\<lparr>st_outcomeOrder := n\<rparr>))" for k g e i r' n
    using ok by (rule work_ok_cong [rotated 5]) simp_all
  then show ?thesis
    unfolding finish_turn_def Let_def by (cases keep) (simp_all only: if_True if_False first work_ok_cancelOpenWork)
qed

lemma work_ok_storeRun: "work_ok w \<Longrightarrow> work_ok (storeRun k run w)"
  by (erule work_ok_cong [rotated 5]) (simp_all add: storeRun_def Let_def split: option.splits)

lemma work_ok_next: "work_ok w \<Longrightarrow> work_ok (snd (next_id ctx kd w))"
  by (erule work_ok_cong [rotated 5]) (simp_all add: next_id_world)

lemma work_ok_hasRun_emit: "work_ok w \<Longrightarrow> work_ok (emit e (w\<lparr>st_hasRun := b\<rparr>))"
  by (erule work_ok_cong [rotated 5]) simp_all

lemma work_ok_retrigger: "work_ok w \<Longrightarrow> work_ok (retrigger f ctx run w)"
  by (erule work_ok_cong [rotated 5]) (simp_all add: retrigger_def split: option.splits)

lemma work_ok_ensureAgent: "work_ok w \<Longrightarrow> work_ok (ensureAgent ctx k w)"
  by (rule work_ok_step [OF tree_step_ensureAgent])

lemma work_ok_upd_agent: "work_ok w \<Longrightarrow> work_ok (upd_agent k f w)"
  by (erule work_ok_cong [rotated 5]) simp_all

lemma endTurn_work_ok:
  assumes "work_ok w0"
  shows "work_ok (endTurn f ctx w0)"
proof -
  define w where "w = ensureAgent ctx (te_agent f) w0"
  obtain r where r: "get (st_agents w) (te_agent f) = Some r" using ensureAgent_record unfolding w_def by blast
  have "work_ok w" using assms by (simp add: w_def work_ok_ensureAgent)
  then show ?thesis
    unfolding endTurn_eq [OF w_def r] Let_def
    by (auto intro!: work_ok_finish_turn work_ok_hasRun_emit work_ok_storeRun work_ok_retrigger
        intro: work_ok_next [unfolded next_id_world] simp: next_id_def split: option.splits)
qed

lemma startTurn_work_ok:
  assumes "work_ok w0"
  shows "work_ok (startTurn f ctx w0)"
proof -
  define w where "w = ensureAgent ctx (ts_agent f) w0"
  obtain r where r: "get (st_agents w) (ts_agent f) = Some r" using ensureAgent_record unfolding w_def by blast
  have w: "work_ok w" using assms by (simp add: w_def work_ok_ensureAgent)
  then have "work_ok (announceAgentBranch k w)" for k by (rule work_ok_cong [rotated 5]) simp_all
  with w have "work_ok (before_start f ctx r w)"
    by (auto simp: before_start_def Let_def intro: endTurn_work_ok split: option.splits)
  with w show ?thesis
    unfolding startTurn_eq [OF w_def r] Let_def
    by (auto intro!: work_ok_hasRun_emit work_ok_upd_agent work_ok_storeRun work_ok_next)
qed

lemma exit_agent_work_ok: "work_ok w \<Longrightarrow> work_ok (exit_agent d m t k w)"
  by (erule work_ok_cong [rotated 5])
    (auto simp: exit_agent_def end_run_on_exit_def next_order_def Let_def split: option.splits)

lemma exitProcess_work_ok:
  assumes "work_ok w"
  shows "work_ok (exitProcess d m ctx w)"
proof -
  have "work_ok (w\<lparr>st_processExit := x\<rparr>)" for x using assms by (rule work_ok_cong [rotated 5]) simp_all
  then show ?thesis
    using assms unfolding exitProcess_def Let_def
    by (auto intro!: work_ok_fold exit_agent_work_ok work_ok_steps)
qed

subsection \<open>Examples\<close>

lemma run_inv_example_world: "run_inv counter_ids example_world"
proof -
  have "st_agents example_world = []" "st_runs example_world = []" "st_indexes example_world = no_indexes"
    "st_rootKey example_world = None"
    by (simp_all add: example_world_def world_of_def createThreadState_def example_config_def thread_state.defs)
  then show ?thesis
    by (auto simp: run_inv_def tree_inv_def tree_ok_def runs_ok_def run_ok_def ids_below_def tv_def by_id_def
        child_of_def childKeys_def no_indexes_def run_view_def edges_def acyclic_def)
qed

definition example_start :: turn_started where
  "example_start = \<lparr>ts_agent = ''a'', ts_nativeTurnId = Some ''t1'', ts_trigger = Tr_unknown, ts_permissionMode = None\<rparr>"

definition example_end :: turn_ended where
  "example_end = \<lparr>te_agent = ''a'', te_nativeTurnId = Some ''t1'', te_outcome = Completed, te_endedBy_steer = False,
     te_trigger = None, te_error = None, te_historical = False\<rparr>"

definition example_running :: world where
  "example_running = startTurn example_start (example_ctx 5) example_world"

lemma example_running_state:
  "case get (st_agents example_running) ''a'' of None \<Rightarrow> False | Some r \<Rightarrow>
     (case activeRunOf example_running r of None \<Rightarrow> False | Some run \<Rightarrow>
        run_nativeId run = Some ''t1'' \<and> matchingRun example_running r ''t1'' \<noteq> None)"
  by code_simp

theorem startTurn_replay_witness:
  "startTurn example_start (example_ctx 8) example_running = example_running"
proof -
  obtain r where r: "get (st_agents example_running) ''a'' = Some r" "matchingRun example_running r ''t1'' \<noteq> None"
    using example_running_state by (auto split: option.splits)
  show ?thesis
    by (rule startTurn_replay [of _ _ r "''t1''"]) (use r in \<open>simp_all add: example_start_def\<close>)
qed

theorem endTurn_settles_witness:
  "\<exists>r run. get (st_agents example_running) ''a'' = Some r \<and> activeRunOf example_running r = Some run \<and>
    (\<exists>run' r'. get (st_runs (endTurn example_end (example_ctx 9) example_running)) (run_id run) = Some run' \<and>
      run_state run' = Run_completed \<and> run_endedAt run' = Some 9 \<and>
      get (st_agents (endTurn example_end (example_ctx 9) example_running)) ''a'' = Some r' \<and> ar_activeRun r' = None \<and>
      ar_lastRun r' = Some (run_id run) \<and> ar_lastOutcomeOrder r' = Some (Suc (st_outcomeOrder example_running)))"
proof -
  obtain r run where r: "get (st_agents example_running) ''a'' = Some r" "activeRunOf example_running r = Some run"
    "run_nativeId run = Some ''t1''"
    using example_running_state by (auto split: option.splits)
  have c: "ids (example_ctx t) = counter_ids" "now (example_ctx t) = t" for t by (simp_all add: example_ctx_def)
  have "run_inv counter_ids example_running"
    using startTurn_inv [of "example_ctx 5" example_world example_start] run_inv_example_world counter.id_source_axioms
    by (simp add: example_running_def c)
  then show ?thesis
    using endTurn_settles [of "example_ctx 9" example_running example_end r run] r counter.id_source_axioms
    by (auto simp: c example_end_def)
qed

end
