(* ===== verification/Core_Entities.thy ===== *)
theory Core_Entities
  imports Core_Runs_Inv Ace_Tools
begin

text \<open>
  Interactions and background tasks (src/packages/core/src/entities.ts): opening and closing an
  interaction, starting, refining and ending background work. An interaction closes once, and work
  that is re-announced is refined, never restarted.
\<close>

subsection \<open>Interactions\<close>

definition ask_user_draft :: item_draft where
  "ask_user_draft = \<lparr>dr_complete = None, dr_body = D_tool_call (Some (no_call\<lparr>
     cd_kind := Some K_ask_user, cd_title := Some ''Awaiting input'', cd_status := Some T_awaiting_approval,
     cd_detail := Some \<lparr>dd_kind = Some K_ask_user, dd_output = None, dd_childAgent = None,
       dd_targetAgent = None, dd_rest = []\<rparr>\<rparr>)), dr_raw = None, dr_rest = []\<rparr>"

text \<open>\<open>get(state.items, key) ?? upsertItem(...)\<close>, for a key the fact may leave out.\<close>

definition ensure_item :: "apply_context \<Rightarrow> key \<Rightarrow> key option \<Rightarrow> item_draft \<Rightarrow> world \<Rightarrow> world option" where
  "ensure_item ctx agentKey itemKey draft w = (case itemKey of None \<Rightarrow> Some w
     | Some k \<Rightarrow> (case get (st_items w) k of
         Some _ \<Rightarrow> Some w
       | None \<Rightarrow> upsertItem ctx agentKey k draft w))"

definition item_at :: "key option \<Rightarrow> 'a state \<Rightarrow> item option" where
  "item_at itemKey s = Option.bind itemKey (get (st_items s))"

definition openInteraction :: "interaction_opened \<Rightarrow> apply_context \<Rightarrow> world \<Rightarrow> world option" where
  "openInteraction f ctx w = do {
     let redacted = redactAceApproval (io_request f);
     rest \<leftarrow> request_schema ctx redacted;
     let request = redacted\<lparr>req_rest := rest\<rparr>;
     let raw = (if private_approval (io_request f) = None then given (io_raw f) [] else private_raw);
     if (case get (st_interactions w) (io_interaction f) of None \<Rightarrow> False | Some p \<Rightarrow> int_state p = Int_pending)
     then Some w
     else do {
       let w1 = (case get (st_interactions w) (io_interaction f) of None \<Rightarrow> w
         | Some p \<Rightarrow> w\<lparr>st_interactionHistory := put (st_interactionHistory w) (int_id p) p\<rparr>);
       let w2 = ensureAgent ctx (io_agent f) w1;
       agent \<leftarrow> agent_of w2 (io_agent f);
       w3 \<leftarrow> ensure_item ctx (io_agent f) (io_item f) ask_user_draft w2;
       let (intId, w4) = next_id ctx Id_interaction w3;
       let interaction = \<lparr>int_id = intId, int_threadId = st_threadId w4, int_agentId = a_id agent,
         int_toolCallId = map_option item_id (item_at (io_item f) w4), int_blocking = io_blocking f,
         int_request = request, int_state = Int_pending, int_resolution = None, int_resolvedBy = None,
         int_autoReviewed = None, int_createdAt = now ctx, int_closedAt = None, int_raw = raw\<rparr>;
       Some (emit (Interaction_opened interaction)
         (refreshInteractionIndex (io_interaction f) (put_interaction (io_interaction f) interaction w4)))
     }
   }"

fun closed_state :: "close_state \<Rightarrow> interaction_state" where
  "closed_state Cl_resolved = Int_resolved"
| "closed_state Cl_cancelled = Int_cancelled"
| "closed_state Cl_expired = Int_expired"

definition closeInteraction :: "interaction_closed \<Rightarrow> apply_context \<Rightarrow> world \<Rightarrow> world" where
  "closeInteraction f ctx w = (case get (st_interactions w) (ic_interaction f) of
       None \<Rightarrow> w
     | Some i \<Rightarrow>
         if int_state i \<noteq> Int_pending then w
         else
           let i' = i\<lparr>int_state := closed_state (ic_state f), int_closedAt := Some (now ctx),
                 int_resolution := orelse (ic_resolution f) (int_resolution i),
                 int_resolvedBy := orelse (ic_resolvedBy f) (int_resolvedBy i),
                 int_autoReviewed := orelse (ic_autoReviewed f) (int_autoReviewed i)\<rparr>
           in emit (Interaction_closed (int_id i) (closed_state (ic_state f)) (now ctx) (ic_resolution f)
                  (ic_resolvedBy f) (ic_autoReviewed f))
                (refreshInteractionIndex (ic_interaction f) (put_interaction (ic_interaction f) i' w)))"

subsection \<open>Background tasks\<close>

text \<open>The link the owner of a task has with the child it runs.\<close>

definition link_child :: "background_started \<Rightarrow> apply_context \<Rightarrow> world \<Rightarrow> world option" where
  "link_child f ctx w = (case bs_childAgent f of None \<Rightarrow> Some w
     | Some child \<Rightarrow> linkAgent ctx \<lparr>lnk_agent = child, lnk_parent = Some (bs_agent f), lnk_spawnedBy = bs_item f,
         lnk_background = None, lnk_name = None, lnk_model = None\<rparr> w)"

text \<open>\<open>item.call.backgroundTaskId = task.id\<close> and the event, when the item is a tool call.\<close>

definition mark_background :: "key option \<Rightarrow> ident \<Rightarrow> world \<Rightarrow> world" where
  "mark_background itemKey taskId w = (case itemKey of None \<Rightarrow> w
     | Some k \<Rightarrow> (case get (st_items w) k of None \<Rightarrow> w
         | Some item \<Rightarrow> (case item_body item of
             Tool_call c \<Rightarrow>
               let item' = item\<lparr>item_body := Tool_call (c\<lparr>call_backgroundTaskId := Some taskId\<rparr>)\<rparr>
               in emit (Item_updated item') (put_item k item' w)
           | _ \<Rightarrow> w)))"

definition is_call :: "item option \<Rightarrow> bool" where
  "is_call i = (case i of None \<Rightarrow> False | Some item \<Rightarrow> (case item_body item of Tool_call _ \<Rightarrow> True | _ \<Rightarrow> False))"

definition names_path :: "background_started \<Rightarrow> background_task \<Rightarrow> bool" where
  "names_path f task \<longleftrightarrow> task_outputPath task = None \<and> bs_outputPath f \<noteq> None"

definition stops_waking :: "background_started \<Rightarrow> background_task \<Rightarrow> bool" where
  "stops_waking f task \<longleftrightarrow> \<not> task_wakesAgent_false task \<and> bs_wakesAgent_false f"

definition refined_task :: "background_started \<Rightarrow> ident \<Rightarrow> ident option \<Rightarrow> ident option \<Rightarrow> background_task \<Rightarrow> background_task" where
  "refined_task f agentId child toolCall task = task\<lparr>task_agentId := agentId, task_childAgentId := child,
     task_toolCallId := toolCall,
     task_outputPath := (if names_path f task then bs_outputPath f else task_outputPath task),
     task_wakesAgent_false := (task_wakesAgent_false task \<or> stops_waking f task)\<rparr>"

definition refineBackground :: "background_started \<Rightarrow> background_task \<Rightarrow> apply_context \<Rightarrow> world \<Rightarrow> world option" where
  "refineBackground f task ctx w = do {
     let w1 = ensureAgent ctx (bs_agent f) w;
     agent \<leftarrow> agent_of w1 (bs_agent f);
     let moved = (task_agentId task \<noteq> a_id agent);
     let adopts = (bs_childAgent f \<noteq> None \<and> task_childAgentId task = None);
     let w2 = (case bs_childAgent f of None \<Rightarrow> w1 | Some c \<Rightarrow> if adopts then ensureAgent ctx c w1 else w1);
     let child = (if adopts then Option.bind (bs_childAgent f) (\<lambda>c. map_option a_id (agent_of w2 c)) else task_childAgentId task);
     let names = (task_toolCallId task = None \<and> is_call (item_at (bs_item f) w2));
     let toolCall = (if names then map_option item_id (item_at (bs_item f) w2) else task_toolCallId task);
     let w3 = (if names then mark_background (bs_item f) (task_id task) w2 else w2);
     let task' = refined_task f (a_id agent) child toolCall task;
     let w4 = put_task (bs_task f) task' w3;
     if moved \<or> adopts \<or> names \<or> names_path f task \<or> stops_waking f task
     then link_child f ctx (emit (Background_task_started task') w4)
     else Some w4
   }"

definition background_draft :: "background_started \<Rightarrow> item_draft" where
  "background_draft f =
     (let detail = (\<lambda>k child fs. \<lparr>dd_kind = Some k, dd_output = None, dd_childAgent = child,
            dd_targetAgent = None, dd_rest = fs\<rparr>);
          call = (\<lambda>k d. no_call\<lparr>cd_kind := Some k, cd_title := Some (bs_title f), cd_status := Some T_running,
            cd_detail := Some d\<rparr>)
      in \<lparr>dr_complete = None, dr_body = D_tool_call (Some
           (if bs_kind f = Task_shell then call K_shell (detail K_shell None [(''command'', JStr [])])
            else if bs_childAgent f \<noteq> None then call K_agent_spawn (detail K_agent_spawn (bs_childAgent f) [])
            else call K_custom (detail K_custom None []))), dr_raw = None, dr_rest = []\<rparr>)"

definition new_task :: "background_started \<Rightarrow> apply_context \<Rightarrow> ident \<Rightarrow> ident \<Rightarrow> ident option \<Rightarrow> ident option \<Rightarrow> background_task" where
  "new_task f ctx taskId agentId toolCall child = \<lparr>task_id = taskId, task_agentId = agentId,
     task_owner_ace = bs_owner_ace f, task_kind = bs_kind f, task_title = bs_title f, task_status = Task_running,
     task_ambient = given (bs_ambient f) False, task_internal = bs_internal f,
     task_wakesAgent_false = bs_wakesAgent_false f, task_listening = None, task_outputPath = bs_outputPath f,
     task_toolCallId = toolCall, task_childAgentId = child, task_stoppable = bs_stoppable f,
     task_startedAt = now ctx, task_endedAt = None, task_raw = given (bs_raw f) []\<rparr>"

definition begin_task :: "background_started \<Rightarrow> apply_context \<Rightarrow> world \<Rightarrow> world option" where
  "begin_task f ctx w = do {
     let w1 = ensureAgent ctx (bs_agent f) w;
     agent \<leftarrow> agent_of w1 (bs_agent f);
     let w2 = (case bs_childAgent f of None \<Rightarrow> w1 | Some c \<Rightarrow> ensureAgent ctx c w1);
     let child = Option.bind (bs_childAgent f) (\<lambda>c. map_option a_id (agent_of w2 c));
     w3 \<leftarrow> ensure_item ctx (bs_agent f) (bs_item f) (background_draft f) w2;
     let (taskId, w4) = next_id ctx Id_task w3;
     let task = new_task f ctx taskId (a_id agent) (map_option item_id (item_at (bs_item f) w4)) child;
     let w5 = refreshTaskIndex (bs_task f) (put_task (bs_task f) task
           (w4\<lparr>st_uncertainTasks := del (st_uncertainTasks w4) (bs_task f)\<rparr>));
     let w6 = mark_background (bs_item f) taskId (emit (Background_task_started task) w5);
     link_child f ctx w6
   }"

definition startBackground :: "background_started \<Rightarrow> apply_context \<Rightarrow> world \<Rightarrow> world option" where
  "startBackground f ctx w =
     (let previous = get (st_tasks w) (bs_task f);
          returned = (bs_kind f = Task_shell \<and>
            (case item_at (bs_item f) w of None \<Rightarrow> False | Some i \<Rightarrow> item_complete i))
      in case previous of
           None \<Rightarrow> if returned then Some w else begin_task f ctx w
         | Some task \<Rightarrow>
             if task_status task = Task_running then refineBackground f task ctx w
             else if returned then Some w
             else begin_task f ctx (w\<lparr>st_taskHistory := put (st_taskHistory w) (task_id task) task\<rparr>))"

definition listenBackground :: "key \<Rightarrow> nat list \<Rightarrow> world \<Rightarrow> world" where
  "listenBackground k seen w = (case get (st_tasks w) k of
       None \<Rightarrow> w
     | Some task \<Rightarrow>
         if task_status task \<noteq> Task_running then w
         else
           let ports = sort (remdups seen) in
           if ports = given (task_listening task) [] then w
           else
             let task' = task\<lparr>task_listening := (if ports = [] then None else Some ports)\<rparr>
             in emit (Background_task_started task') (put_task k task' w))"

fun ended_status :: "end_status \<Rightarrow> task_status" where
  "ended_status End_completed = Task_completed"
| "ended_status End_failed = Task_failed"
| "ended_status End_stopped = Task_stopped"
| "ended_status End_unknown = Task_unknown"

definition endBackground :: "key \<Rightarrow> end_status \<Rightarrow> bool \<Rightarrow> apply_context \<Rightarrow> world \<Rightarrow> world" where
  "endBackground k status fact_uncertain ctx w = (case get (st_tasks w) k of
       None \<Rightarrow> w
     | Some task \<Rightarrow>
         let unknown = (task_status task = Task_unknown);
             uncertain = (unknown \<and> has (st_uncertainTasks w) k);
             lost = (unknown \<and> \<not> uncertain \<and> status \<noteq> End_unknown)
         in if task_status task \<noteq> Task_running \<and> \<not> uncertain \<and> \<not> lost then w
            else
              let w1 = w\<lparr>st_uncertainTasks := (if fact_uncertain then put (st_uncertainTasks w) k ()
                         else del (st_uncertainTasks w) k)\<rparr>;
                  endedAt = (case task_endedAt task of Some t \<Rightarrow> if lost then t else now ctx | None \<Rightarrow> now ctx);
                  task' = task\<lparr>task_status := ended_status status, task_endedAt := Some endedAt\<rparr>
              in emit (Background_task_updated (task_id task) (ended_status status) endedAt)
                   (refreshTaskIndex k (put_task k task' w1)))"

end
