(* ===== verification/Core_Entities_Inv.thy ===== *)
theory Core_Entities_Inv
  imports Core_Entities
begin

text \<open>
  What entities.ts keeps of the state, and what it promises of interactions and tasks. The relation
  \<open>safe_op\<close> collects what every operation other than a turn boundary or the exit of the process
  keeps: the runs, the live indexes and the tree.
\<close>

subsection \<open>Operations that keep the runs, the indexes and the tree\<close>

definition safe_op :: "apply_context \<Rightarrow> world \<Rightarrow> world \<Rightarrow> bool" where
  "safe_op ctx w w' \<longleftrightarrow> run_frame w w' \<and> (work_ok w \<longrightarrow> work_ok w') \<and>
     (id_source (ids ctx) \<longrightarrow> tree_inv (ids ctx) w \<longrightarrow> tree_inv (ids ctx) w')"

lemma run_frame_refl [simp]: "run_frame w w"
  by (simp add: run_frame_def)

lemma run_frame_trans: "run_frame w w' \<Longrightarrow> run_frame w' w'' \<Longrightarrow> run_frame w w''"
  by (auto simp: run_frame_def intro: grows_trans)

lemma safe_op_refl [simp]: "safe_op ctx w w"
  by (simp add: safe_op_def)

lemma safe_op_trans: "safe_op ctx w w' \<Longrightarrow> safe_op ctx w' w'' \<Longrightarrow> safe_op ctx w w''"
  by (auto simp: safe_op_def intro: run_frame_trans)

lemma safe_opI:
  assumes "same_tree w w'" "run_frame w w'" "work_ok w \<Longrightarrow> work_ok w'"
  shows "safe_op ctx w w'"
  using assms tree_inv_same [OF assms(1)] by (auto simp: safe_op_def)

lemma safe_op_calm: "calm w w' \<Longrightarrow> (work_ok w \<Longrightarrow> work_ok w') \<Longrightarrow> safe_op ctx w w'"
  by (rule safe_opI [OF calm_same_tree run_frame_calm])

lemma safe_op_item: "item_op ctx w w' \<Longrightarrow> safe_op ctx w w'"
  by (auto simp: item_op_def safe_op_def run_frame_item_step)

lemma safe_op_tree:
  assumes "tree_step w w'" "id_source (ids ctx) \<Longrightarrow> tree_inv (ids ctx) w \<Longrightarrow> tree_inv (ids ctx) w'"
  shows "safe_op ctx w w'"
  using assms run_frame_tree_step work_ok_step by (auto simp: safe_op_def)

lemma safe_op_ensureAgent: "safe_op ctx w (ensureAgent ctx k w)"
  by (rule safe_op_item [OF item_op_ensureAgent])

lemma safe_op_upd_agent:
  assumes "\<And>r. view (f r) = view r" "\<And>r. sight (f r) = sight r"
  shows "safe_op ctx w (upd_agent k f w)"
  by (rule safe_op_item [OF item_op_upd_agent [OF assms]])

text \<open>Writes to fields that none of the three invariants reads.\<close>

lemma safe_op_frame:
  assumes "st_agents w' = st_agents w" "st_runs w' = st_runs w" "st_items w' = st_items w"
    "st_interactions w' = st_interactions w" "st_tasks w' = st_tasks w"
    "st_uncertainTasks w' = st_uncertainTasks w" "st_indexes w' = st_indexes w" "st_rootKey w' = st_rootKey w"
    "w_seq w' = w_seq w"
  shows "safe_op ctx w w'"
proof (rule safe_op_calm)
  show "calm w w'" using assms by (simp add: calm_def)
  show "work_ok w'" if "work_ok w" using that assms by (auto intro: work_ok_cong)
qed

lemma safe_op_emit: "safe_op ctx w (emit e w)"
  by (rule safe_op_frame) simp_all

lemma safe_op_next_id: "safe_op ctx w (snd (next_id ctx kd w))"
  by (rule safe_opI [OF same_tree_next_id])
    (auto simp: next_id_world run_frame_def run_view_def grows_def intro: work_ok_cong)

lemma safe_op_linkAgent: "linkAgent ctx f w = Some w' \<Longrightarrow> safe_op ctx w w'"
  by (rule safe_op_tree) (auto intro: tree_step_linkAgent linkAgent_inv)

lemma safe_op_upsert: "upsertItem ctx a k d w = Some w' \<Longrightarrow> safe_op ctx w w'"
  by (rule safe_op_item [OF item_op_upsert])

lemma safe_op_ensure_item: "ensure_item ctx a k d w = Some w' \<Longrightarrow> safe_op ctx w w'"
  by (auto simp: ensure_item_def safe_op_upsert split: option.splits)

lemma safe_op_put_interaction: "safe_op ctx w (refreshInteractionIndex k (put_interaction k i w))"
  by (rule safe_op_calm) (auto simp: calm_def work_ok_put_interaction)

lemma work_ok_task_write:
  fixes w w' :: world
  assumes "work_ok w" "st_items w' = st_items w" "st_interactions w' = st_interactions w" "st_indexes w' = st_indexes w"
    and "\<And>k'. k' \<noteq> k \<Longrightarrow> get (st_tasks w') k' = get (st_tasks w) k' \<and> has (st_uncertainTasks w') k' = has (st_uncertainTasks w) k'"
  shows "work_ok (refreshTaskIndex k w')"
proof -
  let ?w = "refreshTaskIndex k w'"
  have "bgs.consistent ?w"
    using assms by (auto simp: work_ok_def live_defs intro!: bgs.consistent_write [of w] split: option.splits)
  moreover have "tool_live ?w = tool_live w" "text_open ?w = text_open w" "interaction_live ?w = interaction_live w"
    by (auto simp: live_defs fun_eq_iff assms split: option.splits)
  ultimately show ?thesis
    using assms(1,4) by (auto simp: work_ok_def intro: tools.consistent_frame texts.consistent_frame ints.consistent_frame)
qed

lemma safe_op_put_task:
  "safe_op ctx w (refreshTaskIndex k (put_task k i (w\<lparr>st_uncertainTasks := u\<rparr>)))"
  if "\<And>k'. k' \<noteq> k \<Longrightarrow> has u k' = has (st_uncertainTasks w) k'"
  by (rule safe_op_calm) (use that in \<open>auto simp: calm_def intro!: work_ok_task_write [of w]\<close>)

text \<open>A running task rewritten in place stays running, so its index entry stays right.\<close>

lemma safe_op_rewrite_task:
  assumes "get (st_tasks w) k = Some t" "task_status t = Task_running" "task_status t' = Task_running"
  shows "safe_op ctx w (put_task k t' w)"
proof (rule safe_op_calm)
  have "task_live (put_task k t' w) = task_live w" "tool_live (put_task k t' w) = tool_live w"
    "text_open (put_task k t' w) = text_open w" "interaction_live (put_task k t' w) = interaction_live w"
    using assms by (auto simp: live_defs fun_eq_iff split: option.splits)
  then show "work_ok (put_task k t' w)" if "work_ok w"
    using that by (auto simp: work_ok_def intro: tools.consistent_frame texts.consistent_frame
        ints.consistent_frame bgs.consistent_frame)
qed (simp add: calm_def)

lemma safe_op_mark_background: "safe_op ctx w (mark_background k t w)"
proof -
  have *: "safe_op ctx w (put_item k' (item\<lparr>item_body := Tool_call (c\<lparr>call_backgroundTaskId := Some t\<rparr>)\<rparr>) w)"
    if "get (st_items w) k' = Some item" "item_body item = Tool_call c" for k' item c
  proof (rule safe_op_calm)
    let ?w = "put_item k' (item\<lparr>item_body := Tool_call (c\<lparr>call_backgroundTaskId := Some t\<rparr>)\<rparr>) w"
    have "tool_live ?w = tool_live w" "text_open ?w = text_open w" "task_live ?w = task_live w"
      "interaction_live ?w = interaction_live w"
      using that by (auto simp: live_defs fun_eq_iff isLiveTool.simps isOpenText.simps split: option.splits)
    then show "work_ok ?w" if "work_ok w"
      using that by (auto simp: work_ok_def intro: tools.consistent_frame texts.consistent_frame
          ints.consistent_frame bgs.consistent_frame)
  qed (simp add: calm_def)
  show ?thesis
    unfolding mark_background_def Let_def
    by (auto split: option.splits item_body.splits intro: safe_op_trans [OF * safe_op_emit])
qed

lemma safe_op_link_child: "link_child f ctx w = Some w' \<Longrightarrow> safe_op ctx w w'"
  by (auto simp: link_child_def safe_op_linkAgent split: option.splits)

lemma openInteraction_safe:
  assumes "openInteraction f ctx w = Some w'"
  shows "safe_op ctx w w'"
proof -
  have hist: "safe_op ctx w (w\<lparr>st_interactionHistory := h\<rparr>)" for h by (rule safe_op_frame) simp_all
  show ?thesis
    using assms unfolding openInteraction_def Let_def next_id_def
    by (auto split: if_splits option.splits elim!: bind_SomeE
        intro!: safe_op_trans [OF _ safe_op_emit] safe_op_trans [OF _ safe_op_put_interaction]
          safe_op_trans [OF _ safe_op_next_id [unfolded next_id_world]]
        intro: safe_op_trans [OF safe_op_ensureAgent safe_op_ensure_item]
          safe_op_trans [OF hist safe_op_trans [OF safe_op_ensureAgent safe_op_ensure_item]])
qed

lemma closeInteraction_safe: "safe_op ctx' w (closeInteraction f ctx w)"
  by (auto simp: closeInteraction_def Let_def split: option.splits
      intro: safe_op_trans [OF safe_op_put_interaction safe_op_emit])

lemma tasks_ensureAgent [simp]: "st_tasks (ensureAgent ctx k w) = st_tasks w"
  using tree_step_ensureAgent [of w ctx k] by (simp add: tree_step_def)

lemma tasks_mark_background [simp]: "st_tasks (mark_background k t w) = st_tasks w"
  by (auto simp: mark_background_def Let_def put_item_def split: option.splits item_body.splits)

lemma refineBackground_steps:
  assumes "refineBackground f task ctx w = Some w'"
  obtains w3 task' where "safe_op ctx w w3" "st_tasks w3 = st_tasks w"
    "task_id task' = task_id task" "task_status task' = task_status task" "task_startedAt task' = task_startedAt task"
    "task_kind task' = task_kind task" "task_title task' = task_title task"
    "w' = put_task (bs_task f) task' w3 \<or>
     link_child f ctx (emit (Background_task_started task') (put_task (bs_task f) task' w3)) = Some w'"
proof -
  let ?w1 = "ensureAgent ctx (bs_agent f) w"
  let ?adopts = "bs_childAgent f \<noteq> None \<and> task_childAgentId task = None"
  define w2 where "w2 = (case bs_childAgent f of None \<Rightarrow> ?w1 | Some c \<Rightarrow> if ?adopts then ensureAgent ctx c ?w1 else ?w1)"
  let ?names = "task_toolCallId task = None \<and> is_call (item_at (bs_item f) w2)"
  define w3 where "w3 = (if ?names then mark_background (bs_item f) (task_id task) w2 else w2)"
  have "safe_op ctx w w2"
    by (auto simp: w2_def split: option.splits intro: safe_op_ensureAgent safe_op_trans [OF safe_op_ensureAgent safe_op_ensureAgent])
  then have s: "safe_op ctx w w3"
    by (auto simp: w3_def intro: safe_op_trans [OF _ safe_op_mark_background])
  have t: "st_tasks w3 = st_tasks w" by (auto simp: w3_def w2_def split: option.splits)
  from assms obtain a ch tc where "w' = put_task (bs_task f) (refined_task f a ch tc task) w3 \<or>
      link_child f ctx (emit (Background_task_started (refined_task f a ch tc task))
        (put_task (bs_task f) (refined_task f a ch tc task) w3)) = Some w'"
    unfolding refineBackground_def Let_def w2_def [symmetric] w3_def [symmetric]
    by (elim bind_SomeE) (auto simp only: option.inject split: if_split_asm)
  then show thesis by (intro that [OF s t, of "refined_task f a ch tc task"]) (simp_all add: refined_task_def)
qed

lemma refineBackground_safe:
  assumes "refineBackground f task ctx w = Some w'" "get (st_tasks w) (bs_task f) = Some task" "task_status task = Task_running"
  shows "safe_op ctx w w'"
  using assms(1)
proof (cases rule: refineBackground_steps)
  case (1 w3 task')
  have "safe_op ctx w3 (put_task (bs_task f) task' w3)"
    by (rule safe_op_rewrite_task [of _ _ task]) (use 1 assms in auto)
  with 1(1) have p: "safe_op ctx w (put_task (bs_task f) task' w3)" by (rule safe_op_trans)
  from 1(8) show ?thesis
  proof
    assume "link_child f ctx (emit (Background_task_started task') (put_task (bs_task f) task' w3)) = Some w'"
    from safe_op_trans [OF safe_op_trans [OF p safe_op_emit] safe_op_link_child [OF this]] show ?thesis .
  qed (use p in simp)
qed

lemma begin_task_safe:
  assumes "begin_task f ctx w = Some w'"
  shows "safe_op ctx w w'"
proof -
  let ?w1 = "ensureAgent ctx (bs_agent f) w"
  define w2 where "w2 = (case bs_childAgent f of None \<Rightarrow> ?w1 | Some c \<Rightarrow> ensureAgent ctx c ?w1)"
  have s2: "safe_op ctx w w2"
    by (auto simp: w2_def split: option.splits intro: safe_op_ensureAgent safe_op_trans [OF safe_op_ensureAgent safe_op_ensureAgent])
  from assms obtain w3 task where w3: "ensure_item ctx (bs_agent f) (bs_item f) (background_draft f) w2 = Some w3"
    and w': "link_child f ctx (mark_background (bs_item f) (ids ctx Id_task (w_seq w3)) (emit (Background_task_started task)
      (refreshTaskIndex (bs_task f) (put_task (bs_task f) task ((snd (next_id ctx Id_task w3))\<lparr>st_uncertainTasks :=
        del (st_uncertainTasks w3) (bs_task f)\<rparr>))))) = Some w'"
    unfolding begin_task_def Let_def w2_def [symmetric] by (auto simp: next_id_def elim!: bind_SomeE)
  have u: "st_uncertainTasks (snd (next_id ctx Id_task w3)) = st_uncertainTasks w3" by (simp add: next_id_world)
  note steps = safe_op_trans [OF s2 safe_op_trans [OF safe_op_ensure_item [OF w3] safe_op_next_id]]
  show ?thesis
    by (rule safe_op_trans [OF safe_op_trans [OF safe_op_trans [OF safe_op_trans [OF steps safe_op_put_task] safe_op_emit]
      safe_op_mark_background] safe_op_link_child [OF w']]) (auto simp: u)
qed

lemma startBackground_safe:
  assumes "startBackground f ctx w = Some w'"
  shows "safe_op ctx w w'"
proof -
  have hist: "safe_op ctx w (w\<lparr>st_taskHistory := h\<rparr>)" for h by (rule safe_op_frame) simp_all
  show ?thesis
    using assms unfolding startBackground_def Let_def
    by (auto split: option.splits if_splits intro: begin_task_safe refineBackground_safe
        safe_op_trans [OF hist begin_task_safe])
qed

lemma listenBackground_safe: "safe_op ctx w (listenBackground k seen w)"
  unfolding listenBackground_def Let_def
  by (auto split: option.splits intro!: safe_op_trans [OF safe_op_rewrite_task safe_op_emit])

lemma endBackground_safe: "safe_op ctx' w (endBackground k s u ctx w)"
  unfolding endBackground_def Let_def
  by (auto split: option.splits intro!: safe_op_trans [OF safe_op_put_task safe_op_emit])

subsection \<open>What entities.ts promises\<close>



lemma tasks_linkAgent: "linkAgent ctx f w = Some w' \<Longrightarrow> st_tasks w' = st_tasks w"
  using tree_step_linkAgent by (auto simp: tree_step_def)

lemma tasks_link_child: "link_child f ctx w = Some w' \<Longrightarrow> st_tasks w' = st_tasks w"
  by (auto simp: link_child_def tasks_linkAgent split: option.splits)

text \<open>Work that is announced again is refined, never restarted. A \<open>background.started\<close> for a
  running task keeps its id, its status, its start, its kind and its title, and touches no other task.\<close>

theorem startBackground_refines:
  assumes "startBackground f ctx w = Some w'" "get (st_tasks w) (bs_task f) = Some task" "task_status task = Task_running"
  shows "(\<exists>task'. get (st_tasks w') (bs_task f) = Some task' \<and> task_id task' = task_id task \<and>
      task_status task' = Task_running \<and> task_startedAt task' = task_startedAt task \<and>
      task_kind task' = task_kind task \<and> task_title task' = task_title task) \<and>
    (k = bs_task f \<or> get (st_tasks w') k = get (st_tasks w) k)"
proof -
  have "refineBackground f task ctx w = Some w'"
    using assms by (simp add: startBackground_def)
  then show ?thesis
  proof (cases rule: refineBackground_steps)
    case (1 w3 task')
    from 1(8) have "st_tasks w' = put (st_tasks w) (bs_task f) task'"
      using 1(2) tasks_link_child by (auto simp: tasks_link_child)
    with 1 assms(3) show ?thesis by auto
  qed
qed

text \<open>The end of a task is final. A task that completed, failed or was stopped takes no later
  end; a task ace lost track of takes the end it is told of, at the time it was lost.\<close>

theorem endBackground_final:
  assumes "get (st_tasks w) k = Some task"
  shows "(if task_status task \<in> {Task_completed, Task_failed, Task_stopped} then endBackground k s u ctx w = w
    else if task_status task = Task_unknown \<and> \<not> has (st_uncertainTasks w) k \<and> s \<noteq> End_unknown
    then get (st_tasks (endBackground k s u ctx w)) k = Some (task\<lparr>task_status := ended_status s,
        task_endedAt := Some (given (task_endedAt task) (now ctx))\<rparr>)
    else if task_status task = Task_running
    then get (st_tasks (endBackground k s u ctx w)) k = Some (task\<lparr>task_status := ended_status s, task_endedAt := Some (now ctx)\<rparr>)
    else True)"
  using assms by (cases "task_status task") (auto simp: endBackground_def Let_def given_def split: option.splits)

text \<open>The ports of a task are what the host saw, in ascending order and without duplicates, and
  reporting the same set again changes nothing.\<close>

theorem listenBackground_ports:
  assumes "get (st_tasks w) k = Some task" "task_status task = Task_running" "set seen' = set seen"
  shows "(\<exists>task'. get (st_tasks (listenBackground k seen w)) k = Some task' \<and>
      sorted (given (task_listening task') []) \<and> distinct (given (task_listening task') []) \<and>
      set (given (task_listening task') []) = set seen) \<and>
    listenBackground k seen' (listenBackground k seen w) = listenBackground k seen w"
proof -
  have eq: "sort (remdups seen') = sort (remdups seen)"
    by (rule sorted_distinct_set_unique) (use assms(3) in simp_all)
  let ?ports = "sort (remdups seen)"
  show ?thesis
  proof (cases "?ports = given (task_listening task) []")
    case True
    then have "listenBackground k seen w = w" "listenBackground k seen' w = w"
      using assms(1,2) eq by (simp_all add: listenBackground_def)
    moreover have "sorted (given (task_listening task) [])" "distinct (given (task_listening task) [])"
      "set (given (task_listening task) []) = set seen"
      using arg_cong [OF True, of sorted] arg_cong [OF True, of distinct] arg_cong [OF True, of set] by simp_all
    ultimately show ?thesis using assms(1) by simp
  next
    case False
    let ?t = "task\<lparr>task_listening := (if ?ports = [] then None else Some ?ports)\<rparr>"
    have w': "listenBackground k seen w = emit (Background_task_started ?t) (put_task k ?t w)"
      using assms(1,2) False by (simp add: listenBackground_def Let_def)
    have "given (task_listening ?t) [] = ?ports" by (simp add: given_def)
    moreover from this have "listenBackground k seen' (emit (Background_task_started ?t) (put_task k ?t w)) =
        emit (Background_task_started ?t) (put_task k ?t w)"
      using assms(2) by (simp add: listenBackground_def Let_def eq)
    ultimately show ?thesis by (simp add: w')
  qed
qed

subsection \<open>Examples\<close>

definition example_task :: background_started where
  "example_task = \<lparr>bs_owner_ace = False, bs_agent = ''a'', bs_task = ''bg'', bs_kind = Task_shell, bs_title = ''build'',
     bs_item = None, bs_childAgent = None, bs_ambient = None, bs_internal = False, bs_stoppable = True,
     bs_outputPath = None, bs_wakesAgent_false = False, bs_raw = None\<rparr>"

lemma example_task_twice:
  "case startBackground example_task (example_ctx 5) example_world of None \<Rightarrow> False
   | Some w \<Rightarrow> (case get (st_tasks w) ''bg'' of None \<Rightarrow> False | Some t \<Rightarrow> task_status t = Task_running) \<and>
       startBackground (example_task\<lparr>bs_title := ''other''\<rparr>) (example_ctx 7) w \<noteq> None"
  by code_simp

lemma example_task_world:
  obtains w w' task where "startBackground example_task (example_ctx 5) example_world = Some w"
    "get (st_tasks w) ''bg'' = Some task" "task_status task = Task_running"
    "startBackground (example_task\<lparr>bs_title := ''other''\<rparr>) (example_ctx 7) w = Some w'"
  using example_task_twice by (auto split: option.splits)

theorem startBackground_refines_witness:
  "\<exists>w w' task. startBackground example_task (example_ctx 5) example_world = Some w \<and>
     get (st_tasks w) ''bg'' = Some task \<and>
     startBackground (example_task\<lparr>bs_title := ''other''\<rparr>) (example_ctx 7) w = Some w' \<and>
     (\<exists>task'. get (st_tasks w') ''bg'' = Some task' \<and> task_id task' = task_id task \<and> task_title task' = task_title task)"
proof -
  obtain w w' task where w: "startBackground example_task (example_ctx 5) example_world = Some w"
    "get (st_tasks w) ''bg'' = Some task" "task_status task = Task_running"
    "startBackground (example_task\<lparr>bs_title := ''other''\<rparr>) (example_ctx 7) w = Some w'"
    by (rule example_task_world)
  have "get (st_tasks w) (bs_task (example_task\<lparr>bs_title := ''other''\<rparr>)) = Some task" using w(2) by (simp add: example_task_def)
  from startBackground_refines [OF w(4) this w(3), of "''bg''"] w show ?thesis by (auto simp: example_task_def)
qed

theorem endBackground_final_witness:
  "\<exists>w task. startBackground example_task (example_ctx 5) example_world = Some w \<and> get (st_tasks w) ''bg'' = Some task \<and>
     get (st_tasks (endBackground ''bg'' End_completed False (example_ctx 9) w)) ''bg'' =
       Some (task\<lparr>task_status := Task_completed, task_endedAt := Some 9\<rparr>)"
proof -
  obtain w task where w: "startBackground example_task (example_ctx 5) example_world = Some w"
    "get (st_tasks w) ''bg'' = Some task" "task_status task = Task_running" by (rule example_task_world)
  from endBackground_final [OF w(2), of End_completed False "example_ctx 9"] w show ?thesis
    by (auto simp: example_ctx_def)
qed

theorem listenBackground_ports_witness:
  "\<exists>w. startBackground example_task (example_ctx 5) example_world = Some w \<and>
     listenBackground ''bg'' [80, 3000] (listenBackground ''bg'' [3000, 80, 3000] w) = listenBackground ''bg'' [3000, 80, 3000] w"
proof -
  obtain w task where w: "startBackground example_task (example_ctx 5) example_world = Some w"
    "get (st_tasks w) ''bg'' = Some task" "task_status task = Task_running" by (rule example_task_world)
  have "set [80, 3000] = set [3000, 80, 3000 :: nat]" by auto
  from listenBackground_ports [OF w(2,3) this] w(1) show ?thesis by blast
qed

end
