(* ===== verification/Core_Liveness.thy ===== *)
theory Core_Liveness
  imports Core_Entities_Inv
begin

text \<open>
  The evidence of life a thread has (src/packages/core/src/liveness.ts): the last signal of the
  transport, whether an ancestor reads unresponsive, and the latest signal in the subtree of an
  agent. The last is a memoised walk over the children index with a visited set; it is modelled
  with its memo table and fuel, shown to return for every state, and shown to be the maximum over
  the descendants on every state whose tree is well formed.
\<close>

definition transportSignalAt :: "'a state \<Rightarrow> timestamp" where
  "transportSignalAt s = (case st_lastTransportSignalAt s of Some t \<Rightarrow> t
     | None \<Rightarrow> foldl (\<lambda>latest r. max latest (ar_lastSignalAt r)) 0 (ovalues (st_agents s)))"

fun is_unresponsive_status :: "agent_status \<Rightarrow> bool" where
  "is_unresponsive_status (Unresponsive _) = True"
| "is_unresponsive_status _ = False"

definition indexed_parent :: "'a state \<Rightarrow> key \<Rightarrow> key option" where
  "indexed_parent s k = Option.bind (get (st_agents s) k)
     (\<lambda>r. Option.bind (a_parentId (ar_agent r)) (get (agentKeysById (st_indexes s))))"

definition hasUnresponsiveAncestor :: "'a state \<Rightarrow> key \<Rightarrow> bool" where
  "hasUnresponsiveAncestor s k = list_ex
     (\<lambda>k'. case get (st_agents s) k' of None \<Rightarrow> False | Some r \<Rightarrow> is_unresponsive_status (a_status (ar_agent r)))
     (chain (indexed_parent s) (map fst (st_agents s)) [] k)"

subsection \<open>The memoised reader of subtree signals\<close>

type_synonym signals = "int dict"

fun max_over :: "(key \<Rightarrow> signals \<Rightarrow> (int \<times> signals) option) \<Rightarrow> key list \<Rightarrow> int \<Rightarrow> signals \<Rightarrow> (int \<times> signals) option" where
  "max_over f [] latest c = Some (latest, c)"
| "max_over f (k # ks) latest c = Option.bind (f k c) (\<lambda>(v, c'). max_over f ks (max latest v) c')"

text \<open>\<open>read(key)\<close>: \<open>visiting\<close> holds the keys on the call stack, \<open>c\<close> is the memo table.\<close>

fun read_signal :: "nat \<Rightarrow> 'a state \<Rightarrow> key list \<Rightarrow> key \<Rightarrow> signals \<Rightarrow> (int \<times> signals) option" where
  "read_signal 0 s visiting k c = None"
| "read_signal (Suc n) s visiting k c = (case get c k of
       Some v \<Rightarrow> Some (v, c)
     | None \<Rightarrow> (case get (st_agents s) k of
         None \<Rightarrow> Some (0, c)
       | Some r \<Rightarrow>
           if k \<in> set visiting then Some (ar_lastSignalAt r, c)
           else Option.bind (max_over (\<lambda>child. read_signal n s (k # visiting) child)
                  (childKeys (st_indexes s) (a_id (ar_agent r))) (ar_lastSignalAt r) c)
                (\<lambda>(latest, c'). Some (latest, put c' k latest))))"

definition agent_count :: "'a state \<Rightarrow> nat" where
  "agent_count s = length (okeys (st_agents s))"

text \<open>The depth of the walk is at most the number of agents and one repeated or unknown key.\<close>

definition subtreeSignal :: "'a state \<Rightarrow> key \<Rightarrow> signals \<Rightarrow> (int \<times> signals) option" where
  "subtreeSignal s k c = read_signal (agent_count s + 2) s [] k c"

subsection \<open>The reader returns\<close>

definition unvisited :: "'a state \<Rightarrow> key list \<Rightarrow> nat" where
  "unvisited s visiting = card ({k. has (st_agents s) k} - set visiting)"

lemma unvisited_Nil: "unvisited s [] = agent_count s"
  by (simp add: unvisited_def agent_count_def flip: set_okeys distinct_card)

lemma unvisited_step:
  "has (st_agents s) k \<Longrightarrow> k \<notin> set visiting \<Longrightarrow> Suc (unvisited s (k # visiting)) = unvisited s visiting"
proof -
  assume k: "has (st_agents s) k" "k \<notin> set visiting"
  let ?A = "{k. has (st_agents s) k} - set visiting"
  have "?A - {k} = {k. has (st_agents s) k} - set (k # visiting)" by auto
  moreover have "finite ?A" using finite_has by auto
  ultimately show ?thesis using k card_Suc_Diff1 [of ?A k] by (simp add: unvisited_def)
qed

lemma max_over_total:
  assumes "\<And>k c. k \<in> set ks \<Longrightarrow> f k c \<noteq> None"
  shows "max_over f ks m c \<noteq> None"
  using assms
proof (induction ks arbitrary: m c)
  case (Cons k ks)
  obtain v c' where "f k c = Some (v, c')" using Cons.prems [of k c] by auto
  moreover have "max_over f ks (max m v) c' \<noteq> None" using Cons.prems by (intro Cons.IH) auto
  ultimately show ?case by simp
qed simp

lemma read_signal_total: "unvisited s visiting + 1 < n \<Longrightarrow> read_signal n s visiting k c \<noteq> None"
proof (induction n arbitrary: visiting k c)
  case (Suc n)
  show ?case
  proof (cases "get c k = None \<and> has (st_agents s) k \<and> k \<notin> set visiting")
    case True
    then obtain r where r: "get (st_agents s) k = Some r" by (auto simp: has_def)
    have "unvisited s (k # visiting) + 1 < n" using Suc.prems unvisited_step [of s k visiting] True by simp
    then have "max_over (\<lambda>child. read_signal n s (k # visiting) child)
        (childKeys (st_indexes s) (a_id (ar_agent r))) (ar_lastSignalAt r) c \<noteq> None"
      by (intro max_over_total Suc.IH)
    then obtain v c' where "max_over (\<lambda>child. read_signal n s (k # visiting) child)
        (childKeys (st_indexes s) (a_id (ar_agent r))) (ar_lastSignalAt r) c = Some (v, c')" by auto
    with True r show ?thesis by simp
  qed (auto simp: has_def split: option.splits)
qed simp

subsection \<open>The reader is the maximum over the descendants\<close>

definition descendants :: "'a state \<Rightarrow> key \<Rightarrow> key set" where
  "descendants s k = {d. has (st_agents s) d \<and> (d, k) \<in> (edges (tv s))\<^sup>*}"

definition signal_of :: "'a state \<Rightarrow> key \<Rightarrow> int" where
  "signal_of s k = (case get (st_agents s) k of None \<Rightarrow> 0 | Some r \<Rightarrow> ar_lastSignalAt r)"

definition latest_signal :: "'a state \<Rightarrow> key \<Rightarrow> int" where
  "latest_signal s k = Max (signal_of s ` descendants s k)"

lemma finite_descendants: "finite (descendants s k)"
  by (rule finite_subset [OF _ finite_has [of "st_agents s"]]) (auto simp: descendants_def)

text \<open>In a well-formed tree the children index lists exactly the agents one edge below.\<close>

lemma child_edge:
  assumes ok: "tree_ok (tv s) (by_id s) (child_of s) rk" and r: "get (st_agents s) k = Some r"
  shows "child \<in> set (childKeys (st_indexes s) (a_id (ar_agent r))) \<longleftrightarrow> (child, k) \<in> edges (tv s)"
proof -
  have k: "tv s k = Some (a_id (ar_agent r), a_parentId (ar_agent r), ar_parentKey r)"
    using r by (simp add: tv_def view_def)
  have c: "child_of s (a_id (ar_agent r)) child \<longleftrightarrow> (\<exists>i p. tv s child = Some (i, Some (a_id (ar_agent r)), p))"
    using ok unfolding tree_ok_def by blast
  have up: "(case p of None \<Rightarrow> pid = None | Some pk \<Rightarrow> \<exists>i' pid' p'. tv s pk = Some (i', pid', p') \<and> pid = Some i')"
    if "tv s d = Some (i, pid, p)" for d i pid p using ok that unfolding tree_ok_def by blast
  have inj: "by_id s i = Some d \<longleftrightarrow> (\<exists>pid p. tv s d = Some (i, pid, p))" for i d
    using ok unfolding tree_ok_def by blast
  show ?thesis
  proof
    assume "child \<in> set (childKeys (st_indexes s) (a_id (ar_agent r)))"
    then obtain i p where t: "tv s child = Some (i, Some (a_id (ar_agent r)), p)" using c by (auto simp: child_of_def)
    from up [OF t] obtain pk pid' p' where pk: "p = Some pk" "tv s pk = Some (a_id (ar_agent r), pid', p')"
      by (auto split: option.splits)
    with inj [of "a_id (ar_agent r)"] k have "pk = k" by (metis option.inject)
    with t pk show "(child, k) \<in> edges (tv s)" by (auto simp: edges_def)
  next
    assume "(child, k) \<in> edges (tv s)"
    then obtain i pid where t: "tv s child = Some (i, pid, Some k)" by (auto simp: edges_def)
    from up [OF t] k have "pid = Some (a_id (ar_agent r))" by auto
    with t c show "child \<in> set (childKeys (st_indexes s) (a_id (ar_agent r)))" by (auto simp: child_of_def)
  qed
qed

lemma edge_has: "(d, k) \<in> edges (tv s) \<Longrightarrow> has (st_agents s) d"
  using tv_has [of s d] by (auto simp: edges_def)

lemma descendants_rec:
  assumes ok: "tree_ok (tv s) (by_id s) (child_of s) rk" and r: "get (st_agents s) k = Some r"
  shows "descendants s k = insert k (\<Union>child \<in> set (childKeys (st_indexes s) (a_id (ar_agent r))). descendants s child)"
proof -
  have "has (st_agents s) k" using r by (simp add: has_def)
  moreover have "(d, k) \<in> (edges (tv s))\<^sup>* \<longleftrightarrow> d = k \<or> (\<exists>c. (c, k) \<in> edges (tv s) \<and> (d, c) \<in> (edges (tv s))\<^sup>*)" for d
    by (auto elim: rtranclE intro: rtrancl_into_rtrancl)
  ultimately show ?thesis by (auto simp: descendants_def child_edge [OF ok r])
qed

lemma latest_signal_rec:
  assumes ok: "tree_ok (tv s) (by_id s) (child_of s) rk" and r: "get (st_agents s) k = Some r"
  shows "latest_signal s k = foldl (\<lambda>m c. max m (latest_signal s c)) (ar_lastSignalAt r)
    (childKeys (st_indexes s) (a_id (ar_agent r)))"
proof -
  let ?cs = "childKeys (st_indexes s) (a_id (ar_agent r))"
  have ne: "descendants s c \<noteq> {}" if "c \<in> set ?cs" for c
    using that child_edge [OF ok r, of c] edge_has by (auto simp: descendants_def)
  have fold: "foldl (\<lambda>m c. max m (latest_signal s c)) m cs = Max (insert m (\<Union>c \<in> set cs. signal_of s ` descendants s c))"
    if "\<And>c. c \<in> set cs \<Longrightarrow> descendants s c \<noteq> {}" for m cs
    using that
  proof (induction cs arbitrary: m)
    case (Cons c cs)
    let ?D = "signal_of s ` descendants s c" and ?R = "\<Union>c \<in> set cs. signal_of s ` descendants s c"
    have fin: "finite ?D" "?D \<noteq> {}" "finite ?R" using Cons.prems [of c] finite_descendants by auto
    have "foldl (\<lambda>m c. max m (latest_signal s c)) m (c # cs) = Max (insert (max m (Max ?D)) ?R)"
      using Cons by (simp add: latest_signal_def)
    also have "\<dots> = Max (insert m (?D \<union> ?R))"
      using fin by (cases "?R = {}") (auto simp: Max.union max.assoc)
    finally show ?case by simp
  qed simp
  have "signal_of s k = ar_lastSignalAt r" using r by (simp add: signal_of_def)
  then have "latest_signal s k = Max (insert (ar_lastSignalAt r) (\<Union>c \<in> set ?cs. signal_of s ` descendants s c))"
    by (simp add: latest_signal_def descendants_rec [OF ok r] image_UN)
  also have "\<dots> = foldl (\<lambda>m c. max m (latest_signal s c)) (ar_lastSignalAt r) ?cs" by (rule fold [symmetric]) (rule ne)
  finally show ?thesis .
qed

definition memo_ok :: "'a state \<Rightarrow> signals \<Rightarrow> bool" where
  "memo_ok s c \<longleftrightarrow> (\<forall>k v. get c k = Some v \<longrightarrow> has (st_agents s) k \<and> v = latest_signal s k)"

lemma max_over_latest:
  assumes "max_over f ks m c = Some (v, c')" "memo_ok s c"
    and "\<And>k c v c'. k \<in> set ks \<Longrightarrow> memo_ok s c \<Longrightarrow> f k c = Some (v, c') \<Longrightarrow> v = latest_signal s k \<and> memo_ok s c'"
  shows "v = foldl (\<lambda>m c. max m (latest_signal s c)) m ks \<and> memo_ok s c'"
  using assms
proof (induction ks arbitrary: m c)
  case (Cons k ks)
  from Cons.prems(1) obtain u d where u: "f k c = Some (u, d)" "max_over f ks (max m u) d = Some (v, c')"
    by (auto elim!: bind_SomeE)
  from Cons.prems(3) [OF _ Cons.prems(2) u(1)] have "u = latest_signal s k" "memo_ok s d" by simp_all
  moreover have "v = foldl (\<lambda>m c. max m (latest_signal s c)) (max m u) ks \<and> memo_ok s c'"
    by (rule Cons.IH [OF u(2) \<open>memo_ok s d\<close>]) (rule Cons.prems(3), auto)
  ultimately show ?case by simp
qed simp

lemma read_signal_latest:
  assumes ok: "tree_ok (tv s) (by_id s) (child_of s) rk"
    and "has (st_agents s) k" "memo_ok s c" "\<forall>v \<in> set visiting. (k, v) \<in> (edges (tv s))\<^sup>+"
    and "read_signal n s visiting k c = Some (v, c')"
  shows "v = latest_signal s k \<and> memo_ok s c'"
  using assms(2-5)
proof (induction n arbitrary: visiting k c v c')
  case (Suc n)
  obtain r where r: "get (st_agents s) k = Some r" using Suc.prems(1) by (auto simp: has_def)
  have acyclic: "acyclic (edges (tv s))" using ok by (simp add: tree_ok_def)
  then have nv: "k \<notin> set visiting" using Suc.prems(3) by (auto simp: acyclic_def)
  show ?case
  proof (cases "get c k")
    case (Some u)
    with Suc.prems show ?thesis by (auto simp: memo_ok_def)
  next
    case None
    let ?cs = "childKeys (st_indexes s) (a_id (ar_agent r))"
    from Suc.prems(4) None r nv obtain c1 where
      m: "max_over (\<lambda>child. read_signal n s (k # visiting) child) ?cs (ar_lastSignalAt r) c = Some (v, c1)"
      and c': "c' = put c1 k v" by (auto elim!: bind_SomeE)
    have "v = foldl (\<lambda>m c. max m (latest_signal s c)) (ar_lastSignalAt r) ?cs \<and> memo_ok s c1"
    proof (rule max_over_latest [OF m Suc.prems(2)])
      fix ch d u d' assume "ch \<in> set ?cs" and d: "memo_ok s d" and u: "read_signal n s (k # visiting) ch d = Some (u, d')"
      then have e: "(ch, k) \<in> edges (tv s)" by (simp add: child_edge [OF ok r])
      with Suc.prems(3) have "\<forall>v \<in> set (k # visiting). (ch, v) \<in> (edges (tv s))\<^sup>+" by (auto intro: trancl_into_trancl2)
      with Suc.IH [OF edge_has [OF e] d _ u] show "u = latest_signal s ch \<and> memo_ok s d'" by blast
    qed
    with latest_signal_rec [OF ok r] c' Suc.prems(1) show ?thesis by (auto simp: memo_ok_def)
  qed
qed simp

text \<open>C25: the memoised walk for the latest sign of life of a subtree is right. On a state with a
  well-formed tree it returns, for every known agent and with any memo table filled by earlier
  reads, the maximum of \<open>lastSignalAt\<close> over the agent and all its descendants.\<close>

theorem subtreeSignal_latest:
  assumes "tree_inv gen w" "has (st_agents w) k" "memo_ok w c"
  shows "\<exists>c'. subtreeSignal w k c = Some (latest_signal w k, c') \<and> memo_ok w c'"
proof -
  have ok: "tree_ok (tv w) (by_id w) (child_of w) (st_rootKey w)" using assms(1) by (simp add: tree_inv_def)
  have "read_signal (agent_count w + 2) w [] k c \<noteq> None"
    by (rule read_signal_total) (simp add: unvisited_Nil)
  then obtain v c' where v: "read_signal (agent_count w + 2) w [] k c = Some (v, c')" by auto
  from read_signal_latest [OF ok assms(2,3) _ v] v show ?thesis by (simp add: subtreeSignal_def)
qed

theorem subtreeSignal_latest_witness:
  "\<exists>c'. subtreeSignal example_running ''a'' [] = Some (latest_signal example_running ''a'', c') \<and> memo_ok example_running c'"
proof -
  have "run_inv counter_ids example_running"
    using startTurn_inv [of "example_ctx 5" example_world example_start] run_inv_example_world counter.id_source_axioms
    by (simp add: example_running_def example_ctx_def)
  then have "tree_inv counter_ids example_running" by (simp add: run_inv_def)
  moreover have "has (st_agents example_running) ''a''" using example_running_state by (auto simp: has_def split: option.splits)
  ultimately show ?thesis by (rule subtreeSignal_latest) (simp add: memo_ok_def)
qed

end
