(* ===== verification/Core_Status.thy ===== *)
theory Core_Status
  imports Core_Liveness
begin

text \<open>
  How statuses are derived (src/packages/core/src/status.ts, status-inputs.ts, background-hold.ts,
  external.ts, human.ts). The status of an agent depends on its children that still hold its
  completion, whose relevance depends on their status: the source resolves this with two mutually
  recursive, memoised closures guarded by visiting sets. They are modelled with their memo tables
  in a record \<open>memo\<close>, their call stacks as lists, and fuel for the recursion.
\<close>

subsection \<open>JSON equality (status.ts)\<close>

fun json_equal :: "json \<Rightarrow> json \<Rightarrow> bool" where
  "json_equal (JArr xs) (JArr ys) \<longleftrightarrow> length xs = length ys \<and> list_all (\<lambda>(x, y). json_equal x y) (zip xs ys)"
| "json_equal (JObj fs) (JObj gs) \<longleftrightarrow> length fs = length gs \<and>
     list_all (\<lambda>(k, v). case map_of gs k of None \<Rightarrow> False | Some w \<Rightarrow> json_equal v w) fs"
| "json_equal v w \<longleftrightarrow> v = w"

fun status_equal :: "agent_status \<Rightarrow> agent_status \<Rightarrow> bool" where
  "status_equal (Failed e) (Failed f) \<longleftrightarrow> err_kind e = err_kind f \<and> err_message e = err_message f \<and>
     json_equal (JObj (err_rest e)) (JObj (err_rest f))"
| "status_equal a b \<longleftrightarrow> a = b"

fun thread_status_equal :: "thread_status \<Rightarrow> thread_status \<Rightarrow> bool" where
  "thread_status_equal (Waiting on fs) (Waiting on' gs) \<longleftrightarrow> on = on' \<and> json_equal (JObj fs) (JObj gs)"
| "thread_status_equal a b \<longleftrightarrow> a = b"

subsection \<open>Human attention, external threads and background work (human.ts, external.ts, background-hold.ts)\<close>

fun is_working :: "agent_status \<Rightarrow> bool" where
  "is_working (Working _ _ _) = True"
| "is_working _ = False"

definition isActionableInteraction :: "interaction \<Rightarrow> agent_status option \<Rightarrow> bool" where
  "isActionableInteraction i owner \<longleftrightarrow> int_state i = Int_pending \<and>
     (int_blocking i \<or> (case owner of None \<Rightarrow> True | Some st \<Rightarrow> \<not> is_working st))"

fun waiting_reason :: "waiting_on \<Rightarrow> blocked_reason" where
  "waiting_reason On_background_task = Background_task"
| "waiting_reason On_rate_limit = Rate_limit"
| "waiting_reason On_network = Network"
| "waiting_reason On_upstream = Upstream"
| "waiting_reason On_queue = Queue"

fun externalAgentStatus :: "thread_status \<Rightarrow> ident \<Rightarrow> agent_status" where
  "externalAgentStatus (Needs_you _) t = Blocked Human [t] None None None"
| "externalAgentStatus (Thread_working _) t = Working Responding None None"
| "externalAgentStatus (Waiting on _) t = Blocked (waiting_reason on) [t] None None None"
| "externalAgentStatus (Limited until) t = Blocked Rate_limit [t] until None None"
| "externalAgentStatus Thread_unresponsive t = Unresponsive 0"
| "externalAgentStatus New t = Starting"
| "externalAgentStatus Thread_failed t = Failed \<lparr>err_kind = Err_provider, err_message = ''Delegated thread failed'', err_rest = []\<rparr>"
| "externalAgentStatus Done t = Idle"

definition readyForChildResults :: "'a state \<Rightarrow> bool" where
  "readyForChildResults s \<longleftrightarrow> st_queueProvider s = 0 \<and>
     list_all (\<lambda>r. ar_externalStatus r \<noteq> None \<or>
       (ar_activeRun r = None \<and> ar_retry r = None \<and> ar_limited r = None \<and> ar_disconnectedAt r = None))
       (ovalues (st_agents s)) \<and>
     okeys (pendingInteractions (st_indexes s)) = [] \<and> okeys (runningTasks (st_indexes s)) = [] \<and>
     okeys (liveTools (st_indexes s)) = []"

definition holdsThread :: "background_task \<Rightarrow> bool \<Rightarrow> bool" where
  "holdsThread task turnFinished =
     (if task_ambient task then False
      else if \<not> turnFinished then True
      else \<not> task_wakesAgent_false task \<and> given (task_listening task) [] = [])"

definition leftRunning :: "background_task \<Rightarrow> bool \<Rightarrow> bool" where
  "leftRunning task turnFinished \<longleftrightarrow>
     task_status task = Task_running \<and> \<not> task_ambient task \<and> \<not> holdsThread task turnFinished"

subsection \<open>Inputs of a pass (status-inputs.ts)\<close>

definition ownerTurnFinished :: "'a state \<Rightarrow> background_task \<Rightarrow> bool" where
  "ownerTurnFinished s task =
     (case Option.bind (get (agentKeysById (st_indexes s)) (task_agentId task)) (get (st_agents s)) of
        None \<Rightarrow> False
      | Some r \<Rightarrow>
          if ar_activeRun r \<noteq> None then False
          else (case Option.bind (ar_lastRun r) (get (st_runs s)) of
              None \<Rightarrow> False | Some run \<Rightarrow> run_state run = Run_completed))"

definition taskHoldsThread :: "'a state \<Rightarrow> background_task \<Rightarrow> bool" where
  "taskHoldsThread s task = holdsThread task (ownerTurnFinished s task)"

record status_inputs =
  in_waits :: "(ident \<times> key list) list"
  in_transport :: timestamp
  in_interactions :: "interaction list"
  in_tasks :: "background_task list"
  in_tools :: "item list"
  in_owners :: "ident list"

definition statusInputs :: "'a state \<Rightarrow> status_inputs" where
  "statusInputs s =
     (let interactions = List.map_filter (get (st_interactions s)) (pendingInteractionKeys s None);
          tasks = filter (taskHoldsThread s) (List.map_filter (get (st_tasks s)) (runningTaskKeys s None));
          tools = filter isLiveTool (List.map_filter (get (st_items s)) (liveToolKeys s None));
          waits = List.map_filter (\<lambda>k. case Option.bind (get (st_itemLinks s) k) lk_waitingFor of
              None \<Rightarrow> None
            | Some targets \<Rightarrow> (case get (st_items s) k of
                None \<Rightarrow> None
              | Some i \<Rightarrow> if is_call (Some i) then Some (item_agentId i, targets) else None)) (liveToolKeys s None)
      in \<lparr>in_waits = waits, in_transport = transportSignalAt s, in_interactions = interactions,
          in_tasks = tasks, in_tools = tools,
          in_owners = map int_agentId interactions @ map task_agentId tasks @ map item_agentId tools\<rparr>)"

text \<open>\<open>byAgent(values).get(id) ?? []\<close>.\<close>

definition of_agent :: "('v \<Rightarrow> ident) \<Rightarrow> ident \<Rightarrow> 'v list \<Rightarrow> 'v list" where
  "of_agent owner a xs = filter (\<lambda>x. owner x = a) xs"

definition suppressesActiveSilence :: "ident list \<Rightarrow> ident \<Rightarrow> nat \<Rightarrow> bool" where
  "suppressesActiveSilence waitingOwners agentId liveChildren \<longleftrightarrow> agentId \<in> set waitingOwners \<or> liveChildren > 0"

subsection \<open>Completion relevance (status.ts)\<close>

text \<open>The memo tables of one pass: resolved statuses, the two relevance caches, subtree signals.\<close>

record memo =
  m_resolved :: "agent_status dict"
  m_holds :: "bool dict"
  m_relevant :: "bool dict"
  m_signals :: signals

definition no_memo :: memo where
  "no_memo = \<lparr>m_resolved = [], m_holds = [], m_relevant = [], m_signals = []\<rparr>"

type_synonym 'v pass = "memo \<Rightarrow> ('v \<times> memo) option"

fun any_of :: "(key \<Rightarrow> bool pass) \<Rightarrow> key list \<Rightarrow> bool pass" where
  "any_of f [] m = Some (False, m)"
| "any_of f (k # ks) m = Option.bind (f k m) (\<lambda>(b, m'). if b then Some (True, m') else any_of f ks m')"

fun keep_if :: "(key \<Rightarrow> bool pass) \<Rightarrow> key list \<Rightarrow> key list pass" where
  "keep_if f [] m = Some ([], m)"
| "keep_if f (k # ks) m = Option.bind (f k m) (\<lambda>(b, m'). Option.bind (keep_if f ks m')
     (\<lambda>(rest, m''). Some (if b then k # rest else rest, m'')))"

text \<open>The owners of live tools, pending interactions and holding tasks: the default argument.\<close>

definition waiting_owners :: "'a state \<Rightarrow> ident list" where
  "waiting_owners s =
     List.map_filter (\<lambda>k. case get (st_items s) k of None \<Rightarrow> None
       | Some i \<Rightarrow> if is_call (Some i) then Some (item_agentId i) else None) (liveToolKeys s None) @
     List.map_filter (\<lambda>k. map_option int_agentId (get (st_interactions s) k)) (pendingInteractionKeys s None) @
     map task_agentId (filter (taskHoldsThread s) (List.map_filter (get (st_tasks s)) (runningTaskKeys s None)))"

definition limited_at_rest :: "'a state \<Rightarrow> ident list \<Rightarrow> key \<Rightarrow> agent_record \<Rightarrow> bool" where
  "limited_at_rest s owners k r \<longleftrightarrow> Some k \<noteq> st_rootKey s \<and> ar_limited r \<noteq> None \<and> ar_activeRun r = None \<and>
     ar_retry r = None \<and> ar_disconnectedAt r = None \<and> a_id (ar_agent r) \<notin> set owners"

definition evidently_relevant :: "'a state \<Rightarrow> ident list \<Rightarrow> key \<Rightarrow> agent_record \<Rightarrow> agent_status \<Rightarrow> bool" where
  "evidently_relevant s owners k r status \<longleftrightarrow> \<not> limited_at_rest s owners k r \<and>
     (Some k = st_rootKey s \<or> \<not> is_unresponsive_status status \<or> ar_disconnectedAt r \<noteq> None \<or>
      ar_activeRun r \<noteq> None \<or> ar_lastRun r \<noteq> None \<or> ar_retry r \<noteq> None \<or> a_id (ar_agent r) \<in> set owners)"

text \<open>\<open>completionRelevance(state, statusOf, waitingOwners)\<close>; \<open>rd\<close> and \<open>wr\<close> access its cache,
  \<open>visiting\<close> is its call stack, which \<open>statusOf\<close> receives because it may call back.\<close>

fun relevant :: "nat \<Rightarrow> 'a state \<Rightarrow> ident list \<Rightarrow> (memo \<Rightarrow> bool dict) \<Rightarrow> ((bool dict \<Rightarrow> bool dict) \<Rightarrow> memo \<Rightarrow> memo) \<Rightarrow>
    (key list \<Rightarrow> key \<Rightarrow> agent_status pass) \<Rightarrow> key list \<Rightarrow> key \<Rightarrow> bool pass" where
  "relevant 0 s owners rd wr statusOf visiting k m = None"
| "relevant (Suc n) s owners rd wr statusOf visiting k m = (case get (rd m) k of
       Some prior \<Rightarrow> Some (prior, m)
     | None \<Rightarrow> (case get (st_agents s) k of
         None \<Rightarrow> Some (False, m)
       | Some r \<Rightarrow> Option.bind (statusOf visiting k m) (\<lambda>(status, m1).
           if isSettled status then Some (False, m1)
           else if ar_externalStatus r \<noteq> None then Some (True, m1)
           else if evidently_relevant s owners k r status then Some (True, m1)
           else if k \<in> set visiting then Some (True, m1)
           else Option.bind (any_of (\<lambda>child. relevant n s owners rd wr statusOf (k # visiting) child)
                  (childKeys (st_indexes s) (a_id (ar_agent r))) m1)
                (\<lambda>(live, m2). Some (live, wr (\<lambda>d. put d k live) m2)))))"

subsection \<open>Deriving the status of an agent (status.ts)\<close>

definition exit_status :: "process_exit \<Rightarrow> agent_status" where
  "exit_status e = (if exit_deliberate e then Interrupted
     else Failed \<lparr>err_kind = Err_process_exit, err_message = given (exit_message e) ''Provider process exited'', err_rest = []\<rparr>)"

fun retry_reason :: "retry_on \<Rightarrow> blocked_reason" where
  "retry_reason On_rate_limit_retry = Rate_limit"
| "retry_reason On_network_retry = Network"
| "retry_reason On_upstream_retry = Upstream"

definition tool_child :: "item \<Rightarrow> ident option" where
  "tool_child i = (case item_body i of
       Tool_call c \<Rightarrow> if det_kind (call_detail c) = K_agent_spawn then det_childAgentId (call_detail c) else None
     | _ \<Rightarrow> None)"

definition agent_id :: "'a state \<Rightarrow> key \<Rightarrow> ident option" where
  "agent_id s k = map_option (\<lambda>r. a_id (ar_agent r)) (get (st_agents s) k)"

text \<open>The foreground children: spawn calls whose child is not in the background and still holds completion.\<close>

fun foreground_children :: "'a state \<Rightarrow> (key \<Rightarrow> bool pass) \<Rightarrow> item list \<Rightarrow> ident list pass" where
  "foreground_children s holds [] m = Some ([], m)"
| "foreground_children s holds (i # tools) m =
     (case Option.bind (tool_child i) (get (agentKeysById (st_indexes s))) of
        None \<Rightarrow> foreground_children s holds tools m
      | Some child \<Rightarrow>
          if (case get (st_agents s) child of None \<Rightarrow> False | Some r \<Rightarrow> a_background (ar_agent r))
          then foreground_children s holds tools m
          else Option.bind (holds child m) (\<lambda>(b, m'). Option.bind (foreground_children s holds tools m')
            (\<lambda>(rest, m''). Some ((if b then (case agent_id s child of None \<Rightarrow> rest | Some a \<Rightarrow> a # rest) else rest), m''))))"

definition call_started :: "item \<Rightarrow> timestamp" where
  "call_started i = (case item_body i of Tool_call c \<Rightarrow> call_startedAt c | _ \<Rightarrow> 0)"

definition newer :: "item option \<Rightarrow> item \<Rightarrow> item option" where
  "newer newest i = (case newest of None \<Rightarrow> Some i
     | Some b \<Rightarrow>
         if call_started i > call_started b \<or> (call_started i = call_started b \<and> item_createdAt i \<ge> item_createdAt b)
         then Some i else Some b)"

text \<open>The status while a run is active: waits, own tools, foreground children, silence, activity.\<close>

definition derive_active :: "'a state \<Rightarrow> timestamp \<Rightarrow> status_inputs \<Rightarrow> (key \<Rightarrow> bool pass) \<Rightarrow>
    key \<Rightarrow> agent_record \<Rightarrow> key list \<Rightarrow> agent_status pass" where
  "derive_active s t env holds k r liveChildren m =
     (let agentId = a_id (ar_agent r);
          waits = filter (\<lambda>p. fst p = agentId) (in_waits env);
          tools = of_agent item_agentId agentId (in_tools env)
      in if waits \<noteq> [] then
           Some (Blocked Subagents (List.map_filter (agent_id s)
             (filter (\<lambda>c. list_ex (\<lambda>(a, targets). targets = [] \<or> c \<in> set targets) waits) liveChildren)) None None None, m)
         else Option.bind (foreground_children s holds tools m) (\<lambda>(foreground, m1).
           case foldl newer None (filter (\<lambda>i. case tool_child i of None \<Rightarrow> True | Some c \<Rightarrow> c \<notin> set foreground) tools) of
             Some newest \<Rightarrow> Some (Working Tool (Some (item_id newest)) None, m1)
           | None \<Rightarrow>
               if foreground \<noteq> [] then Some (Blocked Subagents (rev (remdups (rev foreground))) None None None, m1)
               else if \<not> by_transport (st_config s) \<and>
                    \<not> suppressesActiveSilence (in_owners env) agentId (length liveChildren)
               then Option.bind (subtreeSignal s k (m_signals m1)) (\<lambda>(signal, sg).
                 Some (if t - signal > cfg_silenceMs (st_config s) then Unresponsive signal
                       else Working (ar_activity r) None (ar_detail r), m1\<lparr>m_signals := sg\<rparr>))
               else Some (Working (ar_activity r) None (ar_detail r), m1)))"

definition outcome_status :: "'a state \<Rightarrow> agent_record \<Rightarrow> ident \<Rightarrow> agent_status" where
  "outcome_status s r lastRun = (case get (st_runs s) lastRun of
       None \<Rightarrow> Idle
     | Some run \<Rightarrow>
         if run_state run = Run_interrupted then Interrupted
         else if run_state run = Run_failed
         then Failed (given (ar_lastError r) \<lparr>err_kind = Err_unknown, err_message = ''Agent turn failed'', err_rest = []\<rparr>)
         else Idle)"

text \<open>The status without an active run: an expected wake, a settled process, silence, background work, the last outcome.\<close>

definition derive_resting :: "'a state \<Rightarrow> timestamp \<Rightarrow> key \<Rightarrow> agent_record \<Rightarrow> string list \<Rightarrow> agent_status pass" where
  "derive_resting s t k r backgroundRefs m =
     (if (case ar_wakeUntil r of None \<Rightarrow> False | Some u \<Rightarrow> t < u) then Some (Working Starting_turn None None, m)
      else (case ar_processSettledStatus r of
          Some st \<Rightarrow> Some (st, m)
        | None \<Rightarrow> (case ar_lastRun r of
            None \<Rightarrow>
              if Some k = st_rootKey s \<and> \<not> st_hasRun s \<and> a_fidelity (ar_agent r) \<noteq> Placeholder then Some (Starting, m)
              else Option.bind (subtreeSignal s k (m_signals m)) (\<lambda>(signal, sg).
                Some (if t - signal > cfg_silenceMs (st_config s) then Unresponsive signal else Starting, m\<lparr>m_signals := sg\<rparr>))
          | Some lastRun \<Rightarrow>
              if backgroundRefs \<noteq> [] then Some (Blocked Background_task backgroundRefs None None None, m)
              else Some (outcome_status s r lastRun, m))))"

definition background_refs :: "'a state \<Rightarrow> background_task list \<Rightarrow> key list \<Rightarrow> string list" where
  "background_refs s tasks liveChildren = map task_id tasks @
     List.map_filter (agent_id s) (filter (\<lambda>c. \<not> list_ex (\<lambda>task. task_childAgentId task = agent_id s c) tasks) liveChildren)"

definition derive :: "'a state \<Rightarrow> timestamp \<Rightarrow> status_inputs \<Rightarrow> (key \<Rightarrow> bool pass) \<Rightarrow> key \<Rightarrow> agent_record \<Rightarrow> agent_status pass" where
  "derive s t env holds k r m =
     (let agent = ar_agent r;
          blocking = filter int_blocking (of_agent int_agentId (a_id agent) (in_interactions env)) in
      case (ar_externalStatus r, a_childThreadId agent) of
        (Some ext, Some child) \<Rightarrow> Some (externalAgentStatus ext child, m)
      | _ \<Rightarrow> (case ar_limited r of
          Some l \<Rightarrow> Some (Blocked Rate_limit [] (lim_until l) None (lim_message l), m)
        | None \<Rightarrow> (case st_processExit s of
            Some e \<Rightarrow> Some (if k \<in> set (exit_unsettled e) then exit_status e
              else if isSettled (a_status agent) then a_status agent else exit_status e, m)
          | None \<Rightarrow>
              if blocking \<noteq> [] then Some (Blocked Human (map int_id blocking) None None None, m)
              else (case ar_disconnectedAt r of
                Some d \<Rightarrow> Some (Unresponsive d, m)
              | None \<Rightarrow> (case ar_retry r of
                  Some y \<Rightarrow> Some (Blocked (retry_reason (rt_on y)) [] (rt_until y) (rt_attempt y) (rt_message y), m)
                | None \<Rightarrow> Option.bind (keep_if holds (childKeys (st_indexes s) (a_id agent)) m) (\<lambda>(liveChildren, m1).
                    if ar_activeRun r \<noteq> None then derive_active s t env holds k r liveChildren m1
                    else derive_resting s t k r
                      (background_refs s (of_agent task_agentId (a_id agent) (in_tasks env)) liveChildren) m1))))))"

definition transport_silent :: "'a state \<Rightarrow> timestamp \<Rightarrow> status_inputs \<Rightarrow> agent_record \<Rightarrow> agent_status \<Rightarrow> bool" where
  "transport_silent s t env r status \<longleftrightarrow> ar_externalStatus r = None \<and> by_transport (st_config s) \<and>
     st_processExit s = None \<and> ar_limited r = None \<and> \<not> isSettled status \<and>
     t - in_transport env > cfg_silenceMs (st_config s)"

text \<open>\<open>resolve(key)\<close>, with \<open>holdsCompletion\<close> as the relevance closure it shares its call stacks with;
  an unknown key throws.\<close>

fun resolve :: "nat \<Rightarrow> 'a state \<Rightarrow> timestamp \<Rightarrow> status_inputs \<Rightarrow> key list \<Rightarrow> key list \<Rightarrow> key \<Rightarrow> agent_status pass" where
  "resolve 0 s t env visiting holding k m = None"
| "resolve (Suc n) s t env visiting holding k m = (case get (m_resolved m) k of
       Some status \<Rightarrow> Some (status, m)
     | None \<Rightarrow> (case get (st_agents s) k of
         None \<Rightarrow> None
       | Some r \<Rightarrow>
           if k \<in> set visiting then Some (Starting, m)
           else Option.bind (derive s t env (\<lambda>c. relevant (agent_count s + 2) s (in_owners env) m_holds m_holds_update
                  (\<lambda>hs c. resolve n s t env (k # visiting) hs c) holding c) k r m)
                (\<lambda>(status, m1).
                  let status' = (if transport_silent s t env r status then Unresponsive (in_transport env) else status)
                  in Some (status', m1\<lparr>m_resolved := put (m_resolved m1) k status'\<rparr>))))"

definition resolve_status :: "'a state \<Rightarrow> timestamp \<Rightarrow> status_inputs \<Rightarrow> key \<Rightarrow> agent_status pass" where
  "resolve_status s t env k = resolve (agent_count s + 2) s t env [] [] k"

definition deriveAgentStatus :: "'a state \<Rightarrow> key \<Rightarrow> timestamp \<Rightarrow> agent_status option" where
  "deriveAgentStatus s k t = map_option fst (resolve_status s t (statusInputs s) k no_memo)"

text \<open>\<open>relevant(key)\<close> of \<open>recomputeStatuses\<close>: a second closure over the same \<open>resolve\<close>.\<close>

definition relevant_status :: "'a state \<Rightarrow> timestamp \<Rightarrow> status_inputs \<Rightarrow> key \<Rightarrow> bool pass" where
  "relevant_status s t env k = relevant (agent_count s + 2) s (waiting_owners s) m_relevant m_relevant_update
     (\<lambda>_ c. resolve_status s t env c) [] k"

text \<open>The relevance read from persisted statuses.\<close>

definition stored_status :: "'a state \<Rightarrow> key list \<Rightarrow> key \<Rightarrow> agent_status pass" where
  "stored_status s visiting k m = map_option (\<lambda>r. (a_status (ar_agent r), m)) (get (st_agents s) k)"

definition completionRelevanceReader :: "'a state \<Rightarrow> key \<Rightarrow> bool pass" where
  "completionRelevanceReader s k = relevant (agent_count s + 2) s (waiting_owners s) m_relevant m_relevant_update
     (stored_status s) [] k"

subsection \<open>The status of the thread (status.ts)\<close>

definition blocked_on :: "blocked_reason \<Rightarrow> agent_status \<Rightarrow> bool" where
  "blocked_on reason st = (case st of Blocked on _ _ _ _ \<Rightarrow> on = reason | _ \<Rightarrow> False)"

text \<open>\<open>new Map(records.map(record => [record.agent.id, record.agent.status])).get(id)\<close>: the last entry wins.\<close>

definition status_by_id :: "'a state \<Rightarrow> ident \<Rightarrow> agent_status option" where
  "status_by_id s i = map_of (rev (map (\<lambda>r. (a_id (ar_agent r), a_status (ar_agent r))) (ovalues (st_agents s)))) i"

definition actionable :: "'a state \<Rightarrow> interaction list" where
  "actionable s = filter (\<lambda>i. isActionableInteraction i (status_by_id s (int_agentId i)))
     (List.map_filter (get (st_interactions s)) (pendingInteractionKeys s None))"

definition external_human :: "agent_record list \<Rightarrow> nat" where
  "external_human rs = foldl (\<lambda>n r. n + (case ar_externalStatus r of Some (Needs_you i) \<Rightarrow> i | _ \<Rightarrow> 0)) 0 rs"

definition root_id :: "'a state \<Rightarrow> ident option" where
  "root_id s = Option.bind (st_rootKey s) (agent_id s)"

definition counts_working :: "'a state \<Rightarrow> agent_record \<Rightarrow> bool" where
  "counts_working s r = (case a_status (ar_agent r) of
       Starting \<Rightarrow> st_hasRun s \<or> Some (a_id (ar_agent r)) \<noteq> root_id s
     | Working _ _ _ \<Rightarrow> True
     | Blocked Subagents refs _ _ _ \<Rightarrow> refs = []
     | _ \<Rightarrow> False)"

definition limit_until :: "agent_status list \<Rightarrow> timestamp option" where
  "limit_until sts =
     (let limits = List.map_filter (\<lambda>st. case st of Blocked Rate_limit _ until _ _ \<Rightarrow> Some until | _ \<Rightarrow> None) sts
      in if list_all (\<lambda>l. l \<noteq> None) limits then Some (Max (set (List.map_filter id limits))) else None)"

definition any_task_holds :: "'a state \<Rightarrow> bool" where
  "any_task_holds s = list_ex (\<lambda>k. case get (st_tasks s) k of None \<Rightarrow> False | Some task \<Rightarrow> taskHoldsThread s task)
     (runningTaskKeys s None)"

definition lost_contact :: "agent_record \<Rightarrow> bool" where
  "lost_contact r \<longleftrightarrow> (ar_disconnectedAt r \<noteq> None \<or> ar_externalStatus r = Some Thread_unresponsive) \<and>
     is_unresponsive_status (a_status (ar_agent r))"

definition waits_in_queue :: "agent_record \<Rightarrow> bool" where
  "waits_in_queue r = (case ar_externalStatus r of Some (Waiting On_queue _) \<Rightarrow> True | _ \<Rightarrow> False)"

definition is_failed :: "agent_record \<Rightarrow> bool" where
  "is_failed r = (case a_status (ar_agent r) of Failed _ \<Rightarrow> True | _ \<Rightarrow> False)"

definition resting_queue :: "'a state \<Rightarrow> bool" where
  "resting_queue s \<longleftrightarrow> st_queueStopped s \<and> st_queueProvider s = 0"

text \<open>\<open>Object.keys(state.agents).some(key => ... unresponsive && holdsCompletion(key))\<close>.\<close>

definition silent_work :: "'a state \<Rightarrow> bool option" where
  "silent_work s = map_option fst (any_of (\<lambda>k m. case get (st_agents s) k of
       None \<Rightarrow> None
     | Some r \<Rightarrow> if is_unresponsive_status (a_status (ar_agent r)) then completionRelevanceReader s k m else Some (False, m))
     (okeys (st_agents s)) no_memo)"

definition failure_stands :: "'a state \<Rightarrow> bool" where
  "failure_stands s =
     (let root = Option.bind (st_rootKey s) (get (st_agents s));
          successOrder = (case Option.bind root ar_lastSuccessfulOutcomeOrder of None \<Rightarrow> 0 | Some n \<Rightarrow> n)
      in (case root of None \<Rightarrow> False | Some r \<Rightarrow> is_failed r) \<or>
         list_ex (\<lambda>r. is_failed r \<and> given (ar_lastOutcomeOrder r) 0 > successOrder) (ovalues (st_agents s)))"

definition deriveThreadStatus :: "'a state \<Rightarrow> thread_status option" where
  "deriveThreadStatus s =
     (let records = ovalues (st_agents s);
          statuses = map (\<lambda>r. a_status (ar_agent r)) records;
          human = length (actionable s) + external_human records;
          working = length (filter (counts_working s) records)
      in if human > 0 then Some (Needs_you human)
         else if working > 0 then Some (Thread_working working)
         else if list_ex (blocked_on Rate_limit) statuses then Some (Limited (limit_until statuses))
         else if list_ex (blocked_on Network) statuses then Some (Waiting On_network [])
         else if list_ex (blocked_on Upstream) statuses then Some (Waiting On_upstream [])
         else if any_task_holds s then Some (Waiting On_background_task [])
         else if list_ex lost_contact records then Some Thread_unresponsive
         else if list_ex (\<lambda>st. blocked_on Background_task st \<or> blocked_on Subagents st) statuses
         then Some (Waiting On_background_task [])
         else if st_queueHeld s \<and> st_queueProvider s = 0 then Some Thread_failed
         else if (st_queueCount s > 0 \<and> \<not> resting_queue s) \<or> list_ex waits_in_queue records
         then Some (Waiting On_queue [])
         else Option.bind (silent_work s) (\<lambda>silent.
           Some (if silent then Thread_unresponsive
             else if failure_stands s then Thread_failed
             else if \<not> st_hasRun s then (case st_processExit s of
                 None \<Rightarrow> New | Some e \<Rightarrow> if exit_deliberate e then Done else Thread_failed)
             else Done)))"

subsection \<open>Recomputing (status.ts)\<close>

text \<open>
  \<open>recomputeStatuses\<close>. The loop writes a record's status only after it has been resolved and
  cached, and what it resolves for other agents reads of a record nothing the loop writes, so all
  statuses are resolved against the state the loop starts from.
\<close>

fun resolve_each :: "(key \<Rightarrow> agent_status pass) \<Rightarrow> (key \<Rightarrow> bool pass) \<Rightarrow> key list \<Rightarrow> (key \<times> agent_status \<times> bool) list pass" where
  "resolve_each res rel [] m = Some ([], m)"
| "resolve_each res rel (k # ks) m = Option.bind (res k m) (\<lambda>(st, m1). Option.bind (rel k m1) (\<lambda>(b, m2).
     Option.bind (resolve_each res rel ks m2) (\<lambda>(rest, m3). Some ((k, st, b) # rest, m3))))"

definition write_status :: "key \<times> agent_status \<times> bool \<Rightarrow> world \<Rightarrow> world" where
  "write_status p w = (case p of (k, status, rel) \<Rightarrow> (case get (st_agents w) k of
       None \<Rightarrow> w
     | Some r \<Rightarrow>
         if status_equal (a_status (ar_agent r)) status \<and> ar_completionRelevant r = Some rel then w
         else
           let w1 = (if isSettled (a_status (ar_agent r)) \<and> \<not> isSettled status then announceAgentBranch k w else w)
           in emit (Agent_status_changed (a_id (ar_agent r)) status rel)
                (upd_agent k (\<lambda>r. r\<lparr>ar_agent := (ar_agent r)\<lparr>a_status := status\<rparr>, ar_completionRelevant := Some rel\<rparr>) w1)))"

definition write_thread_status :: "thread_status \<Rightarrow> world \<Rightarrow> world" where
  "write_thread_status status w =
     (if thread_status_equal (st_status w) status then w
      else emit (Thread_updated status) (w\<lparr>st_status := status\<rparr>))"

definition recomputeStatuses :: "timestamp \<Rightarrow> world \<Rightarrow> world option" where
  "recomputeStatuses t w0 =
     (let w = w0\<lparr>st_statusObservedAt := Some t\<rparr>; env = statusInputs w in do {
       (statuses, m) \<leftarrow> resolve_each (resolve_status w t env) (relevant_status w t env) (okeys (st_agents w)) no_memo;
       let w1 = fold write_status statuses w;
       status \<leftarrow> deriveThreadStatus w1;
       Some (write_thread_status status w1)
     })"

lemma example_recompute:
  "map_option st_status (recomputeStatuses 6 example_running) = Some (Thread_working 1)"
  by code_simp

end
