(* ===== verification/Core_Status_Inv.thy ===== *)
theory Core_Status_Inv
  imports Core_Status
begin

text \<open>
  What the derivation of statuses guarantees: it returns on every state, cyclic or not; it keeps
  the runs, the indexes and the tree; and a thread reads \<open>done\<close> only when nothing in it is alive.
\<close>

subsection \<open>The passes return\<close>

definition returns_on :: "(key \<Rightarrow> bool) \<Rightarrow> (key \<Rightarrow> 'v pass) \<Rightarrow> bool" where
  "returns_on P f \<longleftrightarrow> (\<forall>k m. P k \<longrightarrow> f k m \<noteq> None)"

lemma returns_onD: "returns_on P f \<Longrightarrow> P k \<Longrightarrow> \<exists>v m'. f k m = Some (v, m')"
  by (fastforce simp: returns_on_def)

lemma any_of_total: "returns_on P f \<Longrightarrow> \<forall>k \<in> set ks. P k \<Longrightarrow> \<exists>b m'. any_of f ks m = Some (b, m')"
proof (induction ks arbitrary: m)
  case (Cons k ks)
  then obtain b m1 where "f k m = Some (b, m1)" using returns_onD [of P f k m] by auto
  with Cons show ?case by (cases b) auto
qed auto

lemma keep_if_total: "returns_on P f \<Longrightarrow> \<forall>k \<in> set ks. P k \<Longrightarrow> \<exists>v m'. keep_if f ks m = Some (v, m')"
proof (induction ks arbitrary: m)
  case (Cons k ks)
  then obtain b m1 where "f k m = Some (b, m1)" using returns_onD [of P f k m] by auto
  moreover from Cons obtain v m2 where "keep_if f ks m1 = Some (v, m2)" by fastforce
  ultimately show ?case by simp
qed simp

lemma foreground_children_total:
  "returns_on (\<lambda>_. True) holds \<Longrightarrow> \<exists>v m'. foreground_children s holds tools m = Some (v, m')"
proof (induction tools arbitrary: m)
  case (Cons i tools)
  show ?case
  proof (cases "Option.bind (tool_child i) (get (agentKeysById (st_indexes s)))")
    case None
    with Cons show ?thesis by simp
  next
    case (Some child)
    obtain b m1 where "holds child m = Some (b, m1)" using returns_onD [OF Cons.prems] by blast
    moreover obtain v m2 where "foreground_children s holds tools m1 = Some (v, m2)" using Cons by blast
    ultimately show ?thesis using Some Cons by simp
  qed
qed simp

lemma unvisited_le: "unvisited s visiting \<le> agent_count s"
proof -
  have "unvisited s visiting \<le> card {k. has (st_agents s) k}"
    unfolding unvisited_def by (rule card_mono [OF finite_has]) auto
  also have "\<dots> = agent_count s" using unvisited_Nil [of s] by (simp add: unvisited_def)
  finally show ?thesis .
qed

lemma relevant_total:
  assumes st: "\<And>v. returns_on (has (st_agents s)) (statusOf v)"
  shows "unvisited s visiting + 1 < n \<Longrightarrow> \<exists>b m'. relevant n s owners rd wr statusOf visiting k m = Some (b, m')"
proof (induction n arbitrary: visiting k m)
  case (Suc n)
  show ?case
  proof (cases "get (rd m) k = None \<and> has (st_agents s) k")
    case False
    then show ?thesis by (auto simp: has_def split: option.splits)
  next
    case True
    then obtain r where r: "get (st_agents s) k = Some r" by (auto simp: has_def)
    obtain status m1 where m1: "statusOf visiting k m = Some (status, m1)"
      using returns_onD [OF st] True by blast
    let ?open = "\<not> isSettled status \<and> ar_externalStatus r = None \<and> \<not> evidently_relevant s owners k r status \<and> k \<notin> set visiting"
    show ?thesis
    proof (cases ?open)
      case open_: True
      have "unvisited s (k # visiting) + 1 < n" using Suc.prems unvisited_step [of s k visiting] True open_ by simp
      then have "returns_on (\<lambda>_. True) (\<lambda>child. relevant n s owners rd wr statusOf (k # visiting) child)"
        using Suc.IH by (auto simp: returns_on_def)
      from any_of_total [OF this, of "childKeys (st_indexes s) (a_id (ar_agent r))" m1] obtain b m2 where
        "any_of (\<lambda>child. relevant n s owners rd wr statusOf (k # visiting) child)
           (childKeys (st_indexes s) (a_id (ar_agent r))) m1 = Some (b, m2)" by auto
      with True r m1 open_ show ?thesis by simp
    qed (use True r m1 in auto)
  qed
qed simp

lemma subtreeSignal_total: "\<exists>v c'. subtreeSignal s k c = Some (v, c')"
  using read_signal_total [of s "[]" "agent_count s + 2" k c] by (auto simp: subtreeSignal_def unvisited_Nil)

lemma derive_active_total:
  assumes "returns_on (\<lambda>_. True) holds"
  shows "\<exists>v m'. derive_active s t env holds k r live m = Some (v, m')"
proof -
  obtain fg m1 where fg: "foreground_children s holds (of_agent item_agentId (a_id (ar_agent r)) (in_tools env)) m = Some (fg, m1)"
    using foreground_children_total [OF assms] by blast
  obtain v c where "subtreeSignal s k (m_signals m1) = Some (v, c)" using subtreeSignal_total by blast
  with fg show ?thesis by (auto simp: derive_active_def Let_def split: option.splits)
qed

lemma derive_resting_total: "\<exists>v m'. derive_resting s t k r refs m = Some (v, m')"
proof -
  obtain v c where "subtreeSignal s k (m_signals m) = Some (v, c)" using subtreeSignal_total by blast
  then show ?thesis by (auto simp: derive_resting_def split: option.splits)
qed

text \<open>The status of an agent before its children are looked at, if the record already decides it.\<close>

definition early_status :: "'a state \<Rightarrow> status_inputs \<Rightarrow> key \<Rightarrow> agent_record \<Rightarrow> agent_status option" where
  "early_status s env k r =
     (let agent = ar_agent r;
          blocking = filter int_blocking (of_agent int_agentId (a_id agent) (in_interactions env)) in
      case (ar_externalStatus r, a_childThreadId agent) of
        (Some ext, Some child) \<Rightarrow> Some (externalAgentStatus ext child)
      | _ \<Rightarrow> (case ar_limited r of
          Some l \<Rightarrow> Some (Blocked Rate_limit [] (lim_until l) None (lim_message l))
        | None \<Rightarrow> (case st_processExit s of
            Some e \<Rightarrow> Some (if k \<in> set (exit_unsettled e) then exit_status e
              else if isSettled (a_status agent) then a_status agent else exit_status e)
          | None \<Rightarrow>
              if blocking \<noteq> [] then Some (Blocked Human (map int_id blocking) None None None)
              else (case ar_disconnectedAt r of
                Some d \<Rightarrow> Some (Unresponsive d)
              | None \<Rightarrow> map_option (\<lambda>y. Blocked (retry_reason (rt_on y)) [] (rt_until y) (rt_attempt y) (rt_message y)) (ar_retry r)))))"

definition late_status :: "'a state \<Rightarrow> timestamp \<Rightarrow> status_inputs \<Rightarrow> (key \<Rightarrow> bool pass) \<Rightarrow> key \<Rightarrow> agent_record \<Rightarrow> agent_status pass" where
  "late_status s t env holds k r m =
     Option.bind (keep_if holds (childKeys (st_indexes s) (a_id (ar_agent r))) m) (\<lambda>(liveChildren, m1).
       if ar_activeRun r \<noteq> None then derive_active s t env holds k r liveChildren m1
       else derive_resting s t k r
         (background_refs s (of_agent task_agentId (a_id (ar_agent r)) (in_tasks env)) liveChildren) m1)"

lemma derive_eq:
  "derive s t env holds k r m =
     (case early_status s env k r of Some st \<Rightarrow> Some (st, m) | None \<Rightarrow> late_status s t env holds k r m)"
  by (cases "ar_externalStatus r"; cases "a_childThreadId (ar_agent r)"; cases "ar_limited r"; cases "st_processExit s";
      cases "ar_disconnectedAt r"; cases "ar_retry r")
    (simp_all add: derive_def early_status_def late_status_def Let_def)

lemma derive_total:
  assumes "returns_on (\<lambda>_. True) holds"
  shows "\<exists>v m'. derive s t env holds k r m = Some (v, m')"
proof (cases "early_status s env k r")
  case None
  obtain live m1 where live: "keep_if holds (childKeys (st_indexes s) (a_id (ar_agent r))) m = Some (live, m1)"
    using keep_if_total [OF assms] by blast
  have a: "\<exists>v m'. derive_active s t env holds k r live m1 = Some (v, m')" by (rule derive_active_total [OF assms])
  have b: "\<exists>v m'. derive_resting s t k r refs m1 = Some (v, m')" for refs by (rule derive_resting_total)
  have "\<exists>v m'. late_status s t env holds k r m = Some (v, m')"
    using a b by (cases "ar_activeRun r = None") (simp_all add: late_status_def live)
  with None show ?thesis by (simp add: derive_eq)
qed (simp add: derive_eq)

lemma resolve_total:
  "unvisited s visiting + 1 < n \<Longrightarrow> has (st_agents s) k \<Longrightarrow>
     \<exists>v m'. resolve n s t env visiting holding k m = Some (v, m')"
proof (induction n arbitrary: visiting holding k m)
  case (Suc n)
  from Suc.prems(2) obtain r where r: "get (st_agents s) k = Some r" by (auto simp: has_def)
  show ?case
  proof (cases "get (m_resolved m) k = None \<and> k \<notin> set visiting")
    case False
    with r show ?thesis by (auto split: option.splits)
  next
    case True
    let ?holds = "\<lambda>c. relevant (agent_count s + 2) s (in_owners env) m_holds m_holds_update
        (\<lambda>hs c. resolve n s t env (k # visiting) hs c) holding c"
    have "unvisited s (k # visiting) + 1 < n"
      using Suc.prems unvisited_step [of s k visiting] True by simp
    then have res: "returns_on (has (st_agents s)) (\<lambda>c. resolve n s t env (k # visiting) hs c)" for hs
      using Suc.IH by (auto simp: returns_on_def)
    have "\<exists>b m'. ?holds c m = Some (b, m')" for c m
      by (rule relevant_total [OF res]) (use unvisited_le [of s holding] in simp)
    then have "returns_on (\<lambda>_. True) ?holds" unfolding returns_on_def by (metis option.distinct(1))
    from derive_total [OF this, of s t env k r m] obtain v m' where "derive s t env ?holds k r m = Some (v, m')" by blast
    with True r show ?thesis by (simp add: Let_def)
  qed
qed simp

lemma resolve_status_total: "returns_on (has (st_agents s)) (resolve_status s t env)"
proof -
  have "\<exists>v m'. resolve_status s t env k m = Some (v, m')" if "has (st_agents s) k" for k m
    unfolding resolve_status_def by (rule resolve_total) (simp_all add: unvisited_Nil that)
  then show ?thesis unfolding returns_on_def by (metis option.distinct(1))
qed

lemma relevant_status_total: "returns_on (\<lambda>_. True) (relevant_status s t env)"
proof -
  have "\<exists>b m'. relevant_status s t env k m = Some (b, m')" for k m
    unfolding relevant_status_def by (rule relevant_total [OF resolve_status_total]) (simp add: unvisited_Nil)
  then show ?thesis unfolding returns_on_def by (metis option.distinct(1))
qed

lemma completionRelevanceReader_total: "returns_on (\<lambda>_. True) (completionRelevanceReader s)"
proof -
  have st: "returns_on (has (st_agents s)) (stored_status s v)" for v
    by (auto simp: returns_on_def stored_status_def has_def)
  have "\<exists>b m'. completionRelevanceReader s k m = Some (b, m')" for k m
    unfolding completionRelevanceReader_def by (rule relevant_total [OF st]) (simp add: unvisited_Nil)
  then show ?thesis unfolding returns_on_def by (metis option.distinct(1))
qed

lemma silent_work_total: "\<exists>b. silent_work s = Some b"
proof -
  let ?f = "\<lambda>k m. case get (st_agents s) k of None \<Rightarrow> None
     | Some r \<Rightarrow> if is_unresponsive_status (a_status (ar_agent r)) then completionRelevanceReader s k m else Some (False, m)"
  have "returns_on (has (st_agents s)) ?f"
    unfolding returns_on_def
  proof (intro allI impI)
    fix k m assume "has (st_agents s) k"
    then obtain r where "get (st_agents s) k = Some r" by (auto simp: has_def)
    then show "?f k m \<noteq> None" using completionRelevanceReader_total [of s] by (auto simp: returns_on_def)
  qed
  from any_of_total [OF this, of "okeys (st_agents s)" no_memo] show ?thesis
    by (auto simp: silent_work_def)
qed

lemma deriveThreadStatus_total: "\<exists>status. deriveThreadStatus s = Some status"
  using silent_work_total [of s] by (auto simp: deriveThreadStatus_def Let_def)

lemma resolve_each_total:
  "returns_on P res \<Longrightarrow> returns_on P rel \<Longrightarrow> \<forall>k \<in> set ks. P k \<Longrightarrow> \<exists>v m'. resolve_each res rel ks m = Some (v, m')"
proof (induction ks arbitrary: m)
  case (Cons k ks)
  obtain st m1 where "res k m = Some (st, m1)" using Cons.prems returns_onD [of P res k m] by auto
  moreover obtain b m2 where "rel k m1 = Some (b, m2)" using Cons.prems returns_onD [of P rel k m1] by auto
  moreover obtain v m3 where "resolve_each res rel ks m2 = Some (v, m3)" using Cons by fastforce
  ultimately show ?case by simp
qed simp


subsection \<open>What a pass keeps of its memo tables\<close>

definition keeps :: "(memo \<Rightarrow> bool) \<Rightarrow> (key \<Rightarrow> 'v pass) \<Rightarrow> bool" where
  "keeps J f \<longleftrightarrow> (\<forall>k m v m'. f k m = Some (v, m') \<longrightarrow> J m \<longrightarrow> J m')"

lemma keepsD: "keeps J f \<Longrightarrow> f k m = Some (v, m') \<Longrightarrow> J m \<Longrightarrow> J m'"
  unfolding keeps_def by blast

lemma any_of_keeps: "keeps J f \<Longrightarrow> any_of f ks m = Some (b, m') \<Longrightarrow> J m \<Longrightarrow> J m'"
  by (induction ks arbitrary: m) (auto elim!: bind_SomeE split: if_splits dest: keepsD)

lemma keep_if_keeps: "keeps J f \<Longrightarrow> keep_if f ks m = Some (v, m') \<Longrightarrow> J m \<Longrightarrow> J m'"
proof (induction ks arbitrary: m v)
  case (Cons k ks)
  from Cons.prems(2) obtain b m1 rest where "f k m = Some (b, m1)" "keep_if f ks m1 = Some (rest, m')"
    by (auto elim!: bind_SomeE)
  with Cons show ?case by (blast dest: keepsD)
qed simp

lemma foreground_children_keeps:
  "keeps J holds \<Longrightarrow> foreground_children s holds tools m = Some (v, m') \<Longrightarrow> J m \<Longrightarrow> J m'"
proof (induction tools arbitrary: m v)
  case (Cons i tools)
  show ?case
  proof (cases "Option.bind (tool_child i) (get (agentKeysById (st_indexes s)))")
    case None
    with Cons show ?thesis by simp
  next
    case (Some child)
    show ?thesis
    proof (cases "case get (st_agents s) child of None \<Rightarrow> False | Some r \<Rightarrow> a_background (ar_agent r)")
      case True
      with Cons Some show ?thesis by simp
    next
      case False
      with Cons.prems(2) Some obtain b m1 rest where "holds child m = Some (b, m1)"
        "foreground_children s holds tools m1 = Some (rest, m')" by (auto elim!: bind_SomeE)
      with Cons show ?thesis by (blast dest: keepsD)
    qed
  qed
qed simp

lemma relevant_keeps:
  assumes st: "\<And>v. keeps J (statusOf v)"
    and wr: "\<And>m k b r status. J m \<Longrightarrow> get (st_agents s) k = Some r \<Longrightarrow> \<not> evidently_relevant s owners k r status \<Longrightarrow>
      (\<exists>v m0. statusOf v k m0 = Some (status, m0)) \<or> (\<forall>d. J (wr d m)) \<Longrightarrow> J (wr (\<lambda>d. put d k b) m)"
    and split_: "(\<forall>v k m status m'. statusOf v k m = Some (status, m') \<longrightarrow> m' = m) \<or> (\<forall>m d. J m \<longrightarrow> J (wr d m))"
  shows "keeps J (\<lambda>k. relevant n s owners rd wr statusOf visiting k)"
proof (induction n arbitrary: visiting)
  case (Suc n)
  show ?case
    unfolding keeps_def
  proof (intro allI impI)
    fix k m v m' assume e: "relevant (Suc n) s owners rd wr statusOf visiting k m = Some (v, m')" and J: "J m"
    show "J m'"
    proof (cases "get (rd m) k = None \<and> has (st_agents s) k")
      case False
      with e J show ?thesis by (auto simp: has_def split: option.splits)
    next
      case True
      then obtain r where r: "get (st_agents s) k = Some r" by (auto simp: has_def)
      with True e obtain status m1 where m1: "statusOf visiting k m = Some (status, m1)" by (auto elim!: bind_SomeE)
      have J1: "J m1" using keepsD [OF st m1 J] .
      show ?thesis
      proof (cases "isSettled status \<or> ar_externalStatus r \<noteq> None \<or> evidently_relevant s owners k r status \<or> k \<in> set visiting")
        case True
        with e r m1 \<open>get (rd m) k = None \<and> _\<close> J1 show ?thesis by (auto split: if_splits)
      next
        case open_: False
        with e r m1 True obtain live m2 where m2: "any_of (\<lambda>child. relevant n s owners rd wr statusOf (k # visiting) child)
            (childKeys (st_indexes s) (a_id (ar_agent r))) m1 = Some (live, m2)" and m': "m' = wr (\<lambda>d. put d k live) m2"
          by (auto elim!: bind_SomeE)
        have J2: "J m2" using any_of_keeps [OF Suc.IH m2 J1] .
        have "(\<exists>v m0. statusOf v k m0 = Some (status, m0)) \<or> (\<forall>d. J (wr d m2))"
          using split_ m1 J2 by blast
        with wr [OF J2 r] open_ m' show ?thesis by blast
      qed
    qed
  qed
qed (simp add: keeps_def)

subsection \<open>What a resolved status says\<close>

definition busy :: "agent_record \<Rightarrow> bool" where
  "busy r \<longleftrightarrow> ar_activeRun r \<noteq> None \<or> ar_retry r \<noteq> None \<or> ar_limited r \<noteq> None \<or> ar_disconnectedAt r \<noteq> None"

definition blocking_of :: "status_inputs \<Rightarrow> agent_record \<Rightarrow> interaction list" where
  "blocking_of env r = filter int_blocking (of_agent int_agentId (a_id (ar_agent r)) (in_interactions env))"

text \<open>The status of a busy agent of the thread's own process shows that it is busy.\<close>

definition shows_busy :: "status_inputs \<Rightarrow> agent_record \<Rightarrow> agent_status \<Rightarrow> bool" where
  "shows_busy env r st \<longleftrightarrow> is_working st \<or> blocked_on Rate_limit st \<or> blocked_on Network st \<or> blocked_on Upstream st \<or>
     blocked_on Subagents st \<or> (blocked_on Human st \<and> blocking_of env r \<noteq> []) \<or>
     (is_unresponsive_status st \<and> ar_limited r = None)"

definition fine :: "'a state \<Rightarrow> status_inputs \<Rightarrow> key \<Rightarrow> agent_status \<Rightarrow> bool" where
  "fine s env k st \<longleftrightarrow> (\<forall>r. get (st_agents s) k = Some r \<longrightarrow> ar_externalStatus r = None \<longrightarrow> st_processExit s = None \<longrightarrow>
     busy r \<longrightarrow> shows_busy env r st)"

lemma derive_active_shape:
  "derive_active s t env holds k r live m = Some (st, m') \<Longrightarrow>
     is_working st \<or> blocked_on Subagents st \<or> is_unresponsive_status st"
  unfolding derive_active_def Let_def
  by (auto simp: blocked_on_def elim!: bind_SomeE split: if_splits option.splits prod.splits)

lemma derive_fine:
  assumes "derive s t env holds k r m = Some (st, m')" "get (st_agents s) k = Some r"
  shows "fine s env k st"
proof (cases "ar_externalStatus r = None \<and> st_processExit s = None \<and> busy r")
  case True
  have on: "shows_busy env r (Blocked (retry_reason x) a b c d)" for x a b c d
    by (cases x) (simp_all add: shows_busy_def blocked_on_def)
  have others: "shows_busy env r (Blocked Rate_limit a b c d)" "ar_limited r = None \<Longrightarrow> shows_busy env r (Unresponsive u)"
    "filter int_blocking (of_agent int_agentId (a_id (ar_agent r)) (in_interactions env)) \<noteq> [] \<Longrightarrow>
       shows_busy env r (Blocked Human a b c d)" for a b c d u
    by (simp_all add: shows_busy_def blocked_on_def blocking_of_def)
  have "shows_busy env r st"
  proof (cases "early_status s env k r")
    case None
    then have "ar_limited r = None" "ar_retry r = None" "ar_disconnectedAt r = None"
      using True by (auto simp: early_status_def Let_def split: option.splits if_splits)
    then have act: "ar_activeRun r \<noteq> None" and lim: "ar_limited r = None" using True by (auto simp: busy_def)
    with assms(1) None obtain live m1 where "derive_active s t env holds k r live m1 = Some (st, m')"
      by (auto simp: derive_eq late_status_def elim!: bind_SomeE)
    from derive_active_shape [OF this] lim show ?thesis by (auto simp: shows_busy_def)
  next
    case (Some x)
    with assms(1) have "x = st" by (simp add: derive_eq)
    with Some True show ?thesis
      by (auto simp: early_status_def Let_def on others split: option.splits if_splits)
  qed
  with assms(2) show ?thesis by (auto simp: fine_def)
qed (use assms(2) in \<open>auto simp: fine_def\<close>)

lemma fine_transport:
  assumes "fine s env k st" "get (st_agents s) k = Some r" "transport_silent s t env r st"
  shows "fine s env k (Unresponsive x)"
  using assms by (auto simp: fine_def shows_busy_def transport_silent_def)

definition resolved_fine :: "'a state \<Rightarrow> status_inputs \<Rightarrow> memo \<Rightarrow> bool" where
  "resolved_fine s env m \<longleftrightarrow> (\<forall>k st. get (m_resolved m) k = Some st \<longrightarrow> fine s env k st)"

lemma resolved_fine_frame [simp]:
  "resolved_fine s env (m\<lparr>m_signals := x\<rparr>) = resolved_fine s env m"
  "resolved_fine s env (m_holds_update f m) = resolved_fine s env m"
  "resolved_fine s env (m_relevant_update f m) = resolved_fine s env m"
  by (simp_all add: resolved_fine_def)

lemma derive_keeps_fine:
  assumes "keeps (resolved_fine s env) holds" "derive s t env holds k r m = Some (st, m')" "resolved_fine s env m"
  shows "resolved_fine s env m'"
proof (cases "early_status s env k r")
  case None
  with assms(2) obtain live m1 where m1: "keep_if holds (childKeys (st_indexes s) (a_id (ar_agent r))) m = Some (live, m1)"
    and late: "(if ar_activeRun r \<noteq> None then derive_active s t env holds k r live m1
       else derive_resting s t k r (background_refs s (of_agent task_agentId (a_id (ar_agent r)) (in_tasks env)) live) m1) = Some (st, m')"
    by (auto simp: derive_eq late_status_def elim!: bind_SomeE)
  have J: "resolved_fine s env m1" by (rule keep_if_keeps [OF assms(1) m1 assms(3)])
  show ?thesis
  proof (cases "ar_activeRun r = None")
    case True
    with late J show ?thesis
      by (auto simp: derive_resting_def elim!: bind_SomeE split: if_splits option.splits)
  next
    case False
    with late foreground_children_keeps [OF assms(1) _ J] J show ?thesis
      by (auto simp: derive_active_def Let_def elim!: bind_SomeE split: if_splits option.splits)
  qed
qed (use assms in \<open>simp add: derive_eq\<close>)

lemma resolve_fine:
  "resolve n s t env visiting holding k m = Some (st, m') \<Longrightarrow> resolved_fine s env m \<Longrightarrow>
     resolved_fine s env m' \<and> (k \<notin> set visiting \<longrightarrow> fine s env k st)"
proof (induction n arbitrary: visiting holding k m st m')
  case (Suc n)
  show ?case
  proof (cases "get (m_resolved m) k")
    case (Some x)
    with Suc.prems show ?thesis by (auto simp: resolved_fine_def)
  next
    case None
    with Suc.prems(1) obtain r where r: "get (st_agents s) k = Some r" by (auto split: option.splits)
    show ?thesis
    proof (cases "k \<in> set visiting")
      case True
      with Suc.prems None r show ?thesis by auto
    next
      case False
      let ?holds = "\<lambda>c. relevant (agent_count s + 2) s (in_owners env) m_holds m_holds_update
          (\<lambda>hs c. resolve n s t env (k # visiting) hs c) holding c"
      from Suc.prems(1) None r False obtain st0 m1 where d: "derive s t env ?holds k r m = Some (st0, m1)"
        and st: "st = (if transport_silent s t env r st0 then Unresponsive (in_transport env) else st0)"
        and m': "m' = m1\<lparr>m_resolved := put (m_resolved m1) k st\<rparr>"
        by (auto simp: Let_def elim!: bind_SomeE)
      have res: "keeps (resolved_fine s env) (\<lambda>c. resolve n s t env (k # visiting) hs c)" for hs
        unfolding keeps_def using Suc.IH by blast
      have "keeps (resolved_fine s env) ?holds"
        by (rule relevant_keeps [OF res]) simp_all
      from derive_keeps_fine [OF this d Suc.prems(2)] have J1: "resolved_fine s env m1" .
      have "fine s env k st"
        using derive_fine [OF d r] fine_transport [OF _ r, of env st0 t] by (simp add: st)
      with J1 m' show ?thesis by (auto simp: resolved_fine_def)
    qed
  qed
qed simp

lemma resolve_each_fine:
  assumes "resolve_each (resolve_status s t env) (relevant_status s t env) ks m = Some (v, m')" "resolved_fine s env m"
  shows "map fst v = ks \<and> (\<forall>(k, st, b) \<in> set v. fine s env k st)"
  using assms
proof (induction ks arbitrary: m v m')
  case (Cons k ks)
  from Cons.prems(1) obtain st m1 b m2 rest where r: "resolve_status s t env k m = Some (st, m1)"
    "relevant_status s t env k m1 = Some (b, m2)"
    "resolve_each (resolve_status s t env) (relevant_status s t env) ks m2 = Some (rest, m')" "v = (k, st, b) # rest"
    by (auto elim!: bind_SomeE)
  have f: "fine s env k st" "resolved_fine s env m1"
    using resolve_fine [OF r(1) [unfolded resolve_status_def] Cons.prems(2)] by auto
  have "keeps (resolved_fine s env) (resolve_status s t env)"
    unfolding keeps_def resolve_status_def using resolve_fine by blast
  then have "keeps (resolved_fine s env) (relevant_status s t env)"
    unfolding relevant_status_def by (intro relevant_keeps) simp_all
  from keepsD [OF this r(2) f(2)] Cons.IH [OF r(3)] f(1) r(4) show ?case by auto
qed simp

subsection \<open>Writing the statuses\<close>

definition idle_fields :: "agent_record \<Rightarrow> ident \<times> thread_status option \<times> bool \<times> limit option \<times> ident option \<times> ident option" where
  "idle_fields r = (a_id (ar_agent r), ar_externalStatus r, busy r, ar_limited r, ar_lastRun r, ar_activeRun r)"

definition same_status :: "agent_status \<Rightarrow> agent_status \<Rightarrow> bool" where
  "same_status a st \<longleftrightarrow> a = st \<or> status_equal a st"

lemma same_status_shows_busy: "same_status a st \<Longrightarrow> shows_busy env r st \<Longrightarrow> shows_busy env r a"
  by (cases "(a, st)" rule: status_equal.cases) (auto simp: same_status_def shows_busy_def blocked_on_def)

lemma write_status_get:
  "k' \<noteq> k \<Longrightarrow> get (st_agents (write_status (k, st, b) w)) k' = get (st_agents w) k'"
  "get (st_agents w) k = Some r \<Longrightarrow> \<exists>r'. get (st_agents (write_status (k, st, b) w)) k = Some r' \<and>
     same_status (a_status (ar_agent r')) st \<and> idle_fields r' = idle_fields r"
  by (auto simp: write_status_def Let_def same_status_def idle_fields_def busy_def split: option.splits)

lemma fold_write_status:
  assumes "distinct (map fst v)"
  shows "get (st_agents w) k = Some r \<Longrightarrow> \<exists>r'. get (st_agents (fold write_status v w)) k = Some r' \<and>
    idle_fields r' = idle_fields r \<and> (\<forall>st b. (k, st, b) \<in> set v \<longrightarrow> same_status (a_status (ar_agent r')) st) \<and>
    (k \<notin> fst ` set v \<longrightarrow> r' = r)"
  using assms
proof (induction v arbitrary: w r)
  case (Cons p v)
  obtain k0 st0 b0 where p: "p = (k0, st0, b0)" by (cases p)
  show ?case
  proof (cases "k0 = k")
    case True
    from write_status_get(2) [OF Cons.prems(1)] p True obtain r1 where r1:
      "get (st_agents (write_status p w)) k = Some r1" "same_status (a_status (ar_agent r1)) st0" "idle_fields r1 = idle_fields r"
      by blast
    from Cons.IH [OF r1(1)] Cons.prems(2) obtain r' where r': "get (st_agents (fold write_status v (write_status p w))) k = Some r'"
      "idle_fields r' = idle_fields r1" "k \<notin> fst ` set v \<longrightarrow> r' = r1" by auto
    have notin: "k \<notin> fst ` set v" using Cons.prems(2) p True by auto
    then have eq: "r' = r1" using r'(3) by blast
    have only: "st = st0" if "(k, st, b) \<in> set (p # v)" for st b
      using that notin p True image_iff by fastforce
    have "same_status (a_status (ar_agent r')) st" if "(k, st, b) \<in> set (p # v)" for st b
      using only [OF that] r1(2) eq by simp
    moreover have "k \<in> fst ` set (p # v)" using p True by simp
    moreover have "get (st_agents (fold write_status (p # v) w)) k = Some r'" using r'(1) by simp
    moreover have "idle_fields r' = idle_fields r" using r'(2) r1(3) by (rule trans)
    ultimately show ?thesis by blast
  next
    case False
    have "get (st_agents (write_status p w)) k = Some r"
      using write_status_get(1) [of k k0 st0 b0 w] Cons.prems(1) p False by simp
    from Cons.IH [OF this] Cons.prems(2) p False show ?thesis by auto
  qed
qed simp

lemma fold_write_status_None:
  "get (st_agents w) k = None \<Longrightarrow> get (st_agents (fold write_status v w)) k = None"
proof (induction v arbitrary: w)
  case (Cons p v)
  obtain k0 st0 b0 where p: "p = (k0, st0, b0)" by (cases p)
  have "get (st_agents (write_status p w)) k = None"
    using write_status_get(1) [of k k0 st0 b0 w] Cons.prems p
    by (cases "k = k0") (auto simp: write_status_def)
  with Cons.IH show ?case by simp
qed simp

lemma write_status_frame [simp]:
  "st_runs (write_status p w) = st_runs w" "st_items (write_status p w) = st_items w"
  "st_interactions (write_status p w) = st_interactions w" "st_tasks (write_status p w) = st_tasks w"
  "st_uncertainTasks (write_status p w) = st_uncertainTasks w" "st_indexes (write_status p w) = st_indexes w"
  "st_rootKey (write_status p w) = st_rootKey w" "w_seq (write_status p w) = w_seq w"
  by (auto simp: write_status_def Let_def split: option.splits prod.splits)

lemma announceAgentBranch_exit [simp]: "st_processExit (announceAgentBranch k w) = st_processExit w"
  using announceAgentBranch_emits [of k w] by auto

lemma write_status_exit [simp]: "st_processExit (write_status p w) = st_processExit w"
  by (auto simp: write_status_def Let_def emit_def upd_agent_def split: option.splits prod.splits)

lemma safe_op_announce: "safe_op ctx w (announceAgentBranch k w)"
  by (rule safe_op_frame) simp_all

lemma safe_op_write_status: "safe_op ctx w (write_status p w)"
proof -
  have step: "safe_op ctx v (emit e (upd_agent k (\<lambda>r. r\<lparr>ar_agent := (ar_agent r)\<lparr>a_status := st\<rparr>, ar_completionRelevant := c\<rparr>) v))" for v e k st c
    by (rule safe_op_trans [OF safe_op_upd_agent safe_op_emit]) (simp_all add: view_def sight_def)
  show ?thesis
    unfolding write_status_def Let_def
    by (auto split: option.splits prod.splits intro: step safe_op_trans [OF safe_op_announce step])
qed

lemma safe_op_fold: "(\<And>x w. safe_op ctx w (f x w)) \<Longrightarrow> safe_op ctx w (fold f xs w)"
  by (induction xs arbitrary: w) (auto intro: safe_op_trans)

lemma recomputeStatuses_safe:
  assumes "recomputeStatuses t w = Some w'"
  shows "safe_op ctx w w'"
proof -
  have obs: "safe_op ctx w (w\<lparr>st_statusObservedAt := x\<rparr>)" for x by (rule safe_op_frame) simp_all
  have thread: "safe_op ctx v (write_thread_status st v)" for st v
    unfolding write_thread_status_def by (auto intro!: safe_op_frame)
  from assms obtain v st where "w' = write_thread_status st (fold write_status v (w\<lparr>st_statusObservedAt := Some t\<rparr>))"
    unfolding recomputeStatuses_def Let_def by (auto elim!: bind_SomeE)
  then show ?thesis
    by (auto intro: safe_op_trans [OF safe_op_trans [OF obs safe_op_fold [OF safe_op_write_status]] thread])
qed

subsection \<open>A thread that reads done\<close>

text \<open>The relevance cache holds no agent whose record already shows that it matters.\<close>

definition uncached_relevant :: "'a state \<Rightarrow> memo \<Rightarrow> bool" where
  "uncached_relevant s m \<longleftrightarrow> (\<forall>k b r. get (m_relevant m) k = Some b \<longrightarrow> get (st_agents s) k = Some r \<longrightarrow>
     \<not> evidently_relevant s (waiting_owners s) k r (a_status (ar_agent r)))"

lemma reader_keeps: "keeps (uncached_relevant s) (completionRelevanceReader s)"
  unfolding completionRelevanceReader_def
proof (rule relevant_keeps)
  show "keeps (uncached_relevant s) (stored_status s v)" for v
    by (auto simp: keeps_def stored_status_def)
  show "uncached_relevant s (m_relevant_update (\<lambda>d. put d k b) m)"
    if "uncached_relevant s m" "get (st_agents s) k = Some r" "\<not> evidently_relevant s (waiting_owners s) k r status"
      "(\<exists>v m0. stored_status s v k m0 = Some (status, m0)) \<or> (\<forall>d. uncached_relevant s (m_relevant_update d m))" for m k b r status
  proof (cases "\<exists>v m0. stored_status s v k m0 = Some (status, m0)")
    case True
    with that have "status = a_status (ar_agent r)" by (auto simp: stored_status_def)
    with that show ?thesis by (auto simp: uncached_relevant_def)
  next
    case False
    with that(4) have "\<forall>d. uncached_relevant s (m_relevant_update d m)" by blast
    then show ?thesis ..
  qed
  show "(\<forall>v k m status m'. stored_status s v k m = Some (status, m') \<longrightarrow> m' = m) \<or>
      (\<forall>m d. uncached_relevant s m \<longrightarrow> uncached_relevant s (m_relevant_update d m))"
    by (auto simp: stored_status_def)
qed

lemma any_of_False:
  assumes "any_of f ks m = Some (False, m')" "keeps J f" "J m" "k \<in> set ks"
  shows "\<exists>m1 m2. J m1 \<and> f k m1 = Some (False, m2)"
  using assms
proof (induction ks arbitrary: m)
  case (Cons x ks)
  from Cons.prems(1) obtain b m1 where m1: "f x m = Some (b, m1)" by (auto elim!: bind_SomeE)
  with Cons.prems(1) have b: "\<not> b" "any_of f ks m1 = Some (False, m')" by (auto split: if_splits)
  show ?case
  proof (cases "k = x")
    case True
    with m1 b Cons.prems(3) show ?thesis by auto
  next
    case False
    with Cons.IH [OF b(2) Cons.prems(2) keepsD [OF Cons.prems(2) m1 Cons.prems(3)]] Cons.prems(4) show ?thesis by simp
  qed
qed simp

lemma silent_work_evident:
  assumes "silent_work s = Some False" "get (st_agents s) k = Some r" "is_unresponsive_status (a_status (ar_agent r))"
  shows "\<not> evidently_relevant s (waiting_owners s) k r (a_status (ar_agent r))"
proof -
  let ?f = "\<lambda>k m. case get (st_agents s) k of None \<Rightarrow> None
     | Some r \<Rightarrow> if is_unresponsive_status (a_status (ar_agent r)) then completionRelevanceReader s k m else Some (False, m)"
  from assms(1) obtain m' where a: "any_of ?f (okeys (st_agents s)) no_memo = Some (False, m')"
    by (auto simp: silent_work_def)
  have J: "keeps (uncached_relevant s) ?f"
    unfolding keeps_def using keepsD [OF reader_keeps] by (auto split: option.splits if_splits)
  have "uncached_relevant s no_memo" by (simp add: uncached_relevant_def no_memo_def)
  from any_of_False [OF a J this, of k] assms(2,3) obtain m1 m2 where
    m1: "uncached_relevant s m1" "completionRelevanceReader s k m1 = Some (False, m2)" by (auto simp: has_def)
  have ns: "\<not> isSettled (a_status (ar_agent r))" using assms(3) by (cases "a_status (ar_agent r)") auto
  show ?thesis
  proof (cases "get (m_relevant m1) k")
    case None
    with m1(2) assms(2) ns show ?thesis
      by (auto simp: completionRelevanceReader_def stored_status_def split: if_splits)
  next
    case (Some b)
    with m1(1) assms(2) show ?thesis by (auto simp: uncached_relevant_def)
  qed
qed

lemma done_cascade:
  assumes "deriveThreadStatus s = Some Done" "st_processExit s = None"
  shows "actionable s = []" and "\<And>r. r \<in> set (ovalues (st_agents s)) \<Longrightarrow> \<not> counts_working s r"
    and "\<And>r on. r \<in> set (ovalues (st_agents s)) \<Longrightarrow> on \<in> {Rate_limit, Network, Upstream, Background_task, Subagents} \<Longrightarrow>
      \<not> blocked_on on (a_status (ar_agent r))"
    and "\<not> any_task_holds s" and "silent_work s = Some False" and "st_hasRun s"
    and "st_queueCount s = 0 \<or> resting_queue s"
proof -
  note d = assms(1) [unfolded deriveThreadStatus_def Let_def]
  show "actionable s = []" using d by (auto split: if_splits)
  show "\<not> counts_working s r" if "r \<in> set (ovalues (st_agents s))" for r
  proof
    assume "counts_working s r"
    with that have "filter (counts_working s) (ovalues (st_agents s)) \<noteq> []" by (auto simp: filter_empty_conv)
    with d show False by (auto split: if_splits)
  qed
  show "\<not> blocked_on on (a_status (ar_agent r))"
    if "r \<in> set (ovalues (st_agents s))" "on \<in> {Rate_limit, Network, Upstream, Background_task, Subagents}" for r on
    using d that by (auto simp: list_ex_iff split: if_splits)
  show "\<not> any_task_holds s" using d by (auto split: if_splits)
  show "silent_work s = Some False" using d by (auto elim!: bind_SomeE split: if_splits)
  show "st_hasRun s" using d assms(2) by (auto elim!: bind_SomeE split: if_splits)
  show "st_queueCount s = 0 \<or> resting_queue s" using d by (auto split: if_splits)
qed

lemma no_pending_when_done:
  assumes "deriveThreadStatus s = Some Done" "st_processExit s = None" "ints.consistent s"
    and "get (st_interactions s) k = Some i"
  shows "int_state i \<noteq> Int_pending"
proof
  assume p: "int_state i = Int_pending"
  then have "interaction_live s k" using assms(4) by (simp add: interaction_live_def)
  with ints.consistent_keys [OF assms(3)] have "k \<in> set (pendingInteractionKeys s None)"
    by (simp add: pendingInteractionKeys_def owned_def)
  then have "i \<in> set (List.map_filter (get (st_interactions s)) (pendingInteractionKeys s None))"
    using assms(4) by (auto simp: set_map_filter)
  moreover have "actionable s = []" by (rule done_cascade(1) [OF assms(1,2)])
  ultimately have "\<not> isActionableInteraction i (status_by_id s (int_agentId i))"
    by (auto simp: actionable_def filter_empty_conv)
  with p obtain st where st: "status_by_id s (int_agentId i) = Some st" "is_working st"
    by (auto simp: isActionableInteraction_def split: option.splits)
  then obtain r where "r \<in> set (ovalues (st_agents s))" "a_status (ar_agent r) = st"
    by (auto simp: status_by_id_def dest!: map_of_SomeD)
  moreover from this st(2) have "counts_working s r" by (cases st) (auto simp: counts_working_def)
  ultimately show False using done_cascade(2) [OF assms(1,2)] by blast
qed

lemma agents_write_thread_status [simp]:
  "st_agents (write_thread_status st w) = st_agents w" "st_interactions (write_thread_status st w) = st_interactions w"
  "st_tasks (write_thread_status st w) = st_tasks w" "st_processExit (write_thread_status st w) = st_processExit w"
  "st_runs (write_thread_status st w) = st_runs w" "st_indexes (write_thread_status st w) = st_indexes w"
  "st_queueCount (write_thread_status st w) = st_queueCount w" "st_uncertainTasks (write_thread_status st w) = st_uncertainTasks w"
  "st_queueStopped (write_thread_status st w) = st_queueStopped w" "st_queueProvider (write_thread_status st w) = st_queueProvider w"
  by (simp_all add: write_thread_status_def emit_def)

lemma write_thread_status_Done: "st_status (write_thread_status st w) = Done \<longleftrightarrow> st = Done"
  by (cases "(st_status w, st)" rule: thread_status_equal.cases)
    (auto simp: write_thread_status_def emit_def)

text \<open>After the statuses are written, a record with work of its own still shows it, so the thread is not done.\<close>

lemma done_not_busy:
  assumes v: "map fst v = okeys (st_agents w0)" "\<And>k st b. (k, st, b) \<in> set v \<Longrightarrow> fine w0 (statusInputs w0) k st"
    and w1: "w1 = fold write_status v w0" and d: "deriveThreadStatus w1 = Some Done"
    and frame: "st_processExit w1 = None" "st_processExit w0 = None" "st_interactions w1 = st_interactions w0"
      "st_indexes w1 = st_indexes w0"
    and ok: "ints.consistent w1" and r: "get (st_agents w1) k = Some r" "ar_externalStatus r = None"
  shows "\<not> busy r"
proof
  let ?env = "statusInputs w0"
  assume busy: "busy r"
  obtain r0 where r0: "get (st_agents w0) k = Some r0"
    using r(1) fold_write_status_None [of w0 k v] by (cases "get (st_agents w0) k") (auto simp: w1)
  then have "k \<in> fst ` set v" using v(1) by (metis has_Some list.set_map mem_Collect_eq set_okeys)
  then obtain s0 b where v0: "(k, s0, b) \<in> set v" by auto
  have dist: "distinct (map fst v)" by (simp add: v(1))
  from fold_write_status [OF dist r0] r v0 have r': "idle_fields r = idle_fields r0" "same_status (a_status (ar_agent r)) s0"
    unfolding w1 by (metis option.inject)+
  have "shows_busy ?env r0 s0"
    using v(2) [OF v0] r0 r' busy r(2) frame(2) by (auto simp: fine_def idle_fields_def)
  from same_status_shows_busy [OF r'(2) this] have sb: "shows_busy ?env r0 (a_status (ar_agent r))" .
  have rin: "r \<in> set (ovalues (st_agents w1))" using r(1) by (auto simp: set_ovalues)
  note no = done_cascade [OF d frame(1)]
  have "\<not> is_working (a_status (ar_agent r))"
    using no(2) [OF rin] by (cases "a_status (ar_agent r)") (auto simp: counts_working_def)
  moreover have "blocking_of ?env r0 = []"
  proof (rule ccontr)
    assume "blocking_of ?env r0 \<noteq> []"
    then obtain i where i: "i \<in> set (in_interactions ?env)" by (auto simp: blocking_of_def of_agent_def filter_empty_conv)
    then obtain ki where ki: "ki \<in> set (pendingInteractionKeys w0 None)" "get (st_interactions w0) ki = Some i"
      by (auto simp: statusInputs_def Let_def set_map_filter)
    then have "interaction_live w1 ki"
      using ints.consistent_keys [OF ok] frame by (auto simp: pendingInteractionKeys_def)
    with ki frame no_pending_when_done [OF d frame(1) ok, of ki i] show False by (auto simp: interaction_live_def)
  qed
  moreover have "\<not> (is_unresponsive_status (a_status (ar_agent r)) \<and> ar_limited r0 = None)"
  proof
    assume u: "is_unresponsive_status (a_status (ar_agent r)) \<and> ar_limited r0 = None"
    then have "evidently_relevant w1 (waiting_owners w1) k r (a_status (ar_agent r))"
      using busy r' by (auto simp: evidently_relevant_def limited_at_rest_def busy_def idle_fields_def)
    with silent_work_evident [OF no(5) r(1)] u show False by blast
  qed
  ultimately show False using sb no(3) [OF rin] by (auto simp: shows_busy_def)
qed


definition example_ended :: world where
  "example_ended = endTurn example_end (example_ctx 9) example_running"

lemma work_ok_example_ended: "work_ok example_ended"
  by (simp add: example_ended_def example_running_def endTurn_work_ok startTurn_work_ok work_ok_example_world)

lemma example_done:
  "st_processExit example_ended = None" "map_option st_status (recomputeStatuses 10 example_ended) = Some Done"
  by code_simp+


end
