(* ===== verification/Core_Diagnostics.thy ===== *)
theory Core_Diagnostics
  imports Core_Status_Inv
begin

text \<open>
  Rejected facts (src/packages/core/src/diagnostics.ts): a fact the core cannot accept becomes a
  warning in the transcript of the root agent, repeats of the same rejection in the same run are
  counted on one notice, and warnings that come before a root is known wait for it.
\<close>

text \<open>\<open>let key = `ace:notice:${id}`; while (get(state.items, key)) key += ":"\<close>; the fuel is the
  number of items, more than can be in the way.\<close>

fun free_key :: "nat \<Rightarrow> item dict \<Rightarrow> key \<Rightarrow> key" where
  "free_key 0 d k = k"
| "free_key (Suc n) d k = (if has d k then free_key n d (k @ '':'') else k)"

definition notice_key :: "'a state \<Rightarrow> ident \<Rightarrow> key" where
  "notice_key s i = free_key (Suc (length (okeys (st_items s)))) (st_items s) (''ace:notice:'' @ i)"

definition publishNotice :: "agent_record \<Rightarrow> pending_notice \<Rightarrow> ident option \<Rightarrow> apply_context \<Rightarrow> world \<Rightarrow> key \<times> world" where
  "publishNotice owner notice runId ctx w =
     (let (itemId, w1) = next_id ctx Id_item w;
          item = \<lparr>item_id = itemId, item_agentId = a_id (ar_agent owner), item_runId = runId,
                  item_createdAt = pn_createdAt notice, item_complete = True,
                  item_body = Notice Warning (pn_text notice) None, item_raw = pn_raw notice, item_rest = []\<rparr>;
          k = notice_key w1 itemId
      in (k, emit (Item_created item) (put_item k item w1)))"

definition repeatRawLimit :: nat where
  "repeatRawLimit = 10"

definition root_record :: "'a state \<Rightarrow> agent_record option" where
  "root_record s = Option.bind (st_rootKey s) (get (st_agents s))"

definition fact_type :: "json \<Rightarrow> string" where
  "fact_type input = (case Option.bind (Option.bind (asObject input) (\<lambda>fs. get fs ''type'')) asString of
     None \<Rightarrow> [] | Some t \<Rightarrow> t)"

definition signature :: "json \<Rightarrow> string \<Rightarrow> key" where
  "signature input reason = fact_type input @ [CHR 0x00] @ reason"

definition rejected_raw :: "json \<Rightarrow> raw_payload" where
  "rejected_raw input = Inline_raw ''core.rejected_fact'' None (diagnosticData input 0)"

definition ignored_text :: "string \<Rightarrow> string" where
  "ignored_text reason = ''Ignored adapter fact: '' @ reason"

text \<open>\<open>if (state.rejectionNotices?.run !== run) state.rejectionNotices = { run, notices: {} }\<close>.\<close>

definition notices_of_run :: "ident \<Rightarrow> 'a state \<Rightarrow> rejection_notices" where
  "notices_of_run run s = (case st_rejectionNotices s of
       Some n \<Rightarrow> if rns_run n = run then n else \<lparr>rns_run = run, rns_notices = []\<rparr>
     | None \<Rightarrow> \<lparr>rns_run = run, rns_notices = []\<rparr>)"

definition repeated_notice :: "rejection_notices \<Rightarrow> key \<Rightarrow> 'a state \<Rightarrow> (rejection_notice \<times> item) option" where
  "repeated_notice notices sig s = Option.bind (get (rns_notices notices) sig) (\<lambda>n.
     Option.bind (get (st_items s) (rn_item n)) (\<lambda>i. case item_body i of
       Notice _ _ _ \<Rightarrow> Some (n, i) | _ \<Rightarrow> None))"

definition count_text :: "string \<Rightarrow> nat \<Rightarrow> string" where
  "count_text reason n = ignored_text reason @ '' ('' @ decimal n @ '' times)''"

definition recount :: "string \<Rightarrow> nat \<Rightarrow> raw_payload \<Rightarrow> item \<Rightarrow> item" where
  "recount reason n raw i = i\<lparr>item_body := (case item_body i of
         Notice level _ source \<Rightarrow> Notice level (count_text reason n) source | b \<Rightarrow> b),
       item_raw := (if length (item_raw i) < repeatRawLimit then item_raw i @ [raw] else item_raw i)\<rparr>"

definition rejectFact :: "json \<Rightarrow> string \<Rightarrow> apply_context \<Rightarrow> world \<Rightarrow> world" where
  "rejectFact input reason ctx w =
     (let notice = \<lparr>pn_createdAt = now ctx, pn_text = ignored_text reason, pn_raw = [rejected_raw input]\<rparr> in
      case root_record w of
        None \<Rightarrow> w\<lparr>st_pendingNotices := st_pendingNotices w @ [notice]\<rparr>
      | Some owner \<Rightarrow>
          let run = (case ar_activeRun owner of None \<Rightarrow> [] | Some r \<Rightarrow> r);
              notices = notices_of_run run w;
              sig = signature input reason
          in (case repeated_notice notices sig w of
                Some (n, i) \<Rightarrow>
                  let count = Suc (rn_count n); i' = recount reason count (rejected_raw input) i;
                      notices' = notices\<lparr>rns_notices := put (rns_notices notices) sig (n\<lparr>rn_count := count\<rparr>)\<rparr>
                  in emit (Item_updated i') (put_item (rn_item n) i' (w\<lparr>st_rejectionNotices := Some notices'\<rparr>))
              | None \<Rightarrow>
                  let (k, w1) = publishNotice owner notice (ar_activeRun owner) ctx w
                  in w1\<lparr>st_rejectionNotices := Some (notices\<lparr>rns_notices :=
                       put (rns_notices notices) sig \<lparr>rn_item = k, rn_count = 1\<rparr>\<rparr>)\<rparr>))"

definition flushNotices :: "apply_context \<Rightarrow> world \<Rightarrow> world" where
  "flushNotices ctx w =
     (if st_pendingNotices w = [] then w
      else case root_record w of
        None \<Rightarrow> w
      | Some owner \<Rightarrow>
          (fold (\<lambda>notice w. snd (publishNotice owner notice None ctx w)) (st_pendingNotices w) w)
            \<lparr>st_pendingNotices := []\<rparr>)"

subsection \<open>The key of a notice is free\<close>

lemma free_key_suffix: "\<exists>n. free_key m d k = k @ replicate n CHR '':''"
proof (induction m d k rule: free_key.induct)
  case (1 d k)
  show ?case by (rule exI [of _ 0]) simp
next
  case (2 m d k)
  show ?case
  proof (cases "has d k")
    case True
    with "2.IH" obtain n where "free_key m d (k @ '':'') = (k @ '':'') @ replicate n CHR '':''" by blast
    with True show ?thesis by (intro exI [of _ "Suc n"]) (simp add: replicate_append_same)
  qed (auto intro: exI [of _ 0])
qed

text \<open>Every taken candidate is one more key of the dictionary.\<close>

lemma free_key_taken:
  "has d (free_key m d k) \<Longrightarrow> (\<lambda>n. k @ replicate n CHR '':'') ` {..m} \<subseteq> {k. has d k}"
proof (induction m d k rule: free_key.induct)
  case (2 m d k)
  then have k: "has d k" by (auto split: if_splits)
  with 2 have ih: "(\<lambda>n. (k @ '':'') @ replicate n CHR '':'') ` {..m} \<subseteq> {k. has d k}" by simp
  have "k @ replicate n CHR '':'' \<in> {k. has d k}" if "n \<le> Suc m" for n
  proof (cases n)
    case (Suc j)
    with that ih have "(k @ '':'') @ replicate j CHR '':'' \<in> {k. has d k}" by blast
    with Suc show ?thesis by simp
  qed (use k in simp)
  then show ?case by auto
qed auto

lemma notice_key_free: "\<not> has (st_items s) (notice_key s i)"
proof
  let ?d = "st_items s" and ?k = "''ace:notice:'' @ i"
  let ?m = "Suc (length (okeys ?d))" and ?f = "\<lambda>n. (''ace:notice:'' @ i) @ replicate n CHR '':''"
  assume "has ?d (notice_key s i)"
  then have "has ?d (free_key ?m ?d ?k)" unfolding notice_key_def .
  from free_key_taken [OF this] have "?f ` {..?m} \<subseteq> set (okeys ?d)" unfolding set_okeys .
  then have "card (?f ` {..?m}) \<le> card (set (okeys ?d))" by (rule card_mono [rotated]) (rule List.finite_set)
  then have "card (?f ` {..?m}) \<le> length (okeys ?d)" using card_length [of "okeys ?d"] by (rule order_trans)
  moreover have "inj_on ?f {..?m}" by (auto simp: inj_on_def)
  ultimately show False by (simp add: card_image)
qed

subsection \<open>Rejection keeps the state\<close>

lemma safe_op_put_notice:
  assumes "\<not> isLiveTool i" "\<not> isOpenText i"
    and "case get (st_items w) k of None \<Rightarrow> True | Some p \<Rightarrow> \<not> isLiveTool p \<and> \<not> isOpenText p"
  shows "safe_op ctx w (put_item k i w)"
proof (rule safe_op_calm)
  have "tool_live (put_item k i w) = tool_live w" "text_open (put_item k i w) = text_open w"
    "interaction_live (put_item k i w) = interaction_live w" "task_live (put_item k i w) = task_live w"
    using assms by (auto simp: live_defs fun_eq_iff split: option.splits)
  then show "work_ok (put_item k i w)" if "work_ok w"
    using that by (auto simp: work_ok_def intro: tools.consistent_frame texts.consistent_frame
        ints.consistent_frame bgs.consistent_frame)
qed (simp add: calm_def)

lemma publishNotice_safe: "safe_op ctx w (snd (publishNotice owner notice runId ctx w))"
proof -
  have free: "get (st_items w) (notice_key (w\<lparr>w_seq := n\<rparr>) i) = None" for n i
    using notice_key_free [of "w\<lparr>w_seq := n\<rparr>" i] by (simp add: has_def)
  show ?thesis
    unfolding publishNotice_def Let_def next_id_def
    by (auto intro!: safe_op_trans [OF _ safe_op_emit] safe_op_trans [OF safe_op_next_id [unfolded next_id_world] safe_op_put_notice]
        simp: free isLiveTool.simps isOpenText.simps)
qed

lemma publishNotice_agents [simp]:
  "st_agents (snd (publishNotice owner notice runId ctx w)) = st_agents w"
  "st_lastTransportSignalAt (snd (publishNotice owner notice runId ctx w)) = st_lastTransportSignalAt w"
  "st_interactions (snd (publishNotice owner notice runId ctx w)) = st_interactions w"
  "st_tasks (snd (publishNotice owner notice runId ctx w)) = st_tasks w"
  "st_status (snd (publishNotice owner notice runId ctx w)) = st_status w"
  by (simp_all add: publishNotice_def Let_def next_id_def emit_def put_item_def)

lemma publishNotice_items:
  "get (st_items w) k = Some i \<Longrightarrow> get (st_items (snd (publishNotice owner notice runId ctx w))) k = Some i"
  using notice_key_free [of "snd (next_id ctx Id_item w)" "ids ctx Id_item (w_seq w)"]
  by (auto simp: publishNotice_def Let_def next_id_def has_def)

lemma flushNotices_safe: "safe_op ctx w (flushNotices ctx w)"
proof -
  have clear: "safe_op ctx v (v\<lparr>st_pendingNotices := []\<rparr>)" for v by (rule safe_op_frame) simp_all
  show ?thesis
    unfolding flushNotices_def
    by (auto split: option.splits intro: safe_op_trans [OF safe_op_fold [OF publishNotice_safe] clear])
qed

lemma rejectFact_eq:
  "rejectFact input reason ctx w =
     (let notice = \<lparr>pn_createdAt = now ctx, pn_text = ignored_text reason, pn_raw = [rejected_raw input]\<rparr> in
      case root_record w of
        None \<Rightarrow> w\<lparr>st_pendingNotices := st_pendingNotices w @ [notice]\<rparr>
      | Some owner \<Rightarrow>
          let run = (case ar_activeRun owner of None \<Rightarrow> [] | Some r \<Rightarrow> r);
              notices = notices_of_run run w; sig = signature input reason
          in (case repeated_notice notices sig w of
                Some (n, i) \<Rightarrow>
                  let count = Suc (rn_count n); i' = recount reason count (rejected_raw input) i
                  in emit (Item_updated i') (put_item (rn_item n) i' (w\<lparr>st_rejectionNotices :=
                    Some (notices\<lparr>rns_notices := put (rns_notices notices) sig (n\<lparr>rn_count := count\<rparr>)\<rparr>)\<rparr>))
              | None \<Rightarrow> (snd (publishNotice owner notice (ar_activeRun owner) ctx w))\<lparr>st_rejectionNotices :=
                  Some (notices\<lparr>rns_notices := put (rns_notices notices) sig
                    \<lparr>rn_item = fst (publishNotice owner notice (ar_activeRun owner) ctx w), rn_count = 1\<rparr>\<rparr>)\<rparr>))"
  by (simp add: rejectFact_def Let_def split_def split: option.split)

lemma repeated_notice_SomeD:
  assumes "repeated_notice notices sig w = Some (n, i)"
  shows "get (st_items w) (rn_item n) = Some i \<and> (\<exists>a b c. item_body i = Notice a b c)"
proof -
  from assms obtain n0 i0 where "get (st_items w) (rn_item n0) = Some i0"
    and b: "(case item_body i0 of Notice _ _ _ \<Rightarrow> Some (n0, i0) | _ \<Rightarrow> None) = Some (n, i)"
    unfolding repeated_notice_def bind_Some_iff by blast
  moreover from b have "n0 = n \<and> i0 = i \<and> (\<exists>a b c. item_body i = Notice a b c)" by (cases "item_body i0") auto
  ultimately show ?thesis by simp
qed

lemma rejectFact_safe: "safe_op ctx w (rejectFact input reason ctx w)"
proof -
  have pend: "safe_op ctx w (w\<lparr>st_pendingNotices := x\<rparr>)" for x by (rule safe_op_frame) simp_all
  have mark: "safe_op ctx v (v\<lparr>st_rejectionNotices := x\<rparr>)" for v x by (rule safe_op_frame) simp_all
  have upd: "safe_op ctx w (emit e (put_item (rn_item n) (recount reason c raw i) (w\<lparr>st_rejectionNotices := x\<rparr>)))"
    if "repeated_notice notices sig w = Some (n, i)" for notices sig n i e c raw x
  proof -
    have i: "get (st_items w) (rn_item n) = Some i \<and> (\<exists>a b c. item_body i = Notice a b c)"
      by (rule repeated_notice_SomeD [OF that])
    then have "\<not> isLiveTool i" "\<not> isLiveTool (recount reason c raw i)" "\<not> isOpenText i" "\<not> isOpenText (recount reason c raw i)"
      by (auto simp: isLiveTool.simps isOpenText.simps recount_def)
    then show ?thesis
      using i by (intro safe_op_trans [OF _ safe_op_emit] safe_op_trans [OF mark safe_op_put_notice]) simp_all
  qed
  show ?thesis
    unfolding rejectFact_eq Let_def
    by (auto split: option.splits intro: pend upd safe_op_trans [OF publishNotice_safe mark])
qed

text \<open>C29: a rejected fact leaves no trace but its notice. It creates no agent and changes no agent
  record (so it refreshes no sign of life), leaves interactions, tasks, runs and the thread's status
  alone, and keeps every item except, at most, the one notice it counts on.\<close>

theorem rejectFact_inert:
  "st_agents (rejectFact input reason ctx w) = st_agents w \<and> st_runs (rejectFact input reason ctx w) = st_runs w \<and>
   st_lastTransportSignalAt (rejectFact input reason ctx w) = st_lastTransportSignalAt w \<and>
   st_interactions (rejectFact input reason ctx w) = st_interactions w \<and>
   st_tasks (rejectFact input reason ctx w) = st_tasks w \<and> st_status (rejectFact input reason ctx w) = st_status w \<and>
   (\<exists>n. \<forall>k i. get (st_items w) k = Some i \<longrightarrow> k = n \<or> get (st_items (rejectFact input reason ctx w)) k = Some i)"
proof -
  have runs: "st_runs (rejectFact input reason ctx w) = st_runs w"
    using rejectFact_safe [of ctx w input reason] by (simp add: safe_op_def run_frame_def)
  have items: "\<exists>n. \<forall>k i. get (st_items w) k = Some i \<longrightarrow> k = n \<or> get (st_items (rejectFact input reason ctx w)) k = Some i"
    unfolding rejectFact_eq Let_def by (auto simp: publishNotice_items split: option.split)
  show ?thesis
    using runs items unfolding rejectFact_eq Let_def
    by (auto simp: emit_def put_item_def split: option.split)
qed

text \<open>C30: repeated rejections do not flood the transcript. While one notice counts the repeats of a
  rejection, each further repeat adds no item, and its raw facts stay within the limit of ten.\<close>

theorem rejectFact_counts:
  assumes "root_record w = Some owner"
    "repeated_notice (notices_of_run (given (ar_activeRun owner) []) w) (signature input reason) w = Some (n, i)"
    "length (item_raw i) \<le> repeatRawLimit"
  shows "okeys (st_items (rejectFact input reason ctx w)) = okeys (st_items w) \<and>
    (\<exists>i'. get (st_items (rejectFact input reason ctx w)) (rn_item n) = Some i' \<and>
       length (item_raw i') \<le> repeatRawLimit \<and>
       repeated_notice (notices_of_run (given (ar_activeRun owner) []) (rejectFact input reason ctx w))
         (signature input reason) (rejectFact input reason ctx w) = Some (n\<lparr>rn_count := Suc (rn_count n)\<rparr>, i'))"
proof -
  let ?run = "given (ar_activeRun owner) []"
  let ?i = "recount reason (Suc (rn_count n)) (rejected_raw input) i"
  let ?ns = "notices_of_run ?run w"
  have run: "(case ar_activeRun owner of None \<Rightarrow> [] | Some r \<Rightarrow> r) = ?run" by (simp add: given_def)
  have i: "get (st_items w) (rn_item n) = Some i" "\<exists>a b c. item_body i = Notice a b c"
    using repeated_notice_SomeD [OF assms(2)] by simp_all
  have w': "rejectFact input reason ctx w = emit (Item_updated ?i) (put_item (rn_item n) ?i (w\<lparr>st_rejectionNotices :=
      Some (?ns\<lparr>rns_notices := put (rns_notices ?ns) (signature input reason) (n\<lparr>rn_count := Suc (rn_count n)\<rparr>)\<rparr>)\<rparr>))"
    using assms(1,2) by (simp add: rejectFact_eq run Let_def)
  have keys: "okeys (put (st_items w) (rn_item n) ?i) = okeys (st_items w)"
    using i(1) by (simp add: okeys_def keys_put has_def)
  have same: "rns_run ?ns = ?run" by (auto simp: notices_of_run_def split: option.splits)
  have raw: "length (item_raw ?i) \<le> repeatRawLimit"
    using assms(3) by (simp add: recount_def)
  have "repeated_notice (notices_of_run ?run (rejectFact input reason ctx w)) (signature input reason) (rejectFact input reason ctx w) =
      Some (n\<lparr>rn_count := Suc (rn_count n)\<rparr>, ?i)"
    using i(2) same by (auto simp: w' notices_of_run_def repeated_notice_def emit_def put_item_def recount_def)
  with keys raw show ?thesis by (simp add: w' put_item_def)
qed

definition example_rejected :: world where
  "example_rejected = rejectFact (JObj [(''type'', JStr ''bogus'')]) ''unknown adapter fact'' (example_ctx 6) example_running"

lemma example_rejected_state:
  "case root_record example_rejected of None \<Rightarrow> False | Some owner \<Rightarrow>
     (case repeated_notice (notices_of_run (given (ar_activeRun owner) []) example_rejected)
        (signature (JObj [(''type'', JStr ''bogus'')]) ''unknown adapter fact'') example_rejected of
        None \<Rightarrow> False | Some (n, i) \<Rightarrow> length (item_raw i) \<le> repeatRawLimit)"
  by code_simp

theorem rejectFact_counts_witness:
  "okeys (st_items (rejectFact (JObj [(''type'', JStr ''bogus'')]) ''unknown adapter fact'' (example_ctx 7) example_rejected)) =
     okeys (st_items example_rejected)"
proof -
  obtain owner n i where "root_record example_rejected = Some owner"
    "repeated_notice (notices_of_run (given (ar_activeRun owner) []) example_rejected)
        (signature (JObj [(''type'', JStr ''bogus'')]) ''unknown adapter fact'') example_rejected = Some (n, i)"
    "length (item_raw i) \<le> repeatRawLimit"
    using example_rejected_state by (auto split: option.splits)
  from rejectFact_counts [OF this] show ?thesis by blast
qed

theorem rejectFact_inert_witness:
  "st_agents example_rejected = st_agents example_running \<and> st_runs example_rejected = st_runs example_running \<and>
   okeys (st_items example_rejected) \<noteq> []"
proof -
  have "okeys (st_items example_rejected) \<noteq> []" by code_simp
  then show ?thesis
    using rejectFact_inert [of "JObj [(''type'', JStr ''bogus'')]" "''unknown adapter fact''" "example_ctx 6" example_running]
    by (simp add: example_rejected_def)
qed

end
