(* ===== verification/Core_Validate.thy ===== *)
theory Core_Validate
  imports Core_Diagnostics
begin

text \<open>
  The check every fact passes before it may touch the state (src/packages/core/src/validate.ts,
  fact-data.ts, fact-raw.ts). It reads the raw JSON an adapter sent against the state: the fields a
  fact of its type may have, the keys it names, the owners and relations it claims, and the shape of
  its data. The zod schemas of the protocol package are the parameter \<open>fr_parse\<close> (what
  \<open>safeParse\<close> returns), and the typed readings the source obtains by a cast are \<open>fr_fact\<close> and
  \<open>fr_draft\<close>. JSON values have no cycles, accessors or non-finite numbers, so \<open>isFactData\<close>
  holds of every \<^typ>\<open>json\<close>.
\<close>

datatype schema =
    S_ThreadId | S_ThreadStatus | S_Agent | S_NativeRef | S_RunTrigger | S_PermissionMode | S_AgentStatus
  | S_AgentActivity | S_StringList | S_InteractionRequest | S_RawPayloads | S_InteractionResolution
  | S_DeviceId | S_TaskKind | S_Ports | S_Timestamp | S_ProviderGoal | S_EventPayload

record fact_reader =
  fr_parse :: "schema \<Rightarrow> json \<Rightarrow> json option"
  fr_fact :: "json \<Rightarrow> fact"
  fr_draft :: "json \<Rightarrow> item_draft"

subsection \<open>Fields of a fact\<close>

definition field :: "json \<Rightarrow> string \<Rightarrow> json option" where
  "field input k = Option.bind (asObject input) (\<lambda>fs. get fs k)"

definition str_field :: "json \<Rightarrow> string \<Rightarrow> string option" where
  "str_field input k = Option.bind (field input k) asString"

definition hasOwn :: "json \<Rightarrow> string \<Rightarrow> bool" where
  "hasOwn j k \<longleftrightarrow> field j k \<noteq> None"

fun is_object :: "json \<Rightarrow> bool" where
  "is_object (JObj _) = True"
| "is_object _ = False"

fun is_string :: "json \<Rightarrow> bool" where
  "is_string (JStr _) = True"
| "is_string _ = False"

fun is_bool :: "json \<Rightarrow> bool" where
  "is_bool (JBool _) = True"
| "is_bool _ = False"

definition optionalString :: "json option \<Rightarrow> bool" where
  "optionalString v = (case v of None \<Rightarrow> True | Some j \<Rightarrow> is_string j)"

definition optionalBoolean :: "json option \<Rightarrow> bool" where
  "optionalBoolean v = (case v of None \<Rightarrow> True | Some j \<Rightarrow> is_bool j)"

definition oneOf :: "json option \<Rightarrow> string list \<Rightarrow> bool" where
  "oneOf v values = (case v of Some (JStr s) \<Rightarrow> s \<in> set values | _ \<Rightarrow> False)"

definition allowed :: "(string \<times> string list) list" where
  "allowed = [
     (''agent.external'', [''agent'', ''threadId'', ''status'']),
     (''agent.seen'', [''agent'', ''parent'', ''spawnedBy'', ''origin'', ''fidelity'', ''native'', ''cwd'', ''name'',
        ''role'', ''model'', ''background'', ''machine'']),
     (''agent.linked'', [''agent'', ''parent'', ''spawnedBy'', ''background'', ''name'', ''model'']),
     (''input.admitted'', [''agent'', ''nativeInputId'', ''commandId'']),
     (''input.consumed'', [''agent'', ''nativeInputIds'']),
     (''turn.started'', [''agent'', ''nativeTurnId'', ''trigger'', ''permissionMode'']),
     (''turn.ended'', [''agent'', ''nativeTurnId'', ''outcome'', ''endedBy'', ''trigger'', ''error'', ''historical'']),
     (''activity'', [''agent'', ''activity'', ''detail'']),
     (''item.upsert'', [''agent'', ''item'', ''draft'']),
     (''item.reconciled'', [''agent'', ''item'', ''draft'']),
     (''subagents.waiting'', [''agent'', ''item'', ''targets'']),
     (''item.delta'', [''agent'', ''item'', ''field'', ''append'']),
     (''interaction.opened'', [''agent'', ''interaction'', ''blocking'', ''request'', ''item'', ''raw'']),
     (''interaction.closed'', [''interaction'', ''state'', ''resolution'', ''resolvedBy'', ''autoReviewed'']),
     (''background.started'', [''owner'', ''agent'', ''task'', ''kind'', ''title'', ''item'', ''childAgent'', ''ambient'',
        ''internal'', ''stoppable'', ''outputPath'', ''wakesAgent'', ''raw'']),
     (''background.listening'', [''task'', ''ports'']),
     (''background.ended'', [''task'', ''status'', ''uncertain'']),
     (''agent.disconnected'', [''agent'']),
     (''agent.reconnected'', [''agent'']),
     (''retry'', [''agent'', ''on'', ''attempt'', ''until'', ''message'']),
     (''retry.cleared'', [''agent'']),
     (''limit.cleared'', [''agent'']),
     (''wake.expected'', [''agent'', ''until'']),
     (''goal.updated'', [''agent'', ''goal'']),
     (''context.sample'', [''agent'', ''usedTokens'', ''windowTokens'', ''sessionId'', ''model'']),
     (''usage'', [''agent'', ''inputTokens'', ''outputTokens'', ''cachedInputTokens'', ''contextWindow'', ''contextTokens'',
        ''contextSessionId'', ''costUsd'', ''reasoningTokens'', ''cacheWriteTokens'', ''cacheWrite1hTokens'', ''model'',
        ''accountId'', ''billingMode'', ''counterMode'', ''counterKey'', ''usageScope'']),
     (''signal'', [''agent'']),
     (''process.exited'', [''deliberate'', ''message'']),
     (''process.started'', []),
     (''queue.changed'', [''count'', ''source'', ''held'', ''stopped'']),
     (''tick'', [])]"

subsection \<open>Relations\<close>

definition relationError :: "'a state \<Rightarrow> key \<Rightarrow> key \<Rightarrow> string option" where
  "relationError s agent parent =
     (if parent = agent then Some ''an agent cannot be its own parent''
      else if map_option seen_agent (st_initialRoot s) = Some agent then Some ''a configured root cannot be re-parented''
      else if st_rootKey s = Some agent \<and> (case agent_of s agent of None \<Rightarrow> False
             | Some a \<Rightarrow> a_origin a = Root \<and> a_fidelity a \<noteq> Placeholder)
      then Some ''a known root cannot be re-parented''
      else if agent \<in> set (ancestors s parent) then Some ''agent links cannot create a cycle''
      else None)"

definition descendsFrom :: "'a state \<Rightarrow> key \<Rightarrow> ident \<Rightarrow> bool" where
  "descendsFrom s agent ancestorId = (case parent_of s agent of
       None \<Rightarrow> False
     | Some p \<Rightarrow> list_ex (\<lambda>k. map_option a_id (agent_of s k) = Some ancestorId) (ancestors s p))"

subsection \<open>Items\<close>

definition validation_agent :: ident where
  "validation_agent = ''validation_agent''"

definition validation_item :: ident where
  "validation_item = ''validation_item''"

text \<open>\<open>detailCandidate\<close>: the references of a draft stand for a placeholder identity.\<close>

definition detailCandidate :: "detail_draft \<Rightarrow> detail_patch" where
  "detailCandidate draft =
     (let detail = patch_of_draft draft in
      if dd_kind draft = Some K_agent_spawn \<and> dd_childAgent draft \<noteq> None
      then detail\<lparr>dp_childAgentId := Some validation_agent\<rparr>
      else if dd_kind draft = Some K_agent_message \<and> dd_targetAgent draft \<noteq> None
      then detail\<lparr>dp_targetAgentId := Some validation_agent\<rparr>
      else detail)"

text \<open>\<open>preservesFields(input, result.data)\<close>: only the carried fields can differ.\<close>

definition rests :: "item \<Rightarrow> json list" where
  "rests i = JObj (item_rest i) # (case item_body i of
     Tool_call c \<Rightarrow> [JObj (call_rest c), JObj (det_rest (call_detail c))] | _ \<Rightarrow> [])"

definition preserves_item :: "item \<Rightarrow> item \<Rightarrow> bool" where
  "preserves_item input parsed = list_all (\<lambda>(a, b). preservesFields a b) (zip (rests input) (rests parsed))"

definition first_error :: "string option list \<Rightarrow> string option" where
  "first_error es = (case List.map_filter id es of [] \<Rightarrow> None | e # _ \<Rightarrow> Some e)"

definition reject_if :: "bool \<Rightarrow> string \<Rightarrow> string option" where
  "reject_if b e = (if b then Some e else None)"

definition spawn_error :: "'a state \<Rightarrow> key \<Rightarrow> key \<Rightarrow> string option" where
  "spawn_error s itemKey agent =
     (let children = filter (\<lambda>c. Option.bind (get (st_agents s) c) ar_spawnedByKey = Some itemKey)
            (okeys (case get (pendingSpawnLinks (st_indexes s)) itemKey of None \<Rightarrow> [] | Some d \<Rightarrow> d));
          linked = (case lk_childAgent (link_of s itemKey) of None \<Rightarrow> [] | Some c \<Rightarrow> [c])
      in first_error (map (\<lambda>c. relationError s c agent) (children @ linked)))"

definition parsed_error :: "apply_context \<Rightarrow> 'a state \<Rightarrow> key \<Rightarrow> key \<Rightarrow> item \<Rightarrow> string option" where
  "parsed_error ctx s itemKey agent input = (case parseItem ctx input of
       None \<Rightarrow> Some ''item draft does not form a valid canonical item''
     | Some item \<Rightarrow>
         if \<not> preserves_item input item then Some ''unknown item fields must be retained as raw data''
         else (case item_body item of
             Tool_call c \<Rightarrow>
               if call_kind c \<noteq> det_kind (call_detail c) then Some ''tool kind contradicts its detail''
               else if det_kind (call_detail c) = K_agent_spawn then spawn_error s itemKey agent
               else None
           | _ \<Rightarrow> None))"

definition output_error :: "bool \<Rightarrow> item option \<Rightarrow> item_draft \<Rightarrow> string option" where
  "output_error reconciled previous draft =
     (case (Option.bind (Option.bind (call_of draft) cd_detail) dd_output, tool_of previous) of
        (Some text, Some c) \<Rightarrow>
          if itemDetailKind previous draft = Some K_shell \<and> det_kind (call_detail c) = K_shell \<and> \<not> reconciled \<and>
             \<not> extendsOutput (det_output (call_detail c)) text
          then Some ''legacy output must extend the existing stream'' else None
      | _ \<Rightarrow> None)"

definition itemError :: "fact_reader \<Rightarrow> apply_context \<Rightarrow> 'a state \<Rightarrow> json \<Rightarrow> string option" where
  "itemError rd ctx s input =
     (case field input ''draft'' of
        None \<Rightarrow> Some ''item draft must be an object''
      | Some draftJson \<Rightarrow>
          if \<not> is_object draftJson then Some ''item draft must be an object''
          else
            let itemKey = given (str_field input ''item'') []; agent = given (str_field input ''agent'') [];
                previous = get (st_items s) itemKey; owner = agent_of s agent; draft = fr_draft rd draftJson;
                tool = (str_field draftJson ''type'' = Some ''tool_call'');
                call = (if tool then field draftJson ''call'' else None);
                detail = Option.bind call (\<lambda>c. field c ''detail'');
                detailKind = Option.bind detail (\<lambda>d. str_field d ''kind'');
                child = Option.bind detail (\<lambda>d. field d ''childAgent'');
                bad = (\<lambda>j ks. case j of None \<Rightarrow> False | Some o' \<Rightarrow> list_ex (hasOwn o') ks)
            in first_error [
              reject_if (list_ex (hasOwn draftJson) [''id'', ''agentId'', ''runId'', ''createdAt''])
                ''item identity and creation time belong to core'',
              reject_if (case previous of None \<Rightarrow> False | Some p \<Rightarrow> Some (item_agentId p) \<noteq> map_option a_id owner)
                ''item key has a different owner'',
              reject_if (case call of None \<Rightarrow> False | Some c \<Rightarrow> \<not> is_object c) ''tool draft must be an object'',
              reject_if (bad call [''id'', ''agentId'', ''backgroundTaskId'']) ''tool identities belong to core'',
              reject_if (case detail of None \<Rightarrow> False | Some d \<Rightarrow> \<not> is_object d) ''tool detail must be an object'',
              reject_if (bad detail [''childAgentId'', ''targetAgentId'']) ''tool agent references must use native keys'',
              reject_if (case detail of None \<Rightarrow> False | Some d \<Rightarrow> \<not> optionalString (field d ''output''))
                ''output summaries belong to core; adapters append output deltas'',
              reject_if (detailKind = Some ''agent.spawn'' \<and> \<not> optionalString child) ''child agent key must be a string'',
              (if detailKind = Some ''agent.spawn'' then Option.bind (Option.bind child asString) (\<lambda>c. relationError s c agent) else None),
              reject_if (detailKind = Some ''agent.message'' \<and>
                \<not> optionalString (Option.bind detail (\<lambda>d. field d ''targetAgent''))) ''target agent key must be a string'',
              output_error (str_field input ''type'' = Some ''item.reconciled'') previous draft,
              parsed_error ctx s itemKey agent (itemInput previous
                \<lparr>ii_id = (case previous of None \<Rightarrow> validation_item | Some p \<Rightarrow> item_id p),
                 ii_agentId = given (map_option a_id owner) validation_agent,
                 ii_createdAt = (case previous of None \<Rightarrow> now ctx | Some p \<Rightarrow> item_createdAt p), ii_runId = None\<rparr>
                draft (now ctx) (map_option detailCandidate (Option.bind (call_of draft) cd_detail)))])"

subsection \<open>Shapes (shapeValid)\<close>

definition parses :: "fact_reader \<Rightarrow> schema \<Rightarrow> json \<Rightarrow> bool" where
  "parses rd sc j \<longleftrightarrow> fr_parse rd sc j \<noteq> None"

text \<open>\<open>safeParse\<close> of a field that may be absent, when the schema does not accept undefined.\<close>

definition parses_field :: "fact_reader \<Rightarrow> schema \<Rightarrow> json option \<Rightarrow> bool" where
  "parses_field rd sc v = (case v of None \<Rightarrow> False | Some j \<Rightarrow> parses rd sc j)"

definition validData :: "fact_reader \<Rightarrow> schema \<Rightarrow> json option \<Rightarrow> bool" where
  "validData rd sc v = (case v of None \<Rightarrow> False
     | Some j \<Rightarrow> (case fr_parse rd sc j of None \<Rightarrow> False | Some parsed \<Rightarrow> preservesFields j parsed))"

definition absent_or :: "(json option \<Rightarrow> bool) \<Rightarrow> json option \<Rightarrow> bool" where
  "absent_or P v \<longleftrightarrow> v = None \<or> P v"

definition short_string :: "json option \<Rightarrow> bool" where
  "short_string v = (case v of Some (JStr s) \<Rightarrow> 0 < utf16Length s \<and> utf16Length s \<le> 512 | _ \<Rightarrow> False)"

definition short_strings :: "json option \<Rightarrow> bool" where
  "short_strings v = (case v of Some (JArr xs) \<Rightarrow> length xs \<le> 64 \<and> list_all (\<lambda>x. short_string (Some x)) xs | _ \<Rightarrow> False)"

definition safe_count :: "json option \<Rightarrow> bool" where
  "safe_count v = (case v of Some (JNum r) \<Rightarrow> r = of_int (floor r) \<and> 0 \<le> r \<and> r \<le> 9007199254740991 | _ \<Rightarrow> False)"

definition with_fields :: "json \<Rightarrow> fields \<Rightarrow> json" where
  "with_fields input fs = JObj (spread (given (asObject input) []) fs)"

definition shapeValid :: "fact_reader \<Rightarrow> apply_context \<Rightarrow> 'a state \<Rightarrow> string \<Rightarrow> json \<Rightarrow> bool" where
  "shapeValid rd ctx s ty input =
     (let f = field input in
      if ty = ''agent.external'' then parses_field rd S_ThreadId (f ''threadId'') \<and> validData rd S_ThreadStatus (f ''status'') \<and>
        (case agent_of s (given (str_field input ''agent'') []) of None \<Rightarrow> False | Some a \<Rightarrow> a_origin a = Ace)
      else if ty = ''agent.seen'' then parses rd S_Agent (with_fields input [(''id'', JStr validation_agent),
          (''threadId'', JStr (st_threadId s)), (''parentId'', JNull), (''status'', JObj [(''state'', JStr ''starting'')]),
          (''createdAt'', JNum (of_int (now ctx))), (''background'', given (f ''background'') (JBool False))]) \<and>
        validData rd S_NativeRef (f ''native'')
      else if ty = ''agent.linked'' then optionalBoolean (f ''background'') \<and> optionalString (f ''name'') \<and> optionalString (f ''model'')
      else if ty = ''turn.started'' then parses_field rd S_RunTrigger (f ''trigger'') \<and>
        absent_or (\<lambda>v. v = Some JNull \<or> parses_field rd S_PermissionMode v) (f ''permissionMode'')
      else if ty = ''turn.ended'' then oneOf (f ''outcome'') [''completed'', ''failed'', ''interrupted''] \<and>
        absent_or (\<lambda>v. v = Some (JStr ''steer'') \<and> f ''outcome'' = Some (JStr ''interrupted'')) (f ''endedBy'') \<and>
        optionalBoolean (f ''historical'') \<and> absent_or (parses_field rd S_RunTrigger) (f ''trigger'') \<and>
        absent_or (\<lambda>v. case v of None \<Rightarrow> False
          | Some e \<Rightarrow> validData rd S_AgentStatus (Some (JObj [(''state'', JStr ''failed''), (''error'', e)]))) (f ''error'')
      else if ty = ''input.admitted'' then short_string (f ''nativeInputId'') \<and> absent_or short_string (f ''commandId'')
      else if ty = ''input.consumed'' then short_strings (f ''nativeInputIds'')
      else if ty = ''activity'' then parses_field rd S_AgentActivity (f ''activity'') \<and> optionalString (f ''detail'')
      else if ty = ''subagents.waiting'' then parses_field rd S_StringList (f ''targets'')
      else if ty = ''item.reconciled'' \<or> ty = ''item.upsert'' then itemError rd ctx s input = None
      else if ty = ''item.delta'' then oneOf (f ''field'') [''text'', ''reasoning'', ''output''] \<and>
        (case f ''append'' of None \<Rightarrow> False | Some j \<Rightarrow> is_string j)
      else if ty = ''interaction.opened'' then (case f ''blocking'' of None \<Rightarrow> False | Some j \<Rightarrow> is_bool j) \<and>
        validData rd S_InteractionRequest (f ''request'') \<and> absent_or (validData rd S_RawPayloads) (f ''raw'')
      else if ty = ''interaction.closed'' then oneOf (f ''state'') [''resolved'', ''cancelled'', ''expired''] \<and>
        absent_or (validData rd S_InteractionResolution) (f ''resolution'') \<and>
        absent_or (parses_field rd S_DeviceId) (f ''resolvedBy'') \<and> optionalBoolean (f ''autoReviewed'')
      else if ty = ''background.started'' then parses_field rd S_TaskKind (f ''kind'') \<and>
        absent_or (\<lambda>v. v = Some (JStr ''ace'')) (f ''owner'') \<and>
        (case f ''title'' of None \<Rightarrow> False | Some j \<Rightarrow> is_string j) \<and> (case f ''stoppable'' of None \<Rightarrow> False | Some j \<Rightarrow> is_bool j) \<and>
        optionalBoolean (f ''ambient'') \<and> absent_or (\<lambda>v. v = Some (JBool True)) (f ''internal'') \<and>
        optionalString (f ''outputPath'') \<and> absent_or (\<lambda>v. v = Some (JBool False)) (f ''wakesAgent'') \<and>
        absent_or (validData rd S_RawPayloads) (f ''raw'')
      else if ty = ''background.listening'' then parses_field rd S_Ports (f ''ports'')
      else if ty = ''background.ended'' then oneOf (f ''status'') [''completed'', ''failed'', ''stopped'', ''unknown''] \<and>
        optionalBoolean (f ''uncertain'') \<and>
        (f ''uncertain'' \<noteq> Some (JBool True) \<or> f ''status'' = Some (JStr ''unknown''))
      else if ty = ''retry'' then oneOf (f ''on'') [''rate_limit'', ''network'', ''upstream''] \<and>
        parses rd S_AgentStatus (with_fields input [(''state'', JStr ''blocked''), (''refs'', JArr [])])
      else if ty = ''wake.expected'' then parses_field rd S_Timestamp (f ''until'')
      else if ty = ''goal.updated'' then f ''goal'' = Some JNull \<or> parses_field rd S_ProviderGoal (f ''goal'')
      else if ty = ''context.sample'' then
        parses rd S_EventPayload (with_fields input [(''type'', JStr ''context.sampled''), (''agentId'', JStr validation_agent)])
      else if ty = ''usage'' then
        parses rd S_EventPayload (with_fields input [(''type'', JStr ''usage.updated''), (''agentId'', JStr validation_agent)])
      else if ty = ''process.exited'' then
        (case f ''deliberate'' of None \<Rightarrow> False | Some j \<Rightarrow> is_bool j) \<and> optionalString (f ''message'')
      else if ty = ''queue.changed'' then safe_count (f ''count'') \<and>
        absent_or (\<lambda>v. oneOf v [''engine'', ''provider'']) (f ''source'') \<and>
        optionalBoolean (f ''held'') \<and> (f ''held'' = None \<or> f ''source'' \<noteq> Some (JStr ''provider'')) \<and>
        optionalBoolean (f ''stopped'') \<and> (f ''stopped'' = None \<or> f ''source'' \<noteq> Some (JStr ''provider''))
      else True)"

subsection \<open>The whole check (checkedFact)\<close>

text \<open>The keys a fact names must be strings.\<close>

definition key_errors :: "string \<Rightarrow> string list \<Rightarrow> json \<Rightarrow> string option list" where
  "key_errors ty names input =
     map (\<lambda>k. reject_if (k \<in> set names \<and> \<not> optionalString (field input k)) (k @ '' must be a string''))
       [''parent'', ''spawnedBy'', ''nativeTurnId'', ''item'', ''childAgent''] @
     [reject_if (''agent'' \<in> set names \<and>
        (if ty = ''signal'' then \<not> optionalString (field input ''agent'') else str_field input ''agent'' = None))
        ''agent key must be a string''] @
     map (\<lambda>k. reject_if (k \<in> set names \<and> str_field input k = None) (k @ '' key must be a string'')) [''interaction'', ''task''] @
     [reject_if (ty \<in> set [''item.upsert'', ''item.reconciled'', ''item.delta'', ''subagents.waiting''] \<and> str_field input ''item'' = None)
        ''item key must be a string'']"

text \<open>The parent and the spawning item an agent claims.\<close>

definition agent_errors :: "'a state \<Rightarrow> string \<Rightarrow> json \<Rightarrow> string option list" where
  "agent_errors s ty input =
     (let agent = given (str_field input ''agent'') []; parent = str_field input ''parent'';
          owner = Option.bind (Option.bind (str_field input ''spawnedBy'') (get (st_items s)))
            (\<lambda>i. get (agentKeysById (st_indexes s)) (item_agentId i))
      in if ty = ''agent.seen'' \<or> ty = ''agent.linked'' then
           [reject_if (ty = ''agent.seen'' \<and> field input ''origin'' = Some (JStr ''root'') \<and> field input ''parent'' \<noteq> None)
              ''a root cannot have a parent'',
            Option.bind parent (relationError s agent),
            Option.bind owner (relationError s agent),
            (case owner of None \<Rightarrow> None
              | Some o' \<Rightarrow> reject_if (field input ''parent'' \<noteq> None \<and> parent \<noteq> Some o') ''spawn owner contradicts the parent'')]
         else [])"

definition item_owner_differs :: "'a state \<Rightarrow> json \<Rightarrow> item \<Rightarrow> bool" where
  "item_owner_differs s input i \<longleftrightarrow>
     Some (item_agentId i) \<noteq> map_option a_id (agent_of s (given (str_field input ''agent'') []))"

definition delta_accepts :: "json \<Rightarrow> item \<Rightarrow> bool" where
  "delta_accepts input i = (case item_body i of
       Tool_call c \<Rightarrow> field input ''field'' = Some (JStr ''output'') \<and> det_kind (call_detail c) = K_shell
     | Message _ _ \<Rightarrow> field input ''field'' = Some (JStr ''text'')
     | Reasoning _ _ \<Rightarrow> field input ''field'' \<noteq> Some (JStr ''output'')
     | Notice _ _ _ \<Rightarrow> field input ''field'' \<noteq> Some (JStr ''output'')
     | _ \<Rightarrow> False)"

definition delta_errors :: "'a state \<Rightarrow> string \<Rightarrow> json \<Rightarrow> string option list" where
  "delta_errors s ty input =
     (case Option.bind (str_field input ''item'') (get (st_items s)) of
        None \<Rightarrow> []
      | Some i \<Rightarrow>
          if ty = ''item.delta'' then
            [reject_if (item_owner_differs s input i) ''item key has a different owner'',
             reject_if (\<not> delta_accepts input i) ''delta field contradicts its item'']
          else [])"

definition work_errors :: "'a state \<Rightarrow> string \<Rightarrow> json \<Rightarrow> string option list" where
  "work_errors s ty input =
     (if ty \<in> set [''background.started'', ''interaction.opened'', ''subagents.waiting''] then
        (case str_field input ''item'' of
           None \<Rightarrow> []
         | Some k \<Rightarrow> (case get (st_items s) k of
             None \<Rightarrow> [reject_if (ty = ''subagents.waiting'') ''wait must reference an existing tool'']
           | Some i \<Rightarrow> [reject_if (item_owner_differs s input i) ''referenced item has a different owner'',
               reject_if (\<not> is_call (Some i)) ''work links must reference a tool'']))
      else [])"

text \<open>A live key may be claimed again by its owner, or narrowed to a descendant of the task's owner.\<close>

definition live_owner :: "'a state \<Rightarrow> string \<Rightarrow> json \<Rightarrow> ident option" where
  "live_owner s ty input =
     (if ty = ''interaction.opened'' then
        Option.bind (Option.bind (str_field input ''interaction'') (get (st_interactions s)))
          (\<lambda>i. if int_state i = Int_pending then Some (int_agentId i) else None)
      else if ty = ''background.started'' then
        Option.bind (Option.bind (str_field input ''task'') (get (st_tasks s)))
          (\<lambda>t. if task_status t = Task_running then Some (task_agentId t) else None)
      else None)"

definition claim_errors :: "'a state \<Rightarrow> string \<Rightarrow> json \<Rightarrow> string option list" where
  "claim_errors s ty input =
     (let agent = given (str_field input ''agent'') [] in
      [(case live_owner s ty input of None \<Rightarrow> None
         | Some owner \<Rightarrow> reject_if (Some owner \<noteq> map_option a_id (agent_of s agent) \<and>
             \<not> (ty = ''background.started'' \<and> descendsFrom s agent owner)) ''live key has a different owner''),
       (if ty = ''interaction.closed'' then
          (case (field input ''resolution'', Option.bind (str_field input ''interaction'') (get (st_interactions s))) of
             (Some (JObj fs), Some i) \<Rightarrow> reject_if (get fs ''kind'' \<noteq> Some (JStr (case req_kind (int_request i) of
                  Rq_approval \<Rightarrow> ''approval'' | Rq_question \<Rightarrow> ''question'' | Rq_plan_review \<Rightarrow> ''plan_review''
                | Rq_elicitation \<Rightarrow> ''elicitation'' | Rq_browser_help \<Rightarrow> ''browser_help''))) ''resolution contradicts its request''
           | _ \<Rightarrow> None) else None),
       (if ty = ''background.started'' then Option.bind (str_field input ''childAgent'') (\<lambda>c. relationError s c agent) else None)])"

definition validateFact :: "fact_reader \<Rightarrow> apply_context \<Rightarrow> 'a state \<Rightarrow> json \<Rightarrow> string + fact" where
  "validateFact rd ctx s input =
     (case Option.bind (str_field input ''type'') (\<lambda>ty. map_option (Pair ty) (map_of allowed ty)) of
        None \<Rightarrow> Inl ''unknown adapter fact''
      | Some (ty, names) \<Rightarrow>
          (case first_error (
             [reject_if (list_ex (\<lambda>k. k \<noteq> ''type'' \<and> k \<notin> set names) (okeys (given (asObject input) []))) ''unrecognized fact fields''] @
             key_errors ty names input @ agent_errors s ty input @ delta_errors s ty input @ work_errors s ty input @
             claim_errors s ty input @ [reject_if (\<not> shapeValid rd ctx s ty input) ''invalid adapter fact fields'']) of
             Some e \<Rightarrow> Inl e
           | None \<Rightarrow> Inr (fr_fact rd input)))"

text \<open>\<open>factRaw\<close>: the native evidence a fact carries.\<close>

definition factRaw :: "fact \<Rightarrow> raw_payload list" where
  "factRaw f = (case f of
       F_item_upsert _ _ draft \<Rightarrow> (case dr_body draft of
           D_tool_call call \<Rightarrow> given (Option.bind call cd_raw) []
         | D_message _ _ \<Rightarrow> given (dr_raw draft) []
         | D_notice _ _ _ \<Rightarrow> given (dr_raw draft) []
         | D_reasoning _ _ \<Rightarrow> given (dr_raw draft) []
         | _ \<Rightarrow> [])
     | F_interaction_opened o' \<Rightarrow> given (io_raw o') []
     | F_background_started b \<Rightarrow> given (bs_raw b) []
     | _ \<Rightarrow> [])"

subsection \<open>What the check guarantees\<close>

lemma first_error_None: "first_error es = None \<longleftrightarrow> (\<forall>e \<in> set es. e = None)"
proof (induction es)
  case (Cons e es)
  then show ?case by (cases e) (auto simp: first_error_def List.map_filter_simps split: list.splits)
qed (simp add: first_error_def List.map_filter_simps)

lemma first_error_hd: "first_error (Some e # es) = Some e"
  by (simp add: first_error_def List.map_filter_simps)

text \<open>C24: an accepted relation can be made. When \<open>relationError\<close> finds nothing wrong with a parent for a
  known agent, \<open>setParent\<close> does not throw, the agent ends up under that parent, and the tree stays
  well formed; when the parent descends from the agent the relation is refused.\<close>

theorem relationError_sound:
  assumes "id_source (ids ctx)" "tree_inv (ids ctx) w" "has (st_agents w) a" "has (st_agents w) p"
  shows "(relationError w a p = None \<longrightarrow>
      (\<exists>w'. setParent ctx a (Some p) w = Some w' \<and> tree_inv (ids ctx) w' \<and> parent_of w' a = Some p)) \<and>
    ((p, a) \<in> (edges (tv w))\<^sup>* \<longrightarrow> relationError w a p \<noteq> None)"
proof (intro conjI impI)
  obtain r where r: "get (st_agents w) a = Some r" using assms(3) by (auto simp: has_def)
  obtain q where q: "agent_of w p = Some q" using agent_of_has [OF assms(4)] by blast
  assume ok: "relationError w a p = None"
  then have "p \<noteq> a" "a \<notin> set (ancestors w p)" by (auto simp: relationError_def split: if_splits)
  then have sp: "setParent ctx a (Some p) w = Some (link_parent a (Some p) (Some (a_id q)) (clears_spawn r (Some p)) w)"
    using r q assms(3,4) by (simp add: setParent_def)
  moreover have "tree_inv (ids ctx) (link_parent a (Some p) (Some (a_id q)) (clears_spawn r (Some p)) w)"
    by (rule setParent_inv [OF assms(1,2) sp]) (use assms(4) in simp)
  moreover have "parent_of (link_parent a (Some p) (Some (a_id q)) (clears_spawn r (Some p)) w) a = Some p"
  proof -
    have "tv (link_parent a (Some p) (Some (a_id q)) (clears_spawn r (Some p)) w) a = Some (fst (the (tv w a)), Some (a_id q), Some p)"
      by (simp add: link_parent_tv [OF assms(3)])
    then show ?thesis by (simp add: tv_parent_of)
  qed
  ultimately show "\<exists>w'. setParent ctx a (Some p) w = Some w' \<and> tree_inv (ids ctx) w' \<and> parent_of w' a = Some p" by blast
next
  assume up: "(p, a) \<in> (edges (tv w))\<^sup>*"
  have "acyclic (edges (tv w))" using assms(2) by (simp add: tree_inv_def tree_ok_def)
  then have "a \<in> set (ancestors w p)"
    unfolding ancestors_def using up edges_step_rel [of w] in_keys_iff [of _ "st_agents w"]
    by (intro reachable_in_chain) (auto simp: parent_of_def has_def bind_Some_iff)
  then show "relationError w a p \<noteq> None" by (auto simp: relationError_def)
qed

text \<open>C32: the lineage of an agent cannot be reported. facts.ts declares \<open>lineage\<close> on \<open>agent.seen\<close> and
  \<open>seeAgent\<close> stores it, but the table of allowed fields leaves it out: every such fact is rejected.\<close>

theorem agent_seen_lineage_rejected:
  assumes "str_field input ''type'' = Some ''agent.seen''" "field input ''lineage'' \<noteq> None"
  shows "validateFact rd ctx s input = Inl ''unrecognized fact fields''"
proof -
  let ?names = "[''agent'', ''parent'', ''spawnedBy'', ''origin'', ''fidelity'', ''native'', ''cwd'', ''name'',
        ''role'', ''model'', ''background'', ''machine'']"
  have names: "map_of allowed ''agent.seen'' = Some ?names" by (simp add: allowed_def)
  obtain fs where fs: "asObject input = Some fs" "get fs ''lineage'' \<noteq> None"
    using assms(2) by (auto simp: field_def bind_Some_iff)
  have "list_ex (\<lambda>k. k \<noteq> ''type'' \<and> k \<notin> set ?names) (okeys fs)"
    unfolding list_ex_iff by (rule bexI [of _ "''lineage''"]) (use fs(2) in \<open>auto simp: has_def\<close>)
  then show ?thesis
    using assms(1) fs(1) by (simp add: validateFact_def names reject_if_def first_error_hd given_def)
qed

text \<open>A reader for the examples: the schemas accept everything, and it knows the turn boundaries.\<close>

definition example_reader :: fact_reader where
  "example_reader = \<lparr>fr_parse = \<lambda>_ j. Some j,
     fr_fact = \<lambda>j. (let a = given (str_field j ''agent'') []; ty = str_field j ''type'' in
       if ty = Some ''turn.started'' then F_turn_started \<lparr>ts_agent = a, ts_nativeTurnId = str_field j ''nativeTurnId'',
         ts_trigger = Tr_unknown, ts_permissionMode = None\<rparr>
       else if ty = Some ''turn.ended'' then F_turn_ended \<lparr>te_agent = a, te_nativeTurnId = str_field j ''nativeTurnId'',
         te_outcome = Completed, te_endedBy_steer = False, te_trigger = None, te_error = None, te_historical = False\<rparr>
       else F_tick),
     fr_draft = \<lambda>_. \<lparr>dr_complete = None, dr_body = D_compaction, dr_raw = None, dr_rest = []\<rparr>\<rparr>"

theorem agent_seen_lineage_rejected_witness:
  "validateFact example_reader (example_ctx 5) example_world (JObj [(''type'', JStr ''agent.seen''), (''lineage'', JObj [])]) =
     Inl ''unrecognized fact fields''"
  by (rule agent_seen_lineage_rejected) (simp_all add: str_field_def field_def)

definition example_pair :: world where
  "example_pair = ensureAgent (example_ctx 5) ''b'' (ensureAgent (example_ctx 5) ''a'' example_world)"

lemma example_pair_relation: "relationError example_pair ''b'' ''a'' = None"
  by code_simp

theorem relationError_sound_witness:
  "relationError example_pair ''b'' ''a'' = None \<and>
   (\<exists>w'. setParent (example_ctx 6) ''b'' (Some ''a'') example_pair = Some w' \<and> tree_inv counter_ids w' \<and> parent_of w' ''b'' = Some ''a'')"
proof -
  have c: "ids (example_ctx t) = counter_ids" for t by (simp add: example_ctx_def)
  have src: "id_source (ids (example_ctx t))" for t using counter.id_source_axioms by (simp add: c)
  have "tree_inv counter_ids example_world" using run_inv_example_world by (simp add: run_inv_def)
  then have "tree_inv (ids (example_ctx 6)) example_pair"
    using tree_inv_ensureAgent [OF src] unfolding example_pair_def c by blast
  from relationError_sound [OF src this, of "''b''" "''a''"] example_pair_relation show ?thesis
    by (simp add: example_pair_def c)
qed

end
