(* ===== verification/Core_Reduce.thy ===== *)
theory Core_Reduce
  imports Core_Validate
begin

text \<open>
  Folding facts into the thread (src/packages/core/src/reduce.ts): every fact is validated, refreshes
  the signs of life it carries, takes its effect, and the statuses are derived again. Batches defer
  the derivation for facts that cannot end or start a turn. A thrown exception is \<^const>\<open>None\<close>.
\<close>

subsection \<open>Signs of life\<close>

definition beat :: "timestamp \<Rightarrow> agent_record \<Rightarrow> agent_record" where
  "beat t r = r\<lparr>ar_lastSignalAt := t\<rparr>"

definition signal_owner :: "fact \<Rightarrow> 'a state \<Rightarrow> ident option" where
  "signal_owner f s = (case f of
       F_background_ended k _ _ \<Rightarrow> map_option task_agentId (get (st_tasks s) k)
     | F_interaction_closed c \<Rightarrow> map_option int_agentId (get (st_interactions s) (ic_interaction c))
     | _ \<Rightarrow> None)"

definition signal :: "fact \<Rightarrow> apply_context \<Rightarrow> world \<Rightarrow> world" where
  "signal f ctx w = (case fact_agent f of
       Some a \<Rightarrow> upd_agent a (beat (now ctx)) (ensureAgent ctx a w)
     | None \<Rightarrow>
         if f = F_signal None then fold (\<lambda>k. upd_agent k (beat (now ctx))) (okeys (st_agents w)) w
         else (case Option.bind (signal_owner f w) (get (agentKeysById (st_indexes w))) of
             None \<Rightarrow> w
           | Some k \<Rightarrow> upd_agent k (beat (now ctx)) w))"

subsection \<open>The effect of a fact\<close>

definition set_external :: "key \<Rightarrow> ident \<Rightarrow> thread_status \<Rightarrow> apply_context \<Rightarrow> world \<Rightarrow> world" where
  "set_external k threadId status ctx w0 =
     (let w = ensureAgent ctx k w0 in
      case get (st_agents w) k of
        None \<Rightarrow> w
      | Some r \<Rightarrow>
          let w1 = (if status = Thread_failed \<and> ar_externalStatus r \<noteq> Some Thread_failed
                    then next_order k (\<lambda>r. r) w else w);
              w2 = upd_agent k (\<lambda>r. r\<lparr>ar_externalStatus := Some status\<rparr>) w1
          in if a_childThreadId (ar_agent r) = Some threadId then w2
             else emit (Agent_updated (a_id (ar_agent r)) (no_update\<lparr>u_childThreadId := Some threadId\<rparr>))
                    (upd_agent k (\<lambda>r. r\<lparr>ar_agent := (ar_agent r)\<lparr>a_childThreadId := Some threadId\<rparr>\<rparr>) w2))"

text \<open>The activity an upserted item of the active run shows.\<close>

definition item_shows :: "item \<Rightarrow> agent_activity \<Rightarrow> agent_activity" where
  "item_shows item current = (case item_body item of
       Tool_call c \<Rightarrow> if isLiveTool item then Tool else Starting_turn
     | Reasoning _ _ \<Rightarrow> if item_complete item then current else Thinking
     | Message Assistant_role _ \<Rightarrow> if item_complete item then current else Responding
     | Compaction \<Rightarrow> if \<not> item_complete item then Compacting
         else if current = Compacting then Starting_turn else current
     | _ \<Rightarrow> current)"

definition show_item :: "key \<Rightarrow> key \<Rightarrow> world \<Rightarrow> world" where
  "show_item agentKey k w = (case (get (st_agents w) agentKey, get (st_items w) k) of
       (Some r, Some item) \<Rightarrow>
         if ar_activeRun r = None \<or> item_runId item \<noteq> ar_activeRun r then w
         else upd_agent agentKey (\<lambda>r. r\<lparr>ar_activity := item_shows item (ar_activity r)\<rparr>) w
     | _ \<Rightarrow> w)"

definition note_retry :: "retry \<Rightarrow> agent_record \<Rightarrow> agent_record" where
  "note_retry y r = r\<lparr>ar_retry := Some y, ar_limited := (if rt_on y = On_rate_limit_retry
     then Some \<lparr>lim_until = rt_until y, lim_message = rt_message y\<rparr> else ar_limited r)\<rparr>"

definition clear_limit :: "agent_record \<Rightarrow> agent_record" where
  "clear_limit r = r\<lparr>ar_retry := (case ar_retry r of
       Some y \<Rightarrow> if rt_on y = On_rate_limit_retry then None else Some y | None \<Rightarrow> None), ar_limited := None\<rparr>"

definition change_queue :: "nat \<Rightarrow> queue_source option \<Rightarrow> bool option \<Rightarrow> bool option \<Rightarrow> world \<Rightarrow> world" where
  "change_queue n source held stopped w =
     (let w1 = (if source = Some Provider then w\<lparr>st_queueProvider := n\<rparr> else w\<lparr>st_queueEngine := n\<rparr>);
          w2 = w1\<lparr>st_queueCount := st_queueEngine w1 + st_queueProvider w1\<rparr>
      in if source = Some Provider then w2
         else w2\<lparr>st_queueHeld := (held = Some True \<and> n > 0), st_queueStopped := (stopped = Some True \<and> n > 0)\<rparr>)"

definition with_agent :: "apply_context \<Rightarrow> key \<Rightarrow> (agent_record \<Rightarrow> agent_record) \<Rightarrow> world \<Rightarrow> world" where
  "with_agent ctx k f w = upd_agent k f (ensureAgent ctx k w)"

definition emit_for :: "apply_context \<Rightarrow> key \<Rightarrow> (ident \<Rightarrow> event) \<Rightarrow> world \<Rightarrow> world" where
  "emit_for ctx k e w0 = (let w = ensureAgent ctx k w0 in
     case agent_of w k of None \<Rightarrow> w | Some a \<Rightarrow> emit (e (a_id a)) w)"

fun step_fact :: "fact \<Rightarrow> apply_context \<Rightarrow> world \<Rightarrow> world option" where
  "step_fact (F_agent_external k threadId status) ctx w = Some (set_external k threadId status ctx w)"
| "step_fact (F_agent_disconnected k) ctx w = Some (with_agent ctx k (\<lambda>r. r\<lparr>ar_disconnectedAt := Some (now ctx)\<rparr>) w)"
| "step_fact (F_agent_reconnected k) ctx w = Some (with_agent ctx k (\<lambda>r. r\<lparr>ar_disconnectedAt := None\<rparr>) w)"
| "step_fact (F_agent_seen f) ctx w = seeAgent ctx f w"
| "step_fact (F_agent_linked f) ctx w = linkAgent ctx f w"
| "step_fact (F_turn_started f) ctx w = Some (startTurn f ctx w)"
| "step_fact (F_turn_ended f) ctx w = Some (endTurn f ctx w)"
| "step_fact (F_input_admitted k input commandId) ctx w = Some (emit_for ctx k (\<lambda>i. Input_admitted i input commandId) w)"
| "step_fact (F_input_consumed k inputs) ctx w = Some w"
| "step_fact (F_activity k activity detail) ctx w =
     Some (with_agent ctx k (\<lambda>r. r\<lparr>ar_activity := activity, ar_detail := detail\<rparr>) w)"
| "step_fact (F_item_upsert a k draft) ctx w = map_option (show_item a k) (upsertItem ctx a k draft w)"
| "step_fact (F_item_reconciled a k draft) ctx w = map_option (show_item a k) (reconcileItem ctx a k draft w)"
| "step_fact (F_subagents_waiting a k targets) ctx w = Some (put_link k ((link_of w k)\<lparr>lk_waitingFor := Some targets\<rparr>) w)"
| "step_fact (F_interaction_opened f) ctx w = openInteraction f ctx w"
| "step_fact (F_interaction_closed f) ctx w = Some (closeInteraction f ctx w)"
| "step_fact (F_background_started f) ctx w = startBackground f ctx w"
| "step_fact (F_background_listening k ports) ctx w = Some (listenBackground k ports w)"
| "step_fact (F_background_ended k status uncertain) ctx w = Some (endBackground k status uncertain ctx w)"
| "step_fact (F_retry k y) ctx w = Some (with_agent ctx k (note_retry y) w)"
| "step_fact (F_retry_cleared k) ctx w = Some (with_agent ctx k (\<lambda>r. r\<lparr>ar_retry := None\<rparr>) w)"
| "step_fact (F_limit_cleared k) ctx w = Some (with_agent ctx k clear_limit w)"
| "step_fact (F_wake_expected k until) ctx w = Some (with_agent ctx k (\<lambda>r. r\<lparr>ar_wakeUntil := Some until\<rparr>) w)"
| "step_fact (F_context_sample k sample) ctx w = Some (emit_for ctx k (\<lambda>i. Context_sampled i sample) w)"
| "step_fact (F_usage k usage) ctx w = Some (emit_for ctx k (\<lambda>i. Usage_updated i usage) w)"
| "step_fact (F_process_exited deliberate message) ctx w = Some (exitProcess deliberate message ctx w)"
| "step_fact F_process_started ctx w =
     Some (w\<lparr>st_queueProvider := 0, st_queueCount := st_queueEngine w, st_processExit := None\<rparr>)"
| "step_fact (F_queue_changed n source held stopped) ctx w = Some (change_queue n source held stopped w)"
| "step_fact (F_item_delta a k fld text) ctx w = map_option snd (appendItem ctx a k fld text w)"
| "step_fact (F_goal_updated k goal) ctx w = Some w"
| "step_fact (F_signal k) ctx w = Some w"
| "step_fact F_tick ctx w = Some w"

subsection \<open>Folding one fact\<close>

text \<open>The end of the two facts that often change no status: deltas and an empty \<open>retry.cleared\<close>.\<close>

definition quiet_end :: "bool \<Rightarrow> apply_context \<Rightarrow> world \<Rightarrow> world option" where
  "quiet_end derive_again ctx w = do {
     w1 \<leftarrow> (if derive_again then Option.bind (reconcileLinks ctx w) (recomputeStatuses (now ctx)) else Some w);
     Some (flushNotices ctx w1)
   }"

definition transport_recovered :: "apply_context \<Rightarrow> 'a state \<Rightarrow> bool" where
  "transport_recovered ctx s \<longleftrightarrow> by_transport (st_config s) \<and> now ctx - transportSignalAt s > cfg_silenceMs (st_config s)"

fun carries_signal :: "fact \<Rightarrow> bool" where
  "carries_signal F_tick = False"
| "carries_signal (F_queue_changed _ _ _ _) = False"
| "carries_signal (F_process_exited _ _) = False"
| "carries_signal _ = True"

definition nothing_to_clear :: "key \<Rightarrow> 'a state \<Rightarrow> bool" where
  "nothing_to_clear k s = (case Option.bind (get (st_agents s) k) ar_retry of
       None \<Rightarrow> True | Some y \<Rightarrow> rt_on y = On_rate_limit_retry)"

text \<open>An accepted fact. \<open>finish\<close> derives the statuses or defers that; its answer is passed on, \<open>quiet\<close>
  is the answer when it is not asked.\<close>

definition accept_fact :: "(world \<Rightarrow> (world \<times> 'x) option) \<Rightarrow> 'x \<Rightarrow> fact \<Rightarrow> apply_context \<Rightarrow> world \<Rightarrow> (world \<times> 'x) option" where
  "accept_fact finish quiet f ctx w0 = do {
     w \<leftarrow> ensureInitialRoot ctx w0;
     let recovered = transport_recovered ctx w;
     let w1 = (if carries_signal f then w\<lparr>st_lastTransportSignalAt := Some (now ctx)\<rparr> else w);
     let w2 = signal f ctx w1;
     let wide = (do {
       w3 \<leftarrow> step_fact f ctx w2;
       w4 \<leftarrow> reconcileLinks ctx (flushNotices ctx w3);
       finish w4 });
     (case f of
        F_item_delta a k fld text \<Rightarrow> do {
          (changed, w3) \<leftarrow> appendItem ctx a k fld text w2;
          w4 \<leftarrow> quiet_end (changed \<or> recovered \<or> hasUnresponsiveAncestor w3 a) ctx w3;
          Some (w4, quiet) }
      | F_retry_cleared a \<Rightarrow>
          let w3 = ensureAgent ctx a w2 in
          if nothing_to_clear a w3
          then map_option (\<lambda>w4. (w4, quiet)) (quiet_end (recovered \<or> hasUnresponsiveAncestor w3 a) ctx w3)
          else wide
      | _ \<Rightarrow> wide)
   }"

definition fold_fact :: "(world \<Rightarrow> (world \<times> 'x) option) \<Rightarrow> 'x \<Rightarrow> fact_reader \<Rightarrow> json \<Rightarrow> apply_context \<Rightarrow> world \<Rightarrow>
    (world \<times> 'x) option" where
  "fold_fact finish quiet rd input ctx w0 =
     (if now ctx < 0 \<or> now ctx > 9007199254740991 then None
      else let w = w0\<lparr>w_events := []\<rparr> in
        case validateFact rd ctx w input of
          Inl reason \<Rightarrow> Some (rejectFact input reason ctx w, quiet)
        | Inr f \<Rightarrow> accept_fact finish quiet f ctx w)"

text \<open>\<open>apply(state, input, ctx)\<close>: the new state, with the events it emitted.\<close>

definition apply_fact :: "fact_reader \<Rightarrow> json \<Rightarrow> apply_context \<Rightarrow> world \<Rightarrow> world option" where
  "apply_fact rd input ctx w = map_option fst
     (fold_fact (\<lambda>w. map_option (\<lambda>w'. (w', ())) (recomputeStatuses (now ctx) w)) () rd input ctx w)"

subsection \<open>Batches\<close>

record fact_batch =
  fb_state :: world
  fb_pendingAt :: "timestamp option"
  fb_signalDeadline :: "timestamp option"
  fb_preserveSignals :: bool

definition new_batch :: "world \<Rightarrow> timestamp option option \<Rightarrow> fact_batch" where
  "new_batch w stableSignals = \<lparr>fb_state = w, fb_pendingAt = None,
     fb_signalDeadline = (case stableSignals of None \<Rightarrow> None | Some d \<Rightarrow> d), fb_preserveSignals = (stableSignals \<noteq> None)\<rparr>"

definition flush_batch :: "fact_batch \<Rightarrow> (event list \<times> fact_batch) option" where
  "flush_batch b = (case fb_pendingAt b of
       None \<Rightarrow> Some ([], b)
     | Some t \<Rightarrow> Option.bind (recomputeStatuses t ((fb_state b)\<lparr>w_events := []\<rparr>))
         (\<lambda>w. Some (w_events w, b\<lparr>fb_state := w, fb_pendingAt := None\<rparr>)))"

definition batchable :: "fact \<Rightarrow> 'a state \<Rightarrow> bool" where
  "batchable f s = (case f of
       F_signal _ \<Rightarrow> True
     | F_interaction_opened o' \<Rightarrow> io_item o' = None
     | F_item_upsert _ k draft \<Rightarrow>
         (case dr_body draft of D_message _ _ \<Rightarrow> True | D_notice _ _ _ \<Rightarrow> True | _ \<Rightarrow> False) \<and>
         dr_complete draft = Some True \<and> \<not> is_call (get (st_items s) k)
     | _ \<Rightarrow> False)"

definition stable_signal :: "fact_batch \<Rightarrow> fact \<Rightarrow> apply_context \<Rightarrow> bool" where
  "stable_signal b f ctx =
     (let s = fb_state b; t = now ctx in
      case f of
        F_signal (Some a) \<Rightarrow> fb_preserveSignals b \<and> has (st_agents s) a \<and> st_processExit s = None \<and>
          (case st_statusObservedAt s of None \<Rightarrow> False | Some o' \<Rightarrow> t \<ge> o') \<and>
          t \<ge> given (st_lastTransportSignalAt s) t \<and>
          (case fb_signalDeadline b of None \<Rightarrow> True | Some d \<Rightarrow> t < d) \<and>
          \<not> transport_recovered ctx s \<and> \<not> hasUnresponsiveAncestor s a
      | _ \<Rightarrow> False)"

fun is_delta :: "event \<Rightarrow> bool" where
  "is_delta (Item_delta _ _ _ _) = True"
| "is_delta _ = False"

definition invalidates :: "fact \<Rightarrow> event list \<Rightarrow> bool" where
  "invalidates f emitted \<longleftrightarrow> (case f of F_signal _ \<Rightarrow> False | F_item_delta _ _ _ _ \<Rightarrow> False | _ \<Rightarrow> True) \<or>
     list_ex (\<lambda>e. \<not> is_delta e) emitted"

definition batch_finish :: "bool \<Rightarrow> bool \<Rightarrow> timestamp option \<Rightarrow> apply_context \<Rightarrow> world \<Rightarrow> (world \<times> timestamp option) option" where
  "batch_finish quiet_signal defer pendingAt ctx w =
     (if quiet_signal \<and> w_events w = [] then Some (w\<lparr>st_statusObservedAt := Some (now ctx)\<rparr>, pendingAt)
      else if defer then Some (w, Some (now ctx))
      else map_option (\<lambda>w'. (w', pendingAt)) (recomputeStatuses (now ctx) w))"

definition batch_apply :: "fact_reader \<Rightarrow> json \<Rightarrow> apply_context \<Rightarrow> fact_batch \<Rightarrow> (event list \<times> fact_batch) option" where
  "batch_apply rd input ctx b0 = do {
     let f = fr_fact rd input;
     let defer = batchable f (fb_state b0);
     (preceding, b) \<leftarrow> (if \<not> defer \<or> fb_pendingAt b0 \<noteq> Some (now ctx) then flush_batch b0 else Some ([], b0));
     (w, pendingAt) \<leftarrow> fold_fact (batch_finish (stable_signal b f ctx) defer (fb_pendingAt b) ctx) (fb_pendingAt b)
        rd input ctx (fb_state b);
     Some (preceding @ w_events w, b\<lparr>fb_state := w, fb_pendingAt := pendingAt,
       fb_preserveSignals := (fb_preserveSignals b \<and> \<not> invalidates f (w_events w))\<rparr>)
   }"

end
