(* ===== verification/Core_Reduce_Inv.thy ===== *)
theory Core_Reduce_Inv
  imports Core_Reduce
begin

text \<open>
  The invariant of the reducer. Every fact an adapter can send, accepted or rejected, folded alone
  or in a batch, keeps the agent tree well formed, the runs consistent and the live indexes right,
  and changes no run that has ended. The states a thread can reach are an inductive predicate.
\<close>

definition core_inv :: "(id_kind \<Rightarrow> nat \<Rightarrow> ident) \<Rightarrow> world \<Rightarrow> bool" where
  "core_inv gen w \<longleftrightarrow> run_inv gen w \<and> work_ok w"

definition sound_step :: "apply_context \<Rightarrow> world \<Rightarrow> world \<Rightarrow> bool" where
  "sound_step ctx w w' \<longleftrightarrow> (id_source (ids ctx) \<longrightarrow> core_inv (ids ctx) w \<longrightarrow> core_inv (ids ctx) w' \<and> keeps_ended w w')"

lemma sound_step_refl [simp]: "sound_step ctx w w"
  by (simp add: sound_step_def keeps_ended_same)

lemma sound_step_trans: "sound_step ctx w w' \<Longrightarrow> sound_step ctx w' w'' \<Longrightarrow> sound_step ctx w w''"
  by (auto simp: sound_step_def intro: keeps_ended_trans)

lemma sound_safe: "safe_op ctx w w' \<Longrightarrow> sound_step ctx w w'"
  by (auto simp: sound_step_def core_inv_def run_inv_def safe_op_def run_frame_def
      intro: keeps_ended_same runs_ok_frame [unfolded run_frame_def])

lemma sound_startTurn: "sound_step ctx w (startTurn f ctx w)"
  by (simp add: sound_step_def core_inv_def startTurn_inv startTurn_work_ok startTurn_keeps_ended)

lemma sound_endTurn: "sound_step ctx w (endTurn f ctx w)"
  by (simp add: sound_step_def core_inv_def endTurn_inv endTurn_work_ok endTurn_keeps_ended)

lemma sound_exitProcess: "sound_step ctx w (exitProcess d m ctx w)"
  by (auto simp: sound_step_def core_inv_def exitProcess_inv exitProcess_work_ok intro: exitProcess_keeps_ended)

subsection \<open>The operations of reduce.ts\<close>

lemma safe_op_with_agent:
  assumes "\<And>r. view (f r) = view r" "\<And>r. sight (f r) = sight r"
  shows "safe_op ctx w (with_agent ctx k f w)"
  unfolding with_agent_def by (rule safe_op_trans [OF safe_op_ensureAgent safe_op_upd_agent [OF assms]])

lemma safe_op_beat: "safe_op ctx w (upd_agent k (beat t) w)"
  by (rule safe_op_upd_agent) (simp_all add: beat_def view_def sight_def)

lemma signal_safe: "safe_op ctx w (signal f ctx w)"
  unfolding signal_def
  by (auto split: option.splits intro: safe_op_beat safe_op_fold safe_op_trans [OF safe_op_ensureAgent safe_op_beat])

lemma safe_op_next_order:
  assumes "\<And>r. view (f r) = view r" "\<And>r. sight (f r) = sight r"
  shows "safe_op ctx w (next_order k f w)"
proof -
  have "safe_op ctx w (w\<lparr>st_outcomeOrder := n\<rparr>)" for n by (rule safe_op_frame) simp_all
  moreover have "safe_op ctx v (upd_agent k (\<lambda>r. (f r)\<lparr>ar_lastOutcomeOrder := Some n\<rparr>) v)" for v n
    by (rule safe_op_upd_agent) (use assms in \<open>simp_all add: view_def sight_def\<close>)
  ultimately show ?thesis unfolding next_order_def Let_def by (rule safe_op_trans)
qed

lemma set_external_safe: "safe_op ctx w (set_external k i st ctx w)"
proof -
  have a: "safe_op ctx v (next_order k (\<lambda>r. r) v)" for v by (rule safe_op_next_order) simp_all
  have b: "safe_op ctx v (upd_agent k (\<lambda>r. r\<lparr>ar_externalStatus := Some st\<rparr>) v)" for v
    by (rule safe_op_upd_agent) (simp_all add: view_def sight_def)
  have c: "safe_op ctx v (upd_agent k (\<lambda>r. r\<lparr>ar_agent := (ar_agent r)\<lparr>a_childThreadId := Some i\<rparr>\<rparr>) v)" for v
    by (rule safe_op_upd_agent) (simp_all add: view_def sight_def)
  have n: "safe_op ctx v (if p then next_order k (\<lambda>r. r) v else v)" for v p by (cases p) (simp_all add: a)
  note d = safe_op_trans [OF safe_op_trans [OF safe_op_ensureAgent n] b]
  show ?thesis
  proof (cases "get (st_agents (ensureAgent ctx k w)) k")
    case None then show ?thesis by (simp add: set_external_def safe_op_ensureAgent)
  next
    case (Some r)
    then show ?thesis
      by (cases "a_childThreadId (ar_agent r) = Some i")
        (simp_all only: set_external_def Let_def option.case if_True if_False refl d safe_op_trans [OF safe_op_trans [OF d c] safe_op_emit])
  qed
qed

lemma show_item_safe: "safe_op ctx w (show_item a k w)"
  unfolding show_item_def
  by (auto split: option.splits intro!: safe_op_upd_agent simp: view_def sight_def)

lemma emit_for_safe: "safe_op ctx w (emit_for ctx k e w)"
  unfolding emit_for_def Let_def
  by (auto split: option.splits intro: safe_op_ensureAgent safe_op_trans [OF safe_op_ensureAgent safe_op_emit])

lemma change_queue_safe: "safe_op ctx w (change_queue n so h st w)"
  unfolding change_queue_def Let_def by (auto intro!: safe_op_frame)

lemma put_link_safe: "safe_op ctx w (put_link k l w)"
  by (rule safe_op_frame) (simp_all add: put_link_def)

lemma safe_op_seeAgent: "seeAgent ctx f w = Some w' \<Longrightarrow> safe_op ctx w w'"
  by (rule safe_op_tree) (auto intro: tree_step_seeAgent seeAgent_inv)

lemma safe_op_reconcileLinks: "reconcileLinks ctx w = Some w' \<Longrightarrow> safe_op ctx w w'"
  by (rule safe_op_tree) (auto intro: tree_step_reconcileLinks reconcileLinks_inv)

lemma safe_op_ensureInitialRoot: "ensureInitialRoot ctx w = Some w' \<Longrightarrow> safe_op ctx w w'"
  by (rule safe_op_tree) (auto intro: tree_step_ensureInitialRoot ensureInitialRoot_inv)

lemma safe_op_appendItem: "appendItem ctx a k fld t w = Some (b, w') \<Longrightarrow> safe_op ctx w w'"
  by (rule safe_op_item [OF item_op_appendItem])

lemma safe_op_reconcile: "reconcileItem ctx a k d w = Some w' \<Longrightarrow> safe_op ctx w w'"
  by (rule safe_op_item [OF item_op_reconcile])

lemma step_fact_sound:
  assumes "step_fact f ctx w = Some w'"
  shows "sound_step ctx w w'"
proof (cases f)
  case (F_agent_external k i st) with assms set_external_safe sound_safe show ?thesis by auto
next
  case (F_agent_seen x) with assms safe_op_seeAgent sound_safe show ?thesis by auto
next
  case (F_agent_linked x) with assms safe_op_linkAgent sound_safe show ?thesis by auto
next
  case (F_input_admitted a i c) with assms emit_for_safe sound_safe show ?thesis by auto
next
  case (F_turn_started x) with assms sound_startTurn show ?thesis by auto
next
  case (F_turn_ended x) with assms sound_endTurn show ?thesis by auto
next
  case (F_subagents_waiting a k t) with assms put_link_safe sound_safe show ?thesis by auto
next
  case (F_item_upsert a k d)
  with assms show ?thesis by (auto intro: sound_safe safe_op_trans [OF safe_op_upsert show_item_safe])
next
  case (F_item_reconciled a k d)
  with assms show ?thesis by (auto intro: sound_safe safe_op_trans [OF safe_op_reconcile show_item_safe])
next
  case (F_item_delta a k fld t) with assms safe_op_appendItem sound_safe show ?thesis by auto
next
  case (F_interaction_opened x) with assms openInteraction_safe sound_safe show ?thesis by auto
next
  case (F_interaction_closed x) with assms closeInteraction_safe sound_safe show ?thesis by auto
next
  case (F_background_started x) with assms startBackground_safe sound_safe show ?thesis by auto
next
  case (F_background_listening k p) with assms listenBackground_safe sound_safe show ?thesis by auto
next
  case (F_background_ended k s u) with assms endBackground_safe sound_safe show ?thesis by auto
next
  case (F_usage a u) with assms emit_for_safe sound_safe show ?thesis by auto
next
  case (F_context_sample a u) with assms emit_for_safe sound_safe show ?thesis by auto
next
  case (F_process_exited d m) with assms sound_exitProcess show ?thesis by auto
next
  case F_process_started
  with assms show ?thesis by (auto intro!: sound_safe safe_op_frame)
next
  case (F_queue_changed n so h st) with assms change_queue_safe sound_safe show ?thesis by auto
qed (use assms in \<open>auto intro!: sound_safe safe_op_with_agent
  simp: view_def sight_def note_retry_def clear_limit_def\<close>)

lemma recompute_sound: "recomputeStatuses t w = Some w' \<Longrightarrow> sound_step ctx w w'"
  by (rule sound_safe [OF recomputeStatuses_safe])

lemma quiet_end_sound: "quiet_end b ctx w = Some w' \<Longrightarrow> sound_step ctx w w'"
  unfolding quiet_end_def
  by (auto elim!: bind_SomeE split: if_splits intro: sound_safe [OF flushNotices_safe]
      sound_step_trans [OF sound_step_trans [OF sound_safe [OF safe_op_reconcileLinks] recompute_sound] sound_safe [OF flushNotices_safe]])

lemma accept_fact_sound:
  assumes fin: "\<And>w w' x. finish w = Some (w', x) \<Longrightarrow> sound_step ctx w w'"
    and "accept_fact finish quiet f ctx w0 = Some (w', x)"
  shows "sound_step ctx w0 w'"
proof -
  from assms(2) obtain w where w: "ensureInitialRoot ctx w0 = Some w"
    unfolding accept_fact_def Let_def by (auto elim!: bind_SomeE)
  define w1 where "w1 = (if carries_signal f then w\<lparr>st_lastTransportSignalAt := Some (now ctx)\<rparr> else w)"
  define w2 where "w2 = signal f ctx w1"
  have "safe_op ctx w w1" unfolding w1_def by (auto intro: safe_op_frame)
  then have "safe_op ctx w0 w2" unfolding w2_def
    using safe_op_ensureInitialRoot [OF w] signal_safe by (blast intro: safe_op_trans)
  then have s2: "sound_step ctx w0 w2" by (rule sound_safe)
  have wide: "sound_step ctx w2 v" if "(do { w3 \<leftarrow> step_fact f ctx w2; w4 \<leftarrow> reconcileLinks ctx (flushNotices ctx w3); finish w4 }) = Some (v, y)" for v y
    using that
    by (elim bind_SomeE) (blast intro: sound_step_trans step_fact_sound sound_safe flushNotices_safe safe_op_reconcileLinks fin)
  show ?thesis
  proof (rule sound_step_trans [OF s2])
    note e = assms(2) [unfolded accept_fact_def Let_def w, simplified, folded w1_def, folded w2_def]
    show "sound_step ctx w2 w'"
    proof (cases f)
      case (F_item_delta a k fld t)
      with e obtain c w3 b where "appendItem ctx a k fld t w2 = Some (c, w3)" "quiet_end b ctx w3 = Some w'"
        by (auto elim!: bind_SomeE)
      then show ?thesis by (blast intro: sound_step_trans quiet_end_sound sound_safe safe_op_appendItem)
    next
      case (F_retry_cleared a)
      show ?thesis
      proof (cases "nothing_to_clear a (ensureAgent ctx a w2)")
        case True
        with e F_retry_cleared obtain b where "quiet_end b ctx (ensureAgent ctx a w2) = Some w'" by auto
        then show ?thesis by (blast intro: sound_step_trans quiet_end_sound sound_safe safe_op_ensureAgent)
      next
        case False
        with e F_retry_cleared show ?thesis by (intro wide) simp
      qed
    qed (use e in \<open>auto intro: wide\<close>)
  qed
qed

lemma safe_op_events: "safe_op ctx w (w\<lparr>w_events := es\<rparr>)"
  by (rule safe_op_frame) simp_all

lemma fold_fact_sound:
  assumes fin: "\<And>w w' x. finish w = Some (w', x) \<Longrightarrow> sound_step ctx w w'"
    and "fold_fact finish quiet rd input ctx w = Some (w', x)"
  shows "sound_step ctx w w'"
proof (rule sound_step_trans [OF sound_safe [OF safe_op_events]])
  show "sound_step ctx (w\<lparr>w_events := []\<rparr>) w'"
    using assms(2) accept_fact_sound [OF fin] rejectFact_safe sound_safe
    by (auto simp: fold_fact_def Let_def split: if_splits sum.splits)
qed

subsection \<open>Whole threads\<close>

lemma apply_fact_sound:
  assumes "apply_fact rd input ctx w = Some w'"
  shows "sound_step ctx w w'"
proof -
  from assms obtain x where
    "fold_fact (\<lambda>w. map_option (\<lambda>w'. (w', ())) (recomputeStatuses (now ctx) w)) () rd input ctx w = Some (w', x)"
    by (auto simp: apply_fact_def)
  then show ?thesis by (rule fold_fact_sound [rotated]) (auto intro: recompute_sound)
qed

lemma flush_batch_sound:
  assumes "flush_batch b = Some (es, b')"
  shows "sound_step ctx (fb_state b) (fb_state b')"
proof (cases "fb_pendingAt b")
  case (Some t)
  with assms obtain w where "recomputeStatuses t ((fb_state b)\<lparr>w_events := []\<rparr>) = Some w" "fb_state b' = w"
    by (auto simp: flush_batch_def elim!: bind_SomeE)
  then show ?thesis by (metis sound_step_trans sound_safe safe_op_events recompute_sound)
qed (use assms in \<open>auto simp: flush_batch_def\<close>)

lemma batch_finish_sound: "batch_finish q d p ctx w = Some (w', x) \<Longrightarrow> sound_step ctx w w'"
  using safe_op_frame [of "w\<lparr>st_statusObservedAt := Some (now ctx)\<rparr>" w ctx]
  by (auto simp: batch_finish_def split: if_splits intro: recompute_sound sound_safe)

lemma batch_apply_sound:
  assumes "batch_apply rd input ctx b = Some (es, b')"
  shows "sound_step ctx (fb_state b) (fb_state b')"
proof -
  from assms obtain pre b1 w p where
    b1: "(if \<not> batchable (fr_fact rd input) (fb_state b) \<or> fb_pendingAt b \<noteq> Some (now ctx)
          then flush_batch b else Some ([], b)) = Some (pre, b1)"
    and w: "fold_fact (batch_finish (stable_signal b1 (fr_fact rd input) ctx) (batchable (fr_fact rd input) (fb_state b))
          (fb_pendingAt b1) ctx) (fb_pendingAt b1) rd input ctx (fb_state b1) = Some (w, p)"
    and "fb_state b' = w"
    unfolding batch_apply_def Let_def by (elim bind_SomeE) (auto elim!: bind_SomeE)
  moreover have "sound_step ctx (fb_state b) (fb_state b1)"
    using b1 by (auto split: if_splits intro: flush_batch_sound)
  moreover have "sound_step ctx (fb_state b1) w"
    using w by (rule fold_fact_sound [rotated]) (rule batch_finish_sound)
  ultimately show ?thesis by (metis sound_step_trans)
qed

text \<open>
  A thread starts from \<open>createThreadState\<close> and changes by single facts (\<open>apply\<close>) and by batches
  (\<open>createFactBatch\<close>), whose state is read back after a flush. Every call draws identities from the
  same source.
\<close>

inductive reachable :: "(id_kind \<Rightarrow> nat \<Rightarrow> ident) \<Rightarrow> world \<Rightarrow> bool"
  and batching :: "(id_kind \<Rightarrow> nat \<Rightarrow> ident) \<Rightarrow> fact_batch \<Rightarrow> bool"
  for gen where
  created: "createThreadState t rt cfg = Some s \<Longrightarrow> reachable gen (world_of s)"
| applied: "reachable gen w \<Longrightarrow> ids ctx = gen \<Longrightarrow> apply_fact rd input ctx w = Some w' \<Longrightarrow> reachable gen w'"
| opened: "reachable gen w \<Longrightarrow> batching gen (new_batch w stable_until)"
| batched: "batching gen b \<Longrightarrow> ids ctx = gen \<Longrightarrow> batch_apply rd input ctx b = Some (es, b') \<Longrightarrow> batching gen b'"
| flushed: "batching gen b \<Longrightarrow> flush_batch b = Some (es, b') \<Longrightarrow> reachable gen (fb_state b')"

lemma core_inv_initial:
  assumes "createThreadState t rt cfg = Some s"
  shows "core_inv gen (world_of s)"
proof -
  let ?w = "world_of s"
  have e: "st_agents ?w = []" "st_runs ?w = []" "st_indexes ?w = no_indexes" "st_rootKey ?w = None" "st_items ?w = []"
    "st_interactions ?w = []" "st_tasks ?w = []" "st_uncertainTasks ?w = []"
    using assms by (auto simp: world_of_def createThreadState_def thread_state.defs split: if_splits)
  have "run_inv gen ?w"
    by (auto simp: run_inv_def tree_inv_def tree_ok_def runs_ok_def run_ok_def ids_below_def tv_def by_id_def
        child_of_def childKeys_def no_indexes_def run_view_def edges_def acyclic_def e)
  moreover have "work_ok ?w"
    by (auto simp: work_ok_def tools.consistent_def texts.consistent_def ints.consistent_def bgs.consistent_def
        live_defs no_indexes_def e split: option.splits)
  ultimately show ?thesis by (simp add: core_inv_def)
qed

lemma sound_stepD: "sound_step ctx w w' \<Longrightarrow> id_source (ids ctx) \<Longrightarrow> core_inv (ids ctx) w \<Longrightarrow> core_inv (ids ctx) w'"
  by (simp add: sound_step_def)

lemma reachable_core_inv:
  assumes src: "id_source gen"
  shows "reachable gen w \<Longrightarrow> core_inv gen w" and "batching gen b \<Longrightarrow> core_inv gen (fb_state b)"
proof (induction rule: reachable_batching.inducts)
  case (flushed b es b')
  let ?ctx = "(example_ctx 0)\<lparr>ids := gen\<rparr>"
  from flushed show ?case using sound_stepD [OF flush_batch_sound [of b es b' ?ctx]] src by simp
qed (use src in \<open>auto simp: new_batch_def core_inv_initial dest: sound_stepD [OF apply_fact_sound] sound_stepD [OF batch_apply_sound]\<close>)

subsection \<open>Properties\<close>

text \<open>C1: In every state a thread can reach, by any facts singly or in batches, valid or not, from a
  source of distinct identities: the parent links of the agents have no cycle, an agent's id is filed
  under exactly its key, the children index lists exactly the agents with that parent, every parent
  key names a present agent, and there is a root as soon as there is an agent.\<close>

theorem reachable_tree:
  assumes "id_source gen" "reachable gen w"
  shows "acyclic (edges (tv w)) \<and>
    (\<forall>i k. by_id w i = Some k \<longleftrightarrow> (\<exists>r. get (st_agents w) k = Some r \<and> a_id (ar_agent r) = i)) \<and>
    (\<forall>p k. child_of w p k \<longleftrightarrow> (\<exists>r. get (st_agents w) k = Some r \<and> a_parentId (ar_agent r) = Some p)) \<and>
    (\<forall>k r. get (st_agents w) k = Some r \<longrightarrow>
       a_parentId (ar_agent r) = map_option (\<lambda>q. a_id (ar_agent (the (get (st_agents w) q)))) (ar_parentKey r) \<and>
       (\<forall>q. ar_parentKey r = Some q \<longrightarrow> has (st_agents w) q) \<and>
       (\<exists>q. st_rootKey w = Some q \<and> has (st_agents w) q))"
proof -
  have ok: "tree_ok (tv w) (by_id w) (child_of w) (st_rootKey w)"
    using reachable_core_inv(1) [OF assms] by (simp add: core_inv_def run_inv_def tree_inv_def)
  have "by_id w i = Some k \<longleftrightarrow> (\<exists>r. get (st_agents w) k = Some r \<and> a_id (ar_agent r) = i)" for i k
    unfolding tree_okD(1) [OF ok] by (auto simp: tv_def view_def)
  moreover have "child_of w p k \<longleftrightarrow> (\<exists>r. get (st_agents w) k = Some r \<and> a_parentId (ar_agent r) = Some p)" for p k
    unfolding tree_okD(2) [OF ok] by (auto simp: tv_def view_def)
  moreover have "a_parentId (ar_agent r) = map_option (\<lambda>q. a_id (ar_agent (the (get (st_agents w) q)))) (ar_parentKey r) \<and>
       (\<forall>q. ar_parentKey r = Some q \<longrightarrow> has (st_agents w) q) \<and> (\<exists>q. st_rootKey w = Some q \<and> has (st_agents w) q)"
    if r: "get (st_agents w) k = Some r" for k r
  proof -
    have t: "tv w k = Some (a_id (ar_agent r), a_parentId (ar_agent r), ar_parentKey r)" using r by (simp add: tv_def view_def)
    have "\<exists>q. st_rootKey w = Some q \<and> has (st_agents w) q"
      using tree_okD(6,7) [OF ok] t by (cases "st_rootKey w") (auto simp: tv_def has_def)
    with t show ?thesis
      using tree_okD(3,4) [OF ok, of k] by (cases "ar_parentKey r") (fastforce simp: tv_def view_def has_def)+
  qed
  ultimately show ?thesis using tree_okD(5) [OF ok] by blast
qed

text \<open>C2: In every reachable state, two active runs of one agent are the same run, the active run an
  agent record names exists, is active and belongs to that agent, and every active run is named by
  some record.\<close>

theorem reachable_one_active_run:
  assumes "id_source gen" "reachable gen w"
  shows "(\<forall>i r j s. get (st_runs w) i = Some r \<and> is_active r \<and> get (st_runs w) j = Some s \<and> is_active s \<and>
            run_agentId r = run_agentId s \<longrightarrow> i = j) \<and>
    (\<forall>k a i. get (st_agents w) k = Some a \<and> ar_activeRun a = Some i \<longrightarrow>
       (\<exists>r. get (st_runs w) i = Some r \<and> is_active r \<and> run_agentId r = a_id (ar_agent a))) \<and>
    (\<forall>i r. get (st_runs w) i = Some r \<and> is_active r \<longrightarrow>
       (\<exists>k a. get (st_agents w) k = Some a \<and> ar_activeRun a = Some i \<and> a_id (ar_agent a) = run_agentId r))"
proof -
  have inv: "tree_inv gen w" and ok: "run_ok (get (st_runs w)) (run_view w)"
    using reachable_core_inv(1) [OF assms] by (simp_all add: core_inv_def run_inv_def runs_ok_def)
  have "i = j" if "get (st_runs w) i = Some r" "is_active r" "get (st_runs w) j = Some s" "is_active s"
    "run_agentId r = run_agentId s" for i j r s
    using run_ok_unique [OF ok own_ids_run_view [OF inv] that] .
  moreover have "\<exists>r. get (st_runs w) i = Some r \<and> is_active r \<and> run_agentId r = a_id (ar_agent a)"
    if "get (st_agents w) k = Some a" "ar_activeRun a = Some i" for k a i
    using run_okD(2) [OF ok, of k "a_id (ar_agent a)" i "ar_nativeRuns a"] that by (auto simp: run_view_def sight_def)
  moreover have "\<exists>k a. get (st_agents w) k = Some a \<and> ar_activeRun a = Some i \<and> a_id (ar_agent a) = run_agentId r"
    if r: "get (st_runs w) i = Some r" "is_active r" for i r
  proof -
    from run_okD(3) [OF ok r] obtain k b ns where v: "run_view w k = Some (b, Some i, ns)" by blast
    with run_okD(2) [OF ok v] r show ?thesis by (auto simp: run_view_def sight_def)
  qed
  ultimately show ?thesis by blast
qed

text \<open>C9: In every reachable state the live-work indexes hold exactly the live work: the keys of
  the live tool calls, of the texts still open, of the interactions still pending, and of the
  background tasks that run or whose end is uncertain.\<close>

theorem reachable_live_indexes:
  assumes "id_source gen" "reachable gen w"
  shows "set (okeys (liveTools (st_indexes w))) = {k. tool_live w k} \<and>
    set (okeys (openText (st_indexes w))) = {k. text_open w k} \<and>
    set (okeys (pendingInteractions (st_indexes w))) = {k. interaction_live w k} \<and>
    set (okeys (runningTasks (st_indexes w))) = {k. task_live w k}"
  using reachable_core_inv(1) [OF assms]
  by (simp only: core_inv_def work_ok_def tools.consistent_keys texts.consistent_keys ints.consistent_keys bgs.consistent_keys)

text \<open>C8: No fact reopens or rewrites the end of a run: after any further fact, accepted or rejected,
  a run that had ended has the same state, end time and owner.\<close>

theorem ended_runs_final:
  assumes "id_source (ids ctx)" "reachable (ids ctx) w" "apply_fact rd input ctx w = Some w'"
    and "get (st_runs w) i = Some r" "\<not> is_active r"
  shows "\<exists>r'. get (st_runs w') i = Some r' \<and> run_state r' = run_state r \<and> run_endedAt r' = run_endedAt r \<and>
    run_agentId r' = run_agentId r"
  using apply_fact_sound [OF assms(3)] reachable_core_inv(1) [OF assms(1,2)] assms(1,4,5)
  by (auto simp: sound_step_def keeps_ended_def)

subsection \<open>An example thread\<close>

definition turn_json :: "string \<Rightarrow> json" where
  "turn_json ty = JObj ([(''type'', JStr ty), (''agent'', JStr ''a''), (''nativeTurnId'', JStr ''t1'')] @
     (if ty = ''turn.started'' then [(''trigger'', JObj [(''type'', JStr ''unknown'')])] else [(''outcome'', JStr ''completed'')]))"

definition example_active :: world where
  "example_active = the (apply_fact example_reader (turn_json ''turn.started'') (example_ctx 5) example_world)"

definition example_settled :: world where
  "example_settled = the (apply_fact example_reader (turn_json ''turn.ended'') (example_ctx 6) example_active)"

definition example_again :: world where
  "example_again = the (apply_fact example_reader (turn_json ''turn.ended'') (example_ctx 7) example_settled)"

lemma example_thread:
  "apply_fact example_reader (turn_json ''turn.started'') (example_ctx 5) example_world \<noteq> None"
  "apply_fact example_reader (turn_json ''turn.ended'') (example_ctx 6) example_active \<noteq> None"
  "apply_fact example_reader (turn_json ''turn.ended'') (example_ctx 7) example_settled \<noteq> None"
  "map (\<lambda>(i, r). (i, run_state r)) (st_runs example_active) = [(counter_ids Id_run 1, Run_active)]"
  "map (\<lambda>(i, r). (i, run_state r)) (st_runs example_settled) = [(counter_ids Id_run 1, Run_completed)]"
  by code_simp+

lemma ids_example_ctx [simp]: "ids (example_ctx t) = counter_ids"
  by (simp add: example_ctx_def)

lemma reachable_example_world: "reachable counter_ids example_world"
proof -
  obtain s where s: "createThreadState ''thread'' None example_config = Some s"
    by (simp add: createThreadState_def example_config_def)
  have "reachable counter_ids (world_of s)" by (rule created [OF s])
  then show ?thesis by (simp add: example_world_def s)
qed

lemma reachable_example_active: "reachable counter_ids example_active"
  by (rule applied [of _ _ "example_ctx 5" example_reader "turn_json ''turn.started''", OF reachable_example_world])
    (use example_thread(1) in \<open>simp_all add: example_active_def\<close>)

lemma reachable_example_settled: "reachable counter_ids example_settled"
  by (rule applied [of _ _ "example_ctx 6" example_reader "turn_json ''turn.ended''", OF reachable_example_active])
    (use example_thread(2) in \<open>simp_all add: example_settled_def\<close>)

theorem reachable_tree_witness:
  "reachable counter_ids example_active \<and> acyclic (edges (tv example_active))"
  using reachable_tree [OF counter.id_source_axioms reachable_example_active] reachable_example_active by blast

theorem reachable_one_active_run_witness:
  "\<exists>r. get (st_runs example_active) (counter_ids Id_run 1) = Some r \<and> is_active r \<and>
     (\<forall>j s. get (st_runs example_active) j = Some s \<and> is_active s \<and> run_agentId s = run_agentId r \<longrightarrow> j = counter_ids Id_run 1)"
proof -
  obtain r where "get (st_runs example_active) (counter_ids Id_run 1) = Some r" "is_active r"
    using example_thread(4) by (cases "st_runs example_active") auto
  with reachable_one_active_run [OF counter.id_source_axioms reachable_example_active] show ?thesis by metis
qed

theorem reachable_live_indexes_witness:
  "okeys (liveTools (st_indexes example_active)) = [] \<longleftrightarrow> (\<forall>k. \<not> tool_live example_active k)"
  using reachable_live_indexes [OF counter.id_source_axioms reachable_example_active]
  by (metis (mono_tags, lifting) empty_Collect_eq set_empty)

theorem ended_runs_final_witness:
  "\<exists>r r'. get (st_runs example_settled) (counter_ids Id_run 1) = Some r \<and>
     get (st_runs example_again) (counter_ids Id_run 1) = Some r' \<and> run_endedAt r' = run_endedAt r \<and> run_state r' = Run_completed"
proof -
  obtain r where r: "get (st_runs example_settled) (counter_ids Id_run 1) = Some r" "run_state r = Run_completed"
    using example_thread(5) by (cases "st_runs example_settled") auto
  have "apply_fact example_reader (turn_json ''turn.ended'') (example_ctx 7) example_settled = Some example_again"
    using example_thread(3) by (simp add: example_again_def)
  from ended_runs_final [OF _ _ this r(1)] r reachable_example_settled counter.id_source_axioms show ?thesis by auto
qed

end
