(* ===== verification/Core_Deadlines_Inv.thy ===== *)
theory Core_Deadlines_Inv
  imports Core_Deadlines
begin

text \<open>
  The deadline index follows the state. Two states that differ only in their signs of life have the
  same candidates at other times; the index keeps the times, and the earliest of them is the same.
\<close>

subsection \<open>States that differ in their signs of life\<close>

definition resignal :: "(key \<Rightarrow> timestamp) \<Rightarrow> 'a state \<Rightarrow> 'a state \<Rightarrow> bool" where
  "resignal f s s' \<longleftrightarrow> map fst (st_agents s') = map fst (st_agents s) \<and>
     (\<forall>k. get (st_agents s') k = map_option (\<lambda>r. r\<lparr>ar_lastSignalAt := f k\<rparr>) (get (st_agents s) k)) \<and>
     st_indexes s' = st_indexes s \<and> st_items s' = st_items s \<and> st_tasks s' = st_tasks s \<and>
     st_interactions s' = st_interactions s \<and> st_itemLinks s' = st_itemLinks s \<and> st_runs s' = st_runs s \<and>
     st_config s' = st_config s \<and> st_rootKey s' = st_rootKey s \<and> st_hasRun s' = st_hasRun s \<and>
     st_processExit s' = st_processExit s"

lemma resignal_frame:
  assumes "resignal f s s'"
  shows "st_indexes s' = st_indexes s" "st_items s' = st_items s" "st_tasks s' = st_tasks s"
    "st_interactions s' = st_interactions s" "st_itemLinks s' = st_itemLinks s" "st_runs s' = st_runs s"
    "st_config s' = st_config s" "st_rootKey s' = st_rootKey s" "st_hasRun s' = st_hasRun s"
    "st_processExit s' = st_processExit s"
    "get (st_agents s') k = map_option (\<lambda>r. r\<lparr>ar_lastSignalAt := f k\<rparr>) (get (st_agents s) k)"
    "okeys (st_agents s') = okeys (st_agents s)"
  using assms by (simp_all add: resignal_def okeys_def)

lemma oentries_resignal:
  assumes "resignal f s s'"
  shows "oentries (st_agents s') = map (\<lambda>(k, r). (k, r\<lparr>ar_lastSignalAt := f k\<rparr>)) (oentries (st_agents s))"
proof -
  have "List.map_filter (\<lambda>k. map_option (Pair k) (map_option (g k) (d k))) ks =
      map (\<lambda>(k, r). (k, g k r)) (List.map_filter (\<lambda>k. map_option (Pair k) (d k)) ks)"
    for g :: "key \<Rightarrow> agent_record \<Rightarrow> agent_record" and d ks
    by (induction ks) (auto simp: List.map_filter_simps split: option.splits)
  then show ?thesis by (simp add: oentries_def resignal_frame [OF assms])
qed

lemma tree_resignal:
  assumes "resignal f s s'"
  shows "tv s' = tv s" "by_id s' = by_id s" "child_of s' = child_of s"
proof -
  show "tv s' = tv s"
  proof
    show "tv s' k = tv s k" for k by (cases "get (st_agents s) k") (simp_all add: tv_def view_def resignal_frame [OF assms])
  qed
qed (simp_all add: fun_eq_iff by_id_def child_of_def resignal_frame [OF assms])

lemma taskHoldsThread_resignal:
  assumes R: "resignal f s s'"
  shows "taskHoldsThread s' = taskHoldsThread s"
proof
  fix task :: background_task
  have "ownerTurnFinished s' task = ownerTurnFinished s task"
  proof (cases "get (agentKeysById (st_indexes s)) (task_agentId task)")
    case (Some k)
    then show ?thesis
      by (cases "get (st_agents s) k") (simp_all add: ownerTurnFinished_def resignal_frame [OF R])
  qed (simp add: ownerTurnFinished_def resignal_frame [OF R])
  then show "taskHoldsThread s' task = taskHoldsThread s task" by (simp add: taskHoldsThread_def)
qed

lemma inputs_resignal:
  assumes "resignal f s s'"
  shows "in_owners (statusInputs s') = in_owners (statusInputs s)"
  by (simp add: statusInputs_def Let_def pendingInteractionKeys_def runningTaskKeys_def liveToolKeys_def owned_def
      resignal_frame [OF assms] taskHoldsThread_resignal [OF assms])

lemma stored_status_resignal:
  assumes "resignal f s s'"
  shows "stored_status s' = stored_status s"
  by (intro ext) (simp add: stored_status_def option.map_comp comp_def resignal_frame [OF assms])

lemma evidently_relevant_resignal:
  assumes "resignal f s s'"
  shows "evidently_relevant s' owners k (r\<lparr>ar_lastSignalAt := x\<rparr>) = evidently_relevant s owners k r"
  by (rule ext) (simp add: evidently_relevant_def limited_at_rest_def resignal_frame [OF assms])

lemma relevant_resignal:
  assumes R: "resignal f s s'"
  shows "relevant n s' owners rd wr statusOf = relevant n s owners rd wr statusOf"
proof (induction n)
  case 0
  show ?case by (intro ext) simp
next
  case (Suc n)
  have "relevant (Suc n) s' owners rd wr statusOf v k m = relevant (Suc n) s owners rd wr statusOf v k m" for v k m
    by (cases "get (rd m) k"; cases "get (st_agents s) k"; cases "statusOf v k m")
      (auto simp: Suc resignal_frame [OF R] evidently_relevant_resignal [OF R])
  then show ?case by (intro ext)
qed

lemma silence_relevant_resignal:
  assumes R: "resignal f s s'"
  shows "silence_relevant s' (statusInputs s') = silence_relevant s (statusInputs s)"
  by (intro ext) (simp add: silence_relevant_def inputs_resignal [OF R] relevant_resignal [OF R]
      stored_status_resignal [OF R] agent_count_def resignal_frame [OF R])

lemma silence_excluded_resignal:
  assumes R: "resignal f s s'"
  shows "silence_excluded s' (statusInputs s') k (r\<lparr>ar_lastSignalAt := x\<rparr>) = silence_excluded s (statusInputs s) k r"
  by (intro ext) (simp add: silence_excluded_def Let_def silence_relevant_resignal [OF R] inputs_resignal [OF R]
      resignal_frame [OF R])

lemma silence_excluded_total: "\<exists>b m'. silence_excluded s env k r m = Some (b, m')"
proof -
  have "returns_on (has (st_agents s)) (stored_status s v)" for v
    by (auto simp: returns_on_def stored_status_def has_def)
  then have "\<exists>b m'. silence_relevant s env k m = Some (b, m')" for k m
    unfolding silence_relevant_def by (rule relevant_total) (simp add: unvisited_Nil)
  then have "returns_on (\<lambda>_. True) (silence_relevant s env)" unfolding returns_on_def by (metis option.distinct(1))
  from keep_if_total [OF this, of "childKeys (st_indexes s) (a_id (ar_agent r))" m] show ?thesis
    by (auto simp: silence_excluded_def Let_def)
qed

subsection \<open>The candidates as a set of kinds and keys\<close>

text \<open>The time of a candidate is read off the state.\<close>

definition timed :: "'a state \<Rightarrow> deadline_kind \<times> key \<Rightarrow> int" where
  "timed s c = (case fst c of
       D_silence \<Rightarrow> latest_signal s (snd c) + cfg_silenceMs (st_config s) + 1
     | D_transport \<Rightarrow> transportSignalAt s + cfg_silenceMs (st_config s) + 1
     | D_wake \<Rightarrow> (case Option.bind (get (st_agents s) (snd c)) ar_wakeUntil of None \<Rightarrow> 0 | Some u \<Rightarrow> u))"

lemma timed_simps [simp]:
  "timed s (D_silence, k) = latest_signal s k + cfg_silenceMs (st_config s) + 1"
  "timed s (D_transport, k) = transportSignalAt s + cfg_silenceMs (st_config s) + 1"
  by (simp_all add: timed_def)

abbreviation slot :: "candidate \<Rightarrow> deadline_kind \<times> key" where
  "slot c \<equiv> (cand_kind c, cand_key c)"

text \<open>Every sign of life lies between zero and \<open>t\<close>, and the silence after \<open>t\<close> can be represented.\<close>

definition clock_ok :: "timestamp \<Rightarrow> 'a state \<Rightarrow> bool" where
  "clock_ok t s \<longleftrightarrow> (\<forall>k r. get (st_agents s) k = Some r \<longrightarrow> 0 \<le> ar_lastSignalAt r \<and> ar_lastSignalAt r \<le> t) \<and>
     0 \<le> transportSignalAt s \<and> transportSignalAt s \<le> t \<and> 0 \<le> cfg_silenceMs (st_config s) \<and>
     t + cfg_silenceMs (st_config s) < 9007199254740991"

lemma latest_signal_bounds:
  assumes "clock_ok t s" "has (st_agents s) k"
  shows "0 \<le> latest_signal s k" "latest_signal s k \<le> t"
proof -
  have "k \<in> descendants s k" using assms(2) by (simp add: descendants_def)
  then have ne: "signal_of s ` descendants s k \<noteq> {}" by blast
  have b: "0 \<le> signal_of s d \<and> signal_of s d \<le> t" if "d \<in> descendants s k" for d
    using that assms(1) by (auto simp: descendants_def has_def signal_of_def clock_ok_def)
  from Max_in [OF _ ne] finite_descendants obtain d where "d \<in> descendants s k" "latest_signal s k = signal_of s d"
    unfolding latest_signal_def by auto
  with b show "0 \<le> latest_signal s k" "latest_signal s k \<le> t" by auto
qed

lemma subtreeSignal_value:
  assumes "tree_ok (tv s) (by_id s) (child_of s) rk" "has (st_agents s) k" "memo_ok s c"
  shows "\<exists>c'. subtreeSignal s k c = Some (latest_signal s k, c') \<and> memo_ok s c'"
proof -
  have "read_signal (agent_count s + 2) s [] k c \<noteq> None" by (rule read_signal_total) (simp add: unvisited_Nil)
  then obtain v c' where v: "read_signal (agent_count s + 2) s [] k c = Some (v, c')" by auto
  from read_signal_latest [OF assms(1-3) _ v] v show ?thesis by (simp add: subtreeSignal_def)
qed

text \<open>One agent, in two states that differ in their signs of life: the same slots at their own times.\<close>

lemma agent_candidates_pair:
  assumes ok: "tree_ok (tv s) (by_id s) (child_of s) rk" and R: "resignal f s s'"
    and clock: "clock_ok t s" "clock_ok t' s'" and r: "get (st_agents s) k = Some r"
    and sg: "memo_ok s sg" "memo_ok s' sg'"
  shows "\<exists>cs cs' m1 sg1 sg1'. agent_candidates s (statusInputs s) (k, r) (m, sg) = Some (cs, m1, sg1) \<and>
     agent_candidates s' (statusInputs s') (k, r\<lparr>ar_lastSignalAt := f k\<rparr>) (m, sg') = Some (cs', m1, sg1') \<and>
     memo_ok s sg1 \<and> memo_ok s' sg1' \<and> map slot cs' = map slot cs \<and>
     (\<forall>c \<in> set cs. cand_at c = timed s (slot c)) \<and> (\<forall>c \<in> set cs'. cand_at c = timed s' (slot c))"
proof -
  let ?r = "r\<lparr>ar_lastSignalAt := f k\<rparr>" and ?ms = "cfg_silenceMs (st_config s)"
  have r': "get (st_agents s') k = Some ?r" using r by (simp add: resignal_frame [OF R])
  have ok': "tree_ok (tv s') (by_id s') (child_of s') rk" using ok by (simp add: tree_resignal [OF R])
  have k: "has (st_agents s) k" "has (st_agents s') k" using r r' by (simp_all add: has_def)
  have cfg: "st_config s' = st_config s" "skips_agent s' k ?r = skips_agent s k r" "wake_candidate k ?r = wake_candidate k r"
    by (simp_all add: skips_agent_def wake_candidate_def resignal_frame [OF R])
  have wake: "\<forall>c \<in> set (wake_candidate k r). cand_at c = timed s (slot c) \<and> cand_at c = timed s' (slot c)"
    using r r' by (auto simp: wake_candidate_def admit_def timed_def split: option.splits if_splits)
  have safe: "safe_integer (transportSignalAt s + ?ms + 1)" "safe_integer (transportSignalAt s' + ?ms + 1)"
    "safe_integer (latest_signal s k + ?ms + 1)" "safe_integer (latest_signal s' k + ?ms + 1)"
    using clock latest_signal_bounds [OF clock(1) k(1)] latest_signal_bounds [OF clock(2) k(2)]
    by (auto simp: safe_integer_def clock_ok_def cfg)
  obtain sg1 where sg1: "subtreeSignal s k sg = Some (latest_signal s k, sg1)" "memo_ok s sg1"
    using subtreeSignal_value [OF ok k(1) sg(1)] by blast
  obtain sg1' where sg1': "subtreeSignal s' k sg' = Some (latest_signal s' k, sg1')" "memo_ok s' sg1'"
    using subtreeSignal_value [OF ok' k(2) sg(2)] by blast
  obtain b m1 where b: "silence_excluded s (statusInputs s) k r m = Some (b, m1)" using silence_excluded_total by blast
  then have b': "silence_excluded s' (statusInputs s') k ?r m = Some (b, m1)" by (simp add: silence_excluded_resignal [OF R])
  let ?status = "a_status (ar_agent r)" and ?w = "wake_candidate k r"
  let ?at = "\<lambda>kd x. ?w @ [\<lparr>cand_key = k, cand_at = x + ?ms + 1, cand_kind = kd\<rparr>]"
  consider (skip) "skips_agent s k r"
    | (transport) "\<not> skips_agent s k r" "by_transport (st_config s)" "\<not> isSettled ?status \<and> \<not> is_unresponsive_status ?status"
    | (settled) "\<not> skips_agent s k r" "by_transport (st_config s)" "\<not> (\<not> isSettled ?status \<and> \<not> is_unresponsive_status ?status)"
    | (silent) "\<not> skips_agent s k r" "\<not> by_transport (st_config s)"
        "\<not> is_unresponsive_status ?status \<and> (ar_activeRun r \<noteq> None \<or> ar_lastRun r = None)"
    | (rest) "\<not> skips_agent s k r" "\<not> by_transport (st_config s)"
        "\<not> (\<not> is_unresponsive_status ?status \<and> (ar_activeRun r \<noteq> None \<or> ar_lastRun r = None))"
    by argo
  then show ?thesis
  proof cases
    case skip
    then have "agent_candidates s (statusInputs s) (k, r) (m, sg) = Some ([], m, sg)"
      "agent_candidates s' (statusInputs s') (k, ?r) (m, sg') = Some ([], m, sg')"
      by (simp_all add: agent_candidates_def cfg)
    with sg show ?thesis by auto
  next
    case transport
    then have "agent_candidates s (statusInputs s) (k, r) (m, sg) = Some (?at D_transport (transportSignalAt s), m, sg)"
      "agent_candidates s' (statusInputs s') (k, ?r) (m, sg') = Some (?at D_transport (transportSignalAt s'), m, sg')"
      using safe by (simp_all add: agent_candidates_def cfg admit_def)
    with sg wake show ?thesis by (auto simp: cfg)
  next
    case settled
    then have "agent_candidates s (statusInputs s) (k, r) (m, sg) = Some (?w, m, sg)"
      "agent_candidates s' (statusInputs s') (k, ?r) (m, sg') = Some (?w, m, sg')"
      by (auto simp: agent_candidates_def cfg)
    with sg wake show ?thesis by auto
  next
    case rest
    then have "agent_candidates s (statusInputs s) (k, r) (m, sg) = Some (?w, m, sg)"
      "agent_candidates s' (statusInputs s') (k, ?r) (m, sg') = Some (?w, m, sg')"
      by (auto simp: agent_candidates_def cfg)
    with sg wake show ?thesis by auto
  next
    case silent
    show ?thesis
    proof (cases b)
      case True
      with silent b b' have "agent_candidates s (statusInputs s) (k, r) (m, sg) = Some (?w, m1, sg)"
        "agent_candidates s' (statusInputs s') (k, ?r) (m, sg') = Some (?w, m1, sg')"
        by (simp_all add: agent_candidates_def cfg silenceDeadlineReader_def admit_def)
      with sg wake show ?thesis by auto
    next
      case False
      with silent b b' sg1 sg1' safe
      have "agent_candidates s (statusInputs s) (k, r) (m, sg) = Some (?at D_silence (latest_signal s k), m1, sg1)"
        "agent_candidates s' (statusInputs s') (k, ?r) (m, sg') = Some (?at D_silence (latest_signal s' k), m1, sg1')"
        by (simp_all add: agent_candidates_def cfg silenceDeadlineReader_def admit_def)
      with sg1 sg1' wake show ?thesis by (auto simp: cfg)
    qed
  qed
qed

text \<open>All agents.\<close>

lemma collect_pair:
  assumes ok: "tree_ok (tv s) (by_id s) (child_of s) rk" and R: "resignal f s s'"
    and clock: "clock_ok t s" "clock_ok t' s'"
    and "\<forall>(k, r) \<in> set es. get (st_agents s) k = Some r" "memo_ok s sg" "memo_ok s' sg'"
  shows "\<exists>cs cs' m1 sg1 sg1'. collect (agent_candidates s (statusInputs s)) es (m, sg) = Some (cs, m1, sg1) \<and>
     collect (agent_candidates s' (statusInputs s')) (map (\<lambda>(k, r). (k, r\<lparr>ar_lastSignalAt := f k\<rparr>)) es) (m, sg') = Some (cs', m1, sg1') \<and>
     map slot cs' = map slot cs \<and>
     (\<forall>c \<in> set cs. cand_at c = timed s (slot c)) \<and> (\<forall>c \<in> set cs'. cand_at c = timed s' (slot c))"
  using assms(5-7)
proof (induction es arbitrary: m sg sg')
  case (Cons e es)
  obtain k r where e: "e = (k, r)" by fastforce
  with Cons.prems have r: "get (st_agents s) k = Some r" by auto
  from agent_candidates_pair [OF ok R clock r Cons.prems(2,3), of m] obtain cs cs' m1 sg1 sg1' where
    1: "agent_candidates s (statusInputs s) (k, r) (m, sg) = Some (cs, m1, sg1)"
      "agent_candidates s' (statusInputs s') (k, r\<lparr>ar_lastSignalAt := f k\<rparr>) (m, sg') = Some (cs', m1, sg1')"
      "memo_ok s sg1" "memo_ok s' sg1'" "map slot cs' = map slot cs"
      "\<forall>c \<in> set cs. cand_at c = timed s (slot c)" "\<forall>c \<in> set cs'. cand_at c = timed s' (slot c)" by blast
  from Cons.prems(1) have "\<forall>(k, r) \<in> set es. get (st_agents s) k = Some r" by auto
  from Cons.IH [OF this 1(3,4), of m1] obtain ds ds' m2 sg2 sg2' where
    2: "collect (agent_candidates s (statusInputs s)) es (m1, sg1) = Some (ds, m2, sg2)"
      "collect (agent_candidates s' (statusInputs s')) (map (\<lambda>(k, r). (k, r\<lparr>ar_lastSignalAt := f k\<rparr>)) es) (m1, sg1') = Some (ds', m2, sg2')"
      "map slot ds' = map slot ds" "\<forall>c \<in> set ds. cand_at c = timed s (slot c)" "\<forall>c \<in> set ds'. cand_at c = timed s' (slot c)" by blast
  show ?case
    using 1 2 by (auto simp: e)
qed simp

lemma candidates_pair:
  assumes "tree_ok (tv s) (by_id s) (child_of s) rk" and R: "resignal f s s'" and "clock_ok t s" "clock_ok t' s'"
  shows "\<exists>cs cs'. candidates s = Some cs \<and> candidates s' = Some cs' \<and> map slot cs' = map slot cs \<and>
     (\<forall>c \<in> set cs. cand_at c = timed s (slot c)) \<and> (\<forall>c \<in> set cs'. cand_at c = timed s' (slot c))"
proof -
  have "\<forall>(k, r) \<in> set (oentries (st_agents s)). get (st_agents s) k = Some r" by (auto simp: set_oentries)
  from collect_pair [OF assms this, of "[]" "[]" no_memo] show ?thesis
    by (cases "st_processExit s") (auto simp: candidates_def oentries_resignal [OF R] resignal_frame [OF R] memo_ok_def)
qed

subsection \<open>The state hears a signal\<close>

lemma keys_modify_fst: "has d k \<Longrightarrow> map fst (modify d k f) = map fst d"
proof -
  have "get d k \<noteq> None \<Longrightarrow> map fst (put d k v) = map fst d" for v by (induction d k v rule: put.induct) auto
  then show "has d k \<Longrightarrow> map fst (modify d k f) = map fst d" by (auto simp: modify_def has_def)
qed

lemma heard_one:
  assumes "has (st_agents w) a"
  shows "resignal (\<lambda>k. if k = a then t else signal_of w k) w (heard ctx (Some a, t) w)"
    and "transportSignalAt (heard ctx (Some a, t) w) = t"
proof -
  have h: "heard ctx (Some a, t) w = upd_agent a (beat t) (w\<lparr>st_lastTransportSignalAt := Some t\<rparr>)"
    using assms by (simp add: heard_def signal_def)
  have "get (st_agents (upd_agent a (beat t) (w\<lparr>st_lastTransportSignalAt := Some t\<rparr>))) k =
      map_option (\<lambda>r. r\<lparr>ar_lastSignalAt := if k = a then t else signal_of w k\<rparr>) (get (st_agents w) k)" for k
    by (cases "get (st_agents w) k") (auto simp: beat_def signal_of_def)
  with assms show "resignal (\<lambda>k. if k = a then t else signal_of w k) w (heard ctx (Some a, t) w)"
    by (simp add: resignal_def h keys_modify_fst upd_agent_def)
  show "transportSignalAt (heard ctx (Some a, t) w) = t" by (simp add: h transportSignalAt_def upd_agent_def)
qed

lemma fold_beats:
  assumes "\<forall>k \<in> set ks. has (st_agents w) k"
  shows "\<exists>as. fold (\<lambda>k. upd_agent k (beat t)) ks w = w\<lparr>st_agents := as\<rparr> \<and> map fst as = map fst (st_agents w) \<and>
    (\<forall>k. get as k = (if k \<in> set ks then map_option (beat t) (get (st_agents w) k) else get (st_agents w) k))"
  using assms
proof (induction ks arbitrary: w)
  case Nil
  show ?case by (rule exI [of _ "st_agents w"]) simp
next
  case (Cons x ks)
  let ?w = "upd_agent x (beat t) w"
  have keys: "map fst (st_agents ?w) = map fst (st_agents w)" using Cons.prems by (simp add: keys_modify_fst)
  have "\<forall>k \<in> set ks. has (st_agents ?w) k" using Cons.prems by simp
  from Cons.IH [OF this] obtain as where as: "fold (\<lambda>k. upd_agent k (beat t)) ks ?w = ?w\<lparr>st_agents := as\<rparr>"
    "map fst as = map fst (st_agents ?w)"
    "\<forall>k. get as k = (if k \<in> set ks then map_option (beat t) (get (st_agents ?w) k) else get (st_agents ?w) k)" by blast
  have "beat t (beat t r) = beat t r" for r by (simp add: beat_def)
  then have "get as k = (if k \<in> set (x # ks) then map_option (beat t) (get (st_agents w) k) else get (st_agents w) k)" for k
    using as(3) by (auto simp: option.map_comp comp_def)
  moreover have "?w\<lparr>st_agents := as\<rparr> = w\<lparr>st_agents := as\<rparr>" by (simp add: upd_agent_def)
  ultimately show ?case using as(1,2) keys by (intro exI [of _ as]) auto
qed

lemma heard_all:
  shows "resignal (\<lambda>_. t) w (heard ctx (None, t) w)" and "transportSignalAt (heard ctx (None, t) w) = t"
proof -
  let ?w = "w\<lparr>st_lastTransportSignalAt := Some t\<rparr>"
  have "\<forall>k \<in> set (okeys (st_agents ?w)). has (st_agents ?w) k" by simp
  from fold_beats [OF this, of t] obtain as where as:
    "fold (\<lambda>k. upd_agent k (beat t)) (okeys (st_agents ?w)) ?w = ?w\<lparr>st_agents := as\<rparr>"
    "map fst as = map fst (st_agents ?w)"
    "\<forall>k. get as k = (if k \<in> set (okeys (st_agents ?w)) then map_option (beat t) (get (st_agents ?w) k) else get (st_agents ?w) k)" by blast
  have h: "heard ctx (None, t) w = ?w\<lparr>st_agents := as\<rparr>" using as(1) by (simp add: heard_def signal_def)
  have "get as k = map_option (\<lambda>r. r\<lparr>ar_lastSignalAt := t\<rparr>) (get (st_agents w) k)" for k
    using as(3) by (cases "get (st_agents w) k") (auto simp: beat_def has_def)
  with as(2) show "resignal (\<lambda>_. t) w (heard ctx (None, t) w)" by (simp add: resignal_def h)
  show "transportSignalAt (heard ctx (None, t) w) = t" by (simp add: h transportSignalAt_def)
qed

lemma clock_ok_resignal:
  assumes "clock_ok t0 s" "resignal f s s'" "transportSignalAt s' = t" "t0 \<le> t" "t + cfg_silenceMs (st_config s) < 9007199254740991"
    and "\<And>k. has (st_agents s) k \<Longrightarrow> f k = t \<or> f k = signal_of s k"
  shows "clock_ok t s'"
proof -
  have "0 \<le> t" using assms(1,4) by (auto simp: clock_ok_def)
  moreover have "0 \<le> ar_lastSignalAt r \<and> ar_lastSignalAt r \<le> t" if "get (st_agents s') k = Some r" for k r
  proof -
    from that obtain r0 where r0: "get (st_agents s) k = Some r0" "ar_lastSignalAt r = f k"
      by (auto simp: resignal_frame [OF assms(2)])
    with assms(6) [of k] have "f k = t \<or> f k = ar_lastSignalAt r0" by (auto simp: signal_of_def has_def)
    moreover have "0 \<le> ar_lastSignalAt r0" "ar_lastSignalAt r0 \<le> t0" using assms(1) r0(1) by (auto simp: clock_ok_def)
    ultimately show ?thesis using r0(2) assms(4) \<open>0 \<le> t\<close> by auto
  qed
  ultimately show ?thesis using assms(1,3,5) by (simp add: clock_ok_def resignal_frame [OF assms(2)])
qed

lemma signal_of_resignal: "resignal f s s' \<Longrightarrow> has (st_agents s) k \<Longrightarrow> signal_of s' k = f k"
  by (auto simp: signal_of_def resignal_frame has_def)

lemma descendants_resignal: "resignal f s s' \<Longrightarrow> descendants s' k = descendants s k"
  by (simp add: descendants_def tree_resignal has_def resignal_frame)

lemma latest_heard_one:
  assumes R: "resignal (\<lambda>k. if k = a then t else signal_of s k) s s'" and a: "has (st_agents s) a" "signal_of s a \<le> t"
    and k: "has (st_agents s) k"
  shows "latest_signal s' k = (if (a, k) \<in> (edges (tv s))\<^sup>* then max (latest_signal s k) t else latest_signal s k)"
proof -
  let ?D = "descendants s k"
  have fin: "finite (signal_of s ` ?D)" by (simp add: finite_descendants)
  have ne: "k \<in> ?D" using k by (simp add: descendants_def)
  have s': "signal_of s' d = (if d = a then t else signal_of s d)" if "d \<in> ?D" for d
    using signal_of_resignal [OF R, of d] that by (auto simp: descendants_def)
  show ?thesis
  proof (cases "(a, k) \<in> (edges (tv s))\<^sup>*")
    case True
    then have aD: "a \<in> ?D" using a by (simp add: descendants_def)
    have "insert t (signal_of s' ` ?D) = signal_of s' ` ?D" using aD s' by force
    have "Max (signal_of s' ` ?D) = max (Max (signal_of s ` ?D)) t"
    proof (rule Max_eqI)
      show "y \<le> max (Max (signal_of s ` ?D)) t" if "y \<in> signal_of s' ` ?D" for y
        using that s' fin by (force simp: le_max_iff_disj)
      show "max (Max (signal_of s ` ?D)) t \<in> signal_of s' ` ?D"
      proof (cases "Max (signal_of s ` ?D) \<le> t")
        case True with aD s' show ?thesis by force
      next
        case False
        from Max_in [OF fin] ne obtain d where d: "d \<in> ?D" "Max (signal_of s ` ?D) = signal_of s d" by blast
        with False a(2) have "d \<noteq> a" by auto
        with d s' False show ?thesis by force
      qed
    qed (simp add: finite_descendants)
    with True show ?thesis by (simp add: latest_signal_def descendants_resignal [OF R])
  next
    case False
    then have "a \<notin> ?D" by (simp add: descendants_def)
    with s' have "signal_of s' ` ?D = signal_of s ` ?D" by (intro image_cong) auto
    with False show ?thesis by (simp add: latest_signal_def descendants_resignal [OF R])
  qed
qed

lemma latest_heard_all:
  assumes R: "resignal (\<lambda>_. t) s s'" and k: "has (st_agents s) k" and c: "clock_ok t0 s" "t0 \<le> t"
  shows "latest_signal s' k = max (latest_signal s k) t"
proof -
  have "signal_of s' ` descendants s k = {t}"
    using signal_of_resignal [OF R] k by (force simp: descendants_def)
  then have "latest_signal s' k = t" by (simp add: latest_signal_def descendants_resignal [OF R])
  moreover have "latest_signal s k \<le> t" using latest_signal_bounds [OF c(1) k] c(2) by simp
  ultimately show ?thesis by simp
qed

subsection \<open>The index holds the candidates\<close>

definition filed :: "deadline_index \<Rightarrow> 'a state \<Rightarrow> (deadline_kind \<times> key) set \<Rightarrow> bool" where
  "filed ix s E \<longleftrightarrow> em_inv (ix_silence ix) \<and> em_inv (ix_wakes ix) \<and>
     (\<forall>k. map_option (\<lambda>e. max (expiresAt e) (ix_globalSignalAt ix)) (em_lookup (ix_silence ix) k) =
        (if (D_silence, k) \<in> E then Some (timed s (D_silence, k)) else None)) \<and>
     (\<forall>k. map_option expiresAt (em_lookup (ix_wakes ix) k) =
        (if (D_wake, k) \<in> E then Some (timed s (D_wake, k)) else None)) \<and>
     ix_transportAt ix = (if \<exists>k. (D_transport, k) \<in> E then Some (timed s (D_transport, [])) else None)"

definition tracks :: "deadline_index \<Rightarrow> 'a state \<Rightarrow> bool" where
  "tracks ix s \<longleftrightarrow> ix_exited ix = (st_processExit s \<noteq> None) \<and> (\<forall>k. get (ix_parents ix) k = indexed_parent s k) \<and>
     (\<exists>cs. candidates s = Some cs \<and> (\<forall>c \<in> set cs. cand_at c = timed s (slot c)) \<and> filed ix s (slot ` set cs))"

lemma timed_transport: "timed s (D_transport, k) = timed s (D_transport, k')"
  by simp

lemma filedD:
  assumes "filed ix s E"
  shows "map_option (\<lambda>e. max (expiresAt e) (ix_globalSignalAt ix)) (em_lookup (ix_silence ix) k) =
        (if (D_silence, k) \<in> E then Some (timed s (D_silence, k)) else None)"
    and "map_option expiresAt (em_lookup (ix_wakes ix) k) = (if (D_wake, k) \<in> E then Some (timed s (D_wake, k)) else None)"
    and "ix_transportAt ix = (if \<exists>k. (D_transport, k) \<in> E then Some (timed s (D_transport, [])) else None)"
    and "em_inv (ix_silence ix)" "em_inv (ix_wakes ix)"
  using assms unfolding filed_def by blast+

lemma filedI:
  assumes "\<And>k. map_option (\<lambda>e. max (expiresAt e) (ix_globalSignalAt ix)) (em_lookup (ix_silence ix) k) =
        (if (D_silence, k) \<in> E then Some (timed s (D_silence, k)) else None)"
    and "\<And>k. map_option expiresAt (em_lookup (ix_wakes ix) k) = (if (D_wake, k) \<in> E then Some (timed s (D_wake, k)) else None)"
    and "ix_transportAt ix = (if \<exists>k. (D_transport, k) \<in> E then Some (timed s (D_transport, [])) else None)"
    and "em_inv (ix_silence ix)" "em_inv (ix_wakes ix)"
  shows "filed ix s E"
  using assms unfolding filed_def by blast

lemma file_candidate_filed:
  assumes f: "filed ix s E" and g: "ix_globalSignalAt ix = 0" and c: "cand_at c = timed s (slot c)" "cand_kind c = D_silence \<longrightarrow> 0 \<le> cand_at c"
  shows "\<exists>ix'. file_candidate c ix = Some ix' \<and> filed ix' s (insert (slot c) E) \<and> ix_globalSignalAt ix' = 0 \<and> ix_exited ix' = ix_exited ix"
proof (cases "cand_kind c")
  case D_silence
  have inv: "em_inv (ix_silence ix)" using f by (simp add: filed_def)
  obtain em where em: "set_expiry (ix_silence ix) (cand_key c) () (cand_at c) = Some em" "em_inv em"
    "\<And>k. em_lookup em k = (if k = cand_key c then Some \<lparr>ekey = cand_key c, evalue = (), expiresAt = cand_at c\<rparr> else em_lookup (ix_silence ix) k)"
    using set_expiry_spec [OF inv] by blast
  have "filed (ix\<lparr>ix_silence := em\<rparr>) s (insert (slot c) E)"
  proof (rule filedI)
    show "map_option (\<lambda>e. max (expiresAt e) (ix_globalSignalAt (ix\<lparr>ix_silence := em\<rparr>))) (em_lookup (ix_silence (ix\<lparr>ix_silence := em\<rparr>)) k) =
        (if (D_silence, k) \<in> insert (slot c) E then Some (timed s (D_silence, k)) else None)" for k
      using filedD(1) [OF f, of k] g c D_silence by (cases "k = cand_key c") (simp_all add: em(3))
  qed (use filedD [OF f] D_silence em(2) in simp_all)
  with D_silence em(1) g show ?thesis by (simp add: file_candidate_def)
next
  case D_wake
  have inv: "em_inv (ix_wakes ix)" using f by (simp add: filed_def)
  obtain em where em: "set_expiry (ix_wakes ix) (cand_key c) () (cand_at c) = Some em" "em_inv em"
    "\<And>k. em_lookup em k = (if k = cand_key c then Some \<lparr>ekey = cand_key c, evalue = (), expiresAt = cand_at c\<rparr> else em_lookup (ix_wakes ix) k)"
    using set_expiry_spec [OF inv] by blast
  have "filed (ix\<lparr>ix_wakes := em\<rparr>) s (insert (slot c) E)"
  proof (rule filedI)
    show "map_option expiresAt (em_lookup (ix_wakes (ix\<lparr>ix_wakes := em\<rparr>)) k) =
        (if (D_wake, k) \<in> insert (slot c) E then Some (timed s (D_wake, k)) else None)" for k
      using filedD(2) [OF f, of k] c D_wake by (cases "k = cand_key c") (simp_all add: em(3))
  qed (use filedD [OF f] D_wake em(2) in simp_all)
  with D_wake em(1) g show ?thesis by (simp add: file_candidate_def)
next
  case D_transport
  have "filed (ix\<lparr>ix_transportAt := Some (cand_at c)\<rparr>) s (insert (slot c) E)"
    by (rule filedI) (use filedD [OF f] D_transport c in auto)
  with D_transport g show ?thesis by (simp add: file_candidate_def)
qed

lemma file_candidates_filed:
  assumes "filed ix s E" "ix_globalSignalAt ix = 0" "\<forall>c \<in> set cs. cand_at c = timed s (slot c)"
    "\<forall>c \<in> set cs. cand_kind c = D_silence \<longrightarrow> 0 \<le> cand_at c"
  shows "\<exists>ix'. foldM file_candidate cs ix = Some ix' \<and> filed ix' s (E \<union> slot ` set cs) \<and> ix_globalSignalAt ix' = 0 \<and> ix_exited ix' = ix_exited ix"
  using assms
proof (induction cs arbitrary: ix E)
  case (Cons c cs)
  from file_candidate_filed [OF Cons.prems(1,2), of c] Cons.prems(3,4) obtain ix1 where
    1: "file_candidate c ix = Some ix1" "filed ix1 s (insert (slot c) E)" "ix_globalSignalAt ix1 = 0" "ix_exited ix1 = ix_exited ix" by auto
  from Cons.IH [OF 1(2,3)] Cons.prems(3,4) 1 show ?case by auto
qed simp

lemma get_parent_entries: "get (parent_entries s) k = indexed_parent s k"
proof -
  have "get (List.map_filter (\<lambda>k. map_option (Pair k) (f k)) ks) k = (if k \<in> set ks then f k else None)"
    for f :: "key \<Rightarrow> key option" and ks
    by (induction ks) (auto simp: List.map_filter_simps split: option.splits)
  moreover have "indexed_parent s k = None" if "\<not> has (st_agents s) k"
    using that by (simp add: indexed_parent_def has_def)
  ultimately show ?thesis by (simp add: parent_entries_def)
qed

lemma resignal_refl: "resignal (signal_of s) s s"
proof -
  have "get (st_agents s) k = map_option (\<lambda>r. r\<lparr>ar_lastSignalAt := signal_of s k\<rparr>) (get (st_agents s) k)" for k
    by (cases "get (st_agents s) k") (simp_all add: signal_of_def)
  then show ?thesis by (simp add: resignal_def)
qed

lemma candidates_silence_known:
  assumes "candidates s = Some cs" "c \<in> set cs"
  shows "has (st_agents s) (cand_key c)"
proof -
  have "cand_key c = fst e" if "agent_candidates s env e m = Some (xs, m')" "c \<in> set xs" for env e m xs m' c
    using that by (cases e) (auto simp: agent_candidates_def wake_candidate_def admit_def Let_def
        split: if_splits option.splits elim!: bind_SomeE)
  then have "cand_key c \<in> fst ` set es" if "collect (agent_candidates s env) es m = Some (xs, m')" "c \<in> set xs" for env es m xs m' c
    using that by (induction es arbitrary: m xs) (auto elim!: bind_SomeE, fastforce)
  with assms show ?thesis by (fastforce simp: candidates_def set_oentries has_def split: if_splits)
qed

lemma rebuild_tracks:
  assumes ok: "tree_ok (tv s) (by_id s) (child_of s) rk" and c: "clock_ok t s"
  shows "\<exists>ix'. rebuild s ix = Some ix' \<and> tracks ix' s"
proof -
  obtain cs where cs: "candidates s = Some cs" "\<forall>c \<in> set cs. cand_at c = timed s (slot c)"
    using candidates_pair [OF ok resignal_refl c c] by blast
  have pos: "\<forall>c \<in> set cs. cand_kind c = D_silence \<longrightarrow> 0 \<le> cand_at c"
    using cs latest_signal_bounds(1) [OF c] candidates_silence_known [OF cs(1)] c by (auto simp: clock_ok_def)
  let ?ix = "ix\<lparr>ix_exited := (st_processExit s \<noteq> None), ix_silence := clear (ix_silence ix),
          ix_wakes := clear (ix_wakes ix), ix_globalSignalAt := 0, ix_transportAt := None\<rparr>"
  have "filed ?ix s {}"
    by (simp add: filed_def clear_def em_inv_def indexed_def heap_ok_def em_lookup_def)
  from file_candidates_filed [OF this _ cs(2) pos] obtain ix' where
    "foldM file_candidate cs ?ix = Some ix'" "filed ix' s (slot ` set cs)" "ix_exited ix' = (st_processExit s \<noteq> None)" by auto
  then show ?thesis using cs by (auto simp: rebuild_def tracks_def get_parent_entries filed_def)
qed

subsection \<open>The index hears a signal\<close>

lemma postpone_spec:
  assumes "em_inv em"
  shows "\<exists>em'. postpone d k em = Some em' \<and> em_inv em' \<and>
    (\<forall>k'. map_option expiresAt (em_lookup em' k') =
       map_option (\<lambda>e. if k' = k then max (expiresAt e) d else expiresAt e) (em_lookup em k'))"
proof (cases "em_lookup em k")
  case None
  have "map_option expiresAt (em_lookup em k') =
      map_option (\<lambda>e. if k' = k then max (expiresAt e) d else expiresAt e) (em_lookup em k')" for k'
    using None by (cases "k' = k") simp_all
  with None show ?thesis using assms by (intro exI [of _ em]) (simp add: postpone_def deadline_spec)
next
  case (Some e)
  obtain em' where "set_expiry em k () (max (expiresAt e) d) = Some em'" "em_inv em'"
    "\<And>k'. em_lookup em' k' = (if k' = k then Some \<lparr>ekey = k, evalue = (), expiresAt = max (expiresAt e) d\<rparr> else em_lookup em k')"
    using set_expiry_spec [OF assms] by blast
  with Some assms show ?thesis by (intro exI [of _ em']) (auto simp: postpone_def deadline_spec)
qed

lemma postpone_all:
  assumes "em_inv em" "distinct ks"
  shows "\<exists>em'. foldM (postpone d) ks em = Some em' \<and> em_inv em' \<and>
    (\<forall>k'. map_option expiresAt (em_lookup em' k') =
       map_option (\<lambda>e. if k' \<in> set ks then max (expiresAt e) d else expiresAt e) (em_lookup em k'))"
  using assms
proof (induction ks arbitrary: em)
  case (Cons k ks)
  obtain em1 where 1: "postpone d k em = Some em1" "em_inv em1"
    "\<And>k'. map_option expiresAt (em_lookup em1 k') =
       map_option (\<lambda>e. if k' = k then max (expiresAt e) d else expiresAt e) (em_lookup em k')"
    using postpone_spec [OF Cons.prems(1)] by blast
  obtain em2 where 2: "foldM (postpone d) ks em1 = Some em2" "em_inv em2"
    "\<And>k'. map_option expiresAt (em_lookup em2 k') =
       map_option (\<lambda>e. if k' \<in> set ks then max (expiresAt e) d else expiresAt e) (em_lookup em1 k')"
    using Cons.IH [OF 1(2)] Cons.prems(2) by auto
  have "map_option expiresAt (em_lookup em2 k') =
      map_option (\<lambda>e. if k' \<in> set (k # ks) then max (expiresAt e) d else expiresAt e) (em_lookup em k')" for k'
    using 1(3) [of k'] 2(3) [of k'] Cons.prems(2) by (cases "em_lookup em k'"; cases "em_lookup em1 k'") auto
  with 1 2 show ?case by auto
qed (auto simp: option.map_comp)

lemma indexed_parent_edges:
  assumes ok: "tree_ok (tv s) (by_id s) (child_of s) rk"
  shows "step_rel (indexed_parent s) = edges (tv s)"
proof -
  have "indexed_parent s k = Some p \<longleftrightarrow> (\<exists>i pid. tv s k = Some (i, pid, Some p))" for k p
  proof (cases "get (st_agents s) k")
    case (Some r)
    then have t: "tv s k = Some (a_id (ar_agent r), a_parentId (ar_agent r), ar_parentKey r)" by (simp add: tv_def view_def)
    show ?thesis
    proof (cases "ar_parentKey r")
      case None
      with tree_okD(3) [OF ok, of k] t have "a_parentId (ar_agent r) = None" by simp
      with None t Some show ?thesis by (simp add: indexed_parent_def)
    next
      case (Some q)
      with tree_okD(4) [OF ok] t obtain i' pid' p' where q: "tv s q = Some (i', pid', p')" "a_parentId (ar_agent r) = Some i'" by fastforce
      with tree_okD(1) [OF ok, of i' q] have "by_id s i' = Some q" by blast
      with q t Some \<open>get (st_agents s) k = Some r\<close> show ?thesis by (auto simp: indexed_parent_def by_id_def)
    qed
  qed (simp add: indexed_parent_def tv_def)
  then show ?thesis by (simp add: step_rel_def edges_def)
qed

lemma index_chain:
  assumes ok: "tree_ok (tv s) (by_id s) (child_of s) rk" and p: "\<forall>k. get ps k = indexed_parent s k"
  shows "k \<in> set (chain (get ps) (map fst ps) [] a) \<longleftrightarrow> (a, k) \<in> (edges (tv s))\<^sup>*"
proof -
  have "get ps = indexed_parent s" using p by auto
  then have rel: "step_rel (get ps) = edges (tv s)" using indexed_parent_edges [OF ok] by simp
  have "acyclic (edges (tv s))" using tree_okD(5) [OF ok] .
  with rel reachable_in_chain [of a k "get ps" "map fst ps" "[]"] chain_reachable [of k "get ps" "map fst ps" "[]" a]
    in_keys_iff [of _ ps] show ?thesis by (auto simp: has_def)
qed

lemma indexed_parent_resignal:
  assumes "resignal f s s'"
  shows "indexed_parent s' k = indexed_parent s k"
  by (cases "get (st_agents s) k") (simp_all add: indexed_parent_def resignal_frame [OF assms])

lemma wake_resignal:
  assumes "resignal f s s'"
  shows "timed s' (D_wake, k) = timed s (D_wake, k)"
  by (cases "get (st_agents s) k") (simp_all add: timed_def resignal_frame [OF assms])

text \<open>What the two kinds of signal share.\<close>

lemma tracks_resignal:
  assumes ok: "tree_ok (tv s) (by_id s) (child_of s) rk" and tr: "tracks ix s" and c: "clock_ok t0 s" "clock_ok t s'"
    and R: "resignal f s s'"
    and ix: "ix_exited ix' = ix_exited ix" "ix_parents ix' = ix_parents ix" "ix_wakes ix' = ix_wakes ix" "em_inv (ix_silence ix')"
    and transport: "transportSignalAt s' = max (transportSignalAt s) t"
      "ix_transportAt ix' = map_option (\<lambda>u. max u (t + cfg_silenceMs (st_config s) + 1)) (ix_transportAt ix)"
    and silence: "\<And>k E. filed ix s E \<Longrightarrow> (D_silence, k) \<in> E \<Longrightarrow> has (st_agents s) k \<Longrightarrow>
      map_option (\<lambda>e. max (expiresAt e) (ix_globalSignalAt ix')) (em_lookup (ix_silence ix') k) = Some (timed s' (D_silence, k))"
      "\<And>k. em_lookup (ix_silence ix) k = None \<Longrightarrow> em_lookup (ix_silence ix') k = None"
  shows "tracks ix' s'"
proof -
  obtain cs cs' where cs: "candidates s = Some cs" "candidates s' = Some cs'" "map slot cs' = map slot cs"
      "\<forall>c \<in> set cs'. cand_at c = timed s' (slot c)"
    using candidates_pair [OF ok R c] by blast
  have f: "filed ix s (slot ` set cs)" using tr cs(1) by (auto simp: tracks_def)
  have slots: "slot ` set cs' = slot ` set cs" using arg_cong [OF cs(3), of set] by simp
  have "filed ix' s' (slot ` set cs)"
  proof (rule filedI)
    fix k
    show "map_option (\<lambda>e. max (expiresAt e) (ix_globalSignalAt ix')) (em_lookup (ix_silence ix') k) =
        (if (D_silence, k) \<in> slot ` set cs then Some (timed s' (D_silence, k)) else None)"
    proof (cases "(D_silence, k) \<in> slot ` set cs")
      case True
      then have "has (st_agents s) k" using candidates_silence_known [OF cs(1)] by auto
      with silence(1) [OF f True] True show ?thesis by simp
    next
      case False
      with filedD(1) [OF f, of k] have "em_lookup (ix_silence ix) k = None" by simp
      with silence(2) False show ?thesis by simp
    qed
    show "map_option expiresAt (em_lookup (ix_wakes ix') k) =
        (if (D_wake, k) \<in> slot ` set cs then Some (timed s' (D_wake, k)) else None)"
      using filedD(2) [OF f, of k] by (simp add: ix wake_resignal [OF R])
  next
    show "ix_transportAt ix' = (if \<exists>k. (D_transport, k) \<in> slot ` set cs then Some (timed s' (D_transport, [])) else None)"
      using filedD(3) [OF f] by (auto simp: transport resignal_frame [OF R] max_def)
  qed (use filedD [OF f] ix in simp_all)
  with tr cs(2,4) show ?thesis
    by (auto simp: tracks_def ix resignal_frame [OF R] indexed_parent_resignal [OF R] slots)
qed

lemma index_signal_tracks:
  assumes ok: "tree_ok (tv w) (by_id w) (child_of w) rk" and tr: "tracks ix w" and c: "clock_ok t0 w" and t: "t0 \<le> t"
    "t + cfg_silenceMs (st_config w) < 9007199254740991" and a: "\<And>k. a = Some k \<Longrightarrow> has (st_agents w) k"
  shows "\<exists>ix'. index_signal a t (cfg_silenceMs (st_config w)) ix = Some ix' \<and> tracks ix' (heard ctx (a, t) w) \<and>
    clock_ok t (heard ctx (a, t) w) \<and> (\<exists>f. resignal f w (heard ctx (a, t) w))"
proof -
  let ?ms = "cfg_silenceMs (st_config w)" let ?d = "t + ?ms + 1"
  have ts: "t = max (transportSignalAt w) t" using c t by (auto simp: clock_ok_def)
  obtain E where E: "filed ix w E" using tr by (auto simp: tracks_def)
  show ?thesis
  proof (cases a)
    case None
    let ?ix = "ix\<lparr>ix_transportAt := map_option (\<lambda>u. max u ?d) (ix_transportAt ix), ix_globalSignalAt := max (ix_globalSignalAt ix) ?d\<rparr>"
    note R = heard_all(1) [of t w ctx]
    have c': "clock_ok t (heard ctx (None, t) w)" by (rule clock_ok_resignal [OF c R heard_all(2) t]) simp
    have "tracks ?ix (heard ctx (None, t) w)"
    proof (rule tracks_resignal [OF ok tr c c' R])
      show "transportSignalAt (heard ctx (None, t) w) = max (transportSignalAt w) t" using ts by (simp add: heard_all(2))
      fix k E assume f: "filed ix w E" "(D_silence, k) \<in> E" "has (st_agents w) k"
      from filedD(1) [OF f(1), of k] f(2) obtain e where e: "em_lookup (ix_silence ix) k = Some e"
        "max (expiresAt e) (ix_globalSignalAt ix) = latest_signal w k + ?ms + 1" by auto
      have "max (expiresAt e) (max (ix_globalSignalAt ix) ?d) = max (latest_signal w k) t + ?ms + 1"
        using e(2) by (simp add: max_def split: if_splits)
      with e(1) show "map_option (\<lambda>e. max (expiresAt e) (ix_globalSignalAt ?ix)) (em_lookup (ix_silence ?ix) k) =
          Some (timed (heard ctx (None, t) w) (D_silence, k))"
        by (simp add: latest_heard_all [OF R f(3) c t(1)] resignal_frame [OF R])
    qed (use filedD(4) [OF E] in simp_all)
    with None c' R show ?thesis by (auto simp: index_signal_def Let_def)
  next
    case (Some k0)
    then have k0: "has (st_agents w) k0" using a by simp
    note R = heard_one(1) [OF k0, of t ctx]
    let ?ch = "chain (get (ix_parents ix)) (map fst (ix_parents ix)) [] k0"
    obtain em where em: "foldM (postpone ?d) ?ch (ix_silence ix) = Some em" "em_inv em"
      "\<And>k'. map_option expiresAt (em_lookup em k') =
         map_option (\<lambda>e. if k' \<in> set ?ch then max (expiresAt e) ?d else expiresAt e) (em_lookup (ix_silence ix) k')"
      using postpone_all [OF filedD(4) [OF E] distinct_chain] by blast
    have ch: "k \<in> set ?ch \<longleftrightarrow> (k0, k) \<in> (edges (tv w))\<^sup>*" for k
      using tr by (intro index_chain [OF ok]) (simp add: tracks_def)
    have s0: "signal_of w k0 \<le> t" using c t(1) k0 by (fastforce simp: clock_ok_def signal_of_def has_def)
    let ?ix = "ix\<lparr>ix_transportAt := map_option (\<lambda>u. max u ?d) (ix_transportAt ix), ix_silence := em\<rparr>"
    have c': "clock_ok t (heard ctx (Some k0, t) w)" by (rule clock_ok_resignal [OF c R heard_one(2) [OF k0] t]) simp
    have "tracks ?ix (heard ctx (Some k0, t) w)"
    proof (rule tracks_resignal [OF ok tr c c' R])
      show "transportSignalAt (heard ctx (Some k0, t) w) = max (transportSignalAt w) t" using ts by (simp add: heard_one(2) [OF k0])
      show "em_lookup (ix_silence ?ix) k = None" if "em_lookup (ix_silence ix) k = None" for k using em(3) [of k] that by simp
      fix k E assume f: "filed ix w E" "(D_silence, k) \<in> E" "has (st_agents w) k"
      from filedD(1) [OF f(1), of k] f(2) obtain e where e: "em_lookup (ix_silence ix) k = Some e"
        "max (expiresAt e) (ix_globalSignalAt ix) = latest_signal w k + ?ms + 1" by auto
      with em(3) [of k] obtain e' where e': "em_lookup em k = Some e'"
        "expiresAt e' = (if k \<in> set ?ch then max (expiresAt e) ?d else expiresAt e)" by auto
      have "max (expiresAt e') (ix_globalSignalAt ix) = timed (heard ctx (Some k0, t) w) (D_silence, k)"
        using e(2) by (auto simp: e'(2) ch latest_heard_one [OF R k0 s0 f(3)] resignal_frame [OF R] max_def split: if_splits)
      with e'(1) show "map_option (\<lambda>e. max (expiresAt e) (ix_globalSignalAt ?ix)) (em_lookup (ix_silence ?ix) k) =
          Some (timed (heard ctx (Some k0, t) w) (D_silence, k))" by simp
    qed (use em(2) in simp_all)
    with Some c' R em(1) show ?thesis by (auto simp: index_signal_def Let_def)
  qed
qed

subsection \<open>The earliest deadline\<close>

lemma earliest_spec:
  "earliest xs pd = (let S = set xs \<union> (case pd of None \<Rightarrow> {} | Some d \<Rightarrow> if safe_integer d \<and> d \<ge> 0 then {d} else {})
     in if S = {} then None else Some (Min S))"
proof -
  have "foldl (\<lambda>n t. Some (case n of None \<Rightarrow> t | Some n \<Rightarrow> min t n)) (Some n) xs = Some (Min (insert n (set xs)))" for n xs
  proof (induction xs arbitrary: n)
    case (Cons x xs)
    have "Min (insert (min x n) (set xs)) = Min (insert n (set (x # xs)))"
      by (cases "xs = []") (simp_all add: min.left_commute min.commute min.assoc)
    with Cons show ?case by simp
  qed simp
  note some = this
  have "foldl (\<lambda>n t. Some (case n of None \<Rightarrow> t | Some n \<Rightarrow> min t n)) None xs = (if set xs = {} then None else Some (Min (set xs)))"
    by (cases xs) (simp_all add: some)
  note none = this
  show ?thesis
  proof (cases pd)
    case None then show ?thesis by (simp add: earliest_def none)
  next
    case (Some d)
    then show ?thesis
      by (cases "safe_integer d \<and> d \<ge> 0") (auto simp: earliest_def none some)
  qed
qed

lemma earliest_cong:
  assumes "set ys \<subseteq> set xs" "\<And>x. x \<in> set xs \<Longrightarrow> \<exists>y \<in> set ys. y \<le> x"
  shows "earliest ys pd = earliest xs pd"
proof -
  let ?P = "case pd of None \<Rightarrow> {} | Some d \<Rightarrow> if safe_integer d \<and> d \<ge> 0 then {d} else {}"
  have fin: "finite ?P" by (simp split: option.splits)
  have "Min (set ys \<union> ?P) = Min (set xs \<union> ?P)" if ne: "set xs \<union> ?P \<noteq> {}"
  proof (rule antisym)
    have ne': "set ys \<union> ?P \<noteq> {}" using ne assms(2) by fastforce
    have "Min (set ys \<union> ?P) \<le> x" if "x \<in> set xs \<union> ?P" for x
      using that
    proof
      assume "x \<in> set xs"
      with assms(2) obtain y where "y \<in> set ys" "y \<le> x" by blast
      with fin show ?thesis by (intro Min.coboundedI [THEN order_trans, of _ y]) auto
    next
      assume "x \<in> ?P"
      with fin show ?thesis by (intro Min.coboundedI) simp_all
    qed
    with fin ne show "Min (set ys \<union> ?P) \<le> Min (set xs \<union> ?P)" by (simp add: Min_ge_iff)
    show "Min (set xs \<union> ?P) \<le> Min (set ys \<union> ?P)" using fin ne' assms(1) by (intro Min_antimono) auto
  qed
  moreover have "set ys \<union> ?P = {} \<longleftrightarrow> set xs \<union> ?P = {}" using assms by fastforce
  ultimately show ?thesis unfolding earliest_spec Let_def by simp
qed

lemma tracks_next:
  assumes "tracks ix s"
  shows "nextDeadline s pd = Some (index_next ix pd)"
proof (cases "st_processExit s")
  case (Some e)
  with assms show ?thesis by (simp add: tracks_def nextDeadline_def index_next_def)
next
  case None
  obtain cs where cs: "candidates s = Some cs" "\<forall>c \<in> set cs. cand_at c = timed s (slot c)" "filed ix s (slot ` set cs)"
    using assms by (auto simp: tracks_def)
  let ?sil = "case first (ix_silence ix) of None \<Rightarrow> [] | Some e \<Rightarrow> [max (expiresAt e) (ix_globalSignalAt ix)]"
  let ?wake = "case first (ix_wakes ix) of None \<Rightarrow> [] | Some e \<Rightarrow> [expiresAt e]"
  let ?tr = "case ix_transportAt ix of None \<Rightarrow> [] | Some t \<Rightarrow> [t]"
  note f = filedD [OF cs(3)]
  have val: "timed s p \<in> set (map cand_at cs)" if "p \<in> slot ` set cs" for p using that cs(2) by force
  have sil: "x \<in> set (map cand_at cs)" if "x \<in> set ?sil" for x
  proof -
    from that obtain e where e: "first (ix_silence ix) = Some e" "x = max (expiresAt e) (ix_globalSignalAt ix)"
      by (cases "first (ix_silence ix)") auto
    from f(1) [of "ekey e"] first_Some(1) [OF f(4) e(1)] have "(D_silence, ekey e) \<in> slot ` set cs" "x = timed s (D_silence, ekey e)"
      using e(2) by (auto split: if_splits)
    with val [of "(D_silence, ekey e)"] show ?thesis by (simp del: timed_simps)
  qed
  have wake: "x \<in> set (map cand_at cs)" if "x \<in> set ?wake" for x
  proof -
    from that obtain e where e: "first (ix_wakes ix) = Some e" "x = expiresAt e" by (cases "first (ix_wakes ix)") auto
    from f(2) [of "ekey e"] first_Some(1) [OF f(5) e(1)] have "(D_wake, ekey e) \<in> slot ` set cs" "x = timed s (D_wake, ekey e)"
      using e(2) by (auto split: if_splits)
    with val show ?thesis by simp
  qed
  have tr: "x \<in> set (map cand_at cs)" if "x \<in> set ?tr" for x
    using that f(3) val timed_transport by (auto split: if_splits option.splits) force
  have low: "\<exists>y \<in> set (?sil @ ?wake @ ?tr). y \<le> cand_at c" if c: "c \<in> set cs" for c
  proof (cases "cand_kind c")
    case D_silence
    with c have "(D_silence, cand_key c) \<in> slot ` set cs" by force
    with f(1) [of "cand_key c"] obtain e where e: "em_lookup (ix_silence ix) (cand_key c) = Some e"
      "max (expiresAt e) (ix_globalSignalAt ix) = timed s (D_silence, cand_key c)" by auto
    obtain e0 where e0: "first (ix_silence ix) = Some e0" using first_None_iff [OF f(4)] e(1) by (cases "first (ix_silence ix)") auto
    from first_Some(2) [OF f(4) e0 e(1)] e(2) cs(2) c D_silence have "max (expiresAt e0) (ix_globalSignalAt ix) \<le> cand_at c" by auto
    with e0 show ?thesis by simp
  next
    case D_wake
    with c have "(D_wake, cand_key c) \<in> slot ` set cs" by force
    with f(2) [of "cand_key c"] obtain e where e: "em_lookup (ix_wakes ix) (cand_key c) = Some e"
      "expiresAt e = timed s (D_wake, cand_key c)" by auto
    obtain e0 where e0: "first (ix_wakes ix) = Some e0" using first_None_iff [OF f(5)] e(1) by (cases "first (ix_wakes ix)") auto
    from first_Some(2) [OF f(5) e0 e(1)] e(2) cs(2) c D_wake have "expiresAt e0 \<le> cand_at c" by auto
    with e0 show ?thesis by simp
  next
    case D_transport
    with c have "\<exists>k. (D_transport, k) \<in> slot ` set cs" by force
    with f(3) cs(2) c D_transport show ?thesis by auto
  qed
  have "earliest (?sil @ ?wake @ ?tr) pd = earliest (map cand_at cs) pd"
  proof (rule earliest_cong)
    show "set (?sil @ ?wake @ ?tr) \<subseteq> set (map cand_at cs)" using sil wake tr unfolding set_append by blast
    show "\<exists>y \<in> set (?sil @ ?wake @ ?tr). y \<le> x" if "x \<in> set (map cand_at cs)" for x using that low by force
  qed
  with None cs(1) assms show ?thesis by (simp add: nextDeadline_def index_next_def tracks_def)
qed

text \<open>The reducer and the index hear the same signals, one after the other.\<close>

definition hear_all :: "apply_context \<Rightarrow> (key option \<times> timestamp) list \<Rightarrow> world \<Rightarrow> world" where
  "hear_all ctx sgs w = fold (heard ctx) sgs w"

definition index_signals :: "(key option \<times> timestamp) list \<Rightarrow> int \<Rightarrow> deadline_index \<Rightarrow> deadline_index option" where
  "index_signals sgs ms ix = foldM (\<lambda>(a, t). index_signal a t ms) sgs ix"

lemma index_signals_track:
  assumes "tree_ok (tv w) (by_id w) (child_of w) rk" "tracks ix w" "clock_ok t0 w" "sorted (t0 # map snd sgs)"
    "\<forall>t \<in> snd ` set sgs. t + cfg_silenceMs (st_config w) < 9007199254740991"
    "\<forall>k. Some k \<in> fst ` set sgs \<longrightarrow> has (st_agents w) k"
  shows "\<exists>ix'. index_signals sgs (cfg_silenceMs (st_config w)) ix = Some ix' \<and> tracks ix' (hear_all ctx sgs w)"
  using assms
proof (induction sgs arbitrary: ix w t0)
  case (Cons sg sgs)
  obtain a t where sg: "sg = (a, t)" by fastforce
  have t: "t0 \<le> t" "t + cfg_silenceMs (st_config w) < 9007199254740991" "\<And>k. a = Some k \<Longrightarrow> has (st_agents w) k"
    using Cons.prems(4-6) by (auto simp: sg)
  obtain ix1 f where 1: "index_signal a t (cfg_silenceMs (st_config w)) ix = Some ix1" "tracks ix1 (heard ctx (a, t) w)"
    "clock_ok t (heard ctx (a, t) w)" and R: "resignal f w (heard ctx (a, t) w)"
    using index_signal_tracks [OF Cons.prems(1-3) t(1,2), of a ctx] t(3) by blast
  have "has (st_agents (heard ctx (a, t) w)) k = has (st_agents w) k" for k by (simp add: has_def resignal_frame [OF R])
  with Cons.IH [of "heard ctx (a, t) w" ix1 t] 1 Cons.prems show ?case
    by (auto simp: sg index_signals_def hear_all_def resignal_frame [OF R] tree_resignal [OF R])
qed (simp add: index_signals_def hear_all_def)

text \<open>C10: the deadline index is an exact cache. On a state with a well-formed agent tree, an index built
  from the state (whatever it held before) and then told of any sequence of signals, each from a known
  agent or from the transport, at times that do not go back, gives the deadline a fresh reading of all
  candidates gives of the state after the same signals. Neither ever throws.\<close>

theorem deadline_index_exact:
  assumes "tree_inv gen w" "clock_ok t0 w" "sorted (t0 # map snd sgs)"
    "\<forall>t \<in> snd ` set sgs. t + cfg_silenceMs (st_config w) < 9007199254740991"
    "\<forall>k. Some k \<in> fst ` set sgs \<longrightarrow> has (st_agents w) k"
  shows "\<exists>ix1 ix2. rebuild w ix = Some ix1 \<and> index_signals sgs (cfg_silenceMs (st_config w)) ix1 = Some ix2 \<and>
    nextDeadline (hear_all ctx sgs w) pd = Some (index_next ix2 pd)"
proof -
  have ok: "tree_ok (tv w) (by_id w) (child_of w) (st_rootKey w)" using assms(1) by (simp add: tree_inv_def)
  obtain ix1 where 1: "rebuild w ix = Some ix1" "tracks ix1 w" using rebuild_tracks [OF ok assms(2)] by blast
  with index_signals_track [OF ok _ assms(2-5)] tracks_next show ?thesis by blast
qed

lemma example_active_clock:
  "clock_ok 5 example_active" "has (st_agents example_active) ''a''" "cfg_silenceMs (st_config example_active) = 60000"
proof -
  have a: "st_agents example_active = [(''a'', snd (hd (st_agents example_active)))]" "ar_lastSignalAt (snd (hd (st_agents example_active))) = 5"
    "transportSignalAt example_active = 5" by code_simp+
  show ms: "cfg_silenceMs (st_config example_active) = 60000" by code_simp
  have "get (st_agents example_active) k = Some r \<Longrightarrow> ar_lastSignalAt r = 5" for k r
    using a(2) by (subst (asm) a(1)) (auto split: if_splits)
  with a(3) ms show "clock_ok 5 example_active" by (auto simp: clock_ok_def)
  show "has (st_agents example_active) ''a''" by (subst a(1)) (simp add: has_def)
qed

theorem deadline_index_exact_witness:
  "\<exists>ix1 ix2. rebuild example_active empty_index = Some ix1 \<and>
     index_signals [(Some ''a'', 7), (None, 9)] 60000 ix1 = Some ix2 \<and>
     nextDeadline (hear_all (example_ctx 5) [(Some ''a'', 7), (None, 9)] example_active) (Some 2000) = Some (index_next ix2 (Some 2000))"
proof -
  have "tree_inv counter_ids example_active"
    using reachable_core_inv(1) [OF counter.id_source_axioms reachable_example_active] by (simp add: core_inv_def run_inv_def)
  from deadline_index_exact [OF this example_active_clock(1), of "[(Some ''a'', 7), (None, 9)]" empty_index "example_ctx 5" "Some 2000"]
  show ?thesis by (simp add: example_active_clock)
qed

end
