(* ===== verification/Core_Policies.thy ===== *)
theory Core_Policies
  imports Core_Reduce_Inv
begin

text \<open>
  The pure policies of src/packages/core/src: where a switch continues (switch-route.ts), what cleanup
  may remove (storage-retention.ts), which commands a disabled provider refuses (provider-admission.ts),
  how ready a provider is (provider-readiness.ts), which permission modes it takes (permissions.ts),
  when a steer waits for a shell command (steering.ts) and when the thread takes a person's message
  (person-input.ts).
\<close>

subsection \<open>switch-route.ts\<close>

record switch_side =
  sw_provider :: string
  sw_instanceId :: "string option"
  sw_backend :: "string option"
  sw_acpAgentId :: "string option"

datatype switch_route = In_place | New_thread | Unsupported

definition truthy :: "string option \<Rightarrow> bool" where
  "truthy v \<longleftrightarrow> v \<noteq> None \<and> v \<noteq> Some []"

definition otherAccount :: "switch_side \<Rightarrow> switch_side \<Rightarrow> bool" where
  "otherAccount current nxt \<longleftrightarrow> sw_instanceId nxt \<noteq> None \<and> sw_instanceId nxt \<noteq> sw_instanceId current"

definition switchRoute :: "switch_side \<Rightarrow> switch_side \<Rightarrow> switch_route" where
  "switchRoute current nxt =
     (let accountChanged = otherAccount current nxt in
      if sw_provider nxt = ''acp'' \<and> \<not> truthy (sw_acpAgentId nxt) \<and> (sw_provider current \<noteq> ''acp'' \<or> accountChanged)
      then Unsupported
      else if sw_backend current = Some ''cursor-sdk'' \<and> (sw_provider nxt \<noteq> sw_provider current \<or> accountChanged)
      then New_thread
      else if sw_provider current = ''cursor'' \<and> sw_provider nxt = ''cursor'' \<and> accountChanged
      then New_thread
      else In_place)"

definition switchRoutePreservingSource :: "switch_side \<Rightarrow> switch_side \<Rightarrow> switch_route" where
  "switchRoutePreservingSource current nxt =
     (let route = switchRoute current nxt in
      if route = In_place \<and> (sw_provider current \<noteq> sw_provider nxt \<or> otherAccount current nxt) then New_thread else route)"

subsection \<open>storage-retention.ts\<close>

datatype storage_kind = SK_threads | SK_attachments | SK_artifacts | SK_logs | SK_worktrees | SK_caches

datatype storage_reason =
    SR_retention_disabled | SR_within_retention | SR_archived_thread | SR_not_archived | SR_not_settled
  | SR_not_merged | SR_pinned | SR_active_tree | SR_pending_input | SR_live_thread | SR_referenced
  | SR_leased | SR_unowned | SR_expired | SR_task_finished | SR_pr_merged | SR_pr_closed | SR_orphaned
  | SR_missing_directory | SR_main_worktree | SR_locked_worktree | SR_uncommitted | SR_unpushed
  | SR_unknown_git_state | SR_unsafe_path | SR_changed | SR_already_removed | SR_cleanup_in_progress
  | SR_owner_unavailable

datatype worktree_mode = WM_archived | WM_settled | WM_all_settled

record storage_retention =
  ret_threads :: "int option"
  ret_attachments :: "int option"
  ret_artifacts :: "int option"
  ret_logs :: "int option"
  ret_worktrees :: "int option"
  ret_caches :: "int option"
  ret_idleThreads :: bool
  ret_worktreeMode :: "worktree_mode option"

record storage_candidate =
  sc_id :: string
  sc_kind :: storage_kind
  sc_label :: string
  sc_bytes :: int
  sc_modifiedAt :: int
  sc_threadIds :: "string list"
  sc_fingerprint :: string
  sc_protections :: "storage_reason list"
  sc_eligibleReason :: storage_reason
  sc_branch :: "string option option"
  sc_removeBranch :: "bool option"
  sc_settledAt :: "int option"
  sc_mergedIntoMain :: "bool option"
  sc_openThreads :: "bool option"

datatype disposition = Remove_item | Protect_item

datatype storage_effect =
  Transcript_payloads | Attachment_references | Browser_data | Worktree_effect | Local_branch | File_effect

record storage_item =
  si_id :: string
  si_kind :: storage_kind
  si_label :: string
  si_bytes :: int
  si_modifiedAt :: int
  si_threadIds :: "string list"
  si_disposition :: disposition
  si_reasons :: "storage_reason list"
  si_forced :: bool
  si_effects :: "storage_effect list"
  si_branch :: "string option option"
  si_removeBranch :: "bool option"

definition forceable :: "storage_reason list" where
  "forceable = [SR_uncommitted, SR_unpushed]"

definition archival :: "storage_reason list" where
  "archival = [SR_not_archived, SR_live_thread]"

definition retention_days :: "storage_retention \<Rightarrow> storage_kind \<Rightarrow> int option" where
  "retention_days r k = (case k of SK_threads \<Rightarrow> ret_threads r | SK_attachments \<Rightarrow> ret_attachments r
     | SK_artifacts \<Rightarrow> ret_artifacts r | SK_logs \<Rightarrow> ret_logs r | SK_worktrees \<Rightarrow> ret_worktrees r
     | SK_caches \<Rightarrow> ret_caches r)"

text \<open>Insertion order with the first occurrence kept: the elements of a JavaScript Set.\<close>

fun first_occurrences :: "'x list \<Rightarrow> 'x list" where
  "first_occurrences [] = []"
| "first_occurrences (x # xs) = x # filter (\<lambda>y. y \<noteq> x) (first_occurrences xs)"

definition is_forced :: "storage_candidate \<Rightarrow> string set \<Rightarrow> bool" where
  "is_forced c forceItems \<longleftrightarrow> sc_kind c = SK_worktrees \<and> sc_id c \<in> forceItems"

definition settled_mode :: "storage_candidate \<Rightarrow> storage_retention \<Rightarrow> bool" where
  "settled_mode c r \<longleftrightarrow> sc_kind c = SK_worktrees \<and>
     (ret_worktreeMode r = Some WM_settled \<or> ret_worktreeMode r = Some WM_all_settled)"

definition kept_protections :: "storage_candidate \<Rightarrow> storage_retention \<Rightarrow> string set \<Rightarrow> storage_reason list" where
  "kept_protections c r forceItems = filter (\<lambda>reason.
     \<not> (is_forced c forceItems \<and> reason \<in> set forceable) \<and>
     \<not> (ret_idleThreads r \<and> sc_kind c = SK_threads \<and> reason \<in> set archival)) (sc_protections c)"

definition mode_protections :: "storage_candidate \<Rightarrow> storage_retention \<Rightarrow> storage_reason list" where
  "mode_protections c r =
     (if sc_kind c = SK_worktrees \<and> \<not> settled_mode c r \<and> sc_openThreads c = Some True then [SR_live_thread] else []) @
     (if settled_mode c r
      then (if sc_settledAt c = None then [SR_not_settled] else []) @
        (if ret_worktreeMode r = Some WM_settled \<and> sc_mergedIntoMain c \<noteq> Some True then [SR_not_merged] else [])
      else [])"

definition age_protections :: "storage_candidate \<Rightarrow> storage_retention \<Rightarrow> int \<Rightarrow> storage_reason list" where
  "age_protections c r t =
     (if settled_mode c r \<and> ret_worktreeMode r = Some WM_all_settled then []
      else case retention_days r (sc_kind c) of
        None \<Rightarrow> [SR_retention_disabled]
      | Some days \<Rightarrow>
          if (if settled_mode c r then (case sc_settledAt c of None \<Rightarrow> t | Some s \<Rightarrow> s) else sc_modifiedAt c) > t - days * 86400000
          then [SR_within_retention] else [])"

definition storage_protections :: "storage_candidate \<Rightarrow> storage_retention \<Rightarrow> int \<Rightarrow> string set \<Rightarrow> storage_reason list" where
  "storage_protections c r t forceItems = kept_protections c r forceItems @ mode_protections c r @ age_protections c r t"

definition planStorageItem :: "storage_candidate \<Rightarrow> storage_retention \<Rightarrow> int \<Rightarrow> string set \<Rightarrow> storage_item" where
  "planStorageItem c r t forceItems =
     (let protections = storage_protections c r t forceItems in
      \<lparr>si_id = sc_id c, si_kind = sc_kind c, si_label = sc_label c, si_bytes = sc_bytes c,
       si_modifiedAt = sc_modifiedAt c, si_threadIds = sc_threadIds c,
       si_disposition = (if protections \<noteq> [] then Protect_item else Remove_item),
       si_reasons = (if protections \<noteq> [] then first_occurrences protections else [sc_eligibleReason c]),
       si_forced = is_forced c forceItems,
       si_effects = (if sc_kind c = SK_threads then [Transcript_payloads, Attachment_references, Browser_data]
         else if sc_kind c = SK_worktrees
         then (if sc_removeBranch c = Some True then [Worktree_effect, Local_branch] else [Worktree_effect])
         else [File_effect]),
       si_branch = sc_branch c, si_removeBranch = sc_removeBranch c\<rparr>)"

subsection \<open>provider-admission.ts\<close>

text \<open>
  The fields of a command payload the policy reads. \<open>cp_provider\<close> is there exactly when the payload
  has the property; the other optional properties are looked up after an \<open>in\<close> test and fall
  through \<open>??\<close> alike when absent and undefined.
\<close>

record command_payload =
  cp_type :: string
  cp_threadId :: "ident option"
  cp_provider :: "provider_kind option"
  cp_instanceId :: "string option"
  cp_accountId :: "string option"
  cp_account :: "string option"
  cp_selection :: "(provider_kind \<times> string option) option"

record provider_thread =
  pt_provider :: provider_kind
  pt_instanceId :: "string option"
  pt_parentThreadId :: "ident option"

record admission_facts =
  af_thread :: "ident \<Rightarrow> provider_thread option"
  af_defaultInstance :: "provider_kind \<Rightarrow> string option"
  af_enabled :: "provider_kind \<Rightarrow> string option \<Rightarrow> bool"

definition or_else :: "'x option \<Rightarrow> 'x option \<Rightarrow> 'x option" where
  "or_else a b = (case a of None \<Rightarrow> b | Some _ \<Rightarrow> a)"

definition admitted_types :: "string list" where
  "admitted_types = [''thread.create'', ''thread.prepare'', ''thread.send'', ''thread.fork'', ''thread.switch'',
     ''thread.resume'', ''queue.resume'', ''thread.merge'', ''thread.model.set'', ''thread.mode.set'',
     ''thread.goal.set'', ''thread.goal.clear'']"

definition command_thread :: "command_payload \<Rightarrow> admission_facts \<Rightarrow> provider_thread option" where
  "command_thread p facts = (if truthy (cp_threadId p) then Option.bind (cp_threadId p) (af_thread facts) else None)"

definition command_provider :: "command_payload \<Rightarrow> admission_facts \<Rightarrow> provider_kind option" where
  "command_provider p facts = or_else (cp_provider p)
     (or_else (map_option fst (cp_selection p)) (map_option pt_provider (command_thread p facts)))"

definition command_instance :: "command_payload \<Rightarrow> admission_facts \<Rightarrow> string option" where
  "command_instance p facts =
     (let thread = command_thread p facts; provider = command_provider p facts in
      or_else (cp_instanceId p) (or_else (cp_accountId p) (or_else (cp_account p)
        (or_else (Option.bind (cp_selection p) snd)
          (or_else (if provider = map_option pt_provider thread then Option.bind thread pt_instanceId else None)
            (Option.bind provider (af_defaultInstance facts)))))))"

definition destination_disabled :: "command_payload \<Rightarrow> admission_facts \<Rightarrow> bool" where
  "destination_disabled p facts \<longleftrightarrow> cp_type p = ''thread.merge'' \<and>
     (case Option.bind (command_thread p facts) pt_parentThreadId of None \<Rightarrow> False
      | Some parent \<Rightarrow> parent \<noteq> [] \<and> (case af_thread facts parent of None \<Rightarrow> False
          | Some d \<Rightarrow> \<not> af_enabled facts (pt_provider d)
              (or_else (pt_instanceId d) (af_defaultInstance facts (pt_provider d)))))"

definition providerCommandDisabled :: "command_payload \<Rightarrow> admission_facts \<Rightarrow> bool" where
  "providerCommandDisabled p facts =
     (if cp_type p \<notin> set admitted_types then False
      else (case command_provider p facts of None \<Rightarrow> False
          | Some provider \<Rightarrow> \<not> af_enabled facts provider (command_instance p facts)) \<or> destination_disabled p facts)"

subsection \<open>permissions.ts\<close>

record permission_capabilities =
  pc_accessModes :: "string list option"
  pc_permissionModes :: "string list option"

definition supportsPermissionMode :: "permission_capabilities option \<Rightarrow> string option \<Rightarrow> bool" where
  "supportsPermissionMode capabilities mode = (case mode of None \<Rightarrow> True
     | Some m \<Rightarrow>
        if (case Option.bind capabilities pc_accessModes of None \<Rightarrow> False | Some offers \<Rightarrow> m \<in> set offers) then True
        else (case Option.bind capabilities pc_permissionModes of None \<Rightarrow> True
            | Some choices \<Rightarrow> choices = [] \<or> m \<in> set choices))"

subsection \<open>provider-readiness.ts\<close>

datatype readiness = Not_installed | Installed_signed_out | Signed_in | Needs_attention | Not_configured | Needs_update
datatype provider_runtime = Cli | Cursor_sdk
datatype provider_auth = Logged_in | Logged_out | Auth_unknown
datatype version_status = V_ok | V_too_old | V_unreadable

text \<open>The fields of a status row that readiness reads or writes; the others are carried as they are.\<close>

record provider_status =
  ps_provider :: provider_kind
  ps_readiness :: "readiness option"
  ps_installHint :: "string option"
  ps_installCommand :: "string option"
  ps_runtime :: provider_runtime
  ps_installed :: "bool option"
  ps_enabled :: "bool option"
  ps_versionCheck :: "version_status option"
  ps_auth :: provider_auth
  ps_modelsAvailable :: "bool option"
  ps_loginHint :: string
  ps_signInAction :: bool
  ps_state_not_configured :: bool
  ps_error :: "string option"
  ps_refreshing :: bool
  ps_rest :: fields

record installer =
  in_package :: "string option"
  in_manual :: "string option"

definition installer_of :: "provider_kind \<Rightarrow> installer option" where
  "installer_of p = (case p of
       Codex \<Rightarrow> Some \<lparr>in_package = Some ''@openai/codex'', in_manual = None\<rparr>
     | Claude \<Rightarrow> Some \<lparr>in_package = Some ''@anthropic-ai/claude-code'', in_manual = None\<rparr>
     | Opencode \<Rightarrow> Some \<lparr>in_package = Some ''@opencode/cli'', in_manual = None\<rparr>
     | Pi \<Rightarrow> Some \<lparr>in_package = Some ''@earendil-works/pi-coding-agent'', in_manual = None\<rparr>
     | Cursor \<Rightarrow> Some \<lparr>in_package = None,
         in_manual = Some ''Cursor's SDK ships with ace. Sign in to Cursor; update the SDK by updating ace.''\<rparr>
     | Antigravity \<Rightarrow> Some \<lparr>in_package = None, in_manual = None\<rparr>
     | Acp \<Rightarrow> None)"

definition base_readiness :: "provider_status \<Rightarrow> readiness" where
  "base_readiness row =
     (if ps_enabled row = Some False then Not_configured
      else if ps_installed row = Some False then (if ps_runtime row = Cursor_sdk then Not_configured else Not_installed)
      else if ps_readiness row = Some Needs_attention \<or> ps_installed row = None \<or> truthy (ps_error row) then Needs_attention
      else if ps_auth row = Logged_out \<and> \<not> (ps_provider row = Opencode \<and> ps_modelsAvailable row = Some True)
      then Installed_signed_out else Signed_in)"

definition readiness_of :: "provider_status \<Rightarrow> readiness" where
  "readiness_of row =
     (let usable = ps_enabled row \<noteq> Some False \<and> ps_installed row = Some True;
          r1 = (if usable \<and> ps_state_not_configured row then Installed_signed_out else base_readiness row)
      in if usable \<and> ps_versionCheck row = Some V_too_old then Needs_update else r1)"

definition providerReadiness :: "provider_status \<Rightarrow> provider_status" where
  "providerReadiness row =
     (let spec = installer_of (ps_provider row);
          r = readiness_of row;
          row1 = row\<lparr>ps_readiness := Some r\<rparr>;
          row2 = (if ps_provider row = Cursor \<and> r = Installed_signed_out
            then row1\<lparr>ps_loginHint := ''Sign in to Cursor'', ps_signInAction := True\<rparr> else row1);
          row3 = row2\<lparr>ps_installHint := Some (case Option.bind spec in_manual of Some hint \<Rightarrow> hint
            | None \<Rightarrow> ''Install the provider with its official setup, then check again.'')\<rparr>
      in case Option.bind spec in_package of
           None \<Rightarrow> row3
         | Some package \<Rightarrow> row3\<lparr>ps_installCommand := Some (''npm install -g '' @ package)\<rparr>)"

datatype onboarding_step = Start_thread | Sign_in provider_kind | Refresh | Configure provider_kind | Install provider_kind

text \<open>The rows by provider in the order each provider was first met, as a JavaScript Map keeps them.\<close>

definition put_row :: "provider_status \<Rightarrow> provider_status list \<Rightarrow> provider_status list" where
  "put_row row rows = (if \<exists>r \<in> set rows. ps_provider r = ps_provider row
     then map (\<lambda>r. if ps_provider r = ps_provider row then row else r) rows else rows @ [row])"

definition effective_rows :: "provider_status list \<Rightarrow> provider_status list" where
  "effective_rows rows = fold (\<lambda>row acc.
     if ps_provider row = Cursor \<and> ps_runtime row \<noteq> Cursor_sdk then acc else put_row (providerReadiness row) acc) rows []"

definition signed_out :: "provider_status \<Rightarrow> bool" where
  "signed_out row \<longleftrightarrow> ps_readiness row = Some Installed_signed_out \<or>
     (ps_installed row = Some True \<and> ps_readiness row = Some Needs_attention \<and> ps_auth row = Logged_out)"

definition onboardingChecklist :: "provider_status list \<Rightarrow> provider_status list \<times> provider_kind list \<times> onboarding_step" where
  "onboardingChecklist rows =
     (let providers = effective_rows rows;
          ready = map ps_provider (filter (\<lambda>r. ps_readiness r = Some Signed_in) providers)
      in (providers, ready,
        if ready \<noteq> [] then Start_thread
        else case find signed_out providers of
          Some r \<Rightarrow> Sign_in (ps_provider r)
        | None \<Rightarrow> if \<exists>r \<in> set providers. ps_refreshing r \<or> ps_installed r = None then Refresh
            else case find (\<lambda>r. ps_installed r = Some True) providers of
              Some r \<Rightarrow> Configure (ps_provider r) | None \<Rightarrow> Install Codex))"

subsection \<open>steering.ts\<close>

definition isRunningShellTool :: "item \<Rightarrow> bool" where
  "isRunningShellTool i = (case item_body i of
       Tool_call c \<Rightarrow> call_status c = T_running \<and> det_kind (call_detail c) = K_shell | _ \<Rightarrow> False)"

definition hasForegroundShellCommand :: "item option list \<Rightarrow> ident option list \<Rightarrow> bool" where
  "hasForegroundShellCommand tools background \<longleftrightarrow>
     (\<exists>t \<in> set tools. case t of None \<Rightarrow> False | Some i \<Rightarrow> isRunningShellTool i \<and> Some (item_id i) \<notin> set background)"

definition hasRunningForegroundCommand :: "'a state \<Rightarrow> bool" where
  "hasRunningForegroundCommand s =
     (case Option.bind (st_rootKey s) (get (st_agents s)) of
        None \<Rightarrow> False
      | Some r \<Rightarrow> hasForegroundShellCommand
          (filter (\<lambda>t. map_option item_agentId t = Some (a_id (ar_agent r))) (map (get (st_items s)) (okeys (liveTools (st_indexes s)))))
          (map (\<lambda>k. Option.bind (get (st_tasks s) k) task_toolCallId) (okeys (runningTasks (st_indexes s)))))"

subsection \<open>person-input.ts\<close>

definition acceptsPersonInput :: "'a state \<Rightarrow> timestamp \<Rightarrow> bool" where
  "acceptsPersonInput s t =
     (if st_queueProvider s \<noteq> 0 then False
      else case Option.bind (st_rootKey s) (get (st_agents s)) of
        None \<Rightarrow> True
      | Some rt \<Rightarrow>
          if ar_activeRun rt \<noteq> None \<or> ar_retry rt \<noteq> None \<or> ar_limited rt \<noteq> None \<or> ar_disconnectedAt rt \<noteq> None then False
          else if (case ar_wakeUntil rt of None \<Rightarrow> False | Some u \<Rightarrow> u > t) then False
          else pendingInteractionKeys s (Some (a_id (ar_agent rt))) = [])"

subsection \<open>Properties\<close>

lemma set_first_occurrences [simp]: "set (first_occurrences xs) = set xs"
  by (induction xs) auto

lemma distinct_first_occurrences [simp]: "distinct (first_occurrences xs)"
  by (induction xs) auto

text \<open>With the preference that keeps the source, a thread continues in place exactly when neither
  the provider nor the account changes; every other move forks or is refused, and it is refused exactly
  when the plain route refuses it.\<close>

theorem switch_keeps_source:
  "switchRoutePreservingSource current nxt =
     (if switchRoute current nxt = Unsupported then Unsupported
      else if sw_provider nxt = sw_provider current \<and> \<not> otherAccount current nxt then In_place else New_thread)"
  by (auto simp: switchRoutePreservingSource_def switchRoute_def Let_def)

text \<open>C35: Cleanup removes an item exactly when nothing protects it: the stores report no protection but
  uncommitted or unpushed work of a worktree the person forced, or the archive state of a thread while
  idle threads are removed; a worktree is of no open thread, or settled (and merged where the mode asks
  it); and the retention of its kind is on and has passed, unless all settled worktrees go. An item that
  is protected lists every reason once.\<close>

theorem planStorageItem_exact:
  "(si_disposition (planStorageItem c r t forced) = Remove_item \<longleftrightarrow>
     set (sc_protections c) \<subseteq>
       (if sc_kind c = SK_worktrees \<and> sc_id c \<in> forced then {SR_uncommitted, SR_unpushed} else {}) \<union>
       (if sc_kind c = SK_threads \<and> ret_idleThreads r then {SR_not_archived, SR_live_thread} else {}) \<and>
     (if settled_mode c r
      then sc_settledAt c \<noteq> None \<and> (ret_worktreeMode r = Some WM_settled \<longrightarrow> sc_mergedIntoMain c = Some True)
      else sc_kind c = SK_worktrees \<longrightarrow> sc_openThreads c \<noteq> Some True) \<and>
     (settled_mode c r \<and> ret_worktreeMode r = Some WM_all_settled \<or>
      (\<exists>days. retention_days r (sc_kind c) = Some days \<and>
         (if settled_mode c r then the (sc_settledAt c) else sc_modifiedAt c) \<le> t - days * 86400000))) \<and>
   (si_disposition (planStorageItem c r t forced) = Protect_item \<longrightarrow>
     distinct (si_reasons (planStorageItem c r t forced)) \<and>
     set (si_reasons (planStorageItem c r t forced)) = set (storage_protections c r t forced))"
proof -
  have a: "kept_protections c r forced = [] \<longleftrightarrow> set (sc_protections c) \<subseteq>
       (if sc_kind c = SK_worktrees \<and> sc_id c \<in> forced then {SR_uncommitted, SR_unpushed} else {}) \<union>
       (if sc_kind c = SK_threads \<and> ret_idleThreads r then {SR_not_archived, SR_live_thread} else {})"
    by (auto simp: kept_protections_def is_forced_def forceable_def archival_def filter_empty_conv)
  have b: "mode_protections c r = [] \<longleftrightarrow> (if settled_mode c r
      then sc_settledAt c \<noteq> None \<and> (ret_worktreeMode r = Some WM_settled \<longrightarrow> sc_mergedIntoMain c = Some True)
      else sc_kind c = SK_worktrees \<longrightarrow> sc_openThreads c \<noteq> Some True)"
    by (auto simp: mode_protections_def)
  have d: "age_protections c r t = [] \<longleftrightarrow> settled_mode c r \<and> ret_worktreeMode r = Some WM_all_settled \<or>
      (\<exists>days. retention_days r (sc_kind c) = Some days \<and>
         (if settled_mode c r then the (sc_settledAt c) else sc_modifiedAt c) \<le> t - days * 86400000)"
    if "mode_protections c r = []"
    using that [unfolded b] by (auto simp: age_protections_def not_less split: option.splits if_splits)
  have "storage_protections c r t forced = [] \<longleftrightarrow>
      kept_protections c r forced = [] \<and> mode_protections c r = [] \<and> age_protections c r t = []"
    by (simp add: storage_protections_def)
  then show ?thesis using a b d by (auto simp: planStorageItem_def Let_def)
qed

definition example_candidate :: storage_candidate where
  "example_candidate = \<lparr>sc_id = ''w'', sc_kind = SK_worktrees, sc_label = ''w'', sc_bytes = 1, sc_modifiedAt = 0,
     sc_threadIds = [], sc_fingerprint = ''f'', sc_protections = [SR_uncommitted], sc_eligibleReason = SR_expired,
     sc_branch = None, sc_removeBranch = None, sc_settledAt = None, sc_mergedIntoMain = None, sc_openThreads = None\<rparr>"

definition example_retention :: storage_retention where
  "example_retention = \<lparr>ret_threads = Some 90, ret_attachments = Some 30, ret_artifacts = Some 30, ret_logs = Some 14,
     ret_worktrees = Some 30, ret_caches = Some 7, ret_idleThreads = False, ret_worktreeMode = None\<rparr>"

theorem planStorageItem_exact_witness:
  "si_disposition (planStorageItem example_candidate example_retention (40 * 86400000) {''w''}) = Remove_item \<and>
   si_disposition (planStorageItem example_candidate example_retention (40 * 86400000) {}) \<noteq> Remove_item"
  using planStorageItem_exact [of example_candidate example_retention "40 * 86400000" "{''w''}"]
    planStorageItem_exact [of example_candidate example_retention "40 * 86400000" "{}"]
  by (simp add: example_candidate_def example_retention_def settled_mode_def retention_days_def)

text \<open>Evaluating a row again, as clients do with rows the daemon already evaluated, changes nothing.\<close>

lemma readiness_of_again: "readiness_of (row\<lparr>ps_readiness := Some (readiness_of row)\<rparr>) = readiness_of row"
  by (auto simp: readiness_of_def base_readiness_def Let_def)

text \<open>The checklist shows each provider once, and no row of the Cursor CLI.\<close>

lemma providerReadiness_fields [simp]:
  "ps_provider (providerReadiness row) = ps_provider row" "ps_runtime (providerReadiness row) = ps_runtime row"
  by (simp_all add: providerReadiness_def Let_def split: option.splits)

lemma map_provider_put_row:
  "map ps_provider (put_row row rows) =
     (if ps_provider row \<in> set (map ps_provider rows) then map ps_provider rows else map ps_provider rows @ [ps_provider row])"
proof -
  have "(\<exists>r \<in> set rows. ps_provider r = ps_provider row) \<longleftrightarrow> ps_provider row \<in> set (map ps_provider rows)"
    by (metis (no_types, lifting) image_iff image_set)
  then show ?thesis by (simp add: put_row_def)
qed

lemma set_put_row: "set (put_row row rows) \<subseteq> insert row (set rows)"
  by (auto simp: put_row_def)

lemma effective_rows_sound:
  "distinct (map ps_provider (effective_rows rows)) \<and>
   (\<forall>row \<in> set (effective_rows rows). ps_provider row = Cursor \<longrightarrow> ps_runtime row = Cursor_sdk)"
proof -
  have "distinct (map ps_provider acc) \<and> (\<forall>row \<in> set acc. ps_provider row = Cursor \<longrightarrow> ps_runtime row = Cursor_sdk) \<Longrightarrow>
    distinct (map ps_provider (fold f rows acc)) \<and>
    (\<forall>row \<in> set (fold f rows acc). ps_provider row = Cursor \<longrightarrow> ps_runtime row = Cursor_sdk)"
    if "f = (\<lambda>row acc. if ps_provider row = Cursor \<and> ps_runtime row \<noteq> Cursor_sdk then acc else put_row (providerReadiness row) acc)" for acc f
  proof (induction rows arbitrary: acc)
    case (Cons row rows)
    have "distinct (map ps_provider (f row acc)) \<and> (\<forall>r \<in> set (f row acc). ps_provider r = Cursor \<longrightarrow> ps_runtime r = Cursor_sdk)"
      using Cons.prems set_put_row [of "providerReadiness row" acc] by (auto simp: that map_provider_put_row)
    from Cons.IH [OF this] show ?case by simp
  qed simp
  from this [OF refl, of "[]"] show ?thesis by (simp add: effective_rows_def)
qed

lemma no_active_run_iff:
  assumes "id_source gen" "reachable gen w" "get (st_agents w) k = Some r"
  shows "ar_activeRun r = None \<longleftrightarrow>
    (\<forall>j run. get (st_runs w) j = Some run \<longrightarrow> run_agentId run = a_id (ar_agent r) \<longrightarrow> \<not> is_active run)"
proof -
  have inv: "tree_inv gen w" and ok: "run_ok (get (st_runs w)) (run_view w)"
    using reachable_core_inv(1) [OF assms(1,2)] by (simp_all add: core_inv_def run_inv_def runs_ok_def)
  have v: "run_view w k = Some (a_id (ar_agent r), ar_activeRun r, ar_nativeRuns r)"
    using assms(3) by (simp add: run_view_def sight_def)
  show ?thesis
  proof (cases "ar_activeRun r")
    case None
    have False if run: "get (st_runs w) j = Some run" "run_agentId run = a_id (ar_agent r)" "is_active run" for j run
    proof -
      from run_okD(3) [OF ok run(1,3)] obtain k' a ns where k': "run_view w k' = Some (a, Some j, ns)" by blast
      with run_okD(2) [OF ok k'] run have "a = a_id (ar_agent r)" by auto
      with own_ids_run_view [OF inv] v k' have "k' = k" unfolding own_ids_def by (metis fst_conv)
      with v k' None show False by simp
    qed
    with None show ?thesis by blast
  next
    case (Some i)
    with run_okD(2) [OF ok, of k] v show ?thesis by fastforce
  qed
qed

text \<open>C33: In every reachable state with a root agent, the thread takes a person's message exactly when
  the provider has nothing queued, the root is not retrying, limited, disconnected or about to wake, no
  run of the root is active and no request of the root is pending.\<close>

theorem person_input_exact:
  assumes "id_source gen" "reachable gen w" "st_rootKey w = Some k" "get (st_agents w) k = Some r"
  shows "acceptsPersonInput w t \<longleftrightarrow> st_queueProvider w = 0 \<and> ar_retry r = None \<and> ar_limited r = None \<and>
    ar_disconnectedAt r = None \<and> (\<forall>u. ar_wakeUntil r = Some u \<longrightarrow> u \<le> t) \<and>
    (\<forall>j run. get (st_runs w) j = Some run \<longrightarrow> run_agentId run = a_id (ar_agent r) \<longrightarrow> \<not> is_active run) \<and>
    (\<forall>q i. get (st_interactions w) q = Some i \<longrightarrow> int_agentId i = a_id (ar_agent r) \<longrightarrow> int_state i \<noteq> Int_pending)"
proof -
  have ok: "work_ok w" using reachable_core_inv(1) [OF assms(1,2)] by (simp add: core_inv_def)
  have "pendingInteractionKeys w (Some a) = [] \<longleftrightarrow>
      (\<forall>q i. get (st_interactions w) q = Some i \<longrightarrow> int_agentId i = a \<longrightarrow> int_state i \<noteq> Int_pending)" for a
  proof -
    have "pendingInteractionKeys w (Some a) = [] \<longleftrightarrow> (\<forall>q. \<not> (interaction_live w q \<and> owned int_agentId (st_interactions w) (Some a) q))"
      unfolding set_pendingInteractionKeys [OF ok, symmetric] by (cases "pendingInteractionKeys w (Some a)") auto
    also have "\<dots> \<longleftrightarrow> (\<forall>q i. get (st_interactions w) q = Some i \<longrightarrow> int_agentId i = a \<longrightarrow> int_state i \<noteq> Int_pending)"
      by (auto simp: interaction_live_def owned_def split: option.splits)
    finally show ?thesis .
  qed
  with assms(3,4) show ?thesis
    unfolding no_active_run_iff [OF assms(1,2,4), symmetric] by (auto simp: acceptsPersonInput_def not_less split: option.splits)
qed

text \<open>C34: In every reachable state, a steer waits exactly when the root agent has a shell call that runs
  and is not the call of a background task that still runs or may run.\<close>

theorem steer_waits_exact:
  assumes "id_source gen" "reachable gen w"
  shows "hasRunningForegroundCommand w \<longleftrightarrow>
    (\<exists>k r q i. st_rootKey w = Some k \<and> get (st_agents w) k = Some r \<and> get (st_items w) q = Some i \<and>
       isRunningShellTool i \<and> item_agentId i = a_id (ar_agent r) \<and>
       \<not> (\<exists>j task. get (st_tasks w) j = Some task \<and> task_live w j \<and> task_toolCallId task = Some (item_id i)))"
proof -
  have ok: "work_ok w" using reachable_core_inv(1) [OF assms] by (simp add: core_inv_def)
  have live: "isRunningShellTool i \<Longrightarrow> isLiveTool i" for i
    by (auto simp: isRunningShellTool_def isLiveTool.simps live_status_def split: item_body.splits)
  have t: "set (okeys (liveTools (st_indexes w))) = {k. tool_live w k}" "set (okeys (runningTasks (st_indexes w))) = {k. task_live w k}"
    using ok by (simp_all only: work_ok_def tools.consistent_keys bgs.consistent_keys)
  have b: "Some x \<in> (\<lambda>k. Option.bind (get (st_tasks w) k) task_toolCallId) ` {k. task_live w k} \<longleftrightarrow>
      (\<exists>j task. get (st_tasks w) j = Some task \<and> task_live w j \<and> task_toolCallId task = Some x)" for x
    unfolding image_iff eq_commute [of "Some x"] bind_eq_Some_conv by auto
  show ?thesis
  proof (cases "Option.bind (st_rootKey w) (get (st_agents w))")
    case None then show ?thesis by (auto simp: hasRunningForegroundCommand_def)
  next
    case (Some r)
    have "hasRunningForegroundCommand w \<longleftrightarrow> (\<exists>q i. get (st_items w) q = Some i \<and> isRunningShellTool i \<and>
        item_agentId i = a_id (ar_agent r) \<and>
        \<not> (\<exists>j task. get (st_tasks w) j = Some task \<and> task_live w j \<and> task_toolCallId task = Some (item_id i)))"
      unfolding hasRunningForegroundCommand_def Some option.case hasForegroundShellCommand_def set_filter set_map t b
      by (fastforce simp: tool_live_def live split: option.splits)
    moreover from Some obtain k where "st_rootKey w = Some k" "get (st_agents w) k = Some r" by (auto simp: bind_eq_Some_conv)
    ultimately show ?thesis by simp
  qed
qed

theorem person_input_exact_witness:
  "\<exists>r. get (st_agents example_settled) ''a'' = Some r \<and> (acceptsPersonInput example_settled 9 \<longleftrightarrow>
     ar_retry r = None \<and> (\<forall>q i. get (st_interactions example_settled) q = Some i \<longrightarrow>
       int_agentId i = a_id (ar_agent r) \<longrightarrow> int_state i \<noteq> Int_pending) \<and>
     (\<forall>j run. get (st_runs example_settled) j = Some run \<longrightarrow> run_agentId run = a_id (ar_agent r) \<longrightarrow> \<not> is_active run))"
proof -
  have a: "st_rootKey example_settled = Some ''a''" "st_queueProvider example_settled = 0"
    "map_option ar_limited (get (st_agents example_settled) ''a'') = Some None"
    "map_option ar_disconnectedAt (get (st_agents example_settled) ''a'') = Some None"
    "map_option ar_wakeUntil (get (st_agents example_settled) ''a'') = Some None" by code_simp+
  then obtain r where r: "get (st_agents example_settled) ''a'' = Some r" "ar_limited r = None" "ar_disconnectedAt r = None" "ar_wakeUntil r = None"
    by auto
  with person_input_exact [OF counter.id_source_axioms reachable_example_settled a(1) r(1), of 9] a(2) show ?thesis by auto
qed

theorem steer_waits_exact_witness: "\<not> hasRunningForegroundCommand example_active"
proof -
  have "st_items example_active = []" by code_simp
  with steer_waits_exact [OF counter.id_source_axioms reachable_example_active] show ?thesis by simp
qed

end
