(* ===== verification/Orchestrator.thy ===== *)
theory Orchestrator
  imports Protocol Core_Tree_Inv
begin

text \<open>
  The orchestrator (src/packages/orchestrator/src): runs that fan work out over lanes, each an agent
  thread in its own worktree. The state of a run and its intents (state.ts), how lanes start, fail,
  finish and are cancelled (lifecycle.ts), the facts a host reports (reduce.ts), which persisted intent
  may execute (execution-policy.ts, executor.ts) and what a restart accepts (recovery.ts).

  A lane is updated under its id. Identities come from a function of the kind and a counter and pass
  the schema of identifiers; an exception is \<^const>\<open>None\<close>. The facts, the input of a run and a
  recovered state are what the zod schemas return for them; the constraints of the schemas that the
  code relies on are \<open>fact_ok\<close> and \<open>create_ok\<close>.
\<close>

subsection \<open>Data (protocol: orchestration.ts, orchestration-execution.ts, orchestration-state.ts)\<close>

record lane_spec =
  spec_provider :: provider_kind
  spec_model :: string
  spec_access :: "string option"

datatype template_kind = Fanout | Pipeline | Race | Coordinator

record budget =
  bud_maxLanes :: nat
  bud_maxDepth :: nat
  bud_maxAttempts :: nat
  bud_durationMs :: int
  bud_tokens :: int
  bud_cost :: rat

record template =
  tpl_kind :: template_kind
  tpl_lanes :: "lane_spec list"
  tpl_command :: "string list"
  tpl_review :: "string option"
  tpl_budget :: budget

record orchestration_create =
  oc_workspaceId :: ident
  oc_prompt :: string
  oc_baseRef :: string
  oc_targetBranch :: string
  oc_template :: template

record artifact =
  art_checkpoint :: string
  art_summary :: string
  art_diffRef :: "string option"
  art_tests :: "nat \<times> nat \<times> string option"

record lane_usage =
  us_tokens :: int
  us_cost :: rat

datatype lane_phase =
    Ph_queued | Ph_starting | Ph_working | Ph_waiting | Ph_collecting | Ph_checking | Ph_joining
  | Ph_succeeded | Ph_failed | Ph_cancelling | Ph_cancelled

record lane =
  ln_id :: ident
  ln_spec :: lane_spec
  ln_prompt :: string
  ln_stage :: nat
  ln_depth :: nat
  ln_parentId :: "ident option"
  ln_threadId :: "ident option"
  ln_worktree :: "string option"
  ln_phase :: lane_phase
  ln_attempt :: nat
  ln_startedAt :: timestamp
  ln_endedAt :: "timestamp option"
  ln_threadDone :: bool
  ln_children :: int
  ln_failedChildren :: int
  ln_usage :: lane_usage
  ln_attemptUsage :: lane_usage
  ln_artifact :: "artifact option"
  ln_input :: "artifact option"
  ln_checksPassed :: "bool option"
  ln_error :: "string option"

datatype effect_type = Ef_start | Ef_check | Ef_cancel | Ef_merge

datatype effect =
    Start_effect (effect_lane: ident) (effect_attempt: nat) string lane_spec "artifact option"
  | Check_effect (effect_lane: ident) (effect_attempt: nat) artifact
  | Cancel_effect (effect_lane: ident) (effect_attempt: nat)
  | Merge_effect (effect_lane: ident) (effect_attempt: nat) string

fun op_of :: "effect \<Rightarrow> effect_type" where
  "op_of (Start_effect _ _ _ _ _) = Ef_start"
| "op_of (Check_effect _ _ _) = Ef_check"
| "op_of (Cancel_effect _ _) = Ef_cancel"
| "op_of (Merge_effect _ _ _) = Ef_merge"

record intent =
  int_effect_id :: ident
  int_effect :: effect

datatype run_status = Rs_running | Rs_waiting | Rs_cancelling | Rs_succeeded | Rs_failed | Rs_cancelled | Rs_budget_exhausted
datatype stop_reason = Stop_cancelled | Stop_budget | Stop_winner
datatype merge_status = Merge_none | Merge_pending | Merge_applied | Merge_failed

datatype orch_event =
    Lane_event ident lane_phase
  | Status_event run_status
  | Winner_event ident
  | Rejected_event string
  | Merged_event ident string

text \<open>
  The state of a run, and with it what a mutation carries: the events and intents of the current
  transition and the position of the identity source.
\<close>

record orch =
  o_id :: ident
  o_runId :: ident
  o_input :: orchestration_create
  o_startedAt :: timestamp
  o_status :: run_status
  o_stopReason :: "stop_reason option"
  o_lanes :: "lane dict"
  o_intents :: "intent dict"
  o_spawnReceipts :: "ident dict"
  o_open :: int
  o_waiting :: int
  o_succeeded :: int
  o_failed :: int
  o_usage :: lane_usage
  o_winner :: "ident option"
  o_mergeRequested :: bool
  o_mergeStatus :: merge_status
  o_safetyCheckpoint :: "string option"
  o_events :: "orch_event list"
  o_newIntents :: "intent list"
  o_seq :: nat

datatype orch_kind = Kind_orchestration | Kind_run | Kind_lane | Kind_intent

record orch_context =
  ctx_now :: timestamp
  ctx_ids :: "orch_kind \<Rightarrow> nat \<Rightarrow> ident"

datatype orch_fact =
    Fact_bound (fact_lane: ident) (fact_attempt: nat) ident string
  | Fact_thread (fact_lane: ident) (fact_attempt: nat) thread_status
  | Fact_artifact (fact_lane: ident) (fact_attempt: nat) artifact
  | Fact_checked (fact_lane: ident) (fact_attempt: nat) ident bool "bool option"
  | Fact_usage (fact_lane: ident) (fact_attempt: nat) lane_usage
  | Fact_stopped (fact_lane: ident) (fact_attempt: nat) ident
  | Fact_execution_failed (fact_lane: ident) (fact_attempt: nat) ident effect_type string
  | Fact_merged (fact_lane: ident) (fact_attempt: nat) ident string
  | Fact_spawn ident nat ident lane_spec string
  | Fact_pick ident bool
  | Fact_ack ident
  | Fact_cancel
  | Fact_tick

abbreviation kind_of :: "orch \<Rightarrow> template_kind" where
  "kind_of m \<equiv> tpl_kind (oc_template (o_input m))"

abbreviation budget_of :: "orch \<Rightarrow> budget" where
  "budget_of m \<equiv> tpl_budget (oc_template (o_input m))"

subsection \<open>Schemas\<close>

definition alnum :: "char \<Rightarrow> bool" where
  "alnum c \<longleftrightarrow> (let n = of_char c :: nat in 48 \<le> n \<and> n \<le> 57 \<or> 65 \<le> n \<and> n \<le> 90 \<or> 97 \<le> n \<and> n \<le> 122)"

definition orchestration_id :: "string \<Rightarrow> bool" where
  "orchestration_id s \<longleftrightarrow> s \<noteq> [] \<and> length s \<le> 128 \<and> alnum (hd s) \<and>
     list_all (\<lambda>c. alnum c \<or> c = CHR ''_'' \<or> c = CHR ''.'' \<or> c = CHR ''-'') s \<and>
     s \<notin> {''__proto__'', ''constructor'', ''prototype''}"

definition create_ok :: "orchestration_create \<Rightarrow> bool" where
  "create_ok input \<longleftrightarrow>
     (let t = oc_template input; b = tpl_budget t; n = length (tpl_lanes t) in
      1 \<le> n \<and> n \<le> 64 \<and> n \<le> bud_maxLanes b \<and> (tpl_kind t = Coordinator \<longrightarrow> n = 1) \<and>
      1 \<le> bud_maxLanes b \<and> bud_maxLanes b \<le> 64 \<and> bud_maxDepth b \<le> 8 \<and>
      1 \<le> bud_maxAttempts b \<and> bud_maxAttempts b \<le> 10 \<and>
      0 < bud_durationMs b \<and> 0 < bud_tokens b \<and> 0 < bud_cost b)"

definition max_safe :: int where
  "max_safe = 9007199254740991"

definition usage_ok :: "lane_usage \<Rightarrow> bool" where
  "usage_ok u \<longleftrightarrow> 0 \<le> us_tokens u \<and> us_tokens u \<le> max_safe \<and> 0 \<le> us_cost u \<and> us_cost u \<le> of_int max_safe"

fun fact_ok :: "orch_fact \<Rightarrow> bool" where
  "fact_ok (Fact_spawn p a r _ _) \<longleftrightarrow> orchestration_id p \<and> orchestration_id r \<and> 1 \<le> a \<and> a \<le> 10"
| "fact_ok (Fact_usage _ _ u) \<longleftrightarrow> usage_ok u"
| "fact_ok (Fact_execution_failed _ _ _ op _) \<longleftrightarrow> op \<noteq> Ef_cancel"
| "fact_ok _ \<longleftrightarrow> True"

subsection \<open>state.ts\<close>

fun terminal :: "lane_phase \<Rightarrow> bool" where
  "terminal p \<longleftrightarrow> p = Ph_succeeded \<or> p = Ph_failed \<or> p = Ph_cancelled"

definition lane_waits :: "lane_phase \<Rightarrow> bool" where
  "lane_waits p \<longleftrightarrow> p = Ph_waiting \<or> p = Ph_joining"

definition upd_lane :: "ident \<Rightarrow> (lane \<Rightarrow> lane) \<Rightarrow> orch \<Rightarrow> orch" where
  "upd_lane l f m = m\<lparr>o_lanes := modify (o_lanes m) l f\<rparr>"

definition orch_emit :: "orch_event \<Rightarrow> orch \<Rightarrow> orch" where
  "orch_emit e m = m\<lparr>o_events := o_events m @ [e]\<rparr>"

definition set_phase :: "ident \<Rightarrow> lane_phase \<Rightarrow> orch \<Rightarrow> orch" where
  "set_phase l p m = (case get (o_lanes m) l of
       None \<Rightarrow> m
     | Some lane \<Rightarrow>
         if ln_phase lane = p then m
         else orch_emit (Lane_event l p) (upd_lane l (\<lambda>x. x\<lparr>ln_phase := p\<rparr>) (m\<lparr>
           o_open := o_open m + of_bool (\<not> terminal p) - of_bool (\<not> terminal (ln_phase lane)),
           o_waiting := o_waiting m + of_bool (lane_waits p) - of_bool (lane_waits (ln_phase lane)),
           o_succeeded := o_succeeded m + of_bool (p = Ph_succeeded) - of_bool (ln_phase lane = Ph_succeeded),
           o_failed := o_failed m + of_bool (p = Ph_failed) - of_bool (ln_phase lane = Ph_failed)\<rparr>)))"

definition nextId :: "orch_context \<Rightarrow> orch_kind \<Rightarrow> orch \<Rightarrow> (ident \<times> orch) option" where
  "nextId ctx kind m = (let i = ctx_ids ctx kind (o_seq m) in
     if orchestration_id i then Some (i, m\<lparr>o_seq := Suc (o_seq m)\<rparr>) else None)"

definition add_intent :: "orch_context \<Rightarrow> effect \<Rightarrow> orch \<Rightarrow> orch option" where
  "add_intent ctx eff m = do {
     (i, m) \<leftarrow> nextId ctx Kind_intent m;
     let entry = \<lparr>int_effect_id = i, int_effect = eff\<rparr>;
     if has (o_intents m) i then None
     else Some (m\<lparr>o_intents := put (o_intents m) i entry, o_newIntents := o_newIntents m @ [entry]\<rparr>)
   }"

definition drop_intents :: "(effect \<Rightarrow> bool) \<Rightarrow> orch \<Rightarrow> orch" where
  "drop_intents P m = m\<lparr>o_intents := filter (\<lambda>(i, e). \<not> P (int_effect e)) (o_intents m)\<rparr>"

definition clearChecks :: "ident \<Rightarrow> orch \<Rightarrow> orch" where
  "clearChecks l m = drop_intents (\<lambda>e. effect_lane e = l \<and> op_of e = Ef_check)
     (upd_lane l (\<lambda>x. x\<lparr>ln_checksPassed := None\<rparr>) m)"

definition clearLaneIntents :: "ident \<Rightarrow> orch \<Rightarrow> orch" where
  "clearLaneIntents l = drop_intents (\<lambda>e. effect_lane e = l \<and> op_of e \<noteq> Ef_merge)"

definition begun :: "orch_context \<Rightarrow> artifact option \<Rightarrow> lane \<Rightarrow> lane" where
  "begun ctx input x = x\<lparr>ln_startedAt := (if ln_attempt x = 1 then ctx_now ctx else ln_startedAt x),
     ln_input := (case input of None \<Rightarrow> ln_input x | Some _ \<Rightarrow> input)\<rparr>"

definition start_lane :: "orch_context \<Rightarrow> ident \<Rightarrow> artifact option \<Rightarrow> orch \<Rightarrow> orch option" where
  "start_lane ctx l input m0 =
     (let m = set_phase l Ph_starting (upd_lane l (begun ctx input) m0)
      in case get (o_lanes m) l of
           None \<Rightarrow> Some m
         | Some x \<Rightarrow> add_intent ctx (Start_effect l (ln_attempt x) (ln_prompt x) (ln_spec x) (ln_input x)) m)"

definition no_usage :: lane_usage where
  "no_usage = \<lparr>us_tokens = 0, us_cost = 0\<rparr>"

definition new_lane :: "orch_context \<Rightarrow> ident \<Rightarrow> lane_spec \<Rightarrow> string \<Rightarrow> nat \<Rightarrow> lane option \<Rightarrow> lane" where
  "new_lane ctx i spec prompt stage parent =
     \<lparr>ln_id = i, ln_spec = spec, ln_prompt = prompt, ln_stage = stage,
      ln_depth = (case parent of None \<Rightarrow> 0 | Some p \<Rightarrow> Suc (ln_depth p)),
      ln_parentId = map_option ln_id parent, ln_threadId = None, ln_worktree = None, ln_phase = Ph_queued,
      ln_attempt = 1, ln_startedAt = ctx_now ctx, ln_endedAt = None, ln_threadDone = False, ln_children = 0,
      ln_failedChildren = 0, ln_usage = no_usage, ln_attemptUsage = no_usage, ln_artifact = None,
      ln_input = None, ln_checksPassed = None, ln_error = None\<rparr>"

definition addLane ::
    "orch_context \<Rightarrow> lane_spec \<Rightarrow> string \<Rightarrow> nat \<Rightarrow> ident option \<Rightarrow> orch \<Rightarrow> (ident \<times> orch) option" where
  "addLane ctx spec prompt stage parent m = do {
     (i, m) \<leftarrow> nextId ctx Kind_lane m;
     if has (o_lanes m) i then None
     else
       let m = m\<lparr>o_lanes := put (o_lanes m) i
             (new_lane ctx i spec prompt stage (Option.bind parent (get (o_lanes m)))), o_open := o_open m + 1\<rparr>
       in Some (i, case parent of None \<Rightarrow> m | Some p \<Rightarrow> upd_lane p (\<lambda>x. x\<lparr>ln_children := ln_children x + 1\<rparr>) m)
   }"

definition pipelinePrompt :: "nat \<Rightarrow> string \<Rightarrow> string" where
  "pipelinePrompt stage prompt =
     (if stage = 0 then ''Implement the task. Return a checkpoint, summary and test results.''
      else if stage = 1 then ''Review the input checkpoint and test results. Return a checkpoint and a summary of issues for the fix stage.''
      else ''Fix the issues in the input review artifact. Return a checkpoint, summary and test results.'') @
     [CHR 0x0A, CHR 0x0A] @ ''Task:'' @ [CHR 0x0A] @ prompt"

definition clock_valid :: "orch_context \<Rightarrow> bool" where
  "clock_valid ctx \<longleftrightarrow> 0 \<le> ctx_now ctx \<and> ctx_now ctx \<le> max_safe"

definition init_lane :: "orch_context \<Rightarrow> orchestration_create \<Rightarrow> nat \<times> lane_spec \<Rightarrow> orch \<Rightarrow> orch option" where
  "init_lane ctx input = (\<lambda>(stage, spec) m. do {
     (l, m) \<leftarrow> addLane ctx spec
        (if tpl_kind (oc_template input) = Pipeline then pipelinePrompt stage (oc_prompt input) else oc_prompt input)
        stage None m;
     if tpl_kind (oc_template input) \<noteq> Pipeline \<or> stage = 0 then start_lane ctx l None m else Some m
   })"

definition empty_run :: "orch_context \<Rightarrow> ident \<Rightarrow> ident \<Rightarrow> orchestration_create \<Rightarrow> nat \<Rightarrow> orch" where
  "empty_run ctx i runId input n =
     \<lparr>o_id = i, o_runId = runId, o_input = input, o_startedAt = ctx_now ctx, o_status = Rs_running,
      o_stopReason = None, o_lanes = [], o_intents = [], o_spawnReceipts = [], o_open = 0, o_waiting = 0,
      o_succeeded = 0, o_failed = 0, o_usage = no_usage, o_winner = None, o_mergeRequested = False,
      o_mergeStatus = Merge_none, o_safetyCheckpoint = None, o_events = [], o_newIntents = [], o_seq = n\<rparr>"

definition initialize :: "orch_context \<Rightarrow> ident \<Rightarrow> orchestration_create \<Rightarrow> nat \<Rightarrow> orch option" where
  "initialize ctx i input n =
     (let runId = ctx_ids ctx Kind_run n in
      if \<not> clock_valid ctx \<or> \<not> orchestration_id runId then None
      else map_option (orch_emit (Status_event Rs_running))
        (foldM (init_lane ctx input) (List.enumerate 0 (tpl_lanes (oc_template input))) (empty_run ctx i runId input (Suc n))))"

definition orch_create :: "orch_context \<Rightarrow> orchestration_create \<Rightarrow> nat \<Rightarrow> orch option" where
  "orch_create ctx input n =
     (let i = ctx_ids ctx Kind_orchestration n in
      if create_ok input \<and> orchestration_id i then initialize ctx i input (Suc n) else None)"

definition rerun :: "orch_context \<Rightarrow> orch \<Rightarrow> orch option" where
  "rerun ctx previous = (if o_open previous \<noteq> 0 \<or> o_mergeStatus previous = Merge_pending then None
     else if create_ok (o_input previous) then initialize ctx (o_id previous) (o_input previous) (o_seq previous) else None)"

definition reject :: "string \<Rightarrow> orch \<Rightarrow> orch" where
  "reject reason = orch_emit (Rejected_event reason)"

subsection \<open>lifecycle.ts\<close>

text \<open>
  \<open>finish\<close>, \<open>fail\<close>, \<open>reconcile\<close>, \<open>cancelLane\<close> and \<open>cancelAll\<close> call each other. Each of the
  others takes \<open>finish\<close> as its first argument, and \<open>finish\<close> is a recursion on fuel.
\<close>

type_synonym finisher = "ident \<Rightarrow> lane_phase \<Rightarrow> orch \<Rightarrow> orch option"

definition cancelLane :: "finisher \<Rightarrow> orch_context \<Rightarrow> ident \<Rightarrow> orch \<Rightarrow> orch option" where
  "cancelLane fin ctx l m = (case get (o_lanes m) l of
       None \<Rightarrow> Some m
     | Some x \<Rightarrow>
         if ln_phase x = Ph_cancelling then Some m
         else if ln_phase x = Ph_queued then fin l Ph_cancelled m
         else add_intent ctx (Cancel_effect l (ln_attempt x))
           (set_phase l Ph_cancelling (upd_lane l (\<lambda>x. x\<lparr>ln_threadDone := False\<rparr>) (clearLaneIntents l m))))"

definition drop_merge :: "orch \<Rightarrow> orch" where
  "drop_merge m = (if o_mergeStatus m = Merge_pending
     then (drop_intents (\<lambda>e. op_of e = Ef_merge) m)\<lparr>o_mergeStatus := Merge_none\<rparr> else m)"

definition cancel_unless :: "finisher \<Rightarrow> orch_context \<Rightarrow> ident option \<Rightarrow> ident \<Rightarrow> orch \<Rightarrow> orch option" where
  "cancel_unless fin ctx except l m = (case get (o_lanes m) l of
       None \<Rightarrow> Some m
     | Some x \<Rightarrow> if Some (ln_id x) = except \<or> terminal (ln_phase x) \<or> ln_phase x = Ph_cancelling then Some m
         else cancelLane fin ctx l m)"

definition cancelAll :: "finisher \<Rightarrow> orch_context \<Rightarrow> stop_reason \<Rightarrow> ident option \<Rightarrow> orch \<Rightarrow> orch option" where
  "cancelAll fin ctx reason except m =
     (let m = drop_merge (m\<lparr>o_stopReason := Some reason, o_mergeRequested := False\<rparr>)
      in foldM (cancel_unless fin ctx except) (okeys (o_lanes m)) m)"

definition retry_lane :: "lane \<Rightarrow> lane" where
  "retry_lane x = x\<lparr>ln_attempt := Suc (ln_attempt x), ln_threadDone := False, ln_attemptUsage := no_usage,
     ln_threadId := None, ln_worktree := None, ln_artifact := None, ln_checksPassed := None\<rparr>"

definition fail_lane :: "finisher \<Rightarrow> orch_context \<Rightarrow> ident \<Rightarrow> string \<Rightarrow> orch \<Rightarrow> orch option" where
  "fail_lane fin ctx l err m0 =
     (let m = upd_lane l (\<lambda>x. x\<lparr>ln_error := Some err\<rparr>) m0 in
      case get (o_lanes m) l of
        None \<Rightarrow> Some m
      | Some x \<Rightarrow>
          if ln_children x > 0
          then Some (set_phase l Ph_joining (upd_lane l (\<lambda>x. x\<lparr>ln_checksPassed := Some False, ln_threadDone := True\<rparr>) m))
          else if o_stopReason m = None \<and> ln_failedChildren x = 0 \<and> ln_attempt x < bud_maxAttempts (budget_of m)
          then start_lane ctx l None (upd_lane l retry_lane (clearLaneIntents l m))
          else fin l Ph_failed m)"

definition reconcile_lane :: "finisher \<Rightarrow> orch_context \<Rightarrow> ident \<Rightarrow> orch \<Rightarrow> orch option" where
  "reconcile_lane fin ctx l m = (case get (o_lanes m) l of
       None \<Rightarrow> Some m
     | Some x \<Rightarrow>
         if terminal (ln_phase x) \<or> ln_phase x = Ph_cancelling \<or> \<not> ln_threadDone x then Some m
         else if ln_children x > 0 then Some (set_phase l Ph_joining m)
         else if ln_failedChildren x > 0 \<or> ln_checksPassed x = Some False
         then fail_lane fin ctx l (case ln_error x of None \<Rightarrow> ''descendant_failed'' | Some e \<Rightarrow> e) m
         else case ln_artifact x of
           None \<Rightarrow> Some (set_phase l Ph_collecting m)
         | Some a \<Rightarrow>
             if ln_checksPassed x = Some True then fin l Ph_succeeded m
             else if ln_phase x \<noteq> Ph_checking
             then add_intent ctx (Check_effect l (ln_attempt x) a) (set_phase l Ph_checking m)
             else Some m)"

text \<open>The lane and the counts of its parent at the end of a lane; a missing parent throws.\<close>

definition close_lane :: "orch_context \<Rightarrow> ident \<Rightarrow> lane_phase \<Rightarrow> lane \<Rightarrow> orch \<Rightarrow> orch option" where
  "close_lane ctx l outcome x m =
     (let m = upd_lane l (\<lambda>y. y\<lparr>ln_endedAt := Some (ctx_now ctx)\<rparr>) (set_phase l outcome (clearLaneIntents l m)) in
      case ln_parentId x of
        None \<Rightarrow> Some m
      | Some p \<Rightarrow> if has (o_lanes m) p
          then Some (upd_lane p (\<lambda>y. y\<lparr>ln_children := ln_children y - 1,
            ln_failedChildren := ln_failedChildren y + of_bool (outcome \<noteq> Ph_succeeded)\<rparr>) m)
          else None)"

definition settle_parent :: "finisher \<Rightarrow> orch_context \<Rightarrow> ident option \<Rightarrow> orch \<Rightarrow> orch option" where
  "settle_parent fin ctx parent m = (case parent of
       None \<Rightarrow> Some m
     | Some p \<Rightarrow> (case get (o_lanes m) p of
           None \<Rightarrow> None
         | Some y \<Rightarrow> if ln_phase y = Ph_cancelling \<and> ln_threadDone y \<and> ln_children y = 0 then fin p Ph_cancelled m
             else reconcile_lane fin ctx p m))"

definition declare_winner :: "finisher \<Rightarrow> orch_context \<Rightarrow> ident \<Rightarrow> lane_phase \<Rightarrow> orch \<Rightarrow> orch option" where
  "declare_winner fin ctx l outcome m =
     (if outcome = Ph_succeeded \<and> kind_of m = Race \<and> o_winner m = None
      then cancelAll fin ctx Stop_winner (Some l) (orch_emit (Winner_event l) (m\<lparr>o_winner := Some l\<rparr>))
      else Some m)"

definition lane_at_stage :: "orch \<Rightarrow> nat \<Rightarrow> ident option" where
  "lane_at_stage m n = find (\<lambda>k. map_option ln_stage (get (o_lanes m) k) = Some n) (okeys (o_lanes m))"

definition advance_pipeline :: "finisher \<Rightarrow> orch_context \<Rightarrow> ident \<Rightarrow> lane_phase \<Rightarrow> orch \<Rightarrow> orch option" where
  "advance_pipeline fin ctx l outcome m =
     (if kind_of m = Pipeline \<and> o_stopReason m = None
      then if outcome = Ph_failed then cancelAll fin ctx Stop_cancelled None m
        else if outcome = Ph_succeeded
        then (case get (o_lanes m) l of None \<Rightarrow> Some m
            | Some x \<Rightarrow> (case lane_at_stage m (Suc (ln_stage x)) of None \<Rightarrow> Some m
                | Some k \<Rightarrow> if map_option ln_phase (get (o_lanes m) k) = Some Ph_queued
                    then start_lane ctx k (ln_artifact x) m else Some m))
        else Some m
      else Some m)"

primrec finish_lane :: "nat \<Rightarrow> orch_context \<Rightarrow> finisher" where
  "finish_lane 0 ctx l outcome m = None"
| "finish_lane (Suc n) ctx l outcome m = (case get (o_lanes m) l of
       None \<Rightarrow> Some m
     | Some x \<Rightarrow>
         if terminal (ln_phase x) then Some m
         else do {
           m \<leftarrow> close_lane ctx l outcome x m;
           m \<leftarrow> settle_parent (finish_lane n ctx) ctx (ln_parentId x) m;
           m \<leftarrow> declare_winner (finish_lane n ctx) ctx l outcome m;
           advance_pipeline (finish_lane n ctx) ctx l outcome m
         })"

text \<open>
  The calls follow the parents of a lane and, at the end, the queued stages of a pipeline: the depth of
  the run and two more calls are enough.
\<close>

definition finish_fuel :: "orch \<Rightarrow> nat" where
  "finish_fuel m = bud_maxDepth (budget_of m) + 2"

definition runStatus :: "orch \<Rightarrow> run_status" where
  "runStatus s =
     (if o_open s > 0
      then if o_stopReason s \<noteq> None then Rs_cancelling else if o_waiting s > 0 then Rs_waiting else Rs_running
      else if o_mergeStatus s = Merge_pending then Rs_running
      else if o_mergeStatus s = Merge_failed then Rs_failed
      else if o_stopReason s = Some Stop_budget then Rs_budget_exhausted
      else if o_stopReason s = Some Stop_winner \<and> o_winner s = None
      then if o_failed s > 0 then Rs_failed else Rs_cancelled
      else if o_stopReason s = Some Stop_cancelled then if o_failed s > 0 then Rs_failed else Rs_cancelled
      else if o_winner s \<noteq> None \<or> (o_succeeded s > 0 \<and> kind_of s = Fanout) \<or> (o_failed s = 0 \<and> o_succeeded s > 0)
      then Rs_succeeded else Rs_failed)"

definition request_merge :: "orch_context \<Rightarrow> orch \<Rightarrow> orch option" where
  "request_merge ctx m =
     (if o_open m = 0 \<and> o_mergeRequested m \<and> o_mergeStatus m = Merge_none
      then (case Option.bind (o_winner m) (get (o_lanes m)) of
          None \<Rightarrow> Some m
        | Some x \<Rightarrow> (case ln_artifact x of
            None \<Rightarrow> Some m
          | Some a \<Rightarrow> add_intent ctx (Merge_effect (ln_id x) (ln_attempt x) (art_checkpoint a)) (m\<lparr>o_mergeStatus := Merge_pending\<rparr>)))
      else Some m)"

definition updateStatus :: "orch_context \<Rightarrow> orch \<Rightarrow> orch option" where
  "updateStatus ctx m = do {
     m \<leftarrow> request_merge ctx m;
     let s = runStatus m;
     Some (if s \<noteq> o_status m then orch_emit (Status_event s) (m\<lparr>o_status := s\<rparr>) else m)
   }"

subsection \<open>reduce.ts\<close>

abbreviation finish_now :: "orch_context \<Rightarrow> orch \<Rightarrow> finisher" where
  "finish_now ctx m \<equiv> finish_lane (finish_fuel m) ctx"

definition overBudget :: "orch \<Rightarrow> timestamp \<Rightarrow> bool" where
  "overBudget s t \<longleftrightarrow> t - o_startedAt s \<ge> bud_durationMs (budget_of s) \<or>
     us_tokens (o_usage s) \<ge> bud_tokens (budget_of s) \<or> us_cost (o_usage s) \<ge> bud_cost (budget_of s)"

definition invalidate :: "ident \<Rightarrow> orch \<Rightarrow> orch" where
  "invalidate l m = clearChecks l (upd_lane l (\<lambda>x. x\<lparr>ln_threadDone := False, ln_artifact := None\<rparr>) m)"

definition unpick :: "ident \<Rightarrow> orch \<Rightarrow> orch" where
  "unpick l m = (if o_winner m = Some l then (drop_merge (m\<lparr>o_mergeRequested := False\<rparr>))\<lparr>o_winner := None\<rparr> else m)"

text \<open>What a revived child does to its parent, and the stop it may meet.\<close>

definition adopt_child :: "ident \<Rightarrow> bool \<Rightarrow> orch \<Rightarrow> orch" where
  "adopt_child p wasUnsuccessful m =
     (let m = clearChecks p (upd_lane p (\<lambda>y. y\<lparr>ln_children := ln_children y + 1\<rparr>) m);
          m = upd_lane p (\<lambda>y. y\<lparr>ln_failedChildren := ln_failedChildren y - of_bool wasUnsuccessful\<rparr>) m
      in if map_option ln_phase (get (o_lanes m) p) \<noteq> Some Ph_cancelling then set_phase p Ph_joining m else m)"

definition meet_stop :: "orch_context \<Rightarrow> ident \<Rightarrow> orch \<Rightarrow> orch option" where
  "meet_stop ctx l m =
     (if o_stopReason m \<noteq> None then cancelLane (finish_now ctx m) ctx l m
      else if overBudget m (ctx_now ctx) then cancelAll (finish_now ctx m) ctx Stop_budget None m
      else Some m)"

primrec reopen :: "nat \<Rightarrow> orch_context \<Rightarrow> ident \<Rightarrow> orch \<Rightarrow> orch option" where
  "reopen 0 ctx l m = None"
| "reopen (Suc n) ctx l m = (case get (o_lanes m) l of
       None \<Rightarrow> Some m
     | Some x \<Rightarrow>
         if \<not> terminal (ln_phase x) then Some m
         else do {
           let m = unpick l (upd_lane l (\<lambda>y. y\<lparr>ln_endedAt := None\<rparr>) (set_phase l Ph_working m));
           m \<leftarrow> (case ln_parentId x of
               None \<Rightarrow> Some m
             | Some p \<Rightarrow> if has (o_lanes m) p
                 then map_option (adopt_child p (ln_phase x \<noteq> Ph_succeeded)) (reopen n ctx p m)
                 else Some m);
           meet_stop ctx l m
         })"

definition reopen_fuel :: "orch \<Rightarrow> nat" where
  "reopen_fuel m = bud_maxDepth (budget_of m) + 1"

definition receipt :: "ident \<Rightarrow> nat \<Rightarrow> ident \<Rightarrow> string" where
  "receipt parent attempt request = parent @ '':'' @ decimal attempt @ '':'' @ request"

definition step_spawn :: "orch_context \<Rightarrow> ident \<Rightarrow> nat \<Rightarrow> ident \<Rightarrow> lane_spec \<Rightarrow> string \<Rightarrow> orch \<Rightarrow> orch option" where
  "step_spawn ctx p attempt request spec prompt m =
     (if has (o_spawnReceipts m) (receipt p attempt request) then Some m
      else case get (o_lanes m) p of
        None \<Rightarrow> Some (reject ''spawn_not_allowed'' m)
      | Some y \<Rightarrow>
          if kind_of m \<noteq> Coordinator \<or> ln_attempt y \<noteq> attempt \<or> terminal (ln_phase y) \<or>
            ln_phase y = Ph_cancelling \<or> o_stopReason m \<noteq> None
          then Some (reject ''spawn_not_allowed'' m)
          else if ln_depth y \<ge> bud_maxDepth (budget_of m) then Some (reject ''depth_limit'' m)
          else if length (okeys (o_lanes m)) \<ge> bud_maxLanes (budget_of m) then Some (reject ''lane_limit'' m)
          else do {
            (c, m) \<leftarrow> addLane ctx spec prompt 0 (Some p) m;
            m \<leftarrow> start_lane ctx c None (m\<lparr>o_spawnReceipts := put (o_spawnReceipts m) (receipt p attempt request) c\<rparr>);
            Some (if ln_threadDone y then set_phase p Ph_joining (clearChecks p m) else m)
          })"

definition step_pick :: "orch_context \<Rightarrow> ident \<Rightarrow> bool \<Rightarrow> orch \<Rightarrow> orch option" where
  "step_pick ctx l merge m =
     (case get (o_lanes m) l of
        None \<Rightarrow> Some (reject ''winner_not_available'' m)
      | Some x \<Rightarrow>
          if o_stopReason m = Some Stop_budget \<or> o_stopReason m = Some Stop_cancelled \<or> ln_phase x \<noteq> Ph_succeeded \<or>
            ln_artifact x = None \<or> o_mergeStatus m = Merge_pending \<or> o_mergeStatus m = Merge_applied
          then Some (reject ''winner_not_available'' m)
          else map_option (\<lambda>m. m\<lparr>o_mergeRequested := merge\<rparr>)
            (cancelAll (finish_now ctx m) ctx Stop_winner (Some l)
              (orch_emit (Winner_event l) (m\<lparr>o_winner := Some l,
                 o_mergeStatus := (if o_mergeStatus m = Merge_failed then Merge_none else o_mergeStatus m)\<rparr>))))"

definition charge :: "lane_usage \<Rightarrow> lane_usage \<Rightarrow> lane_usage \<Rightarrow> lane_usage" where
  "charge previous reported tot =
     \<lparr>us_tokens = min max_safe (us_tokens tot + max (us_tokens previous) (us_tokens reported) - us_tokens previous),
      us_cost = min (of_int max_safe) (us_cost tot + max (us_cost previous) (us_cost reported) - us_cost previous)\<rparr>"

definition charge_lane :: "ident \<Rightarrow> lane \<Rightarrow> lane_usage \<Rightarrow> orch \<Rightarrow> orch" where
  "charge_lane l x u m =
     (let prev = ln_attemptUsage x in
      upd_lane l (\<lambda>y. y\<lparr>ln_usage := charge prev u (ln_usage y),
         ln_attemptUsage := \<lparr>us_tokens = max (us_tokens prev) (us_tokens u), us_cost = max (us_cost prev) (us_cost u)\<rparr>\<rparr>)
        (m\<lparr>o_usage := charge prev u (o_usage m)\<rparr>))"

definition step_usage :: "orch_context \<Rightarrow> ident \<Rightarrow> lane \<Rightarrow> lane_usage \<Rightarrow> orch \<Rightarrow> orch option" where
  "step_usage ctx l x u m0 =
     (let m = charge_lane l x u m0 in
      if (o_stopReason m = None \<or> o_stopReason m = Some Stop_winner) \<and> overBudget m (ctx_now ctx)
      then cancelAll (finish_now ctx m) ctx Stop_budget None m else Some m)"

definition step_bound :: "ident \<Rightarrow> lane \<Rightarrow> ident \<Rightarrow> string \<Rightarrow> orch \<Rightarrow> orch" where
  "step_bound l x thread worktree m =
     (if ln_threadId x \<noteq> None \<and> ln_threadId x \<noteq> Some thread \<or> ln_worktree x \<noteq> None \<and> ln_worktree x \<noteq> Some worktree
      then reject ''binding_conflict'' m
      else let m = upd_lane l (\<lambda>y. y\<lparr>ln_threadId := Some thread, ln_worktree := Some worktree\<rparr>) m
        in if ln_phase x = Ph_starting then set_phase l Ph_working m else m)"

definition intent_is :: "orch \<Rightarrow> ident \<Rightarrow> effect_type \<Rightarrow> bool" where
  "intent_is m i op \<longleftrightarrow> map_option (\<lambda>e. op_of (int_effect e)) (get (o_intents m) i) = Some op"

definition intent_for :: "orch \<Rightarrow> ident \<Rightarrow> ident \<Rightarrow> bool" where
  "intent_for m i l \<longleftrightarrow> map_option (\<lambda>e. effect_lane (int_effect e)) (get (o_intents m) i) = Some l"

definition del_intent :: "ident \<Rightarrow> orch \<Rightarrow> orch" where
  "del_intent i m = m\<lparr>o_intents := del (o_intents m) i\<rparr>"

fun thread_waits :: "thread_status \<Rightarrow> bool" where
  "thread_waits (Needs_you _) = True"
| "thread_waits (Waiting _ _) = True"
| "thread_waits (Limited _) = True"
| "thread_waits Thread_unresponsive = True"
| "thread_waits _ = False"

definition step_thread :: "orch_context \<Rightarrow> ident \<Rightarrow> lane \<Rightarrow> thread_status \<Rightarrow> orch \<Rightarrow> orch option" where
  "step_thread ctx l x status m = do {
     m \<leftarrow> (if status \<noteq> Done \<and> terminal (ln_phase x) \<and> (status \<noteq> Thread_failed \<or> ln_phase x = Ph_succeeded)
          then reopen (reopen_fuel m) ctx l m else Some m);
     case get (o_lanes m) l of
       None \<Rightarrow> Some m
     | Some y \<Rightarrow>
         if terminal (ln_phase y) \<or> ln_phase y = Ph_queued \<or> ln_phase y = Ph_cancelling then Some m
         else if status = Thread_failed then fail_lane (finish_now ctx m) ctx l ''thread_failed'' m
         else if status = Done
         then reconcile_lane (finish_now ctx m) ctx l (upd_lane l (\<lambda>z. z\<lparr>ln_threadDone := True\<rparr>) m)
         else Some (set_phase l (if thread_waits status then Ph_waiting else Ph_working)
            (if ln_threadDone y then invalidate l m else m))
   }"

definition step_checked :: "orch_context \<Rightarrow> ident \<Rightarrow> ident \<Rightarrow> bool \<Rightarrow> bool option \<Rightarrow> orch \<Rightarrow> orch option" where
  "step_checked ctx l i commandPassed reviewPassed m =
     (let review = tpl_review (oc_template (o_input m));
          passed = commandPassed \<and> (review = None \<or> review = Some [] \<or> reviewPassed = Some True);
          m = upd_lane l (\<lambda>y. y\<lparr>ln_checksPassed := Some passed\<rparr>) (del_intent i m)
      in if \<not> passed then fail_lane (finish_now ctx m) ctx l ''check_failed'' m
         else reconcile_lane (finish_now ctx m) ctx l m)"

definition step_lane :: "orch_context \<Rightarrow> orch_fact \<Rightarrow> ident \<Rightarrow> lane \<Rightarrow> orch \<Rightarrow> orch option" where
  "step_lane ctx f l x m = (case f of
       Fact_usage _ _ u \<Rightarrow> step_usage ctx l x u m
     | Fact_bound _ _ thread worktree \<Rightarrow> Some (if ln_phase x \<noteq> Ph_queued then step_bound l x thread worktree m else m)
     | Fact_stopped _ _ i \<Rightarrow>
         if ln_phase x = Ph_cancelling \<and> intent_is m i Ef_cancel \<and> intent_for m i l
         then if ln_children x = 0 then finish_now ctx m l Ph_cancelled m
           else Some (upd_lane l (\<lambda>y. y\<lparr>ln_threadDone := True\<rparr>) m)
         else Some m
     | Fact_thread _ _ status \<Rightarrow> step_thread ctx l x status m
     | Fact_artifact _ _ a \<Rightarrow>
         if \<not> terminal (ln_phase x) \<and> ln_phase x \<noteq> Ph_cancelling \<and> ln_phase x \<noteq> Ph_checking
         then reconcile_lane (finish_now ctx m) ctx l (upd_lane l (\<lambda>y. y\<lparr>ln_artifact := Some a\<rparr>) m)
         else Some m
     | Fact_checked _ _ i c r \<Rightarrow>
         if ln_phase x = Ph_checking \<and> intent_is m i Ef_check \<and> intent_for m i l then step_checked ctx l i c r m else Some m
     | Fact_execution_failed _ _ i op err \<Rightarrow>
         if intent_for m i l \<and> intent_is m i op
         then let m = del_intent i m in
           if op = Ef_merge then Some (m\<lparr>o_mergeStatus := Merge_failed\<rparr>)
           else if ln_phase x \<noteq> Ph_cancelling \<and> \<not> terminal (ln_phase x) then fail_lane (finish_now ctx m) ctx l err m
           else Some m
         else Some m
     | Fact_merged _ _ i cp \<Rightarrow>
         if o_mergeStatus m = Merge_pending \<and> o_winner m = Some l \<and> intent_is m i Ef_merge
         then Some (orch_emit (Merged_event l cp)
           ((del_intent i m)\<lparr>o_mergeStatus := Merge_applied, o_safetyCheckpoint := Some cp\<rparr>))
         else Some m
     | _ \<Rightarrow> Some m)"

definition step_orch :: "orch_context \<Rightarrow> orch_fact \<Rightarrow> orch \<Rightarrow> orch option" where
  "step_orch ctx f m = (case f of
       Fact_ack i \<Rightarrow> Some (del_intent i m)
     | Fact_cancel \<Rightarrow> if o_open m > 0 \<or> o_mergeStatus m = Merge_pending
         then cancelAll (finish_now ctx m) ctx Stop_cancelled None m else Some m
     | Fact_spawn p a r spec prompt \<Rightarrow> step_spawn ctx p a r spec prompt m
     | Fact_pick l merge \<Rightarrow> step_pick ctx l merge m
     | Fact_tick \<Rightarrow> Some m
     | _ \<Rightarrow> (case get (o_lanes m) (fact_lane f) of
           None \<Rightarrow> Some m
         | Some x \<Rightarrow> if ln_attempt x \<noteq> fact_attempt f then Some m else step_lane ctx f (fact_lane f) x m))"

definition enforce_budget :: "orch_context \<Rightarrow> orch \<Rightarrow> orch option" where
  "enforce_budget ctx m =
     (if (o_stopReason m = None \<or> o_stopReason m = Some Stop_winner) \<and>
        (o_open m > 0 \<or> o_mergeStatus m = Merge_pending) \<and> overBudget m (ctx_now ctx)
      then cancelAll (finish_now ctx m) ctx Stop_budget None m else Some m)"

definition orch_apply :: "orch_context \<Rightarrow> orch_fact \<Rightarrow> orch \<Rightarrow> orch option" where
  "orch_apply ctx f m =
     (if \<not> clock_valid ctx \<or> \<not> fact_ok f then None
      else do {
        m \<leftarrow> enforce_budget ctx (m\<lparr>o_events := [], o_newIntents := []\<rparr>);
        m \<leftarrow> step_orch ctx f m;
        updateStatus ctx m
      })"

subsection \<open>execution-policy.ts, executor.ts, spawn.ts, delegation.ts\<close>

definition running_phase :: "lane_phase \<Rightarrow> bool" where
  "running_phase p \<longleftrightarrow> p \<in> {Ph_starting, Ph_working, Ph_waiting, Ph_collecting, Ph_checking, Ph_joining}"

fun canExecute :: "orch \<Rightarrow> lane \<Rightarrow> effect \<Rightarrow> bool" where
  "canExecute s x (Start_effect _ _ _ _ _) \<longleftrightarrow> o_stopReason s = None \<and> running_phase (ln_phase x)"
| "canExecute s x (Check_effect _ _ a) \<longleftrightarrow> o_stopReason s = None \<and> ln_phase x = Ph_checking \<and> ln_threadDone x \<and>
     ln_children x = 0 \<and> ln_checksPassed x = None \<and> map_option art_checkpoint (ln_artifact x) = Some (art_checkpoint a)"
| "canExecute s x (Cancel_effect _ _) \<longleftrightarrow> o_stopReason s \<noteq> None \<and> ln_phase x = Ph_cancelling"
| "canExecute s x (Merge_effect _ _ cp) \<longleftrightarrow> o_stopReason s = Some Stop_winner \<and> o_mergeRequested s \<and>
     o_mergeStatus s = Merge_pending \<and> o_winner s = Some (ln_id x) \<and> o_open s = 0 \<and> ln_phase x = Ph_succeeded \<and>
     map_option art_checkpoint (ln_artifact x) = Some cp"

text \<open>
  The engine's operations are a parameter: what each returns for an intent, or \<^const>\<open>None\<close> where it
  throws.
\<close>

record executor =
  ex_start :: "intent \<Rightarrow> lane \<Rightarrow> (ident \<times> string) option"
  ex_check :: "intent \<Rightarrow> lane \<Rightarrow> (bool \<times> bool option) option"
  ex_cancel :: "intent \<Rightarrow> lane \<Rightarrow> bool"
  ex_merge :: "intent \<Rightarrow> lane \<Rightarrow> string option"

definition execute :: "orch \<Rightarrow> ident \<Rightarrow> executor \<Rightarrow> orch_fact list option" where
  "execute s i ex = (case get (o_intents s) i of
       None \<Rightarrow> Some []
     | Some entry \<Rightarrow> (let eff = int_effect entry; l = effect_lane eff; a = effect_attempt eff in
         case get (o_lanes s) l of
           None \<Rightarrow> Some []
         | Some x \<Rightarrow>
             if ln_attempt x \<noteq> a \<or> \<not> canExecute s x eff then Some []
             else map_option (\<lambda>f. [f, Fact_ack i]) (case op_of eff of
                 Ef_start \<Rightarrow> map_option (\<lambda>(thread, worktree). Fact_bound (ln_id x) a thread worktree) (ex_start ex entry x)
               | Ef_check \<Rightarrow> map_option (\<lambda>(c, r). Fact_checked (ln_id x) a i c r) (ex_check ex entry x)
               | Ef_cancel \<Rightarrow> if ex_cancel ex entry x then Some (Fact_stopped (ln_id x) a i) else None
               | Ef_merge \<Rightarrow> map_option (Fact_merged (ln_id x) a i) (ex_merge ex entry x))))"

definition spawnAgent ::
    "orch_context \<Rightarrow> ident \<times> nat \<Rightarrow> ident \<Rightarrow> lane_spec \<Rightarrow> string \<Rightarrow> orch \<Rightarrow> (orch \<times> ident option) option" where
  "spawnAgent ctx caller request spec prompt m = (case orch_apply ctx (Fact_spawn (fst caller) (snd caller) request spec prompt) m of
       None \<Rightarrow> None
     | Some m' \<Rightarrow> Some (m', get (o_spawnReceipts m') (receipt (fst caller) (snd caller) request)))"

definition admitDelegation :: "nat \<Rightarrow> nat \<Rightarrow> string option" where
  "admitDelegation depth maxDepth = (if depth \<ge> maxDepth then Some ''depth_limit'' else None)"

text \<open>No limit leaves every slot free: \<^const>\<open>None\<close> is Infinity.\<close>

definition launchSlots :: "int \<Rightarrow> int option \<Rightarrow> int option" where
  "launchSlots running limit = map_option (\<lambda>n. max 0 (n - running)) limit"

subsection \<open>recovery.ts\<close>

fun split_on :: "char \<Rightarrow> string \<Rightarrow> string list" where
  "split_on c [] = [[]]"
| "split_on c (x # xs) = (if x = c then [] # split_on c xs else case split_on c xs of p # ps \<Rightarrow> (x # p) # ps | [] \<Rightarrow> [[x]])"

definition lane_count :: "(lane \<Rightarrow> bool) \<Rightarrow> orch \<Rightarrow> int" where
  "lane_count P s = int (length (filter P (ovalues (o_lanes s))))"

definition open_child :: "ident \<Rightarrow> lane \<Rightarrow> bool" where
  "open_child p x \<longleftrightarrow> ln_parentId x = Some p \<and> \<not> terminal (ln_phase x)"

definition failed_child :: "ident \<Rightarrow> lane \<Rightarrow> bool" where
  "failed_child p x \<longleftrightarrow> ln_parentId x = Some p \<and> terminal (ln_phase x) \<and> ln_phase x \<noteq> Ph_succeeded"

definition lane_tree_ok :: "orch \<Rightarrow> key \<times> lane \<Rightarrow> bool" where
  "lane_tree_ok s = (\<lambda>(k, x). k = ln_id x \<and> ln_depth x \<le> bud_maxDepth (budget_of s) \<and>
     (case ln_parentId x of None \<Rightarrow> ln_depth x = 0
      | Some p \<Rightarrow> (case get (o_lanes s) p of None \<Rightarrow> False | Some y \<Rightarrow> Suc (ln_depth y) = ln_depth x)))"

definition lane_state_ok :: "orch \<Rightarrow> lane \<Rightarrow> bool" where
  "lane_state_ok s x \<longleftrightarrow>
     ln_children x = lane_count (open_child (ln_id x)) s \<and> ln_failedChildren x = lane_count (failed_child (ln_id x)) s \<and>
     (o_stopReason s \<noteq> None \<longrightarrow> terminal (ln_phase x) \<or> ln_phase x = Ph_cancelling) \<and>
     (ln_threadId x = None \<longleftrightarrow> ln_worktree x = None) \<and>
     (terminal (ln_phase x) \<longrightarrow> ln_children x \<le> 0) \<and>
     (ln_phase x = Ph_succeeded \<longrightarrow> ln_threadDone x \<and> ln_artifact x \<noteq> None \<and> ln_checksPassed x = Some True)"

text \<open>
  The number in a receipt is canonical and at most the attempt of the parent: it is the decimal form of
  one of the attempts.
\<close>

definition receipt_ok :: "orch \<Rightarrow> key \<times> ident \<Rightarrow> bool" where
  "receipt_ok s = (\<lambda>(k, c). kind_of s = Coordinator \<and> (case split_on CHR '':'' k of
       [parentId, attemptText, requestId] \<Rightarrow> orchestration_id parentId \<and> orchestration_id requestId \<and>
         (case (get (o_lanes s) parentId, get (o_lanes s) c) of
            (Some y, Some x) \<Rightarrow> list_ex (\<lambda>n. decimal n = attemptText) [1..<Suc (ln_attempt y)] \<and> ln_parentId x = Some parentId
          | _ \<Rightarrow> False)
     | _ \<Rightarrow> False))"

definition receipts_ok :: "orch \<Rightarrow> bool" where
  "receipts_ok s \<longleftrightarrow> list_all (receipt_ok s) (oentries (o_spawnReceipts s)) \<and> distinct (map snd (oentries (o_spawnReceipts s))) \<and>
     list_all (\<lambda>x. ln_parentId x \<noteq> None \<longrightarrow> ln_id x \<in> set (map snd (oentries (o_spawnReceipts s)))) (ovalues (o_lanes s))"

definition operation :: "key \<times> intent \<Rightarrow> ident \<times> effect_type" where
  "operation e = (effect_lane (int_effect (snd e)), op_of (int_effect (snd e)))"

definition operations :: "orch \<Rightarrow> (ident \<times> effect_type) list" where
  "operations s = map operation (oentries (o_intents s))"

definition intent_ok :: "orch \<Rightarrow> key \<times> intent \<Rightarrow> bool" where
  "intent_ok s = (\<lambda>(k, e). k = int_effect_id e \<and> (case get (o_lanes s) (effect_lane (int_effect e)) of
       None \<Rightarrow> False
     | Some x \<Rightarrow> ln_attempt x = effect_attempt (int_effect e) \<and> canExecute s x (int_effect e)))"

definition required_intent :: "lane \<Rightarrow> effect_type option" where
  "required_intent x = (if ln_phase x = Ph_starting then Some Ef_start else if ln_phase x = Ph_checking then Some Ef_check
     else if ln_phase x = Ph_cancelling \<and> \<not> ln_threadDone x then Some Ef_cancel else None)"

definition counters_ok :: "orch \<Rightarrow> bool" where
  "counters_ok s \<longleftrightarrow> o_open s = lane_count (\<lambda>x. \<not> terminal (ln_phase x)) s \<and>
     o_waiting s = lane_count (\<lambda>x. lane_waits (ln_phase x)) s \<and>
     o_succeeded s = lane_count (\<lambda>x. ln_phase x = Ph_succeeded) s \<and> o_failed s = lane_count (\<lambda>x. ln_phase x = Ph_failed) s"

definition recover :: "orch \<Rightarrow> (orch \<times> intent list) option" where
  "recover s =
     (if (let n = length (ovalues (o_lanes s)) in n \<le> bud_maxLanes (budget_of s) \<and> n \<noteq> 0) \<and>
        list_all (lane_tree_ok s) (oentries (o_lanes s)) \<and> list_all (lane_state_ok s) (ovalues (o_lanes s)) \<and>
        receipts_ok s \<and> counters_ok s \<and> o_status s = runStatus s \<and>
        (case o_winner s of None \<Rightarrow> True | Some w \<Rightarrow> map_option ln_phase (get (o_lanes s) w) = Some Ph_succeeded) \<and>
        list_all (intent_ok s) (oentries (o_intents s)) \<and> distinct (operations s) \<and>
        list_all (\<lambda>x. case required_intent x of None \<Rightarrow> True | Some op \<Rightarrow> (ln_id x, op) \<in> set (operations s)) (ovalues (o_lanes s)) \<and>
        (o_mergeStatus s = Merge_pending \<longrightarrow>
           (case o_winner s of None \<Rightarrow> False | Some w \<Rightarrow> (w, Ef_merge) \<in> set (operations s)))
      then Some (s, ovalues (o_intents s)) else None)"

end
