(* ===== verification/Orchestrator_Frame.thy ===== *)
theory Orchestrator_Frame
  imports Orchestrator
begin

text \<open>
  What every operation of the orchestrator keeps, whatever the state: the input of the run, the lanes
  with their place in the tree, the receipts, and the agreement of the lifecycle counters with the
  phases of the lanes. Then the effect of the elementary operations on the fields of the state.
\<close>

subsection \<open>Sums over a dictionary\<close>

definition lane_total :: "(lane \<Rightarrow> int) \<Rightarrow> lane dict \<Rightarrow> int" where
  "lane_total f d = (\<Sum>p \<leftarrow> d. f (snd p))"

lemma lane_total_simps [simp]: "lane_total f [] = 0" "lane_total f (p # d) = f (snd p) + lane_total f d"
  by (simp_all add: lane_total_def)

lemma lane_total_put_old:
  "get d k = Some x \<Longrightarrow> lane_total f (put d k y) = lane_total f d - f x + f y"
  by (induction d k y rule: put.induct) (auto split: if_splits)

lemma lane_total_put_new: "get d k = None \<Longrightarrow> lane_total f (put d k y) = lane_total f d + f y"
  by (induction d k y rule: put.induct) (auto split: if_splits)

lemma lane_total_modify:
  "lane_total f (modify d k g) = lane_total f d + (case get d k of None \<Rightarrow> 0 | Some x \<Rightarrow> f (g x) - f x)"
  by (auto simp: modify_def lane_total_put_old split: option.splits)

lemma lane_total_nonneg: "(\<And>x. 0 \<le> f x) \<Longrightarrow> 0 \<le> lane_total f d"
  by (induction d) auto

lemma lane_total_pos:
  assumes "\<And>x. 0 \<le> f x" "get d k = Some x" "0 < f x" shows "0 < lane_total f d"
  using assms(2)
proof (induction d)
  case (Cons p d)
  then show ?case using assms(1) [of "snd p"] assms(3) lane_total_nonneg [of f d, OF assms(1)]
    by (cases p) (auto split: if_splits)
qed simp

lemma lane_total_zero:
  assumes "\<And>k x. get d k = Some x \<Longrightarrow> f x = 0" "distinct (map fst d)" shows "lane_total f d = 0"
  using assms
proof (induction d)
  case (Cons p d)
  obtain k x where p: "p = (k, x)" by (cases p)
  have "f x = 0" using Cons.prems(1) [of k x] p by simp
  moreover have "get d j = Some y \<Longrightarrow> f y = 0" for j y
    using Cons.prems(1) [of j y] Cons.prems(2) p by (cases "j = k") (force dest: get_in_set)+
  ultimately show ?case using Cons p by simp
qed simp

lemma lane_count_total:
  assumes "distinct (map fst (o_lanes s))"
  shows "lane_count P s = lane_total (\<lambda>x. of_bool (P x)) (o_lanes s)"
proof -
  let ?d = "o_lanes s" and ?f = "\<lambda>k. map_option (\<lambda>x. of_bool (P x) :: int) (get (o_lanes s) k)"
  have a: "int (length (filter P (List.map_filter (get ?d) ks))) = (\<Sum>k \<leftarrow> ks. case ?f k of None \<Rightarrow> 0 | Some n \<Rightarrow> n)" for ks
    by (induction ks) (auto simp: List.map_filter_simps split: option.splits)
  have "(\<Sum>k \<leftarrow> okeys ?d. case ?f k of None \<Rightarrow> 0 | Some n \<Rightarrow> n) = (\<Sum>k \<leftarrow> map fst ?d. case ?f k of None \<Rightarrow> 0 | Some n \<Rightarrow> n)"
  proof -
    have "set (okeys ?d) = set (map fst ?d)" using in_keys_iff [of _ ?d] by auto
    then show ?thesis
      using sum_list_distinct_conv_sum_set [OF distinct_okeys, of _ ?d] sum_list_distinct_conv_sum_set [OF assms] by metis
  qed
  also have "\<dots> = lane_total (\<lambda>x. of_bool (P x)) ?d"
  proof -
    have "map (\<lambda>k. case ?f k of None \<Rightarrow> 0 | Some n \<Rightarrow> n) (map fst ?d) = map (\<lambda>p. of_bool (P (snd p))) ?d"
      using get_distinct [OF assms] by (auto simp: map_eq_conv)
    then show ?thesis by (simp only: lane_total_def)
  qed
  finally show ?thesis by (simp add: lane_count_def ovalues_def a)
qed

subsection \<open>Elementary operations\<close>

declare terminal.simps [simp del]

lemma terminal_phases [simp]:
  "terminal Ph_succeeded" "terminal Ph_failed" "terminal Ph_cancelled" "\<not> terminal Ph_queued" "\<not> terminal Ph_starting"
  "\<not> terminal Ph_working" "\<not> terminal Ph_waiting" "\<not> terminal Ph_collecting" "\<not> terminal Ph_checking"
  "\<not> terminal Ph_joining" "\<not> terminal Ph_cancelling"
  by (simp_all add: terminal.simps)

lemma upd_lane_fields [simp]:
  "o_lanes (upd_lane l f m) = modify (o_lanes m) l f" "o_intents (upd_lane l f m) = o_intents m"
  "o_input (upd_lane l f m) = o_input m" "o_stopReason (upd_lane l f m) = o_stopReason m"
  "o_winner (upd_lane l f m) = o_winner m" "o_mergeRequested (upd_lane l f m) = o_mergeRequested m"
  "o_mergeStatus (upd_lane l f m) = o_mergeStatus m" "o_spawnReceipts (upd_lane l f m) = o_spawnReceipts m"
  "o_seq (upd_lane l f m) = o_seq m" "o_open (upd_lane l f m) = o_open m" "o_waiting (upd_lane l f m) = o_waiting m"
  "o_succeeded (upd_lane l f m) = o_succeeded m" "o_failed (upd_lane l f m) = o_failed m"
  "o_usage (upd_lane l f m) = o_usage m" "o_startedAt (upd_lane l f m) = o_startedAt m"
  by (simp_all add: upd_lane_def)

lemma orch_emit_fields [simp]:
  "o_lanes (orch_emit e m) = o_lanes m" "o_intents (orch_emit e m) = o_intents m"
  "o_input (orch_emit e m) = o_input m" "o_stopReason (orch_emit e m) = o_stopReason m"
  "o_winner (orch_emit e m) = o_winner m" "o_mergeRequested (orch_emit e m) = o_mergeRequested m"
  "o_mergeStatus (orch_emit e m) = o_mergeStatus m" "o_spawnReceipts (orch_emit e m) = o_spawnReceipts m"
  "o_seq (orch_emit e m) = o_seq m" "o_open (orch_emit e m) = o_open m" "o_waiting (orch_emit e m) = o_waiting m"
  "o_succeeded (orch_emit e m) = o_succeeded m" "o_failed (orch_emit e m) = o_failed m"
  "o_usage (orch_emit e m) = o_usage m" "o_startedAt (orch_emit e m) = o_startedAt m"
  by (simp_all add: orch_emit_def)

lemma modify_same: "(\<And>x. get d k = Some x \<Longrightarrow> f x = x) \<Longrightarrow> modify d k f = d"
  by (auto simp: modify_def put_same split: option.splits)

definition step_by :: "(lane_phase \<Rightarrow> bool) \<Rightarrow> ident \<Rightarrow> lane_phase \<Rightarrow> orch \<Rightarrow> int" where
  "step_by P l p m = (case get (o_lanes m) l of None \<Rightarrow> 0 | Some x \<Rightarrow> of_bool (P p) - of_bool (P (ln_phase x)))"

lemma set_phase_fields [simp]:
  "o_lanes (set_phase l p m) = modify (o_lanes m) l (\<lambda>x. x\<lparr>ln_phase := p\<rparr>)"
  "o_intents (set_phase l p m) = o_intents m" "o_input (set_phase l p m) = o_input m"
  "o_stopReason (set_phase l p m) = o_stopReason m" "o_winner (set_phase l p m) = o_winner m"
  "o_mergeRequested (set_phase l p m) = o_mergeRequested m" "o_mergeStatus (set_phase l p m) = o_mergeStatus m"
  "o_spawnReceipts (set_phase l p m) = o_spawnReceipts m" "o_seq (set_phase l p m) = o_seq m"
  "o_usage (set_phase l p m) = o_usage m" "o_startedAt (set_phase l p m) = o_startedAt m"
  "o_open (set_phase l p m) = o_open m + step_by (\<lambda>p. \<not> terminal p) l p m"
  "o_waiting (set_phase l p m) = o_waiting m + step_by lane_waits l p m"
  "o_succeeded (set_phase l p m) = o_succeeded m + step_by (\<lambda>p. p = Ph_succeeded) l p m"
  "o_failed (set_phase l p m) = o_failed m + step_by (\<lambda>p. p = Ph_failed) l p m"
proof -
  consider (absent) "get (o_lanes m) l = None" | (same) x where "get (o_lanes m) l = Some x" "ln_phase x = p"
    | (moves) x where "get (o_lanes m) l = Some x" "ln_phase x \<noteq> p" by fastforce
  note cases = this
  have same: "modify (o_lanes m) l (\<lambda>x. x\<lparr>ln_phase := p\<rparr>) = o_lanes m"
    if "get (o_lanes m) l = Some x" "ln_phase x = p" for x
    using that by (auto intro!: modify_same)
  show "o_lanes (set_phase l p m) = modify (o_lanes m) l (\<lambda>x. x\<lparr>ln_phase := p\<rparr>)"
    using cases by cases (simp_all add: set_phase_def same modify_id)
  show "o_open (set_phase l p m) = o_open m + step_by (\<lambda>p. \<not> terminal p) l p m"
    "o_waiting (set_phase l p m) = o_waiting m + step_by lane_waits l p m"
    "o_succeeded (set_phase l p m) = o_succeeded m + step_by (\<lambda>p. p = Ph_succeeded) l p m"
    "o_failed (set_phase l p m) = o_failed m + step_by (\<lambda>p. p = Ph_failed) l p m"
    using cases by (cases; simp add: set_phase_def step_by_def)+
qed (auto simp: set_phase_def split: option.split)

lemma drop_intents_fields [simp]:
  "o_lanes (drop_intents P m) = o_lanes m" "o_input (drop_intents P m) = o_input m"
  "o_stopReason (drop_intents P m) = o_stopReason m" "o_winner (drop_intents P m) = o_winner m"
  "o_mergeRequested (drop_intents P m) = o_mergeRequested m" "o_mergeStatus (drop_intents P m) = o_mergeStatus m"
  "o_spawnReceipts (drop_intents P m) = o_spawnReceipts m" "o_seq (drop_intents P m) = o_seq m"
  "o_open (drop_intents P m) = o_open m" "o_waiting (drop_intents P m) = o_waiting m"
  "o_succeeded (drop_intents P m) = o_succeeded m" "o_failed (drop_intents P m) = o_failed m"
  "o_usage (drop_intents P m) = o_usage m" "o_startedAt (drop_intents P m) = o_startedAt m"
  by (simp_all add: drop_intents_def)

text \<open>The persisted intents, as a map.\<close>

definition job :: "orch \<Rightarrow> ident \<Rightarrow> effect option" where
  "job m i = map_option int_effect (get (o_intents m) i)"

lemma get_filter_snd:
  "distinct (map fst d) \<Longrightarrow> get (filter (\<lambda>(i, e). P e) d) k = (case get d k of None \<Rightarrow> None | Some e \<Rightarrow> if P e then Some e else None)"
proof (induction d)
  case (Cons p d)
  obtain i e where p: "p = (i, e)" by (cases p)
  have "get d i = None" using Cons.prems p by (auto simp: get_def map_of_eq_None_iff image_iff)
  then show ?case using Cons p by (auto split: option.splits if_splits)
qed simp

definition well_named :: "intent dict \<Rightarrow> bool" where
  "well_named d \<longleftrightarrow> distinct (map fst d) \<and> (\<forall>(i, e) \<in> set d. int_effect_id e = i)"

lemma well_named_simps [simp]:
  "well_named d \<Longrightarrow> well_named (filter P d)" "well_named d \<Longrightarrow> well_named (del d k)"
  "well_named d \<Longrightarrow> well_named (put d k \<lparr>int_effect_id = k, int_effect = e\<rparr>)"
proof -
  show f: "well_named d \<Longrightarrow> well_named (filter P d)" for P by (auto simp: well_named_def intro: distinct_map_filter)
  then show "well_named d \<Longrightarrow> well_named (del d k)" by (simp add: del_def)
  have "set (put d k v) \<subseteq> insert (k, v) (set d)" for v by (induction d k v rule: put.induct) auto
  then show "well_named d \<Longrightarrow> well_named (put d k \<lparr>int_effect_id = k, int_effect = e\<rparr>)"
    by (fastforce simp: well_named_def distinct_put)
qed

abbreviation keys_distinct :: "orch \<Rightarrow> bool" where
  "keys_distinct m \<equiv> distinct (map fst (o_lanes m)) \<and> well_named (o_intents m) \<and> distinct (map fst (o_spawnReceipts m))"

lemma job_drop_intents:
  "keys_distinct m \<Longrightarrow> job (drop_intents P m) i = (case job m i of None \<Rightarrow> None | Some e \<Rightarrow> if P e then None else Some e)"
  by (auto simp: job_def drop_intents_def get_filter_snd well_named_def split: option.splits)

lemma del_intent_fields [simp]:
  "o_lanes (del_intent i m) = o_lanes m" "o_input (del_intent i m) = o_input m"
  "o_stopReason (del_intent i m) = o_stopReason m" "o_winner (del_intent i m) = o_winner m"
  "o_mergeRequested (del_intent i m) = o_mergeRequested m" "o_mergeStatus (del_intent i m) = o_mergeStatus m"
  "o_spawnReceipts (del_intent i m) = o_spawnReceipts m" "o_seq (del_intent i m) = o_seq m"
  "o_open (del_intent i m) = o_open m" "o_waiting (del_intent i m) = o_waiting m"
  "o_succeeded (del_intent i m) = o_succeeded m" "o_failed (del_intent i m) = o_failed m"
  by (simp_all add: del_intent_def)

lemma job_simps [simp]:
  "job (upd_lane l f m) = job m" "job (set_phase l p m) = job m" "job (orch_emit e m) = job m"
  "job (del_intent i m) k = (if i = k then None else job m k)"
  by (auto simp: job_def del_intent_def)

subsection \<open>What every operation keeps\<close>

definition counts :: "orch \<Rightarrow> bool" where
  "counts m \<longleftrightarrow> o_open m = lane_total (\<lambda>x. of_bool (\<not> terminal (ln_phase x))) (o_lanes m) \<and>
     o_waiting m = lane_total (\<lambda>x. of_bool (lane_waits (ln_phase x))) (o_lanes m) \<and>
     o_succeeded m = lane_total (\<lambda>x. of_bool (ln_phase x = Ph_succeeded)) (o_lanes m) \<and>
     o_failed m = lane_total (\<lambda>x. of_bool (ln_phase x = Ph_failed)) (o_lanes m)"

definition same_place :: "lane \<Rightarrow> lane \<Rightarrow> bool" where
  "same_place x x' \<longleftrightarrow> ln_id x' = ln_id x \<and> ln_parentId x' = ln_parentId x \<and> ln_depth x' = ln_depth x \<and>
     ln_stage x' = ln_stage x \<and> ln_attempt x \<le> ln_attempt x'"

definition steady :: "orch \<Rightarrow> orch \<Rightarrow> bool" where
  "steady m m' \<longleftrightarrow> o_input m' = o_input m \<and> o_seq m \<le> o_seq m' \<and> o_spawnReceipts m' = o_spawnReceipts m \<and>
     map fst (o_lanes m') = map fst (o_lanes m) \<and>
     (\<forall>k x. get (o_lanes m) k = Some x \<longrightarrow> (\<exists>x'. get (o_lanes m') k = Some x' \<and> same_place x x')) \<and>
     (counts m \<longrightarrow> counts m') \<and> (keys_distinct m \<longrightarrow> keys_distinct m')"

lemma same_place_refl [simp]: "same_place x x"
  by (simp add: same_place_def)

lemma same_place_trans: "same_place x y \<Longrightarrow> same_place y z \<Longrightarrow> same_place x z"
  by (auto simp: same_place_def)

lemma steady_refl [simp]: "steady m m"
  by (auto simp: steady_def)

lemma steady_trans [trans]: "steady m m' \<Longrightarrow> steady m' m'' \<Longrightarrow> steady m m''"
proof -
  assume a: "steady m m'" "steady m' m''"
  have "\<exists>x''. get (o_lanes m'') k = Some x'' \<and> same_place x x''" if "get (o_lanes m) k = Some x" for k x
    using a that same_place_trans unfolding steady_def by metis
  moreover have "o_input m'' = o_input m \<and> o_seq m \<le> o_seq m'' \<and> o_spawnReceipts m'' = o_spawnReceipts m \<and>
      map fst (o_lanes m'') = map fst (o_lanes m) \<and> (counts m \<longrightarrow> counts m'') \<and> (keys_distinct m \<longrightarrow> keys_distinct m'')"
    using a unfolding steady_def by simp
  ultimately show ?thesis unfolding steady_def by simp
qed

lemma steady_frame:
  assumes "o_lanes m' = o_lanes m" "o_input m' = o_input m" "o_seq m \<le> o_seq m'" "o_spawnReceipts m' = o_spawnReceipts m"
    "o_open m' = o_open m" "o_waiting m' = o_waiting m" "o_succeeded m' = o_succeeded m" "o_failed m' = o_failed m"
    "well_named (o_intents m) \<Longrightarrow> well_named (o_intents m')"
  shows "steady m m'"
  using assms by (auto simp: steady_def counts_def)

lemma steady_upd_lane:
  assumes "\<And>x. same_place x (f x)" "\<And>x. ln_phase (f x) = ln_phase x"
  shows "steady m (upd_lane l f m)"
  using assms by (auto simp: steady_def counts_def lane_total_modify keys_modify split: option.splits)

lemma steady_set_phase: "steady m (set_phase l p m)"
  by (auto simp: steady_def counts_def lane_total_modify keys_modify step_by_def same_place_def split: option.splits)

lemma steady_drop_intents: "steady m (drop_intents P m)"
  by (rule steady_frame) (auto simp: drop_intents_def)

lemma steady_orch_emit: "steady m (orch_emit e m)"
  by (rule steady_frame) simp_all

lemma steady_del_intent: "steady m (del_intent i m)"
  by (rule steady_frame) (simp_all add: del_intent_def)

lemma add_intent_cases:
  assumes "add_intent ctx e m = Some m'"
  shows "o_lanes m' = o_lanes m" "o_input m' = o_input m" "o_stopReason m' = o_stopReason m" "o_winner m' = o_winner m"
    "o_mergeRequested m' = o_mergeRequested m" "o_mergeStatus m' = o_mergeStatus m" "o_spawnReceipts m' = o_spawnReceipts m"
    "o_seq m' = Suc (o_seq m)" "o_open m' = o_open m" "o_waiting m' = o_waiting m" "o_succeeded m' = o_succeeded m"
    "o_failed m' = o_failed m" "o_usage m' = o_usage m" "o_startedAt m' = o_startedAt m" "o_status m' = o_status m"
    "o_intents m' = put (o_intents m) (ctx_ids ctx Kind_intent (o_seq m)) \<lparr>int_effect_id = ctx_ids ctx Kind_intent (o_seq m), int_effect = e\<rparr>"
  using assms by (auto simp: add_intent_def nextId_def Let_def split: if_splits)

lemma steady_add_intent: "add_intent ctx e m = Some m' \<Longrightarrow> steady m m'"
  by (rule steady_frame) (simp_all add: add_intent_cases)

lemma steady_clear: "steady m (clearLaneIntents l m)" "steady m (clearChecks l m)" "steady m (drop_merge m)"
proof -
  show "steady m (clearLaneIntents l m)" by (simp add: clearLaneIntents_def steady_drop_intents)
  show "steady m (clearChecks l m)" unfolding clearChecks_def
    by (rule steady_trans [OF steady_upd_lane steady_drop_intents]) (simp_all add: same_place_def)
  show "steady m (drop_merge m)"
    by (auto simp: drop_merge_def intro!: steady_frame simp: drop_intents_def)
qed

definition steady_op :: "(orch \<Rightarrow> orch option) \<Rightarrow> bool" where
  "steady_op f \<longleftrightarrow> (\<forall>m m'. f m = Some m' \<longrightarrow> steady m m')"

lemma steady_opD: "steady_op f \<Longrightarrow> f m = Some m' \<Longrightarrow> steady m m'"
  by (simp add: steady_op_def)

lemma steady_start_lane: "steady_op (start_lane ctx l input)"
  unfolding steady_op_def
proof (intro allI impI)
  fix m m' assume a: "start_lane ctx l input m = Some m'"
  define u where "u = set_phase l Ph_starting (upd_lane l (begun ctx input) m)"
  have "steady m u" unfolding u_def
    by (rule steady_trans [OF steady_upd_lane steady_set_phase]) (simp_all add: same_place_def begun_def)
  moreover have "steady u m'"
    using a steady_add_intent by (auto simp: start_lane_def Let_def simp flip: u_def split: option.splits)
  ultimately show "steady m m'" by (rule steady_trans)
qed

lemma steady_cancelLane:
  assumes "\<And>l p. steady_op (fin l p)" shows "steady_op (cancelLane fin ctx l)"
  unfolding steady_op_def
proof (intro allI impI)
  fix m m' assume a: "cancelLane fin ctx l m = Some m'"
  let ?u = "upd_lane l (\<lambda>x. x\<lparr>ln_threadDone := False\<rparr>) (clearLaneIntents l m)"
  have "steady m ?u" by (rule steady_trans [OF steady_clear(1) steady_upd_lane]) (simp_all add: same_place_def)
  note u = steady_trans [OF this steady_set_phase]
  show "steady m m'"
  proof (cases "get (o_lanes m) l")
    case (Some x)
    consider "ln_phase x = Ph_cancelling" | "ln_phase x = Ph_queued" | "ln_phase x \<noteq> Ph_cancelling" "ln_phase x \<noteq> Ph_queued" by blast
    then show ?thesis
    proof cases
      case 1 with a Some show ?thesis by (simp add: cancelLane_def)
    next
      case 2 with a Some steady_opD [OF assms] show ?thesis by (simp add: cancelLane_def)
    next
      case 3
      with a Some have "add_intent ctx (Cancel_effect l (ln_attempt x)) (set_phase l Ph_cancelling ?u) = Some m'"
        by (simp add: cancelLane_def)
      from steady_trans [OF u steady_add_intent [OF this]] show ?thesis .
    qed
  qed (use a in \<open>simp add: cancelLane_def\<close>)
qed

lemma steady_foldM: "(\<And>a. steady_op (f a)) \<Longrightarrow> steady_op (foldM f as)"
proof (induction as)
  case (Cons a as)
  then show ?case unfolding steady_op_def foldM.simps bind_eq_Some_conv by (meson steady_trans)
qed (simp add: steady_op_def)

lemma steady_cancelAll:
  assumes "\<And>l p. steady_op (fin l p)" shows "steady_op (cancelAll fin ctx reason except)"
  unfolding steady_op_def
proof (intro allI impI)
  fix m m' assume a: "cancelAll fin ctx reason except m = Some m'"
  let ?m = "m\<lparr>o_stopReason := Some reason, o_mergeRequested := False\<rparr>"
  have "steady_op (cancel_unless fin ctx except l)" for l
    using steady_cancelLane [OF assms] unfolding steady_op_def cancel_unless_def by (auto split: option.splits if_splits)
  from steady_foldM [of "cancel_unless fin ctx except", OF this] a have "steady (drop_merge ?m) m'"
    by (auto simp: cancelAll_def Let_def dest: steady_opD)
  moreover have "steady m ?m" by (rule steady_frame) simp_all
  ultimately show "steady m m'" using steady_clear(3) steady_trans by blast
qed

lemma steady_fail_lane:
  assumes "\<And>l p. steady_op (fin l p)" shows "steady_op (fail_lane fin ctx l err)"
  unfolding steady_op_def
proof (intro allI impI)
  fix m m' assume a: "fail_lane fin ctx l err m = Some m'"
  let ?u = "upd_lane l (\<lambda>x. x\<lparr>ln_error := Some err\<rparr>) m"
  have u: "steady m ?u" by (rule steady_upd_lane) (simp_all add: same_place_def)
  have j: "steady ?u (set_phase l Ph_joining (upd_lane l (\<lambda>x. x\<lparr>ln_checksPassed := Some False, ln_threadDone := True\<rparr>) ?u))"
    by (rule steady_trans [OF steady_upd_lane steady_set_phase]) (simp_all add: same_place_def)
  have r: "steady ?u (upd_lane l retry_lane (clearLaneIntents l ?u))"
    by (rule steady_trans [OF steady_clear(1) steady_upd_lane]) (simp_all add: same_place_def retry_lane_def)
  have "steady ?u m'"
    using a j r steady_opD [OF steady_start_lane, of ctx l None] steady_opD [OF assms]
    unfolding fail_lane_def Let_def by (auto split: option.splits if_splits intro: steady_trans)
  with u show "steady m m'" by (rule steady_trans)
qed

lemma steady_reconcile:
  assumes "\<And>l p. steady_op (fin l p)" shows "steady_op (reconcile_lane fin ctx l)"
  unfolding steady_op_def
proof (intro allI impI)
  fix m m' assume "reconcile_lane fin ctx l m = Some m'"
  then show "steady m m'"
    using steady_opD [OF steady_fail_lane [OF assms]] steady_opD [OF assms] steady_set_phase [of m l]
      steady_trans [OF steady_set_phase steady_add_intent]
    unfolding reconcile_lane_def by (auto split: option.splits if_splits)
qed

lemma steady_close_lane: "steady_op (close_lane ctx l p x)"
  unfolding steady_op_def
proof (intro allI impI)
  fix m m' assume a: "close_lane ctx l p x m = Some m'"
  let ?u = "upd_lane l (\<lambda>y. y\<lparr>ln_endedAt := Some (ctx_now ctx)\<rparr>) (set_phase l p (clearLaneIntents l m))"
  have u: "steady m ?u"
    by (rule steady_trans [OF steady_trans [OF steady_clear(1) steady_set_phase] steady_upd_lane]) (simp_all add: same_place_def)
  moreover have "steady ?u (upd_lane q (\<lambda>y. y\<lparr>ln_children := ln_children y - 1,
            ln_failedChildren := ln_failedChildren y + of_bool (p \<noteq> Ph_succeeded)\<rparr>) ?u)" for q
    by (rule steady_upd_lane) (simp_all add: same_place_def)
  ultimately show "steady m m'"
    using a unfolding close_lane_def Let_def by (auto split: option.splits if_splits intro: steady_trans)
qed

lemma steady_settle_parent:
  assumes "\<And>l p. steady_op (fin l p)" shows "steady_op (settle_parent fin ctx parent)"
  using steady_reconcile [OF assms] assms unfolding steady_op_def settle_parent_def
  by (auto split: option.splits if_splits)

lemma steady_declare_winner:
  assumes "\<And>l p. steady_op (fin l p)" shows "steady_op (declare_winner fin ctx l outcome)"
  unfolding steady_op_def
proof (intro allI impI)
  fix m m' assume a: "declare_winner fin ctx l outcome m = Some m'"
  have w: "steady m (orch_emit (Winner_event l) (m\<lparr>o_winner := Some l\<rparr>))" by (rule steady_frame) simp_all
  show "steady m m'"
  proof (cases "outcome = Ph_succeeded \<and> kind_of m = Race \<and> o_winner m = None")
    case True
    with a have "cancelAll fin ctx Stop_winner (Some l) (orch_emit (Winner_event l) (m\<lparr>o_winner := Some l\<rparr>)) = Some m'"
      by (simp add: declare_winner_def)
    from steady_trans [OF w steady_opD [OF steady_cancelAll [OF assms] this]] show ?thesis .
  qed (use a in \<open>auto simp: declare_winner_def split: if_splits\<close>)
qed

lemma steady_advance:
  assumes "\<And>l p. steady_op (fin l p)" shows "steady_op (advance_pipeline fin ctx l outcome)"
  using steady_cancelAll [OF assms] steady_start_lane unfolding steady_op_def advance_pipeline_def
  by (auto split: option.splits if_splits)

lemma steady_bind: "steady_op f \<Longrightarrow> (\<And>m. steady_op g) \<Longrightarrow> steady_op (\<lambda>m. Option.bind (f m) g)"
  unfolding steady_op_def bind_eq_Some_conv by (meson steady_trans)

lemma steady_finish_lane: "steady_op (finish_lane n ctx l outcome)"
proof (induction n arbitrary: l outcome)
  case 0 show ?case by (simp add: steady_op_def)
next
  case (Suc n)
  let ?fin = "finish_lane n ctx"
  have a: "steady_op (\<lambda>m. close_lane ctx l outcome x m \<bind> (\<lambda>m. settle_parent ?fin ctx (ln_parentId x) m \<bind>
      (\<lambda>m. declare_winner ?fin ctx l outcome m \<bind> advance_pipeline ?fin ctx l outcome)))" for x
    by (intro steady_bind steady_close_lane steady_settle_parent steady_declare_winner steady_advance Suc.IH)
  show ?case unfolding steady_op_def
  proof (intro allI impI)
    fix m m' assume b: "finish_lane (Suc n) ctx l outcome m = Some m'"
    show "steady m m'"
    proof (cases "get (o_lanes m) l")
      case (Some x)
      with b a [of x] show ?thesis by (cases "terminal (ln_phase x)") (auto dest: steady_opD)
    qed (use b in simp)
  qed
qed

lemma steady_lifecycle:
  "steady_op (cancelLane (finish_lane n ctx) ctx l)" "steady_op (cancelAll (finish_lane n ctx) ctx reason except)"
  "steady_op (fail_lane (finish_lane n ctx) ctx l err)" "steady_op (reconcile_lane (finish_lane n ctx) ctx l)"
  by (intro steady_cancelLane steady_cancelAll steady_fail_lane steady_reconcile steady_finish_lane)+

lemma steady_unpick: "steady m (unpick l m)"
proof -
  have "steady m (m\<lparr>o_mergeRequested := False\<rparr>)" by (rule steady_frame) simp_all
  note a = steady_trans [OF this steady_clear(3)]
  have "steady v (v\<lparr>o_winner := None\<rparr>)" for v by (rule steady_frame) simp_all
  from steady_trans [OF a this] show ?thesis by (simp add: unpick_def)
qed

lemma steady_adopt_child: "steady m (adopt_child p b m)"
proof -
  let ?u = "clearChecks p (upd_lane p (\<lambda>y. y\<lparr>ln_children := ln_children y + 1\<rparr>) m)"
  let ?v = "upd_lane p (\<lambda>y. y\<lparr>ln_failedChildren := ln_failedChildren y - of_bool b\<rparr>) ?u"
  have "steady m ?u" by (rule steady_trans [OF steady_upd_lane steady_clear(2)]) (simp_all add: same_place_def)
  also have "steady ?u ?v" by (rule steady_upd_lane) (simp_all add: same_place_def)
  finally have "steady m ?v" .
  with steady_trans [OF this steady_set_phase] show ?thesis by (auto simp: adopt_child_def Let_def)
qed

lemma steady_meet_stop: "steady_op (meet_stop ctx l)"
  using steady_lifecycle unfolding steady_op_def meet_stop_def by (auto split: if_splits)

lemma steady_reopen_front: "steady m (unpick l (upd_lane l (\<lambda>y. y\<lparr>ln_endedAt := None\<rparr>) (set_phase l Ph_working m)))"
  by (rule steady_trans [OF steady_trans [OF steady_set_phase steady_upd_lane] steady_unpick]) (simp_all add: same_place_def)

lemma steady_reopen: "steady_op (reopen n ctx l)"
proof (induction n arbitrary: l)
  case 0 show ?case by (simp add: steady_op_def)
next
  case (Suc n)
  show ?case unfolding steady_op_def
  proof (intro allI impI)
    fix m m' assume a: "reopen (Suc n) ctx l m = Some m'"
    show "steady m m'"
    proof (cases "get (o_lanes m) l")
      case (Some x)
      let ?u = "unpick l (upd_lane l (\<lambda>y. y\<lparr>ln_endedAt := None\<rparr>) (set_phase l Ph_working m))"
      show ?thesis
      proof (cases "terminal (ln_phase x)")
        case True
        from a Some True obtain v where v: "(case ln_parentId x of None \<Rightarrow> Some ?u | Some p \<Rightarrow>
            if has (o_lanes ?u) p then map_option (adopt_child p (ln_phase x \<noteq> Ph_succeeded)) (reopen n ctx p ?u) else Some ?u) = Some v"
          and w: "meet_stop ctx l v = Some m'" by (auto simp: Let_def bind_eq_Some_conv)
        from v have "steady ?u v"
          using steady_opD [OF Suc.IH] steady_trans [OF _ steady_adopt_child] by (auto split: option.splits if_splits)
        with steady_reopen_front [of m l] steady_opD [OF steady_meet_stop w] show ?thesis by (blast intro: steady_trans)
      qed (use a Some in simp)
    qed (use a in simp)
  qed
qed

lemma steady_invalidate: "steady m (invalidate l m)"
  unfolding invalidate_def by (rule steady_trans [OF steady_upd_lane steady_clear(2)]) (simp_all add: same_place_def)

lemma steady_upd_seq:
  "steady_op f \<Longrightarrow> (\<And>x. same_place x (g x)) \<Longrightarrow> (\<And>x. ln_phase (g x) = ln_phase x) \<Longrightarrow> f (upd_lane l g m) = Some m' \<Longrightarrow> steady m m'"
  by (blast dest: steady_opD intro: steady_trans steady_upd_lane)

lemma steady_step_thread: "steady_op (step_thread ctx l x status)"
  unfolding steady_op_def
proof (intro allI impI)
  fix m m' assume a: "step_thread ctx l x status m = Some m'"
  then obtain u where b: "(if status \<noteq> Done \<and> terminal (ln_phase x) \<and> (status \<noteq> Thread_failed \<or> ln_phase x = Ph_succeeded)
          then reopen (reopen_fuel m) ctx l m else Some m) = Some u" and r: "(case get (o_lanes u) l of None \<Rightarrow> Some u | Some y \<Rightarrow>
         if terminal (ln_phase y) \<or> ln_phase y = Ph_queued \<or> ln_phase y = Ph_cancelling then Some u
         else if status = Thread_failed then fail_lane (finish_now ctx u) ctx l ''thread_failed'' u
         else if status = Done
         then reconcile_lane (finish_now ctx u) ctx l (upd_lane l (\<lambda>z. z\<lparr>ln_threadDone := True\<rparr>) u)
         else Some (set_phase l (if thread_waits status then Ph_waiting else Ph_working)
            (if ln_threadDone y then invalidate l u else u))) = Some m'"
    unfolding step_thread_def bind_eq_Some_conv by blast
  from b have u: "steady m u" by (simp split: if_splits) (blast dest: steady_opD [OF steady_reopen])
  have w: "steady u (set_phase l p u)" "steady u (set_phase l p (invalidate l u))" for p
    by (rule steady_set_phase steady_trans [OF steady_invalidate steady_set_phase])+
  have d: "steady u m'" if "reconcile_lane (finish_now ctx u) ctx l (upd_lane l (\<lambda>z. z\<lparr>ln_threadDone := True\<rparr>) u) = Some m'"
    by (rule steady_upd_seq [OF steady_lifecycle(4) _ _ that]) (simp_all add: same_place_def)
  from r have "steady u m'"
    using w d steady_opD [OF steady_lifecycle(3)]
    by (auto simp del: set_phase_fields upd_lane_fields split: option.splits if_splits)
  with u show "steady m m'" by (rule steady_trans)
qed

lemma steady_step_usage: "steady_op (step_usage ctx l x u)"
  unfolding steady_op_def
proof (intro allI impI)
  fix m m' assume a: "step_usage ctx l x u m = Some m'"
  have w: "steady m (m\<lparr>o_usage := v\<rparr>)" for v by (rule steady_frame) simp_all
  have s: "steady m (charge_lane l x u m)" unfolding charge_lane_def Let_def
    by (rule steady_trans [OF w steady_upd_lane]) (simp_all add: same_place_def)
  with a show "steady m m'"
    by (auto simp: step_usage_def Let_def split: if_splits dest: steady_opD [OF steady_lifecycle(2)] intro: steady_trans)
qed

lemma steady_step_bound: "steady m (step_bound l x t w m)"
proof -
  have u: "steady m (upd_lane l (\<lambda>y. y\<lparr>ln_threadId := Some t, ln_worktree := Some w\<rparr>) m)"
    by (rule steady_upd_lane) (simp_all add: same_place_def)
  from u steady_trans [OF u steady_set_phase] show ?thesis
    by (simp add: step_bound_def reject_def steady_orch_emit Let_def)
qed

lemma steady_step_checked: "steady_op (step_checked ctx l i c r)"
  unfolding steady_op_def
proof (intro allI impI)
  fix m m' assume a: "step_checked ctx l i c r m = Some m'"
  let ?v = "\<lambda>b. upd_lane l (\<lambda>y. y\<lparr>ln_checksPassed := Some b\<rparr>) (del_intent i m)"
  let ?p = "c \<and> (tpl_review (oc_template (o_input m)) = None \<or> tpl_review (oc_template (o_input m)) = Some [] \<or> r = Some True)"
  have "steady (del_intent i m) m'"
  proof (cases ?p)
    case True
    with a have "reconcile_lane (finish_now ctx (?v True)) ctx l (?v True) = Some m'" by (auto simp: step_checked_def Let_def)
    from steady_upd_seq [OF steady_lifecycle(4) _ _ this] show ?thesis by (simp add: same_place_def)
  next
    case False
    with a have "fail_lane (finish_now ctx (?v False)) ctx l ''check_failed'' (?v False) = Some m'"
      by (simp only: step_checked_def Let_def if_False if_True not_False_eq_True)
    from steady_upd_seq [OF steady_lifecycle(3) _ _ this] show ?thesis by (simp add: same_place_def)
  qed
  with steady_del_intent show "steady m m'" by (rule steady_trans)
qed

lemma steady_step_lane: "steady_op (step_lane ctx f l x)"
proof -
  have u: "steady m m'" if "reconcile_lane (finish_lane n ctx) ctx l (upd_lane l (\<lambda>y. y\<lparr>ln_artifact := Some a\<rparr>) m) = Some m'" for m m' a n
    by (rule steady_upd_seq [OF steady_lifecycle(4) _ _ that]) (simp_all add: same_place_def)
  have d: "steady m (upd_lane l (\<lambda>y. y\<lparr>ln_threadDone := True\<rparr>) m)" for m
    by (rule steady_upd_lane) (simp_all add: same_place_def)
  have e: "steady m m'" if "fail_lane (finish_lane n ctx) ctx l err (del_intent i m) = Some m'" for m m' err i n
    using steady_trans [OF steady_del_intent steady_opD [OF steady_lifecycle(3) that]] .
  have g: "steady m ((del_intent i m)\<lparr>o_mergeStatus := s\<rparr>)" for m i s
    by (rule steady_trans [OF steady_del_intent steady_frame]) simp_all
  have h: "steady m (orch_emit v ((del_intent i m)\<lparr>o_mergeStatus := s, o_safetyCheckpoint := c\<rparr>))" for m i s c v
    by (rule steady_trans [OF steady_trans [OF steady_del_intent steady_frame] steady_orch_emit]) simp_all
  note t = steady_opD [OF steady_step_usage] steady_opD [OF steady_step_thread] steady_opD [OF steady_step_checked]
    steady_opD [OF steady_finish_lane] steady_step_bound u d e g h steady_del_intent
  show ?thesis unfolding steady_op_def
  proof (intro allI impI)
    fix m m' assume a: "step_lane ctx f l x m = Some m'"
    then show "steady m m'"
      unfolding step_lane_def Let_def by (cases f) (auto simp: t split: if_splits)
  qed
qed

lemma steady_step_pick: "steady_op (step_pick ctx l b)"
  unfolding steady_op_def
proof (intro allI impI)
  fix m m' assume a: "step_pick ctx l b m = Some m'"
  let ?v = "orch_emit (Winner_event l) (m\<lparr>o_winner := Some l,
      o_mergeStatus := (if o_mergeStatus m = Merge_failed then Merge_none else o_mergeStatus m)\<rparr>)"
  have v: "steady m ?v" by (rule steady_frame) simp_all
  have r: "steady n (n\<lparr>o_mergeRequested := b\<rparr>)" for n by (rule steady_frame) simp_all
  from a consider "m' = reject ''winner_not_available'' m"
    | n where "cancelAll (finish_now ctx m) ctx Stop_winner (Some l) ?v = Some n" "m' = n\<lparr>o_mergeRequested := b\<rparr>"
    unfolding step_pick_def by (cases "get (o_lanes m) l") (force split: if_splits)+
  then show "steady m m'"
  proof cases
    case 1 then show ?thesis by (simp add: reject_def steady_orch_emit)
  next
    case 2
    from steady_trans [OF steady_trans [OF v steady_opD [OF steady_lifecycle(2) 2(1)]] r] show ?thesis by (simp add: 2)
  qed
qed

lemma steady_enforce_budget: "steady_op (enforce_budget ctx)"
  using steady_lifecycle(2) unfolding steady_op_def enforce_budget_def by (auto split: if_splits)

lemma steady_updateStatus: "steady_op (updateStatus ctx)"
  unfolding steady_op_def
proof (intro allI impI)
  fix m m' assume "updateStatus ctx m = Some m'"
  then obtain n where n: "request_merge ctx m = Some n"
    and m': "m' = (if runStatus n \<noteq> o_status n then orch_emit (Status_event (runStatus n)) (n\<lparr>o_status := runStatus n\<rparr>) else n)"
    by (auto simp: updateStatus_def bind_eq_Some_conv Let_def)
  have q: "steady m (m\<lparr>o_mergeStatus := s\<rparr>)" for s by (rule steady_frame) simp_all
  have "steady m n" using n steady_trans [OF q steady_add_intent] unfolding request_merge_def
    by (auto split: if_splits option.splits)
  moreover have "steady n m'" unfolding m' by (auto intro: steady_frame)
  ultimately show "steady m m'" by (rule steady_trans)
qed

end
