(* ===== verification/Orchestrator_Inv.thy ===== *)
theory Orchestrator_Inv
  imports Orchestrator_Frame
begin

text \<open>
  The invariant of an orchestration run. It is indexed by what a transition still owes: the children of
  a lane that were revived and are not counted yet (\<open>D\<close>, \<open>F\<close>), the lanes that a stop has not reached
  yet (\<open>X\<close>) and the lanes whose own intent or end is still to be settled (\<open>Y\<close>). Between facts nothing
  is owed. Each operation is shown to return and to settle what it has to.
\<close>

declare finish_lane.simps [simp del] reopen.simps [simp del]

lemma length_okeys: "distinct (map fst d) \<Longrightarrow> length (okeys d) = length d"
proof -
  assume a: "distinct (map fst d)"
  have "set (okeys d) = set (map fst d)" using in_keys_iff [of _ d] by auto
  then show ?thesis using distinct_card [OF distinct_okeys, of d] distinct_card [OF a] by (metis length_map)
qed

subsection \<open>The invariant\<close>

definition distinct_ids :: "(orch_kind \<Rightarrow> nat \<Rightarrow> ident) \<Rightarrow> bool" where
  "distinct_ids gen \<longleftrightarrow> (\<forall>k i j. gen k i = gen k j \<longrightarrow> i = j)"

text \<open>
  The source of identities: they are distinct, and the first \<open>cap\<close> of each kind pass the schema (its
  bound on the length leaves only finitely many that do).
\<close>

locale orch_source =
  fixes gen :: "orch_kind \<Rightarrow> nat \<Rightarrow> ident" and cap :: nat
  assumes gen_inj: "distinct_ids gen" and gen_valid: "i < cap \<Longrightarrow> orchestration_id (gen k i)"

lemma distinct_idsD: "distinct_ids gen \<Longrightarrow> gen k i = gen k j \<Longrightarrow> i = j"
  by (auto simp: distinct_ids_def)

definition open_kids :: "ident \<Rightarrow> orch \<Rightarrow> int" where
  "open_kids p m = lane_total (\<lambda>y. of_bool (open_child p y)) (o_lanes m)"

definition failed_kids :: "ident \<Rightarrow> orch \<Rightarrow> int" where
  "failed_kids p m = lane_total (\<lambda>y. of_bool (failed_child p y)) (o_lanes m)"

definition static_ok :: "orch \<Rightarrow> bool" where
  "static_ok m \<longleftrightarrow> keys_distinct m \<and> create_ok (o_input m) \<and>
     (\<forall>k x. get (o_lanes m) k = Some x \<longrightarrow> ln_id x = k \<and> ln_depth x \<le> bud_maxDepth (budget_of m) \<and> 1 \<le> ln_attempt x \<and>
       (case ln_parentId x of None \<Rightarrow> ln_depth x = 0
        | Some p \<Rightarrow> kind_of m = Coordinator \<and> (\<exists>y. get (o_lanes m) p = Some y \<and> ln_depth x = Suc (ln_depth y))))"

definition kids :: "(ident \<Rightarrow> int) \<Rightarrow> (ident \<Rightarrow> int) \<Rightarrow> orch \<Rightarrow> bool" where
  "kids D F m \<longleftrightarrow> (\<forall>k x. get (o_lanes m) k = Some x \<longrightarrow>
     ln_children x + D k = open_kids k m \<and> ln_failedChildren x = failed_kids k m + F k)"

definition local_ok :: "orchestration_create \<Rightarrow> ident set \<Rightarrow> ident \<Rightarrow> lane \<Rightarrow> bool" where
  "local_ok input Y k x \<longleftrightarrow>
     (ln_threadId x = None \<longleftrightarrow> ln_worktree x = None) \<and>
     ln_attempt x \<le> bud_maxAttempts (tpl_budget (oc_template input)) \<and>
     (terminal (ln_phase x) \<longrightarrow> ln_children x = 0) \<and>
     (ln_phase x = Ph_queued \<longrightarrow> \<not> ln_threadDone x \<and> ln_children x = 0) \<and>
     (ln_phase x = Ph_queued \<or> ln_phase x = Ph_starting \<longrightarrow> ln_threadId x = None) \<and>
     (ln_phase x = Ph_queued \<longrightarrow> k \<notin> Y \<longrightarrow> tpl_kind (oc_template input) = Pipeline) \<and>
     (ln_phase x = Ph_succeeded \<longrightarrow> ln_threadDone x \<and> ln_artifact x \<noteq> None \<and> ln_checksPassed x = Some True) \<and>
     (ln_phase x = Ph_checking \<longrightarrow> ln_threadDone x \<and> ln_artifact x \<noteq> None) \<and>
     (ln_phase x = Ph_checking \<longrightarrow> k \<notin> Y \<longrightarrow> ln_children x = 0 \<and> ln_checksPassed x = None) \<and>
     (ln_phase x = Ph_cancelling \<longrightarrow> ln_threadDone x \<longrightarrow> k \<notin> Y \<longrightarrow> ln_children x > 0)"

definition holds :: "(ident \<Rightarrow> effect option) \<Rightarrow> ident \<Rightarrow> effect_type \<Rightarrow> bool" where
  "holds J l op \<longleftrightarrow> (\<exists>i e. J i = Some e \<and> effect_lane e = l \<and> op_of e = op)"

definition once :: "(ident \<Rightarrow> effect option) \<Rightarrow> ident \<Rightarrow> bool" where
  "once J l \<longleftrightarrow> (\<forall>i i' e e'. J i = Some e \<longrightarrow> J i' = Some e' \<longrightarrow> effect_lane e = l \<longrightarrow> effect_lane e' = l \<longrightarrow>
     op_of e = op_of e' \<longrightarrow> i = i')"

fun fits :: "orch \<Rightarrow> lane \<Rightarrow> effect \<Rightarrow> bool" where
  "fits m x (Start_effect _ _ _ _ _) \<longleftrightarrow> running_phase (ln_phase x)"
| "fits m x (Check_effect _ _ a) \<longleftrightarrow> ln_phase x = Ph_checking \<and> map_option art_checkpoint (ln_artifact x) = Some (art_checkpoint a)"
| "fits m x (Cancel_effect _ _) \<longleftrightarrow> ln_phase x = Ph_cancelling"
| "fits m x (Merge_effect l _ cp) \<longleftrightarrow> o_stopReason m = Some Stop_winner \<and> o_mergeRequested m \<and>
     o_mergeStatus m = Merge_pending \<and> o_winner m = Some l \<and> map_option art_checkpoint (ln_artifact x) = Some cp"

definition stop_ok :: "ident set \<Rightarrow> orch \<Rightarrow> bool" where
  "stop_ok X m \<longleftrightarrow>
     (o_stopReason m \<noteq> None \<longrightarrow> (\<forall>k x. get (o_lanes m) k = Some x \<longrightarrow> k \<notin> X \<longrightarrow> terminal (ln_phase x) \<or> ln_phase x = Ph_cancelling)) \<and>
     (\<forall>k x. get (o_lanes m) k = Some x \<longrightarrow> ln_phase x = Ph_cancelling \<longrightarrow> o_stopReason m \<noteq> None)"

definition merge_ok :: "orch \<Rightarrow> bool" where
  "merge_ok m \<longleftrightarrow> (o_mergeRequested m \<longrightarrow> o_stopReason m = Some Stop_winner) \<and>
     (\<forall>w. o_winner m = Some w \<longrightarrow> (\<exists>x. get (o_lanes m) w = Some x \<and> ln_phase x = Ph_succeeded)) \<and>
     (o_mergeStatus m = Merge_pending \<longrightarrow> (\<exists>w. o_winner m = Some w \<and> holds (job m) w Ef_merge))"

definition jobs_ok :: "(orch_kind \<Rightarrow> nat \<Rightarrow> ident) \<Rightarrow> ident set \<Rightarrow> orch \<Rightarrow> bool" where
  "jobs_ok gen Y m \<longleftrightarrow>
     (\<forall>i e. job m i = Some e \<longrightarrow> (\<exists>n < o_seq m. i = gen Kind_intent n) \<and>
        (\<exists>x. get (o_lanes m) (effect_lane e) = Some x \<and> ln_attempt x = effect_attempt e \<and> fits m x e)) \<and>
     (\<forall>l. once (job m) l) \<and>
     (\<forall>k x op. get (o_lanes m) k = Some x \<longrightarrow> k \<notin> Y \<longrightarrow> required_intent x = Some op \<longrightarrow> holds (job m) k op)"

definition orch_ok ::
    "(orch_kind \<Rightarrow> nat \<Rightarrow> ident) \<Rightarrow> (ident \<Rightarrow> int) \<Rightarrow> (ident \<Rightarrow> int) \<Rightarrow> ident set \<Rightarrow> ident set \<Rightarrow> orch \<Rightarrow> bool" where
  "orch_ok gen D F X Y m \<longleftrightarrow> static_ok m \<and> kids D F m \<and>
     (\<forall>k x. get (o_lanes m) k = Some x \<longrightarrow> local_ok (o_input m) Y k x) \<and> stop_ok X m \<and> merge_ok m \<and> jobs_ok gen Y m"

lemma orch_okD:
  assumes "orch_ok gen D F X Y m"
  shows "static_ok m" "kids D F m" "stop_ok X m" "merge_ok m" "jobs_ok gen Y m" "keys_distinct m"
    and "get (o_lanes m) k = Some x \<Longrightarrow> local_ok (o_input m) Y k x"
    and "get (o_lanes m) k = Some x \<Longrightarrow> ln_id x = k"
    and "get (o_lanes m) k = Some x \<Longrightarrow> ln_children x + D k = open_kids k m"
    and "get (o_lanes m) k = Some x \<Longrightarrow> ln_failedChildren x = failed_kids k m + F k"
    and "job m i = Some e \<Longrightarrow> \<exists>x. get (o_lanes m) (effect_lane e) = Some x \<and> ln_attempt x = effect_attempt e \<and> fits m x e"
    and "job m i = Some e \<Longrightarrow> \<exists>n < o_seq m. i = gen Kind_intent n"
    and "once (job m) l"
    and "get (o_lanes m) k = Some x \<Longrightarrow> k \<notin> Y \<Longrightarrow> required_intent x = Some op \<Longrightarrow> holds (job m) k op"
proof -
  show a: "static_ok m" "kids D F m" "stop_ok X m" "merge_ok m" "jobs_ok gen Y m"
    and l: "get (o_lanes m) k = Some x \<Longrightarrow> local_ok (o_input m) Y k x"
    using assms by (simp_all add: orch_ok_def)
  show "keys_distinct m" "get (o_lanes m) k = Some x \<Longrightarrow> ln_id x = k" using a(1) by (simp_all add: static_ok_def)
  show "get (o_lanes m) k = Some x \<Longrightarrow> ln_children x + D k = open_kids k m"
    "get (o_lanes m) k = Some x \<Longrightarrow> ln_failedChildren x = failed_kids k m + F k"
    using a(2) by (simp_all add: kids_def)
qed (use assms in \<open>simp_all add: orch_ok_def jobs_ok_def\<close>)

lemma local_ok_mono: "local_ok input Y k x \<Longrightarrow> k \<in> Y \<longrightarrow> k \<in> Y' \<Longrightarrow> local_ok input Y' k x"
  unfolding local_ok_def by (elim conjE, intro conjI) blast+

lemma orch_ok_mono: "orch_ok gen D F X Y m \<Longrightarrow> X \<subseteq> X' \<Longrightarrow> Y \<subseteq> Y' \<Longrightarrow> orch_ok gen D F X' Y' m"
proof -
  assume a: "orch_ok gen D F X Y m" "X \<subseteq> X'" "Y \<subseteq> Y'"
  have "stop_ok X' m" using orch_okD(3) [OF a(1)] a(2) unfolding stop_ok_def by blast
  moreover have "jobs_ok gen Y' m" using orch_okD(5) [OF a(1)] a(3) unfolding jobs_ok_def by (simp add: subset_iff) blast
  moreover have "local_ok (o_input m) Y' k x" if "get (o_lanes m) k = Some x" for k x
    using orch_okD(7) [OF a(1) that] a(3) by (auto intro: local_ok_mono)
  ultimately show ?thesis using a(1) by (simp add: orch_ok_def)
qed

lemma static_okD:
  assumes "static_ok m" "get (o_lanes m) k = Some x"
  shows "ln_id x = k" "ln_depth x \<le> bud_maxDepth (budget_of m)" "1 \<le> ln_attempt x"
    and "ln_parentId x = None \<Longrightarrow> ln_depth x = 0" and "ln_parentId x = Some p \<Longrightarrow> kind_of m = Coordinator"
    and "ln_parentId x = Some p \<Longrightarrow> \<exists>y. get (o_lanes m) p = Some y \<and> ln_depth x = Suc (ln_depth y)"
proof -
  have a: "ln_id x = k \<and> ln_depth x \<le> bud_maxDepth (budget_of m) \<and> 1 \<le> ln_attempt x \<and>
       (case ln_parentId x of None \<Rightarrow> ln_depth x = 0
        | Some p \<Rightarrow> kind_of m = Coordinator \<and> (\<exists>y. get (o_lanes m) p = Some y \<and> ln_depth x = Suc (ln_depth y)))"
    using assms unfolding static_ok_def by blast
  then show "ln_id x = k" "ln_depth x \<le> bud_maxDepth (budget_of m)" "1 \<le> ln_attempt x"
    "ln_parentId x = None \<Longrightarrow> ln_depth x = 0" "ln_parentId x = Some p \<Longrightarrow> kind_of m = Coordinator"
    "ln_parentId x = Some p \<Longrightarrow> \<exists>y. get (o_lanes m) p = Some y \<and> ln_depth x = Suc (ln_depth y)" by simp_all
qed

lemma static_steady:
  assumes "steady m m'" "static_ok m" shows "static_ok m'"
proof -
  have k: "map fst (o_lanes m') = map fst (o_lanes m)" and i: "o_input m' = o_input m" and d: "keys_distinct m'"
    using assms by (simp_all add: steady_def static_ok_def)
  have "\<exists>x. get (o_lanes m) j = Some x \<and> same_place x y" if "get (o_lanes m') j = Some y" for j y
  proof -
    have "has (o_lanes m) j" using that k in_keys_iff [of j "o_lanes m"] in_keys_iff [of j "o_lanes m'"]
      by (metis has_Some set_map)
    then obtain x where "get (o_lanes m) j = Some x" by (auto simp: has_iff)
    with assms(1) that show ?thesis unfolding steady_def by fastforce
  qed
  note earlier = this
  show ?thesis unfolding static_ok_def
  proof (intro conjI allI impI)
    fix j y assume y: "get (o_lanes m') j = Some y"
    then obtain x where x: "get (o_lanes m) j = Some x" "same_place x y" using earlier by blast
    with assms(2) have "ln_id x = j" "ln_depth x \<le> bud_maxDepth (budget_of m)" "1 \<le> ln_attempt x" by (simp_all add: static_ok_def)
    with x(2) i show "ln_id y = j" "ln_depth y \<le> bud_maxDepth (budget_of m')" "1 \<le> ln_attempt y"
      by (simp_all add: same_place_def)
    show "case ln_parentId y of None \<Rightarrow> ln_depth y = 0
        | Some p \<Rightarrow> kind_of m' = Coordinator \<and> (\<exists>z. get (o_lanes m') p = Some z \<and> ln_depth y = Suc (ln_depth z))"
    proof (cases "ln_parentId y")
      case None with x static_okD(4) [OF assms(2) x(1)] show ?thesis by (simp add: same_place_def)
    next
      case (Some p)
      with x have p: "ln_parentId x = Some p" by (simp add: same_place_def)
      obtain z where z: "get (o_lanes m) p = Some z" "kind_of m = Coordinator" "ln_depth x = Suc (ln_depth z)"
        using static_okD(5,6) [OF assms(2) x(1) p] by blast
      with assms(1) obtain z' where z': "get (o_lanes m') p = Some z'" "same_place z z'" unfolding steady_def by blast
      moreover have "ln_depth y = Suc (ln_depth z')" using z(3) z'(2) x(2) by (simp add: same_place_def)
      ultimately show ?thesis using z(2) i Some by simp
    qed
  qed (use d i assms(2) in \<open>auto simp: static_ok_def\<close>)
qed

subsection \<open>Replacing one lane\<close>

lemma lane_total_replace:
  "get (o_lanes m) l = Some x \<Longrightarrow> o_lanes m' = modify (o_lanes m) l (\<lambda>_. x') \<Longrightarrow>
   lane_total f (o_lanes m') = lane_total f (o_lanes m) + f x' - f x"
  by (simp add: lane_total_modify)

lemma kids_quiet:
  assumes "kids D F m" "get (o_lanes m) l = Some x" "o_lanes m' = modify (o_lanes m) l (\<lambda>_. x')"
    "ln_parentId x' = ln_parentId x" "terminal (ln_phase x') = terminal (ln_phase x)"
    "(ln_phase x' = Ph_succeeded) = (ln_phase x = Ph_succeeded)"
    "ln_children x' = ln_children x" "ln_failedChildren x' = ln_failedChildren x"
  shows "kids D F m'"
proof -
  have "open_kids k m' = open_kids k m" "failed_kids k m' = failed_kids k m" for k
    unfolding open_kids_def failed_kids_def
    using assms(4-6) by (simp_all add: lane_total_replace [OF assms(2,3)] open_child_def failed_child_def)
  with assms show ?thesis unfolding kids_def by (auto split: if_splits)
qed

lemma fits_cong:
  assumes "o_stopReason m' = o_stopReason m" "o_winner m' = o_winner m"
    "o_mergeRequested m' = o_mergeRequested m" "o_mergeStatus m' = o_mergeStatus m"
  shows "fits m' x e = fits m x e"
  using assms by (cases e) auto

lemma refit:
  assumes ok: "orch_ok gen D F X Y m" and x: "get (o_lanes m) l = Some x"
    and lanes: "o_lanes m' = modify (o_lanes m) l (\<lambda>_. x')" and stat: "static_ok m'"
    and glob: "o_input m' = o_input m" "o_stopReason m' = o_stopReason m" "o_winner m' = o_winner m"
      "o_mergeRequested m' = o_mergeRequested m" "o_mergeStatus m' = o_mergeStatus m"
    and seq: "o_seq m \<le> o_seq m'"
    and keep: "\<And>i e. effect_lane e \<noteq> l \<Longrightarrow> job m' i = Some e \<longleftrightarrow> job m i = Some e"
    and mine: "\<And>i e. job m' i = Some e \<Longrightarrow> effect_lane e = l \<Longrightarrow>
      (\<exists>n < o_seq m'. i = gen Kind_intent n) \<and> ln_attempt x' = effect_attempt e \<and> fits m x' e"
    and once: "once (job m') l"
    and need: "\<And>op. l \<notin> Y' \<Longrightarrow> required_intent x' = Some op \<Longrightarrow> holds (job m') l op"
    and merge: "holds (job m) l Ef_merge \<Longrightarrow> o_winner m = Some l \<Longrightarrow> holds (job m') l Ef_merge"
    and kids: "kids D' F' m'" and loc: "local_ok (o_input m) Y' l x'"
    and stop: "o_stopReason m \<noteq> None \<Longrightarrow> l \<notin> X' \<Longrightarrow> terminal (ln_phase x') \<or> ln_phase x' = Ph_cancelling"
      "ln_phase x' = Ph_cancelling \<Longrightarrow> o_stopReason m \<noteq> None"
    and win: "o_winner m = Some l \<Longrightarrow> ln_phase x' = Ph_succeeded"
    and sub: "X \<subseteq> insert l X'" "Y \<subseteq> insert l Y'"
  shows "orch_ok gen D' F' X' Y' m'"
proof -
  note d = orch_okD [OF ok]
  have g: "get (o_lanes m') k = (if k = l then Some x' else get (o_lanes m) k)" for k using lanes x by simp
  have "local_ok (o_input m') Y' k y" if "get (o_lanes m') k = Some y" for k y
  proof (cases "k = l")
    case True with that g loc glob show ?thesis by simp
  next
    case False
    with that g d(7) [of k y] sub(2) glob(1) show ?thesis by (auto intro: local_ok_mono)
  qed
  moreover have "stop_ok X' m'"
  proof -
    have "terminal (ln_phase y) \<or> ln_phase y = Ph_cancelling" if "o_stopReason m \<noteq> None" "get (o_lanes m') k = Some y" "k \<notin> X'" for k y
      using that d(3) stop(1) sub(1) g [of k] by (cases "k = l") (auto simp: stop_ok_def)
    moreover have "o_stopReason m \<noteq> None" if "get (o_lanes m') k = Some y" "ln_phase y = Ph_cancelling" for k y
      using that d(3) stop(2) g [of k] by (cases "k = l") (auto simp: stop_ok_def)
    ultimately show ?thesis unfolding stop_ok_def glob(2) by blast
  qed
  moreover have "merge_ok m'"
  proof -
    have h: "holds (job m') w Ef_merge" if "holds (job m) w Ef_merge" "o_winner m = Some w" for w
      using that merge keep by (cases "w = l") (fastforce simp: holds_def)+
    show ?thesis using d(4) win h unfolding merge_ok_def glob g by (auto split: if_splits)
  qed
  moreover have "jobs_ok gen Y' m'" unfolding jobs_ok_def
  proof (intro conjI allI impI)
    fix i e assume e: "job m' i = Some e"
    show "\<exists>n < o_seq m'. i = gen Kind_intent n"
    proof (cases "effect_lane e = l")
      case False
      with e keep d(12) [of i e] seq show ?thesis by (metis order_less_le_trans)
    qed (use mine e in blast)
    show "\<exists>y. get (o_lanes m') (effect_lane e) = Some y \<and> ln_attempt y = effect_attempt e \<and> fits m' y e"
    proof (cases "effect_lane e = l")
      case True with mine [OF e] g glob show ?thesis by (auto simp: fits_cong [OF glob(2-5)])
    next
      case False
      with e keep d(11) [of i e] g show ?thesis by (auto simp: fits_cong [OF glob(2-5)])
    qed
  next
    fix k show "once (job m') k"
    proof (cases "k = l")
      case False
      with d(13) [of k] keep show ?thesis unfolding once_def by metis
    qed (use once in simp)
  next
    fix k y op assume a: "get (o_lanes m') k = Some y" "k \<notin> Y'" "required_intent y = Some op"
    show "holds (job m') k op"
    proof (cases "k = l")
      case True with a g need show ?thesis by simp
    next
      case False
      with a g sub(2) have "holds (job m) k op" using d(14) [of k y op] by auto
      with keep False show ?thesis unfolding holds_def by metis
    qed
  qed
  ultimately show ?thesis using stat kids by (simp add: orch_ok_def)
qed

definition pruned :: "(effect \<Rightarrow> bool) \<Rightarrow> orch \<Rightarrow> ident \<Rightarrow> effect option" where
  "pruned P m i = (case job m i of None \<Rightarrow> None | Some e \<Rightarrow> if P e then None else Some e)"

lemma pruned_Some [simp]: "pruned P m i = Some e \<longleftrightarrow> job m i = Some e \<and> \<not> P e"
  by (auto simp: pruned_def split: option.splits)

lemma pruned_none [simp]: "pruned (\<lambda>_. False) m = job m"
  by (auto simp: pruned_def fun_eq_iff split: option.splits)

text \<open>A lane is replaced and some of its own intents are dropped.\<close>

lemma refit_drop:
  assumes ok: "orch_ok gen D F X Y m" and x: "get (o_lanes m) l = Some x"
    and lanes: "o_lanes m' = modify (o_lanes m) l (\<lambda>_. x')" and stat: "static_ok m'"
    and glob: "o_input m' = o_input m" "o_stopReason m' = o_stopReason m" "o_winner m' = o_winner m"
      "o_mergeRequested m' = o_mergeRequested m" "o_mergeStatus m' = o_mergeStatus m" "o_seq m' = o_seq m"
    and jobs: "job m' = pruned P m" and P: "\<And>e. P e \<Longrightarrow> effect_lane e = l \<and> op_of e \<noteq> Ef_merge"
    and mine: "\<And>i e. job m i = Some e \<Longrightarrow> \<not> P e \<Longrightarrow> effect_lane e = l \<Longrightarrow> ln_attempt x = effect_attempt e \<Longrightarrow> fits m x e \<Longrightarrow>
      ln_attempt x' = effect_attempt e \<and> fits m x' e"
    and need: "\<And>op. l \<notin> Y' \<Longrightarrow> required_intent x' = Some op \<Longrightarrow> (\<exists>i e. job m i = Some e \<and> effect_lane e = l \<and> op_of e = op \<and> \<not> P e)"
    and rest: "kids D' F' m'" "local_ok (o_input m) Y' l x'"
      "o_stopReason m \<noteq> None \<Longrightarrow> l \<notin> X' \<Longrightarrow> terminal (ln_phase x') \<or> ln_phase x' = Ph_cancelling"
      "ln_phase x' = Ph_cancelling \<Longrightarrow> o_stopReason m \<noteq> None" "o_winner m = Some l \<Longrightarrow> ln_phase x' = Ph_succeeded"
      "X \<subseteq> insert l X'" "Y \<subseteq> insert l Y'"
  shows "orch_ok gen D' F' X' Y' m'"
proof (rule refit [OF ok x lanes stat glob(1-5)])
  note d = orch_okD [OF ok]
  show "o_seq m \<le> o_seq m'" using glob(6) by simp
  show "job m' i = Some e \<longleftrightarrow> job m i = Some e" if "effect_lane e \<noteq> l" for i e using P that by (auto simp: jobs)
  show "(\<exists>n<o_seq m'. i = gen Kind_intent n) \<and> ln_attempt x' = effect_attempt e \<and> fits m x' e"
    if "job m' i = Some e" "effect_lane e = l" for i e
  proof -
    from that have e: "job m i = Some e" "\<not> P e" by (simp_all add: jobs)
    from d(11) [OF e(1)] x that(2) have "ln_attempt x = effect_attempt e" "fits m x e" by auto
    with mine [OF e that(2)] d(12) [OF e(1)] glob(6) show ?thesis by simp
  qed
  show "once (job m') l" using d(13) [of l] unfolding once_def jobs pruned_Some by blast
  show "holds (job m') l op" if "l \<notin> Y'" "required_intent x' = Some op" for op
    using need [OF that] unfolding holds_def jobs pruned_Some by blast
  show "holds (job m') l Ef_merge" if "holds (job m) l Ef_merge" using that P unfolding holds_def jobs pruned_Some by blast
qed (use rest in auto)

text \<open>In addition, an intent of the lane is added.\<close>

lemma refit_add:
  assumes ok: "orch_ok gen D F X Y m" and x: "get (o_lanes m) l = Some x"
    and lanes: "o_lanes m' = modify (o_lanes m) l (\<lambda>_. x')" and stat: "static_ok m'"
    and glob: "o_input m' = o_input m" "o_stopReason m' = o_stopReason m" "o_winner m' = o_winner m"
      "o_mergeRequested m' = o_mergeRequested m" "o_mergeStatus m' = o_mergeStatus m" "o_seq m' = Suc (o_seq m)"
    and jobs: "\<And>i. job m' i = (if i = gen Kind_intent (o_seq m) then Some eff else pruned P m i)"
    and P: "\<And>e. P e \<Longrightarrow> effect_lane e = l \<and> op_of e \<noteq> Ef_merge" and src: "distinct_ids gen"
    and mine: "\<And>i e. job m i = Some e \<Longrightarrow> \<not> P e \<Longrightarrow> effect_lane e = l \<Longrightarrow> ln_attempt x = effect_attempt e \<Longrightarrow> fits m x e \<Longrightarrow>
      ln_attempt x' = effect_attempt e \<and> fits m x' e \<and> op_of e \<noteq> op_of eff"
    and eff: "effect_lane eff = l" "effect_attempt eff = ln_attempt x'" "fits m x' eff"
    and need: "\<And>op. required_intent x' = Some op \<Longrightarrow> op = op_of eff"
    and rest: "kids D' F' m'" "local_ok (o_input m) Y' l x'"
      "o_stopReason m \<noteq> None \<Longrightarrow> l \<notin> X' \<Longrightarrow> terminal (ln_phase x') \<or> ln_phase x' = Ph_cancelling"
      "ln_phase x' = Ph_cancelling \<Longrightarrow> o_stopReason m \<noteq> None" "o_winner m = Some l \<Longrightarrow> ln_phase x' = Ph_succeeded"
      "X \<subseteq> insert l X'" "Y \<subseteq> insert l Y'"
  shows "orch_ok gen D' F' X' Y' m'"
proof (rule refit [OF ok x lanes stat glob(1-5)])
  note d = orch_okD [OF ok]
  let ?n = "gen Kind_intent (o_seq m)"
  have new: "job m ?n = None"
  proof (cases "job m ?n")
    case (Some e)
    from d(12) [OF this] distinct_idsD [OF src] show ?thesis by (metis less_irrefl)
  qed
  have old: "pruned P m ?n = None" using new by (simp add: pruned_def)
  show "o_seq m \<le> o_seq m'" using glob(6) by simp
  show "job m' i = Some e \<longleftrightarrow> job m i = Some e" if "effect_lane e \<noteq> l" for i e
    using P that eff(1) new by (auto simp: jobs)
  have old_mine: "ln_attempt x' = effect_attempt e \<and> fits m x' e \<and> op_of e \<noteq> op_of eff"
    if e: "job m i = Some e" "\<not> P e" "effect_lane e = l" for i e
    using d(11) [OF e(1)] x mine [OF e] e(3) by auto
  show "(\<exists>n<o_seq m'. i = gen Kind_intent n) \<and> ln_attempt x' = effect_attempt e \<and> fits m x' e"
    if e: "job m' i = Some e" "effect_lane e = l" for i e
  proof (cases "i = ?n")
    case True with e eff glob(6) show ?thesis by (auto simp: jobs)
  next
    case False
    with e(1) have f: "job m i = Some e" "\<not> P e" by (simp_all add: jobs)
    with old_mine [OF f e(2)] d(12) [OF f(1)] glob(6) show ?thesis by (auto intro: less_SucI)
  qed
  have "i = i'" if "job m' i = Some e" "job m' i' = Some e'" "effect_lane e = l" "effect_lane e' = l" "op_of e = op_of e'" for i i' e e'
    using that d(13) [of l] old_mine [of i e] old_mine [of i' e'] unfolding once_def
    by (cases "i = ?n"; cases "i' = ?n") (auto simp: jobs)
  then show "once (job m') l" unfolding once_def by blast
  show "holds (job m') l op" if "l \<notin> Y'" "required_intent x' = Some op" for op
    using need [OF that(2)] eff(1) unfolding holds_def jobs by auto
  show "holds (job m') l Ef_merge" if "holds (job m) l Ef_merge"
    using that P new unfolding holds_def jobs pruned_Some by (metis option.distinct(1) pruned_Some)
qed (use rest in auto)

lemma add_intent_total:
  assumes src: "orch_source (ctx_ids ctx) cap" and fresh: "\<forall>i e. job m i = Some e \<longrightarrow> (\<exists>n < o_seq m. i = ctx_ids ctx Kind_intent n)" and room: "o_seq m < cap"
  shows "\<exists>m'. add_intent ctx eff m = Some m' \<and>
    (\<forall>i. job m' i = (if i = ctx_ids ctx Kind_intent (o_seq m) then Some eff else job m i))"
proof -
  let ?n = "ctx_ids ctx Kind_intent (o_seq m)"
  have "job m ?n = None"
  proof (cases "job m ?n")
    case (Some e)
    with fresh distinct_idsD [OF orch_source.gen_inj [OF src]] show ?thesis by (metis less_irrefl)
  qed
  then have n: "\<not> has (o_intents m) ?n" by (simp add: job_def has_def)
  moreover have "orchestration_id ?n" by (rule orch_source.gen_valid [OF src room])
  ultimately obtain m' where m': "add_intent ctx eff m = Some m'"
    by (simp add: add_intent_def nextId_def Let_def)
  moreover have "job m' i = (if i = ?n then Some eff else job m i)" for i
    using add_intent_cases(16) [OF m'] by (simp add: job_def)
  ultimately show ?thesis by blast
qed

subsection \<open>Steps on one lane\<close>

lemma modify_const: "get d k = Some x \<Longrightarrow> modify d k f = modify d k (\<lambda>_. f x)"
  by (simp add: modify_def)

declare put_put [simp]

lemma modify_modify [simp]: "modify (modify d k f) k g = modify d k (\<lambda>x. g (f x))"
  by (auto simp: modify_def split: option.splits)

lemma job_clears:
  assumes "keys_distinct m"
  shows "job (clearLaneIntents l m) = pruned (\<lambda>e. effect_lane e = l \<and> op_of e \<noteq> Ef_merge) m"
    "job (clearChecks l m) = pruned (\<lambda>e. effect_lane e = l \<and> op_of e = Ef_check) m"
  using assms by (auto simp: clearLaneIntents_def clearChecks_def job_drop_intents keys_modify pruned_def fun_eq_iff split: option.splits)

lemma clear_fields [simp]:
  "o_lanes (clearLaneIntents l m) = o_lanes m" "o_input (clearLaneIntents l m) = o_input m"
  "o_stopReason (clearLaneIntents l m) = o_stopReason m" "o_winner (clearLaneIntents l m) = o_winner m"
  "o_mergeRequested (clearLaneIntents l m) = o_mergeRequested m" "o_mergeStatus (clearLaneIntents l m) = o_mergeStatus m"
  "o_seq (clearLaneIntents l m) = o_seq m"
  "o_lanes (clearChecks l m) = modify (o_lanes m) l (\<lambda>x. x\<lparr>ln_checksPassed := None\<rparr>)" "o_input (clearChecks l m) = o_input m"
  "o_stopReason (clearChecks l m) = o_stopReason m" "o_winner (clearChecks l m) = o_winner m"
  "o_mergeRequested (clearChecks l m) = o_mergeRequested m" "o_mergeStatus (clearChecks l m) = o_mergeStatus m"
  "o_seq (clearChecks l m) = o_seq m" "o_spawnReceipts (clearChecks l m) = o_spawnReceipts m"
  by (simp_all add: clearLaneIntents_def clearChecks_def)

text \<open>The intents a lane in a given phase can have.\<close>

lemma lane_intents:
  assumes ok: "orch_ok gen D F X Y m" and x: "get (o_lanes m) l = Some x" and e: "job m i = Some e" "effect_lane e = l"
  shows "op_of e = Ef_start \<Longrightarrow> running_phase (ln_phase x)" "op_of e = Ef_check \<Longrightarrow> ln_phase x = Ph_checking"
    "op_of e = Ef_cancel \<Longrightarrow> ln_phase x = Ph_cancelling" "op_of e = Ef_merge \<Longrightarrow> o_winner m = Some l"
    "op_of e = Ef_merge \<Longrightarrow> ln_phase x = Ph_succeeded"
proof -
  from orch_okD(11) [OF ok e(1)] x e(2) have f: "fits m x e" by auto
  then show "op_of e = Ef_start \<Longrightarrow> running_phase (ln_phase x)" "op_of e = Ef_check \<Longrightarrow> ln_phase x = Ph_checking"
    "op_of e = Ef_cancel \<Longrightarrow> ln_phase x = Ph_cancelling" by (cases e; simp)+
  show w: "op_of e = Ef_merge \<Longrightarrow> o_winner m = Some l" using f e(2) by (cases e) auto
  show "op_of e = Ef_merge \<Longrightarrow> ln_phase x = Ph_succeeded" using w orch_okD(4) [OF ok] x by (auto simp: merge_ok_def)
qed

lemma winner_succeeded:
  "orch_ok gen D F X Y m \<Longrightarrow> get (o_lanes m) l = Some x \<Longrightarrow> o_winner m = Some l \<Longrightarrow> ln_phase x = Ph_succeeded"
  by (auto dest!: orch_okD(4) simp: merge_ok_def)

lemma running_phaseD: "running_phase p \<Longrightarrow> \<not> terminal p \<and> p \<noteq> Ph_queued \<and> p \<noteq> Ph_cancelling"
  by (auto simp: running_phase_def)

lemma running_phaseI: "\<not> terminal p \<Longrightarrow> p \<noteq> Ph_queued \<Longrightarrow> p \<noteq> Ph_cancelling \<Longrightarrow> running_phase p"
  by (cases p) (auto simp: running_phase_def)

lemma start_ok:
  assumes ok: "orch_ok (ctx_ids ctx) D F X Y m" and x: "get (o_lanes m) l = Some x" and src: "orch_source (ctx_ids ctx) cap"
    and u: "o_lanes u = modify (o_lanes m) l (\<lambda>_. y)" "steady m u" "o_input u = o_input m" "o_stopReason u = o_stopReason m"
      "o_winner u = o_winner m" "o_mergeRequested u = o_mergeRequested m" "o_mergeStatus u = o_mergeStatus m" "o_seq u = o_seq m"
      "job u = pruned P m" "\<And>e. P e \<Longrightarrow> effect_lane e = l \<and> op_of e \<noteq> Ef_merge"
      "\<And>i e. job m i = Some e \<Longrightarrow> effect_lane e = l \<Longrightarrow> P e"
    and y: "\<not> terminal (ln_phase x)" "ln_parentId y = ln_parentId x" "ln_children y = ln_children x" "ln_failedChildren y = ln_failedChildren x"
      "ln_threadId y = None \<and> ln_worktree y = None" "ln_attempt y \<le> bud_maxAttempts (budget_of m)"
    and stop: "o_stopReason m = None" and sub: "X \<subseteq> insert l X'" "Y \<subseteq> insert l Y'" and room: "o_seq m < cap"
  shows "\<exists>m'. start_lane ctx l input u = Some m' \<and> orch_ok (ctx_ids ctx) D F X' Y' m' \<and> steady u m' \<and>
     o_stopReason m' = None \<and> o_seq m' = Suc (o_seq m)"
proof -
  define z where "z = (begun ctx input y)\<lparr>ln_phase := Ph_starting\<rparr>"
  define v where "v = set_phase l Ph_starting (upd_lane l (begun ctx input) u)"
  define e where "e = Start_effect l (ln_attempt z) (ln_prompt z) (ln_spec z) (ln_input z)"
  have z: "ln_phase z = Ph_starting" "ln_parentId z = ln_parentId x" "ln_children z = ln_children x" "ln_failedChildren z = ln_failedChildren x"
    "ln_threadId z = ln_threadId y" "ln_worktree z = ln_worktree y" "ln_attempt z = ln_attempt y"
    using y by (simp_all add: z_def begun_def)
  have v: "o_lanes v = modify (o_lanes m) l (\<lambda>_. z)" "job v = pruned P m" "o_seq v = o_seq m"
    "o_input v = o_input m" "o_stopReason v = o_stopReason m"
      "o_winner v = o_winner m" "o_mergeRequested v = o_mergeRequested m" "o_mergeStatus v = o_mergeStatus m"
    by (simp_all add: v_def u z_def)
  have fresh: "\<forall>i e. job v i = Some e \<longrightarrow> (\<exists>n < o_seq v. i = ctx_ids ctx Kind_intent n)"
    using orch_okD(12) [OF ok] by (simp add: v)
  obtain m' where m': "add_intent ctx e v = Some m'" "\<forall>i. job m' i = (if i = ctx_ids ctx Kind_intent (o_seq m) then Some e else pruned P m i)"
    using add_intent_total [OF src fresh, where eff = e] room unfolding v by blast
  note c = add_intent_cases [OF m'(1)]
  have lanes: "o_lanes m' = modify (o_lanes m) l (\<lambda>_. z)" using c(1) v(1) by simp
  have s: "start_lane ctx l input u = Some m'"
    using m'(1) x v(1) by (simp add: start_lane_def Let_def e_def flip: v_def)
  then have st: "steady u m'" by (rule steady_opD [OF steady_start_lane])
  have "orch_ok (ctx_ids ctx) D F X' Y' m'"
  proof (rule refit_add [OF ok x lanes, where P = P and eff = e])
    show "static_ok m'" by (rule static_steady [OF steady_trans [OF u(2) st] orch_okD(1) [OF ok]])
    show "kids D F m'" by (rule kids_quiet [OF orch_okD(2) [OF ok] x lanes]) (use y z in auto)
    show "job m' i = (if i = ctx_ids ctx Kind_intent (o_seq m) then Some e else pruned P m i)" for i
      using m'(2) by simp
    show "local_ok (o_input m) Y' l z" using y(5,6) z by (simp add: local_ok_def)
    show "o_winner m = Some l \<Longrightarrow> ln_phase z = Ph_succeeded" using winner_succeeded [OF ok x] y(1) by auto
  qed (use c u v z stop sub orch_source.gen_inj [OF src] in \<open>auto simp: running_phase_def required_intent_def e_def\<close>)
  with s st stop c v show ?thesis by auto
qed

text \<open>A lane that changes phase changes what its parent is owed.\<close>

lemma kids_move:
  assumes "kids D F m" "get (o_lanes m) l = Some x" "o_lanes m' = modify (o_lanes m) l (\<lambda>_. x')"
    "ln_children x' = ln_children x" "ln_failedChildren x' = ln_failedChildren x"
  shows "kids (\<lambda>k. D k + of_bool (open_child k x') - of_bool (open_child k x))
    (\<lambda>k. F k - of_bool (failed_child k x') + of_bool (failed_child k x)) m'"
proof -
  have "open_kids k m' = open_kids k m + of_bool (open_child k x') - of_bool (open_child k x)"
    "failed_kids k m' = failed_kids k m + of_bool (failed_child k x') - of_bool (failed_child k x)" for k
    unfolding open_kids_def failed_kids_def by (simp_all add: lane_total_replace [OF assms(2,3)])
  with assms show ?thesis unfolding kids_def by (auto split: if_splits)
qed

text \<open>The counts of a lane are brought up to date.\<close>

lemma kids_count:
  assumes "kids D F m" "get (o_lanes m) l = Some x" "o_lanes m' = modify (o_lanes m) l (\<lambda>_. x')"
    "ln_parentId x' = ln_parentId x" "terminal (ln_phase x') = terminal (ln_phase x)"
    "(ln_phase x' = Ph_succeeded) = (ln_phase x = Ph_succeeded)"
  shows "kids (D(l := D l + ln_children x - ln_children x')) (F(l := F l + ln_failedChildren x' - ln_failedChildren x)) m'"
proof -
  have "open_kids k m' = open_kids k m" "failed_kids k m' = failed_kids k m" for k
    unfolding open_kids_def failed_kids_def
    using assms(4-6) by (simp_all add: lane_total_replace [OF assms(2,3)] open_child_def failed_child_def)
  moreover have "ln_children x + D l = open_kids l m" "ln_failedChildren x = failed_kids l m + F l"
    using assms(1,2) by (simp_all add: kids_def)
  ultimately show ?thesis using assms(1-3) unfolding kids_def by (auto simp: algebra_simps split: if_splits)
qed

lemma open_kids_nonneg: "0 \<le> open_kids k m" "0 \<le> failed_kids k m"
  unfolding open_kids_def failed_kids_def by (rule lane_total_nonneg; simp)+

lemma open_kids_pos: "get (o_lanes m) l = Some x \<Longrightarrow> open_child k x \<Longrightarrow> 0 < open_kids k m"
  unfolding open_kids_def by (rule lane_total_pos [of _ _ l x]) simp_all

abbreviation owed_nothing :: "ident \<Rightarrow> int" where
  "owed_nothing \<equiv> \<lambda>_. 0"

abbreviation settled :: "(orch_kind \<Rightarrow> nat \<Rightarrow> ident) \<Rightarrow> orch \<Rightarrow> bool" where
  "settled gen \<equiv> orch_ok gen owed_nothing owed_nothing {} {}"

lemma pruned_clear: "pruned (\<lambda>e. effect_lane e = l \<and> op_of e \<noteq> Ef_merge) m i = Some e \<Longrightarrow> effect_lane e = l \<Longrightarrow> op_of e = Ef_merge"
  by auto

lemma cancel_running_ok:
  assumes ok: "orch_ok (ctx_ids ctx) D F X {} m" and x: "get (o_lanes m) l = Some x" and src: "orch_source (ctx_ids ctx) cap"
    and ph: "\<not> terminal (ln_phase x)" "ln_phase x \<noteq> Ph_queued" and stop: "o_stopReason m \<noteq> None" and sub: "X \<subseteq> insert l X'"
    and room: "o_seq m < cap"
  shows "\<exists>m' x'. cancelLane fin ctx l m = Some m' \<and> orch_ok (ctx_ids ctx) D F X' {} m' \<and> o_stopReason m' = o_stopReason m \<and>
    steady m m' \<and> o_lanes m' = modify (o_lanes m) l (\<lambda>_. x') \<and> ln_phase x' = Ph_cancelling \<and> o_seq m' \<le> Suc (o_seq m)"
proof (cases "ln_phase x = Ph_cancelling")
  case True
  have "terminal (ln_phase y) \<or> ln_phase y = Ph_cancelling" if "get (o_lanes m) k = Some y" "k \<notin> X'" for k y
    using orch_okD(3) [OF ok] sub x True that stop by (cases "k = l") (auto simp: stop_ok_def)
  then have "stop_ok X' m" using orch_okD(3) [OF ok] unfolding stop_ok_def by blast
  with ok have "orch_ok (ctx_ids ctx) D F X' {} m" by (simp add: orch_ok_def)
  moreover have "o_lanes m = modify (o_lanes m) l (\<lambda>_. x)" using x by (simp add: modify_def put_same)
  ultimately show ?thesis using True x by (auto simp: cancelLane_def)
next
  case False
  define z where "z = x\<lparr>ln_threadDone := False, ln_phase := Ph_cancelling\<rparr>"
  define P where "P = (\<lambda>e. effect_lane e = l \<and> op_of e \<noteq> Ef_merge)"
  define v where "v = set_phase l Ph_cancelling (upd_lane l (\<lambda>x. x\<lparr>ln_threadDone := False\<rparr>) (clearLaneIntents l m))"
  define e where "e = Cancel_effect l (ln_attempt x)"
  have v: "o_lanes v = modify (o_lanes m) l (\<lambda>_. z)" "job v = pruned P m" "o_seq v = o_seq m"
    "o_input v = o_input m" "o_stopReason v = o_stopReason m"
    "o_winner v = o_winner m" "o_mergeRequested v = o_mergeRequested m" "o_mergeStatus v = o_mergeStatus m"
    using modify_const [OF x] by (simp_all add: v_def z_def P_def job_clears [OF orch_okD(6) [OF ok]])
  have "\<forall>i e. job v i = Some e \<longrightarrow> (\<exists>n < o_seq v. i = ctx_ids ctx Kind_intent n)"
    using orch_okD(12) [OF ok] by (simp add: v)
  from add_intent_total [OF src this, of e] room obtain m' where m': "add_intent ctx e v = Some m'"
    "\<forall>i. job m' i = (if i = ctx_ids ctx Kind_intent (o_seq m) then Some e else pruned P m i)" unfolding v by blast
  note c = add_intent_cases [OF m'(1)]
  have lanes: "o_lanes m' = modify (o_lanes m) l (\<lambda>_. z)" using c(1) v(1) by simp
  have s: "cancelLane fin ctx l m = Some m'" using m'(1) x ph False by (simp add: cancelLane_def e_def v_def)
  have "steady m v" unfolding v_def
    by (rule steady_trans [OF steady_trans [OF steady_clear(1) steady_upd_lane] steady_set_phase]) (simp_all add: same_place_def)
  then have st: "steady m m'" by (rule steady_trans [OF _ steady_add_intent [OF m'(1)]])
  have z: "ln_phase z = Ph_cancelling" "\<not> ln_threadDone z" "ln_attempt z = ln_attempt x" by (simp_all add: z_def)
  have "orch_ok (ctx_ids ctx) D F X' {} m'"
  proof (rule refit_add [OF ok x lanes, where P = P and eff = e])
    show "static_ok m'" by (rule static_steady [OF st orch_okD(1) [OF ok]])
    show "kids D F m'" by (rule kids_quiet [OF orch_okD(2) [OF ok] x lanes]) (use ph in \<open>auto simp: z_def\<close>)
    show "local_ok (o_input m) {} l z" using orch_okD(7) [OF ok x] by (auto simp: local_ok_def z_def)
    show "o_winner m = Some l \<Longrightarrow> ln_phase z = Ph_succeeded" using winner_succeeded [OF ok x] ph(1) by auto
    show "ln_attempt z = effect_attempt e' \<and> fits m z e' \<and> op_of e' \<noteq> op_of e"
      if "job m i = Some e'" "\<not> P e'" "effect_lane e' = l" for i e'
      using lane_intents(5) [OF ok x that(1,3)] that ph(1) by (auto simp: P_def)
  qed (use c v z stop sub orch_source.gen_inj [OF src] m'(2) in \<open>auto simp: required_intent_def e_def P_def\<close>)
  with s st c(3,8) v(3,5) lanes z(1) show ?thesis by (intro exI [of _ m'] exI [of _ z]) simp
qed

subsection \<open>The end of a lane\<close>

definition closed :: "orch_context \<Rightarrow> ident \<Rightarrow> lane_phase \<Rightarrow> orch \<Rightarrow> orch" where
  "closed ctx l outcome m = upd_lane l (\<lambda>y. y\<lparr>ln_endedAt := Some (ctx_now ctx)\<rparr>) (set_phase l outcome (clearLaneIntents l m))"

definition may_end :: "lane \<Rightarrow> lane_phase \<Rightarrow> bool" where
  "may_end x outcome \<longleftrightarrow> \<not> terminal (ln_phase x) \<and> ln_children x = 0 \<and> terminal outcome \<and>
     (outcome = Ph_succeeded \<longrightarrow> ln_threadDone x \<and> ln_artifact x \<noteq> None \<and> ln_checksPassed x = Some True)"

lemma steady_closed: "steady m (closed ctx l outcome m)"
  unfolding closed_def
  by (rule steady_trans [OF steady_trans [OF steady_clear(1) steady_set_phase] steady_upd_lane]) (simp_all add: same_place_def)

lemma closed_fields:
  "o_input (closed ctx l outcome m) = o_input m" "o_stopReason (closed ctx l outcome m) = o_stopReason m"
  "o_winner (closed ctx l outcome m) = o_winner m" "o_mergeRequested (closed ctx l outcome m) = o_mergeRequested m"
  "o_mergeStatus (closed ctx l outcome m) = o_mergeStatus m" "o_seq (closed ctx l outcome m) = o_seq m"
  "get (o_lanes m) l = Some x \<Longrightarrow>
    o_lanes (closed ctx l outcome m) = modify (o_lanes m) l (\<lambda>_. x\<lparr>ln_phase := outcome, ln_endedAt := Some (ctx_now ctx)\<rparr>)"
  by (simp_all add: closed_def) (simp add: modify_def)

lemma closed_ok:
  assumes ok: "orch_ok gen D F X Y m" and x: "get (o_lanes m) l = Some x" and e: "may_end x outcome"
    and sub: "X \<subseteq> insert l X'" "Y \<subseteq> insert l Y'"
  shows "orch_ok gen (\<lambda>k. D k - of_bool (ln_parentId x = Some k))
    (\<lambda>k. F k - of_bool (ln_parentId x = Some k \<and> outcome \<noteq> Ph_succeeded)) X' Y' (closed ctx l outcome m)"
proof -
  define z where "z = x\<lparr>ln_phase := outcome, ln_endedAt := Some (ctx_now ctx)\<rparr>"
  note f = closed_fields
  have lanes: "o_lanes (closed ctx l outcome m) = modify (o_lanes m) l (\<lambda>_. z)" using f(7) [OF x] by (simp add: z_def)
  have t: "\<not> terminal (ln_phase x)" "terminal outcome" "ln_children x = 0" using e by (simp_all add: may_end_def)
  have k: "kids (\<lambda>k. D k - of_bool (ln_parentId x = Some k))
    (\<lambda>k. F k - of_bool (ln_parentId x = Some k \<and> outcome \<noteq> Ph_succeeded)) (closed ctx l outcome m)"
    using kids_move [OF orch_okD(2) [OF ok] x lanes] t by (simp add: z_def open_child_def failed_child_def)
  show ?thesis
  proof (rule refit_drop [OF ok x lanes, where P = "\<lambda>e. effect_lane e = l \<and> op_of e \<noteq> Ef_merge"])
    show "static_ok (closed ctx l outcome m)" by (rule static_steady [OF steady_closed orch_okD(1) [OF ok]])
    show "job (closed ctx l outcome m) = pruned (\<lambda>e. effect_lane e = l \<and> op_of e \<noteq> Ef_merge) m"
      by (simp add: closed_def job_clears [OF orch_okD(6) [OF ok]])
    show "ln_attempt z = effect_attempt e \<and> fits m z e"
      if "job m i = Some e" "\<not> (effect_lane e = l \<and> op_of e \<noteq> Ef_merge)" "effect_lane e = l" for i e
      using lane_intents(5) [OF ok x that(1,3)] that t(1) by auto
    show "local_ok (o_input m) Y' l z"
    proof -
      have "outcome \<noteq> Ph_queued" "outcome \<noteq> Ph_checking" "outcome \<noteq> Ph_cancelling" "outcome \<noteq> Ph_starting" using t(2) by auto
      with orch_okD(7) [OF ok x] t(3) e show ?thesis by (simp add: local_ok_def z_def may_end_def)
    qed
    show "o_winner m = Some l \<Longrightarrow> ln_phase z = Ph_succeeded" using winner_succeeded [OF ok x] t by auto
    show "\<exists>i e. job m i = Some e \<and> effect_lane e = l \<and> op_of e = op \<and> \<not> (effect_lane e = l \<and> op_of e \<noteq> Ef_merge)"
      if "required_intent z = Some op" for op
      using that t(2) by (auto simp: required_intent_def z_def split: if_splits)
  qed (use f t k sub in \<open>auto simp: z_def\<close>)
qed

lemma close_root_ok:
  assumes ok: "orch_ok gen D F X Y m" and x: "get (o_lanes m) l = Some x" "ln_parentId x = None" and e: "may_end x outcome"
    and sub: "X \<subseteq> insert l X'" "Y \<subseteq> insert l Y'"
  shows "close_lane ctx l outcome x m = Some (closed ctx l outcome m) \<and> orch_ok gen D F X' Y' (closed ctx l outcome m)"
  using closed_ok [OF ok x(1) e sub, of ctx] x(2) by (simp add: close_lane_def closed_def Let_def)

lemma close_child_ok:
  assumes ok: "orch_ok gen owed_nothing owed_nothing {} {l} m" and x: "get (o_lanes m) l = Some x" "ln_parentId x = Some p"
    and e: "may_end x outcome"
  shows "\<exists>m' y. close_lane ctx l outcome x m = Some m' \<and> orch_ok gen owed_nothing owed_nothing {} {p} m' \<and> steady m m' \<and>
    o_stopReason m' = o_stopReason m \<and> get (o_lanes m') p = Some y \<and> \<not> terminal (ln_phase y) \<and> ln_phase y \<noteq> Ph_checking \<and>
    ln_phase y \<noteq> Ph_queued \<and> (\<not> (ln_phase y = Ph_cancelling \<and> ln_threadDone y \<and> ln_children y = 0) \<longrightarrow> settled gen m')"
proof -
  define u where "u = closed ctx l outcome m"
  define D F where "D = (\<lambda>k. - of_bool (ln_parentId x = Some k) :: int)"
    and "F = (\<lambda>k. - of_bool (ln_parentId x = Some k \<and> outcome \<noteq> Ph_succeeded) :: int)"
  have oku: "orch_ok gen D F {} {} u"
    using closed_ok [OF ok x(1) e, of "{}" "{}" ctx] by (simp add: u_def D_def F_def)
  from static_okD(6) [OF orch_okD(1) [OF ok] x] obtain y where y: "get (o_lanes m) p = Some y" "ln_depth x = Suc (ln_depth y)" by blast
  then have pl: "p \<noteq> l" using x(1) by auto
  have yu: "get (o_lanes u) p = Some y" using y pl closed_fields(7) [OF x(1)] by (simp add: u_def)
  have pos: "0 < ln_children y"
    using orch_okD(9) [OF ok y(1)] open_kids_pos [OF x(1), of p] x(2) e by (simp add: open_child_def may_end_def)
  have ph: "\<not> terminal (ln_phase y)" "ln_phase y \<noteq> Ph_checking" "ln_phase y \<noteq> Ph_queued"
    using orch_okD(7) [OF ok y(1)] pos pl by (auto simp: local_ok_def)
  define z where "z = y\<lparr>ln_children := ln_children y - 1, ln_failedChildren := ln_failedChildren y + of_bool (outcome \<noteq> Ph_succeeded)\<rparr>"
  define m' where "m' = upd_lane p (\<lambda>y. y\<lparr>ln_children := ln_children y - 1,
            ln_failedChildren := ln_failedChildren y + of_bool (outcome \<noteq> Ph_succeeded)\<rparr>) u"
  have lanes: "o_lanes m' = modify (o_lanes u) p (\<lambda>_. z)" by (simp add: m'_def z_def modify_def yu)
  have c: "close_lane ctx l outcome x m = Some m'"
    using x(2) has_Some [OF yu] by (simp add: close_lane_def m'_def u_def closed_def Let_def)
  have st: "steady u m'" unfolding m'_def by (rule steady_upd_lane) (simp_all add: same_place_def)
  have ok': "orch_ok gen owed_nothing owed_nothing {} Y' m'"
    if Y': "p \<in> Y' \<or> \<not> (ln_phase z = Ph_cancelling \<and> ln_threadDone z \<and> ln_children z = 0)" for Y'
  proof (rule refit_drop [OF oku yu lanes, where P = "\<lambda>_. False"])
    show "static_ok m'" by (rule static_steady [OF st orch_okD(1) [OF oku]])
    show "kids owed_nothing owed_nothing m'"
    proof -
      have "D(p := D p + ln_children y - ln_children z) = owed_nothing"
        "F(p := F p + ln_failedChildren z - ln_failedChildren y) = owed_nothing"
        using x(2) by (auto simp: D_def F_def z_def fun_eq_iff)
      with kids_count [OF orch_okD(2) [OF oku] yu lanes] show ?thesis by (simp add: z_def)
    qed
    show "local_ok (o_input u) Y' p z"
      using orch_okD(7) [OF oku yu] ph pos Y' by (auto simp: local_ok_def z_def)
    show "\<exists>i e. job u i = Some e \<and> effect_lane e = p \<and> op_of e = op \<and> \<not> False" if "required_intent z = Some op" for op
    proof -
      have "required_intent z = required_intent y" by (simp add: required_intent_def z_def)
      with orch_okD(14) [OF oku yu, of op] that show ?thesis by (simp add: holds_def)
    qed
    show "ln_attempt z = effect_attempt e \<and> fits u z e"
      if "ln_attempt y = effect_attempt e" "fits u y e" for e
      using that by (cases e) (auto simp: z_def)
    show "terminal (ln_phase z) \<or> ln_phase z = Ph_cancelling" if "o_stopReason u \<noteq> None"
      using orch_okD(3) [OF oku] yu that by (auto simp: stop_ok_def z_def)
    show "o_stopReason u \<noteq> None" if "ln_phase z = Ph_cancelling"
      using orch_okD(3) [OF oku] yu that by (auto simp: stop_ok_def z_def)
    show "ln_phase z = Ph_succeeded" if "o_winner u = Some p" using winner_succeeded [OF oku yu that] by (simp add: z_def)
  qed (auto simp: m'_def)
  have "get (o_lanes m') p = Some z" using lanes yu by simp
  moreover have "o_stopReason m' = o_stopReason m" by (simp add: m'_def u_def closed_fields)
  moreover have "orch_ok gen owed_nothing owed_nothing {} {p} m'" by (rule ok') simp
  moreover have "\<not> (ln_phase z = Ph_cancelling \<and> ln_threadDone z \<and> ln_children z = 0) \<longrightarrow> settled gen m'" using ok' [of "{}"] by simp
  ultimately show ?thesis using c steady_trans [OF steady_closed st [unfolded u_def]] ph
    by (intro exI [of _ m'] exI [of _ z]) (simp add: z_def)
qed

subsection \<open>Cancellation\<close>

definition hushed :: "orch \<Rightarrow> orch \<Rightarrow> bool" where
  "hushed m m' \<longleftrightarrow> (\<forall>k x. get (o_lanes m) k = Some x \<longrightarrow> (\<exists>x'. get (o_lanes m') k = Some x' \<and>
     (terminal (ln_phase x) \<longrightarrow> x' = x) \<and> (\<not> terminal (ln_phase x) \<longrightarrow> ln_phase x' = Ph_cancelling \<or> ln_phase x' = ln_phase x \<or> ln_phase x = Ph_queued)))"

lemma hushed_refl [simp]: "hushed m m"
  by (auto simp: hushed_def)

lemma hushed_trans: "hushed m m' \<Longrightarrow> hushed m' m'' \<Longrightarrow> hushed m m''"
proof -
  assume a: "hushed m m'" "hushed m' m''"
  show ?thesis unfolding hushed_def
  proof (intro allI impI)
    fix k x assume x: "get (o_lanes m) k = Some x"
    with a(1) obtain y where y: "get (o_lanes m') k = Some y" "terminal (ln_phase x) \<longrightarrow> y = x"
      "\<not> terminal (ln_phase x) \<longrightarrow> ln_phase y = Ph_cancelling \<or> ln_phase y = ln_phase x \<or> ln_phase x = Ph_queued" unfolding hushed_def by blast
    with a(2) obtain z where z: "get (o_lanes m'') k = Some z" "terminal (ln_phase y) \<longrightarrow> z = y"
      "\<not> terminal (ln_phase y) \<longrightarrow> ln_phase z = Ph_cancelling \<or> ln_phase z = ln_phase y \<or> ln_phase y = Ph_queued" unfolding hushed_def by blast
    with y show "\<exists>z. get (o_lanes m'') k = Some z \<and> (terminal (ln_phase x) \<longrightarrow> z = x) \<and>
        (\<not> terminal (ln_phase x) \<longrightarrow> ln_phase z = Ph_cancelling \<or> ln_phase z = ln_phase x \<or> ln_phase x = Ph_queued)" by auto
  qed
qed

lemma hushed_lanes: "o_lanes m = o_lanes v \<Longrightarrow> hushed m m' = hushed v m'"
  by (simp add: hushed_def)

lemma hushed_modify:
  assumes "get (o_lanes m) l = Some x" "\<not> terminal (ln_phase x)" "o_lanes m' = modify (o_lanes m) l (\<lambda>_. x')"
    "ln_phase x' = Ph_cancelling \<or> ln_phase x = Ph_queued"
  shows "hushed m m'"
  using assms unfolding hushed_def by auto

lemma queued_root:
  assumes ok: "orch_ok gen D F X {} m" and x: "get (o_lanes m) l = Some x" "ln_phase x = Ph_queued"
  shows "ln_parentId x = None" "kind_of m = Pipeline" "ln_children x = 0"
proof -
  show k: "kind_of m = Pipeline" "ln_children x = 0" using orch_okD(7) [OF ok x(1)] x(2) by (simp_all add: local_ok_def)
  show "ln_parentId x = None" using static_okD(5) [OF orch_okD(1) [OF ok] x(1)] k(1) by (cases "ln_parentId x") auto
qed

lemma finish_queued:
  assumes ok: "orch_ok gen D F X {} m" and x: "get (o_lanes m) l = Some x" "ln_phase x = Ph_queued"
    and stop: "o_stopReason m \<noteq> None" and sub: "X \<subseteq> insert l X'"
  shows "finish_lane (Suc n) ctx l Ph_cancelled m = Some (closed ctx l Ph_cancelled m)"
    "orch_ok gen D F X' {} (closed ctx l Ph_cancelled m)"
proof -
  note q = queued_root [OF ok x]
  have "may_end x Ph_cancelled" using x q by (simp add: may_end_def)
  from close_root_ok [OF ok x(1) q(1) this sub, of "{}" ctx]
  have c: "close_lane ctx l Ph_cancelled x m = Some (closed ctx l Ph_cancelled m)"
    and "orch_ok gen D F X' {} (closed ctx l Ph_cancelled m)" by auto
  then show "orch_ok gen D F X' {} (closed ctx l Ph_cancelled m)" by simp
  show "finish_lane (Suc n) ctx l Ph_cancelled m = Some (closed ctx l Ph_cancelled m)"
    using x q c stop by (simp add: finish_lane.simps settle_parent_def declare_winner_def advance_pipeline_def closed_fields)
qed

lemma cancelLane_ok:
  assumes ok: "orch_ok (ctx_ids ctx) D F X {} m" and x: "get (o_lanes m) l = Some x" and src: "orch_source (ctx_ids ctx) cap"
    and ph: "\<not> terminal (ln_phase x)" and stop: "o_stopReason m \<noteq> None" and sub: "X \<subseteq> insert l X'" and room: "o_seq m < cap"
  shows "\<exists>m'. cancelLane (finish_lane (Suc n) ctx) ctx l m = Some m' \<and> orch_ok (ctx_ids ctx) D F X' {} m' \<and>
    o_stopReason m' = o_stopReason m \<and> o_winner m' = o_winner m \<and> o_mergeRequested m' = o_mergeRequested m \<and>
    o_mergeStatus m' = o_mergeStatus m \<and> steady m m' \<and> hushed m m' \<and> o_seq m' \<le> Suc (o_seq m)"
proof (cases "ln_phase x = Ph_queued")
  case True
  from finish_queued [OF ok x True stop sub] hushed_modify [OF x ph closed_fields(7) [OF x]] True steady_closed x
  show ?thesis by (intro exI [of _ "closed ctx l Ph_cancelled m"]) (simp add: cancelLane_def closed_fields)
next
  case False
  from cancel_running_ok [OF ok x src ph False stop sub room, of "finish_lane (Suc n) ctx"]
  obtain m' x' where m': "cancelLane (finish_lane (Suc n) ctx) ctx l m = Some m'" "orch_ok (ctx_ids ctx) D F X' {} m'"
    "o_stopReason m' = o_stopReason m" "steady m m'" "o_lanes m' = modify (o_lanes m) l (\<lambda>_. x')" "ln_phase x' = Ph_cancelling" "o_seq m' \<le> Suc (o_seq m)" by blast
  moreover have "o_winner m' = o_winner m \<and> o_mergeRequested m' = o_mergeRequested m \<and> o_mergeStatus m' = o_mergeStatus m"
  proof (cases "ln_phase x = Ph_cancelling")
    case True with m'(1) x show ?thesis by (simp add: cancelLane_def)
  next
    case c: False
    with m'(1) x False show ?thesis by (auto simp: cancelLane_def dest: add_intent_cases)
  qed
  ultimately show ?thesis using hushed_modify [OF x ph m'(5)] by blast
qed

lemma cancel_loop_ok:
  assumes src: "orch_source (ctx_ids ctx) cap" and ex: "\<And>l x. except = Some l \<Longrightarrow> get (o_lanes m) l = Some x \<Longrightarrow> terminal (ln_phase x)"
    and ok: "orch_ok (ctx_ids ctx) D F (set ks) {} m" and stop: "o_stopReason m \<noteq> None" and room: "o_seq m + length ks \<le> cap"
  shows "\<exists>m'. foldM (cancel_unless (finish_lane (Suc n) ctx) ctx except) ks m = Some m' \<and> orch_ok (ctx_ids ctx) D F {} {} m' \<and>
    o_stopReason m' = o_stopReason m \<and> o_winner m' = o_winner m \<and> o_mergeRequested m' = o_mergeRequested m \<and>
    o_mergeStatus m' = o_mergeStatus m \<and> steady m m' \<and> hushed m m' \<and> o_seq m' \<le> o_seq m + length ks"
  using ex ok stop room
proof (induction ks arbitrary: m)
  case Nil then show ?case by simp
next
  case (Cons k ks)
  let ?c = "cancel_unless (finish_lane (Suc n) ctx) ctx except"
  note d = orch_okD [OF Cons.prems(2)]
  have "\<exists>u. ?c k m = Some u \<and> orch_ok (ctx_ids ctx) D F (set ks) {} u \<and> o_stopReason u = o_stopReason m \<and> o_winner u = o_winner m \<and>
      o_mergeRequested u = o_mergeRequested m \<and> o_mergeStatus u = o_mergeStatus m \<and> steady m u \<and> hushed m u \<and> o_seq u \<le> Suc (o_seq m)"
  proof (cases "get (o_lanes m) k")
    case None
    have "orch_ok (ctx_ids ctx) D F (set ks) {} m"
      using Cons.prems(2) None unfolding orch_ok_def stop_ok_def by (metis (no_types, lifting) option.distinct(1) set_ConsD)
    with None show ?thesis by (simp add: cancel_unless_def)
  next
    case (Some x)
    show ?thesis
    proof (cases "Some (ln_id x) = except \<or> terminal (ln_phase x) \<or> ln_phase x = Ph_cancelling")
      case True
      have t: "terminal (ln_phase x) \<or> ln_phase x = Ph_cancelling" using True Cons.prems(1) [of k x] d(8) [OF Some] Some by metis
      have "stop_ok (set ks) m" using d(3) t Some unfolding stop_ok_def by (metis option.inject set_ConsD)
      with Cons.prems(2) have "orch_ok (ctx_ids ctx) D F (set ks) {} m" by (simp add: orch_ok_def)
      with Some True show ?thesis by (auto simp: cancel_unless_def)
    next
      case False
      with cancelLane_ok [OF Cons.prems(2) Some src _ Cons.prems(3), of "set ks" n] Some Cons.prems(4)
      show ?thesis by (auto simp: cancel_unless_def)
    qed
  qed
  then obtain u where u: "?c k m = Some u" "orch_ok (ctx_ids ctx) D F (set ks) {} u" "o_stopReason u = o_stopReason m"
    "o_winner u = o_winner m" "o_mergeRequested u = o_mergeRequested m" "o_mergeStatus u = o_mergeStatus m" "steady m u" "hushed m u"
    "o_seq u \<le> Suc (o_seq m)" by blast
  have ex: "terminal (ln_phase y)" if "except = Some l" "get (o_lanes u) l = Some y" for l y
  proof -
    have "has (o_lanes m) l" using u(7) that(2) in_keys_iff [of l] unfolding steady_def by (metis has_Some set_map)
    then obtain z where z: "get (o_lanes m) l = Some z" by (auto simp: has_iff)
    with Cons.prems(1) [OF that(1) z] u(8) that(2) show ?thesis unfolding hushed_def by fastforce
  qed
  have "o_stopReason u \<noteq> None" "o_seq u + length ks \<le> cap" using u(3,9) Cons.prems(3,4) by simp_all
  from Cons.IH [of u, OF _ u(2) this] ex u obtain m' where "foldM ?c ks u = Some m'" "orch_ok (ctx_ids ctx) D F {} {} m'"
    "o_stopReason m' = o_stopReason m" "o_winner m' = o_winner m" "o_mergeRequested m' = o_mergeRequested m"
    "o_mergeStatus m' = o_mergeStatus m" "steady u m'" "hushed u m'" "o_seq m' \<le> o_seq u + length ks" by metis
  with u show ?case using steady_trans [OF u(7)] hushed_trans [OF u(8)] by simp
qed

lemma drop_merge_fields [simp]:
  "o_lanes (drop_merge m) = o_lanes m" "o_input (drop_merge m) = o_input m" "o_stopReason (drop_merge m) = o_stopReason m"
  "o_winner (drop_merge m) = o_winner m" "o_mergeRequested (drop_merge m) = o_mergeRequested m" "o_seq (drop_merge m) = o_seq m"
  "o_mergeStatus (drop_merge m) \<noteq> Merge_pending"
  by (simp_all add: drop_merge_def)

lemma job_merge_upd [simp]: "job (m\<lparr>o_mergeStatus := s\<rparr>) = job m" "job (m\<lparr>o_winner := w\<rparr>) = job m"
  "job (m\<lparr>o_stopReason := r\<rparr>) = job m" "job (m\<lparr>o_mergeRequested := b\<rparr>) = job m"
  by (simp_all add: job_def fun_eq_iff)

lemma job_drop_merge:
  assumes "keys_distinct m" "\<And>i e. job m i = Some e \<Longrightarrow> op_of e = Ef_merge \<Longrightarrow> o_mergeStatus m = Merge_pending"
  shows "job (drop_merge m) = pruned (\<lambda>e. op_of e = Ef_merge) m"
proof (cases "o_mergeStatus m = Merge_pending")
  case True
  then show ?thesis using assms(1)
    by (simp add: drop_merge_def fun_eq_iff job_drop_intents pruned_def split: option.splits)
next
  case False
  then have "job m i = Some e \<Longrightarrow> op_of e \<noteq> Ef_merge" for i e using assms(2) by blast
  with False show ?thesis by (auto simp: drop_merge_def pruned_def fun_eq_iff split: option.splits)
qed

lemma fits_other: "op_of e \<noteq> Ef_merge \<Longrightarrow> fits m x e = fits m' x e"
  by (cases e) auto

text \<open>Without its merge intents a run may change its winner and its stop reason.\<close>

lemma halted_ok:
  assumes ok: "orch_ok gen D F X {} m" and lanes: "o_lanes m' = o_lanes m" and stat: "static_ok m'" "o_input m' = o_input m" "o_seq m' = o_seq m"
    and jobs: "job m' = pruned (\<lambda>e. op_of e = Ef_merge) m"
    and stop: "stop_ok X' m'" and merge: "o_mergeRequested m' \<Longrightarrow> o_stopReason m' = Some Stop_winner" "o_mergeStatus m' \<noteq> Merge_pending"
    and win: "\<And>w. o_winner m' = Some w \<Longrightarrow> \<exists>x. get (o_lanes m) w = Some x \<and> ln_phase x = Ph_succeeded"
  shows "orch_ok gen D F X' {} m'"
proof -
  note d = orch_okD [OF ok]
  have "kids D F m'" using d(2) lanes by (simp add: kids_def open_kids_def failed_kids_def)
  moreover have "merge_ok m'" using merge win by (simp add: merge_ok_def lanes)
  moreover have "jobs_ok gen {} m'" unfolding jobs_ok_def
  proof (intro conjI allI impI)
    fix i e assume "job m' i = Some e"
    then have e: "job m i = Some e" "op_of e \<noteq> Ef_merge" by (simp_all add: jobs)
    show "\<exists>n<o_seq m'. i = gen Kind_intent n" using d(12) [OF e(1)] stat(3) by simp
    show "\<exists>x. get (o_lanes m') (effect_lane e) = Some x \<and> ln_attempt x = effect_attempt e \<and> fits m' x e"
      using d(11) [OF e(1)] fits_other [OF e(2)] lanes by metis
  next
    fix l show "once (job m') l" using d(13) [of l] unfolding once_def jobs pruned_Some by blast
  next
    fix k x op assume a: "get (o_lanes m') k = Some x" "required_intent x = Some op"
    then have "holds (job m) k op" using d(14) [of k x op] lanes by simp
    moreover have "op \<noteq> Ef_merge" using a(2) by (auto simp: required_intent_def split: if_splits)
    ultimately show "holds (job m') k op" unfolding holds_def jobs pruned_Some by blast
  qed
  ultimately show ?thesis using d(7) stat stop lanes by (simp add: orch_ok_def)
qed

lemma cancelAll_ok:
  assumes ok: "orch_ok (ctx_ids ctx) D F X {} m" and src: "orch_source (ctx_ids ctx) cap"
    and v: "o_lanes v = o_lanes m" "steady m v" "o_seq v = o_seq m" "job v = job m" "o_mergeStatus m = Merge_pending \<Longrightarrow> o_mergeStatus v = Merge_pending"
    and win: "\<And>w. o_winner v = Some w \<Longrightarrow> \<exists>x. get (o_lanes m) w = Some x \<and> ln_phase x = Ph_succeeded"
    and ex: "\<And>l x. except = Some l \<Longrightarrow> get (o_lanes m) l = Some x \<Longrightarrow> terminal (ln_phase x)"
    and room: "o_seq m + length (o_lanes m) \<le> cap"
  shows "\<exists>m'. cancelAll (finish_lane (Suc n) ctx) ctx reason except v = Some m' \<and> orch_ok (ctx_ids ctx) D F {} {} m' \<and>
    o_stopReason m' = Some reason \<and> o_winner m' = o_winner v \<and> \<not> o_mergeRequested m' \<and> o_mergeStatus m' \<noteq> Merge_pending \<and>
    steady m m' \<and> hushed m m' \<and> o_seq m' \<le> o_seq m + length (o_lanes m)"
proof -
  note d = orch_okD [OF ok]
  define u where "u = drop_merge (v\<lparr>o_stopReason := Some reason, o_mergeRequested := False\<rparr>)"
  have u: "o_lanes u = o_lanes m" "o_seq u = o_seq m" "o_stopReason u = Some reason" "\<not> o_mergeRequested u"
    "o_mergeStatus u \<noteq> Merge_pending" "o_winner u = o_winner v" by (simp_all add: u_def v)
  have st: "steady m u"
  proof -
    have "steady v (v\<lparr>o_stopReason := Some reason, o_mergeRequested := False\<rparr>)" by (rule steady_frame) simp_all
    from steady_trans [OF steady_trans [OF v(2) this] steady_clear(3)] show ?thesis by (simp add: u_def)
  qed
  have pend: "o_mergeStatus v = Merge_pending" if "job m i = Some e" "op_of e = Ef_merge" for i e
  proof -
    from d(11) [OF that(1)] obtain x where "fits m x e" by blast
    with that(2) have "o_mergeStatus m = Merge_pending" by (cases e) auto
    then show ?thesis by (rule v(5))
  qed
  have k: "keys_distinct v" using v(2) d(6) by (simp add: steady_def)
  have jobs: "job u = pruned (\<lambda>e. op_of e = Ef_merge) m"
    using job_drop_merge [of "v\<lparr>o_stopReason := Some reason, o_mergeRequested := False\<rparr>"] k pend v(4)
    by (simp add: u_def pruned_def fun_eq_iff)
  have "stop_ok (set (okeys (o_lanes u))) u"
    using u(1,3) by (auto simp: stop_ok_def has_def)
  then have "orch_ok (ctx_ids ctx) D F (set (okeys (o_lanes u))) {} u"
    using u win st by (intro halted_ok [OF ok u(1) static_steady [OF st d(1)] _ u(2) jobs]) (auto simp: steady_def)
  moreover have "length (okeys (o_lanes u)) = length (o_lanes m)" using length_okeys [of "o_lanes m"] d(6) by (simp add: u(1))
  ultimately obtain m' where "foldM (cancel_unless (finish_lane (Suc n) ctx) ctx except) (okeys (o_lanes u)) u = Some m'"
    "orch_ok (ctx_ids ctx) D F {} {} m'" "o_stopReason m' = Some reason" "o_winner m' = o_winner v" "\<not> o_mergeRequested m'"
    "o_mergeStatus m' \<noteq> Merge_pending" "steady u m'" "hushed u m'" "o_seq m' \<le> o_seq m + length (o_lanes m)"
    using cancel_loop_ok [OF src, of except u D F "okeys (o_lanes u)" n] ex u room by auto
  then show ?thesis using steady_trans [OF st] hushed_lanes [OF u(1)] unfolding cancelAll_def Let_def u_def [symmetric] by auto
qed

subsection \<open>Failing, reconciling and finishing\<close>

definition same_role :: "lane \<Rightarrow> lane \<Rightarrow> bool" where
  "same_role x x' \<longleftrightarrow> same_place x x' \<and> ln_phase x' = ln_phase x \<and> ln_attempt x' = ln_attempt x \<and> ln_children x' = ln_children x \<and>
     ln_failedChildren x' = ln_failedChildren x \<and> ln_threadDone x' = ln_threadDone x \<and> ln_checksPassed x' = ln_checksPassed x \<and>
     ln_artifact x' = ln_artifact x \<and> (ln_phase x = Ph_queued \<or> ln_phase x = Ph_starting \<longrightarrow> ln_threadId x' = ln_threadId x) \<and>
     ((ln_threadId x = None \<longleftrightarrow> ln_worktree x = None) \<longrightarrow> (ln_threadId x' = None \<longleftrightarrow> ln_worktree x' = None))"

lemma fits_role: "ln_phase x' = ln_phase x \<Longrightarrow> ln_artifact x' = ln_artifact x \<Longrightarrow> fits m x' e = fits m x e"
  by (cases e) auto

lemma stop_okD:
  "stop_ok X m \<Longrightarrow> get (o_lanes m) k = Some x \<Longrightarrow> o_stopReason m \<noteq> None \<Longrightarrow> k \<notin> X \<Longrightarrow> terminal (ln_phase x) \<or> ln_phase x = Ph_cancelling"
  "stop_ok X m \<Longrightarrow> get (o_lanes m) k = Some x \<Longrightarrow> ln_phase x = Ph_cancelling \<Longrightarrow> o_stopReason m \<noteq> None"
  by (auto simp: stop_ok_def)

lemma quiet_ok:
  assumes ok: "orch_ok gen D F X Y m" and f: "\<And>x. same_role x (f x)"
  shows "orch_ok gen D F X Y (upd_lane l f m)"
proof (cases "get (o_lanes m) l")
  case None
  then have "upd_lane l f m = m" by (simp add: upd_lane_def modify_id)
  with ok show ?thesis by simp
next
  case (Some x)
  note d = orch_okD [OF ok] and r = f [of x, unfolded same_role_def]
  have st: "steady m (upd_lane l f m)" by (rule steady_upd_lane) (use f in \<open>simp_all add: same_role_def\<close>)
  have lanes: "o_lanes (upd_lane l f m) = modify (o_lanes m) l (\<lambda>_. f x)" using Some by (simp add: modify_def)
  show ?thesis
  proof (rule refit_drop [OF ok Some lanes, where P = "\<lambda>_. False"])
    show "static_ok (upd_lane l f m)" by (rule static_steady [OF st d(1)])
    show "kids D F (upd_lane l f m)" by (rule kids_quiet [OF d(2) Some lanes]) (use r in \<open>simp_all add: same_place_def\<close>)
    show "local_ok (o_input m) Y l (f x)" using d(7) [OF Some] r by (auto simp: local_ok_def)
    show "\<exists>i e. job m i = Some e \<and> effect_lane e = l \<and> op_of e = op \<and> \<not> False" if "l \<notin> Y" "required_intent (f x) = Some op" for op
    proof -
      have "required_intent (f x) = required_intent x" using r by (simp add: required_intent_def)
      with d(14) [OF Some that(1)] that(2) show ?thesis by (simp add: holds_def)
    qed
    show "o_winner m = Some l \<Longrightarrow> ln_phase (f x) = Ph_succeeded" using winner_succeeded [OF ok Some] r by simp
  qed (use r stop_okD [OF d(3) Some] fits_role [of "f x" x m] in auto)
qed

text \<open>The identities that the end of a lane may draw, in calls of depth \<open>n\<close>.\<close>

definition draw :: "nat \<Rightarrow> orch \<Rightarrow> nat" where
  "draw n m = n * (2 * length (o_lanes m) + 2)"

definition fin_ok :: "orch_context \<Rightarrow> nat \<Rightarrow> nat \<Rightarrow> bool" where
  "fin_ok ctx cap n \<longleftrightarrow> (\<forall>l x outcome m. orch_ok (ctx_ids ctx) owed_nothing owed_nothing {} {l} m \<longrightarrow> get (o_lanes m) l = Some x \<longrightarrow>
     may_end x outcome \<longrightarrow> ln_depth x + 2 \<le> n \<longrightarrow> o_seq m + draw n m \<le> cap \<longrightarrow>
     (\<exists>m'. finish_lane n ctx l outcome m = Some m' \<and> settled (ctx_ids ctx) m' \<and> o_seq m' \<le> o_seq m + draw n m))"

lemma fin_okD:
  "fin_ok ctx cap n \<Longrightarrow> orch_ok (ctx_ids ctx) owed_nothing owed_nothing {} {l} m \<Longrightarrow> get (o_lanes m) l = Some x \<Longrightarrow>
     may_end x outcome \<Longrightarrow> ln_depth x + 2 \<le> n \<Longrightarrow> o_seq m + draw n m \<le> cap \<Longrightarrow>
     \<exists>m'. finish_lane n ctx l outcome m = Some m' \<and> settled (ctx_ids ctx) m' \<and> o_seq m' \<le> o_seq m + draw n m"
  by (simp add: fin_ok_def)

lemma draw_steady: "steady m m' \<Longrightarrow> draw n m' = draw n m" "steady m m' \<Longrightarrow> length (o_lanes m') = length (o_lanes m)"
proof -
  show "length (o_lanes m') = length (o_lanes m)" if "steady m m'" using that unfolding steady_def by (metis length_map)
  then show "draw n m' = draw n m" if "steady m m'" using that by (simp add: draw_def)
qed

lemma draw_pos: "0 < n \<Longrightarrow> 2 \<le> draw n m"
  by (cases n) (simp_all add: draw_def)

lemma children_nonneg: "orch_ok gen owed_nothing owed_nothing X Y m \<Longrightarrow> get (o_lanes m) l = Some x \<Longrightarrow> 0 \<le> ln_children x"
  using orch_okD(9) [of gen owed_nothing owed_nothing X Y m l x] open_kids_nonneg(1) [of l m] by simp

lemma rephase_ok:
  assumes ok: "orch_ok gen D F X Y m" and x: "get (o_lanes m) l = Some x" "running_phase (ln_phase x)" "ln_phase x \<noteq> Ph_checking"
    and lanes: "o_lanes m' = modify (o_lanes m) l (\<lambda>_. z)" and st: "steady m m'"
    and glob: "o_input m' = o_input m" "o_stopReason m' = o_stopReason m" "o_winner m' = o_winner m"
      "o_mergeRequested m' = o_mergeRequested m" "o_mergeStatus m' = o_mergeStatus m" "o_seq m' = o_seq m" "job m' = job m"
    and z: "running_phase (ln_phase z)" "ln_phase z \<noteq> Ph_checking" "ln_phase z = Ph_starting \<Longrightarrow> ln_phase x = Ph_starting \<and> l \<notin> Y"
      "ln_attempt z = ln_attempt x" "ln_parentId z = ln_parentId x" "ln_children z = ln_children x" "ln_failedChildren z = ln_failedChildren x"
      "(ln_threadId x = None \<longleftrightarrow> ln_worktree x = None) \<longrightarrow> (ln_threadId z = None \<longleftrightarrow> ln_worktree z = None)"
      "ln_phase z = Ph_starting \<Longrightarrow> ln_threadId z = ln_threadId x"
    and sub: "Y \<subseteq> insert l Y'"
  shows "orch_ok gen D F X Y' m'"
proof (rule refit_drop [OF ok x(1) lanes, where P = "\<lambda>_. False"])
  note d = orch_okD [OF ok]
  have q: "\<not> terminal (ln_phase x)" "\<not> terminal (ln_phase z)" "ln_phase x \<noteq> Ph_succeeded" "ln_phase z \<noteq> Ph_succeeded"
    and p: "ln_phase z \<noteq> Ph_queued" "ln_phase z \<noteq> Ph_cancelling" "ln_phase x \<noteq> Ph_cancelling"
    using running_phaseD [OF x(2)] running_phaseD [OF z(1)] by auto
  show "static_ok m'" by (rule static_steady [OF st d(1)])
  show "kids D F m'" by (rule kids_quiet [OF d(2) x(1) lanes]) (simp_all add: q z)
  show "local_ok (o_input m) Y' l z" using d(7) [OF x(1)] z(2,3,4,8,9) q p by (auto simp: local_ok_def)
  show "\<exists>i e. job m i = Some e \<and> effect_lane e = l \<and> op_of e = op \<and> \<not> False" if "required_intent z = Some op" for op
    using that z(2,3) p d(14) [OF x(1), of op] by (auto simp: required_intent_def holds_def split: if_splits)
  show "o_winner m = Some l \<Longrightarrow> ln_phase z = Ph_succeeded" using winner_succeeded [OF ok x(1)] q by blast
  show "ln_attempt z = effect_attempt e \<and> fits m z e" if "job m i = Some e" "effect_lane e = l" "ln_attempt x = effect_attempt e" for i e
    using lane_intents [OF ok x(1) that(1,2)] x(3) z(1,4) that(3) p q by (cases e) simp_all
  show "terminal (ln_phase z) \<or> ln_phase z = Ph_cancelling" if "o_stopReason m \<noteq> None" "l \<notin> X"
    using stop_okD(1) [OF d(3) x(1) that] q p by blast
  show "o_stopReason m \<noteq> None" if "ln_phase z = Ph_cancelling" using that p by blast
qed (use glob sub in auto)

lemma fail_ok:
  assumes src: "orch_source (ctx_ids ctx) cap" and fin: "fin_ok ctx cap n"
    and ok: "orch_ok (ctx_ids ctx) owed_nothing owed_nothing {} {l} m" and x: "get (o_lanes m) l = Some x"
    and run: "running_phase (ln_phase x)" "ln_phase x = Ph_checking \<Longrightarrow> ln_children x = 0" and depth: "ln_depth x + 2 \<le> n"
    and room: "o_seq m + draw n m \<le> cap"
  shows "\<exists>m'. fail_lane (finish_lane n ctx) ctx l err m = Some m' \<and> settled (ctx_ids ctx) m' \<and> o_seq m' \<le> o_seq m + draw n m"
proof -
  define u where "u = upd_lane l (\<lambda>x. x\<lparr>ln_error := Some err\<rparr>) m"
  define y where "y = x\<lparr>ln_error := Some err\<rparr>"
  have oku: "orch_ok (ctx_ids ctx) owed_nothing owed_nothing {} {l} u" unfolding u_def
    by (rule quiet_ok [OF ok]) (simp add: same_role_def same_place_def)
  note d = orch_okD [OF oku]
  have y: "get (o_lanes u) l = Some y" using x by (simp add: u_def y_def)
  have r: "running_phase (ln_phase y)" "ln_depth y + 2 \<le> n" using run depth by (simp_all add: y_def)
  have stop: "o_stopReason u = None" using stop_okD(1) [OF d(3) y] running_phaseD [OF r(1)] by (cases "o_stopReason u") auto
  have "steady m u" unfolding u_def by (rule steady_upd_lane) (simp_all add: same_place_def)
  then have q: "o_seq u = o_seq m" "draw n u = draw n m" "2 \<le> draw n m" using depth draw_steady draw_pos [of n m] by (simp_all add: u_def)
  consider (join) "ln_children y > 0"
    | (retry) "\<not> ln_children y > 0" "ln_failedChildren y = 0" "ln_attempt y < bud_maxAttempts (budget_of u)"
    | (fin) "\<not> ln_children y > 0" "\<not> (ln_failedChildren y = 0 \<and> ln_attempt y < bud_maxAttempts (budget_of u))" by blast
  then show ?thesis
  proof cases
    case join
    let ?v = "set_phase l Ph_joining (upd_lane l (\<lambda>x. x\<lparr>ln_checksPassed := Some False, ln_threadDone := True\<rparr>) u)"
    have "ln_phase y \<noteq> Ph_checking" using join run(2) by (auto simp: y_def)
    then have "settled (ctx_ids ctx) ?v"
    proof (rule rephase_ok [OF oku y r(1), where z = "y\<lparr>ln_checksPassed := Some False, ln_threadDone := True, ln_phase := Ph_joining\<rparr>"])
      show "steady u ?v" by (rule steady_trans [OF steady_upd_lane steady_set_phase]) (simp_all add: same_place_def)
    qed (use y in \<open>simp_all add: running_phase_def modify_def\<close>)
    moreover have "fail_lane (finish_lane n ctx) ctx l err m = Some ?v"
      using join y by (simp add: fail_lane_def Let_def flip: u_def)
    moreover have "o_seq ?v = o_seq m" by (simp add: q)
    ultimately show ?thesis by auto
  next
    case retry
    let ?v = "upd_lane l retry_lane (clearLaneIntents l u)"
    have "\<exists>m'. start_lane ctx l None ?v = Some m' \<and> settled (ctx_ids ctx) m' \<and> steady ?v m' \<and> o_stopReason m' = None \<and> o_seq m' = Suc (o_seq u)"
    proof (rule start_ok [OF oku y src, where y = "retry_lane y" and P = "\<lambda>e. effect_lane e = l \<and> op_of e \<noteq> Ef_merge"])
      show "steady u ?v" by (rule steady_trans [OF steady_clear(1) steady_upd_lane]) (simp_all add: same_place_def retry_lane_def)
      show "job ?v = pruned (\<lambda>e. effect_lane e = l \<and> op_of e \<noteq> Ef_merge) u" by (simp add: job_clears [OF d(6)])
      show "effect_lane e = l \<and> op_of e \<noteq> Ef_merge" if "job u i = Some e" "effect_lane e = l" for i e
        using lane_intents(5) [OF oku y that] r(1) that by (auto simp: running_phase_def)
    qed (use y r stop retry q room in \<open>auto simp: retry_lane_def modify_def running_phase_def\<close>)
    moreover have "fail_lane (finish_lane n ctx) ctx l err m = start_lane ctx l None ?v"
      using retry y stop by (simp add: fail_lane_def Let_def flip: u_def)
    ultimately show ?thesis using q by auto
  next
    case fin
    have "may_end y Ph_failed" using fin(1) children_nonneg [OF oku y] running_phaseD [OF r(1)] by (simp add: may_end_def)
    from fin_okD [OF assms(2) oku y this r(2)] show ?thesis
      using fin y stop q room by (auto simp: fail_lane_def Let_def simp flip: u_def)
  qed
qed

lemma check_ok:
  assumes src: "orch_source (ctx_ids ctx) cap" and ok: "orch_ok (ctx_ids ctx) D F {} {} m" and x: "get (o_lanes m) l = Some x"
    and run: "running_phase (ln_phase x)" "ln_phase x \<noteq> Ph_checking" and c: "ln_threadDone x" "ln_children x = 0" "ln_checksPassed x = None"
    "ln_artifact x = Some a" and room: "o_seq m < cap"
  shows "\<exists>m'. add_intent ctx (Check_effect l (ln_attempt x) a) (set_phase l Ph_checking m) = Some m' \<and> orch_ok (ctx_ids ctx) D F {} {} m' \<and>
    o_seq m' = Suc (o_seq m)"
proof -
  define z where "z = x\<lparr>ln_phase := Ph_checking\<rparr>"
  define v where "v = set_phase l Ph_checking m"
  define e where "e = Check_effect l (ln_attempt x) a"
  note d = orch_okD [OF ok]
  have v: "o_lanes v = modify (o_lanes m) l (\<lambda>_. z)" "job v = job m" "o_seq v = o_seq m"
    "o_input v = o_input m" "o_stopReason v = o_stopReason m"
    "o_winner v = o_winner m" "o_mergeRequested v = o_mergeRequested m" "o_mergeStatus v = o_mergeStatus m"
    using modify_const [OF x] by (simp_all add: v_def z_def)
  have "\<forall>i e. job v i = Some e \<longrightarrow> (\<exists>n < o_seq v. i = ctx_ids ctx Kind_intent n)" using d(12) by (simp add: v)
  from add_intent_total [OF src this, of e] room obtain m' where m': "add_intent ctx e v = Some m'"
    "\<forall>i. job m' i = (if i = ctx_ids ctx Kind_intent (o_seq m) then Some e else pruned (\<lambda>_. False) m i)" unfolding v pruned_none by blast
  note w = add_intent_cases [OF m'(1)]
  have lanes: "o_lanes m' = modify (o_lanes m) l (\<lambda>_. z)" using w(1) v(1) by simp
  have st: "steady m m'" by (rule steady_trans [OF steady_set_phase steady_add_intent [OF m'(1) [unfolded v_def]]])
  note q = running_phaseD [OF run(1)]
  have stop: "o_stopReason m = None" using stop_okD(1) [OF d(3) x] q by (cases "o_stopReason m") auto
  have "orch_ok (ctx_ids ctx) D F {} {} m'"
  proof (rule refit_add [OF ok x lanes, where P = "\<lambda>_. False" and eff = e])
    show "static_ok m'" by (rule static_steady [OF st d(1)])
    show "kids D F m'" by (rule kids_quiet [OF d(2) x lanes]) (use q in \<open>auto simp: z_def\<close>)
    show "local_ok (o_input m) {} l z" using d(7) [OF x] c by (simp add: local_ok_def z_def)
    show "o_winner m = Some l \<Longrightarrow> ln_phase z = Ph_succeeded" using winner_succeeded [OF ok x] q by auto
    show "ln_attempt z = effect_attempt e' \<and> fits m z e' \<and> op_of e' \<noteq> op_of e"
      if "job m i = Some e'" "effect_lane e' = l" "ln_attempt x = effect_attempt e'" for i e'
      using lane_intents [OF ok x that(1,2)] that(3) run q by (cases e') (auto simp: z_def e_def running_phase_def)
  qed (use w v m'(2) stop orch_source.gen_inj [OF src] c in \<open>auto simp: z_def e_def required_intent_def\<close>)
  with m'(1) w(8) v(3) show ?thesis by (auto simp: v_def e_def)
qed

lemma reconcile_ok:
  assumes src: "orch_source (ctx_ids ctx) cap" and fin: "fin_ok ctx cap n" and ok: "settled (ctx_ids ctx) m"
    and depth: "\<And>x. get (o_lanes m) l = Some x \<Longrightarrow> ln_depth x + 2 \<le> n" and room: "o_seq m + draw n m \<le> cap"
  shows "\<exists>m'. reconcile_lane (finish_lane n ctx) ctx l m = Some m' \<and> settled (ctx_ids ctx) m' \<and> o_seq m' \<le> o_seq m + draw n m"
proof (cases "get (o_lanes m) l")
  case None with ok show ?thesis by (simp add: reconcile_lane_def)
next
  case (Some x)
  note d = orch_okD [OF ok] and loc = orch_okD(7) [OF ok Some, unfolded local_ok_def] and dep = depth [OF Some]
  have ok': "orch_ok (ctx_ids ctx) owed_nothing owed_nothing {} {l} m" by (rule orch_ok_mono [OF ok]) auto
  show ?thesis
  proof (cases "terminal (ln_phase x) \<or> ln_phase x = Ph_cancelling \<or> \<not> ln_threadDone x")
    case True with Some ok show ?thesis by (auto simp: reconcile_lane_def)
  next
    case False
    then have run: "running_phase (ln_phase x)" using loc by (intro running_phaseI) auto
    consider (join) "ln_children x > 0" | (bad) "ln_children x = 0" "ln_failedChildren x > 0 \<or> ln_checksPassed x = Some False"
      | (collect) "ln_children x = 0" "\<not> (ln_failedChildren x > 0 \<or> ln_checksPassed x = Some False)" "ln_artifact x = None"
      | (art) a where "ln_children x = 0" "\<not> (ln_failedChildren x > 0 \<or> ln_checksPassed x = Some False)" "ln_artifact x = Some a"
      using children_nonneg [OF ok Some] by (cases "ln_artifact x") fastforce+
    then show ?thesis
    proof cases
      case join
      then have "settled (ctx_ids ctx) (set_phase l Ph_joining m)"
        by (intro rephase_ok [OF ok Some run, where z = "x\<lparr>ln_phase := Ph_joining\<rparr>"])
          (use loc Some steady_set_phase in \<open>auto simp: running_phase_def modify_def\<close>)
      moreover have "o_seq (set_phase l Ph_joining m) = o_seq m" by simp
      ultimately show ?thesis using join Some False by (auto simp: reconcile_lane_def simp del: set_phase_fields)
    next
      case bad
      from fail_ok [OF src fin ok' Some run _ dep room] bad Some False show ?thesis by (auto simp: reconcile_lane_def)
    next
      case collect
      then have "settled (ctx_ids ctx) (set_phase l Ph_collecting m)"
        by (intro rephase_ok [OF ok Some run, where z = "x\<lparr>ln_phase := Ph_collecting\<rparr>"])
          (use loc Some steady_set_phase in \<open>auto simp: running_phase_def modify_def\<close>)
      moreover have "o_seq (set_phase l Ph_collecting m) = o_seq m" by simp
      ultimately show ?thesis using collect Some False by (auto simp: reconcile_lane_def simp del: set_phase_fields)
    next
      case (art a)
      consider "ln_checksPassed x = Some True" | "ln_checksPassed x = None" "ln_phase x \<noteq> Ph_checking"
        | "ln_checksPassed x = None" "ln_phase x = Ph_checking" using art(2) by (cases "ln_checksPassed x") auto
      then show ?thesis
      proof cases
        case 1
        with art False have "may_end x Ph_succeeded" by (auto simp: may_end_def)
        from fin_okD [OF fin ok' Some this dep room] 1 art Some False show ?thesis by (auto simp: reconcile_lane_def)
      next
        case 2
        have "o_seq m < cap" "Suc (o_seq m) \<le> o_seq m + draw n m" using room dep draw_pos [of n m] by simp_all
        with check_ok [OF src ok Some run 2(2) _ art(1) 2(1) art(3)] 2 art Some False show ?thesis by (auto simp: reconcile_lane_def)
      next
        case 3 with ok art Some False show ?thesis by (auto simp: reconcile_lane_def)
      qed
    qed
  qed
qed

lemma winner_ok:
  assumes src: "orch_source (ctx_ids ctx) cap" and ok: "settled (ctx_ids ctx) m" and x: "get (o_lanes m) l = Some x" "ln_phase x = outcome" "terminal outcome"
    and room: "o_seq m + length (o_lanes m) \<le> cap"
  shows "\<exists>m'. declare_winner (finish_lane (Suc n) ctx) ctx l outcome m = Some m' \<and> settled (ctx_ids ctx) m' \<and> steady m m' \<and>
    (kind_of m \<noteq> Race \<longrightarrow> m' = m) \<and> o_seq m' \<le> o_seq m + length (o_lanes m)"
proof (cases "outcome = Ph_succeeded \<and> kind_of m = Race \<and> o_winner m = None")
  case True
  define v where "v = orch_emit (Winner_event l) (m\<lparr>o_winner := Some l\<rparr>)"
  have s: "steady m v" unfolding v_def by (rule steady_frame) simp_all
  have "\<exists>m'. cancelAll (finish_lane (Suc n) ctx) ctx Stop_winner (Some l) v = Some m' \<and> settled (ctx_ids ctx) m' \<and>
    o_stopReason m' = Some Stop_winner \<and> o_winner m' = o_winner v \<and> \<not> o_mergeRequested m' \<and> o_mergeStatus m' \<noteq> Merge_pending \<and>
    steady m m' \<and> hushed m m' \<and> o_seq m' \<le> o_seq m + length (o_lanes m)"
    by (rule cancelAll_ok [OF ok src _ s]) (use x True room in \<open>simp_all add: v_def\<close>)
  with True show ?thesis by (auto simp: declare_winner_def v_def)
next
  case False
  with ok show ?thesis by (auto simp: declare_winner_def)
qed

lemma advance_ok:
  assumes src: "orch_source (ctx_ids ctx) cap" and ok: "settled (ctx_ids ctx) m" and room: "o_seq m + length (o_lanes m) < cap"
  shows "\<exists>m'. advance_pipeline (finish_lane (Suc n) ctx) ctx l outcome m = Some m' \<and> settled (ctx_ids ctx) m' \<and>
    o_seq m' \<le> Suc (o_seq m + length (o_lanes m))"
proof (cases "kind_of m = Pipeline \<and> o_stopReason m = None")
  case True
  have c: "\<exists>m'. cancelAll (finish_lane (Suc n) ctx) ctx Stop_cancelled None m = Some m' \<and> settled (ctx_ids ctx) m' \<and>
      o_seq m' \<le> Suc (o_seq m + length (o_lanes m))"
    using cancelAll_ok [OF ok src, of m None n Stop_cancelled] orch_okD(4) [OF ok] room by (fastforce simp: merge_ok_def)
  have s: "\<exists>m'. start_lane ctx k a m = Some m' \<and> settled (ctx_ids ctx) m' \<and> o_seq m' \<le> Suc (o_seq m + length (o_lanes m))"
    if q: "map_option ln_phase (get (o_lanes m) k) = Some Ph_queued" for k a
  proof -
    from q obtain y where y: "get (o_lanes m) k = Some y" "ln_phase y = Ph_queued" by auto
    have none: "effect_lane e \<noteq> k" if e: "job m i = Some e" for i e
    proof
      assume "effect_lane e = k"
      from lane_intents [OF ok y(1) e this] y(2) show False by (cases "op_of e") (auto simp: running_phase_def)
    qed
    have "\<exists>m'. start_lane ctx k a m = Some m' \<and> settled (ctx_ids ctx) m' \<and> steady m m' \<and> o_stopReason m' = None \<and> o_seq m' = Suc (o_seq m)"
      by (rule start_ok [OF ok y(1) src, where P = "\<lambda>_. False" and y = y])
        (use True y none orch_okD(7) [OF ok y(1)] room in \<open>auto simp: modify_def put_same local_ok_def\<close>)
    then show ?thesis by auto
  qed
  show ?thesis using True c s ok unfolding advance_pipeline_def by (auto split: option.split)
next
  case False with ok show ?thesis by (auto simp: advance_pipeline_def)
qed

lemma finish_ok:
  assumes src: "orch_source (ctx_ids ctx) cap" shows "fin_ok ctx cap n"
proof (induction n)
  case 0 show ?case by (simp add: fin_ok_def)
next
  case (Suc n)
  show ?case unfolding fin_ok_def
  proof (intro allI impI)
    fix l x outcome m
    assume ok: "orch_ok (ctx_ids ctx) owed_nothing owed_nothing {} {l} m" and x: "get (o_lanes m) l = Some x"
      and e: "may_end x outcome" and dep: "ln_depth x + 2 \<le> Suc n" and room: "o_seq m + draw (Suc n) m \<le> cap"
    then obtain k where n: "n = Suc k" by (cases n) auto
    have t: "\<not> terminal (ln_phase x)" "terminal outcome" using e by (simp_all add: may_end_def)
    let ?fin = "finish_lane n ctx"
    have q: "draw (Suc n) m = draw n m + 2 * length (o_lanes m) + 2" by (simp add: draw_def)
    show "\<exists>m'. finish_lane (Suc n) ctx l outcome m = Some m' \<and> settled (ctx_ids ctx) m' \<and> o_seq m' \<le> o_seq m + draw (Suc n) m"
    proof (cases "ln_parentId x")
      case None
      define u where "u = closed ctx l outcome m"
      have u: "close_lane ctx l outcome x m = Some u" "settled (ctx_ids ctx) u"
        using close_root_ok [OF ok x None e, of "{}" "{}" ctx] by (auto simp: u_def)
      obtain y where y: "get (o_lanes u) l = Some y" "ln_phase y = outcome" using closed_fields(7) [OF x] x by (simp add: u_def)
      have su: "o_seq u = o_seq m" "length (o_lanes u) = length (o_lanes m)"
        using draw_steady(2) [OF steady_closed] by (simp_all add: u_def closed_fields)
      then have "o_seq u + length (o_lanes u) \<le> cap" using room q by simp
      from winner_ok [OF src u(2) y t(2) this, of k] obtain v where v: "declare_winner ?fin ctx l outcome u = Some v" "settled (ctx_ids ctx) v"
        "steady u v" "o_seq v \<le> o_seq u + length (o_lanes u)" by (auto simp: n)
      have sv: "length (o_lanes v) = length (o_lanes m)" using draw_steady(2) [OF v(3)] su by simp
      then have "o_seq v + length (o_lanes v) < cap" using v(4) su room q by simp
      from advance_ok [OF src v(2) this, of k l outcome] obtain m' where m': "advance_pipeline ?fin ctx l outcome v = Some m'" "settled (ctx_ids ctx) m'"
        "o_seq m' \<le> Suc (o_seq v + length (o_lanes v))" by (auto simp: n)
      have "o_seq m' \<le> o_seq m + draw (Suc n) m" using m'(3) v(4) su sv q by simp
      with u v m'(1,2) x t None show ?thesis by (auto simp: finish_lane.simps settle_parent_def)
    next
      case (Some p)
      from close_child_ok [OF ok x Some e, of ctx] obtain u y where u: "close_lane ctx l outcome x m = Some u"
        "orch_ok (ctx_ids ctx) owed_nothing owed_nothing {} {p} u" "steady m u" "get (o_lanes u) p = Some y" "\<not> terminal (ln_phase y)"
        "\<not> (ln_phase y = Ph_cancelling \<and> ln_threadDone y \<and> ln_children y = 0) \<longrightarrow> settled (ctx_ids ctx) u" by blast
      have kind: "kind_of m = Coordinator" using static_okD(5) [OF orch_okD(1) [OF ok] x Some] .
      obtain z where z: "get (o_lanes m) p = Some z" "ln_depth x = Suc (ln_depth z)"
        using static_okD(6) [OF orch_okD(1) [OF ok] x Some] by blast
      then have "ln_depth y = ln_depth z" using u(3,4) by (fastforce simp: steady_def same_place_def)
      then have dy: "ln_depth y + 2 \<le> n" using dep z(2) by simp
      have "o_seq u = o_seq m" using u(1) Some
        by (auto simp: close_lane_def Let_def split: if_splits)
      then have qu: "o_seq u = o_seq m" "draw n u = draw n m" "o_seq u + draw n u \<le> cap" using draw_steady(1) [OF u(3)] room q by simp_all
      have "\<exists>v. settle_parent ?fin ctx (Some p) u = Some v \<and> settled (ctx_ids ctx) v \<and> o_seq v \<le> o_seq m + draw (Suc n) m"
      proof (cases "ln_phase y = Ph_cancelling \<and> ln_threadDone y \<and> ln_children y = 0")
        case True
        with u(5) have "may_end y Ph_cancelled" by (simp add: may_end_def)
        from fin_okD [OF Suc.IH u(2,4) this dy qu(3)] True u(4) qu q show ?thesis by (auto simp: settle_parent_def)
      next
        case False
        with u(6) have "settled (ctx_ids ctx) u" by blast
        from reconcile_ok [OF src Suc.IH this, of p] dy u(4) False qu q show ?thesis by (auto simp: settle_parent_def)
      qed
      then obtain v where v: "settle_parent ?fin ctx (Some p) u = Some v" "settled (ctx_ids ctx) v" "o_seq v \<le> o_seq m + draw (Suc n) m" by blast
      have "steady u v" by (rule steady_opD [OF steady_settle_parent [OF steady_finish_lane] v(1)])
      with u(3) kind have "kind_of v = Coordinator" by (simp add: steady_def)
      with u(1) v x t Some show ?thesis by (simp add: finish_lane.simps declare_winner_def advance_pipeline_def)
    qed
  qed
qed

end
