(* ===== verification/Orchestrator_Steps.thy ===== *)
theory Orchestrator_Steps
  imports Orchestrator_Inv
begin

text \<open>
  Each step of the reducer of orchestration facts (src/packages/orchestrator/src/reduce.ts) returns a
  state that owes nothing: a revived lane and the lanes above it, the facts of a thread, of a check and
  of an execution, a spawn, a pick, a merge and the budget.
\<close>

subsection \<open>A lane is revived\<close>

lemma unpick_fields [simp]:
  "o_lanes (unpick l m) = o_lanes m" "o_input (unpick l m) = o_input m" "o_stopReason (unpick l m) = o_stopReason m"
  "o_seq (unpick l m) = o_seq m"
  by (simp_all add: unpick_def)

lemma unpick_ok:
  assumes ok: "orch_ok gen D F X {} m" shows "orch_ok gen D F X {} (unpick l m)" "o_winner (unpick l m) \<noteq> Some l"
proof -
  show "o_winner (unpick l m) \<noteq> Some l" by (simp add: unpick_def)
  show "orch_ok gen D F X {} (unpick l m)"
  proof (cases "o_winner m = Some l")
    case True
    note d = orch_okD [OF ok]
    have pend: "o_mergeStatus m = Merge_pending" if "job m i = Some e" "op_of e = Ef_merge" for i e
    proof -
      from d(11) [OF that(1)] obtain x where "fits m x e" by blast
      with that(2) show ?thesis by (cases e) auto
    qed
    have jobs: "job (unpick l m) = pruned (\<lambda>e. op_of e = Ef_merge) m"
      using job_drop_merge [of "m\<lparr>o_mergeRequested := False\<rparr>"] d(6) pend True by (simp add: unpick_def pruned_def fun_eq_iff)
    have "stop_ok X (unpick l m)" using d(3) by (simp add: stop_ok_def)
    then show ?thesis
      by (intro halted_ok [OF ok _ static_steady [OF steady_unpick d(1)] _ _ jobs]) (simp_all add: True unpick_def)
  qed (use ok in \<open>simp add: unpick_def\<close>)
qed

definition revived :: "ident \<Rightarrow> orch \<Rightarrow> orch" where
  "revived l m = unpick l (upd_lane l (\<lambda>y. y\<lparr>ln_endedAt := None\<rparr>) (set_phase l Ph_working m))"

lemma revived_fields:
  "o_input (revived l m) = o_input m" "o_stopReason (revived l m) = o_stopReason m" "o_seq (revived l m) = o_seq m"
  "o_winner (revived l m) = o_winner (unpick l m)" "o_mergeRequested (revived l m) = o_mergeRequested (unpick l m)"
  "o_mergeStatus (revived l m) = o_mergeStatus (unpick l m)" "job (revived l m) = job (unpick l m)"
  "get (o_lanes m) l = Some x \<Longrightarrow> o_lanes (revived l m) = modify (o_lanes m) l (\<lambda>_. x\<lparr>ln_phase := Ph_working, ln_endedAt := None\<rparr>)"
  by (simp_all add: revived_def unpick_def drop_merge_def job_def drop_intents_def fun_eq_iff) (simp add: modify_def)

lemma revived_ok:
  assumes ok: "orch_ok gen D F X {} m" and x: "get (o_lanes m) l = Some x" "terminal (ln_phase x)"
  shows "orch_ok gen (\<lambda>k. D k + of_bool (ln_parentId x = Some k)) (\<lambda>k. F k + of_bool (ln_parentId x = Some k \<and> ln_phase x \<noteq> Ph_succeeded))
    (insert l X) {} (revived l m)"
proof -
  note u = unpick_ok [OF ok, of l] and f = revived_fields
  define z where "z = x\<lparr>ln_phase := Ph_working, ln_endedAt := None\<rparr>"
  have xu: "get (o_lanes (unpick l m)) l = Some x" using x by simp
  have lanes: "o_lanes (revived l m) = modify (o_lanes (unpick l m)) l (\<lambda>_. z)" using f(8) [OF x(1)] by (simp add: z_def)
  show ?thesis
  proof (rule refit_drop [OF u(1) xu lanes, where P = "\<lambda>_. False"])
    show "static_ok (revived l m)" unfolding revived_def by (rule static_steady [OF steady_reopen_front orch_okD(1) [OF ok]])
    show "kids (\<lambda>k. D k + of_bool (ln_parentId x = Some k)) (\<lambda>k. F k + of_bool (ln_parentId x = Some k \<and> ln_phase x \<noteq> Ph_succeeded)) (revived l m)"
      using kids_move [OF orch_okD(2) [OF u(1)] xu lanes] x(2) by (simp add: z_def open_child_def failed_child_def)
    show "local_ok (o_input (unpick l m)) {} l z" using orch_okD(7) [OF u(1) xu] by (simp add: local_ok_def z_def)
    show "\<exists>i e. job (unpick l m) i = Some e \<and> effect_lane e = l \<and> op_of e = op \<and> \<not> False" if "required_intent z = Some op" for op
      using that by (simp add: required_intent_def z_def)
    show "ln_attempt z = effect_attempt e \<and> fits (unpick l m) z e"
      if "job (unpick l m) i = Some e" "effect_lane e = l" for i e
      using lane_intents [OF u(1) xu that] x(2) u(2) by (cases "op_of e") (auto simp: running_phase_def terminal.simps)
  qed (use f u(2) in \<open>auto simp: z_def\<close>)
qed

definition alive :: "lane \<Rightarrow> bool" where
  "alive x \<longleftrightarrow> \<not> terminal (ln_phase x) \<and> ln_phase x \<noteq> Ph_queued"

definition alive_kept :: "orch \<Rightarrow> orch \<Rightarrow> bool" where
  "alive_kept m m' \<longleftrightarrow> (\<forall>k x. get (o_lanes m) k = Some x \<longrightarrow> alive x \<longrightarrow> (\<exists>y. get (o_lanes m') k = Some y \<and> alive y))"

lemma alive_kept_refl [simp]: "alive_kept m m"
  by (auto simp: alive_kept_def)

lemma alive_kept_trans: "alive_kept m m' \<Longrightarrow> alive_kept m' m'' \<Longrightarrow> alive_kept m m''"
  unfolding alive_kept_def by blast

lemma alive_hushed: "hushed m m' \<Longrightarrow> alive_kept m m'"
  unfolding alive_kept_def hushed_def alive_def by fastforce

lemma meet_stop_ok:
  assumes src: "orch_source (ctx_ids ctx) cap" and ok: "orch_ok (ctx_ids ctx) D F (insert l X) {} m"
    and x: "get (o_lanes m) l = Some x" "alive x" and room: "o_seq m + length (o_lanes m) < cap"
  shows "\<exists>m'. meet_stop ctx l m = Some m' \<and> orch_ok (ctx_ids ctx) D F X {} m' \<and> alive_kept m m' \<and>
    o_seq m' \<le> Suc (o_seq m + length (o_lanes m))"
proof -
  have fuel: "finish_fuel m = Suc (Suc (bud_maxDepth (budget_of m)))" by (simp add: finish_fuel_def)
  consider (stop) "o_stopReason m \<noteq> None" | (over) "o_stopReason m = None" "overBudget m (ctx_now ctx)"
    | (run) "o_stopReason m = None" "\<not> overBudget m (ctx_now ctx)" by blast
  then show ?thesis
  proof cases
    case stop
    have "\<not> terminal (ln_phase x)" "insert l X \<subseteq> insert l X" using x(2) by (simp_all add: alive_def)
    from cancelLane_ok [OF ok x(1) src this(1) stop this(2), of "Suc (bud_maxDepth (budget_of m))"] alive_hushed stop room
    show ?thesis unfolding meet_stop_def fuel by fastforce
  next
    case over
    have "\<exists>m'. cancelAll (finish_now ctx m) ctx Stop_budget None m = Some m' \<and> orch_ok (ctx_ids ctx) D F {} {} m' \<and>
      o_stopReason m' = Some Stop_budget \<and> o_winner m' = o_winner m \<and> \<not> o_mergeRequested m' \<and> o_mergeStatus m' \<noteq> Merge_pending \<and>
      steady m m' \<and> hushed m m' \<and> o_seq m' \<le> o_seq m + length (o_lanes m)" unfolding fuel
      by (rule cancelAll_ok [OF ok src]) (use orch_okD(4) [OF ok] room in \<open>auto simp: merge_ok_def\<close>)
    then obtain m' where "cancelAll (finish_now ctx m) ctx Stop_budget None m = Some m'" "orch_ok (ctx_ids ctx) D F {} {} m'" "hushed m m'"
      "o_seq m' \<le> Suc (o_seq m + length (o_lanes m))" by auto
    with over orch_ok_mono [of "ctx_ids ctx" D F "{}" "{}" m' X] alive_hushed show ?thesis by (auto simp: meet_stop_def)
  next
    case run
    have "orch_ok (ctx_ids ctx) D F X {} m" using ok run unfolding orch_ok_def stop_ok_def by simp
    with run show ?thesis by (simp add: meet_stop_def)
  qed
qed

lemma adopt_child_fields:
  "o_input (adopt_child p b m) = o_input m" "o_stopReason (adopt_child p b m) = o_stopReason m" "o_seq (adopt_child p b m) = o_seq m"
  "o_winner (adopt_child p b m) = o_winner m" "o_mergeRequested (adopt_child p b m) = o_mergeRequested m"
  "o_mergeStatus (adopt_child p b m) = o_mergeStatus m"
  "keys_distinct m \<Longrightarrow> job (adopt_child p b m) = pruned (\<lambda>e. effect_lane e = p \<and> op_of e = Ef_check) m"
  "get (o_lanes m) p = Some y \<Longrightarrow> o_lanes (adopt_child p b m) = modify (o_lanes m) p (\<lambda>_. y\<lparr>ln_children := ln_children y + 1,
     ln_checksPassed := None, ln_failedChildren := ln_failedChildren y - of_bool b,
     ln_phase := if ln_phase y = Ph_cancelling then Ph_cancelling else Ph_joining\<rparr>)"
proof -
  assume k: "keys_distinct m"
  then have "keys_distinct (upd_lane p (\<lambda>y. y\<lparr>ln_children := ln_children y + 1\<rparr>) m)" by (simp add: keys_modify)
  from job_clears(2) [OF this, of p] show "job (adopt_child p b m) = pruned (\<lambda>e. effect_lane e = p \<and> op_of e = Ef_check) m"
    by (simp add: adopt_child_def Let_def pruned_def fun_eq_iff)
next
  assume y: "get (o_lanes m) p = Some y"
  show "o_lanes (adopt_child p b m) = modify (o_lanes m) p (\<lambda>_. y\<lparr>ln_children := ln_children y + 1,
     ln_checksPassed := None, ln_failedChildren := ln_failedChildren y - of_bool b,
     ln_phase := if ln_phase y = Ph_cancelling then Ph_cancelling else Ph_joining\<rparr>)"
  proof (cases "ln_phase y = Ph_cancelling")
    case True
    with y show ?thesis by (cases y) (simp add: adopt_child_def Let_def modify_def)
  qed (use y in \<open>simp add: adopt_child_def Let_def modify_def\<close>)
qed (auto simp: adopt_child_def Let_def)

lemma adopt_child_ok:
  assumes ok: "orch_ok gen D F X {} m" and y: "get (o_lanes m) p = Some y" "alive y" "p \<notin> X"
  shows "orch_ok gen (D(p := D p - 1)) (F(p := F p - of_bool b)) X {} (adopt_child p b m)" "alive_kept m (adopt_child p b m)"
proof -
  note f = adopt_child_fields and d = orch_okD [OF ok]
  define z where "z = y\<lparr>ln_children := ln_children y + 1, ln_checksPassed := None, ln_failedChildren := ln_failedChildren y - of_bool b,
     ln_phase := if ln_phase y = Ph_cancelling then Ph_cancelling else Ph_joining\<rparr>"
  have lanes: "o_lanes (adopt_child p b m) = modify (o_lanes m) p (\<lambda>_. z)" using f(8) [OF y(1)] by (simp add: z_def)
  have z: "\<not> terminal (ln_phase z)" "ln_phase z \<noteq> Ph_succeeded" "ln_phase z \<noteq> Ph_queued" by (simp_all add: z_def)
  have t: "\<not> terminal (ln_phase y)" "ln_phase y \<noteq> Ph_succeeded" "ln_phase y \<noteq> Ph_queued" using y(2) by (auto simp: alive_def)
  show "alive_kept m (adopt_child p b m)" using z y by (auto simp: alive_kept_def lanes alive_def)
  show "orch_ok gen (D(p := D p - 1)) (F(p := F p - of_bool b)) X {} (adopt_child p b m)"
  proof (rule refit_drop [OF ok y(1) lanes, where P = "\<lambda>e. effect_lane e = p \<and> op_of e = Ef_check"])
    show "static_ok (adopt_child p b m)" by (rule static_steady [OF steady_adopt_child d(1)])
    show "kids (D(p := D p - 1)) (F(p := F p - of_bool b)) (adopt_child p b m)"
      using kids_count [OF d(2) y(1) lanes] z t by (simp add: z_def)
    show "local_ok (o_input m) {} p z" using d(7) [OF y(1)] by (auto simp: local_ok_def z_def)
    show "\<exists>i e. job m i = Some e \<and> effect_lane e = p \<and> op_of e = op \<and> \<not> (effect_lane e = p \<and> op_of e = Ef_check)"
      if "required_intent z = Some op" for op
    proof -
      have "required_intent y = Some Ef_cancel" "op = Ef_cancel"
        using that by (auto simp: required_intent_def z_def split: if_splits)
      with d(14) [OF y(1), of Ef_cancel] show ?thesis by (fastforce simp: holds_def)
    qed
    show "ln_attempt z = effect_attempt e \<and> fits m z e"
      if "job m i = Some e" "\<not> (effect_lane e = p \<and> op_of e = Ef_check)" "effect_lane e = p" "ln_attempt y = effect_attempt e" for i e
      using lane_intents [OF ok y(1) that(1,3)] that(2-4) t by (cases e) (auto simp: z_def running_phase_def)
    show "terminal (ln_phase z) \<or> ln_phase z = Ph_cancelling" if "o_stopReason m \<noteq> None" "p \<notin> X"
      using stop_okD(1) [OF d(3) y(1) that] t by (simp add: z_def)
    show "o_stopReason m \<noteq> None" if "ln_phase z = Ph_cancelling"
      using stop_okD(2) [OF d(3) y(1)] that by (simp add: z_def split: if_splits)
    show "ln_phase z = Ph_succeeded" if "o_winner m = Some p" using winner_succeeded [OF ok y(1) that] t by simp
  qed (use f d(6) in auto)
qed

definition deeper :: "orch \<Rightarrow> lane \<Rightarrow> ident set \<Rightarrow> bool" where
  "deeper m x X \<longleftrightarrow> (\<forall>k \<in> X. \<forall>y. get (o_lanes m) k = Some y \<longrightarrow> ln_depth x < ln_depth y)"

lemma steady_lane:
  assumes "steady m m'" "get (o_lanes m) k = Some x" shows "\<exists>y. get (o_lanes m') k = Some y \<and> same_place x y"
  using assms by (simp add: steady_def)

lemma steady_lane_back:
  assumes "steady m m'" "get (o_lanes m') k = Some y" shows "\<exists>x. get (o_lanes m) k = Some x \<and> same_place x y"
proof -
  have "has (o_lanes m) k" using assms in_keys_iff [of k] unfolding steady_def by (metis has_Some set_map)
  then obtain x where x: "get (o_lanes m) k = Some x" by (auto simp: has_iff)
  with steady_lane [OF assms(1) x] assms(2) show ?thesis by auto
qed

lemma reopen_ok:
  assumes src: "orch_source (ctx_ids ctx) cap"
  shows "orch_ok (ctx_ids ctx) D F X {} m \<Longrightarrow> get (o_lanes m) l = Some x \<Longrightarrow> ln_phase x \<noteq> Ph_queued \<Longrightarrow> ln_depth x < n \<Longrightarrow> deeper m x X \<Longrightarrow>
    o_seq m + n * Suc (length (o_lanes m)) \<le> cap \<Longrightarrow>
    \<exists>m'. reopen n ctx l m = Some m' \<and> orch_ok (ctx_ids ctx) D F X {} m' \<and> alive_kept m m' \<and>
      (\<exists>y. get (o_lanes m') l = Some y \<and> alive y) \<and> o_seq m' \<le> o_seq m + n * Suc (length (o_lanes m))"
proof (induction n arbitrary: D F X m l x)
  case 0 then show ?case by simp
next
  case (Suc n)
  note ok = Suc.prems(1) and x = Suc.prems(2)
  show ?case
  proof (cases "terminal (ln_phase x)")
    case False
    with x ok Suc.prems(3) show ?thesis by (simp add: reopen.simps alive_def)
  next
    case True
    define u where "u = revived l m"
    define z where "z = x\<lparr>ln_phase := Ph_working, ln_endedAt := None\<rparr>"
    define D' F' where "D' = (\<lambda>k. D k + of_bool (ln_parentId x = Some k))"
      and "F' = (\<lambda>k. F k + of_bool (ln_parentId x = Some k \<and> ln_phase x \<noteq> Ph_succeeded))"
    have oku: "orch_ok (ctx_ids ctx) D' F' (insert l X) {} u" using revived_ok [OF ok x True] by (simp add: u_def D'_def F'_def)
    have lu: "o_lanes u = modify (o_lanes m) l (\<lambda>_. z)" using revived_fields(8) [OF x] by (simp add: u_def z_def)
    have zu: "get (o_lanes u) l = Some z" "alive z" using x by (simp_all add: lu) (simp add: z_def alive_def)
    have st: "steady m u" unfolding u_def revived_def by (rule steady_reopen_front)
    have su: "o_seq u = o_seq m" "length (o_lanes u) = length (o_lanes m)" using draw_steady(2) [OF st] by (simp_all add: u_def revived_fields)
    define L where "L = length (o_lanes m)"
    have room: "o_seq u + n * Suc L + Suc L \<le> cap" using Suc.prems(6) su by (simp add: L_def)
    have ku: "alive_kept m u" unfolding alive_kept_def
    proof (intro allI impI)
      fix k y assume "get (o_lanes m) k = Some y" "alive y"
      then show "\<exists>y. get (o_lanes u) k = Some y \<and> alive y" using zu(2) by (cases "k = l") (auto simp: lu)
    qed
    define w where "w = (case ln_parentId x of None \<Rightarrow> Some u | Some p \<Rightarrow> if has (o_lanes u) p
      then map_option (adopt_child p (ln_phase x \<noteq> Ph_succeeded)) (reopen n ctx p u) else Some u)"
    have "\<exists>v. w = Some v \<and> orch_ok (ctx_ids ctx) D F (insert l X) {} v \<and> alive_kept u v \<and> steady u v \<and> o_seq v \<le> o_seq u + n * Suc L"
    proof (cases "ln_parentId x")
      case None
      with oku show ?thesis by (simp add: D'_def F'_def w_def)
    next
      case (Some p)
      from static_okD(5,6) [OF orch_okD(1) [OF ok] x Some] obtain y where kind: "kind_of m = Coordinator"
        and y: "get (o_lanes m) p = Some y" "ln_depth x = Suc (ln_depth y)" by blast
      have pl: "p \<noteq> l" using y x by auto
      have yu: "get (o_lanes u) p = Some y" using y(1) pl by (simp add: lu)
      have q: "ln_phase y \<noteq> Ph_queued" using queued_root(2) [OF ok y(1)] kind by auto
      have deep: "deeper u y (insert l X)" unfolding deeper_def
      proof (intro ballI allI impI)
        fix k t assume k: "k \<in> insert l X" and t: "get (o_lanes u) k = Some t"
        from steady_lane_back [OF st t] obtain s where s: "get (o_lanes m) k = Some s" "same_place s t" by blast
        show "ln_depth y < ln_depth t" using k s x y(2) Suc.prems(5) by (cases "k = l") (fastforce simp: same_place_def deeper_def)+
      qed
      have pX: "p \<notin> insert l X" using deep yu by (auto simp: deeper_def)
      have "o_seq u + n * Suc (length (o_lanes u)) \<le> cap" "ln_depth y < n" using room su(2) y(2) Suc.prems(4) by (simp_all add: L_def)
      from Suc.IH [OF oku yu q this(2) deep this(1)] su obtain v t where v: "reopen n ctx p u = Some v"
        "orch_ok (ctx_ids ctx) D' F' (insert l X) {} v" "alive_kept u v" "get (o_lanes v) p = Some t" "alive t"
        "o_seq v \<le> o_seq u + n * Suc L" by (auto simp: L_def)
      note a = adopt_child_ok [OF v(2,4,5) pX, of "ln_phase x \<noteq> Ph_succeeded"]
      have "D'(p := D' p - 1) = D" "F'(p := F' p - of_bool (ln_phase x \<noteq> Ph_succeeded)) = F"
        using Some by (auto simp: D'_def F'_def fun_eq_iff)
      with a alive_kept_trans [OF v(3) a(2)] v(1,6) Some has_Some [OF yu] steady_trans [OF steady_opD [OF steady_reopen v(1)] steady_adopt_child]
      show ?thesis by (simp add: w_def adopt_child_fields)
    qed
    then obtain v where v: "w = Some v" "orch_ok (ctx_ids ctx) D F (insert l X) {} v" "alive_kept u v" "steady u v" "o_seq v \<le> o_seq u + n * Suc L" by blast
    have sv: "length (o_lanes v) = L" using draw_steady(2) [OF v(4)] su by (simp add: L_def)
    from v(3) zu obtain t where t: "get (o_lanes v) l = Some t" "alive t" unfolding alive_kept_def by blast
    have "o_seq v + length (o_lanes v) < cap" using sv v(5) room by simp
    from meet_stop_ok [OF src v(2) t this] obtain m' where m': "meet_stop ctx l v = Some m'" "orch_ok (ctx_ids ctx) D F X {} m'" "alive_kept v m'"
      "o_seq m' \<le> Suc (o_seq v + L)" by (auto simp: sv)
    have "o_seq m' \<le> o_seq m + Suc n * Suc L" using m'(4) v(5) su by simp
    moreover have "reopen (Suc n) ctx l m = Option.bind w (meet_stop ctx l)"
      using x True unfolding w_def u_def revived_def by (simp add: reopen.simps Let_def)
    ultimately show ?thesis using m' v(1) t alive_kept_trans [OF ku alive_kept_trans [OF v(3) m'(3)]]
      unfolding alive_kept_def L_def by auto
  qed
qed

subsection \<open>Shared steps\<close>

lemma fuel_enough: "orch_ok gen D F X Y m \<Longrightarrow> get (o_lanes m) l = Some x \<Longrightarrow> ln_depth x + 2 \<le> finish_fuel m"
  using static_okD(2) [OF orch_okD(1), of gen D F X Y m l x] by (simp add: finish_fuel_def)

text \<open>The identities that a step on a lane may draw: those of its revival and those of its end.\<close>

definition step_draw :: "orch \<Rightarrow> nat" where
  "step_draw m = reopen_fuel m * Suc (length (o_lanes m)) + draw (finish_fuel m) m"

lemma step_draw_ge: "draw (finish_fuel m) m \<le> step_draw m" "length (o_lanes m) \<le> step_draw m"
  by (simp_all add: step_draw_def reopen_fuel_def)

lemma orch_ok_frame:
  assumes ok: "orch_ok gen D F X Y m"
    and f: "o_lanes m' = o_lanes m" "o_intents m' = o_intents m" "o_input m' = o_input m" "o_spawnReceipts m' = o_spawnReceipts m"
      "o_stopReason m' = o_stopReason m" "o_winner m' = o_winner m" "o_mergeRequested m' = o_mergeRequested m"
      "o_mergeStatus m' = o_mergeStatus m" "o_seq m' = o_seq m"
  shows "orch_ok gen D F X Y m'"
proof -
  have j: "job m' = job m" by (simp add: job_def f fun_eq_iff)
  have t: "fits m' = fits m" using fits_cong [OF f(5-8)] by (simp add: fun_eq_iff)
  show ?thesis using ok
    unfolding orch_ok_def static_ok_def kids_def open_kids_def failed_kids_def stop_ok_def merge_ok_def jobs_ok_def f j t .
qed

lemma reject_ok: "orch_ok gen D F X Y m \<Longrightarrow> orch_ok gen D F X Y (orch_emit e m)"
  by (rule orch_ok_frame) (simp_all add: orch_emit_def)

lemma halt_ok:
  assumes src: "orch_source (ctx_ids ctx) cap" and ok: "settled (ctx_ids ctx) m" and room: "o_seq m + length (o_lanes m) \<le> cap"
  shows "\<exists>m'. cancelAll (finish_now ctx m) ctx reason None m = Some m' \<and> settled (ctx_ids ctx) m' \<and> o_seq m' \<le> o_seq m + length (o_lanes m)"
proof -
  have "\<exists>m'. cancelAll (finish_lane (Suc (Suc (bud_maxDepth (budget_of m)))) ctx) ctx reason None m = Some m' \<and> settled (ctx_ids ctx) m' \<and>
      o_stopReason m' = Some reason \<and> o_winner m' = o_winner m \<and> \<not> o_mergeRequested m' \<and> o_mergeStatus m' \<noteq> Merge_pending \<and>
      steady m m' \<and> hushed m m' \<and> o_seq m' \<le> o_seq m + length (o_lanes m)"
    by (rule cancelAll_ok [OF ok src]) (use orch_okD(4) [OF ok] room in \<open>auto simp: merge_ok_def\<close>)
  then show ?thesis by (auto simp: finish_fuel_def)
qed

lemma touch_ok:
  assumes ok: "orch_ok gen D F X Y m" and x: "get (o_lanes m) l = Some x"
    and f: "\<And>y. same_place y (f y)" "\<And>y. ln_phase (f y) = ln_phase y"
    and z: "ln_attempt (f x) = ln_attempt x" "ln_children (f x) = ln_children x" "ln_failedChildren (f x) = ln_failedChildren x"
      "ln_phase x = Ph_checking \<or> ln_phase x = Ph_succeeded \<Longrightarrow> ln_artifact (f x) = ln_artifact x" "local_ok (o_input m) Y' l (f x)"
      "\<And>op. l \<notin> Y' \<Longrightarrow> required_intent (f x) = Some op \<Longrightarrow> l \<notin> Y \<and> required_intent x = Some op"
    and sub: "Y \<subseteq> insert l Y'"
  shows "orch_ok gen D F X Y' (upd_lane l f m)"
proof -
  note d = orch_okD [OF ok]
  have st: "steady m (upd_lane l f m)" by (rule steady_upd_lane) (use f in auto)
  have lanes: "o_lanes (upd_lane l f m) = modify (o_lanes m) l (\<lambda>_. f x)" using x by (simp add: modify_def)
  have p: "ln_parentId (f x) = ln_parentId x" using f(1) [of x] by (simp add: same_place_def)
  show ?thesis
  proof (rule refit_drop [OF ok x lanes, where P = "\<lambda>_. False"])
    show "static_ok (upd_lane l f m)" by (rule static_steady [OF st d(1)])
    show "kids D F (upd_lane l f m)" by (rule kids_quiet [OF d(2) x lanes]) (use z p f(2) in auto)
    show "\<exists>i e. job m i = Some e \<and> effect_lane e = l \<and> op_of e = op \<and> \<not> False" if "l \<notin> Y'" "required_intent (f x) = Some op" for op
      using z(6) [OF that] d(14) [OF x, of op] by (simp add: holds_def)
    show "ln_attempt (f x) = effect_attempt e \<and> fits m (f x) e" if "job m i = Some e" "effect_lane e = l" "ln_attempt x = effect_attempt e" "fits m x e" for i e
      using lane_intents(5) [OF ok x that(1,2)] that(3,4) z(1,4) f(2) by (cases e) auto
    show "o_winner m = Some l \<Longrightarrow> ln_phase (f x) = Ph_succeeded" using winner_succeeded [OF ok x] f(2) by simp
  qed (use z(5) f(2) stop_okD [OF d(3) x] sub in auto)
qed

text \<open>An intent that is deleted is the only one of its lane and operation.\<close>

lemma job_del:
  assumes ok: "orch_ok gen D F X Y m" and e: "job m i = Some e"
  shows "job (del_intent i m) = pruned (\<lambda>e'. effect_lane e' = effect_lane e \<and> op_of e' = op_of e) m"
proof (rule ext)
  fix k
  have "k = i" if "job m k = Some e'" "effect_lane e' = effect_lane e" "op_of e' = op_of e" for e'
    using orch_okD(13) [OF ok, of "effect_lane e"] that e unfolding once_def by blast
  with e show "job (del_intent i m) k = pruned (\<lambda>e'. effect_lane e' = effect_lane e \<and> op_of e' = op_of e) m k"
    by (auto simp: pruned_def split: option.split)
qed

lemma intent_job: "intent_is m i op \<Longrightarrow> intent_for m i l \<Longrightarrow> \<exists>e. job m i = Some e \<and> op_of e = op \<and> effect_lane e = l"
  by (auto simp: intent_is_def intent_for_def job_def)

lemma drop_own_ok:
  assumes ok: "settled gen m" and e: "job m i = Some e" "op_of e \<noteq> Ef_merge"
  shows "orch_ok gen owed_nothing owed_nothing {} {effect_lane e} (del_intent i m)"
proof -
  from orch_okD(11) [OF ok e(1)] obtain x where x: "get (o_lanes m) (effect_lane e) = Some x" by blast
  note d = orch_okD [OF ok]
  have lanes: "o_lanes (del_intent i m) = modify (o_lanes m) (effect_lane e) (\<lambda>_. x)" using x by (simp add: modify_def put_same)
  show ?thesis
  proof (rule refit_drop [OF ok x lanes _ _ _ _ _ _ _ job_del [OF ok e(1)]])
    show "static_ok (del_intent i m)" by (rule static_steady [OF steady_del_intent d(1)])
    show "kids owed_nothing owed_nothing (del_intent i m)" by (rule kids_quiet [OF d(2) x lanes]) simp_all
    show "local_ok (o_input m) {effect_lane e} (effect_lane e) x" using d(7) [OF x] by (rule local_ok_mono) simp
  qed (use e(2) stop_okD [OF d(3) x] winner_succeeded [OF ok x] in auto)
qed

subsection \<open>Facts of a lane\<close>

lemma invalidate_fields [simp]:
  "o_input (invalidate l m) = o_input m" "o_stopReason (invalidate l m) = o_stopReason m" "o_winner (invalidate l m) = o_winner m"
  "o_mergeRequested (invalidate l m) = o_mergeRequested m" "o_mergeStatus (invalidate l m) = o_mergeStatus m" "o_seq (invalidate l m) = o_seq m"
  "o_lanes (invalidate l m) = modify (o_lanes m) l (\<lambda>x. x\<lparr>ln_threadDone := False, ln_artifact := None, ln_checksPassed := None\<rparr>)"
  by (simp_all add: invalidate_def)

lemma job_invalidate: "keys_distinct m \<Longrightarrow> job (invalidate l m) = pruned (\<lambda>e. effect_lane e = l \<and> op_of e = Ef_check) m"
  using job_clears(2) [of "upd_lane l (\<lambda>x. x\<lparr>ln_threadDone := False, ln_artifact := None\<rparr>) m" l]
  by (simp add: invalidate_def keys_modify pruned_def fun_eq_iff)

lemma resume_ok:
  assumes ok: "settled gen m" and y: "get (o_lanes m) l = Some y" "running_phase (ln_phase y)" and p: "p = Ph_waiting \<or> p = Ph_working"
  shows "settled gen (set_phase l p (if ln_threadDone y then invalidate l m else m))"
proof -
  define u where "u = (if ln_threadDone y then invalidate l m else m)"
  define z where "z = (if ln_threadDone y then y\<lparr>ln_threadDone := False, ln_artifact := None, ln_checksPassed := None, ln_phase := p\<rparr> else y\<lparr>ln_phase := p\<rparr>)"
  note d = orch_okD [OF ok] and q = running_phaseD [OF y(2)]
  have st: "steady m (set_phase l p u)" using steady_set_phase [of m l p] steady_trans [OF steady_invalidate steady_set_phase]
    by (simp add: u_def)
  have lanes: "o_lanes (set_phase l p u) = modify (o_lanes m) l (\<lambda>_. z)" using y(1) by (auto simp: u_def z_def modify_def)
  have none: "job m = pruned (\<lambda>e. effect_lane e = l \<and> op_of e = Ef_check) m" if "\<not> ln_threadDone y"
  proof -
    have "ln_phase y \<noteq> Ph_checking" using that d(7) [OF y(1)] by (auto simp: local_ok_def)
    with lane_intents(2) [OF ok y(1)] have "\<not> (effect_lane e = l \<and> op_of e = Ef_check)" if "job m i = Some e" for i e using that by blast
    then show ?thesis by (auto simp: pruned_def fun_eq_iff split: option.split)
  qed
  have zp: "ln_phase z = p" "ln_attempt z = ln_attempt y" "ln_parentId z = ln_parentId y" "ln_children z = ln_children y"
    "ln_failedChildren z = ln_failedChildren y" "ln_threadId z = ln_threadId y" "ln_worktree z = ln_worktree y" by (simp_all add: z_def)
  have pp: "\<not> terminal p" "p \<noteq> Ph_succeeded" "p \<noteq> Ph_queued" "p \<noteq> Ph_cancelling" "p \<noteq> Ph_checking" "p \<noteq> Ph_starting" "running_phase p"
    using p by (auto simp: running_phase_def)
  have "settled gen (set_phase l p u)"
  proof (rule refit_drop [OF ok y(1) lanes, where P = "\<lambda>e. effect_lane e = l \<and> op_of e = Ef_check"])
    show "static_ok (set_phase l p u)" by (rule static_steady [OF st d(1)])
    show "kids owed_nothing owed_nothing (set_phase l p u)" by (rule kids_quiet [OF d(2) y(1) lanes]) (use zp pp q in auto)
    show "job (set_phase l p u) = pruned (\<lambda>e. effect_lane e = l \<and> op_of e = Ef_check) m"
      using none job_invalidate [OF d(6)] by (simp add: u_def)
    show "local_ok (o_input m) {} l z" using d(7) [OF y(1)] zp pp by (simp add: local_ok_def)
    show "\<exists>i e. job m i = Some e \<and> effect_lane e = l \<and> op_of e = op \<and> \<not> (effect_lane e = l \<and> op_of e = Ef_check)"
      if "required_intent z = Some op" for op using that zp pp by (simp add: required_intent_def)
    show "ln_attempt z = effect_attempt e \<and> fits m z e"
      if "job m i = Some e" "\<not> (effect_lane e = l \<and> op_of e = Ef_check)" "effect_lane e = l" "ln_attempt y = effect_attempt e" for i e
      using lane_intents [OF ok y(1) that(1,3)] that(2-4) q zp pp by (cases e) (auto simp: running_phase_def)
    show "terminal (ln_phase z) \<or> ln_phase z = Ph_cancelling" if "o_stopReason m \<noteq> None" "l \<notin> {}"
      using stop_okD(1) [OF d(3) y(1) that] q by blast
    show "ln_phase z = Ph_succeeded" if "o_winner m = Some l" using winner_succeeded [OF ok y(1) that] q by simp
  qed (use zp pp in \<open>auto simp: u_def\<close>)
  then show ?thesis by (simp add: u_def)
qed

lemma done_ok:
  assumes ok: "settled gen m" and y: "get (o_lanes m) l = Some y" "running_phase (ln_phase y)"
  shows "settled gen (upd_lane l (\<lambda>z. z\<lparr>ln_threadDone := True\<rparr>) m)"
  using running_phaseD [OF y(2)] orch_okD(7) [OF ok y(1)]
  by (intro touch_ok [OF ok y(1)]) (auto simp: same_place_def local_ok_def required_intent_def split: if_splits)

lemma step_thread_ok:
  assumes src: "orch_source (ctx_ids ctx) cap" and ok: "settled (ctx_ids ctx) m" and x: "get (o_lanes m) l = Some x"
    and room: "o_seq m + step_draw m \<le> cap"
  shows "\<exists>m'. step_thread ctx l x status m = Some m' \<and> settled (ctx_ids ctx) m' \<and> o_seq m' \<le> o_seq m + step_draw m"
proof -
  define h where "h = reopen_fuel m * Suc (length (o_lanes m))"
  have room': "o_seq m + h \<le> cap" "o_seq m + h + draw (finish_fuel m) m \<le> cap" "step_draw m = h + draw (finish_fuel m) m"
    using room by (simp_all add: step_draw_def h_def)
  define r where "r = (if status \<noteq> Done \<and> terminal (ln_phase x) \<and> (status \<noteq> Thread_failed \<or> ln_phase x = Ph_succeeded)
          then reopen (reopen_fuel m) ctx l m else Some m)"
  have "\<exists>u y. r = Some u \<and> settled (ctx_ids ctx) u \<and> get (o_lanes u) l = Some y \<and> o_seq u \<le> o_seq m + h"
  proof (cases "terminal (ln_phase x)")
    case True
    then have "ln_phase x \<noteq> Ph_queued" by auto
    from reopen_ok [OF src ok x this, of "reopen_fuel m"] static_okD(2) [OF orch_okD(1) [OF ok] x] ok x room'(1)
    show ?thesis by (auto simp: r_def reopen_fuel_def deeper_def h_def)
  qed (use ok x in \<open>simp add: r_def\<close>)
  then obtain u y where u: "r = Some u" "settled (ctx_ids ctx) u" "get (o_lanes u) l = Some y" "o_seq u \<le> o_seq m + h" by blast
  have "steady m u" using u(1) steady_opD [OF steady_reopen] by (auto simp: r_def split: if_splits)
  then have q: "finish_fuel u = finish_fuel m" "draw n u = draw n m" for n using draw_steady(1) by (simp_all add: finish_fuel_def steady_def)
  have ru: "o_seq u + draw (finish_fuel u) u \<le> cap" using u(4) room'(2) q by simp
  have oku: "orch_ok (ctx_ids ctx) owed_nothing owed_nothing {} {l} u" by (rule orch_ok_mono [OF u(2)]) auto
  note fuel = fuel_enough [OF u(2,3)]
  have "\<exists>m'. (if terminal (ln_phase y) \<or> ln_phase y = Ph_queued \<or> ln_phase y = Ph_cancelling then Some u
         else if status = Thread_failed then fail_lane (finish_now ctx u) ctx l ''thread_failed'' u
         else if status = Done then reconcile_lane (finish_now ctx u) ctx l (upd_lane l (\<lambda>z. z\<lparr>ln_threadDone := True\<rparr>) u)
         else Some (set_phase l (if thread_waits status then Ph_waiting else Ph_working)
            (if ln_threadDone y then invalidate l u else u))) = Some m' \<and> settled (ctx_ids ctx) m' \<and> o_seq m' \<le> o_seq u + draw (finish_fuel u) u"
  proof (cases "terminal (ln_phase y) \<or> ln_phase y = Ph_queued \<or> ln_phase y = Ph_cancelling")
    case True with u(2) show ?thesis by auto
  next
    case False
    then have run: "running_phase (ln_phase y)" by (intro running_phaseI) auto
    define d where "d = upd_lane l (\<lambda>z. z\<lparr>ln_threadDone := True\<rparr>) u"
    have "steady u d" unfolding d_def by (rule steady_upd_lane) (simp_all add: same_place_def)
    then have qd: "o_seq d = o_seq u" "draw n d = draw n u" for n using draw_steady(1) by (simp_all add: d_def)
    have "\<exists>m'. reconcile_lane (finish_now ctx u) ctx l d = Some m' \<and> settled (ctx_ids ctx) m' \<and> o_seq m' \<le> o_seq d + draw (finish_fuel u) d"
      unfolding d_def by (rule reconcile_ok [OF src finish_ok [OF src] done_ok [OF u(2,3) run]]) (use u(3) fuel ru qd in \<open>auto simp: d_def\<close>)
    moreover have "ln_phase y = Ph_checking \<longrightarrow> ln_children y = 0" using orch_okD(7) [OF u(2,3)] by (simp add: local_ok_def)
    ultimately show ?thesis using False fail_ok [OF src finish_ok [OF src] oku u(3) run _ fuel ru, of "''thread_failed''"] resume_ok [OF u(2,3) run]
      by (auto simp: qd d_def [symmetric])
  qed
  then obtain m' where m': "(if terminal (ln_phase y) \<or> ln_phase y = Ph_queued \<or> ln_phase y = Ph_cancelling then Some u
         else if status = Thread_failed then fail_lane (finish_now ctx u) ctx l ''thread_failed'' u
         else if status = Done then reconcile_lane (finish_now ctx u) ctx l (upd_lane l (\<lambda>z. z\<lparr>ln_threadDone := True\<rparr>) u)
         else Some (set_phase l (if thread_waits status then Ph_waiting else Ph_working)
            (if ln_threadDone y then invalidate l u else u))) = Some m'" "settled (ctx_ids ctx) m'" "o_seq m' \<le> o_seq u + draw (finish_fuel u) u" by blast
  have "o_seq m' \<le> o_seq m + step_draw m" using m'(3) u(4) q room'(3) by simp
  with m' show ?thesis using u(1,3) unfolding step_thread_def r_def [symmetric] by simp
qed

lemma step_usage_ok:
  assumes src: "orch_source (ctx_ids ctx) cap" and ok: "settled (ctx_ids ctx) m" and room: "o_seq m + length (o_lanes m) \<le> cap"
  shows "\<exists>m'. step_usage ctx l x u m = Some m' \<and> settled (ctx_ids ctx) m' \<and> o_seq m' \<le> o_seq m + length (o_lanes m)"
proof -
  have "settled (ctx_ids ctx) (m\<lparr>o_usage := w\<rparr>)" for w by (rule orch_ok_frame [OF ok]) simp_all
  then have c: "settled (ctx_ids ctx) (charge_lane l x u m)" unfolding charge_lane_def Let_def
    by (rule quiet_ok) (simp add: same_role_def same_place_def)
  have "map fst (o_lanes (charge_lane l x u m)) = map fst (o_lanes m)" by (simp add: charge_lane_def Let_def keys_modify)
  then have "length (o_lanes (charge_lane l x u m)) = length (o_lanes m)" by (metis length_map)
  moreover have "o_seq (charge_lane l x u m) = o_seq m" by (simp add: charge_lane_def Let_def)
  ultimately show ?thesis using halt_ok [OF src c] c room by (auto simp: step_usage_def Let_def)
qed

lemma step_bound_ok:
  assumes ok: "settled gen m" and x: "get (o_lanes m) l = Some x" "ln_phase x \<noteq> Ph_queued"
  shows "settled gen (step_bound l x t w m)"
proof -
  define u where "u = upd_lane l (\<lambda>y. y\<lparr>ln_threadId := Some t, ln_worktree := Some w\<rparr>) m"
  have st: "steady m u" unfolding u_def by (rule steady_upd_lane) (simp_all add: same_place_def)
  have "settled gen u" if "ln_phase x \<noteq> Ph_starting" unfolding u_def
    by (rule touch_ok [OF ok x(1)])
      (use that x(2) orch_okD(7) [OF ok x(1)] in \<open>auto simp: same_place_def local_ok_def required_intent_def split: if_splits\<close>)
  moreover have "settled gen (set_phase l Ph_working u)" if "ln_phase x = Ph_starting"
    by (rule rephase_ok [OF ok x(1), where z = "x\<lparr>ln_threadId := Some t, ln_worktree := Some w, ln_phase := Ph_working\<rparr>"])
      (use that x(1) steady_trans [OF st steady_set_phase] in \<open>auto simp: u_def running_phase_def modify_def\<close>)
  ultimately show ?thesis using reject_ok [OF ok] by (simp add: step_bound_def reject_def Let_def u_def)
qed

lemma checked_ok:
  assumes ok: "settled gen m" and x: "get (o_lanes m) l = Some x" "ln_phase x = Ph_checking"
    and e: "job m i = Some e" "op_of e = Ef_check" "effect_lane e = l"
  shows "orch_ok gen owed_nothing owed_nothing {} {l} (upd_lane l (\<lambda>y. y\<lparr>ln_checksPassed := Some b\<rparr>) (del_intent i m))"
proof -
  have ok': "orch_ok gen owed_nothing owed_nothing {} {l} (del_intent i m)" using drop_own_ok [OF ok e(1)] e by simp
  show ?thesis
    by (rule touch_ok [OF ok']) (use x orch_okD(7) [OF ok x(1)] in \<open>auto simp: same_place_def local_ok_def\<close>)
qed

lemma step_checked_ok:
  assumes src: "orch_source (ctx_ids ctx) cap" and ok: "settled (ctx_ids ctx) m" and x: "get (o_lanes m) l = Some x" "ln_phase x = Ph_checking"
    and e: "job m i = Some e" "op_of e = Ef_check" "effect_lane e = l" and room: "o_seq m + draw (finish_fuel m) m \<le> cap"
  shows "\<exists>m'. step_checked ctx l i c r m = Some m' \<and> settled (ctx_ids ctx) m' \<and> o_seq m' \<le> o_seq m + draw (finish_fuel m) m"
proof -
  define v where "v = (\<lambda>b. upd_lane l (\<lambda>y. y\<lparr>ln_checksPassed := Some b\<rparr>) (del_intent i m))"
  define y where "y = (\<lambda>b. x\<lparr>ln_checksPassed := Some b\<rparr>)"
  have okv: "orch_ok (ctx_ids ctx) owed_nothing owed_nothing {} {l} (v b)" for b unfolding v_def by (rule checked_ok [OF ok x e])
  have yv: "get (o_lanes (v b)) l = Some (y b)" for b using x by (simp add: v_def y_def)
  have run: "running_phase (ln_phase (y b))" for b using x by (simp add: y_def running_phase_def)
  have fuel: "ln_depth (y b) + 2 \<le> finish_fuel (v b)" for b by (rule fuel_enough [OF okv yv])
  have "steady (del_intent i m) (v b)" for b unfolding v_def by (rule steady_upd_lane) (simp_all add: same_place_def)
  from draw_steady(1) [OF steady_trans [OF steady_del_intent this]] have q: "o_seq (v b) = o_seq m" "draw (finish_fuel (v b)) (v b) = draw (finish_fuel m) m" for b
    by (simp_all add: v_def finish_fuel_def)
  then have rm: "o_seq (v b) + draw (finish_fuel (v b)) (v b) \<le> cap" for b using room by simp
  from orch_okD(7) [OF ok x(1)] x(2) obtain a where loc: "ln_threadDone (y b)" "ln_children (y b) = 0" "ln_artifact (y b) = Some a" "ln_phase (y b) = Ph_checking" for b
    by (auto simp: local_ok_def y_def)
  note fail = fail_ok [OF src finish_ok [OF src] okv yv run loc(2) fuel rm, unfolded q]
  have "may_end (y True) Ph_succeeded" using loc by (simp add: may_end_def y_def)
  note fin = fin_okD [OF finish_ok [OF src] okv yv this fuel rm, unfolded q]
  have "\<exists>m'. reconcile_lane (finish_now ctx (v True)) ctx l (v True) = Some m' \<and> settled (ctx_ids ctx) m' \<and> o_seq m' \<le> o_seq m + draw (finish_fuel m) m"
  proof (cases "ln_failedChildren (y True) > 0")
    case True
    with fail [of True] yv [of True] loc show ?thesis by (simp add: reconcile_lane_def)
  next
    case False
    have "ln_checksPassed (y True) = Some True" by (simp add: y_def)
    with False fin yv [of True] loc show ?thesis by (simp add: reconcile_lane_def)
  qed
  with fail [of False "''check_failed''"] show ?thesis unfolding step_checked_def Let_def v_def [symmetric]
    by (cases "c \<and> (tpl_review (oc_template (o_input m)) = None \<or> tpl_review (oc_template (o_input m)) = Some [] \<or> r = Some True)")
      (simp_all only: v_def simp_thms if_True if_False)
qed

lemma no_merge_jobs:
  assumes ok: "orch_ok gen D F X Y m" and s: "o_mergeStatus m \<noteq> Merge_pending"
  shows "job m = pruned (\<lambda>e. op_of e = Ef_merge) m"
proof (rule ext)
  fix i
  have "op_of e \<noteq> Ef_merge" if "job m i = Some e" for e
  proof
    assume o: "op_of e = Ef_merge"
    from orch_okD(11) [OF ok that] obtain x where "fits m x e" by blast
    with o s show False by (cases e) auto
  qed
  then show "job m i = pruned (\<lambda>e. op_of e = Ef_merge) m i" by (auto simp: pruned_def split: option.split)
qed

lemma merge_settled_ok:
  assumes ok: "settled gen m" and e: "job m i = Some e" "op_of e = Ef_merge" and s: "s \<noteq> Merge_pending"
    and m': "m' = (del_intent i m)\<lparr>o_mergeStatus := s\<rparr>"
  shows "settled gen m'"
proof -
  note d = orch_okD [OF ok]
  have w: "effect_lane e' = effect_lane e" if k: "job m k = Some e'" "op_of e' = Ef_merge" for k e'
  proof -
    obtain x where x: "get (o_lanes m) (effect_lane e) = Some x" using d(11) [OF e(1)] by blast
    obtain x' where x': "get (o_lanes m) (effect_lane e') = Some x'" using d(11) [OF k(1)] by blast
    show ?thesis using lane_intents(4) [OF ok x e(1) refl e(2)] lane_intents(4) [OF ok x' k(1) refl k(2)] by simp
  qed
  have "job m' = pruned (\<lambda>e'. effect_lane e' = effect_lane e \<and> op_of e' = op_of e) m" by (simp add: m' job_del [OF ok e(1)])
  also have "\<dots> = pruned (\<lambda>e. op_of e = Ef_merge) m" using w e(2) by (auto simp: pruned_def fun_eq_iff split: option.split)
  finally have jobs: "job m' = pruned (\<lambda>e. op_of e = Ef_merge) m" .
  have st: "steady m m'" unfolding m' by (rule steady_trans [OF steady_del_intent steady_frame]) simp_all
  have "stop_ok {} m'" using d(3) by (simp add: stop_ok_def m')
  then show ?thesis
    by (intro halted_ok [OF ok _ static_steady [OF st d(1)] _ _ jobs]) (use d(4) s in \<open>auto simp: m' merge_ok_def\<close>)
qed

lemma step_pick_ok:
  assumes src: "orch_source (ctx_ids ctx) cap" and ok: "settled (ctx_ids ctx) m" and room: "o_seq m + length (o_lanes m) \<le> cap"
  shows "\<exists>m'. step_pick ctx l b m = Some m' \<and> settled (ctx_ids ctx) m' \<and> o_seq m' \<le> o_seq m + length (o_lanes m)"
proof (cases "get (o_lanes m) l")
  case None with reject_ok [OF ok] show ?thesis by (simp add: step_pick_def reject_def)
next
  case (Some x)
  show ?thesis
  proof (cases "o_stopReason m = Some Stop_budget \<or> o_stopReason m = Some Stop_cancelled \<or> ln_phase x \<noteq> Ph_succeeded \<or>
            ln_artifact x = None \<or> o_mergeStatus m = Merge_pending \<or> o_mergeStatus m = Merge_applied")
    case True with Some reject_ok [OF ok] show ?thesis by (auto simp: step_pick_def reject_def)
  next
    case False
    define v where "v = orch_emit (Winner_event l) (m\<lparr>o_winner := Some l,
                 o_mergeStatus := (if o_mergeStatus m = Merge_failed then Merge_none else o_mergeStatus m)\<rparr>)"
    have st: "steady m v" unfolding v_def by (rule steady_frame) simp_all
    have "\<exists>n. cancelAll (finish_lane (Suc (Suc (bud_maxDepth (budget_of m)))) ctx) ctx Stop_winner (Some l) v = Some n \<and> settled (ctx_ids ctx) n \<and>
        o_stopReason n = Some Stop_winner \<and> o_winner n = o_winner v \<and> \<not> o_mergeRequested n \<and> o_mergeStatus n \<noteq> Merge_pending \<and>
        steady m n \<and> hushed m n \<and> o_seq n \<le> o_seq m + length (o_lanes m)"
    proof (rule cancelAll_ok [OF ok src _ st])
      show "job v = job m" by (simp add: v_def job_def fun_eq_iff)
    qed (use False Some room in \<open>auto simp: v_def\<close>)
    then obtain n where n: "cancelAll (finish_now ctx m) ctx Stop_winner (Some l) v = Some n" "settled (ctx_ids ctx) n"
      "o_stopReason n = Some Stop_winner" "o_mergeStatus n \<noteq> Merge_pending" "o_seq n \<le> o_seq m + length (o_lanes m)" by (auto simp: finish_fuel_def)
    note d = orch_okD [OF n(2)]
    have sn: "steady n (n\<lparr>o_mergeRequested := b\<rparr>)" by (rule steady_frame) simp_all
    have jobs: "job (n\<lparr>o_mergeRequested := b\<rparr>) = pruned (\<lambda>e. op_of e = Ef_merge) n" using no_merge_jobs [OF n(2,4)] by simp
    have "stop_ok {} (n\<lparr>o_mergeRequested := b\<rparr>)" using d(3) by (simp add: stop_ok_def)
    then have "settled (ctx_ids ctx) (n\<lparr>o_mergeRequested := b\<rparr>)"
      by (intro halted_ok [OF n(2) _ static_steady [OF sn d(1)] _ _ jobs]) (use n(3,4) d(4) in \<open>auto simp: merge_ok_def\<close>)
    with n(1,5) False Some show ?thesis by (auto simp: step_pick_def v_def)
  qed
qed

lemma enforce_budget_ok:
  assumes src: "orch_source (ctx_ids ctx) cap" and ok: "settled (ctx_ids ctx) m" and room: "o_seq m + length (o_lanes m) \<le> cap"
  shows "\<exists>m'. enforce_budget ctx m = Some m' \<and> settled (ctx_ids ctx) m' \<and> o_seq m' \<le> o_seq m + length (o_lanes m)"
  using halt_ok [OF src ok room, of Stop_budget] ok by (auto simp: enforce_budget_def)

lemma step_lane_ok:
  assumes src: "orch_source (ctx_ids ctx) cap" and ok: "settled (ctx_ids ctx) m" and x: "get (o_lanes m) l = Some x" and f: "fact_ok f"
    and room: "o_seq m + step_draw m \<le> cap"
  shows "\<exists>m'. step_lane ctx f l x m = Some m' \<and> settled (ctx_ids ctx) m' \<and> o_seq m' \<le> o_seq m + step_draw m"
proof -
  have rl: "o_seq m + length (o_lanes m) \<le> cap" and rd: "o_seq m + draw (finish_fuel m) m \<le> cap" using room step_draw_ge [of m] by simp_all
  have within: "\<exists>m'. r = Some m' \<and> settled (ctx_ids ctx) m' \<and> o_seq m' \<le> o_seq m + step_draw m"
    if "\<exists>m'. r = Some m' \<and> settled (ctx_ids ctx) m' \<and> o_seq m' \<le> o_seq m + length (o_lanes m) \<or>
      r = Some m' \<and> settled (ctx_ids ctx) m' \<and> o_seq m' \<le> o_seq m + draw (finish_fuel m) m" for r
    using that step_draw_ge [of m] by (auto intro: order_trans)
  note d = orch_okD [OF ok] and loc = orch_okD(7) [OF ok x] and fuel = fuel_enough [OF ok x]
  have ok': "orch_ok (ctx_ids ctx) owed_nothing owed_nothing {} {l} m" by (rule orch_ok_mono [OF ok]) auto
  show ?thesis
  proof (cases f)
    case (Fact_bound a b t w)
    have "o_seq (step_bound l x t w m) = o_seq m" by (simp add: step_bound_def reject_def Let_def)
    with Fact_bound step_bound_ok [OF ok x] ok show ?thesis by (simp add: step_lane_def)
  next
    case (Fact_thread a b s) with step_thread_ok [OF src ok x room] show ?thesis by (simp add: step_lane_def)
  next
    case (Fact_artifact a b art)
    show ?thesis
    proof (cases "\<not> terminal (ln_phase x) \<and> ln_phase x \<noteq> Ph_cancelling \<and> ln_phase x \<noteq> Ph_checking")
      case True
      define d where "d = upd_lane l (\<lambda>y. y\<lparr>ln_artifact := Some art\<rparr>) m"
      have "steady m d" unfolding d_def by (rule steady_upd_lane) (simp_all add: same_place_def)
      then have q: "o_seq d = o_seq m" "draw n d = draw n m" for n using draw_steady(1) by (simp_all add: d_def)
      have "settled (ctx_ids ctx) d" unfolding d_def
        by (rule touch_ok [OF ok x]) (use True loc in \<open>auto simp: same_place_def local_ok_def required_intent_def split: if_splits\<close>)
      then have "\<exists>m'. reconcile_lane (finish_now ctx m) ctx l d = Some m' \<and> settled (ctx_ids ctx) m' \<and> o_seq m' \<le> o_seq d + draw (finish_fuel m) d"
        by (rule reconcile_ok [OF src finish_ok [OF src]]) (use x fuel rd q in \<open>auto simp: d_def\<close>)
      with within [of "reconcile_lane (finish_now ctx m) ctx l d"] True Fact_artifact show ?thesis
        by (auto simp: step_lane_def q d_def [symmetric])
    qed (use ok Fact_artifact in \<open>auto simp: step_lane_def\<close>)
  next
    case (Fact_checked a b i c r)
    show ?thesis
    proof (cases "ln_phase x = Ph_checking \<and> intent_is m i Ef_check \<and> intent_for m i l")
      case True
      then obtain e where "job m i = Some e" "op_of e = Ef_check" "effect_lane e = l" using intent_job by blast
      from step_checked_ok [OF src ok x _ this rd, of c r] True Fact_checked within [of "step_checked ctx l i c r m"] show ?thesis by (auto simp: step_lane_def)
    qed (use ok Fact_checked in \<open>auto simp: step_lane_def\<close>)
  next
    case (Fact_usage a b u)
    with step_usage_ok [OF src ok rl, of l x u] within [of "step_usage ctx l x u m"] show ?thesis by (auto simp: step_lane_def)
  next
    case (Fact_stopped a b i)
    show ?thesis
    proof (cases "ln_phase x = Ph_cancelling \<and> intent_is m i Ef_cancel \<and> intent_for m i l")
      case True
      have "\<exists>m'. finish_now ctx m l Ph_cancelled m = Some m' \<and> settled (ctx_ids ctx) m' \<and> o_seq m' \<le> o_seq m + draw (finish_fuel m) m"
        if "ln_children x = 0"
        by (rule fin_okD [OF finish_ok [OF src] ok' x _ fuel rd]) (use that True in \<open>simp add: may_end_def\<close>)
      moreover have "settled (ctx_ids ctx) (upd_lane l (\<lambda>y. y\<lparr>ln_threadDone := True\<rparr>) m)" if "ln_children x \<noteq> 0"
        by (rule touch_ok [OF ok x])
          (use that True loc children_nonneg [OF ok x] in \<open>auto simp: same_place_def local_ok_def required_intent_def\<close>)
      ultimately show ?thesis using True Fact_stopped within [of "finish_now ctx m l Ph_cancelled m"] by (auto simp: step_lane_def)
    qed (use ok Fact_stopped in \<open>auto simp: step_lane_def\<close>)
  next
    case (Fact_execution_failed a b i op err)
    show ?thesis
    proof (cases "intent_for m i l \<and> intent_is m i op")
      case True
      then obtain e where e: "job m i = Some e" "op_of e = op" "effect_lane e = l" using intent_job by blast
      show ?thesis
      proof (cases "op = Ef_merge")
        case mer: True
        with merge_settled_ok [OF ok e(1) _ _ refl, of Merge_failed] e(2) True Fact_execution_failed show ?thesis
          by (simp add: step_lane_def)
      next
        case False
        have okd: "orch_ok (ctx_ids ctx) owed_nothing owed_nothing {} {l} (del_intent i m)" using drop_own_ok [OF ok e(1)] e False by simp
        have "op \<noteq> Ef_cancel" using f Fact_execution_failed by simp
        then have "op = Ef_start \<or> op = Ef_check" using False by (cases op) auto
        then have run: "running_phase (ln_phase x)" using lane_intents(1,2) [OF ok x e(1,3)] e(2) by (auto simp: running_phase_def)
        have q: "finish_fuel (del_intent i m) = finish_fuel m" "draw n (del_intent i m) = draw n m" for n by (simp_all add: finish_fuel_def draw_def)
        have "\<exists>m'. fail_lane (finish_now ctx (del_intent i m)) ctx l err (del_intent i m) = Some m' \<and> settled (ctx_ids ctx) m' \<and>
            o_seq m' \<le> o_seq (del_intent i m) + draw (finish_fuel (del_intent i m)) (del_intent i m)"
          by (rule fail_ok [OF src finish_ok [OF src] okd _ run]) (use x fuel loc rd q in \<open>auto simp: local_ok_def\<close>)
        with within [of "fail_lane (finish_now ctx (del_intent i m)) ctx l err (del_intent i m)"]
        have "\<exists>m'. fail_lane (finish_now ctx (del_intent i m)) ctx l err (del_intent i m) = Some m' \<and> settled (ctx_ids ctx) m' \<and> o_seq m' \<le> o_seq m + step_draw m"
          by (auto simp: q)
        with True False run running_phaseD [OF run] Fact_execution_failed show ?thesis by (simp add: step_lane_def Let_def)
      qed
    qed (use ok Fact_execution_failed in \<open>auto simp: step_lane_def\<close>)
  next
    case (Fact_merged a b i cp)
    show ?thesis
    proof (cases "o_mergeStatus m = Merge_pending \<and> o_winner m = Some l \<and> intent_is m i Ef_merge")
      case True
      then obtain e where e: "job m i = Some e" "op_of e = Ef_merge" by (auto simp: intent_is_def job_def)
      define u where "u = (del_intent i m)\<lparr>o_mergeStatus := Merge_applied\<rparr>"
      have u: "settled (ctx_ids ctx) u" by (rule merge_settled_ok [OF ok e _ u_def]) simp
      have "settled (ctx_ids ctx) (u\<lparr>o_safetyCheckpoint := Some cp\<rparr>)" by (rule orch_ok_frame [OF u]) simp_all
      from reject_ok [OF this] have "settled (ctx_ids ctx) (orch_emit (Merged_event l cp)
           ((del_intent i m)\<lparr>o_mergeStatus := Merge_applied, o_safetyCheckpoint := Some cp\<rparr>))" by (simp add: u_def)
      with True Fact_merged show ?thesis by (simp add: step_lane_def)
    qed (use ok Fact_merged in \<open>auto simp: step_lane_def\<close>)
  qed (use ok in \<open>simp_all add: step_lane_def\<close>)
qed

subsection \<open>The merge of a winner\<close>

lemma merge_asked_ok:
  assumes src: "distinct_ids gen" and ok: "settled gen m"
    and x: "get (o_lanes m) w = Some x" "o_winner m = Some w" "ln_artifact x = Some a"
    and r: "o_mergeRequested m" "o_mergeStatus m \<noteq> Merge_pending"
    and m': "o_lanes m' = o_lanes m" "static_ok m'" "o_input m' = o_input m" "o_stopReason m' = o_stopReason m" "o_winner m' = o_winner m"
      "o_mergeRequested m' = o_mergeRequested m" "o_mergeStatus m' = Merge_pending" "o_seq m' = Suc (o_seq m)"
    and jobs: "\<And>i. job m' i = (if i = gen Kind_intent (o_seq m) then Some (Merge_effect w (ln_attempt x) (art_checkpoint a)) else job m i)"
  shows "settled gen m'"
proof -
  note d = orch_okD [OF ok]
  let ?e = "Merge_effect w (ln_attempt x) (art_checkpoint a)"
  have old: "op_of e \<noteq> Ef_merge" if "job m i = Some e" for i e
  proof -
    have "pruned (\<lambda>e. op_of e = Ef_merge) m i = Some e" by (simp only: no_merge_jobs [OF ok r(2), symmetric] that)
    then show ?thesis by simp
  qed
  have stop: "o_stopReason m = Some Stop_winner" using d(4) r(1) by (simp add: merge_ok_def)
  have "kids owed_nothing owed_nothing m'" using d(2) m'(1) by (simp add: kids_def open_kids_def failed_kids_def)
  moreover have "stop_ok {} m'" using d(3) m' by (simp add: stop_ok_def)
  moreover have "merge_ok m'" using d(4) m' x(2) jobs [of "gen Kind_intent (o_seq m)"] unfolding merge_ok_def holds_def by fastforce
  moreover have "jobs_ok gen {} m'" unfolding jobs_ok_def
  proof (intro conjI allI impI)
    fix i e assume e: "job m' i = Some e"
    consider (new) "i = gen Kind_intent (o_seq m)" "e = ?e" | (kept) "job m i = Some e" "op_of e \<noteq> Ef_merge"
      using e jobs [of i] old [of i e] by (cases "i = gen Kind_intent (o_seq m)") auto
    note c = this
    then show "\<exists>n<o_seq m'. i = gen Kind_intent n"
      by cases (use m'(8) d(12) [of i e] in \<open>auto intro: less_SucI\<close>)
    from c show "\<exists>y. get (o_lanes m') (effect_lane e) = Some y \<and> ln_attempt y = effect_attempt e \<and> fits m' y e"
    proof cases
      case new with x m' r stop show ?thesis by simp
    next
      case kept
      with d(11) [OF kept(1)] fits_other [OF kept(2), of m'] m'(1) show ?thesis by metis
    qed
  next
    fix l
    have "i = i'" if "job m' i = Some e" "job m' i' = Some e'" "effect_lane e = l" "effect_lane e' = l" "op_of e = op_of e'" for i i' e e'
      using d(13) [of l] old [of i e] old [of i' e'] that unfolding once_def
      by (cases "i = gen Kind_intent (o_seq m)"; cases "i' = gen Kind_intent (o_seq m)") (auto simp: jobs)
    then show "once (job m') l" unfolding once_def by blast
  next
    fix k y op assume "get (o_lanes m') k = Some y" "k \<notin> {}" "required_intent y = Some op"
    with d(14) [of k y op] m'(1) obtain i e where e: "job m i = Some e" "effect_lane e = k" "op_of e = op" by (auto simp: holds_def)
    moreover have "i \<noteq> gen Kind_intent (o_seq m)" using d(12) [OF e(1)] distinct_idsD [OF src] by (metis less_irrefl)
    ultimately show "holds (job m') k op" using jobs [of i] unfolding holds_def by fastforce
  qed
  ultimately show ?thesis using d(7) m' by (simp add: orch_ok_def)
qed

lemma updateStatus_ok:
  assumes src: "orch_source (ctx_ids ctx) cap" and ok: "settled (ctx_ids ctx) m" and room: "o_seq m < cap"
  shows "\<exists>m'. updateStatus ctx m = Some m' \<and> settled (ctx_ids ctx) m' \<and> o_status m' = runStatus m' \<and> o_seq m' \<le> Suc (o_seq m)"
proof -
  have "\<exists>n. request_merge ctx m = Some n \<and> settled (ctx_ids ctx) n \<and> o_seq n \<le> Suc (o_seq m)"
  proof (cases "o_open m = 0 \<and> o_mergeRequested m \<and> o_mergeStatus m = Merge_none")
    case True
    show ?thesis
    proof (cases "Option.bind (o_winner m) (get (o_lanes m))")
      case None with ok show ?thesis by (simp add: request_merge_def)
    next
      case (Some x)
      then obtain w where w: "o_winner m = Some w" "get (o_lanes m) w = Some x" by (auto simp: bind_eq_Some_conv)
      show ?thesis
      proof (cases "ln_artifact x")
        case None with ok Some show ?thesis by (simp add: request_merge_def)
      next
        case a: (Some a)
        define v where "v = m\<lparr>o_mergeStatus := Merge_pending\<rparr>"
        have "\<forall>i e. job v i = Some e \<longrightarrow> (\<exists>n < o_seq v. i = ctx_ids ctx Kind_intent n)" using orch_okD(12) [OF ok] by (simp add: v_def)
        moreover have "o_seq v < cap" using room by (simp add: v_def)
        ultimately
        obtain n where n: "add_intent ctx (Merge_effect w (ln_attempt x) (art_checkpoint a)) v = Some n"
          "\<forall>i. job n i = (if i = ctx_ids ctx Kind_intent (o_seq v) then Some (Merge_effect w (ln_attempt x) (art_checkpoint a)) else job v i)"
          using add_intent_total [OF src, of v "Merge_effect w (ln_attempt x) (art_checkpoint a)"] by blast
        have st: "steady m n" by (rule steady_trans [OF steady_frame steady_add_intent [OF n(1)]]) (simp_all add: v_def)
        have "settled (ctx_ids ctx) n"
          by (rule merge_asked_ok [OF orch_source.gen_inj [OF src] ok w(2,1) a _ _ _ static_steady [OF st orch_okD(1) [OF ok]]])
            (use True n(2) add_intent_cases [OF n(1)] in \<open>simp_all add: v_def\<close>)
        moreover have "ln_id x = w" by (rule orch_okD(8) [OF ok w(2)])
        moreover have "o_seq n = Suc (o_seq m)" using add_intent_cases(8) [OF n(1)] by (simp add: v_def)
        ultimately show ?thesis using True Some a n(1) by (simp add: request_merge_def v_def)
      qed
    qed
  qed (use ok in \<open>auto simp: request_merge_def\<close>)
  then obtain n where n: "request_merge ctx m = Some n" "settled (ctx_ids ctx) n" "o_seq n \<le> Suc (o_seq m)" by blast
  have "settled (ctx_ids ctx) (n\<lparr>o_status := runStatus n\<rparr>)" by (rule orch_ok_frame [OF n(2)]) simp_all
  note e = reject_ok [OF this, of "Status_event (runStatus n)"]
  have "runStatus (orch_emit (Status_event (runStatus n)) (n\<lparr>o_status := runStatus n\<rparr>)) = runStatus n"
    by (simp add: runStatus_def)
  with n e show ?thesis by (simp add: updateStatus_def Let_def orch_emit_def)
qed

text \<open>
  An acknowledgment removes an intent. Its host sends it once the fact of the execution has been
  applied, so that the intent is no longer the one its lane waits for.
\<close>

definition ack_ready :: "orch \<Rightarrow> ident \<Rightarrow> bool" where
  "ack_ready m i \<longleftrightarrow> (case get (o_intents m) i of None \<Rightarrow> True
     | Some e \<Rightarrow> op_of (int_effect e) \<noteq> Ef_merge \<and>
         (case get (o_lanes m) (effect_lane (int_effect e)) of None \<Rightarrow> True | Some x \<Rightarrow> required_intent x \<noteq> Some (op_of (int_effect e))))"

lemma del_absent: "get d k = None \<Longrightarrow> del d k = d"
  using in_keys_iff [of k d] by (auto simp: del_def has_def filter_id_conv)

lemma ack_ok:
  assumes ok: "settled gen m" and r: "ack_ready m i" shows "settled gen (del_intent i m)"
proof (cases "job m i")
  case None
  then have "del_intent i m = m" by (simp add: job_def del_intent_def del_absent)
  with ok show ?thesis by simp
next
  case (Some e)
  from orch_okD(11) [OF ok Some] obtain x where x: "get (o_lanes m) (effect_lane e) = Some x" by blast
  note d = orch_okD [OF ok]
  have e: "op_of e \<noteq> Ef_merge" "required_intent x \<noteq> Some (op_of e)" using r Some x by (auto simp: ack_ready_def job_def)
  have lanes: "o_lanes (del_intent i m) = modify (o_lanes m) (effect_lane e) (\<lambda>_. x)" using x by (simp add: modify_def put_same)
  show ?thesis
  proof (rule refit_drop [OF ok x lanes _ _ _ _ _ _ _ job_del [OF ok Some]])
    show "static_ok (del_intent i m)" by (rule static_steady [OF steady_del_intent d(1)])
    show "kids owed_nothing owed_nothing (del_intent i m)" by (rule kids_quiet [OF d(2) x lanes]) simp_all
    show "\<exists>i e'. job m i = Some e' \<and> effect_lane e' = effect_lane e \<and> op_of e' = op \<and> \<not> (effect_lane e' = effect_lane e \<and> op_of e' = op_of e)"
      if "required_intent x = Some op" for op
    proof -
      have "op \<noteq> op_of e" using e(2) that by auto
      with d(14) [OF x _ that] show ?thesis by (fastforce simp: holds_def)
    qed
  qed (use e(1) d(7) [OF x] stop_okD [OF d(3) x] winner_succeeded [OF ok x] in auto)
qed

end
