(* ===== verification/Orchestrator_Run.thy ===== *)
theory Orchestrator_Run
  imports Orchestrator_Steps
begin

text \<open>
  Runs of the orchestrator: the lanes a run is created with and those its coordinators spawn, the
  states reachable by facts, and what holds in each of them. The counters are exact, every lane in a
  phase that waits for an execution has its intent, and recovery accepts the state, with one exception.
\<close>

subsection \<open>A new lane\<close>

definition born :: "(orch_kind \<Rightarrow> nat \<Rightarrow> ident) \<Rightarrow> orch \<Rightarrow> bool" where
  "born gen m \<longleftrightarrow> (\<forall>k. has (o_lanes m) k \<longrightarrow> (\<exists>n < o_seq m. k = gen Kind_lane n))"

lemma born_steady: "steady m m' \<Longrightarrow> born gen m \<Longrightarrow> born gen m'"
  unfolding born_def steady_def using in_keys_iff by (metis (no_types, lifting) list.set_map order_less_le_trans)

lemma born_fresh: "distinct_ids gen \<Longrightarrow> born gen m \<Longrightarrow> get (o_lanes m) (gen Kind_lane (o_seq m)) = None"
  unfolding born_def using distinct_idsD [of gen Kind_lane] by (metis has_def less_irrefl option.exhaust_sel option.sel has_Some)

lemma no_kids_of_absent:
  assumes "static_ok m" "get (o_lanes m) c = None" shows "open_kids c m = 0" "failed_kids c m = 0"
proof -
  have "ln_parentId x \<noteq> Some c" if "get (o_lanes m) k = Some x" for k x
    using static_okD(6) [OF assms(1) that] assms(2) by auto
  then show "open_kids c m = 0" "failed_kids c m = 0" unfolding open_kids_def failed_kids_def
    using assms(1) by (intro lane_total_zero; fastforce simp: open_child_def failed_child_def static_ok_def)+
qed

lemma grow_ok:
  assumes ok: "settled gen m" and c: "get (o_lanes m) c = None" and stop: "o_stopReason m = None"
    and x: "ln_id x = c" "ln_phase x = Ph_queued" "ln_attempt x = 1" "\<not> ln_threadDone x" "ln_children x = 0" "ln_failedChildren x = 0"
      "ln_threadId x = None" "ln_worktree x = None" "ln_depth x \<le> bud_maxDepth (budget_of m)"
    and par: "case ln_parentId x of None \<Rightarrow> ln_depth x = 0
        | Some p \<Rightarrow> kind_of m = Coordinator \<and> (\<exists>y. get (o_lanes m) p = Some y \<and> ln_depth x = Suc (ln_depth y))"
    and m': "o_lanes m' = put (o_lanes m) c x" "o_input m' = o_input m" "o_stopReason m' = o_stopReason m" "o_winner m' = o_winner m"
      "o_mergeRequested m' = o_mergeRequested m" "o_mergeStatus m' = o_mergeStatus m" "o_seq m \<le> o_seq m'" "job m' = job m" "keys_distinct m'"
  shows "orch_ok gen (\<lambda>k. of_bool (ln_parentId x = Some k)) owed_nothing {} {c} m'"
proof -
  note d = orch_okD [OF ok]
  have g: "get (o_lanes m') k = (if k = c then Some x else get (o_lanes m) k)" for k by (simp add: m'(1))
  have "static_ok m'" unfolding static_ok_def
  proof (intro conjI allI impI)
    fix k y assume y: "get (o_lanes m') k = Some y"
    show "ln_id y = k" "ln_depth y \<le> bud_maxDepth (budget_of m')" "1 \<le> ln_attempt y"
      using y x(1,3,9) static_okD(1-3) [OF d(1), of k y] by (auto simp: g m'(2) split: if_splits)
    have keep: "\<exists>z. get (o_lanes m') p = Some z \<and> n = Suc (ln_depth z)" if "\<exists>z. get (o_lanes m) p = Some z \<and> n = Suc (ln_depth z)" for p n
      using that c by (auto simp: g)
    show "case ln_parentId y of None \<Rightarrow> ln_depth y = 0
        | Some p \<Rightarrow> kind_of m' = Coordinator \<and> (\<exists>z. get (o_lanes m') p = Some z \<and> ln_depth y = Suc (ln_depth z))"
    proof (cases "k = c")
      case True
      with y have "y = x" by (simp add: g)
      with par keep show ?thesis by (cases "ln_parentId x") (auto simp: m'(2))
    next
      case False
      with y have "get (o_lanes m) k = Some y" by (simp add: g)
      note s = static_okD(4-6) [OF d(1) this]
      show ?thesis using s keep by (cases "ln_parentId y") (auto simp: m'(2))
    qed
  qed (use m' d(1) in \<open>simp_all add: static_ok_def\<close>)
  moreover have "kids (\<lambda>k. of_bool (ln_parentId x = Some k)) owed_nothing m'"
  proof -
    have t: "open_kids k m' = open_kids k m + of_bool (ln_parentId x = Some k)" "failed_kids k m' = failed_kids k m" for k
      unfolding open_kids_def failed_kids_def m'(1) by (simp_all add: lane_total_put_new [OF c] open_child_def failed_child_def x(2))
    have "ln_parentId x \<noteq> Some c" using par c by (auto split: option.splits)
    with d(2) x(5,6) no_kids_of_absent [OF d(1) c] show ?thesis unfolding kids_def t g by auto
  qed
  moreover have "local_ok (o_input m') {c} k y" if "get (o_lanes m') k = Some y" for k y
  proof (cases "k = c")
    case True
    have "1 \<le> bud_maxAttempts (budget_of m)" using d(1) by (simp add: static_ok_def create_ok_def Let_def)
    with True that x show ?thesis by (simp add: g m'(2) local_ok_def)
  next
    case False
    with that d(7) [of k y] show ?thesis by (auto simp: g m'(2) intro: local_ok_mono)
  qed
  moreover have "stop_ok {} m'" using d(3) stop x(2) by (auto simp: stop_ok_def m'(3) g)
  moreover have "merge_ok m'" using d(4) c by (auto simp: merge_ok_def m' g split: if_splits)
  moreover have "jobs_ok gen {c} m'" unfolding jobs_ok_def
  proof (intro conjI allI impI)
    fix i e assume e: "job m' i = Some e"
    show "\<exists>n<o_seq m'. i = gen Kind_intent n" using d(12) [of i e] e m'(7,8) by (auto intro: order_less_le_trans)
    from d(11) [of i e] e m'(8) obtain y where y: "get (o_lanes m) (effect_lane e) = Some y" "ln_attempt y = effect_attempt e" "fits m y e" by auto
    then show "\<exists>y. get (o_lanes m') (effect_lane e) = Some y \<and> ln_attempt y = effect_attempt e \<and> fits m' y e"
      using c fits_cong [of m' m, OF m'(3-6)] by (auto simp: g)
  qed (use d(13,14) m'(8) in \<open>auto simp: g split: if_splits\<close>)
  ultimately show ?thesis by (simp add: orch_ok_def)
qed

lemma counts_grow:
  "counts m \<Longrightarrow> get (o_lanes m) c = None \<Longrightarrow> ln_phase x = Ph_queued \<Longrightarrow> counts (m\<lparr>o_seq := n, o_lanes := put (o_lanes m) c x, o_open := o_open m + 1\<rparr>)"
  by (simp add: counts_def lane_total_put_new lane_waits_def)

lemma addLane_ok:
  assumes src: "orch_source (ctx_ids ctx) cap" and ok: "settled (ctx_ids ctx) m" and b: "born (ctx_ids ctx) m" and cn: "counts m"
    and stop: "o_stopReason m = None" and c: "c = ctx_ids ctx Kind_lane (o_seq m)"
    and par: "\<And>p. parent = Some p \<Longrightarrow> \<exists>y. get (o_lanes m) p = Some y \<and> running_phase (ln_phase y) \<and> kind_of m = Coordinator \<and>
      ln_depth y < bud_maxDepth (budget_of m) \<and> (p \<in> Y \<or> ln_phase y \<noteq> Ph_checking)"
    and Y: "c \<in> Y" and room: "o_seq m < cap"
  shows "\<exists>u x. addLane ctx spec prompt stage parent m = Some (c, u) \<and> orch_ok (ctx_ids ctx) owed_nothing owed_nothing {} Y u \<and>
    get (o_lanes u) c = Some x \<and> x = new_lane ctx c spec prompt stage (Option.bind parent (get (o_lanes m))) \<and>
    map fst (o_lanes u) = map fst (o_lanes m) @ [c] \<and> (\<forall>k y. get (o_lanes m) k = Some y \<longrightarrow>
      get (o_lanes u) k = Some (if parent = Some k then y\<lparr>ln_children := ln_children y + 1\<rparr> else y)) \<and>
    born (ctx_ids ctx) u \<and> counts u \<and> o_input u = o_input m \<and> o_stopReason u = None \<and> o_spawnReceipts u = o_spawnReceipts m \<and>
    o_seq u = Suc (o_seq m) \<and> o_status u = o_status m"
proof -
  note d = orch_okD [OF ok]
  have fresh: "get (o_lanes m) c = None" unfolding c by (rule born_fresh [OF orch_source.gen_inj [OF src] b])
  define x where "x = new_lane ctx c spec prompt stage (Option.bind parent (get (o_lanes m)))"
  define v where "v = m\<lparr>o_seq := Suc (o_seq m), o_lanes := put (o_lanes m) c x, o_open := o_open m + 1\<rparr>"
  have xf: "ln_id x = c" "ln_phase x = Ph_queued" "ln_attempt x = 1" "\<not> ln_threadDone x" "ln_children x = 0" "ln_failedChildren x = 0"
      "ln_threadId x = None" "ln_worktree x = None" by (simp_all add: x_def new_lane_def)
  have kv: "keys_distinct v" using d(6) by (simp add: v_def distinct_put)
  have pc: "parent = Some k \<Longrightarrow> k \<noteq> c" for k using par [of k] fresh by auto
  have xp: "ln_parentId x = parent"
  proof (cases parent)
    case (Some p)
    with par [OF Some] obtain y where "get (o_lanes m) p = Some y" by blast
    with Some d(8) show ?thesis by (simp add: x_def new_lane_def)
  qed (simp add: x_def new_lane_def)
  have okv: "orch_ok (ctx_ids ctx) (\<lambda>k. of_bool (parent = Some k)) owed_nothing {} {c} v" unfolding xp [symmetric]
  proof (rule grow_ok [OF ok fresh stop xf])
    show "ln_depth x \<le> bud_maxDepth (budget_of m)" using par
      by (cases parent) (fastforce simp: x_def new_lane_def)+
    show "case ln_parentId x of None \<Rightarrow> ln_depth x = 0
        | Some p \<Rightarrow> kind_of m = Coordinator \<and> (\<exists>y. get (o_lanes m) p = Some y \<and> ln_depth x = Suc (ln_depth y))"
      unfolding xp using par by (cases parent) (fastforce simp: x_def new_lane_def)+
  qed (use kv in \<open>simp_all add: v_def job_def fun_eq_iff\<close>)
  have bv: "born (ctx_ids ctx) v" unfolding born_def
  proof (intro allI impI)
    fix k assume "has (o_lanes v) k"
    then have "k = c \<or> has (o_lanes m) k" by (auto simp: v_def has_def split: if_splits)
    with b c show "\<exists>n<o_seq v. k = ctx_ids ctx Kind_lane n" unfolding born_def by (auto simp: v_def intro: less_SucI)
  qed
  have cv: "counts v" unfolding v_def by (rule counts_grow [OF cn fresh xf(2)])
  have keys: "map fst (o_lanes v) = map fst (o_lanes m) @ [c]" using fresh by (simp add: v_def keys_put has_def)
  have new: "addLane ctx spec prompt stage parent m = Some (c, case parent of None \<Rightarrow> v | Some p \<Rightarrow> upd_lane p (\<lambda>x. x\<lparr>ln_children := ln_children x + 1\<rparr>) v)"
    using orch_source.gen_valid [OF src room, of Kind_lane] fresh
    by (simp add: addLane_def nextId_def Let_def has_def c [symmetric] v_def x_def split: option.split)
  show ?thesis
  proof (cases parent)
    case None
    have "orch_ok (ctx_ids ctx) owed_nothing owed_nothing {} Y v" using okv Y None orch_ok_mono [of _ _ _ "{}" "{c}" v "{}" Y] by simp
    with new None bv cv keys stop fresh show ?thesis by (auto simp: v_def x_def)
  next
    case (Some p)
    from par [OF Some] obtain y where y: "get (o_lanes m) p = Some y" "running_phase (ln_phase y)" "p \<in> Y \<or> ln_phase y \<noteq> Ph_checking" by blast
    have pv: "get (o_lanes v) p = Some y" using y pc [OF Some] by (simp add: v_def)
    define u where "u = upd_lane p (\<lambda>x. x\<lparr>ln_children := ln_children x + 1\<rparr>) v"
    define z where "z = y\<lparr>ln_children := ln_children y + 1\<rparr>"
    have st: "steady v u" unfolding u_def by (rule steady_upd_lane) (simp_all add: same_place_def)
    have lanes: "o_lanes u = modify (o_lanes v) p (\<lambda>_. z)" using pv by (simp add: u_def z_def modify_def)
    note q = running_phaseD [OF y(2)] and dv = orch_okD [OF okv]
    have "orch_ok (ctx_ids ctx) owed_nothing owed_nothing {} Y u"
    proof (rule refit_drop [OF okv pv lanes, where P = "\<lambda>_. False"])
      show "static_ok u" by (rule static_steady [OF st dv(1)])
      have e: "(\<lambda>k. of_bool (parent = Some k))(p := of_bool (parent = Some p) + ln_children y - ln_children z) = owed_nothing"
        "owed_nothing(p := owed_nothing p + ln_failedChildren z - ln_failedChildren y) = owed_nothing"
        using Some by (auto simp: z_def fun_eq_iff)
      show "kids owed_nothing owed_nothing u" using kids_count [OF dv(2) pv lanes, unfolded e] by (simp add: z_def)
      show "local_ok (o_input v) Y p z" using dv(7) [OF pv] y(3) q pc [OF Some] by (auto simp: local_ok_def z_def)
      show "\<exists>i e. job v i = Some e \<and> effect_lane e = p \<and> op_of e = op \<and> \<not> False" if "required_intent z = Some op" for op
      proof -
        have "required_intent z = required_intent y" by (simp add: required_intent_def z_def)
        with dv(14) [OF pv, of op] pc [OF Some] that show ?thesis by (simp add: holds_def)
      qed
      show "ln_attempt z = effect_attempt e \<and> fits v z e" if "ln_attempt y = effect_attempt e" "fits v y e" for e
        using that by (cases e) (simp_all add: z_def)
      show "ln_phase z = Ph_succeeded" if "o_winner v = Some p" using winner_succeeded [OF okv pv that] q by auto
    qed (use stop q Y in \<open>auto simp: z_def u_def v_def\<close>)
    moreover have "get (o_lanes u) c = Some x" using pc [OF Some] by (simp add: u_def v_def)
    moreover have "counts u" using st cv by (simp add: steady_def)
    moreover have "map fst (o_lanes u) = map fst (o_lanes m) @ [c]" using keys by (simp add: u_def keys_modify)
    moreover have "get (o_lanes u) k = Some (if parent = Some k then t\<lparr>ln_children := ln_children t + 1\<rparr> else t)" if "get (o_lanes m) k = Some t" for k t
      using that Some fresh by (auto simp: u_def v_def)
    ultimately show ?thesis using new Some born_steady [OF st bv] stop
      by (intro exI [of _ u] exI [of _ x]) (simp add: u_def v_def x_def upd_lane_def)
  qed
qed

lemma start_new_ok:
  assumes src: "orch_source (ctx_ids ctx) cap" and ok: "orch_ok (ctx_ids ctx) owed_nothing owed_nothing {} Y u" and x: "get (o_lanes u) c = Some x"
    and new: "ln_phase x = Ph_queued" "ln_threadId x = None" "ln_worktree x = None" and stop: "o_stopReason u = None" and Y: "Y \<subseteq> insert c Y'"
    and room: "o_seq u < cap"
  shows "\<exists>m'. start_lane ctx c None u = Some m' \<and> orch_ok (ctx_ids ctx) owed_nothing owed_nothing {} Y' m' \<and> steady u m' \<and> o_stopReason m' = None \<and>
    o_seq m' = Suc (o_seq u)"
proof -
  have none: "effect_lane e \<noteq> c" if e: "job u i = Some e" for i e
  proof
    assume "effect_lane e = c"
    from lane_intents [OF ok x e this] new(1) show False by (cases "op_of e") (auto simp: running_phase_def)
  qed
  show ?thesis
    by (rule start_ok [OF ok x src, where P = "\<lambda>_. False" and y = x])
      (use none new stop Y orch_okD(7) [OF ok x] x room in \<open>auto simp: modify_def put_same local_ok_def\<close>)
qed

lemma join_ok:
  assumes ok: "orch_ok gen D F {} Y m" and y: "get (o_lanes m) p = Some y" "running_phase (ln_phase y)" and Y: "Y \<subseteq> {p}"
  shows "orch_ok gen D F {} {} (set_phase p Ph_joining (clearChecks p m))"
proof -
  note d = orch_okD [OF ok] and q = running_phaseD [OF y(2)]
  define m' where "m' = set_phase p Ph_joining (clearChecks p m)"
  define z where "z = y\<lparr>ln_checksPassed := None, ln_phase := Ph_joining\<rparr>"
  have st: "steady m m'" unfolding m'_def by (rule steady_trans [OF steady_clear(2) steady_set_phase])
  have lanes: "o_lanes m' = modify (o_lanes m) p (\<lambda>_. z)" using y(1) by (simp add: m'_def z_def modify_def)
  have "orch_ok gen D F {} {} m'"
  proof (rule refit_drop [OF ok y(1) lanes, where P = "\<lambda>e. effect_lane e = p \<and> op_of e = Ef_check"])
    show "static_ok m'" by (rule static_steady [OF st d(1)])
    show "kids D F m'" by (rule kids_quiet [OF d(2) y(1) lanes]) (use q in \<open>auto simp: z_def\<close>)
    show "job m' = pruned (\<lambda>e. effect_lane e = p \<and> op_of e = Ef_check) m" using job_clears(2) [OF d(6)] by (simp add: m'_def)
    show "local_ok (o_input m) {} p z" using d(7) [OF y(1)] by (simp add: local_ok_def z_def)
    show "\<exists>i e. job m i = Some e \<and> effect_lane e = p \<and> op_of e = op \<and> \<not> (effect_lane e = p \<and> op_of e = Ef_check)"
      if "required_intent z = Some op" for op using that by (simp add: required_intent_def z_def)
    show "ln_attempt z = effect_attempt e \<and> fits m z e"
      if "job m i = Some e" "\<not> (effect_lane e = p \<and> op_of e = Ef_check)" "effect_lane e = p" "ln_attempt y = effect_attempt e" for i e
      using lane_intents [OF ok y(1) that(1,3)] that(2-4) q by (cases e) (auto simp: z_def running_phase_def)
    show "terminal (ln_phase z) \<or> ln_phase z = Ph_cancelling" if "o_stopReason m \<noteq> None" "p \<notin> {}"
      using stop_okD(1) [OF d(3) y(1) that] q by blast
    show "ln_phase z = Ph_succeeded" if "o_winner m = Some p" using winner_succeeded [OF ok y(1) that] q by auto
  qed (use Y in \<open>auto simp: m'_def z_def\<close>)
  then show ?thesis by (simp add: m'_def)
qed

lemma receipt_put_ok:
  assumes ok: "orch_ok gen D F X Y m" shows "orch_ok gen D F X Y (m\<lparr>o_spawnReceipts := put (o_spawnReceipts m) k c\<rparr>)"
proof -
  define m' where "m' = m\<lparr>o_spawnReceipts := put (o_spawnReceipts m) k c\<rparr>"
  have f: "o_lanes m' = o_lanes m" "o_input m' = o_input m" "o_stopReason m' = o_stopReason m" "o_winner m' = o_winner m"
    "o_mergeRequested m' = o_mergeRequested m" "o_mergeStatus m' = o_mergeStatus m" "o_seq m' = o_seq m" by (simp_all add: m'_def)
  have j: "job m' = job m" "fits m' = fits m" using fits_cong [OF f(3-6)] by (simp_all add: m'_def job_def fun_eq_iff)
  have "keys_distinct m'" using orch_okD(6) [OF ok] by (simp add: m'_def distinct_put)
  then have "static_ok m'" using orch_okD(1) [OF ok] unfolding static_ok_def f by blast
  with ok show ?thesis unfolding m'_def [symmetric]
    unfolding orch_ok_def kids_def open_kids_def failed_kids_def stop_ok_def merge_ok_def jobs_ok_def f j by blast
qed

text \<open>What a spawn does to the lanes and receipts, when it is admitted.\<close>

definition spawned :: "ident \<Rightarrow> string \<Rightarrow> ident \<Rightarrow> orch \<Rightarrow> orch \<Rightarrow> bool" where
  "spawned p r c m m' \<longleftrightarrow> map fst (o_lanes m') = map fst (o_lanes m) @ [c] \<and> get (o_lanes m) c = None \<and>
     o_spawnReceipts m' = put (o_spawnReceipts m) r c \<and> o_input m' = o_input m \<and>
     (\<exists>x. get (o_lanes m') c = Some x \<and> ln_parentId x = Some p) \<and>
     (\<forall>k y. get (o_lanes m) k = Some y \<longrightarrow> (\<exists>z. get (o_lanes m') k = Some z \<and> same_place y z))"

lemma step_spawn_ok:
  assumes src: "orch_source (ctx_ids ctx) cap" and ok: "settled (ctx_ids ctx) m" and b: "born (ctx_ids ctx) m" and cn: "counts m"
    and room: "o_seq m + 2 \<le> cap"
  shows "\<exists>m'. step_spawn ctx p a r spec prompt m = Some m' \<and> settled (ctx_ids ctx) m' \<and> o_seq m' \<le> o_seq m + 2 \<and>
    (steady m m' \<or> (\<exists>c y. spawned p (receipt p a r) c m m' \<and> get (o_lanes m) p = Some y \<and> ln_attempt y = a \<and> kind_of m = Coordinator \<and>
       get (o_spawnReceipts m) (receipt p a r) = None \<and> length (okeys (o_lanes m)) < bud_maxLanes (budget_of m) \<and>
       born (ctx_ids ctx) m' \<and> counts m'))"
proof -
  note d = orch_okD [OF ok]
  have rej: "settled (ctx_ids ctx) (reject s m) \<and> steady m (reject s m)" for s
    using reject_ok [OF ok] by (simp add: reject_def steady_orch_emit)
  have rseq: "o_seq (reject s m) = o_seq m" for s by (simp add: reject_def)
  show ?thesis
  proof (cases "has (o_spawnReceipts m) (receipt p a r)")
    case True with ok show ?thesis by (simp add: step_spawn_def)
  next
    case nr: False
    show ?thesis
    proof (cases "get (o_lanes m) p")
      case None with nr rej rseq show ?thesis by (simp add: step_spawn_def)
    next
      case (Some y)
      show ?thesis
      proof (cases "kind_of m \<noteq> Coordinator \<or> ln_attempt y \<noteq> a \<or> terminal (ln_phase y) \<or> ln_phase y = Ph_cancelling \<or> o_stopReason m \<noteq> None \<or>
          ln_depth y \<ge> bud_maxDepth (budget_of m) \<or> length (okeys (o_lanes m)) \<ge> bud_maxLanes (budget_of m)")
        case True with nr Some rej rseq show ?thesis by (auto simp: step_spawn_def)
      next
        case go: False
        then have run: "running_phase (ln_phase y)" using queued_root(2) [OF ok Some] by (intro running_phaseI) auto
        define c where "c = ctx_ids ctx Kind_lane (o_seq m)"
        define Y where "Y = insert c (if ln_threadDone y then {p} else {})"
        have chk: "p \<in> Y \<or> ln_phase y \<noteq> Ph_checking" using d(7) [OF Some] by (auto simp: Y_def local_ok_def)
        have pc: "p \<noteq> c" using born_fresh [OF orch_source.gen_inj [OF src] b] Some by (auto simp: c_def)
        have stop: "o_stopReason m = None" using go by blast
        have par: "\<exists>y. get (o_lanes m) q = Some y \<and> running_phase (ln_phase y) \<and> kind_of m = Coordinator \<and>
            ln_depth y < bud_maxDepth (budget_of m) \<and> (q \<in> Y \<or> ln_phase y \<noteq> Ph_checking)" if "Some p = Some q" for q
          using that Some run go chk by auto
        have cY: "c \<in> Y" by (simp add: Y_def)
        from addLane_ok [where parent = "Some p" and spec = spec and prompt = prompt and stage = 0, OF src ok b cn stop c_def par cY] room obtain u x where u: "addLane ctx spec prompt 0 (Some p) m = Some (c, u)"
          "orch_ok (ctx_ids ctx) owed_nothing owed_nothing {} Y u" "get (o_lanes u) c = Some x" "x = new_lane ctx c spec prompt 0 (get (o_lanes m) p)"
          "map fst (o_lanes u) = map fst (o_lanes m) @ [c]"
          "\<forall>k y. get (o_lanes m) k = Some y \<longrightarrow> get (o_lanes u) k = Some (if Some p = Some k then y\<lparr>ln_children := ln_children y + 1\<rparr> else y)"
          "born (ctx_ids ctx) u" "counts u" "o_input u = o_input m" "o_stopReason u = None" "o_spawnReceipts u = o_spawnReceipts m"
          "o_seq u = Suc (o_seq m)" by auto
        define v where "v = u\<lparr>o_spawnReceipts := put (o_spawnReceipts u) (receipt p a r) c\<rparr>"
        have okv: "orch_ok (ctx_ids ctx) owed_nothing owed_nothing {} Y v" unfolding v_def by (rule receipt_put_ok [OF u(2)])
        have xv: "get (o_lanes v) c = Some x" "o_stopReason v = None" using u by (simp_all add: v_def)
        have "o_seq v < cap" using u(12) room by (simp add: v_def)
        with start_new_ok [OF src okv xv(1) _ _ _ xv(2), of "Y - {c}"] u(4) obtain w where w: "start_lane ctx c None v = Some w"
          "orch_ok (ctx_ids ctx) owed_nothing owed_nothing {} (Y - {c}) w" "steady v w" "o_seq w = Suc (o_seq v)" by (auto simp: new_lane_def)
        define m' where "m' = (if ln_threadDone y then set_phase p Ph_joining (clearChecks p w) else w)"
        have sw: "steady v m'" using w(3) steady_trans [OF w(3) steady_trans [OF steady_clear(2) steady_set_phase]] by (simp add: m'_def)
        have yv: "get (o_lanes v) p = Some (y\<lparr>ln_children := ln_children y + 1\<rparr>)" using u(6) Some by (simp add: v_def)
        have okm: "settled (ctx_ids ctx) m'"
        proof (cases "ln_threadDone y")
          case True
          have "get (o_lanes w) p = get (o_lanes v) p"
            using w(1) pc xv by (auto simp: start_lane_def Let_def dest: add_intent_cases(1))
          with yv join_ok [OF w(2), of p] run True show ?thesis by (simp add: m'_def Y_def)
        next
          case False with w(2) show ?thesis by (simp add: m'_def Y_def)
        qed
        have "spawned p (receipt p a r) c m m'"
        proof -
          have "\<exists>z. get (o_lanes m') k = Some z \<and> same_place t z" if "get (o_lanes m) k = Some t" for k t
          proof -
            from u(6) that have "\<exists>z. get (o_lanes v) k = Some z \<and> same_place t z" by (auto simp: v_def same_place_def)
            with steady_lane [OF sw] same_place_trans show ?thesis by blast
          qed
          moreover have "\<exists>x. get (o_lanes m') c = Some x \<and> ln_parentId x = Some p"
            using steady_lane [OF sw xv(1)] u(4) Some d(8) by (auto simp: same_place_def new_lane_def)
          ultimately show ?thesis using sw u born_fresh [OF orch_source.gen_inj [OF src] b] unfolding spawned_def by (auto simp: steady_def v_def c_def)
        qed
        moreover have "born (ctx_ids ctx) v" using u(7) by (simp add: born_def v_def)
        moreover have "counts v" using u(8) by (simp add: counts_def v_def)
        ultimately have "spawned p (receipt p a r) c m m' \<and> born (ctx_ids ctx) m' \<and> counts m'"
          using born_steady [OF sw] sw by (simp add: steady_def)
        moreover have "step_spawn ctx p a r spec prompt m = Some m'"
          using nr Some go u(1) w(1) by (simp add: step_spawn_def m'_def v_def)
        moreover have "o_seq m' \<le> o_seq m + 2" using w(4) u(12) by (simp add: m'_def v_def)
        ultimately show ?thesis using okm Some go nr by (auto simp: has_def)
      qed
    qed
  qed
qed

subsection \<open>Receipts and bounds of a run\<close>

definition receipts_inv :: "orch \<Rightarrow> bool" where
  "receipts_inv m \<longleftrightarrow>
     (\<forall>k c. get (o_spawnReceipts m) k = Some c \<longrightarrow> kind_of m = Coordinator \<and> (\<exists>p a r y x. k = receipt p a r \<and> orchestration_id p \<and>
        orchestration_id r \<and> 1 \<le> a \<and> get (o_lanes m) p = Some y \<and> a \<le> ln_attempt y \<and> get (o_lanes m) c = Some x \<and> ln_parentId x = Some p)) \<and>
     (\<forall>k k' c. get (o_spawnReceipts m) k = Some c \<longrightarrow> get (o_spawnReceipts m) k' = Some c \<longrightarrow> k = k') \<and>
     (\<forall>l x. get (o_lanes m) l = Some x \<longrightarrow> ln_parentId x \<noteq> None \<longrightarrow> (\<exists>k. get (o_spawnReceipts m) k = Some l))"

definition well_run :: "(orch_kind \<Rightarrow> nat \<Rightarrow> ident) \<Rightarrow> orch \<Rightarrow> bool" where
  "well_run gen m \<longleftrightarrow> settled gen m \<and> born gen m \<and> counts m \<and> receipts_inv m \<and> o_lanes m \<noteq> [] \<and>
     length (o_lanes m) \<le> bud_maxLanes (budget_of m)"

lemma well_runD:
  assumes "well_run gen m"
  shows "settled gen m" "born gen m" "counts m" "receipts_inv m" "o_lanes m \<noteq> []" "length (o_lanes m) \<le> bud_maxLanes (budget_of m)"
  using assms by (simp_all add: well_run_def)

lemma receiptD:
  "receipts_inv m \<Longrightarrow> get (o_spawnReceipts m) k = Some c \<Longrightarrow> \<exists>p a r y x. k = receipt p a r \<and> orchestration_id p \<and>
     orchestration_id r \<and> 1 \<le> a \<and> get (o_lanes m) p = Some y \<and> a \<le> ln_attempt y \<and> get (o_lanes m) c = Some x \<and> ln_parentId x = Some p"
  unfolding receipts_inv_def by blast

lemma receipts_steady:
  assumes st: "steady m m'" and r: "receipts_inv m" shows "receipts_inv m'"
proof -
  have e: "o_spawnReceipts m' = o_spawnReceipts m" "o_input m' = o_input m" using st by (simp_all add: steady_def)
  have "\<exists>p a r y x. k = receipt p a r \<and> orchestration_id p \<and> orchestration_id r \<and> 1 \<le> a \<and> get (o_lanes m') p = Some y \<and>
      a \<le> ln_attempt y \<and> get (o_lanes m') c = Some x \<and> ln_parentId x = Some p" if "get (o_spawnReceipts m) k = Some c" for k c
  proof -
    from r that obtain p a q y x where "k = receipt p a q" "orchestration_id p" "orchestration_id q" "1 \<le> a" and y: "get (o_lanes m) p = Some y"
      and a: "a \<le> ln_attempt y" and x: "get (o_lanes m) c = Some x" "ln_parentId x = Some p" unfolding receipts_inv_def by blast
    moreover from steady_lane [OF st y] a obtain y' where "get (o_lanes m') p = Some y'" "a \<le> ln_attempt y'" by (auto simp: same_place_def)
    moreover from steady_lane [OF st x(1)] x(2) obtain x' where "get (o_lanes m') c = Some x'" "ln_parentId x' = Some p" by (auto simp: same_place_def)
    ultimately show ?thesis by blast
  qed
  moreover have "\<exists>k. get (o_spawnReceipts m) k = Some l" if "get (o_lanes m') l = Some x" "ln_parentId x \<noteq> None" for l x
  proof -
    from steady_lane_back [OF st that(1)] that(2) obtain y where "get (o_lanes m) l = Some y" "ln_parentId y \<noteq> None" by (auto simp: same_place_def)
    with r show ?thesis unfolding receipts_inv_def by blast
  qed
  ultimately show ?thesis using r unfolding receipts_inv_def e by blast
qed

lemma run_steady:
  assumes "steady m m'" "well_run gen m" "settled gen m'" shows "well_run gen m'"
proof -
  note d = well_runD [OF assms(2)]
  have "length (o_lanes m') = length (o_lanes m)" using assms(1) unfolding steady_def by (metis length_map)
  moreover have "o_input m' = o_input m" "counts m'" using assms(1) d(3) by (simp_all add: steady_def)
  ultimately show ?thesis using d assms(3) born_steady [OF assms(1)] receipts_steady [OF assms(1)] by (auto simp: well_run_def)
qed

lemma orchestration_id_char: "orchestration_id s \<Longrightarrow> CHR '':'' \<notin> set s"
  by (auto simp: orchestration_id_def list_all_iff alnum_def)

lemma decimal_chars: "c \<in> set (decimal n) \<Longrightarrow> 48 \<le> (of_char c :: nat) \<and> of_char c \<le> (57 :: nat)"
proof (induction n rule: decimal.induct)
  case (1 n)
  have d: "48 \<le> (of_char (char_of (48 + k) :: char) :: nat) \<and> of_char (char_of (48 + k) :: char) \<le> (57 :: nat)" if "k < 10" for k :: nat
    using that by (simp add: of_char_of)
  show ?case
  proof (cases "n < 10")
    case True
    with 1(2) d [OF True] show ?thesis by (simp add: decimal.simps [of n])
  next
    case False
    with 1(2) consider "c \<in> set (decimal (n div 10))" | "c = char_of (48 + n mod 10)" by (auto simp: decimal.simps [of n])
    then show ?thesis using 1(1) [OF False] d [of "n mod 10"] by cases auto
  qed
qed

lemma decimal_char: "CHR '':'' \<notin> set (decimal n)"
  using decimal_chars [of "CHR '':''" n] by auto

lemma split_on_other: "c \<notin> set s \<Longrightarrow> split_on c s = [s]"
  by (induction s) auto

lemma split_on_sep: "c \<notin> set s \<Longrightarrow> split_on c (s @ c # t) = s # split_on c t"
  by (induction s) auto

lemma split_receipt: "orchestration_id p \<Longrightarrow> orchestration_id r \<Longrightarrow> split_on CHR '':'' (receipt p a r) = [p, decimal a, r]"
  using orchestration_id_char decimal_char by (simp add: receipt_def split_on_sep split_on_other)

lemma run_spawned:
  assumes ok: "well_run gen m" and s: "spawned p (receipt p a r) c m m'" and y: "get (o_lanes m) p = Some y" "ln_attempt y = a"
    and k: "kind_of m = Coordinator" and f: "orchestration_id p" "orchestration_id r" "1 \<le> a"
    and new: "get (o_spawnReceipts m) (receipt p a r) = None" and len: "length (okeys (o_lanes m)) < bud_maxLanes (budget_of m)"
    and m': "settled gen m'" "born gen m'" "counts m'"
  shows "well_run gen m'"
proof -
  note d = well_runD [OF ok] and t = s [unfolded spawned_def]
  have len': "length (o_lanes m') = Suc (length (o_lanes m))" using t by (metis length_append_singleton length_map)
  have "length (okeys (o_lanes m)) = length (o_lanes m)" using orch_okD(6) [OF d(1)] by (simp add: length_okeys)
  with len len' t have "length (o_lanes m') \<le> bud_maxLanes (budget_of m')" by simp
  moreover have "o_lanes m' \<noteq> []" using len' by auto
  moreover have "receipts_inv m'"
  proof -
    obtain x where x: "get (o_lanes m') c = Some x" "ln_parentId x = Some p" using t by blast
    have keep: "\<exists>z. get (o_lanes m') l = Some z \<and> same_place t z" if "get (o_lanes m) l = Some t" for l t using t that by blast
    have cold: "get (o_spawnReceipts m) q \<noteq> Some c" for q
      using d(4) t unfolding receipts_inv_def by (metis option.distinct(1))
    have g: "get (o_spawnReceipts m') q = (if q = receipt p a r then Some c else get (o_spawnReceipts m) q)" for q using t by auto
    have old: "\<exists>p a r y x. q = receipt p a r \<and> orchestration_id p \<and> orchestration_id r \<and> 1 \<le> a \<and> get (o_lanes m') p = Some y \<and>
      a \<le> ln_attempt y \<and> get (o_lanes m') c' = Some x \<and> ln_parentId x = Some p" if "get (o_spawnReceipts m') q = Some c'" for q c'
    proof (cases "q = receipt p a r")
      case True
      with that g have "c' = c" by simp
      moreover from keep [OF y(1)] y(2) obtain z where "get (o_lanes m') p = Some z" "a \<le> ln_attempt z" by (auto simp: same_place_def)
      ultimately show ?thesis using True x f by blast
    next
      case False
      with that g have "get (o_spawnReceipts m) q = Some c'" by simp
      from receiptD [OF d(4) this] obtain p' a' r' y' x' where "q = receipt p' a' r'" "orchestration_id p'" "orchestration_id r'" "1 \<le> a'"
        and y': "get (o_lanes m) p' = Some y'" "a' \<le> ln_attempt y'" and x': "get (o_lanes m) c' = Some x'" "ln_parentId x' = Some p'" by blast
      moreover from keep [OF y'(1)] y'(2) obtain z where "get (o_lanes m') p' = Some z" "a' \<le> ln_attempt z" by (auto simp: same_place_def)
      moreover from keep [OF x'(1)] x'(2) obtain w where "get (o_lanes m') c' = Some w" "ln_parentId w = Some p'" by (auto simp: same_place_def)
      ultimately show ?thesis by blast
    qed
    have inj: "q = q'" if "get (o_spawnReceipts m') q = Some c'" "get (o_spawnReceipts m') q' = Some c'" for q q' c'
    proof (cases "c' = c")
      case True with that cold show ?thesis by (auto simp: g split: if_splits)
    next
      case False
      with that have "get (o_spawnReceipts m) q = Some c'" "get (o_spawnReceipts m) q' = Some c'" by (auto simp: g split: if_splits)
      with d(4) show ?thesis unfolding receipts_inv_def by blast
    qed
    have all: "\<exists>q. get (o_spawnReceipts m') q = Some l" if "get (o_lanes m') l = Some z" "ln_parentId z \<noteq> None" for l z
    proof (cases "l = c")
      case True then show ?thesis using g by metis
    next
      case False
      have "l \<in> set (map fst (o_lanes m'))" using that(1) in_keys_iff has_Some by fastforce
      then have "has (o_lanes m) l" using False t in_keys_iff by fastforce
      then obtain v where v: "get (o_lanes m) l = Some v" by (auto simp: has_iff)
      with keep [OF v] that have "ln_parentId v \<noteq> None" by (auto simp: same_place_def)
      with d(4) v obtain q where "get (o_spawnReceipts m) q = Some l" unfolding receipts_inv_def by blast
      with new have "get (o_spawnReceipts m') q = Some l" by (auto simp: g)
      then show ?thesis by blast
    qed
    have "kind_of m' = Coordinator" using t k by simp
    with old inj all show ?thesis unfolding receipts_inv_def by blast
  qed
  ultimately show ?thesis using m' by (simp add: well_run_def)
qed

subsection \<open>The first lanes\<close>

definition setting_up :: "(orch_kind \<Rightarrow> nat \<Rightarrow> ident) \<Rightarrow> orchestration_create \<Rightarrow> nat \<Rightarrow> orch \<Rightarrow> bool" where
  "setting_up gen input n m \<longleftrightarrow> settled gen m \<and> born gen m \<and> counts m \<and> o_input m = input \<and> o_stopReason m = None \<and> o_spawnReceipts m = [] \<and>
     length (o_lanes m) = n \<and> o_status m = Rs_running \<and>
     (\<forall>k x. get (o_lanes m) k = Some x \<longrightarrow> ln_parentId x = None \<and> (ln_phase x = Ph_queued \<or> ln_phase x = Ph_starting))"

lemma empty_run_ok:
  assumes "create_ok input" shows "setting_up gen input 0 (empty_run ctx i runId input n)"
proof -
  have "job (empty_run ctx i runId input n) = (\<lambda>_. None)" by (simp add: job_def empty_run_def fun_eq_iff)
  then show ?thesis using assms
    by (simp add: setting_up_def orch_ok_def static_ok_def kids_def stop_ok_def merge_ok_def jobs_ok_def once_def counts_def born_def
      empty_run_def well_named_def has_def)
qed

lemma start_lane_lanes:
  assumes "start_lane ctx l input u = Some w"
  shows "o_lanes w = modify (o_lanes u) l (\<lambda>x. (begun ctx input x)\<lparr>ln_phase := Ph_starting\<rparr>)" "o_status w = o_status u"
proof -
  have s: "o_status (set_phase l p m) = o_status m" "o_status (upd_lane l f m) = o_status m" for l p m f
    by (simp_all add: set_phase_def upd_lane_def orch_emit_def split: option.split)
  show "o_lanes w = modify (o_lanes u) l (\<lambda>x. (begun ctx input x)\<lparr>ln_phase := Ph_starting\<rparr>)" "o_status w = o_status u"
    using assms by (auto simp: start_lane_def Let_def s add_intent_cases(1,15) split: option.splits)
qed

lemma init_lane_ok:
  assumes src: "orch_source (ctx_ids ctx) cap" and s: "setting_up (ctx_ids ctx) input n m" and room: "o_seq m + 2 \<le> cap"
  shows "\<exists>m'. init_lane ctx input (stage, spec) m = Some m' \<and> setting_up (ctx_ids ctx) input (Suc n) m' \<and> o_seq m' \<le> o_seq m + 2"
proof -
  note s' = s [unfolded setting_up_def]
  define c where "c = ctx_ids ctx Kind_lane (o_seq m)"
  define prompt where "prompt = (if tpl_kind (oc_template input) = Pipeline then pipelinePrompt stage (oc_prompt input) else oc_prompt input)"
  have ok: "settled (ctx_ids ctx) m" and b: "born (ctx_ids ctx) m" and cn: "counts m" and stop: "o_stopReason m = None" using s' by simp_all
  from addLane_ok [where parent = None and spec = spec and prompt = prompt and stage = stage and Y = "{c}", OF src ok b cn stop c_def] room
  obtain u x where u: "addLane ctx spec prompt stage None m = Some (c, u)" "orch_ok (ctx_ids ctx) owed_nothing owed_nothing {} {c} u"
    "get (o_lanes u) c = Some x" "x = new_lane ctx c spec prompt stage None" "map fst (o_lanes u) = map fst (o_lanes m) @ [c]"
    "\<forall>k y. get (o_lanes m) k = Some y \<longrightarrow> get (o_lanes u) k = Some y" "born (ctx_ids ctx) u" "counts u" "o_input u = o_input m"
    "o_stopReason u = None" "o_spawnReceipts u = o_spawnReceipts m" "o_status u = o_status m" "o_seq u = Suc (o_seq m)" by auto
  have x: "ln_phase x = Ph_queued" "ln_parentId x = None" "ln_threadId x = None" "ln_worktree x = None" using u(4) by (simp_all add: new_lane_def)
  have len: "length (o_lanes u) = Suc n" using u(5) s' by (metis length_append_singleton length_map)
  have lu: "ln_parentId y = None \<and> (ln_phase y = Ph_queued \<or> ln_phase y = Ph_starting)" if "get (o_lanes u) k = Some y" for k y
  proof (cases "k = c")
    case True with that u(3) x show ?thesis by simp
  next
    case False
    have "k \<in> set (map fst (o_lanes u))" using that in_keys_iff has_Some by fastforce
    with False have "has (o_lanes m) k" using u(5) in_keys_iff by fastforce
    then obtain v where v: "get (o_lanes m) k = Some v" by (auto simp: has_iff)
    with u(6) that have "v = y" by auto
    with v s' show ?thesis by blast
  qed
  show ?thesis
  proof (cases "tpl_kind (oc_template input) \<noteq> Pipeline \<or> stage = 0")
    case True
    have "o_seq u < cap" using u(13) room by simp
    with start_new_ok [OF src u(2,3) x(1,3,4) u(10), of "{}"] obtain w where w: "start_lane ctx c None u = Some w" "settled (ctx_ids ctx) w"
      "steady u w" "o_stopReason w = None" "o_seq w = Suc (o_seq u)" by blast
    note l = start_lane_lanes [OF w(1)]
    have "ln_parentId y = None \<and> (ln_phase y = Ph_queued \<or> ln_phase y = Ph_starting)" if "get (o_lanes w) k = Some y" for k y
      using that lu u(3) x by (auto simp: l(1) begun_def split: if_splits)
    moreover have "length (o_lanes w) = Suc n" using w(3) len unfolding steady_def by (metis length_map)
    moreover have "counts w" "o_input w = o_input m" "o_spawnReceipts w = []" using w(3) u s' by (simp_all add: steady_def)
    ultimately have "setting_up (ctx_ids ctx) input (Suc n) w"
      unfolding setting_up_def using w born_steady [OF w(3) u(7)] l(2) u(12) s' by auto
    with True u(1,13) w(1,5) show ?thesis by (auto simp: init_lane_def prompt_def)
  next
    case False
    have y: "o_lanes u = modify (o_lanes u) c (\<lambda>_. x)" using u(3) by (simp add: modify_def put_same)
    have "settled (ctx_ids ctx) u"
    proof (rule refit_drop [OF u(2,3) y, where P = "\<lambda>_. False"])
      show "local_ok (o_input u) {} c x" using orch_okD(7) [OF u(2,3)] x(1) False u(9) s' by (auto simp: local_ok_def)
      show "o_winner u = Some c \<Longrightarrow> ln_phase x = Ph_succeeded" by (rule winner_succeeded [OF u(2,3)])
    qed (use x u orch_okD(1,2) [OF u(2)] in \<open>auto simp: required_intent_def\<close>)
    then have "setting_up (ctx_ids ctx) input (Suc n) u"
      unfolding setting_up_def using u len lu s' by auto
    with False u(1,13) show ?thesis by (auto simp: init_lane_def prompt_def)
  qed
qed

lemma init_lanes_ok:
  assumes src: "orch_source (ctx_ids ctx) cap"
  shows "setting_up (ctx_ids ctx) input n m \<Longrightarrow> o_seq m + 2 * length es \<le> cap \<Longrightarrow>
    \<exists>m'. foldM (init_lane ctx input) es m = Some m' \<and> setting_up (ctx_ids ctx) input (n + length es) m'"
proof (induction es arbitrary: n m)
  case (Cons e es)
  obtain stage spec where e: "e = (stage, spec)" by (cases e)
  from init_lane_ok [OF src Cons.prems(1), of stage spec] Cons.prems(2) obtain u where "init_lane ctx input e m = Some u"
    "setting_up (ctx_ids ctx) input (Suc n) u" "o_seq u + 2 * length es \<le> cap" by (auto simp: e)
  with Cons.IH [of "Suc n" u] show ?case by simp
qed simp

definition orch_good :: "(orch_kind \<Rightarrow> nat \<Rightarrow> ident) \<Rightarrow> orch \<Rightarrow> bool" where
  "orch_good gen m \<longleftrightarrow> well_run gen m \<and> o_status m = runStatus m"

lemma initialize_ok:
  assumes src: "orch_source (ctx_ids ctx) cap" and t: "clock_valid ctx" and c: "create_ok input" and room: "n + 129 \<le> cap"
  shows "\<exists>m. initialize ctx i input n = Some m \<and> orch_good (ctx_ids ctx) m"
proof -
  define runId where "runId = ctx_ids ctx Kind_run n"
  define es where "es = List.enumerate 0 (tpl_lanes (oc_template input))"
  have r: "orchestration_id runId" unfolding runId_def by (rule orch_source.gen_valid [OF src]) (use room in simp)
  have len: "1 \<le> length es" "length es \<le> bud_maxLanes (tpl_budget (oc_template input))" "length es \<le> 64"
    using c by (simp_all add: es_def create_ok_def Let_def)
  have "o_seq (empty_run ctx i runId input (Suc n)) + 2 * length es \<le> cap" using room len(3) by (simp add: empty_run_def)
  from init_lanes_ok [OF src empty_run_ok [OF c] this] obtain m where m: "foldM (init_lane ctx input) es (empty_run ctx i runId input (Suc n)) = Some m"
    "setting_up (ctx_ids ctx) input (length es) m" by auto
  note s = m(2) [unfolded setting_up_def]
  define m' where "m' = orch_emit (Status_event Rs_running) m"
  have st: "steady m m'" unfolding m'_def by (rule steady_orch_emit)
  have "receipts_inv m" using s by (auto simp: receipts_inv_def)
  then have "well_run (ctx_ids ctx) m" using s len by (auto simp: well_run_def)
  from run_steady [OF st this] s have good: "well_run (ctx_ids ctx) m'" by (simp add: m'_def reject_ok)
  obtain e d where l: "o_lanes m = e # d" using s len by (cases "o_lanes m") auto
  then have g: "get (o_lanes m) (fst e) = Some (snd e)" by (cases e) simp
  have "0 < lane_total (\<lambda>x. of_bool (\<not> terminal (ln_phase x))) (o_lanes m)"
  proof (rule lane_total_pos [OF _ g])
    have "ln_phase (snd e) = Ph_queued \<or> ln_phase (snd e) = Ph_starting" using s g by blast
    then show "(0::int) < of_bool (\<not> terminal (ln_phase (snd e)))" by auto
  qed simp
  moreover have "lane_total (\<lambda>x. of_bool (lane_waits (ln_phase x))) (o_lanes m) = 0"
  proof (rule lane_total_zero)
    show "distinct (map fst (o_lanes m))" using orch_okD(6) [of "ctx_ids ctx"] s by blast
  qed (use s in \<open>fastforce simp: lane_waits_def\<close>)
  ultimately have "o_open m > 0" "o_waiting m = 0" using s by (simp_all add: counts_def)
  then have "runStatus m' = Rs_running" using s by (simp add: runStatus_def m'_def)
  moreover have "o_status m' = Rs_running" using s by (simp add: m'_def orch_emit_def)
  moreover have "initialize ctx i input n = Some m'" using t r m(1) by (simp add: initialize_def Let_def runId_def es_def m'_def)
  ultimately show ?thesis using good by (simp add: orch_good_def)
qed

subsection \<open>Facts\<close>

text \<open>
  The facts a host may report in a state: the schema holds, an acknowledgment follows its execution, and
  the source of identities is not near its end. One fact draws at most 2048 of them.
\<close>

definition may_report :: "orch_context \<Rightarrow> nat \<Rightarrow> orch_fact \<Rightarrow> orch \<Rightarrow> bool" where
  "may_report ctx cap f m \<longleftrightarrow> clock_valid ctx \<and> fact_ok f \<and> o_seq m + 2048 \<le> cap \<and> (case f of
       Fact_ack i \<Rightarrow> (case enforce_budget ctx (m\<lparr>o_events := [], o_newIntents := []\<rparr>) of None \<Rightarrow> True | Some u \<Rightarrow> ack_ready u i)
     | _ \<Rightarrow> True)"

lemma step_orch_ok:
  assumes src: "orch_source (ctx_ids ctx) cap" and ok: "well_run (ctx_ids ctx) m" and f: "fact_ok f" and a: "\<And>i. f = Fact_ack i \<Longrightarrow> ack_ready m i"
    and room: "o_seq m + step_draw m + 2 \<le> cap"
  shows "\<exists>m'. step_orch ctx f m = Some m' \<and> well_run (ctx_ids ctx) m' \<and> o_seq m' \<le> o_seq m + step_draw m + 2"
proof -
  have rs: "o_seq m + step_draw m \<le> cap" "o_seq m + length (o_lanes m) \<le> cap" "o_seq m + 2 \<le> cap" "length (o_lanes m) \<le> step_draw m + 2"
    using room step_draw_ge(2) [of m] by simp_all
  note d = well_runD [OF ok]
  have lane: "\<exists>m'. (case get (o_lanes m) (fact_lane f) of None \<Rightarrow> Some m
         | Some x \<Rightarrow> if ln_attempt x \<noteq> fact_attempt f then Some m else step_lane ctx f (fact_lane f) x m) = Some m' \<and> well_run (ctx_ids ctx) m' \<and>
      o_seq m' \<le> o_seq m + step_draw m + 2"
  proof (cases "get (o_lanes m) (fact_lane f)")
    case (Some x)
    from step_lane_ok [OF src d(1) Some f rs(1)] obtain m' where "step_lane ctx f (fact_lane f) x m = Some m'" "settled (ctx_ids ctx) m'"
      "o_seq m' \<le> o_seq m + step_draw m + 2" by auto
    with run_steady [OF steady_opD [OF steady_step_lane] ok] ok Some show ?thesis by auto
  qed (use ok in simp)
  show ?thesis
  proof (cases f)
    case (Fact_spawn p att r spec prompt)
    from step_spawn_ok [OF src d(1-3) rs(3), of p att r spec prompt] obtain m' where m': "step_spawn ctx p att r spec prompt m = Some m'" "settled (ctx_ids ctx) m'"
      "steady m m' \<or> (\<exists>c y. spawned p (receipt p att r) c m m' \<and> get (o_lanes m) p = Some y \<and> ln_attempt y = att \<and> kind_of m = Coordinator \<and>
       get (o_spawnReceipts m) (receipt p att r) = None \<and> length (okeys (o_lanes m)) < bud_maxLanes (budget_of m) \<and>
       born (ctx_ids ctx) m' \<and> counts m')" "o_seq m' \<le> o_seq m + 2" by blast
    have "well_run (ctx_ids ctx) m'" using m'(3)
    proof
      assume "steady m m'" then show ?thesis using run_steady ok m'(2) by blast
    next
      assume "\<exists>c y. spawned p (receipt p att r) c m m' \<and> get (o_lanes m) p = Some y \<and> ln_attempt y = att \<and> kind_of m = Coordinator \<and>
       get (o_spawnReceipts m) (receipt p att r) = None \<and> length (okeys (o_lanes m)) < bud_maxLanes (budget_of m) \<and>
       born (ctx_ids ctx) m' \<and> counts m'"
      with run_spawned [OF ok _ _ _ _ _ _ _ _ _ m'(2)] f Fact_spawn show ?thesis by auto
    qed
    with m'(1,4) Fact_spawn show ?thesis by (simp add: step_orch_def)
  next
    case (Fact_pick l b)
    from step_pick_ok [OF src d(1) rs(2), of l b] Fact_pick run_steady [OF steady_opD [OF steady_step_pick] ok] rs(4) show ?thesis
      by (fastforce simp: step_orch_def)
  next
    case (Fact_ack i)
    with ack_ok [OF d(1) a] run_steady [OF steady_del_intent ok] show ?thesis by (simp add: step_orch_def)
  next
    case Fact_cancel
    from halt_ok [OF src d(1) rs(2), of Stop_cancelled] obtain m' where "cancelAll (finish_now ctx m) ctx Stop_cancelled None m = Some m'"
      "settled (ctx_ids ctx) m'" "o_seq m' \<le> o_seq m + step_draw m + 2" using rs(4) by fastforce
    with Fact_cancel run_steady [OF steady_opD [OF steady_lifecycle(2)] ok] ok show ?thesis by (auto simp: step_orch_def)
  next
    case Fact_tick with ok show ?thesis by (simp add: step_orch_def)
  qed (insert lane, simp_all only: step_orch_def orch_fact.case)
qed

lemma well_run_frame:
  assumes "well_run gen m" "o_lanes m' = o_lanes m" "o_intents m' = o_intents m" "o_input m' = o_input m" "o_spawnReceipts m' = o_spawnReceipts m"
    "o_stopReason m' = o_stopReason m" "o_winner m' = o_winner m" "o_mergeRequested m' = o_mergeRequested m" "o_mergeStatus m' = o_mergeStatus m"
    "o_seq m' = o_seq m" "o_open m' = o_open m" "o_waiting m' = o_waiting m" "o_succeeded m' = o_succeeded m" "o_failed m' = o_failed m"
  shows "well_run gen m'"
  using run_steady [OF steady_frame assms(1) orch_ok_frame [OF well_runD(1) [OF assms(1)]]] assms by simp

lemma step_draw_bound:
  assumes ok: "well_run gen m" shows "length (o_lanes m) + step_draw m + 3 \<le> 2048"
proof -
  have "create_ok (o_input m)" using orch_okD(1) [OF well_runD(1) [OF ok]] by (simp add: static_ok_def)
  then have b: "bud_maxDepth (budget_of m) \<le> 8" and l: "length (o_lanes m) \<le> 64"
    using well_runD(6) [OF ok] by (simp_all add: create_ok_def Let_def)
  have "(bud_maxDepth (budget_of m) + 1) * Suc (length (o_lanes m)) \<le> 9 * 65"
    "(bud_maxDepth (budget_of m) + 2) * (2 * length (o_lanes m) + 2) \<le> 10 * 130"
    by (rule mult_le_mono; use b l in simp)+
  with l show ?thesis unfolding step_draw_def draw_def reopen_fuel_def finish_fuel_def by linarith
qed

lemma orch_apply_ok:
  assumes src: "orch_source (ctx_ids ctx) cap" and ok: "well_run (ctx_ids ctx) m" and f: "may_report ctx cap f m"
  shows "\<exists>m'. orch_apply ctx f m = Some m' \<and> orch_good (ctx_ids ctx) m'"
proof -
  define u where "u = m\<lparr>o_events := [], o_newIntents := []\<rparr>"
  have u: "well_run (ctx_ids ctx) u" unfolding u_def by (rule well_run_frame [OF ok]) simp_all
  have ru: "o_seq u + length (o_lanes u) + step_draw u + 3 \<le> cap" using f step_draw_bound [OF u] by (simp add: may_report_def u_def)
  then have "o_seq u + length (o_lanes u) \<le> cap" by simp
  from enforce_budget_ok [OF src well_runD(1) [OF u] this] obtain v where v: "enforce_budget ctx u = Some v" "settled (ctx_ids ctx) v"
    "o_seq v \<le> o_seq u + length (o_lanes u)" by blast
  note sv = steady_opD [OF steady_enforce_budget v(1)]
  have rv: "well_run (ctx_ids ctx) v" by (rule run_steady [OF sv u v(2)])
  have qv: "step_draw v = step_draw u" using draw_steady [OF sv] sv by (simp add: step_draw_def reopen_fuel_def finish_fuel_def steady_def)
  have g: "clock_valid ctx" "fact_ok f" "\<And>i. f = Fact_ack i \<Longrightarrow> ack_ready v i" using f v(1) by (auto simp: may_report_def u_def)
  have "o_seq v + step_draw v + 2 \<le> cap" using ru v(3) qv by simp
  from step_orch_ok [OF src rv g(2,3) this] obtain w where w: "step_orch ctx f v = Some w" "well_run (ctx_ids ctx) w" "o_seq w \<le> o_seq v + step_draw v + 2" by blast
  have "o_seq w < cap" using w(3) ru v(3) qv by simp
  from updateStatus_ok [OF src well_runD(1) [OF w(2)] this] obtain m' where m': "updateStatus ctx w = Some m'" "settled (ctx_ids ctx) m'" "o_status m' = runStatus m'" by blast
  have "well_run (ctx_ids ctx) m'" by (rule run_steady [OF steady_opD [OF steady_updateStatus m'(1)] w(2) m'(2)])
  with m' v(1) w(1) g(1,2) show ?thesis by (auto simp: orch_apply_def orch_good_def u_def)
qed

subsection \<open>Reachable runs\<close>

text \<open>
  A run starts when it is created or rerun; then the host reports facts, each with the time of its
  clock. All contexts share the source of identities, which never comes near its end.
\<close>

inductive orch_reach :: "(orch_kind \<Rightarrow> nat \<Rightarrow> ident) \<Rightarrow> nat \<Rightarrow> orch \<Rightarrow> bool" for gen cap where
  created: "orch_create ctx input n = Some m \<Longrightarrow> ctx_ids ctx = gen \<Longrightarrow> n + 2048 \<le> cap \<Longrightarrow> orch_reach gen cap m"
| again: "orch_reach gen cap m \<Longrightarrow> rerun ctx m = Some m' \<Longrightarrow> ctx_ids ctx = gen \<Longrightarrow> o_seq m + 2048 \<le> cap \<Longrightarrow> orch_reach gen cap m'"
| reported: "orch_reach gen cap m \<Longrightarrow> may_report ctx cap f m \<Longrightarrow> orch_apply ctx f m = Some m' \<Longrightarrow> ctx_ids ctx = gen \<Longrightarrow> orch_reach gen cap m'"

lemma initialize_good:
  "orch_source (ctx_ids ctx) cap \<Longrightarrow> create_ok input \<Longrightarrow> n + 129 \<le> cap \<Longrightarrow> initialize ctx i input n = Some m \<Longrightarrow> orch_good (ctx_ids ctx) m"
  using initialize_ok [of ctx cap input n i] by (cases "clock_valid ctx") (auto simp: initialize_def Let_def)

context orch_source begin

lemma orch_reach_good: "orch_reach gen cap m \<Longrightarrow> orch_good gen m"
proof (induction rule: orch_reach.induct)
  case (created ctx input n m)
  with orch_source_axioms initialize_good [of ctx cap input "Suc n"] show ?case by (auto simp: orch_create_def Let_def split: if_splits)
next
  case (again m ctx m')
  with orch_source_axioms initialize_good [of ctx cap "o_input m" "o_seq m"] show ?case by (auto simp: rerun_def split: if_splits)
next
  case (reported m ctx f m')
  with orch_source_axioms orch_apply_ok [of ctx cap m f] show ?case by (auto simp: orch_good_def)
qed

lemma reached_returns:
  "orch_reach gen cap m \<Longrightarrow> may_report ctx cap f m \<Longrightarrow> ctx_ids ctx = gen \<Longrightarrow> \<exists>m'. orch_apply ctx f m = Some m' \<and> orch_reach gen cap m'"
  using orch_apply_ok [of ctx cap m f] orch_reach_good [of m] orch_source_axioms orch_reach.reported [of gen cap m ctx f]
  by (auto simp: orch_good_def)

end

end
