(* ===== verification/Orchestrator_Recover.thy ===== *)
theory Orchestrator_Recover
  imports Orchestrator_Run
begin

text \<open>
  What recovery does with a reachable run (src/packages/orchestrator/src/recovery.ts), what a stopped run
  still waits for, the bounds of a run and the accounting of usage.
\<close>

subsection \<open>A source of identities\<close>

fun kind_letter :: "orch_kind \<Rightarrow> char" where
  "kind_letter Kind_orchestration = CHR ''o''"
| "kind_letter Kind_run = CHR ''r''"
| "kind_letter Kind_lane = CHR ''l''"
| "kind_letter Kind_intent = CHR ''i''"

definition run_ids :: "orch_kind \<Rightarrow> nat \<Rightarrow> ident" where
  "run_ids k n = kind_letter k # decimal n"

lemma length_decimal: "n < 10 ^ Suc d \<Longrightarrow> length (decimal n) \<le> Suc d"
proof (induction d arbitrary: n)
  case 0 then show ?case by (simp add: decimal.simps [of n])
next
  case (Suc d)
  have "n div 10 < 10 ^ Suc d" using Suc.prems by (simp add: less_mult_imp_div_less mult.commute)
  from Suc.IH [OF this] show ?case by (simp add: decimal.simps [of n])
qed

lemma run_ids_valid: "n < 10 ^ 100 \<Longrightarrow> orchestration_id (run_ids k n)"
proof -
  assume "n < 10 ^ 100"
  then have "length (decimal n) \<le> 100" using length_decimal [of n 99] by simp
  moreover have "list_all (\<lambda>c. alnum c \<or> c = CHR ''_'' \<or> c = CHR ''.'' \<or> c = CHR ''-'') (decimal n)"
    using decimal_chars by (auto simp: list_all_iff alnum_def)
  moreover have "alnum (kind_letter k)" by (cases k) (simp_all add: alnum_def)
  moreover have "run_ids k n \<notin> {''__proto__'', ''constructor'', ''prototype''}" by (cases k) (auto simp: run_ids_def)
  ultimately show ?thesis by (simp add: orchestration_id_def run_ids_def)
qed

interpretation numbered: orch_source run_ids "10 ^ 100"
proof
  show "distinct_ids run_ids" unfolding distinct_ids_def run_ids_def by (metis digits_value_decimal list.inject)
qed (rule run_ids_valid)

subsection \<open>What recovery checks\<close>

lemma length_ovalues: "length (ovalues d) = length (okeys d)"
proof -
  have "length (List.map_filter (get d) ks) = length ks" if "\<forall>k \<in> set ks. has d k" for ks
    using that by (induction ks) (auto simp: List.map_filter_simps has_def split: option.splits)
  then show ?thesis by (simp add: ovalues_def)
qed

lemma map_fst_oentries: "map fst (oentries d) = okeys d"
proof -
  have "map fst (List.map_filter (\<lambda>k. map_option (Pair k) (get d k)) ks) = ks" if "\<forall>k \<in> set ks. has d k" for ks
    using that by (induction ks) (auto simp: List.map_filter_simps has_def split: option.splits)
  then show ?thesis by (simp add: oentries_def)
qed

lemma distinct_oentries: 
  assumes "\<And>k k' v v'. get d k = Some v \<Longrightarrow> get d k' = Some v' \<Longrightarrow> f (k, v) = f (k', v') \<Longrightarrow> k = k'"
  shows "distinct (map f (oentries d))"
proof -
  have "distinct (map fst (oentries d))" by (simp add: map_fst_oentries)
  then have "distinct (oentries d)" by (simp only: distinct_map)
  moreover have "inj_on f (set (oentries d))" using assms by (fastforce simp: inj_on_def set_oentries)
  ultimately show ?thesis by (simp add: distinct_map)
qed

lemma recover_lanes:
  assumes ok: "well_run gen m"
  shows "list_all (lane_tree_ok m) (oentries (o_lanes m))" "list_all (lane_state_ok m) (ovalues (o_lanes m))" "counters_ok m"
proof -
  note s = well_runD(1) [OF ok] and d = orch_okD [OF well_runD(1) [OF ok]]
  have t: "lane_count P m = lane_total (\<lambda>x. of_bool (P x)) (o_lanes m)" for P by (rule lane_count_total) (use d(6) in blast)
  show "counters_ok m" using well_runD(3) [OF ok] by (simp add: counters_ok_def counts_def t)
  show "list_all (lane_tree_ok m) (oentries (o_lanes m))" unfolding list_all_iff
  proof
    fix e assume "e \<in> set (oentries (o_lanes m))"
    then obtain k x where e: "e = (k, x)" "get (o_lanes m) k = Some x" by (auto simp: set_oentries)
    note a = static_okD [OF d(1) e(2)]
    show "lane_tree_ok m e" using a e by (cases "ln_parentId x") (fastforce simp: lane_tree_ok_def)+
  qed
  show "list_all (lane_state_ok m) (ovalues (o_lanes m))" unfolding list_all_iff
  proof
    fix x assume "x \<in> set (ovalues (o_lanes m))"
    then obtain k where x: "get (o_lanes m) k = Some x" by (auto simp: set_ovalues)
    have "ln_id x = k" "ln_children x = open_kids k m" "ln_failedChildren x = failed_kids k m" using d(8,9,10) [OF x] by simp_all
    moreover have "o_stopReason m \<noteq> None \<longrightarrow> terminal (ln_phase x) \<or> ln_phase x = Ph_cancelling" using stop_okD(1) [OF d(3) x] by simp
    ultimately show "lane_state_ok m x" using d(7) [OF x] by (simp add: lane_state_ok_def t open_kids_def failed_kids_def local_ok_def)
  qed
qed

lemma recover_receipts:
  assumes ok: "well_run gen m" shows "receipts_ok m"
proof -
  note r = well_runD(4) [OF ok] and d = orch_okD [OF well_runD(1) [OF ok]]
  have "receipt_ok m (k, c)" if "get (o_spawnReceipts m) k = Some c" for k c
  proof -
    from receiptD [OF r that] obtain p a q y x where k: "k = receipt p a q" "orchestration_id p" "orchestration_id q" "1 \<le> a"
      "get (o_lanes m) p = Some y" "a \<le> ln_attempt y" "get (o_lanes m) c = Some x" "ln_parentId x = Some p" by blast
    have "kind_of m = Coordinator" using r that unfolding receipts_inv_def by blast
    moreover have "list_ex (\<lambda>n. decimal n = decimal a) [1..<Suc (ln_attempt y)]"
    proof -
      have "a \<in> set [1..<Suc (ln_attempt y)]" using k(4,6) by auto
      then show ?thesis unfolding list_ex_iff by blast
    qed
    ultimately show ?thesis using k split_receipt [OF k(2,3)] by (simp add: receipt_ok_def)
  qed
  then have "list_all (receipt_ok m) (oentries (o_spawnReceipts m))" by (auto simp: list_all_iff set_oentries)
  moreover have "distinct (map snd (oentries (o_spawnReceipts m)))"
  proof (rule distinct_oentries)
    fix k k' c c' assume "get (o_spawnReceipts m) k = Some c" "get (o_spawnReceipts m) k' = Some c'" "snd (k, c) = snd (k', c')"
    with r show "k = k'" unfolding receipts_inv_def by auto
  qed
  moreover have "ln_id x \<in> set (map snd (oentries (o_spawnReceipts m)))" if "get (o_lanes m) l = Some x" "ln_parentId x \<noteq> None" for l x
  proof -
    have "\<exists>k. get (o_spawnReceipts m) k = Some l" using r that unfolding receipts_inv_def by blast
    then show ?thesis using d(8) [OF that(1)] by (force simp: set_oentries)
  qed
  ultimately show ?thesis by (auto simp: receipts_ok_def list_all_iff set_ovalues)
qed

lemma job_entry: "keys_distinct m \<Longrightarrow> get (o_intents m) i = Some e \<Longrightarrow> int_effect_id e = i \<and> job m i = Some (int_effect e)"
  by (auto simp: well_named_def job_def dest: get_in_set)

lemma recover_operations:
  assumes ok: "well_run gen m"
  shows "distinct (operations m)" "holds (job m) l op \<longleftrightarrow> (l, op) \<in> set (operations m)"
proof -
  note d = orch_okD [OF well_runD(1) [OF ok]]
  show "distinct (operations m)" unfolding operations_def
  proof (rule distinct_oentries)
    fix i i' e e' assume "get (o_intents m) i = Some e" "get (o_intents m) i' = Some e'" "operation (i, e) = operation (i', e')"
    then show "i = i'" using d(13) [of "effect_lane (int_effect e)"] by (auto simp: once_def operation_def job_def)
  qed
  show "holds (job m) l op \<longleftrightarrow> (l, op) \<in> set (operations m)"
    by (force simp: holds_def operations_def operation_def set_oentries job_def)
qed

lemma fits_canExecute:
  assumes ok: "settled gen m" and x: "get (o_lanes m) l = Some x" and e: "effect_lane e = l" "fits m x e"
  shows "canExecute m x e \<longleftrightarrow> (op_of e = Ef_merge \<longrightarrow> o_open m = 0)"
proof -
  note d = orch_okD [OF ok] and loc = orch_okD(7) [OF ok x]
  have run: "o_stopReason m = None" if "running_phase (ln_phase x)"
    using stop_okD(1) [OF d(3) x] running_phaseD [OF that] by (cases "o_stopReason m") auto
  show ?thesis
  proof (cases e)
    case (Start_effect a b c f g) with e run show ?thesis by simp
  next
    case (Check_effect a b art)
    with e have "ln_phase x = Ph_checking" by simp
    with Check_effect e run loc show ?thesis by (simp add: running_phase_def local_ok_def)
  next
    case (Cancel_effect a b) with e stop_okD(2) [OF d(3) x] show ?thesis by simp
  next
    case (Merge_effect a b cp)
    with e have w: "o_winner m = Some l" by simp
    with Merge_effect e winner_succeeded [OF ok x w] d(8) [OF x] show ?thesis by auto
  qed
qed

lemma recover_intents:
  assumes ok: "well_run gen m"
  shows "list_all (intent_ok m) (oentries (o_intents m)) \<longleftrightarrow> (o_mergeStatus m = Merge_pending \<longrightarrow> o_open m = 0)"
proof
  note s = well_runD(1) [OF ok] and d = orch_okD [OF well_runD(1) [OF ok]]
  have exact: "intent_ok m (i, e) \<longleftrightarrow> (op_of (int_effect e) = Ef_merge \<longrightarrow> o_open m = 0)" if "get (o_intents m) i = Some e" for i e
  proof -
    note j = job_entry [OF d(6) that]
    from d(11) [of i "int_effect e"] j obtain x where x: "get (o_lanes m) (effect_lane (int_effect e)) = Some x"
      "ln_attempt x = effect_attempt (int_effect e)" "fits m x (int_effect e)" by blast
    with fits_canExecute [OF s x(1) refl x(3)] j show ?thesis by (simp add: intent_ok_def)
  qed
  {
    assume "o_mergeStatus m = Merge_pending \<longrightarrow> o_open m = 0"
    moreover have "o_mergeStatus m = Merge_pending" if "get (o_intents m) i = Some e" "op_of (int_effect e) = Ef_merge" for i e
    proof -
      from d(11) [of i "int_effect e"] job_entry [OF d(6) that(1)] obtain x where "fits m x (int_effect e)" by blast
      with that(2) show ?thesis by (cases "int_effect e") auto
    qed
    ultimately show "list_all (intent_ok m) (oentries (o_intents m))" using exact by (auto simp: list_all_iff set_oentries)
  next
    assume a: "list_all (intent_ok m) (oentries (o_intents m))"
    show "o_mergeStatus m = Merge_pending \<longrightarrow> o_open m = 0"
    proof
      assume "o_mergeStatus m = Merge_pending"
      with d(4) obtain i e where "job m i = Some e" "op_of e = Ef_merge" by (auto simp: merge_ok_def holds_def)
      then obtain f where f: "get (o_intents m) i = Some f" "op_of (int_effect f) = Ef_merge" by (auto simp: job_def)
      with a have "intent_ok m (i, f)" by (auto simp: list_all_iff set_oentries)
      with exact f show "o_open m = 0" by blast
    qed
  }
qed

lemma recover_good:
  assumes g: "orch_good gen m"
  shows "recover m = (if o_mergeStatus m = Merge_pending \<and> o_open m > 0 then None else Some (m, ovalues (o_intents m)))"
proof -
  have ok: "well_run gen m" and st: "o_status m = runStatus m" using g by (simp_all add: orch_good_def)
  note d = orch_okD [OF well_runD(1) [OF ok]] and h = recover_operations [OF ok]
  have n: "length (ovalues (o_lanes m)) = length (o_lanes m)" using length_okeys d(6) by (metis length_ovalues)
  have lanes: "(let n = length (ovalues (o_lanes m)) in n \<le> bud_maxLanes (budget_of m) \<and> n \<noteq> 0)"
    using well_runD(5,6) [OF ok] by (simp add: n)
  have win: "case o_winner m of None \<Rightarrow> True | Some w \<Rightarrow> map_option ln_phase (get (o_lanes m) w) = Some Ph_succeeded"
    using d(4) by (auto simp: merge_ok_def split: option.split)
  have req: "list_all (\<lambda>x. case required_intent x of None \<Rightarrow> True | Some op \<Rightarrow> (ln_id x, op) \<in> set (operations m)) (ovalues (o_lanes m))"
    unfolding list_all_iff
  proof
    fix x assume "x \<in> set (ovalues (o_lanes m))"
    then obtain k where x: "get (o_lanes m) k = Some x" by (auto simp: set_ovalues)
    show "case required_intent x of None \<Rightarrow> True | Some op \<Rightarrow> (ln_id x, op) \<in> set (operations m)"
      using d(14) [OF x] d(8) [OF x] h(2) by (auto split: option.split)
  qed
  have mer: "o_mergeStatus m = Merge_pending \<longrightarrow> (case o_winner m of None \<Rightarrow> False | Some w \<Rightarrow> (w, Ef_merge) \<in> set (operations m))"
    using d(4) h(2) by (auto simp: merge_ok_def)
  have "0 \<le> o_open m" using well_runD(3) [OF ok] by (simp add: counts_def lane_total_nonneg)
  then have i: "list_all (intent_ok m) (oentries (o_intents m)) \<longleftrightarrow> \<not> (o_mergeStatus m = Merge_pending \<and> o_open m > 0)"
    using recover_intents [OF ok] by auto
  show ?thesis unfolding recover_def using lanes recover_lanes [OF ok] recover_receipts [OF ok] st win h(1) req mer i by simp
qed

subsection \<open>A sample run\<close>

definition sample_input :: orchestration_create where
  "sample_input = \<lparr>oc_workspaceId = ''w'', oc_prompt = ''p'', oc_baseRef = ''b'', oc_targetBranch = ''main'',
     oc_template = \<lparr>tpl_kind = Fanout,
       tpl_lanes = [\<lparr>spec_provider = Codex, spec_model = ''m'', spec_access = None\<rparr>, \<lparr>spec_provider = Codex, spec_model = ''m'', spec_access = None\<rparr>],
       tpl_command = [''test''], tpl_review = None,
       tpl_budget = \<lparr>bud_maxLanes = 4, bud_maxDepth = 2, bud_maxAttempts = 2, bud_durationMs = 1000, bud_tokens = 1000, bud_cost = 10\<rparr>\<rparr>\<rparr>"

definition sample_ctx :: orch_context where
  "sample_ctx = \<lparr>ctx_now = 5, ctx_ids = run_ids\<rparr>"

definition sample_artifact :: artifact where
  "sample_artifact = \<lparr>art_checkpoint = ''c'', art_summary = ''s'', art_diffRef = None, art_tests = (1, 0, None)\<rparr>"

fun is_ack :: "orch_fact \<Rightarrow> bool" where
  "is_ack (Fact_ack _) = True"
| "is_ack _ = False"

definition play :: "orch_context \<Rightarrow> orch_fact \<Rightarrow> orch \<Rightarrow> orch option" where
  "play ctx f m = (if clock_valid ctx \<and> fact_ok f \<and> \<not> is_ack f \<and> o_seq m \<le> 64 then orch_apply ctx f m else None)"

definition sample_run :: "orch_fact list \<Rightarrow> orch option" where
  "sample_run fs = Option.bind (orch_create sample_ctx sample_input 0) (foldM (play sample_ctx) fs)"

lemma play_report:
  assumes "play ctx f m = Some m'" shows "may_report ctx (10 ^ 100) f m" "orch_apply ctx f m = Some m'"
proof -
  have a: "clock_valid ctx" "fact_ok f" "\<not> is_ack f" "o_seq m \<le> 64" "orch_apply ctx f m = Some m'"
    using assms by (auto simp: play_def split: if_splits)
  have "o_seq m + 2048 \<le> 10 ^ 100" by (rule order_trans [of _ "64 + 2048"]) (use a(4) in simp_all)
  with a show "may_report ctx (10 ^ 100) f m" by (cases f) (simp_all add: may_report_def)
qed (use assms in \<open>auto simp: play_def split: if_splits\<close>)

lemma sample_reach:
  assumes "sample_run fs = Some m" shows "orch_reach run_ids (10 ^ 100) m"
proof -
  have ids: "ctx_ids sample_ctx = run_ids" by (simp add: sample_ctx_def)
  from assms obtain n where n: "orch_create sample_ctx sample_input 0 = Some n" "foldM (play sample_ctx) fs n = Some m"
    by (auto simp: sample_run_def bind_eq_Some_conv)
  have "orch_reach run_ids (10 ^ 100) n" by (rule orch_reach.created [OF n(1) ids]) simp
  with n(2) show ?thesis
    by (rule foldM_invariant) (use play_report orch_reach.reported ids in metis)
qed

definition finish_facts :: "ident \<Rightarrow> ident \<Rightarrow> orch_fact list" where
  "finish_facts l i = [Fact_bound l 1 (''t'' @ l) l, Fact_thread l 1 Done, Fact_artifact l 1 sample_artifact, Fact_checked l 1 i True None]"

definition picked_facts :: "orch_fact list" where
  "picked_facts = finish_facts ''l2'' ''i6'' @ finish_facts ''l4'' ''i7'' @ [Fact_pick ''l2'' True]"

end
