(* ===== verification/Orchestrator_Stop.thy ===== *)
theory Orchestrator_Stop
  imports Orchestrator_Recover
begin

text \<open>
  How a stopped run ends: every lane that is still open has been asked to stop, the deepest of them has
  an intent that may execute, and its confirmation closes the lane. Then the properties of the
  orchestrator.
\<close>

subsection \<open>Stopped runs\<close>

definition stopped :: "orch \<Rightarrow> bool" where
  "stopped m \<longleftrightarrow> o_stopReason m \<noteq> None \<and> (\<forall>k x. get (o_lanes m) k = Some x \<longrightarrow> terminal (ln_phase x) \<or> ln_phase x = Ph_cancelling)"

lemma settled_stopped: "settled gen m \<Longrightarrow> o_stopReason m \<noteq> None \<Longrightarrow> stopped m"
  using stop_okD(1) [OF orch_okD(3)] unfolding stopped_def by blast

lemma cancel_stopped:
  assumes "stopped m" shows "foldM (cancel_unless fin ctx except) ks m = Some m"
proof (induction ks)
  case (Cons k ks)
  have "cancel_unless fin ctx except k m = Some m"
    using assms by (auto simp: cancel_unless_def stopped_def split: option.split)
  with Cons show ?case by simp
qed simp

lemma enforce_stopped:
  assumes "stopped m" "enforce_budget ctx m = Some m'"
  shows "stopped m'" "o_lanes m' = o_lanes m" "o_open m' = o_open m" "o_seq m' = o_seq m" "keys_distinct m \<Longrightarrow> job m i = Some e \<Longrightarrow> op_of e \<noteq> Ef_merge \<Longrightarrow> job m' i = Some e"
proof -
  define v where "v = drop_merge (m\<lparr>o_stopReason := Some Stop_budget, o_mergeRequested := False\<rparr>)"
  have s: "stopped v" using assms(1) by (simp add: stopped_def v_def)
  have "m' = m \<or> m' = v"
    using assms(2) cancel_stopped [OF s] by (auto simp: enforce_budget_def cancelAll_def Let_def v_def split: if_splits)
  moreover have "o_open v = o_open m" by (simp add: v_def drop_merge_def)
  moreover have "job v i = Some e" if "keys_distinct m" "job m i = Some e" "op_of e \<noteq> Ef_merge"
    using that job_drop_intents [of "m\<lparr>o_stopReason := Some Stop_budget, o_mergeRequested := False\<rparr>" "\<lambda>e. op_of e = Ef_merge" i]
    by (auto simp: v_def drop_merge_def)
  ultimately show "stopped m'" "o_lanes m' = o_lanes m" "o_open m' = o_open m" "o_seq m' = o_seq m"
    "keys_distinct m \<Longrightarrow> job m i = Some e \<Longrightarrow> op_of e \<noteq> Ef_merge \<Longrightarrow> job m' i = Some e"
    using assms(1) s by (auto simp: v_def)
qed

lemma closed_stopped:
  assumes "stopped m" "get (o_lanes m) l = Some x" "\<not> terminal (ln_phase x)" "close_lane ctx l Ph_cancelled x m = Some u"
  shows "stopped u" "o_open u = o_open m - 1" "o_seq u = o_seq m"
proof -
  define v where "v = closed ctx l Ph_cancelled m"
  have v: "o_open v = o_open m - 1" "o_seq v = o_seq m" "stopped v"
    using assms(1-3) by (auto simp: v_def closed_def step_by_def clearLaneIntents_def stopped_def split: if_splits)
  define f where "f = (\<lambda>y :: lane. y\<lparr>ln_children := ln_children y - 1, ln_failedChildren := ln_failedChildren y + 1\<rparr>)"
  have "u = v \<or> (\<exists>p. u = upd_lane p f v)"
    using assms(4) by (cases "ln_parentId x") (auto simp: close_lane_def v_def closed_def f_def Let_def split: if_splits)
  moreover have "stopped (upd_lane p f v)" for p using v(3) unfolding stopped_def by (fastforce simp: f_def split: if_splits)
  ultimately show "stopped u" "o_open u = o_open m - 1" "o_seq u = o_seq m" using v by auto
qed

lemma finish_stopped:
  "stopped m \<Longrightarrow> finish_lane n ctx l Ph_cancelled m = Some m' \<Longrightarrow> stopped m' \<and> o_seq m' = o_seq m \<and> o_open m' \<le> o_open m \<and>
   (\<forall>x. get (o_lanes m) l = Some x \<longrightarrow> \<not> terminal (ln_phase x) \<longrightarrow> o_open m' < o_open m)"
proof (induction n arbitrary: l m m')
  case 0 then show ?case by (simp add: finish_lane.simps)
next
  case (Suc n)
  let ?fin = "finish_lane n ctx"
  show ?case
  proof (cases "get (o_lanes m) l")
    case None with Suc.prems show ?thesis by (simp add: finish_lane.simps)
  next
    case (Some x)
    show ?thesis
    proof (cases "terminal (ln_phase x)")
      case True with Suc.prems Some show ?thesis by (simp add: finish_lane.simps)
    next
      case False
      with Suc.prems(2) Some obtain u v w where u: "close_lane ctx l Ph_cancelled x m = Some u" and v: "settle_parent ?fin ctx (ln_parentId x) u = Some v"
        and w: "declare_winner ?fin ctx l Ph_cancelled v = Some w" "advance_pipeline ?fin ctx l Ph_cancelled w = Some m'"
        by (auto simp: finish_lane.simps bind_eq_Some_conv)
      note c = closed_stopped [OF Suc.prems(1) Some False u]
      have "w = v" using w(1) by (simp add: declare_winner_def)
      moreover have "m' = w" using w(2) by (simp add: advance_pipeline_def split: if_splits)
      moreover have "stopped v \<and> o_seq v = o_seq u \<and> o_open v \<le> o_open u"
      proof (cases "ln_parentId x")
        case None with v c show ?thesis by (simp add: settle_parent_def)
      next
        case p: (Some p)
        with v obtain y where y: "get (o_lanes u) p = Some y" by (auto simp: settle_parent_def split: option.splits)
        show ?thesis
        proof (cases "ln_phase y = Ph_cancelling \<and> ln_threadDone y \<and> ln_children y = 0")
          case True
          with v p y have "?fin p Ph_cancelled u = Some v" by (simp add: settle_parent_def)
          from Suc.IH [OF c(1) this] show ?thesis by simp
        next
          case False
          have "terminal (ln_phase y) \<or> ln_phase y = Ph_cancelling" using c(1) y by (simp add: stopped_def)
          with False v p y have "v = u" by (auto simp: settle_parent_def reconcile_lane_def split: if_splits)
          with c show ?thesis by simp
        qed
      qed
      ultimately show ?thesis using c Some by auto
    qed
  qed
qed

text \<open>The facts that confirm a cancellation which may execute.\<close>

definition confirms :: "orch \<Rightarrow> orch_fact \<Rightarrow> bool" where
  "confirms m f \<longleftrightarrow> (case f of
       Fact_stopped l a i \<Rightarrow> map_option int_effect (get (o_intents m) i) = Some (Cancel_effect l a) \<and>
         (case get (o_lanes m) l of None \<Rightarrow> False | Some x \<Rightarrow> canExecute m x (Cancel_effect l a))
     | _ \<Rightarrow> False)"

definition confirmed :: "orch_context \<Rightarrow> orch_fact \<Rightarrow> orch \<Rightarrow> orch option" where
  "confirmed ctx f m = (if confirms m f then orch_apply ctx f m else None)"

lemma lane_total_ex: "0 < lane_total (\<lambda>x. of_bool (P x)) d \<Longrightarrow> distinct (map fst d) \<Longrightarrow> \<exists>k x. get d k = Some x \<and> P x"
proof (rule ccontr)
  assume a: "0 < lane_total (\<lambda>x. of_bool (P x)) d" "distinct (map fst d)" and "\<not> (\<exists>k x. get d k = Some x \<and> P x)"
  then have "lane_total (\<lambda>x. of_bool (P x)) d = 0" by (intro lane_total_zero) auto
  with a(1) show False by simp
qed

lemma deepest_open:
  assumes ok: "well_run gen m" and o: "o_open m > 0"
  shows "\<exists>l x. get (o_lanes m) l = Some x \<and> \<not> terminal (ln_phase x) \<and> ln_children x = 0"
proof -
  note d = orch_okD [OF well_runD(1) [OF ok]]
  define P where "P = (\<lambda>l. \<exists>x. get (o_lanes m) l = Some x \<and> \<not> terminal (ln_phase x))"
  define h where "h = (\<lambda>l. case get (o_lanes m) l of None \<Rightarrow> 0 | Some x \<Rightarrow> ln_depth x)"
  obtain l0 where l0: "P l0" using o well_runD(3) [OF ok] lane_total_ex [of "\<lambda>x. \<not> terminal (ln_phase x)" "o_lanes m"] d(6) by (auto simp: counts_def P_def)
  have hb: "\<forall>l. P l \<longrightarrow> h l < Suc (bud_maxDepth (budget_of m))" using static_okD(2) [OF d(1)] by (auto simp: P_def h_def less_Suc_eq_le)
  from ex_has_greatest_nat [OF l0 hb] obtain l where l: "P l" "\<And>k. P k \<Longrightarrow> h k \<le> h l" by blast
  then obtain x where x: "get (o_lanes m) l = Some x" "\<not> terminal (ln_phase x)" by (auto simp: P_def)
  have "ln_children x = 0"
  proof (rule ccontr)
    assume "ln_children x \<noteq> 0"
    with children_nonneg [OF well_runD(1) [OF ok] x(1)] d(9) [OF x(1)] have "0 < open_kids l m" by simp
    then obtain k y where y: "get (o_lanes m) k = Some y" "open_child l y" unfolding open_kids_def
      using lane_total_ex [of "open_child l" "o_lanes m"] d(6) by blast
    then have "P k" "ln_depth y = Suc (ln_depth x)"
      using static_okD(6) [OF d(1) y(1), of l] x(1) by (auto simp: P_def open_child_def)
    with l(2) [of k] x(1) y(1) show False by (simp add: h_def)
  qed
  with x show ?thesis by blast
qed

lemma outstanding_stop:
  assumes g: "orch_good gen m" and stop: "o_stopReason m \<noteq> None" and o: "o_open m > 0"
  shows "\<exists>l a i x. confirms m (Fact_stopped l a i) \<and> get (o_lanes m) l = Some x \<and> ln_attempt x = a \<and> ln_children x = 0 \<and> ln_phase x = Ph_cancelling"
proof -
  have ok: "well_run gen m" using g by (simp add: orch_good_def)
  note s = well_runD(1) [OF ok] and d = orch_okD [OF well_runD(1) [OF ok]]
  from deepest_open [OF ok o] obtain l x where x: "get (o_lanes m) l = Some x" "\<not> terminal (ln_phase x)" "ln_children x = 0" by blast
  have c: "ln_phase x = Ph_cancelling" using settled_stopped [OF s stop] x by (auto simp: stopped_def)
  then have "required_intent x = Some Ef_cancel" using d(7) [OF x(1)] x(3) by (auto simp: local_ok_def required_intent_def)
  with d(14) [OF x(1)] obtain i e where e: "job m i = Some e" "effect_lane e = l" "op_of e = Ef_cancel" by (auto simp: holds_def)
  then have "e = Cancel_effect l (ln_attempt x)" using d(11) [OF e(1)] x(1) by (cases e) auto
  with e c stop x show ?thesis by (intro exI [of _ l] exI [of _ "ln_attempt x"] exI [of _ i] exI [of _ x]) (simp add: confirms_def job_def)
qed

lemma updateStatus_keeps: "updateStatus ctx m = Some m' \<Longrightarrow> o_open m' = o_open m \<and> o_stopReason m' = o_stopReason m \<and> o_seq m' \<le> Suc (o_seq m)"
proof -
  assume "updateStatus ctx m = Some m'"
  then obtain n where n: "request_merge ctx m = Some n"
    and m': "m' = (if runStatus n \<noteq> o_status n then orch_emit (Status_event (runStatus n)) (n\<lparr>o_status := runStatus n\<rparr>) else n)"
    by (auto simp: updateStatus_def bind_eq_Some_conv Let_def)
  have "o_open n = o_open m \<and> o_stopReason n = o_stopReason m \<and> o_seq n \<le> Suc (o_seq m)"
    using n add_intent_cases(3,8,9) unfolding request_merge_def by (force split: if_splits option.splits)
  then show ?thesis by (simp add: m')
qed

lemma stop_step:
  assumes src: "orch_source gen cap" and g: "orch_good gen m" and stop: "o_stopReason m \<noteq> None" and o: "o_open m > 0"
    and ctx: "ctx_ids ctx = gen" "clock_valid ctx" and room: "o_seq m + 2048 \<le> cap"
  shows "\<exists>f m'. confirmed ctx f m = Some m' \<and> orch_good gen m' \<and> o_stopReason m' \<noteq> None \<and> o_open m' < o_open m \<and> o_seq m' \<le> Suc (o_seq m)"
proof -
  have ok: "well_run gen m" using g by (simp add: orch_good_def)
  from outstanding_stop [OF g stop o] obtain l a i x where f: "confirms m (Fact_stopped l a i)" and x: "get (o_lanes m) l = Some x"
    "ln_attempt x = a" "ln_children x = 0" "ln_phase x = Ph_cancelling" by blast
  define t where "t = Fact_stopped l a i"
  have "may_report ctx cap t m" using ctx room by (simp add: may_report_def t_def)
  from orch_apply_ok [of ctx cap m t] this src ok ctx(1) obtain m' where m': "orch_apply ctx t m = Some m'" "orch_good gen m'" by auto
  define u where "u = m\<lparr>o_events := [], o_newIntents := []\<rparr>"
  from m'(1) obtain v w where v: "enforce_budget ctx u = Some v" and w: "step_orch ctx t v = Some w" and e: "updateStatus ctx w = Some m'"
    by (auto simp: orch_apply_def u_def bind_eq_Some_conv split: if_splits)
  have su: "stopped u" using settled_stopped [OF well_runD(1) [OF ok] stop] by (simp add: stopped_def u_def)
  have j: "job u i = Some (Cancel_effect l a)" using f by (simp add: confirms_def u_def job_def)
  have k: "keys_distinct u" using orch_okD(6) [OF well_runD(1) [OF ok]] by (simp add: u_def)
  note en = enforce_stopped [OF su v]
  have "job v i = Some (Cancel_effect l a)" by (rule en(5) [OF k j]) simp
  then have "intent_is v i Ef_cancel" "intent_for v i l" by (auto simp: job_def intent_is_def intent_for_def)
  moreover have xv: "get (o_lanes v) l = Some x" using en(2) x(1) by (simp add: u_def)
  ultimately have "finish_now ctx v l Ph_cancelled v = Some w" using w x by (simp add: step_orch_def step_lane_def t_def)
  from finish_stopped [OF en(1) this] xv x(4) have "stopped w" "o_seq w = o_seq v" "o_open w < o_open v" by auto
  then have "o_open m' < o_open m" "o_seq m' \<le> Suc (o_seq m)" "o_stopReason m' \<noteq> None"
    using updateStatus_keeps [OF e] en(3,4) by (auto simp: stopped_def u_def)
  with m' f show ?thesis by (intro exI [of _ t] exI [of _ m']) (simp add: confirmed_def t_def)
qed

lemma stop_all:
  assumes src: "orch_source gen cap" and ctx: "ctx_ids ctx = gen" "clock_valid ctx"
  shows "orch_good gen m \<Longrightarrow> o_stopReason m \<noteq> None \<Longrightarrow> o_seq m + 2048 + nat (o_open m) \<le> cap \<Longrightarrow>
    \<exists>fs m'. foldM (confirmed ctx) fs m = Some m' \<and> length fs \<le> nat (o_open m) \<and> o_open m' = 0"
proof (induction "nat (o_open m)" arbitrary: m rule: less_induct)
  case less
  show ?case
  proof (cases "o_open m > 0")
    case False
    have "0 \<le> o_open m" using less.prems(1) by (simp add: orch_good_def well_run_def counts_def lane_total_nonneg)
    with False have "foldM (confirmed ctx) [] m = Some m \<and> length [] \<le> nat (o_open m) \<and> o_open m = 0" by simp
    then show ?thesis by blast
  next
    case True
    from stop_step [OF src less.prems(1,2) True ctx] less.prems(3) obtain f u where u: "confirmed ctx f m = Some u" "orch_good gen u"
      "o_stopReason u \<noteq> None" "o_open u < o_open m" "o_seq u \<le> Suc (o_seq m)" by auto
    have "nat (o_open u) < nat (o_open m)" "o_seq u + 2048 + nat (o_open u) \<le> cap" using u(4,5) True less.prems(3) by linarith+
    from less.hyps [OF this(1) u(2,3) this(2)] obtain fs m' where "foldM (confirmed ctx) fs u = Some m'" "length fs \<le> nat (o_open u)" "o_open m' = 0" by blast
    moreover have "length (f # fs) \<le> nat (o_open m)" using calculation(2) u(4) True by simp
    ultimately show ?thesis using u(1) by (intro exI [of _ "f # fs"] exI [of _ m']) simp
  qed
qed

subsection \<open>Properties\<close>

lemma sample_runs: "sample_run [] \<noteq> None" "sample_run picked_facts \<noteq> None" "sample_run [Fact_cancel] \<noteq> None"
  by code_simp+

lemma sample_reaches:
  "orch_reach run_ids (10 ^ 100) (the (sample_run []))" "orch_reach run_ids (10 ^ 100) (the (sample_run picked_facts))"
  "orch_reach run_ids (10 ^ 100) (the (sample_run [Fact_cancel]))"
  by (rule sample_reach [OF option.collapse [OF sample_runs(1), symmetric]]
    sample_reach [OF option.collapse [OF sample_runs(2), symmetric]] sample_reach [OF option.collapse [OF sample_runs(3), symmetric]])+

lemma sample_clock: "ctx_ids sample_ctx = run_ids" "clock_valid sample_ctx"
  by (simp_all add: sample_ctx_def clock_valid_def max_safe_def)

text \<open>C12: In every reachable state of an orchestration run, any fact that satisfies its schema is applied
  without an exception, and the new state is reachable: no parent is missing, no identity is used twice,
  and the mutual recursion of the lifecycle ends within the depth of the run. The identities are distinct
  and not near their end, and an acknowledgment follows the fact of its execution.\<close>
theorem orch_apply_returns:
  assumes "orch_source gen cap" "orch_reach gen cap m" "ctx_ids ctx = gen" "may_report ctx cap f m"
  shows "\<exists>m'. orch_apply ctx f m = Some m' \<and> orch_reach gen cap m'"
  by (rule orch_source.reached_returns [OF assms(1,2,4,3)])

theorem orch_apply_returns_witness:
  "\<exists>m'. orch_apply sample_ctx Fact_cancel (the (sample_run [])) = Some m' \<and> orch_reach run_ids (10 ^ 100) m'"
proof (rule orch_apply_returns [OF numbered.orch_source_axioms sample_reaches(1) sample_clock(1)])
  have "o_seq (the (sample_run [])) = 6" by code_simp
  then show "may_report sample_ctx (10 ^ 100) Fact_cancel (the (sample_run []))" using sample_clock(2) by (simp add: may_report_def)
qed

text \<open>C11: Recovery accepts every reachable state of a run and returns it with its persisted intents, except
  the states in which a merge is pending while a lane is open: those it rejects. So the lane tree, the
  counts of children, the receipts, the lifecycle counters and the status that a run persists are always
  those that recovery derives again from the lanes, and every persisted intent may execute.\<close>
theorem recover_exact:
  assumes "orch_source gen cap" "orch_reach gen cap m"
  shows "recover m = (if o_mergeStatus m = Merge_pending \<and> o_open m > 0 then None else Some (m, ovalues (o_intents m)))"
  by (rule recover_good [OF orch_source.orch_reach_good [OF assms]])

theorem recover_exact_witness:
  "orch_reach run_ids (10 ^ 100) (the (sample_run picked_facts)) \<and> o_mergeStatus (the (sample_run picked_facts)) = Merge_pending \<and>
   recover (the (sample_run picked_facts)) =
     Some (the (sample_run picked_facts), ovalues (o_intents (the (sample_run picked_facts))))"
proof -
  have "o_open (the (sample_run picked_facts)) = 0" "o_mergeStatus (the (sample_run picked_facts)) = Merge_pending" by code_simp+
  with recover_exact [OF numbered.orch_source_axioms sample_reaches(2)] sample_reaches(2) show ?thesis by simp
qed


text \<open>C13: A stopped run always comes to an end when its executor confirms cancellations: from every
  reachable state with a stop reason there is a sequence of confirmations, each of a persisted cancel
  intent that may execute in its state, no longer than the number of open lanes, after which no lane is
  open. In particular a stopped run with open lanes never lacks such an intent.\<close>
theorem stopped_run_ends:
  assumes "orch_source gen cap" "orch_reach gen cap m" "o_stopReason m \<noteq> None" "ctx_ids ctx = gen" "clock_valid ctx"
    and "o_seq m + 2048 + nat (o_open m) \<le> cap"
  shows "\<exists>fs m'. foldM (confirmed ctx) fs m = Some m' \<and> length fs \<le> nat (o_open m) \<and> o_open m' = 0"
  by (rule stop_all [OF assms(1,4,5) orch_source.orch_reach_good [OF assms(1,2)] assms(3,6)])

theorem stopped_run_ends_witness:
  "o_open (the (sample_run [Fact_cancel])) = 2 \<and>
   (\<exists>fs m'. foldM (confirmed sample_ctx) fs (the (sample_run [Fact_cancel])) = Some m' \<and> length fs \<le> 2 \<and> o_open m' = 0)"
proof -
  have e: "o_open (the (sample_run [Fact_cancel])) = 2" "o_seq (the (sample_run [Fact_cancel])) = 8"
    "o_stopReason (the (sample_run [Fact_cancel])) = Some Stop_cancelled" by code_simp+
  from stopped_run_ends [OF numbered.orch_source_axioms sample_reaches(3) _ sample_clock] e show ?thesis by simp
qed



text \<open>C15: In every reachable state of a run the template's limits hold: at least one lane and at most the
  allowed number, no lane deeper than the allowed depth and none beyond its allowed attempts, however
  lanes spawn, fail, retry and are revived.\<close>
theorem orch_run_bounds:
  assumes "orch_source gen cap" "orch_reach gen cap m"
  shows "1 \<le> length (okeys (o_lanes m)) \<and> length (okeys (o_lanes m)) \<le> bud_maxLanes (budget_of m) \<and> bud_maxLanes (budget_of m) \<le> 64 \<and>
    (\<forall>k x. get (o_lanes m) k = Some x \<longrightarrow> ln_depth x \<le> bud_maxDepth (budget_of m) \<and> 1 \<le> ln_attempt x \<and> ln_attempt x \<le> bud_maxAttempts (budget_of m))"
proof -
  have ok: "well_run gen m" using orch_source.orch_reach_good [OF assms] by (simp add: orch_good_def)
  note d = orch_okD [OF well_runD(1) [OF ok]]
  have "length (okeys (o_lanes m)) = length (o_lanes m)" using length_okeys d(6) by blast
  moreover have "bud_maxLanes (budget_of m) \<le> 64" using d(1) by (simp add: static_ok_def create_ok_def Let_def)
  moreover have "1 \<le> length (o_lanes m)" using well_runD(5) [OF ok] by (cases "o_lanes m") simp_all
  ultimately show ?thesis using well_runD(6) [OF ok] static_okD(2,3) [OF d(1)] d(7) by (auto simp: local_ok_def)
qed

theorem orch_run_bounds_witness: "length (okeys (o_lanes (the (sample_run picked_facts)))) = 2 \<and> bud_maxLanes (budget_of (the (sample_run picked_facts))) = 4 \<and>
   1 \<le> length (okeys (o_lanes (the (sample_run picked_facts))))"
proof -
  have "length (okeys (o_lanes (the (sample_run picked_facts)))) = 2" "bud_maxLanes (budget_of (the (sample_run picked_facts))) = 4" by code_simp+
  with orch_run_bounds [OF numbered.orch_source_axioms sample_reaches(2)] show ?thesis by simp
qed

end
