(* ===== verification/Projection.thy ===== *)
theory Projection
  imports Core_Tree_Inv Output_Delta
begin

text \<open>
  The client's projection of a thread (src/packages/projection/src/index.ts, usage.ts): the view a
  client folds events into, the list of threads beside it, and the delivery of event batches with
  gap detection. Mutation of a view is explicit; a thrown error is \<^const>\<open>None\<close>.

  Entities are those of Protocol. The properties of a schema that no fold looks at, and that
  Protocol does not type, are carried beside the typed record as a dictionary: an \<open>entry\<close>. A thread
  is a record of the properties the folds read and a dictionary of the others.
\<close>

subsection \<open>Payloads and events (events.ts, wire-core.ts)\<close>

type_synonym 'e entry = "'e \<times> fields"

record thread =
  th_id :: ident
  th_status :: thread_status
  th_rootAgentId :: "ident option"
  th_updatedAt :: timestamp
  th_rest :: fields

text \<open>\<open>thread.updated\<close>: the new status, and the other properties that are present; a null clears.\<close>

record thread_patch =
  tp_status :: "thread_status option"
  tp_rest :: fields

datatype payload =
    P_thread_created thread
  | P_thread_updated thread_patch
  | P_thread_client_updated fields
  | P_agent_created "agent entry"
  | P_agent_status ident agent_status
  | P_agent_updated ident agent_update fields
  | P_run_client_updated ident json
  | P_input_admitted ident string "string option"
  | P_run_started "run entry"
  | P_run_ended ident run_state bool timestamp "json option" "run_trigger option"
  | P_item_created item
  | P_item_updated item
  | P_item_deleted ident
  | P_item_delta ident ident delta_field string
  | P_interaction_opened "interaction entry"
  | P_interaction_closed ident interaction_state timestamp "json option"
      "interaction_resolution option" "ident option" "bool option"
  | P_task_started background_task
  | P_task_updated ident task_status "timestamp option"
  | P_queue_updated fields
  | P_context_meter_updated ident fields
  | P_context_sampled ident fields
  | P_usage_updated ident fields
  | P_workspace_files_changed
  | P_unknown

text \<open>An event of the host's log; \<open>firstSeq\<close> is present when consecutive deltas were joined.\<close>

record delivery_event =
  de_seq :: nat
  de_firstSeq :: "nat option"
  de_at :: timestamp
  de_threadId :: ident
  de_payload :: payload

subsection \<open>Views (wire-core.ts)\<close>

record thread_view =
  v_seq :: nat
  v_thread :: thread
  v_agents :: "agent entry dict"
  v_agentChildren :: "ident list dict"
  v_runs :: "run entry dict"
  v_items :: "item dict"
  v_itemOrder :: "ident list"
  v_itemSeqs :: "nat dict"
  v_itemsBefore :: "nat option"
  v_interactions :: "interaction entry dict"
  v_backgroundTasks :: "background_task dict"
  v_queue :: "fields option"
  v_usage :: "fields dict"
  v_contextMeters :: "fields dict"
  v_usageSnapshots :: "fields dict"

record thread_list_view =
  l_seq :: nat
  l_threads :: "thread dict"

datatype apply_result = Applied | Ignored | Gap nat nat

definition createThreadView :: "thread \<Rightarrow> nat \<Rightarrow> thread_view" where
  "createThreadView thread seq = \<lparr>v_seq = seq, v_thread = thread, v_agents = [], v_agentChildren = [],
     v_runs = [], v_items = [], v_itemOrder = [], v_itemSeqs = [], v_itemsBefore = None,
     v_interactions = [], v_backgroundTasks = [], v_queue = None, v_usage = [], v_contextMeters = [],
     v_usageSnapshots = []\<rparr>"

definition sidebarEntry :: "thread \<Rightarrow> thread" where
  "sidebarEntry thread = thread\<lparr>th_rootAgentId := None\<rparr>"

definition deleted :: "thread \<Rightarrow> bool" where
  "deleted thread \<longleftrightarrow> has (th_rest thread) ''deletedAt''"

definition createThreadListView :: "thread list \<Rightarrow> nat \<Rightarrow> thread_list_view" where
  "createThreadListView threads seq = \<lparr>l_seq = seq, l_threads =
     foldl (\<lambda>d t. put d (th_id t) (sidebarEntry t)) [] (filter (\<lambda>t. \<not> deleted t) threads)\<rparr>"

subsection \<open>The index of children (index.ts)\<close>

text \<open>A parent id that is neither null nor undefined nor empty.\<close>

definition id_present :: "ident option \<Rightarrow> bool" where
  "id_present p \<longleftrightarrow> p \<noteq> None \<and> p \<noteq> Some []"

definition children_of :: "ident list dict \<Rightarrow> ident \<Rightarrow> ident list" where
  "children_of d p = given (get d p) []"

definition leave_parent :: "ident \<Rightarrow> ident option \<Rightarrow> ident list dict \<Rightarrow> ident list dict" where
  "leave_parent i p d =
     (if \<not> id_present p then d
      else let children = filter (\<lambda>c. c \<noteq> i) (children_of d (the p)) in
        if children \<noteq> [] then put d (the p) children else del d (the p))"

definition join_parent :: "ident \<Rightarrow> ident option \<Rightarrow> ident list dict \<Rightarrow> ident list dict" where
  "join_parent i p d = (if \<not> id_present p then d else put d (the p) (children_of d (the p) @ [i]))"

definition reparentAgent :: "ident \<Rightarrow> ident option \<Rightarrow> ident option \<Rightarrow> thread_view \<Rightarrow> thread_view" where
  "reparentAgent i oldParent nextParent v =
     (if oldParent = nextParent then v
      else v\<lparr>v_agentChildren := join_parent i nextParent (leave_parent i oldParent (v_agentChildren v))\<rparr>)"

text \<open>A \<open>Set\<close> keeps the first position of each element.\<close>

definition add_once :: "ident \<Rightarrow> ident list \<Rightarrow> ident list" where
  "add_once i ids0 = (if i \<in> set ids0 then ids0 else ids0 @ [i])"

definition collect_child :: "ident list dict \<Rightarrow> agent \<Rightarrow> ident list dict" where
  "collect_child parents a =
     (if \<not> id_present (a_parentId a) then parents
      else put parents (the (a_parentId a)) (add_once (a_id a) (children_of parents (the (a_parentId a)))))"

text \<open>\<open>parents\<close> is a \<open>Map\<close>, in order of insertion.\<close>

definition rebuildAgentChildren :: "thread_view \<Rightarrow> thread_view" where
  "rebuildAgentChildren v = v\<lparr>v_agentChildren :=
     foldl (\<lambda>d (p, cs). put d p cs) []
       (foldl collect_child [] (map fst (ovalues (v_agents v))))\<rparr>"

subsection \<open>The thread (index.ts)\<close>

definition assign :: "string \<Rightarrow> fields \<Rightarrow> fields \<Rightarrow> fields" where
  "assign k p t = (case get p k of None \<Rightarrow> t | Some x \<Rightarrow> put t k x)"

definition assign_or_clear :: "string \<Rightarrow> fields \<Rightarrow> fields \<Rightarrow> fields" where
  "assign_or_clear k p t = (case get p k of None \<Rightarrow> t | Some x \<Rightarrow> if x = JNull then del t k else put t k x)"

definition assign_backend :: "fields \<Rightarrow> fields \<Rightarrow> fields" where
  "assign_backend p t = (case get p ''backend'' of None \<Rightarrow> t
     | Some x \<Rightarrow>
         let t1 = put t ''backend'' x in
         if x = JStr ''cursor-sdk'' then del t1 ''continuation'' else t1)"

definition assign_acp :: "fields \<Rightarrow> fields \<Rightarrow> fields" where
  "assign_acp p t = (case get p ''acp'' of None \<Rightarrow> t
     | Some x \<Rightarrow> (case asObject x of None \<Rightarrow> t
         | Some acp \<Rightarrow> foldl (\<lambda>t k. assign k acp t) t [''acpAgentId'', ''installationId'', ''instanceId'']))"

text \<open>The assignments of \<open>thread.updated\<close> before the status, in the order of the source.\<close>

definition patch_rest :: "fields \<Rightarrow> fields \<Rightarrow> fields" where
  "patch_rest p t0 =
     (let t1 = assign ''permission'' p (assign ''workspaceId'' p t0);
          t2 = assign ''capabilities'' p (assign_backend p t1);
          t3 = foldl (\<lambda>t k. assign k p t) t2
                 [''provider'', ''lineage'', ''delegatedBy'', ''delegatedFrom'', ''startedBy''];
          t4 = assign_or_clear ''queuedLaunch'' p t3;
          t5 = foldl (\<lambda>t k. assign k p t) t4
                 [''execution'', ''switch'', ''title'', ''titleSource'', ''effectiveCapabilities'', ''acpSupport'']
      in assign_acp p t5)"

definition patch_thread :: "nat \<Rightarrow> thread_patch \<Rightarrow> thread \<Rightarrow> thread" where
  "patch_thread seq p thread =
     (let t1 = thread\<lparr>th_rest := patch_rest (tp_rest p) (th_rest thread)\<rparr>;
          t2 = (case tp_status p of None \<Rightarrow> t1
            | Some st \<Rightarrow> t1\<lparr>th_status := st, th_rest := put (th_rest t1) ''activitySeq'' (JNum (of_nat seq))\<rparr>)
      in t2\<lparr>th_rest := assign_or_clear ''goal'' (tp_rest p) (assign_or_clear ''archivedAt'' (tp_rest p) (th_rest t2))\<rparr>)"

definition client_change :: "fields \<Rightarrow> string \<times> json \<Rightarrow> fields" where
  "client_change t c = (if snd c = JNull then del t (fst c) else put t (fst c) (snd c))"

fun sidebar_payload :: "payload \<Rightarrow> bool" where
  "sidebar_payload (P_queue_updated _) = True"
| "sidebar_payload (P_thread_created _) = True"
| "sidebar_payload (P_thread_updated _) = True"
| "sidebar_payload (P_thread_client_updated _) = True"
| "sidebar_payload _ = False"

definition isSidebarEvent :: "delivery_event \<Rightarrow> bool" where
  "isSidebarEvent e = sidebar_payload (de_payload e)"

definition updateThread :: "delivery_event \<Rightarrow> thread \<Rightarrow> thread" where
  "updateThread e thread =
     (let t1 = (case de_payload e of
            P_queue_updated queue \<Rightarrow> thread\<lparr>th_rest := put (th_rest thread) ''queue'' (JObj queue)\<rparr>
          | P_thread_client_updated changes \<Rightarrow> thread\<lparr>th_rest := foldl client_change (th_rest thread) (oentries changes)\<rparr>
          | P_thread_updated p \<Rightarrow> patch_thread (de_seq e) p thread
          | P_agent_created a \<Rightarrow>
              if a_origin (fst a) = Root then thread\<lparr>th_rootAgentId := Some (a_id (fst a))\<rparr> else thread
          | _ \<Rightarrow> thread)
      in if isSidebarEvent e then t1\<lparr>th_updatedAt := de_at e\<rparr> else t1)"

subsection \<open>Usage (usage.ts)\<close>

definition length_prefixed :: "string \<Rightarrow> string" where
  "length_prefixed x = decimal (utf16Length x) @ '':'' @ x"

definition string_field :: "fields \<Rightarrow> string \<Rightarrow> string \<Rightarrow> string" where
  "string_field p k dflt = given (Option.bind (get p k) asString) dflt"

definition usageSnapshotKey :: "ident \<Rightarrow> fields \<Rightarrow> string" where
  "usageSnapshotKey agentId p = length_prefixed agentId @ length_prefixed (string_field p ''usageScope'' ''agent'') @
     length_prefixed (string_field p ''counterKey'' []) @ length_prefixed (string_field p ''model'' [])"

definition session_scope :: "fields \<Rightarrow> bool" where
  "session_scope p \<longleftrightarrow> get p ''usageScope'' \<in> {Some (JStr ''provider_session''), Some (JStr ''model_session'')}"

subsection \<open>Folding an event into a view (index.ts)\<close>

definition fold_agent_created :: "agent entry \<Rightarrow> thread_view \<Rightarrow> thread_view" where
  "fold_agent_created a v =
     (let i = a_id (fst a);
          v1 = reparentAgent i (Option.bind (get (v_agents v) i) (\<lambda>b. a_parentId (fst b))) (a_parentId (fst a)) v
      in v1\<lparr>v_agents := put (v_agents v1) i a\<rparr>)"

definition fold_agent_status :: "ident \<Rightarrow> agent_status \<Rightarrow> thread_view \<Rightarrow> thread_view" where
  "fold_agent_status i st v = v\<lparr>v_agents := modify (v_agents v) i (\<lambda>(a, rest). (a\<lparr>a_status := st\<rparr>, rest))\<rparr>"

definition fold_agent_updated :: "ident \<Rightarrow> agent_update \<Rightarrow> fields \<Rightarrow> thread_view \<Rightarrow> thread_view" where
  "fold_agent_updated i u extra v = (case get (v_agents v) i of
       None \<Rightarrow> v
     | Some (a, rest) \<Rightarrow>
         let v1 = (case u_parentId u of None \<Rightarrow> v | Some p \<Rightarrow> reparentAgent i (a_parentId a) p v)
         in v1\<lparr>v_agents := put (v_agents v1) i (apply_update u a, spread rest extra)\<rparr>)"

definition end_run :: "run_state \<Rightarrow> bool \<Rightarrow> timestamp \<Rightarrow> json option \<Rightarrow> run_trigger option \<Rightarrow> run entry \<Rightarrow> run entry" where
  "end_run st steer t err tr = (\<lambda>(r, rest).
     (r\<lparr>run_state := st, run_endedBy_steer := (steer \<or> run_endedBy_steer r), run_endedAt := Some t,
        run_trigger := given tr (run_trigger r)\<rparr>,
      (case err of None \<Rightarrow> rest | Some e \<Rightarrow> put rest ''error'' e)))"

text \<open>\<open>item.created\<close> and \<open>item.updated\<close>; an update outside a bounded window is dropped.\<close>

definition fold_item :: "bool \<Rightarrow> item \<Rightarrow> thread_view \<Rightarrow> thread_view" where
  "fold_item updated i v =
     (if updated \<and> v_itemsBefore v \<noteq> None \<and> \<not> has (v_items v) (item_id i) then v
      else case get (v_items v) (item_id i) of
        None \<Rightarrow> v\<lparr>v_itemOrder := v_itemOrder v @ [item_id i], v_items := put (v_items v) (item_id i) i\<rparr>
      | Some previous \<Rightarrow> v\<lparr>v_items := put (v_items v) (item_id i) (i\<lparr>item_createdAt := item_createdAt previous\<rparr>)\<rparr>)"

definition fold_item_deleted :: "ident \<Rightarrow> thread_view \<Rightarrow> thread_view" where
  "fold_item_deleted i v = v\<lparr>v_items := del (v_items v) i, v_itemOrder := filter (\<lambda>j. j \<noteq> i) (v_itemOrder v)\<rparr>"

definition fold_delta :: "ident \<Rightarrow> delta_field \<Rightarrow> string \<Rightarrow> thread_view \<Rightarrow> thread_view" where
  "fold_delta i fld added v = v\<lparr>v_items := modify (v_items v) i (\<lambda>item. given (applyDelta item fld added) item)\<rparr>"

definition close_interaction :: "interaction_state \<Rightarrow> timestamp \<Rightarrow> json option \<Rightarrow> interaction_resolution option \<Rightarrow>
    ident option \<Rightarrow> bool option \<Rightarrow> interaction entry \<Rightarrow> interaction entry" where
  "close_interaction st t expirationReason resolution resolvedBy autoReviewed = (\<lambda>(x, rest).
     (x\<lparr>int_state := st, int_closedAt := Some t, int_resolution := orelse resolution (int_resolution x),
        int_resolvedBy := orelse resolvedBy (int_resolvedBy x), int_autoReviewed := orelse autoReviewed (int_autoReviewed x)\<rparr>,
      (case expirationReason of None \<Rightarrow> rest | Some e \<Rightarrow> put rest ''expirationReason'' e)))"

definition update_task :: "task_status \<Rightarrow> timestamp option \<Rightarrow> background_task \<Rightarrow> background_task" where
  "update_task st t task = task\<lparr>task_status := st, task_endedAt := orelse t (task_endedAt task)\<rparr>"

text \<open>\<open>input.admitted\<close>: the native id of the message a command put into the transcript.\<close>

definition admit_input :: "ident \<Rightarrow> string \<Rightarrow> item \<Rightarrow> item" where
  "admit_input agentId nativeInputId i = (case item_body i of
       Message _ _ \<Rightarrow>
         if item_agentId i = agentId then i\<lparr>item_rest := put (item_rest i) ''nativeId'' (JStr nativeInputId)\<rparr> else i
     | _ \<Rightarrow> i)"

definition fold_input_admitted :: "ident \<Rightarrow> string \<Rightarrow> string option \<Rightarrow> thread_view \<Rightarrow> thread_view" where
  "fold_input_admitted agentId nativeInputId commandId v =
     (if \<not> id_present commandId then v
      else v\<lparr>v_items := modify (v_items v) (''input:'' @ the commandId) (admit_input agentId nativeInputId)\<rparr>)"

definition fold_usage :: "ident \<Rightarrow> fields \<Rightarrow> thread_view \<Rightarrow> thread_view" where
  "fold_usage agentId p v =
     (if session_scope p then v\<lparr>v_usageSnapshots := put (v_usageSnapshots v) (usageSnapshotKey agentId p) p\<rparr>
      else v\<lparr>v_usage := put (v_usage v) agentId p\<rparr>)"

fun fold_payload :: "timestamp \<Rightarrow> payload \<Rightarrow> thread_view \<Rightarrow> thread_view" where
  "fold_payload t (P_thread_created thread) v = v\<lparr>v_thread := thread\<lparr>th_updatedAt := t\<rparr>\<rparr>"
| "fold_payload t (P_agent_created a) v = fold_agent_created a v"
| "fold_payload t (P_agent_status i st) v = fold_agent_status i st v"
| "fold_payload t (P_agent_updated i u extra) v = fold_agent_updated i u extra v"
| "fold_payload t (P_run_client_updated i checkpoints) v =
     v\<lparr>v_runs := modify (v_runs v) i (\<lambda>(r, rest). (r, put rest ''checkpoints'' checkpoints))\<rparr>"
| "fold_payload t (P_run_started r) v = v\<lparr>v_runs := put (v_runs v) (run_id (fst r)) r\<rparr>"
| "fold_payload t (P_run_ended i st steer endedAt err tr) v =
     v\<lparr>v_runs := modify (v_runs v) i (end_run st steer endedAt err tr)\<rparr>"
| "fold_payload t (P_item_created i) v = fold_item False i v"
| "fold_payload t (P_item_updated i) v = fold_item True i v"
| "fold_payload t (P_item_deleted i) v = fold_item_deleted i v"
| "fold_payload t (P_item_delta i agentId fld added) v = fold_delta i fld added v"
| "fold_payload t (P_interaction_opened x) v = v\<lparr>v_interactions := put (v_interactions v) (int_id (fst x)) x\<rparr>"
| "fold_payload t (P_interaction_closed i st closedAt expirationReason resolution resolvedBy autoReviewed) v =
     v\<lparr>v_interactions := modify (v_interactions v) i
       (close_interaction st closedAt expirationReason resolution resolvedBy autoReviewed)\<rparr>"
| "fold_payload t (P_task_started task) v = v\<lparr>v_backgroundTasks := put (v_backgroundTasks v) (task_id task) task\<rparr>"
| "fold_payload t (P_task_updated i st endedAt) v =
     v\<lparr>v_backgroundTasks := modify (v_backgroundTasks v) i (update_task st endedAt)\<rparr>"
| "fold_payload t (P_queue_updated queue) v = v\<lparr>v_queue := Some queue\<rparr>"
| "fold_payload t (P_context_meter_updated i meter) v = v\<lparr>v_contextMeters := put (v_contextMeters v) i meter\<rparr>"
| "fold_payload t (P_input_admitted i nativeInputId commandId) v = fold_input_admitted i nativeInputId commandId v"
| "fold_payload t (P_usage_updated i p) v = fold_usage i p v"
| "fold_payload t (P_thread_updated _) v = v"
| "fold_payload t (P_thread_client_updated _) v = v"
| "fold_payload t (P_context_sampled _ _) v = v"
| "fold_payload t P_workspace_files_changed v = v"
| "fold_payload t P_unknown v = v"

definition foldEvent :: "delivery_event \<Rightarrow> thread_view \<Rightarrow> thread_view option" where
  "foldEvent e v =
     (if de_threadId e \<noteq> th_id (v_thread v) then None
      else Some (fold_payload (de_at e) (de_payload e) (v\<lparr>v_thread := updateThread e (v_thread v)\<rparr>)))"

subsection \<open>The list of threads (index.ts)\<close>

definition foldThreadList :: "delivery_event \<Rightarrow> thread_list_view \<Rightarrow> thread_list_view" where
  "foldThreadList e l =
     (let d1 = (case de_payload e of
            P_thread_created thread \<Rightarrow> put (l_threads l) (de_threadId e) (sidebarEntry thread)
          | _ \<Rightarrow> l_threads l);
          d2 = (if isSidebarEvent e then modify d1 (de_threadId e) (updateThread e) else d1)
      in l\<lparr>l_threads := (case get d2 (de_threadId e) of
            None \<Rightarrow> d2
          | Some thread \<Rightarrow> if deleted thread then del d2 (de_threadId e) else d2)\<rparr>)"

subsection \<open>Delivery (index.ts)\<close>

definition first_seq :: "delivery_event \<Rightarrow> nat" where
  "first_seq e = given (de_firstSeq e) (de_seq e)"

text \<open>\<open>advance\<close>: the answer and, when it is \<^const>\<open>Applied\<close>, the new position.\<close>

definition advance :: "nat \<Rightarrow> delivery_event \<Rightarrow> apply_result" where
  "advance seq e =
     (if de_seq e \<le> seq then Ignored
      else if first_seq e \<noteq> seq + 1 then Gap (seq + 1) (first_seq e)
      else Applied)"

definition applyThreadListEvent :: "delivery_event \<Rightarrow> thread_list_view \<Rightarrow> apply_result \<times> thread_list_view" where
  "applyThreadListEvent e l =
     (let result = advance (l_seq l) e in
      if result \<noteq> Applied then (result, l) else (result, foldThreadList e (l\<lparr>l_seq := de_seq e\<rparr>)))"

definition applyEvent :: "delivery_event \<Rightarrow> thread_view \<Rightarrow> (apply_result \<times> thread_view) option" where
  "applyEvent e v =
     (if de_threadId e \<noteq> th_id (v_thread v) then Some (Gap (v_seq v + 1) (first_seq e), v)
      else
        let result = advance (v_seq v) e in
        if result \<noteq> Applied then Some (result, v)
        else map_option (Pair result) (foldEvent e (v\<lparr>v_seq := de_seq e\<rparr>)))"

datatype snapshot_view = Thread_view thread_view | Threads_view thread_list_view

datatype delivery =
    Event_batch (d_after: nat) (d_through: nat) (d_events: "delivery_event list")
  | Progress (d_after: nat) (d_through: nat)

fun delivery_events :: "delivery \<Rightarrow> delivery_event list" where
  "delivery_events (Event_batch _ _ events) = events"
| "delivery_events (Progress _ _) = []"

fun view_seq :: "snapshot_view \<Rightarrow> nat" where
  "view_seq (Thread_view v) = v_seq v"
| "view_seq (Threads_view l) = l_seq l"

fun in_scope :: "snapshot_view \<Rightarrow> delivery_event \<Rightarrow> bool" where
  "in_scope (Thread_view v) e \<longleftrightarrow> de_threadId e = th_id (v_thread v)"
| "in_scope (Threads_view l) e \<longleftrightarrow> isSidebarEvent e"

text \<open>The first loop: every range is validated before any event is applied.\<close>

fun check_events :: "snapshot_view \<Rightarrow> nat \<Rightarrow> nat \<Rightarrow> delivery_event list \<Rightarrow> apply_result" where
  "check_events sv through prev [] = Applied"
| "check_events sv through prev (e # es) =
     (if first_seq e \<le> prev \<or> first_seq e > de_seq e \<or> de_seq e > through then Gap (prev + 1) (first_seq e)
      else if \<not> in_scope sv e then Gap (prev + 1) (first_seq e)
      else check_events sv through (de_seq e) es)"

fun fold_view :: "delivery_event \<Rightarrow> snapshot_view \<Rightarrow> snapshot_view option" where
  "fold_view e (Thread_view v) = map_option Thread_view (foldEvent e v)"
| "fold_view e (Threads_view l) = Some (Threads_view (foldThreadList e l))"

fun set_seq :: "nat \<Rightarrow> snapshot_view \<Rightarrow> snapshot_view" where
  "set_seq n (Thread_view v) = Thread_view (v\<lparr>v_seq := n\<rparr>)"
| "set_seq n (Threads_view l) = Threads_view (l\<lparr>l_seq := n\<rparr>)"

definition applyDelivery :: "delivery \<Rightarrow> snapshot_view \<Rightarrow> (apply_result \<times> snapshot_view) option" where
  "applyDelivery m sv =
     (if d_through m \<le> view_seq sv then Some (Ignored, sv)
      else if d_after m \<noteq> view_seq sv then Some (Gap (view_seq sv) (d_after m), sv)
      else
        let result = check_events sv (d_through m) (d_after m) (delivery_events m) in
        if result \<noteq> Applied then Some (result, sv)
        else map_option (\<lambda>sv'. (Applied, set_seq (d_through m) sv')) (foldM fold_view (delivery_events m) sv))"

end
