(* ===== verification/Projection_Mirror.thy ===== *)
theory Projection_Mirror
  imports Projection Core_Reduce_Inv
begin

text \<open>
  What it means that a client's view shows the state of the core, and how one event moves the view.
  The core keys agents, items, interactions and tasks by native keys, a view by identities; the
  relation \<open>mirrored\<close> says that every entity of the core is in the view under its identity, that
  identities do not clash, and that the view holds nothing else. It is stated once and used for the
  five kinds of entity.
\<close>

subsection \<open>The payload of an emitted event\<close>

fun payload_of :: "event \<Rightarrow> payload" where
  "payload_of (Agent_created a) = P_agent_created (a, [])"
| "payload_of (Agent_status_changed i st rel) = P_agent_status i st"
| "payload_of (Agent_updated i u) = P_agent_updated i u []"
| "payload_of (Input_admitted i n c) = P_input_admitted i n c"
| "payload_of (Run_started r) = P_run_started (r, [])"
| "payload_of (Run_ended i st steer t tr) = P_run_ended i st steer t None tr"
| "payload_of (Item_created i) = P_item_created i"
| "payload_of (Item_updated i) = P_item_updated i"
| "payload_of (Item_delta i a fld s) = P_item_delta i a fld s"
| "payload_of (Interaction_opened x) = P_interaction_opened (x, [])"
| "payload_of (Interaction_closed i st t res resolvedBy auto_reviewed) =
     P_interaction_closed i st t None res resolvedBy auto_reviewed"
| "payload_of (Background_task_started task) = P_task_started task"
| "payload_of (Background_task_updated i st t) = P_task_updated i st (Some t)"
| "payload_of (Thread_updated st) = P_thread_updated \<lparr>tp_status = Some st, tp_rest = []\<rparr>"
| "payload_of (Usage_updated i p) = P_usage_updated i p"
| "payload_of (Context_sampled i p) = P_context_sampled i p"

text \<open>The event as the log would stamp it; position and time do not matter to the entities.\<close>

definition stamped :: "event \<Rightarrow> thread_view \<Rightarrow> delivery_event" where
  "stamped e v = \<lparr>de_seq = 0, de_firstSeq = None, de_at = 0, de_threadId = th_id (v_thread v), de_payload = payload_of e\<rparr>"

definition show_event :: "event \<Rightarrow> thread_view \<Rightarrow> thread_view" where
  "show_event e v = fold_payload 0 (payload_of e) (v\<lparr>v_thread := updateThread (stamped e v) (v_thread v)\<rparr>)"

subsection \<open>What one event changes\<close>

lemma reparentAgent_frame [simp]:
  "v_agents (reparentAgent i p q v) = v_agents v" "v_runs (reparentAgent i p q v) = v_runs v"
  "v_items (reparentAgent i p q v) = v_items v" "v_interactions (reparentAgent i p q v) = v_interactions v"
  "v_backgroundTasks (reparentAgent i p q v) = v_backgroundTasks v" "v_thread (reparentAgent i p q v) = v_thread v"
  by (simp_all add: reparentAgent_def)

lemmas fold_defs = fold_agent_created_def fold_agent_status_def fold_agent_updated_def fold_item_def
  fold_item_deleted_def fold_delta_def fold_input_admitted_def fold_usage_def

lemma show_event_frame:
  "v_runs (show_event e v) = (case e of Run_started r \<Rightarrow> put (v_runs v) (run_id r) (r, [])
     | Run_ended i st steer t tr \<Rightarrow> modify (v_runs v) i (end_run st steer t None tr) | _ \<Rightarrow> v_runs v)"
  "v_interactions (show_event e v) = (case e of Interaction_opened x \<Rightarrow> put (v_interactions v) (int_id x) (x, [])
     | Interaction_closed i st t res b a \<Rightarrow> modify (v_interactions v) i (close_interaction st t None res b a)
     | _ \<Rightarrow> v_interactions v)"
  "v_backgroundTasks (show_event e v) = (case e of
       Background_task_started task \<Rightarrow> put (v_backgroundTasks v) (task_id task) task
     | Background_task_updated i st t \<Rightarrow> modify (v_backgroundTasks v) i (update_task st (Some t))
     | _ \<Rightarrow> v_backgroundTasks v)"
  "th_status (v_thread (show_event e v)) = (case e of Thread_updated st \<Rightarrow> st | _ \<Rightarrow> th_status (v_thread v))"
  by (cases e; simp add: show_event_def fold_defs Let_def updateThread_def stamped_def isSidebarEvent_def patch_thread_def
      split: option.split prod.split)+

lemma show_event_agents:
  "v_agents (show_event e v) = (case e of Agent_created a \<Rightarrow> put (v_agents v) (a_id a) (a, [])
     | Agent_status_changed i st rel \<Rightarrow> modify (v_agents v) i (\<lambda>(a, rest). (a\<lparr>a_status := st\<rparr>, rest))
     | Agent_updated i u \<Rightarrow> modify (v_agents v) i (\<lambda>(a, rest). (apply_update u a, rest))
     | _ \<Rightarrow> v_agents v)"
  by (cases e; simp add: show_event_def fold_defs Let_def modify_def spread_def split: option.split prod.split)

lemma show_event_items:
  "v_items (show_event e v) = (case e of Item_created i \<Rightarrow> v_items (fold_item False i v)
     | Item_updated i \<Rightarrow> v_items (fold_item True i v)
     | Item_delta i a fld s \<Rightarrow> v_items (fold_delta i fld s v)
     | Input_admitted i n c \<Rightarrow> v_items (fold_input_admitted i n c v)
     | _ \<Rightarrow> v_items v)"
  by (cases e; simp add: show_event_def fold_defs Let_def split: option.split prod.split)

lemma show_event_thread: "th_id (v_thread (show_event e v)) = th_id (v_thread v)"
  by (cases e; simp add: show_event_def fold_defs Let_def updateThread_def stamped_def isSidebarEvent_def patch_thread_def
      split: option.split prod.split)

definition replayed :: "thread_view \<Rightarrow> event list \<Rightarrow> thread_view" where
  "replayed v es = fold show_event es v"

lemma replayed_simps [simp]:
  "replayed v [] = v" "replayed v (es @ es') = replayed (replayed v es) es'" "replayed v [e] = show_event e v"
  by (simp_all add: replayed_def)

subsection \<open>Entities under their identities\<close>

definition mirrored :: "(nat \<Rightarrow> ident) \<Rightarrow> nat \<Rightarrow> ('x \<Rightarrow> ident) \<Rightarrow> ('y \<Rightarrow> 'x \<Rightarrow> bool) \<Rightarrow>
    (key \<Rightarrow> 'x option) \<Rightarrow> (ident \<Rightarrow> 'x option) \<Rightarrow> 'y dict \<Rightarrow> bool" where
  "mirrored g n idf R d h v \<longleftrightarrow>
     (\<forall>k x. d k = Some x \<longrightarrow> idf x \<in> g ` {..<n} \<and> (\<exists>y. get v (idf x) = Some y \<and> R y x)) \<and>
     (\<forall>k k' x x'. d k = Some x \<longrightarrow> d k' = Some x' \<longrightarrow> idf x = idf x' \<longrightarrow> k = k') \<and>
     (\<forall>i x. h i = Some x \<longrightarrow> i \<in> g ` {..<n} \<and>
        ((\<forall>k x'. d k = Some x' \<longrightarrow> idf x' \<noteq> i) \<longrightarrow> (\<exists>y. get v i = Some y \<and> R y x))) \<and>
     (\<forall>i. has v i \<longrightarrow> h i \<noteq> None \<or> (\<exists>k x. d k = Some x \<and> idf x = i))"

lemma mirroredD:
  assumes "mirrored g n idf R d h v"
  shows "d k = Some x \<Longrightarrow> \<exists>y. get v (idf x) = Some y \<and> R y x"
    and "d k = Some x \<Longrightarrow> idf x \<in> g ` {..<n}"
    and "d k = Some x \<Longrightarrow> d k' = Some x' \<Longrightarrow> idf x = idf x' \<Longrightarrow> k = k'"
    and "h i = Some z \<Longrightarrow> i \<in> g ` {..<n}"
    and "h i = Some z \<Longrightarrow> \<forall>k x'. d k = Some x' \<longrightarrow> idf x' \<noteq> i \<Longrightarrow> \<exists>y. get v i = Some y \<and> R y z"
    and "has v i \<Longrightarrow> h i \<noteq> None \<or> (\<exists>k x. d k = Some x \<and> idf x = i)"
  using assms unfolding mirrored_def by blast+

lemma mirrored_mono: "mirrored g n idf R d h v \<Longrightarrow> n \<le> n' \<Longrightarrow> mirrored g n' idf R d h v"
  unfolding mirrored_def by (auto 0 4 simp: image_iff intro: less_le_trans)

lemma mirrored_fresh:
  assumes "mirrored g n idf R d h v" "inj g" "n \<le> m"
  shows "get v (g m) = None" "d k = Some x \<Longrightarrow> idf x \<noteq> g m"
proof -
  have range: "g m \<notin> g ` {..<n}" using assms(2,3) by (auto dest: injD)
  with mirroredD(2) [OF assms(1)] show "idf x \<noteq> g m" if "d k = Some x" using that by metis
  from range mirroredD(2,4,6) [OF assms(1)] show "get v (g m) = None" by (metis has_def not_None_eq)
qed

lemma mirrored_update:
  assumes m: "mirrored g n idf R d h v" and x: "d k = Some x" and i: "idf x' = idf x"
    and y: "get v' (idf x) = Some y" "R y x'" and other: "\<And>j. j \<noteq> idf x \<Longrightarrow> get v' j = get v j"
  shows "mirrored g n idf R (d(k \<mapsto> x')) h v'"
proof -
  have sameids: "(\<exists>k' z. (d(k \<mapsto> x')) k' = Some z \<and> idf z = j) \<longleftrightarrow> (\<exists>k' z. d k' = Some z \<and> idf z = j)" for j
    using x i by (metis fun_upd_apply option.inject)
  have A: "idf z \<in> g ` {..<n} \<and> (\<exists>y. get v' (idf z) = Some y \<and> R y z)" if z: "(d(k \<mapsto> x')) k' = Some z" for k' z
  proof (cases "k' = k")
    case True
    with z y i mirroredD(2) [OF m x] show ?thesis by auto
  next
    case False
    with z have "d k' = Some z" by simp
    moreover from this False have "idf z \<noteq> idf x" using mirroredD(3) [OF m x] by metis
    ultimately show ?thesis using mirroredD(1,2) [OF m] other by metis
  qed
  have B: "k1 = k2" if z: "(d(k \<mapsto> x')) k1 = Some z1" "(d(k \<mapsto> x')) k2 = Some z2" "idf z1 = idf z2" for k1 k2 z1 z2
  proof -
    obtain u1 u2 where "d k1 = Some u1" "d k2 = Some u2" "idf u1 = idf z1" "idf u2 = idf z2"
      using z(1,2) x i by (metis fun_upd_apply option.inject)
    with z(3) mirroredD(3) [OF m] show ?thesis by metis
  qed
  have C: "j \<in> g ` {..<n} \<and> ((\<forall>k' z. (d(k \<mapsto> x')) k' = Some z \<longrightarrow> idf z \<noteq> j) \<longrightarrow> (\<exists>y. get v' j = Some y \<and> R y u))"
    if h: "h j = Some u" for j u
  proof (intro conjI impI)
    show "j \<in> g ` {..<n}" using mirroredD(4) [OF m h] .
    assume "\<forall>k' z. (d(k \<mapsto> x')) k' = Some z \<longrightarrow> idf z \<noteq> j"
    then have *: "\<forall>k' z. d k' = Some z \<longrightarrow> idf z \<noteq> j" using sameids by blast
    then have "j \<noteq> idf x" using x by metis
    with * mirroredD(5) [OF m h] other show "\<exists>y. get v' j = Some y \<and> R y u" by simp
  qed
  have D: "h j \<noteq> None \<or> (\<exists>k' z. (d(k \<mapsto> x')) k' = Some z \<and> idf z = j)" if "has v' j" for j
  proof (cases "j = idf x")
    case True with sameids x show ?thesis by blast
  next
    case False
    with that other have "has v j" by (simp add: has_def)
    with mirroredD(6) [OF m] sameids show ?thesis by blast
  qed
  show ?thesis unfolding mirrored_def using A B C D by blast
qed

text \<open>A new entity gets the next identity; one it replaces under its key must be in the history.\<close>

lemma mirrored_new:
  assumes m: "mirrored g n idf R d h v" and g: "inj g" and i: "idf x = g n" and y: "R y x"
    and old: "\<And>x0. d k = Some x0 \<Longrightarrow> h (idf x0) = Some x0"
  shows "mirrored g (Suc n) idf R (d(k \<mapsto> x)) h (put v (g n) y)"
proof -
  have m': "mirrored g (Suc n) idf R d h v" by (rule mirrored_mono [OF m]) simp
  have neq: "idf z \<noteq> g n" if "d k' = Some z" for k' z using mirrored_fresh(2) [OF m g order.refl that] .
  have hneq: "j \<noteq> g n" if "h j = Some u" for j u
    using mirroredD(4) [OF m that] g by (auto dest: injD)
  have A: "idf z \<in> g ` {..<Suc n} \<and> (\<exists>y'. get (put v (g n) y) (idf z) = Some y' \<and> R y' z)"
    if z: "(d(k \<mapsto> x)) k' = Some z" for k' z
  proof (cases "k' = k")
    case False
    with z have "d k' = Some z" by simp
    with neq mirroredD(1,2) [OF m'] show ?thesis by (metis get_put)
  qed (use z i y in auto)
  have B: "k1 = k2" if z: "(d(k \<mapsto> x)) k1 = Some z1" "(d(k \<mapsto> x)) k2 = Some z2" "idf z1 = idf z2" for k1 k2 z1 z2
  proof (cases "k1 = k \<or> k2 = k")
    case True
    with z i neq show ?thesis by (metis fun_upd_apply option.inject)
  next
    case False
    with z mirroredD(3) [OF m] show ?thesis by (metis fun_upd_apply)
  qed
  have C: "j \<in> g ` {..<Suc n} \<and> ((\<forall>k' z. (d(k \<mapsto> x)) k' = Some z \<longrightarrow> idf z \<noteq> j) \<longrightarrow> (\<exists>y'. get (put v (g n) y) j = Some y' \<and> R y' u))"
    if h: "h j = Some u" for j u
  proof (intro conjI impI)
    show "j \<in> g ` {..<Suc n}" using mirroredD(4) [OF m' h] .
    assume *: "\<forall>k' z. (d(k \<mapsto> x)) k' = Some z \<longrightarrow> idf z \<noteq> j"
    have "\<exists>y'. get v j = Some y' \<and> R y' u"
    proof (cases "\<exists>x0. d k = Some x0 \<and> idf x0 = j")
      case True
      then obtain x0 where x0: "d k = Some x0" "idf x0 = j" by blast
      with old h have "u = x0" by fastforce
      with x0 mirroredD(1) [OF m x0(1)] show ?thesis by simp
    next
      case False
      with * have "\<forall>k' z. d k' = Some z \<longrightarrow> idf z \<noteq> j" by (metis fun_upd_other)
      with mirroredD(5) [OF m h] show ?thesis by simp
    qed
    with hneq [OF h] show "\<exists>y'. get (put v (g n) y) j = Some y' \<and> R y' u" by auto
  qed
  have D: "h j \<noteq> None \<or> (\<exists>k' z. (d(k \<mapsto> x)) k' = Some z \<and> idf z = j)" if "has (put v (g n) y) j" for j
  proof (cases "j = g n")
    case True
    with i show ?thesis by (metis fun_upd_same)
  next
    case False
    with that have "has v j" by simp
    from mirroredD(6) [OF m this] consider "h j \<noteq> None" | k' z where "d k' = Some z" "idf z = j" by blast
    then show ?thesis
    proof cases
      case 2
      show ?thesis
      proof (cases "k' = k")
        case True with 2 old show ?thesis by force
      next
        case False with 2 show ?thesis by (metis fun_upd_other)
      qed
    qed simp
  qed
  show ?thesis unfolding mirrored_def using A B C D by blast
qed

text \<open>Putting an entity into the history while it is still current.\<close>

lemma mirrored_history:
  assumes m: "mirrored g n idf R d h v" and "d k = Some x"
  shows "mirrored g n idf R d (h(idf x \<mapsto> x)) v"
  using assms mirroredD(2) [OF assms] unfolding mirrored_def by (auto split: if_splits)

subsection \<open>The view shows the state\<close>

text \<open>An item of the view is the core's, up to the running summary of a shell's output: the view
  folds the pieces of an output, the core the whole.\<close>

definition plain :: "item \<Rightarrow> item" where
  "plain = set_detail (\<lambda>d. d\<lparr>det_output := None\<rparr>)"

definition no_history :: "ident \<Rightarrow> 'x option" where
  "no_history i = None"

definition agents_shown :: "(id_kind \<Rightarrow> nat \<Rightarrow> ident) \<Rightarrow> thread_view \<Rightarrow> world \<Rightarrow> bool" where
  "agents_shown gen v w \<longleftrightarrow> mirrored (gen Id_agent) (w_seq w) a_id (\<lambda>y a. fst y = a) (agent_of w) no_history (v_agents v)"

definition run_facts :: "ident \<Rightarrow> run \<Rightarrow> bool" where
  "run_facts i r \<longleftrightarrow> run_id r = i \<and> (run_state r \<noteq> Run_active \<longrightarrow> run_endedAt r \<noteq> None)"

definition runs_shown :: "(id_kind \<Rightarrow> nat \<Rightarrow> ident) \<Rightarrow> thread_view \<Rightarrow> world \<Rightarrow> bool" where
  "runs_shown gen v w \<longleftrightarrow>
     mirrored (gen Id_run) (w_seq w) run_id (\<lambda>y r. fst y = r) (get (st_runs w)) no_history (v_runs v) \<and>
     (\<forall>i r. get (st_runs w) i = Some r \<longrightarrow> run_facts i r)"

definition items_shown :: "(id_kind \<Rightarrow> nat \<Rightarrow> ident) \<Rightarrow> thread_view \<Rightarrow> world \<Rightarrow> bool" where
  "items_shown gen v w \<longleftrightarrow>
     mirrored (gen Id_item) (w_seq w) item_id (\<lambda>y i. plain y = plain i) (get (st_items w)) no_history (v_items v)"

definition interactions_shown :: "(id_kind \<Rightarrow> nat \<Rightarrow> ident) \<Rightarrow> thread_view \<Rightarrow> world \<Rightarrow> bool" where
  "interactions_shown gen v w \<longleftrightarrow> mirrored (gen Id_interaction) (w_seq w) int_id (\<lambda>y x. fst y = x)
     (get (st_interactions w)) (get (st_interactionHistory w)) (v_interactions v)"

definition tasks_shown :: "(id_kind \<Rightarrow> nat \<Rightarrow> ident) \<Rightarrow> thread_view \<Rightarrow> world \<Rightarrow> bool" where
  "tasks_shown gen v w \<longleftrightarrow> mirrored (gen Id_task) (w_seq w) task_id (=)
     (get (st_tasks w)) (get (st_taskHistory w)) (v_backgroundTasks v)"

definition shown :: "(id_kind \<Rightarrow> nat \<Rightarrow> ident) \<Rightarrow> thread_view \<Rightarrow> world \<Rightarrow> bool" where
  "shown gen v w \<longleftrightarrow> agents_shown gen v w \<and> runs_shown gen v w \<and> items_shown gen v w \<and>
     interactions_shown gen v w \<and> tasks_shown gen v w \<and> th_status (v_thread v) = st_status w"

lemmas shown_defs = agents_shown_def runs_shown_def items_shown_def interactions_shown_def tasks_shown_def

text \<open>The identities of items must not look like those of the messages a client sends: a view
  attaches the native id of an admitted input to the item \<open>input:<command>\<close>.\<close>

locale view_source = id_source gen for gen :: "id_kind \<Rightarrow> nat \<Rightarrow> ident" +
  assumes no_input_id: "gen Id_item n \<noteq> ''input:'' @ c"

definition sim :: "(id_kind \<Rightarrow> nat \<Rightarrow> ident) \<Rightarrow> world \<Rightarrow> world \<Rightarrow> bool" where
  "sim gen w w' \<longleftrightarrow> (\<forall>v. shown gen (replayed v (w_events w)) w \<longrightarrow> shown gen (replayed v (w_events w')) w')"

lemma sim_refl [simp]: "sim gen w w"
  by (simp add: sim_def)

lemma sim_trans: "sim gen w w' \<Longrightarrow> sim gen w' w'' \<Longrightarrow> sim gen w w''"
  by (simp add: sim_def)

lemma simI: "(\<And>v. shown gen (replayed v (w_events w)) w \<Longrightarrow> shown gen (replayed v (w_events w')) w') \<Longrightarrow> sim gen w w'"
  by (simp add: sim_def)

lemma sim_fold: "(\<And>x w. sim gen w (f x w)) \<Longrightarrow> sim gen w (fold f xs w)"
  by (induction xs arbitrary: w) (auto intro: sim_trans)

text \<open>What the entities of the other kinds are, for an operation that does not touch them.\<close>

definition others :: "world \<Rightarrow> interaction dict \<times> interaction dict \<times> background_task dict \<times> background_task dict" where
  "others w = (st_interactions w, st_interactionHistory w, st_tasks w, st_taskHistory w)"

definition item_sim :: "(id_kind \<Rightarrow> nat \<Rightarrow> ident) \<Rightarrow> world \<Rightarrow> world \<Rightarrow> bool" where
  "item_sim gen w w' \<longleftrightarrow> sim gen w w' \<and> others w' = others w"

lemma item_sim_refl [simp]: "item_sim gen w w"
  by (simp add: item_sim_def)

lemma item_sim_trans: "item_sim gen w w' \<Longrightarrow> item_sim gen w' w'' \<Longrightarrow> item_sim gen w w''"
  by (auto simp: item_sim_def intro: sim_trans)

lemma item_simD: "item_sim gen w w' \<Longrightarrow> sim gen w w'"
  by (simp add: item_sim_def)

lemma item_sim_fold: "(\<And>x w. item_sim gen w (f x w)) \<Longrightarrow> item_sim gen w (fold f xs w)"
  by (induction xs arbitrary: w) (auto intro: item_sim_trans)

lemma item_sim_foldM:
  assumes "foldM f xs w = Some w'" and "\<And>x w w'. f x w = Some w' \<Longrightarrow> item_sim gen w w'"
  shows "item_sim gen w w'"
  using assms(1)
  by (rule foldM_invariant [where I = "item_sim gen w"]) (auto intro: item_sim_trans assms(2))

text \<open>The operations on the tree change agents only, and emit events of agents only.\<close>

fun agent_event :: "event \<Rightarrow> bool" where
  "agent_event (Agent_created _) = True"
| "agent_event (Agent_status_changed _ _ _) = True"
| "agent_event (Agent_updated _ _) = True"
| "agent_event _ = False"

definition tree_sim :: "(id_kind \<Rightarrow> nat \<Rightarrow> ident) \<Rightarrow> world \<Rightarrow> world \<Rightarrow> bool" where
  "tree_sim gen w w' \<longleftrightarrow>
     (\<exists>es. w_events w' = w_events w @ es \<and> list_all agent_event es) \<and> others w' = others w \<and>
     st_runs w' = st_runs w \<and> st_items w' = st_items w \<and> st_status w' = st_status w \<and> w_seq w \<le> w_seq w' \<and>
     (\<forall>v. agents_shown gen (replayed v (w_events w)) w \<longrightarrow> agents_shown gen (replayed v (w_events w')) w')"

lemma tree_sim_refl [simp]: "tree_sim gen w w"
  by (simp add: tree_sim_def)

lemma tree_sim_trans:
  assumes "tree_sim gen w w'" "tree_sim gen w' w''"
  shows "tree_sim gen w w''"
proof -
  obtain es es' where "w_events w' = w_events w @ es" "w_events w'' = w_events w' @ es'" "list_all agent_event (es @ es')"
    using assms by (auto simp: tree_sim_def)
  with assms show ?thesis unfolding tree_sim_def by (intro conjI exI [of _ "es @ es'"]) auto
qed

lemma tree_sim_fold: "(\<And>x w. tree_sim gen w (f x w)) \<Longrightarrow> tree_sim gen w (fold f xs w)"
  by (induction xs arbitrary: w) (auto intro: tree_sim_trans)

lemma replayed_agent_events:
  assumes "list_all agent_event es"
  shows "v_runs (replayed v es) = v_runs v" "v_items (replayed v es) = v_items v"
    "v_interactions (replayed v es) = v_interactions v" "v_backgroundTasks (replayed v es) = v_backgroundTasks v"
    "th_status (v_thread (replayed v es)) = th_status (v_thread v)"
  using assms
proof (induction es arbitrary: v)
  case (Cons e es)
  { case 1 with Cons show ?case by (cases e) (simp_all add: replayed_def show_event_frame) }
  { case 2 with Cons show ?case by (cases e) (simp_all add: replayed_def show_event_items) }
  { case 3 with Cons show ?case by (cases e) (simp_all add: replayed_def show_event_frame) }
  { case 4 with Cons show ?case by (cases e) (simp_all add: replayed_def show_event_frame) }
  { case 5 with Cons show ?case by (cases e) (simp_all add: replayed_def show_event_frame) }
qed simp_all

lemma tree_item_sim:
  assumes t: "tree_sim gen w w'"
  shows "item_sim gen w w'"
  unfolding item_sim_def
proof (intro conjI simI)
  show "others w' = others w" using t by (simp add: tree_sim_def)
next
  fix v assume s: "shown gen (replayed v (w_events w)) w"
  obtain es where es: "w_events w' = w_events w @ es" "list_all agent_event es" using t by (auto simp: tree_sim_def)
  have "agents_shown gen (replayed v (w_events w')) w'" using t s by (simp add: tree_sim_def shown_def)
  with s t es show "shown gen (replayed v (w_events w')) w'"
    by (auto simp: shown_def shown_defs tree_sim_def others_def replayed_agent_events intro: mirrored_mono)
qed

lemma tree_sim_frame:
  assumes "agent_of w' = agent_of w" "w_events w' = w_events w" "others w' = others w" "st_runs w' = st_runs w"
    "st_items w' = st_items w" "st_status w' = st_status w" "w_seq w \<le> w_seq w'"
  shows "tree_sim gen w w'"
  using assms by (auto simp: tree_sim_def agents_shown_def intro: mirrored_mono)

lemma agent_of_upd: "agent_of (upd_agent k f w) = (agent_of w)(k := map_option (\<lambda>r. ar_agent (f r)) (get (st_agents w) k))"
  by (auto simp: agent_of_def fun_eq_iff option.map_comp o_def)

lemma agent_of_upd_same: "(\<And>r. ar_agent (f r) = ar_agent r) \<Longrightarrow> agent_of (upd_agent k f w) = agent_of w"
  by (auto simp: agent_of_upd agent_of_def fun_eq_iff)

lemma upd_agent_others [simp]:
  "others (upd_agent k f w) = others w" "st_status (upd_agent k f w) = st_status w"
  by (simp_all add: others_def upd_agent_def)

lemma emit_others [simp]: "others (emit e w) = others w" "st_status (emit e w) = st_status w"
  by (simp_all add: others_def emit_def)

lemma agent_of_cong: "st_agents w' = st_agents w \<Longrightarrow> agent_of w' = agent_of w"
  by (simp add: agent_of_def fun_eq_iff)

lemma tree_sim_upd_agent: "(\<And>r. ar_agent (f r) = ar_agent r) \<Longrightarrow> tree_sim gen w (upd_agent k f w)"
  by (rule tree_sim_frame) (simp_all add: agent_of_upd_same)

lemma tree_sim_upd_indexes: "tree_sim gen w (upd_indexes f w)"
  by (rule tree_sim_frame) (simp_all add: upd_indexes_def others_def agent_of_def fun_eq_iff)

text \<open>An agent changed together with the event that says so.\<close>

lemma tree_sim_agent_event:
  assumes r: "get (st_agents w) k = Some r" and f: "ar_agent (f r) = a'" "a_id a' = a_id (ar_agent r)"
    and e: "agent_event e"
    and v: "\<And>v y. get (v_agents v) (a_id a') = Some y \<Longrightarrow> fst y = ar_agent r \<Longrightarrow>
        \<exists>y'. get (v_agents (show_event e v)) (a_id a') = Some y' \<and> fst y' = a'"
    and other: "\<And>v j. j \<noteq> a_id a' \<Longrightarrow> get (v_agents (show_event e v)) j = get (v_agents v) j"
  shows "tree_sim gen w (emit e (upd_agent k f w))"
proof -
  have a: "agent_of w k = Some (ar_agent r)" using r by (simp add: agent_of_def)
  have "agents_shown gen (replayed v (w_events w @ [e])) (emit e (upd_agent k f w))"
    if s: "agents_shown gen (replayed v (w_events w)) w" for v
  proof -
    let ?v = "replayed v (w_events w)"
    note m = s [unfolded agents_shown_def]
    obtain y where "get (v_agents ?v) (a_id a') = Some y" "fst y = ar_agent r"
      using mirroredD(1) [OF m a] f(2) by auto
    from assms(5) [OF this] obtain y' where y': "get (v_agents (show_event e ?v)) (a_id a') = Some y'" "fst y' = a'" by auto
    have "mirrored (gen Id_agent) (w_seq w) a_id (\<lambda>y a. fst y = a) ((agent_of w)(k \<mapsto> a')) no_history (v_agents (show_event e ?v))"
      by (rule mirrored_update [OF m a f(2), of _ y']) (use y' other f(2) in simp_all)
    moreover have "agent_of (emit e (upd_agent k f w)) = (agent_of w)(k \<mapsto> a')"
      using r f(1) by (simp add: agent_of_cong [of "emit e (upd_agent k f w)" "upd_agent k f w"] agent_of_upd)
    ultimately show ?thesis by (simp add: agents_shown_def)
  qed
  then show ?thesis using e unfolding tree_sim_def by (intro conjI exI [of _ "[e]"]) simp_all
qed

end
