(* ===== verification/Projection_Replay.thy ===== *)
theory Projection_Replay
  imports Projection_Mirror
begin

text \<open>
  Replay: the events the core emits rebuild its state in a client. Each operation of the core is
  shown to keep the relation \<open>shown\<close> between the state and the view that has folded all events so
  far; operations on the tree, on items and on the rest are three layers of that simulation.
\<close>

lemma others_upd [simp]:
  "others (w\<lparr>st_agents := x0\<rparr>) = others w"
  "others (w\<lparr>w_seq := x1\<rparr>) = others w"
  "others (w\<lparr>st_rootKey := x2\<rparr>) = others w"
  "others (w\<lparr>st_initialRoot := x3\<rparr>) = others w"
  "others (w\<lparr>st_runs := x4\<rparr>) = others w"
  "others (w\<lparr>st_items := x5\<rparr>) = others w"
  "others (w\<lparr>st_indexes := x6\<rparr>) = others w"
  "others (w\<lparr>st_itemLinks := x7\<rparr>) = others w"
  "others (w\<lparr>st_hasRun := x8\<rparr>) = others w"
  "others (w\<lparr>st_outcomeOrder := x9\<rparr>) = others w"
  "others (w\<lparr>st_status := x10\<rparr>) = others w"
  "others (w\<lparr>st_processExit := x11\<rparr>) = others w"
  "others (w\<lparr>st_pendingNotices := x12\<rparr>) = others w"
  "others (w\<lparr>st_rejectionNotices := x13\<rparr>) = others w"
  "others (w\<lparr>st_statusObservedAt := x14\<rparr>) = others w"
  "others (w\<lparr>st_lastTransportSignalAt := x15\<rparr>) = others w"
  "others (w\<lparr>st_uncertainTasks := x16\<rparr>) = others w"
  "others (w\<lparr>w_events := x17\<rparr>) = others w"
  by (simp_all add: others_def)

lemma emit_histories [simp]:
  "st_interactionHistory (emit e w) = st_interactionHistory w" "st_taskHistory (emit e w) = st_taskHistory w"
  by (simp_all add: emit_def)

lemma refreshAgentIndex_others [simp]:
  "others (refreshAgentIndex k prev w) = others w" "st_status (refreshAgentIndex k prev w) = st_status w"
  by (auto simp: refreshAgentIndex_def upd_indexes_def others_def Let_def split: option.splits)

context view_source
begin

lemma inj_gen: "inj (gen k)"
  by (auto simp: inj_def dest: ids_inj)

subsection \<open>The tree (tree.ts)\<close>

lemma tree_sim_ensureAgent:
  assumes "ids ctx = gen"
  shows "tree_sim gen w (ensureAgent ctx k w)"
proof (cases "has (st_agents w) k")
  case False
  let ?w = "ensureAgent ctx k w" and ?a = "placeholder_agent ctx (gen Id_agent (w_seq w)) k w"
  note new = ensureAgent_new [OF False, of ctx, unfolded assms]
  have a: "agent_of ?w = (agent_of w)(k \<mapsto> ?a)"
    by (auto simp: agent_of_def new(1) new_record_def fun_eq_iff)
  have frame: "others ?w = others w" "st_runs ?w = st_runs w" "st_items ?w = st_items w" "st_status ?w = st_status w"
    using False by (simp_all add: ensureAgent_def next_id_def Let_def)
  have none: "agent_of w k = None" using False by (simp add: agent_of_def has_def)
  have "agents_shown gen (replayed v (w_events ?w)) ?w" if s: "agents_shown gen (replayed v (w_events w)) w" for v
  proof -
    have "mirrored (gen Id_agent) (Suc (w_seq w)) a_id (\<lambda>y a. fst y = a) ((agent_of w)(k \<mapsto> ?a)) no_history
        (put (v_agents (replayed v (w_events w))) (gen Id_agent (w_seq w)) (?a, []))"
      by (rule mirrored_new [OF s [unfolded agents_shown_def] inj_gen]) (simp_all add: none)
    then show ?thesis by (simp add: agents_shown_def a new show_event_agents)
  qed
  then show ?thesis
    unfolding tree_sim_def by (intro conjI exI [of _ "[Agent_created ?a]"]) (simp_all add: new frame)
qed simp

lemma tree_sim_changeAgent: "tree_sim gen w (changeAgent k u w)"
proof (cases "get (st_agents w) k")
  case (Some r)
  let ?c = "diff_update (ar_agent r) u"
  have "tree_sim gen w (emit (Agent_updated (a_id (ar_agent r)) ?c)
      (upd_agent k (\<lambda>r. r\<lparr>ar_agent := apply_update ?c (ar_agent r)\<rparr>) w))"
    by (rule tree_sim_agent_event [OF Some, where a' = "apply_update ?c (ar_agent r)"])
      (auto simp: show_event_agents)
  with Some show ?thesis by (simp add: changeAgent_def Let_def)
qed (simp add: changeAgent_def)

lemma tree_sim_refreshAgentIndex: "tree_sim gen w (refreshAgentIndex k prev w)"
  unfolding refreshAgentIndex_def by (auto simp: Let_def split: option.split intro: tree_sim_upd_indexes)

lemma tree_sim_root: "tree_sim gen w (w\<lparr>st_rootKey := r\<rparr>)" "tree_sim gen w (w\<lparr>st_initialRoot := i\<rparr>)"
  by (rule tree_sim_frame; simp add: others_def agent_of_def fun_eq_iff)+

lemma tree_sim_link_parent: "tree_sim gen w (link_parent k p pid clears w)"
  unfolding link_parent_def Let_def
  by (rule tree_sim_trans [OF tree_sim_trans [OF tree_sim_upd_agent tree_sim_changeAgent] tree_sim_refreshAgentIndex]) simp

lemma tree_sim_setParent:
  assumes ctx: "ids ctx = gen" and op: "setParent ctx k p w = Some w'"
  shows "tree_sim gen w w'"
  using op
  by (cases rule: setParent_cases) (blast intro: tree_sim_trans tree_sim_ensureAgent [OF ctx] tree_sim_link_parent)+

lemma tree_sim_adoptRoot:
  assumes ctx: "ids ctx = gen" and "adoptRoot ctx k w = Some w'"
  shows "tree_sim gen w w'"
proof -
  obtain w1 where w1: "setParent ctx k None (w\<lparr>st_rootKey := Some k\<rparr>) = Some w1"
    using assms(2) by (auto simp: adoptRoot_def elim!: bind_SomeE)
  define w2 where "w2 = changeAgent k (origin_update Root) (ensureAgent ctx k w1)"
  have s2: "tree_sim gen w w2"
    unfolding w2_def
    by (blast intro: tree_sim_trans tree_sim_root tree_sim_setParent [OF ctx w1] tree_sim_ensureAgent [OF ctx] tree_sim_changeAgent)
  consider "w' = w2" | old w3 where "setParent ctx old (Some k) w2 = Some w3"
      "w' = changeAgent old (origin_update Provider_subagent) w3"
    using assms(2) w1 unfolding adoptRoot_def
    by (auto simp: w2_def Let_def split: option.splits if_splits)
  then show ?thesis
    using s2 by cases (blast intro: tree_sim_trans tree_sim_setParent [OF ctx] tree_sim_changeAgent)+
qed

lemma tree_sim_ensureParent:
  assumes ctx: "ids ctx = gen" and op: "ensureParent ctx k p w = Some w'"
  shows "tree_sim gen w w'"
  using op unfolding ensureParent_def Let_def
  by (auto split: if_splits intro: tree_sim_trans tree_sim_ensureAgent [OF ctx] tree_sim_adoptRoot [OF ctx])

lemma tree_sim_put_link: "tree_sim gen w (put_link k l w)"
  by (rule tree_sim_frame) (simp_all add: put_link_def others_def agent_of_def fun_eq_iff)

lemma tree_sim_links:
  "tree_sim gen w (registerItemLink k w)" "tree_sim gen w (drop_item_link k w)"
  "tree_sim gen w (drop_spawn_link k w)" "tree_sim gen w (registerSpawnLink a k w)"
  unfolding registerItemLink_def drop_item_link_def drop_spawn_link_def registerSpawnLink_def
  by (rule tree_sim_upd_indexes)+

lemma tree_sim_reconcile_spawns: "tree_sim gen w (reconcile_spawns w)"
proof -
  have agent: "tree_sim gen w (spawn_link_agent ik item k w)" for ik item k w
    using tree_sim_trans [OF tree_sim_changeAgent tree_sim_trans [OF tree_sim_put_link tree_sim_links(1)]] tree_sim_changeAgent
    by (auto simp: spawn_link_agent_def Let_def split: option.splits)
  show ?thesis unfolding reconcile_spawns_def
    by (rule tree_sim_fold)
      (auto split: option.splits prod.splits intro: tree_sim_trans [OF tree_sim_fold tree_sim_links(3)] agent)
qed

lemma tree_sim_note_spawn: "tree_sim gen w (note_spawn k i w)"
  by (auto simp: note_spawn_def split: option.splits intro!: tree_sim_trans [OF tree_sim_upd_agent tree_sim_links(4)])

lemma tree_sim_announce: "tree_sim gen w (announceAgentBranch k w)"
proof -
  have one: "tree_sim gen v (emit (Agent_created a) v)" if a: "agent_of v k = Some a" for v :: world and a k
  proof -
    obtain r where r: "get (st_agents v) k = Some r" "ar_agent r = a" using a by (auto simp: agent_of_def)
    have "tree_sim gen v (emit (Agent_created a) (upd_agent k (\<lambda>r. r) v))"
      by (rule tree_sim_agent_event [OF r(1), where a' = a]) (auto simp: r(2) show_event_agents)
    moreover have "upd_agent k (\<lambda>r. r) v = v" using r(1) by (simp add: upd_agent_def modify_def put_same)
    ultimately show ?thesis by simp
  qed
  define branch where "branch = List.map_filter (agent_of w) (ancestors w k)"
  have all: "\<forall>a \<in> set (rev branch). \<exists>k. agent_of w k = Some a" by (auto simp: branch_def set_map_filter)
  have "tree_sim gen v (fold (\<lambda>a w. if a_id a \<in> set an then w else emit (Agent_created a) w) as v)"
    if "\<forall>a \<in> set as. \<exists>k. agent_of v k = Some a" for as an and v :: world
    using that
  proof (induction as arbitrary: v)
    case (Cons a as)
    show ?case
    proof (cases "a_id a \<in> set an")
      case False
      from Cons.prems obtain k where k: "agent_of v k = Some a" by auto
      have "agent_of (emit (Agent_created a) v) = agent_of v" by (rule agent_of_cong) simp
      with Cons have "tree_sim gen (emit (Agent_created a) v)
          (fold (\<lambda>a w. if a_id a \<in> set an then w else emit (Agent_created a) w) as (emit (Agent_created a) v))" by simp
      with False one [OF k] show ?thesis by (auto intro: tree_sim_trans)
    qed (use Cons in simp)
  qed simp
  with all show ?thesis by (simp add: announceAgentBranch_def Let_def branch_def)
qed

subsection \<open>Items (items.ts)\<close>

lemma plain_keeps [simp]:
  "item_id (plain i) = item_id i" "item_createdAt (plain i) = item_createdAt i" "item_agentId (plain i) = item_agentId i"
  by (simp_all add: plain_def set_detail_def split: item_body.split)

lemma plain_created: "plain (i\<lparr>item_createdAt := t\<rparr>) = (plain i)\<lparr>item_createdAt := t\<rparr>"
  by (simp add: plain_def set_detail_def split: item_body.split)

text \<open>An item rewritten in place and announced after operations on the tree.\<close>

lemma item_sim_rewrite:
  assumes i: "get (st_items w) k = Some i" and i': "item_id i' = item_id i" "item_createdAt i' = item_createdAt i"
    and t: "tree_sim gen (put_item k i' w) w'"
  shows "item_sim gen w (emit (Item_updated i') w')"
proof -
  let ?p = "put_item k i' w"
  have items: "get (st_items w') = (get (st_items w))(k \<mapsto> i')" using t by (simp add: tree_sim_def put_item_def fun_eq_iff)
  have oth: "others ?p = others w" "w_events ?p = w_events w" "st_runs ?p = st_runs w" "st_status ?p = st_status w"
    "w_seq ?p = w_seq w" "agent_of ?p = agent_of w"
    by (simp_all add: put_item_def others_def agent_of_def fun_eq_iff)
  obtain es where es: "w_events w' = w_events w @ es" "list_all agent_event es" using t oth by (auto simp: tree_sim_def)
  have "shown gen (replayed v (w_events w' @ [Item_updated i'])) (emit (Item_updated i') w')"
    if s: "shown gen (replayed v (w_events w)) w" for v
  proof -
    let ?v = "replayed v (w_events w)" and ?v' = "replayed v (w_events w')"
    have "agents_shown gen ?v ?p" using s by (simp add: shown_def agents_shown_def oth)
    then have ag: "agents_shown gen ?v' w'" using t oth by (simp add: tree_sim_def)
    have m: "mirrored (gen Id_item) (w_seq w) item_id (\<lambda>y i. plain y = plain i) (get (st_items w)) no_history (v_items ?v)"
      using s by (simp add: shown_def items_shown_def)
    obtain y where y: "get (v_items ?v) (item_id i) = Some y" "plain y = plain i" using mirroredD(1) [OF m i] by auto
    then have cr: "item_createdAt y = item_createdAt i" by (metis plain_keeps(2))
    have vi: "v_items ?v' = v_items ?v" using es by (simp add: replayed_agent_events)
    have fi: "v_items (fold_item True i' ?v') = put (v_items ?v) (item_id i) i'"
    proof -
      have "i'\<lparr>item_createdAt := item_createdAt y\<rparr> = i'" using cr i'(2) by simp
      with y i'(1) vi show ?thesis by (simp add: fold_item_def has_def)
    qed
    have "mirrored (gen Id_item) (w_seq w) item_id (\<lambda>y i. plain y = plain i) ((get (st_items w))(k \<mapsto> i')) no_history
        (put (v_items ?v) (item_id i) i')"
      by (rule mirrored_update [OF m i i'(1), of _ i']) simp_all
    moreover have seq: "w_seq w \<le> w_seq w'" using t oth by (simp add: tree_sim_def)
    ultimately have "mirrored (gen Id_item) (w_seq w') item_id (\<lambda>y i. plain y = plain i) (get (st_items w')) no_history
        (v_items (show_event (Item_updated i') ?v'))"
      by (simp add: items fi show_event_items mirrored_mono)
    moreover have "agents_shown gen (show_event (Item_updated i') ?v') (emit (Item_updated i') w')"
      using ag by (simp add: agents_shown_def show_event_agents agent_of_cong [of "emit (Item_updated i') w'" w'])
    moreover have "others w' = others w" "st_runs w' = st_runs w" "st_status w' = st_status w" "w_seq w \<le> w_seq w'"
      using t oth by (simp_all add: tree_sim_def)
    ultimately show ?thesis
      using s es by (auto simp: shown_def shown_defs show_event_frame others_def replayed_agent_events intro: mirrored_mono)
  qed
  then show ?thesis using t oth by (simp add: item_sim_def sim_def tree_sim_def)
qed

lemma tree_sim_refreshItemIndex: "tree_sim gen w (refreshItemIndex k w)"
  unfolding refreshItemIndex_def Let_def
  by (auto intro: tree_sim_upd_indexes tree_sim_trans [OF tree_sim_upd_indexes tree_sim_links(1)])

text \<open>A new item draws its identity before the agents its detail names are ensured.\<close>

lemma item_sim_create:
  assumes new: "get (st_items w) k = None" and ids: "item_id i = gen Id_item (w_seq w)" "w_seq w < w_seq w'"
    and t: "tree_sim gen w w'" and w'': "w'' = emit (Item_created i) w3" "st_items w3 = put (st_items w') k i"
      "agent_of w3 = agent_of w'" "others w3 = others w'" "st_runs w3 = st_runs w'" "st_status w3 = st_status w'"
      "w_seq w3 = w_seq w'" "w_events w3 = w_events w'"
  shows "item_sim gen w w''"
proof -
  obtain es where es: "w_events w' = w_events w @ es" "list_all agent_event es" using t by (auto simp: tree_sim_def)
  have items: "get (st_items w'') = (get (st_items w))(k \<mapsto> i)" using t w'' by (auto simp: tree_sim_def fun_eq_iff)
  have "shown gen (replayed v (w_events w'')) w''" if s: "shown gen (replayed v (w_events w)) w" for v
  proof -
    let ?v = "replayed v (w_events w)" and ?v' = "replayed v (w_events w')"
    have ag: "agents_shown gen ?v' w'" using t s by (simp add: tree_sim_def shown_def)
    have m: "mirrored (gen Id_item) (w_seq w) item_id (\<lambda>y i. plain y = plain i) (get (st_items w)) no_history (v_items ?v)"
      using s by (simp add: shown_def items_shown_def)
    have vi: "v_items ?v' = v_items ?v" using es by (simp add: replayed_agent_events)
    have "get (v_items ?v) (item_id i) = None" using mirrored_fresh(1) [OF m inj_gen order.refl] ids(1) by simp
    then have fi: "v_items (fold_item False i ?v') = put (v_items ?v) (gen Id_item (w_seq w)) i"
      using vi ids(1) by (simp add: fold_item_def)
    have "mirrored (gen Id_item) (Suc (w_seq w)) item_id (\<lambda>y i. plain y = plain i) ((get (st_items w))(k \<mapsto> i)) no_history
        (put (v_items ?v) (gen Id_item (w_seq w)) i)"
      by (rule mirrored_new [OF m inj_gen ids(1)]) (simp_all add: new)
    then have "mirrored (gen Id_item) (w_seq w') item_id (\<lambda>y i. plain y = plain i) (get (st_items w'')) no_history
        (v_items (show_event (Item_created i) ?v'))"
      using ids(2) by (simp add: items fi show_event_items mirrored_mono)
    moreover have "agents_shown gen (show_event (Item_created i) ?v') w''"
      using ag w'' by (simp add: agents_shown_def show_event_agents agent_of_cong [of "emit (Item_created i) w3" w3])
    moreover have "others w' = others w" "st_runs w' = st_runs w" "st_status w' = st_status w" "w_seq w \<le> w_seq w'"
      using t by (simp_all add: tree_sim_def)
    ultimately show ?thesis
      using s es w'' by (auto simp: shown_def shown_defs show_event_frame others_def replayed_agent_events intro: mirrored_mono)
  qed
  then show ?thesis using t w'' by (simp add: item_sim_def sim_def tree_sim_def)
qed

text \<open>Deltas: the core appends the whole text, the view its pieces.\<close>

lemma plain_output: "applyDelta i Output_field s = Some i' \<Longrightarrow> plain i' = plain i"
  by (auto simp: applyDelta_def plain_def set_detail_def split: if_splits item_body.splits)

lemma plain_text:
  assumes "applyDelta i fld s = Some i'" "fld \<noteq> Output_field" "plain y = plain i"
  shows "y = i"
proof -
  have nt: "item_body i \<noteq> Tool_call c" for c using assms(1,2) by (cases fld) (auto simp: applyDelta_def split: if_splits)
  then have i: "plain i = i" by (simp add: plain_def set_detail_def split: item_body.split)
  have "item_body y \<noteq> Tool_call c" for c
  proof
    assume "item_body y = Tool_call c"
    then have "item_body (plain y) = Tool_call (c\<lparr>call_detail := (call_detail c)\<lparr>det_output := None\<rparr>\<rparr>)"
      by (simp add: plain_def set_detail_def)
    with assms(3) i nt show False by metis
  qed
  then have "plain y = y" by (simp add: plain_def set_detail_def split: item_body.split)
  with assms(3) i show ?thesis by simp
qed

lemma replayed_deltas_other:
  "v_agents (replayed v (map (Item_delta i a fld) ps)) = v_agents v"
  "v_runs (replayed v (map (Item_delta i a fld) ps)) = v_runs v"
  "v_interactions (replayed v (map (Item_delta i a fld) ps)) = v_interactions v"
  "v_backgroundTasks (replayed v (map (Item_delta i a fld) ps)) = v_backgroundTasks v"
  "th_status (v_thread (replayed v (map (Item_delta i a fld) ps))) = th_status (v_thread v)"
  "j \<noteq> i \<Longrightarrow> get (v_items (replayed v (map (Item_delta i a fld) ps))) j = get (v_items v) j"
  by (induction ps arbitrary: v) (simp_all add: replayed_def show_event_frame show_event_agents show_event_items fold_delta_def)

lemma replayed_output:
  assumes "get (v_items v) i = Some y"
  shows "\<exists>y'. get (v_items (replayed v (map (Item_delta i a Output_field) ps))) i = Some y' \<and> plain y' = plain y"
  using assms
proof (induction ps arbitrary: v y)
  case (Cons p ps)
  let ?v = "show_event (Item_delta i a Output_field p) v" and ?y = "given (applyDelta y Output_field p) y"
  have "get (v_items ?v) i = Some ?y" using Cons.prems by (simp add: show_event_items fold_delta_def)
  from Cons.IH [OF this] show ?case
    using plain_output [of y p] by (cases "applyDelta y Output_field p") (auto simp: replayed_def given_def)
qed simp

lemma events_fold_emit [simp]: "w_events (fold emit es w) = w_events w @ es" "others (fold emit es w) = others w"
  "st_status (fold emit es w) = st_status w" "w_seq (fold emit es w) = w_seq w"
  by (induction es arbitrary: w) simp_all

lemma fold_emit_map: "fold (\<lambda>p. emit (f p)) ps w = fold emit (map f ps) w"
  by (induction ps arbitrary: w) simp_all

lemma item_sim_appendDelta:
  assumes "appendDelta k fld t w = Some w'"
  shows "item_sim gen w w'"
proof -
  obtain i i' where i: "get (st_items w) k = Some i" and i': "applyDelta i fld t = Some i'"
    and w0: "w' = fold (\<lambda>p. emit (Item_delta (item_id i') (item_agentId i') fld p))
      (if fld = Output_field then outputDeltas t else [t]) (put_item k i' w)"
    using assms by (auto simp: appendDelta_def elim!: bind_SomeE)
  define ps where "ps = (if fld = Output_field then outputDeltas t else [t])"
  define es where "es = map (Item_delta (item_id i') (item_agentId i') fld) ps"
  have w': "w' = fold emit es (put_item k i' w)" unfolding w0 es_def ps_def by (rule fold_emit_map)
  have idi: "item_id i' = item_id i" using applyDelta_keeps(1) [OF i'] by (simp add: item_core_def)
  have oth: "others w' = others w" "agent_of w' = agent_of w" "st_runs w' = st_runs w" "st_status w' = st_status w"
    "w_seq w' = w_seq w" "get (st_items w') = (get (st_items w))(k \<mapsto> i')"
    by (simp_all add: w' agent_of_def fun_eq_iff) (simp_all add: put_item_def others_def)
  have "shown gen (replayed v (w_events w')) w'" if s: "shown gen (replayed v (w_events w)) w" for v
  proof -
    let ?v = "replayed v (w_events w)"
    have v': "replayed v (w_events w') = replayed ?v es" by (simp add: w' put_item_def)
    have m: "mirrored (gen Id_item) (w_seq w) item_id (\<lambda>y i. plain y = plain i) (get (st_items w)) no_history (v_items ?v)"
      using s by (simp add: shown_def items_shown_def)
    obtain y where y: "get (v_items ?v) (item_id i) = Some y" "plain y = plain i" using mirroredD(1) [OF m i] by auto
    have "\<exists>y'. get (v_items (replayed ?v es)) (item_id i) = Some y' \<and> plain y' = plain i'"
    proof (cases "fld = Output_field")
      case True
      obtain y' where "get (v_items (replayed ?v es)) (item_id i) = Some y'" "plain y' = plain y"
        using replayed_output [OF y(1)] True idi by (auto simp: es_def)
      moreover have "plain i' = plain i" using plain_output i' True by simp
      ultimately show ?thesis using y(2) by simp
    next
      case False
      with plain_text [OF i' False y(2)] y(1) i' idi show ?thesis
        by (auto simp: es_def ps_def show_event_items fold_delta_def given_def)
    qed
    then obtain y' where y': "get (v_items (replayed ?v es)) (item_id i) = Some y'" "plain y' = plain i'" by auto
    have "mirrored (gen Id_item) (w_seq w) item_id (\<lambda>y i. plain y = plain i) ((get (st_items w))(k \<mapsto> i')) no_history
        (v_items (replayed ?v es))"
      by (rule mirrored_update [OF m i idi, of _ y']) (use y' idi in \<open>simp_all add: es_def replayed_deltas_other\<close>)
    with s show ?thesis unfolding v'
      by (simp add: shown_def shown_defs es_def replayed_deltas_other oth) (use oth(1) in \<open>simp add: others_def\<close>)
  qed
  then show ?thesis using oth by (simp add: item_sim_def sim_def)
qed

subsection \<open>Links between items and agents (tree.ts)\<close>

lemma set_detail_keeps [simp]:
  "item_id (set_detail f i) = item_id i" "item_createdAt (set_detail f i) = item_createdAt i"
  by (simp_all add: set_detail_def split: item_body.split)

lemma item_sim_link_item:
  assumes ctx: "ids ctx = gen" and li: "link_item ctx k item d lk w0 = Some w'" and item: "get (st_items w0) k = Some item"
  shows "item_sim gen w0 w'"
proof -
  define w where "w = ensureAgent ctx lk w0"
  have s0: "item_sim gen w0 w" unfolding w_def by (rule tree_item_sim [OF tree_sim_ensureAgent [OF ctx]])
  obtain a where a: "agent_of w lk = Some a" using agent_of_has [of w lk] by (auto simp: w_def)
  have it: "get (st_items w) k = Some item" using item by (simp add: w_def)
  let ?item = "set_detail (\<lambda>d. d\<lparr>det_childAgentId := Some (a_id a)\<rparr>) item"
  let ?item' = "set_detail (\<lambda>d. d\<lparr>det_targetAgentId := Some (a_id a)\<rparr>) item"
  let ?w1 = "upd_agent lk (\<lambda>r. r\<lparr>ar_spawnedByKey := Some k\<rparr>) (put_item k ?item w)"
  consider (spawn) w2 where "setParent ctx lk (get (agentKeysById (st_indexes ?w1)) (item_agentId item)) ?w1 = Some w2"
      "w' = emit (Item_updated ?item) (changeAgent lk (no_update\<lparr>u_spawnedBy := Some (Some (item_id item))\<rparr>) w2)"
    | (message) "w' = emit (Item_updated ?item') (put_item k ?item' w)" | (same) "w' = w"
    using li a unfolding link_item_def by (auto simp: Let_def simp flip: w_def split: if_splits elim!: bind_SomeE)
  then have "item_sim gen w w'"
  proof cases
    case spawn
    have "tree_sim gen (put_item k ?item w) ?w1" by (rule tree_sim_upd_agent) simp
    then have "tree_sim gen (put_item k ?item w) (changeAgent lk (no_update\<lparr>u_spawnedBy := Some (Some (item_id item))\<rparr>) w2)"
      using tree_sim_setParent [OF ctx spawn(1)] by (blast intro: tree_sim_trans tree_sim_changeAgent)
    with item_sim_rewrite [OF it] spawn(2) show ?thesis by simp
  next
    case message
    with item_sim_rewrite [OF it, of ?item'] show ?thesis by simp
  qed simp
  with s0 show ?thesis by (rule item_sim_trans)
qed

lemma item_sim_reconcile_item:
  assumes ctx: "ids ctx = gen" and op: "reconcile_item ctx k w = Some w'"
  shows "item_sim gen w w'"
proof -
  consider "w' = drop_item_link k w"
    | item d lk w1 where "get (st_items w) k = Some item" "link_item ctx k item d lk w = Some w1" "w' = drop_item_link k w1"
    using op by (auto simp: reconcile_item_def split: option.splits item_body.splits)
  then show ?thesis
    by cases (auto intro: tree_item_sim tree_sim_links item_sim_trans [OF item_sim_link_item [OF ctx] tree_item_sim [OF tree_sim_links(2)]])
qed

lemma item_sim_reconcileLinks:
  assumes ctx: "ids ctx = gen" and op: "reconcileLinks ctx w = Some w'"
  shows "item_sim gen w w'"
  using op unfolding reconcileLinks_def Let_def
  by (rule item_sim_trans [OF tree_item_sim [OF tree_sim_reconcile_spawns] item_sim_foldM]) (rule item_sim_reconcile_item [OF ctx])

lemma item_sim_seeAgent:
  assumes ctx: "ids ctx = gen" and op: "seeAgent ctx f w = Some w'"
  shows "item_sim gen w w'"
  using op
proof (cases rule: seeAgent_cases)
  case (1 w1 w3)
  have "tree_sim gen w w1" using 1(1) by (auto split: option.splits intro: tree_sim_ensureParent [OF ctx])
  moreover have "tree_sim gen (ensureAgent ctx (seen_agent f) w1) w3"
    using 1(2) by (auto split: if_splits intro: tree_sim_adoptRoot [OF ctx] tree_sim_setParent [OF ctx])
  ultimately show ?thesis
    by (meson 1(3) tree_item_sim item_sim_trans tree_sim_ensureAgent [OF ctx] tree_sim_note_spawn tree_sim_changeAgent
        item_sim_reconcileLinks [OF ctx])
qed

lemma item_sim_linkAgent:
  assumes ctx: "ids ctx = gen" and op: "linkAgent ctx f w = Some w'"
  shows "item_sim gen w w'"
  using op
proof (cases rule: linkAgent_cases)
  case (1 w1 w3)
  have "tree_sim gen w w1" using 1(1) by (auto split: option.splits intro: tree_sim_ensureParent [OF ctx])
  moreover have "tree_sim gen (ensureAgent ctx (lnk_agent f) w1) w3"
    using 1(2) by (auto split: if_splits intro: tree_sim_setParent [OF ctx])
  ultimately show ?thesis
    by (meson 1(3) tree_item_sim item_sim_trans tree_sim_ensureAgent [OF ctx] tree_sim_note_spawn tree_sim_changeAgent
        item_sim_reconcileLinks [OF ctx])
qed

lemma item_sim_ensureInitialRoot:
  assumes ctx: "ids ctx = gen" and op: "ensureInitialRoot ctx w = Some w'"
  shows "item_sim gen w w'"
  using op
  by (auto simp: ensureInitialRoot_def split: option.splits
      intro: item_sim_trans [OF tree_item_sim [OF tree_sim_root(2)] item_sim_seeAgent [OF ctx]])

subsection \<open>Upserts (items.ts, reconciled-item.ts)\<close>

lemma tree_sim_next_id: "tree_sim gen w (snd (next_id ctx kd w))"
  by (rule tree_sim_frame) (simp_all add: next_id_def agent_of_def fun_eq_iff)

lemma tree_sim_patch_detail:
  assumes ctx: "ids ctx = gen"
  shows "tree_sim gen w (snd (patch_detail ctx k d w))"
proof -
  have s: "tree_sim gen w (put_link k l (ensureAgent ctx c w))" for c l
    by (rule tree_sim_trans [OF tree_sim_ensureAgent [OF ctx] tree_sim_put_link])
  have "snd (canonicalDetail ctx k d w) = w \<or>
      (\<exists>c l. snd (canonicalDetail ctx k d w) = put_link k l (ensureAgent ctx c w))" for d
    by (auto simp: canonicalDetail_def Let_def split: option.splits)
  with s have "tree_sim gen w (snd (canonicalDetail ctx k d w))" for d by (metis tree_sim_refl)
  then show ?thesis by (auto simp: patch_detail_def case_prod_beta split: option.splits)
qed

lemma put_item_same [simp]:
  "agent_of (put_item k i w) = agent_of w" "others (put_item k i w) = others w" "st_status (put_item k i w) = st_status w"
  "w_events (put_item k i w) = w_events w"
  by (simp_all add: put_item_def agent_of_def fun_eq_iff)

lemma refreshItemIndex_same [simp]:
  "agent_of (refreshItemIndex k w) = agent_of w" "others (refreshItemIndex k w) = others w"
  "st_status (refreshItemIndex k w) = st_status w"
  by (simp_all add: refreshItemIndex_def registerItemLink_def upd_indexes_def Let_def agent_of_def others_def fun_eq_iff)

lemma item_sim_store:
  assumes ctx: "ids ctx = gen" and prev: "previous = get (st_items w) k"
    and w3: "w3 = snd (patch_detail ctx k d (snd (item_base ctx r previous w)))"
    and item: "case previous of Some p \<Rightarrow> item_core item = item_core p
       | None \<Rightarrow> item_id item = gen Id_item (w_seq w)"
  shows "item_sim gen w (store_item k item (previous \<noteq> None) w3)"
proof (cases previous)
  case (Some p)
  then have "snd (item_base ctx r previous w) = w" by (simp add: item_base_def)
  then have t: "tree_sim gen w w3" using w3 tree_sim_patch_detail [OF ctx] by simp
  moreover have "get (st_items w3) k = Some p" using t Some prev by (simp add: tree_sim_def)
  then have "item_sim gen w3 (emit (Item_updated item) (refreshItemIndex k (put_item k item w3)))"
    by (rule item_sim_rewrite) (use item Some in \<open>simp_all add: item_core_def tree_sim_refreshItemIndex\<close>)
  ultimately show ?thesis using Some by (auto simp: store_item_def intro: item_sim_trans tree_item_sim)
next
  case None
  let ?w2 = "snd (next_id ctx Id_item w)"
  have "snd (item_base ctx r previous w) = ?w2" using None by (simp add: item_base_def case_prod_beta)
  then have t: "tree_sim gen ?w2 w3" using w3 tree_sim_patch_detail [OF ctx] by simp
  then have "w_seq w < w_seq w3" by (simp add: tree_sim_def next_id_def)
  with None prev item t show ?thesis
    by (intro item_sim_create [where w' = w3 and i = item and k = k and ?w3.0 = "refreshItemIndex k (put_item k item w3)"])
      (auto simp: store_item_def intro: tree_sim_trans [OF tree_sim_next_id])
qed

lemma item_sim_append_legacy: "append_legacy k prev draft w = Some w' \<Longrightarrow> item_sim gen w w'"
  by (auto simp: append_legacy_def split: option.splits intro: item_sim_appendDelta)

lemma item_sim_link_spawn:
  assumes ctx: "ids ctx = gen" and op: "link_spawn ctx a k known ex w = Some w'"
  shows "item_sim gen w w'"
  using op by (auto simp: link_spawn_def split: option.splits if_splits intro: item_sim_linkAgent [OF ctx])

lemma item_sim_upsert:
  assumes ctx: "ids ctx = gen" and op: "upsertItem ctx a k draft w = Some w'"
  shows "item_sim gen w w'"
  using op
proof (cases rule: upsertItem_cases)
  case (1 r item w3 w5)
  let ?w1 = "ensureAgent ctx a w"
  have "item_sim gen w ?w1" by (rule tree_item_sim [OF tree_sim_ensureAgent [OF ctx]])
  moreover have "item_sim gen ?w1 (store_item k item (get (st_items ?w1) k \<noteq> None) w3)"
    by (rule item_sim_store [OF ctx refl 1(2)]) (use 1(3) ctx in \<open>simp split: option.splits\<close>)
  ultimately show ?thesis
    using item_sim_append_legacy [OF 1(4)] item_sim_link_spawn [OF ctx 1(5)] by (blast intro: item_sim_trans)
qed

lemma item_sim_upd_agent: "(\<And>r. ar_agent (f r) = ar_agent r) \<Longrightarrow> item_sim gen w (upd_agent k f w)"
  by (rule tree_item_sim [OF tree_sim_upd_agent])

lemma item_sim_ensureAgent: "ids ctx = gen \<Longrightarrow> item_sim gen w (ensureAgent ctx k w)"
  by (rule tree_item_sim [OF tree_sim_ensureAgent])

lemma item_sim_appendItem:
  assumes ctx: "ids ctx = gen" and op: "appendItem ctx a k fld t w = Some (b, w')"
  shows "item_sim gen w w'"
proof -
  let ?w1 = "ensureAgent ctx a w"
  obtain w2 item r w3 where w2: "(if get (st_items w) k = None then upsertItem ctx a k (delta_draft fld) ?w1 else Some ?w1) = Some w2"
    and w3: "appendDelta k fld t w2 = Some w3" and w': "w' = note_activity a r item w3"
    using op by (rule appendItem_cases)
  have "item_sim gen ?w1 w2" using w2 by (auto split: if_splits intro: item_sim_upsert [OF ctx])
  moreover have "item_sim gen w3 w'" unfolding w' note_activity_def by (auto intro: item_sim_upd_agent)
  ultimately show ?thesis
    using item_sim_appendDelta [OF w3] item_sim_ensureAgent [OF ctx] by (blast intro: item_sim_trans)
qed

lemma item_sim_reconcile:
  assumes ctx: "ids ctx = gen" and op: "reconcileItem ctx a k draft w = Some w'"
  shows "item_sim gen w w'"
  using op unfolding reconcileItem_def Let_def
  by (auto split: if_splits draft_body.splits option.splits intro: item_sim_upsert [OF ctx])

lemma item_sim_show_item: "item_sim gen w (show_item a k w)"
  unfolding show_item_def by (auto split: option.splits intro: item_sim_upd_agent)

lemma item_sim_update_item:
  assumes "get (st_items w) k = Some i" "item_core i' = item_core i"
  shows "item_sim gen w (update_item k i' w)"
  unfolding update_item_def
  by (rule item_sim_rewrite [OF assms(1)]) (use assms(2) in \<open>simp_all add: item_core_def tree_sim_refreshItemIndex\<close>)

lemma item_sim_refreshItemIndex: "item_sim gen w (refreshItemIndex k w)"
  by (rule tree_item_sim [OF tree_sim_refreshItemIndex])

lemma item_sim_cancelTool: "item_sim gen w (cancelTool k t w)"
  unfolding cancelTool_def
  by (auto split: option.splits item_body.splits intro!: item_sim_update_item simp: cancelled_item_def item_core_def)

lemma item_sim_closeText: "item_sim gen w (closeText k w)"
  unfolding closeText_def
  by (auto split: option.splits intro!: item_sim_refreshItemIndex item_sim_update_item simp: item_core_def)

lemma item_sim_cancel_foreground: "item_sim gen w (cancel_foreground bg a t k w)"
  unfolding cancel_foreground_def by (auto split: option.splits intro: item_sim_cancelTool)

lemma item_sim_ensure_item:
  assumes ctx: "ids ctx = gen" and op: "ensure_item ctx a k draft w = Some w'"
  shows "item_sim gen w w'"
  using op by (auto simp: ensure_item_def split: option.splits intro: item_sim_upsert [OF ctx])

lemma item_sim_mark_background: "item_sim gen w (mark_background k t w)"
  unfolding mark_background_def Let_def
  by (auto split: option.splits item_body.splits intro!: item_sim_rewrite)

subsection \<open>Notices (diagnostics.ts)\<close>

lemma item_sim_publishNotice:
  assumes ctx: "ids ctx = gen"
  shows "item_sim gen w (snd (publishNotice owner notice runId ctx w))"
proof -
  define w1 where "w1 = snd (next_id ctx Id_item w)"
  define i where "i = \<lparr>item_id = gen Id_item (w_seq w), item_agentId = a_id (ar_agent owner), item_runId = runId,
    item_createdAt = pn_createdAt notice, item_complete = True, item_body = Notice Warning (pn_text notice) None,
    item_raw = pn_raw notice, item_rest = []\<rparr>"
  define k where "k = notice_key w1 (gen Id_item (w_seq w))"
  have eq: "snd (publishNotice owner notice runId ctx w) = emit (Item_created i) (put_item k i w1)"
    using ctx by (simp add: publishNotice_def i_def k_def w1_def next_id_def Let_def)
  have "get (st_items w) k = None"
    using notice_key_free [of w1 "gen Id_item (w_seq w)"] by (simp add: k_def w1_def next_id_def has_def)
  then show ?thesis unfolding eq
    by (rule item_sim_create [where w' = w1 and i = i and ?w3.0 = "put_item k i w1"])
      (simp_all add: w1_def tree_sim_next_id, simp_all add: i_def next_id_def put_item_def)
qed

lemma item_sim_notices: "item_sim gen w (w\<lparr>st_pendingNotices := x\<rparr>)" "item_sim gen w (w\<lparr>st_rejectionNotices := y\<rparr>)"
  by (rule tree_item_sim, rule tree_sim_frame; simp add: agent_of_def fun_eq_iff)+

lemma item_sim_flushNotices:
  assumes ctx: "ids ctx = gen"
  shows "item_sim gen w (flushNotices ctx w)"
  unfolding flushNotices_def
  by (auto split: option.splits intro: item_sim_trans [OF item_sim_fold item_sim_notices(1)] item_sim_publishNotice [OF ctx])

lemma item_sim_rejectFact:
  assumes ctx: "ids ctx = gen"
  shows "item_sim gen w (rejectFact input reason ctx w)"
proof (cases "root_record w")
  case None
  then show ?thesis by (simp add: rejectFact_def Let_def item_sim_notices)
next
  case (Some owner)
  let ?ns = "notices_of_run (case ar_activeRun owner of None \<Rightarrow> [] | Some r \<Rightarrow> r) w" and ?sig = "signature input reason"
  show ?thesis
  proof (cases "repeated_notice ?ns ?sig w")
    case None
    with Some show ?thesis
      by (auto simp: rejectFact_def Let_def case_prod_beta
          intro: item_sim_trans [OF item_sim_publishNotice [OF ctx] item_sim_notices(2)])
  next
    case (Some p)
    obtain n i where p: "p = (n, i)" by (cases p)
    have i: "get (st_items w) (rn_item n) = Some i"
      using repeated_notice_SomeD Some p by blast
    have "item_sim gen (w\<lparr>st_rejectionNotices := x\<rparr>) (emit (Item_updated (recount reason c raw i)) (put_item (rn_item n)
        (recount reason c raw i) (w\<lparr>st_rejectionNotices := x\<rparr>)))" for x c raw
    proof (rule item_sim_rewrite [where i = i and k = "rn_item n"])
      show "item_id (recount reason c raw i) = item_id i" "item_createdAt (recount reason c raw i) = item_createdAt i"
        by (simp_all add: recount_def)
    qed (simp_all add: i)
    with Some p \<open>root_record w = Some owner\<close> show ?thesis
      by (auto simp: rejectFact_def Let_def intro: item_sim_trans [OF item_sim_notices(2)])
  qed
qed

end

subsection \<open>One entity and its event\<close>

definition tree_frame :: "world \<Rightarrow> world \<Rightarrow> bool" where
  "tree_frame w w' \<longleftrightarrow> agent_of w' = agent_of w \<and> st_items w' = st_items w \<and> st_status w' = st_status w"

lemma sim_interaction_event:
  assumes e: "w_events w' = w_events w @ [e]" "\<exists>x. e = Interaction_opened x \<or> (\<exists>i st t res b a. e = Interaction_closed i st t res b a)"
    and f: "tree_frame w w'" "st_runs w' = st_runs w" "st_tasks w' = st_tasks w" "st_taskHistory w' = st_taskHistory w" "w_seq w \<le> w_seq w'"
    and x: "\<And>v. interactions_shown gen v w \<Longrightarrow> interactions_shown gen (show_event e v) w'"
  shows "sim gen w w'"
proof (rule simI)
  fix v assume s: "shown gen (replayed v (w_events w)) w"
  with x have "interactions_shown gen (replayed v (w_events w')) w'" by (simp add: e(1) shown_def)
  with s e f show "shown gen (replayed v (w_events w')) w'"
    by (auto simp: shown_def shown_defs tree_frame_def show_event_frame show_event_agents show_event_items intro: mirrored_mono)
qed

lemma sim_task_event:
  assumes e: "w_events w' = w_events w @ [e]" "\<exists>x. e = Background_task_started x \<or> (\<exists>i st t. e = Background_task_updated i st t)"
    and f: "tree_frame w w'" "st_runs w' = st_runs w" "st_interactions w' = st_interactions w"
      "st_interactionHistory w' = st_interactionHistory w" "w_seq w \<le> w_seq w'"
    and x: "\<And>v. tasks_shown gen v w \<Longrightarrow> tasks_shown gen (show_event e v) w'"
  shows "sim gen w w'"
proof (rule simI)
  fix v assume s: "shown gen (replayed v (w_events w)) w"
  with x have "tasks_shown gen (replayed v (w_events w')) w'" by (simp add: e(1) shown_def)
  with s e f show "shown gen (replayed v (w_events w')) w'"
    by (auto simp: shown_def shown_defs tree_frame_def show_event_frame show_event_agents show_event_items intro: mirrored_mono)
qed

lemma sim_run_event:
  assumes e: "w_events w' = w_events w @ [e]" "\<exists>r. e = Run_started r \<or> (\<exists>i st b t tr. e = Run_ended i st b t tr)"
    and f: "tree_frame w w'" "others w' = others w" "w_seq w \<le> w_seq w'"
    and x: "\<And>v. runs_shown gen v w \<Longrightarrow> runs_shown gen (show_event e v) w'"
  shows "sim gen w w'"
proof (rule simI)
  fix v assume s: "shown gen (replayed v (w_events w)) w"
  with x have "runs_shown gen (replayed v (w_events w')) w'" by (simp add: e(1) shown_def)
  with s e f show "shown gen (replayed v (w_events w')) w'"
    by (auto simp: shown_def shown_defs tree_frame_def others_def show_event_frame show_event_agents show_event_items intro: mirrored_mono)
qed

lemma interaction_write_frame [simp]:
  "agent_of (refreshInteractionIndex k (put_interaction k x w)) = agent_of w"
  "st_status (refreshInteractionIndex k (put_interaction k x w)) = st_status w"
  "st_taskHistory (refreshInteractionIndex k (put_interaction k x w)) = st_taskHistory w"
  "st_interactionHistory (refreshInteractionIndex k (put_interaction k x w)) = st_interactionHistory w"
  "w_events (refreshInteractionIndex k (put_interaction k x w)) = w_events w"
  by (simp_all add: refreshInteractionIndex_def put_interaction_def upd_indexes_def agent_of_def fun_eq_iff)

lemma task_write_frame [simp]:
  "agent_of (refreshTaskIndex k (put_task k x w)) = agent_of w"
  "st_status (refreshTaskIndex k (put_task k x w)) = st_status w"
  "st_taskHistory (refreshTaskIndex k (put_task k x w)) = st_taskHistory w"
  "st_interactionHistory (refreshTaskIndex k (put_task k x w)) = st_interactionHistory w"
  "w_events (refreshTaskIndex k (put_task k x w)) = w_events w"
  by (simp_all add: refreshTaskIndex_def put_task_def upd_indexes_def agent_of_def fun_eq_iff)

lemma agent_of_emit [simp]: "agent_of (emit e w) = agent_of w"
  by (rule agent_of_cong) simp

lemma sim_close:
  assumes i: "get (st_interactions w) k = Some i"
    and i': "i' = i\<lparr>int_state := st, int_closedAt := Some t, int_resolution := orelse res (int_resolution i),
        int_resolvedBy := orelse b (int_resolvedBy i), int_autoReviewed := orelse a (int_autoReviewed i)\<rparr>"
  shows "sim gen w (emit (Interaction_closed (int_id i) st t res b a) (refreshInteractionIndex k (put_interaction k i' w)))"
proof (rule sim_interaction_event [where e = "Interaction_closed (int_id i) st t res b a"])
  fix v assume s: "interactions_shown gen v w"
  note m = s [unfolded interactions_shown_def]
  obtain y where y: "get (v_interactions v) (int_id i) = Some y" "fst y = i" using mirroredD(1) [OF m i] by auto
  have ids: "int_id i' = int_id i" by (simp add: i')
  have "mirrored (gen Id_interaction) (w_seq w) int_id (\<lambda>y x. fst y = x) ((get (st_interactions w))(k \<mapsto> i'))
      (get (st_interactionHistory w)) (modify (v_interactions v) (int_id i) (close_interaction st t None res b a))"
    by (rule mirrored_update [OF m i ids, of _ "(i', snd y)"])
      (use y in \<open>auto simp: close_interaction_def i' case_prod_beta\<close>)
  moreover have "get (put (st_interactions w) k i') = (get (st_interactions w))(k \<mapsto> i')" by (simp add: fun_eq_iff)
  ultimately show "interactions_shown gen (show_event (Interaction_closed (int_id i) st t res b a) v)
      (emit (Interaction_closed (int_id i) st t res b a) (refreshInteractionIndex k (put_interaction k i' w)))"
    by (simp add: interactions_shown_def show_event_frame)
qed (simp_all add: tree_frame_def)

lemma sim_task_write:
  assumes t: "get (st_tasks w) k = Some task" and t': "task_id task' = task_id task"
    and w': "w_events w' = w_events w @ [e]" "get (st_tasks w') = (get (st_tasks w))(k \<mapsto> task')"
      "st_taskHistory w' = st_taskHistory w" "w_seq w' = w_seq w"
      "tree_frame w w'" "st_runs w' = st_runs w" "st_interactions w' = st_interactions w"
      "st_interactionHistory w' = st_interactionHistory w"
    and e: "e = Background_task_started task' \<or> (\<exists>st t. e = Background_task_updated (task_id task) st t \<and>
        task' = update_task st (Some t) task)"
  shows "sim gen w w'"
proof (rule sim_task_event [where e = e])
  fix v assume s: "tasks_shown gen v w"
  note m = s [unfolded tasks_shown_def]
  have y: "get (v_backgroundTasks v) (task_id task) = Some task" using mirroredD(1) [OF m t] by auto
  have "mirrored (gen Id_task) (w_seq w) task_id (=) ((get (st_tasks w))(k \<mapsto> task')) (get (st_taskHistory w))
      (v_backgroundTasks (show_event e v))"
    by (rule mirrored_update [OF m t t', of _ task']) (use y t' e in \<open>auto simp: show_event_frame\<close>)
  then show "tasks_shown gen (show_event e v) w'" by (simp add: tasks_shown_def w')
qed (use w' e in auto)

lemma sim_histories:
  "get (st_interactions w) k = Some x \<Longrightarrow> sim gen w (w\<lparr>st_interactionHistory := put (st_interactionHistory w) (int_id x) x\<rparr>)"
  "get (st_tasks w) k = Some y \<Longrightarrow> sim gen w (w\<lparr>st_taskHistory := put (st_taskHistory w) (task_id y) y\<rparr>)"
proof -
  have upd: "get (put d i z) = (get d)(i \<mapsto> z)" for d :: "'z dict" and i z by (simp add: fun_eq_iff)
  have ag: "agent_of (w\<lparr>st_interactionHistory := h\<rparr>) = agent_of w" "agent_of (w\<lparr>st_taskHistory := h'\<rparr>) = agent_of w" for h h'
    by (simp_all add: agent_of_def fun_eq_iff)
  show "sim gen w (w\<lparr>st_interactionHistory := put (st_interactionHistory w) (int_id x) x\<rparr>)" if "get (st_interactions w) k = Some x"
    using that by (intro simI) (auto simp: shown_def shown_defs ag upd intro: mirrored_history)
  show "sim gen w (w\<lparr>st_taskHistory := put (st_taskHistory w) (task_id y) y\<rparr>)" if "get (st_tasks w) k = Some y"
    using that by (intro simI) (auto simp: shown_def shown_defs ag upd intro: mirrored_history)
qed

context view_source
begin

subsection \<open>Interactions and background tasks (entities.ts)\<close>

lemma sim_closeInteraction: "sim gen w (closeInteraction f ctx w)"
  unfolding closeInteraction_def Let_def by (auto split: option.splits intro!: sim_close)

lemma sim_close_pending: "sim gen w (close_pending st t p k w)"
  unfolding close_pending_def closed_interaction_def
  by (auto split: option.splits intro!: sim_close simp: orelse_def)

lemma sim_open:
  assumes i: "int_id x = gen Id_interaction (w_seq w)"
    and old: "\<And>p. get (st_interactions w) k = Some p \<Longrightarrow> get (st_interactionHistory w) (int_id p) = Some p"
    and w4: "w4 = w\<lparr>w_seq := Suc (w_seq w)\<rparr>"
  shows "sim gen w (emit (Interaction_opened x) (refreshInteractionIndex k (put_interaction k x w4)))"
proof (rule sim_interaction_event [where e = "Interaction_opened x"])
  fix v assume s: "interactions_shown gen v w"
  note m = s [unfolded interactions_shown_def]
  have "mirrored (gen Id_interaction) (Suc (w_seq w)) int_id (\<lambda>y x. fst y = x) ((get (st_interactions w))(k \<mapsto> x))
      (get (st_interactionHistory w)) (put (v_interactions v) (gen Id_interaction (w_seq w)) (x, []))"
    by (rule mirrored_new [OF m inj_gen i]) (simp_all add: old)
  moreover have "get (put (st_interactions w) k x) = (get (st_interactions w))(k \<mapsto> x)" by (simp add: fun_eq_iff)
  ultimately show "interactions_shown gen (show_event (Interaction_opened x) v)
      (emit (Interaction_opened x) (refreshInteractionIndex k (put_interaction k x w4)))"
    by (simp add: interactions_shown_def show_event_frame w4 i)
qed (simp_all add: tree_frame_def w4 agent_of_def fun_eq_iff)

lemma sim_openInteraction:
  assumes ctx: "ids ctx = gen" and op: "openInteraction f ctx w = Some w'"
  shows "sim gen w w'"
proof -
  let ?k = "io_interaction f"
  define w1 where "w1 = (case get (st_interactions w) ?k of None \<Rightarrow> w
    | Some p \<Rightarrow> w\<lparr>st_interactionHistory := put (st_interactionHistory w) (int_id p) p\<rparr>)"
  have s1: "sim gen w w1" unfolding w1_def by (auto split: option.splits intro: sim_histories)
  have fin: "sim gen w (emit (Interaction_opened x) (refreshInteractionIndex ?k (put_interaction ?k x (w3\<lparr>w_seq := Suc (w_seq w3)\<rparr>))))"
    if w3: "ensure_item ctx (io_agent f) (io_item f) ask_user_draft (ensureAgent ctx (io_agent f) w1) = Some w3"
      and x: "int_id x = gen Id_interaction (w_seq w3)" for w3 x
  proof -
    have s3: "item_sim gen w1 w3"
      using item_sim_trans [OF item_sim_ensureAgent [OF ctx] item_sim_ensure_item [OF ctx w3]] .
    then have "others w3 = others w1" by (simp add: item_sim_def)
    then have "get (st_interactionHistory w3) (int_id p) = Some p" if "get (st_interactions w3) ?k = Some p" for p
      using that by (auto simp: others_def w1_def split: option.splits)
    from sim_open [OF x this refl] s1 s3 show ?thesis by (blast intro: sim_trans item_simD)
  qed
  show ?thesis
    using op unfolding openInteraction_def Let_def w1_def [symmetric]
    by (elim bind_SomeE) (auto simp: next_id_def ctx split: if_splits elim!: bind_SomeE intro!: fin)
qed

lemma item_sim_link_child:
  assumes ctx: "ids ctx = gen" and op: "link_child f ctx w = Some w'"
  shows "item_sim gen w w'"
  using op by (auto simp: link_child_def split: option.splits intro: item_sim_linkAgent [OF ctx])

lemma put_task_frames [simp]:
  "agent_of (put_task k x w) = agent_of w" "st_status (put_task k x w) = st_status w"
  "st_taskHistory (put_task k x w) = st_taskHistory w" "st_interactionHistory (put_task k x w) = st_interactionHistory w"
  "w_events (put_task k x w) = w_events w"
  by (simp_all add: put_task_def agent_of_def fun_eq_iff)

lemma get_put_upd: "get (put d k x) = (get d)(k \<mapsto> x)"
  by (simp add: fun_eq_iff)

lemma agent_of_uncertain [simp]: "agent_of (w\<lparr>st_uncertainTasks := u\<rparr>) = agent_of w"
  by (simp add: agent_of_def fun_eq_iff)

lemma sim_task_ended:
  assumes "get (st_tasks w) k = Some task"
  shows "sim gen w (emit (Background_task_updated (task_id task) st t) (refreshTaskIndex k (put_task k
      (task\<lparr>task_status := st, task_endedAt := Some t\<rparr>) (w\<lparr>st_uncertainTasks := x\<rparr>))))"
  by (rule sim_task_write [OF assms, where task' = "task\<lparr>task_status := st, task_endedAt := Some t\<rparr>"])
    (auto simp: tree_frame_def get_put_upd update_task_def orelse_def)

lemma sim_lose_task: "sim gen w (lose_task t k w)"
proof (cases "get (st_tasks w) k")
  case (Some task)
  with sim_task_ended [OF Some, of Task_unknown t "st_uncertainTasks w"] show ?thesis by (simp add: lose_task_def)
qed (simp add: lose_task_def)

lemma sim_task_refined:
  assumes "get (st_tasks w) k = Some task" "task_id task' = task_id task"
  shows "sim gen w (emit (Background_task_started task') (put_task k task' w))"
  by (rule sim_task_write [OF assms, where e = "Background_task_started task'"]) (simp_all add: tree_frame_def get_put_upd)

lemma sim_listenBackground: "sim gen w (listenBackground k ports w)"
proof (cases "get (st_tasks w) k")
  case (Some task)
  show ?thesis using sim_task_refined [OF Some] by (simp add: listenBackground_def Some Let_def)
qed (simp add: listenBackground_def)

lemma sim_endBackground: "sim gen w (endBackground k st u ctx w)"
proof (cases "get (st_tasks w) k")
  case (Some task)
  show ?thesis using Some unfolding endBackground_def Let_def by (simp add: sim_task_ended)
qed (simp add: endBackground_def)

lemma put_task_same:
  assumes "get (st_tasks w) k = Some task"
  shows "put_task k task w = w"
  using put_same [OF assms] by (simp add: put_task_def)

lemma sim_refineBackground:
  assumes ctx: "ids ctx = gen" and op: "refineBackground f task ctx w = Some w'" and t: "get (st_tasks w) (bs_task f) = Some task"
  shows "sim gen w w'"
proof -
  let ?w1 = "ensureAgent ctx (bs_agent f) w"
  define adopts where "adopts \<longleftrightarrow> bs_childAgent f \<noteq> None \<and> task_childAgentId task = None"
  define w2 where "w2 = (case bs_childAgent f of None \<Rightarrow> ?w1 | Some c \<Rightarrow> if adopts then ensureAgent ctx c ?w1 else ?w1)"
  define names where "names \<longleftrightarrow> task_toolCallId task = None \<and> is_call (item_at (bs_item f) w2)"
  define w3 where "w3 = (if names then mark_background (bs_item f) (task_id task) w2 else w2)"
  define task' where "task' a = refined_task f (a_id a)
    (if adopts then Option.bind (bs_childAgent f) (\<lambda>c. map_option a_id (agent_of w2 c)) else task_childAgentId task)
    (if names then map_option item_id (item_at (bs_item f) w2) else task_toolCallId task) task" for a :: agent
  have "item_sim gen w w2"
    by (auto simp: w2_def split: option.splits
        intro: item_sim_ensureAgent [OF ctx] item_sim_trans [OF item_sim_ensureAgent [OF ctx] item_sim_ensureAgent [OF ctx]])
  then have s: "item_sim gen w w3" by (auto simp: w3_def intro: item_sim_trans [OF _ item_sim_mark_background])
  then have t3: "get (st_tasks w3) (bs_task f) = Some task" using t by (simp add: item_sim_def others_def)
  have ids: "task_id (task' a) = task_id task" for a by (simp add: task'_def refined_task_def)
  from op obtain a where
    w': "(if task_agentId task \<noteq> a_id a \<or> adopts \<or> names \<or> names_path f task \<or> stops_waking f task
        then link_child f ctx (emit (Background_task_started (task' a)) (put_task (bs_task f) (task' a) w3))
        else Some (put_task (bs_task f) (task' a) w3)) = Some w'"
    unfolding refineBackground_def Let_def adopts_def [symmetric] w2_def [symmetric] names_def [symmetric] w3_def [symmetric]
      task'_def [symmetric] by (elim bind_SomeE)
  show ?thesis
  proof (cases "task_agentId task \<noteq> a_id a \<or> adopts \<or> names \<or> names_path f task \<or> stops_waking f task")
    case True
    with w' have "link_child f ctx (emit (Background_task_started (task' a)) (put_task (bs_task f) (task' a) w3)) = Some w'" by simp
    from item_sim_link_child [OF ctx this] sim_task_refined [OF t3 ids] s show ?thesis by (blast intro: sim_trans item_simD)
  next
    case False
    then have "task' a = task" by (simp add: task'_def refined_task_def)
    with w' False put_task_same [OF t3] have "w' = w3" by simp
    with s show ?thesis by (simp add: item_sim_def)
  qed
qed

lemma sim_new_task:
  assumes i: "task_id x = gen Id_task (w_seq w)"
    and old: "\<And>p. get (st_tasks w) k = Some p \<Longrightarrow> get (st_taskHistory w) (task_id p) = Some p"
    and w4: "w4 = w\<lparr>w_seq := Suc (w_seq w), st_uncertainTasks := u\<rparr>"
  shows "sim gen w (emit (Background_task_started x) (refreshTaskIndex k (put_task k x w4)))"
proof (rule sim_task_event [where e = "Background_task_started x"])
  fix v assume s: "tasks_shown gen v w"
  note m = s [unfolded tasks_shown_def]
  have "mirrored (gen Id_task) (Suc (w_seq w)) task_id (=) ((get (st_tasks w))(k \<mapsto> x))
      (get (st_taskHistory w)) (put (v_backgroundTasks v) (gen Id_task (w_seq w)) x)"
    by (rule mirrored_new [OF m inj_gen i]) (simp_all add: old)
  then show "tasks_shown gen (show_event (Background_task_started x) v)
      (emit (Background_task_started x) (refreshTaskIndex k (put_task k x w4)))"
    by (simp add: tasks_shown_def show_event_frame w4 i get_put_upd)
qed (simp_all add: tree_frame_def w4 agent_of_def fun_eq_iff)

lemma sim_begin_task:
  assumes ctx: "ids ctx = gen" and op: "begin_task f ctx w = Some w'"
    and old: "\<And>p. get (st_tasks w) (bs_task f) = Some p \<Longrightarrow> get (st_taskHistory w) (task_id p) = Some p"
  shows "sim gen w w'"
proof -
  let ?w1 = "ensureAgent ctx (bs_agent f) w"
  define w2 where "w2 = (case bs_childAgent f of None \<Rightarrow> ?w1 | Some c \<Rightarrow> ensureAgent ctx c ?w1)"
  have s2: "item_sim gen w w2"
    by (auto simp: w2_def split: option.splits
        intro: item_sim_ensureAgent [OF ctx] item_sim_trans [OF item_sim_ensureAgent [OF ctx] item_sim_ensureAgent [OF ctx]])
  from op obtain w3 ag tc ch where w3: "ensure_item ctx (bs_agent f) (bs_item f) (background_draft f) w2 = Some w3"
    and w0: "link_child f ctx (mark_background (bs_item f) (gen Id_task (w_seq w3))
      (emit (Background_task_started (new_task f ctx (gen Id_task (w_seq w3)) ag tc ch)) (refreshTaskIndex (bs_task f)
        (put_task (bs_task f) (new_task f ctx (gen Id_task (w_seq w3)) ag tc ch) (w3\<lparr>w_seq := Suc (w_seq w3), st_uncertainTasks :=
          del (st_uncertainTasks w3) (bs_task f)\<rparr>))))) = Some w'"
    unfolding begin_task_def Let_def w2_def [symmetric] by (auto simp: next_id_def ctx elim!: bind_SomeE)
  define task where "task = new_task f ctx (gen Id_task (w_seq w3)) ag tc ch"
  have t: "task_id task = gen Id_task (w_seq w3)" by (simp add: task_def new_task_def)
  define w5 where "w5 = emit (Background_task_started task) (refreshTaskIndex (bs_task f)
      (put_task (bs_task f) task (w3\<lparr>w_seq := Suc (w_seq w3), st_uncertainTasks := del (st_uncertainTasks w3) (bs_task f)\<rparr>)))"
  have w': "link_child f ctx (mark_background (bs_item f) (gen Id_task (w_seq w3)) w5) = Some w'"
    using w0 by (simp only: task_def w5_def)
  have s3: "item_sim gen w w3" by (rule item_sim_trans [OF s2 item_sim_ensure_item [OF ctx w3]])
  then have "get (st_taskHistory w3) (task_id p) = Some p" if "get (st_tasks w3) (bs_task f) = Some p" for p
    using that old by (simp add: item_sim_def others_def)
  then have "sim gen w3 w5" unfolding w5_def by (intro sim_new_task [OF t _ refl])
  then have "sim gen w w5" by (rule sim_trans [OF item_simD [OF s3]])
  moreover have "sim gen w5 (mark_background (bs_item f) (gen Id_task (w_seq w3)) w5)" by (rule item_simD [OF item_sim_mark_background])
  ultimately show ?thesis using item_simD [OF item_sim_link_child [OF ctx w']] by (metis sim_trans)
qed

lemma sim_startBackground:
  assumes ctx: "ids ctx = gen" and op: "startBackground f ctx w = Some w'"
  shows "sim gen w w'"
proof (cases "get (st_tasks w) (bs_task f)")
  case None
  define returned where "returned \<longleftrightarrow> bs_kind f = Task_shell \<and> (case item_at (bs_item f) w of None \<Rightarrow> False | Some i \<Rightarrow> item_complete i)"
  from None op have "w' = w \<or> begin_task f ctx w = Some w'"
    by (cases returned) (simp_all add: startBackground_def Let_def flip: returned_def)
  then consider "w' = w" | "begin_task f ctx w = Some w'" by blast
  then show ?thesis
  proof cases
    case 2
    show ?thesis by (rule sim_begin_task [OF ctx 2]) (use None in simp)
  qed simp
next
  case (Some task)
  let ?h = "w\<lparr>st_taskHistory := put (st_taskHistory w) (task_id task) task\<rparr>"
  define returned where "returned \<longleftrightarrow> bs_kind f = Task_shell \<and> (case item_at (bs_item f) w of None \<Rightarrow> False | Some i \<Rightarrow> item_complete i)"
  from Some op have "w' = w \<or> refineBackground f task ctx w = Some w' \<or> begin_task f ctx ?h = Some w'"
    by (cases returned; cases "task_status task = Task_running") (simp_all add: startBackground_def Let_def flip: returned_def)
  then consider "w' = w" | "refineBackground f task ctx w = Some w'" | "begin_task f ctx ?h = Some w'" by blast
  then show ?thesis
  proof cases
    case 3
    have "sim gen ?h w'" by (rule sim_begin_task [OF ctx 3]) (use Some in simp)
    with sim_histories(2) [OF Some] show ?thesis by (rule sim_trans)
  qed (use sim_refineBackground [OF ctx _ Some] in auto)
qed

subsection \<open>Runs and cleanup (runs.ts, cleanup.ts)\<close>

lemma sim_cancelOpenWork: "sim gen w (cancelOpenWork a t res w)"
  unfolding cancelOpenWork_def Let_def
  by (rule sim_trans [OF sim_trans [OF sim_fold [OF item_simD [OF item_sim_cancel_foreground]]
      sim_fold [OF item_simD [OF item_sim_closeText]]] sim_fold [OF sim_close_pending]])

lemma sim_frame:
  assumes "agent_of w' = agent_of w" "w_events w' = w_events w" "others w' = others w" "st_runs w' = st_runs w"
    "st_items w' = st_items w" "st_status w' = st_status w" "w_seq w \<le> w_seq w'"
  shows "sim gen w w'"
  by (rule item_simD [OF tree_item_sim [OF tree_sim_frame [OF assms]]])

lemma sim_upd_agent: "(\<And>r. ar_agent (f r) = ar_agent r) \<Longrightarrow> sim gen w (upd_agent k f w)"
  by (rule item_simD [OF item_sim_upd_agent])

lemma put_run_frames [simp]:
  "agent_of (put_run k x w) = agent_of w" "st_status (put_run k x w) = st_status w" "others (put_run k x w) = others w"
  "w_events (put_run k x w) = w_events w"
  by (simp_all add: put_run_def agent_of_def fun_eq_iff)

text \<open>A run ended, with its event; the agent record may change in between.\<close>

lemma sim_run_end:
  assumes r: "get (st_runs w) i = Some r" and r': "r' = fst (end_run st steer t None tr (r, []))"
    and w': "w_events w' = w_events w @ [Run_ended (run_id r) st steer t tr]" "st_runs w' = put (st_runs w) (run_id r) r'"
      "tree_frame w w'" "others w' = others w" "w_seq w \<le> w_seq w'"
  shows "sim gen w w'"
proof (rule sim_run_event [where e = "Run_ended (run_id r) st steer t tr"])
  fix v assume s: "runs_shown gen v w"
  have m: "mirrored (gen Id_run) (w_seq w) run_id (\<lambda>y r. fst y = r) (get (st_runs w)) no_history (v_runs v)"
    and facts: "\<And>i r. get (st_runs w) i = Some r \<Longrightarrow> run_facts i r" using s by (simp_all add: runs_shown_def)
  have ri: "run_id r = i" using facts [OF r] by (simp add: run_facts_def)
  obtain y where y: "get (v_runs v) (run_id r) = Some y" "fst y = r" using mirroredD(1) [OF m r] by auto
  have id': "run_id r' = run_id r" by (simp add: r' end_run_def)
  have "mirrored (gen Id_run) (w_seq w) run_id (\<lambda>y r. fst y = r) ((get (st_runs w))(i \<mapsto> r')) no_history
      (modify (v_runs v) (run_id r) (end_run st steer t None tr))"
    by (rule mirrored_update [OF m r id', of _ "(r', snd y)"]) (use y in \<open>auto simp: r' end_run_def case_prod_beta\<close>)
  moreover have "run_facts j q" if "get (st_runs w') j = Some q" for j q
    using that facts ri id' by (auto simp: w' run_facts_def r' end_run_def split: if_splits)
  ultimately show "runs_shown gen (show_event (Run_ended (run_id r) st steer t tr) v) w'"
    using w'(5) by (simp add: runs_shown_def show_event_frame w' ri get_put_upd mirrored_mono)
qed (use w' in auto)

lemma sim_run_start:
  assumes r: "run_id r = gen Id_run (w_seq w)" "run_state r = Run_active"
    and w': "w_events w' = w_events w @ [Run_started r]" "st_runs w' = put (st_runs w) (run_id r) r"
      "tree_frame w w'" "others w' = others w" "w_seq w' = Suc (w_seq w)"
  shows "sim gen w w'"
proof (rule sim_run_event [where e = "Run_started r"])
  fix v assume s: "runs_shown gen v w"
  have m: "mirrored (gen Id_run) (w_seq w) run_id (\<lambda>y r. fst y = r) (get (st_runs w)) no_history (v_runs v)"
    and facts: "\<And>i r. get (st_runs w) i = Some r \<Longrightarrow> run_facts i r" using s by (simp_all add: runs_shown_def)
  have "get (st_runs w) (run_id r) = None"
  proof (rule ccontr)
    assume "get (st_runs w) (run_id r) \<noteq> None"
    then obtain q where q: "get (st_runs w) (run_id r) = Some q" by auto
    with facts [OF q] mirrored_fresh(2) [OF m inj_gen order.refl q] r(1) show False by (simp add: run_facts_def)
  qed
  then have "mirrored (gen Id_run) (Suc (w_seq w)) run_id (\<lambda>y r. fst y = r) ((get (st_runs w))(run_id r \<mapsto> r)) no_history
      (put (v_runs v) (gen Id_run (w_seq w)) (r, []))"
    by (intro mirrored_new [OF m inj_gen r(1)]) simp_all
  moreover have "run_facts j q" if "get (st_runs w') j = Some q" for j q
    using that facts r(2) by (auto simp: w' run_facts_def split: if_splits)
  ultimately show "runs_shown gen (show_event (Run_started r) v) w'"
    by (simp add: runs_shown_def show_event_frame w' get_put_upd r(1) [symmetric])
qed (use w' in auto)

end

end
