(* ===== verification/Projection_Rebuild.thy ===== *)
theory Projection_Rebuild
  imports Projection_Replay
begin

text \<open>
  The rest of the simulation: turns, the exit of the process, statuses and the reducer; then whole
  threads. A client that folds every event the core has emitted holds the state of the core.
\<close>

context view_source
begin

subsection \<open>Turns (runs.ts)\<close>

lemma sim_next_order: "(\<And>r. ar_agent (f r) = ar_agent r) \<Longrightarrow> sim gen w (next_order k f w)"
  unfolding next_order_def Let_def
  by (rule sim_trans [OF sim_frame sim_upd_agent]) (simp_all add: agent_of_def fun_eq_iff)

lemma sim_finish_turn:
  assumes r: "get (st_runs w) i = Some run"
  shows "sim gen w (finish_turn f ctx rec run keep w)"
proof -
  define st where "st = outcome_state (te_outcome f)"
  define run' where "run' = run\<lparr>run_state := st, run_endedAt := Some (now ctx),
    run_endedBy_steer := (te_endedBy_steer f \<or> run_endedBy_steer run), run_trigger := given (te_trigger f) (run_trigger run)\<rparr>"
  define w1 where "w1 = emit (Run_ended (run_id run) st (te_endedBy_steer f) (now ctx) (te_trigger f)) (put_run (run_id run) run' w)"
  have s1: "sim gen w w1"
    by (rule sim_run_end [OF r, where r' = run']) (simp_all add: w1_def run'_def end_run_def tree_frame_def)
  have s2: "sim gen w1 (upd_agent (te_agent f) (settle_record f i n) (w1\<lparr>st_outcomeOrder := n\<rparr>))" for i n
    by (rule sim_trans [OF sim_frame sim_upd_agent]) (simp_all add: agent_of_def fun_eq_iff settle_record_def)
  show ?thesis
    unfolding finish_turn_def Let_def st_def [symmetric] run'_def [symmetric] w1_def [symmetric]
    by (auto intro: s1 sim_trans [OF s1 sim_trans [OF s2 sim_cancelOpenWork]])
qed

lemma sim_retrigger:
  assumes r: "get (st_runs w) i = Some run" "run_state run \<noteq> Run_active"
  shows "sim gen w (retrigger f ctx run w)"
proof (cases "te_trigger f")
  case (Some tr)
  let ?t = "given (run_endedAt run) (now ctx)"
  let ?w = "emit (Run_ended (run_id run) (run_state run) False ?t (Some tr)) (put_run (run_id run) (run\<lparr>run_trigger := tr\<rparr>) w)"
  have "sim gen w ?w"
  proof (rule simI)
    fix v assume s: "shown gen (replayed v (w_events w)) w"
    then have "run_facts i run" using r(1) by (simp add: shown_def runs_shown_def)
    with r(2) have "run\<lparr>run_trigger := tr\<rparr> = fst (end_run (run_state run) False ?t None (Some tr) (run, []))"
      by (auto simp: run_facts_def end_run_def given_def)
    then have "sim gen w ?w" by (rule sim_run_end [OF r(1)]) (simp_all add: tree_frame_def)
    with s show "shown gen (replayed v (w_events ?w)) ?w" by (simp add: sim_def)
  qed
  with Some show ?thesis by (simp add: retrigger_def)
qed (simp add: retrigger_def)

lemma storeRun_frames:
  "agent_of (storeRun k r w) = agent_of w" "st_status (storeRun k r w) = st_status w" "others (storeRun k r w) = others w"
  "w_events (storeRun k r w) = w_events w" "st_runs (storeRun k r w) = put (st_runs w) (run_id r) r"
  "st_items (storeRun k r w) = st_items w" "w_seq (storeRun k r w) = w_seq w"
  by (simp_all add: storeRun_def Let_def agent_of_upd_same split: option.split)

lemma matchingRun_get: "matchingRun w r n = Some run \<Longrightarrow> \<exists>i. get (st_runs w) i = Some run"
  by (auto simp: matchingRun_def bind_Some_iff)

lemma activeRun_get: "activeRunOf w r = Some run \<Longrightarrow> \<exists>i. get (st_runs w) i = Some run"
  by (auto simp: activeRunOf_def bind_Some_iff)

text \<open>A run that starts, with its event after the writes to the agent record.\<close>

lemma sim_new_run:
  assumes ctx: "ids ctx = gen" and run: "run_id run = gen Id_run (w_seq w)" "run_state run = Run_active"
    and f: "\<And>r. ar_agent (f r) = ar_agent r"
  shows "sim gen w (emit (Run_started run) ((upd_agent k f (storeRun k run (w\<lparr>w_seq := Suc (w_seq w)\<rparr>)))\<lparr>st_hasRun := True\<rparr>))"
proof -
  have seq: "agent_of (w\<lparr>w_seq := n\<rparr>) = agent_of w" "agent_of (v\<lparr>st_hasRun := b\<rparr>) = agent_of v" for n b and v :: world
    by (simp_all add: agent_of_def fun_eq_iff)
  show ?thesis
    by (rule sim_run_start [OF run]) (simp_all add: storeRun_frames tree_frame_def agent_of_upd_same [OF f] seq)
qed

lemma sim_endTurn:
  assumes ctx: "ids ctx = gen"
  shows "sim gen w0 (endTurn f ctx w0)"
proof -
  define w where "w = ensureAgent ctx (te_agent f) w0"
  have s0: "sim gen w0 w" unfolding w_def by (rule item_simD [OF item_sim_ensureAgent [OF ctx]])
  obtain r where r: "get (st_agents w) (te_agent f) = Some r"
    using agent_of_has [of w "te_agent f"] by (auto simp: w_def agent_of_def)
  define active where "active = activeRunOf w r"
  define found where "found = (case te_nativeTurnId f of None \<Rightarrow> active | Some nid \<Rightarrow> matchingRun w r nid)"
  have got: "\<exists>i. get (st_runs w) i = Some run" if "found = Some run" for run
    using that by (auto simp: found_def active_def split: option.splits dest: matchingRun_get activeRun_get)
  have "sim gen w (endTurn f ctx w0)"
  proof (cases found)
    case (Some run)
    with got obtain i where i: "get (st_runs w) i = Some run" by blast
    show ?thesis
      using Some r sim_retrigger [OF i] sim_finish_turn [OF i]
      by (simp add: endTurn_def Let_def flip: w_def active_def found_def)
  next
    case None
    define run where "run = new_run ctx (w\<lparr>w_seq := Suc (w_seq w)\<rparr>) (gen Id_run (w_seq w)) (a_id (ar_agent r))
      (given (te_trigger f) Tr_unknown) (te_nativeTurnId f)"
    define w2 where "w2 = emit (Run_started run) ((storeRun (te_agent f) run (w\<lparr>w_seq := Suc (w_seq w)\<rparr>))\<lparr>st_hasRun := True\<rparr>)"
    have fields: "run_id run = gen Id_run (w_seq w)" "run_state run = Run_active" by (simp_all add: run_def new_run_def)
    have "agent_of (v\<lparr>st_hasRun := b\<rparr>) = agent_of v" "agent_of (w\<lparr>w_seq := n\<rparr>) = agent_of w" for v :: world and b n
      by (simp_all add: agent_of_def fun_eq_iff)
    then have s2: "sim gen w w2"
      by (intro sim_run_start [OF fields]) (simp_all add: w2_def storeRun_frames tree_frame_def)
    have "get (st_runs w2) (run_id run) = Some run" by (simp add: w2_def storeRun_frames)
    from sim_trans [OF s2 sim_finish_turn [OF this]] None r show ?thesis
      by (simp add: endTurn_def Let_def next_id_def ctx flip: w_def active_def found_def run_def w2_def)
  qed
  with s0 show ?thesis by (rule sim_trans)
qed

lemma sim_startTurn:
  assumes ctx: "ids ctx = gen"
  shows "sim gen w0 (startTurn f ctx w0)"
proof -
  define k where "k = ts_agent f"
  define w where "w = ensureAgent ctx k w0"
  have s0: "sim gen w0 w" unfolding w_def by (rule item_simD [OF item_sim_ensureAgent [OF ctx]])
  obtain r where r: "get (st_agents w) k = Some r"
    using agent_of_has [of w k] by (auto simp: w_def agent_of_def)
  define active where "active = activeRunOf w r"
  define w1 where "w1 = (if active = None \<and> ar_lastRun r \<noteq> None then announceAgentBranch k w else w)"
  define w2 where "w2 = (case active of None \<Rightarrow> w1
    | Some a \<Rightarrow> endTurn \<lparr>te_agent = k, te_nativeTurnId = run_nativeId a, te_outcome = Was_interrupted,
        te_endedBy_steer = False, te_trigger = None, te_error = None, te_historical = False\<rparr> ctx w1)"
  have s1: "sim gen w w1" unfolding w1_def by (auto intro: item_simD tree_item_sim tree_sim_announce)
  have s2: "sim gen w1 w2" unfolding w2_def by (auto split: option.splits intro: sim_endTurn [OF ctx])
  define run where "run = (new_run ctx (w2\<lparr>w_seq := Suc (w_seq w2)\<rparr>) (gen Id_run (w_seq w2)) (a_id (ar_agent r)) (ts_trigger f)
      (ts_nativeTurnId f))\<lparr>run_provider := (if ts_permissionMode f = None then None else Some (cfg_provider (st_config w2))),
       run_permissionMode := ts_permissionMode f\<rparr>"
  have fields: "run_id run = gen Id_run (w_seq w2)" "run_state run = Run_active" by (simp_all add: run_def new_run_def)
  define w5 where "w5 = emit (Run_started run) ((upd_agent k (\<lambda>r. r\<lparr>ar_activeRun := Some (gen Id_run (w_seq w2)),
      ar_processSettledStatus := None, ar_activity := Starting_turn, ar_detail := None, ar_wakeUntil := None, ar_retry := None\<rparr>)
      (storeRun k run (w2\<lparr>w_seq := Suc (w_seq w2)\<rparr>)))\<lparr>st_hasRun := True\<rparr>)"
  have s5: "sim gen w2 w5" unfolding w5_def by (rule sim_new_run [OF ctx fields]) simp
  have "startTurn f ctx w0 = w \<or> startTurn f ctx w0 = w5"
    unfolding startTurn_def Let_def next_id_def k_def [symmetric] w_def [symmetric] r option.case active_def [symmetric]
      w1_def [symmetric] w2_def [symmetric] prod.case
    by (simp add: ctx w5_def run_def)
  with s0 s1 s2 s5 show ?thesis by (metis sim_trans)
qed

subsection \<open>The exit of the process (cleanup.ts)\<close>

lemma sim_exit_agent: "sim gen w (exit_agent d m t k w)"
proof (cases "get (st_agents w) k")
  case (Some r)
  define w1 where "w1 = upd_agent k (\<lambda>r. r\<lparr>ar_disconnectedAt := None, ar_retry := None, ar_wakeUntil := None\<rparr>) w"
  have s1: "sim gen w w1" unfolding w1_def by (rule sim_upd_agent) simp
  have s2: "sim gen w1 (next_order k (\<lambda>r. r\<lparr>ar_processSettledStatus := s\<rparr>) w1)" for s by (rule sim_next_order) simp
  have s3: "sim gen w1 (end_run_on_exit d m t k run w1)" if run: "get (st_runs w1) i = Some run" for i run
    unfolding end_run_on_exit_def Let_def
    by (rule sim_run_end [OF run refl, where st = "if d then Run_interrupted else Run_failed" and steer = False and t = t and tr = None])
      (simp_all add: tree_frame_def end_run_def next_order_def Let_def agent_of_upd_same put_run_def others_def upd_agent_def
        agent_of_def fun_eq_iff option.map_comp o_def orelse_def given_def)
  have s4: "sim gen v (upd_agent k (\<lambda>r. r\<lparr>ar_activeRun := None\<rparr>) v)" for v by (rule sim_upd_agent) simp
  show ?thesis
  proof (cases "ar_activeRun r")
    case None
    then show ?thesis using Some s1 sim_trans [OF s1 s2]
      by (simp add: exit_agent_def Let_def flip: w1_def)
  next
    case (Some i)
    with \<open>get (st_agents w) k = Some r\<close> show ?thesis
      using sim_trans [OF s1 s4] sim_trans [OF s1 sim_trans [OF s3 s4]]
      by (auto simp: exit_agent_def Let_def simp flip: w1_def split: option.splits)
  qed
qed (simp add: exit_agent_def)

lemma sim_exitProcess: "sim gen w (exitProcess d m ctx w)"
proof -
  have e: "sim gen w (w\<lparr>st_processExit := x\<rparr>)" for x by (rule sim_frame) (simp_all add: agent_of_def fun_eq_iff)
  show ?thesis
    unfolding exitProcess_def Let_def
    by (auto intro: sim_trans [OF sim_trans [OF sim_trans [OF sim_trans [OF sim_trans [OF e sim_fold [OF sim_close_pending]]
        sim_fold [OF sim_lose_task]] sim_fold [OF item_simD [OF item_sim_cancelTool]]]
        sim_fold [OF item_simD [OF item_sim_closeText]]] sim_fold [OF sim_exit_agent]])
qed

subsection \<open>Statuses (status.ts)\<close>

lemma agents_announce: "st_agents (announceAgentBranch k w) = st_agents w"
proof -
  have "st_agents (fold (\<lambda>a w. if a_id a \<in> set an then w else emit (Agent_created a) w) as v) = st_agents v"
    for as an and v :: world
    by (induction as arbitrary: v) simp_all
  then show ?thesis by (simp add: announceAgentBranch_def Let_def)
qed

lemma sim_write_status: "sim gen w (write_status p w)"
proof -
  obtain k st rel where p: "p = (k, st, rel)" by (cases p)
  show ?thesis
  proof (cases "get (st_agents w) k")
    case (Some r)
    define w1 where "w1 = (if isSettled (a_status (ar_agent r)) \<and> \<not> isSettled st then announceAgentBranch k w else w)"
    have r1: "get (st_agents w1) k = Some r" using Some by (simp add: w1_def agents_announce)
    have "tree_sim gen w w1" unfolding w1_def by (auto intro: tree_sim_announce)
    moreover have "tree_sim gen w1 (emit (Agent_status_changed (a_id (ar_agent r)) st rel)
        (upd_agent k (\<lambda>r. r\<lparr>ar_agent := (ar_agent r)\<lparr>a_status := st\<rparr>, ar_completionRelevant := Some rel\<rparr>) w1))"
      by (rule tree_sim_agent_event [OF r1, where a' = "(ar_agent r)\<lparr>a_status := st\<rparr>"])
        (auto simp: show_event_agents)
    ultimately show ?thesis
      using Some p by (auto simp: write_status_def Let_def simp flip: w1_def intro: item_simD tree_item_sim tree_sim_trans)
  qed (simp add: p write_status_def)
qed

lemma sim_write_thread_status: "sim gen w (write_thread_status st w)"
proof -
  have "shown gen (replayed v (w_events w @ [Thread_updated st])) (emit (Thread_updated st) (w\<lparr>st_status := st\<rparr>))"
    if "shown gen (replayed v (w_events w)) w" for v
  proof -
    have "agent_of (w\<lparr>st_status := st\<rparr>) = agent_of w" by (simp add: agent_of_def fun_eq_iff)
    with that show ?thesis
      by (simp add: shown_def shown_defs show_event_frame show_event_agents show_event_items)
  qed
  then show ?thesis by (simp add: write_thread_status_def sim_def)
qed

lemma sim_recompute:
  assumes "recomputeStatuses t w = Some w'"
  shows "sim gen w w'"
proof -
  have obs: "sim gen w (w\<lparr>st_statusObservedAt := x\<rparr>)" for x by (rule sim_frame) (simp_all add: agent_of_def fun_eq_iff)
  from assms obtain v st where "w' = write_thread_status st (fold write_status v (w\<lparr>st_statusObservedAt := Some t\<rparr>))"
    unfolding recomputeStatuses_def Let_def by (auto elim!: bind_SomeE)
  then show ?thesis
    by (auto intro: sim_trans [OF sim_trans [OF obs sim_fold [OF sim_write_status]] sim_write_thread_status])
qed

subsection \<open>The reducer (reduce.ts)\<close>

lemma sim_ensureAgent: "ids ctx = gen \<Longrightarrow> sim gen w (ensureAgent ctx k w)"
  by (rule item_simD [OF item_sim_ensureAgent])

lemma sim_with_agent:
  assumes ctx: "ids ctx = gen" and f: "\<And>r. ar_agent (f r) = ar_agent r"
  shows "sim gen w (with_agent ctx k f w)"
  unfolding with_agent_def by (rule sim_trans [OF sim_ensureAgent [OF ctx] sim_upd_agent [OF f]])

lemma sim_beat: "sim gen w (upd_agent k (beat t) w)"
  by (rule sim_upd_agent) (simp add: beat_def)

lemma sim_signal:
  assumes ctx: "ids ctx = gen"
  shows "sim gen w (signal f ctx w)"
  unfolding signal_def
  by (auto split: option.splits intro: sim_beat sim_fold sim_trans [OF sim_ensureAgent [OF ctx] sim_beat])

lemma sim_set_external:
  assumes ctx: "ids ctx = gen"
  shows "sim gen w0 (set_external k i st ctx w0)"
proof -
  define w where "w = ensureAgent ctx k w0"
  have s0: "sim gen w0 w" unfolding w_def by (rule sim_ensureAgent [OF ctx])
  obtain r where r: "get (st_agents w) k = Some r"
    using agent_of_has [of w k] by (auto simp: w_def agent_of_def)
  define w1 where "w1 = (if st = Thread_failed \<and> ar_externalStatus r \<noteq> Some Thread_failed then next_order k (\<lambda>r. r) w else w)"
  define w2 where "w2 = upd_agent k (\<lambda>r. r\<lparr>ar_externalStatus := Some st\<rparr>) w1"
  have "sim gen w w1" unfolding w1_def by (auto intro: sim_next_order)
  moreover have "sim gen w1 w2" unfolding w2_def by (rule sim_upd_agent) simp
  ultimately have s2: "sim gen w0 w2" using s0 by (blast intro: sim_trans)
  have "\<exists>r1. get (st_agents w1) k = Some r1 \<and> ar_agent r1 = ar_agent r"
    using r by (auto simp: w1_def next_order_def Let_def)
  then obtain r2 where r2: "get (st_agents w2) k = Some r2" "ar_agent r2 = ar_agent r" by (auto simp: w2_def)
  have "tree_sim gen w2 (emit (Agent_updated (a_id (ar_agent r)) (no_update\<lparr>u_childThreadId := Some i\<rparr>))
      (upd_agent k (\<lambda>r. r\<lparr>ar_agent := (ar_agent r)\<lparr>a_childThreadId := Some i\<rparr>\<rparr>) w2))"
    by (rule tree_sim_agent_event [OF r2(1), where a' = "(ar_agent r2)\<lparr>a_childThreadId := Some i\<rparr>"])
      (auto simp: r2(2) show_event_agents apply_update_def no_update_def orelse_def given_def)
  then have s3: "sim gen w2 (emit (Agent_updated (a_id (ar_agent r)) (no_update\<lparr>u_childThreadId := Some i\<rparr>))
      (upd_agent k (\<lambda>r. r\<lparr>ar_agent := (ar_agent r)\<lparr>a_childThreadId := Some i\<rparr>\<rparr>) w2))"
    by (rule item_simD [OF tree_item_sim])
  show ?thesis
    using r s2 sim_trans [OF s2 s3] by (simp add: set_external_def Let_def flip: w_def w1_def w2_def)
qed

lemma sim_change_queue: "sim gen w (change_queue n so h st w)"
  unfolding change_queue_def Let_def
  by (auto intro!: sim_frame simp: agent_of_def fun_eq_iff others_def)

text \<open>Events that touch no entity; an admitted input touches only items that are not the core's.\<close>

lemma sim_emit_inert:
  assumes "\<not> agent_event e" and "case e of Usage_updated _ _ \<Rightarrow> True | Context_sampled _ _ \<Rightarrow> True | Input_admitted _ _ _ \<Rightarrow> True | _ \<Rightarrow> False"
  shows "sim gen w (emit e w)"
proof (rule simI)
  fix v assume s: "shown gen (replayed v (w_events w)) w"
  let ?v = "replayed v (w_events w)"
  have "v_items (show_event e ?v) = v_items ?v"
  proof (cases e)
    case (Input_admitted i n c)
    have m: "mirrored (gen Id_item) (w_seq w) item_id (\<lambda>y i. plain y = plain i) (get (st_items w)) no_history (v_items ?v)"
      using s by (simp add: shown_def items_shown_def)
    have "get (v_items ?v) (''input:'' @ the c) = None"
    proof (rule ccontr)
      assume "get (v_items ?v) (''input:'' @ the c) \<noteq> None"
      then have "has (v_items ?v) (''input:'' @ the c)" by (simp add: has_def)
      from mirroredD(6) [OF m this] obtain k x where x: "get (st_items w) k = Some x" "item_id x = ''input:'' @ the c"
        by (auto simp: no_history_def)
      from mirroredD(2) [OF m x(1)] obtain j where "item_id x = gen Id_item j" by auto
      with x(2) no_input_id [of j "the c"] show False by metis
    qed
    then show ?thesis using Input_admitted by (simp add: show_event_items fold_input_admitted_def modify_id)
  qed (use assms in \<open>simp_all add: show_event_items\<close>)
  then show "shown gen (replayed v (w_events (emit e w))) (emit e w)"
    using s assms by (cases e) (simp_all add: shown_def shown_defs show_event_frame show_event_agents)
qed

lemma sim_emit_for:
  assumes ctx: "ids ctx = gen" and e: "\<And>i. sim gen (ensureAgent ctx k w) (emit (e i) (ensureAgent ctx k w))"
  shows "sim gen w (emit_for ctx k e w)"
  unfolding emit_for_def Let_def
  using sim_trans [OF sim_ensureAgent [OF ctx] e] sim_ensureAgent [OF ctx] by (auto split: option.splits)

lemma sim_inert_for:
  assumes ctx: "ids ctx = gen"
  shows "sim gen w (emit_for ctx k (\<lambda>i. Input_admitted i n c) w)" "sim gen w (emit_for ctx k (\<lambda>i. Usage_updated i p) w)"
    "sim gen w (emit_for ctx k (\<lambda>i. Context_sampled i p) w)"
  by (rule sim_emit_for [OF ctx sim_emit_inert]; simp)+

lemma sim_step_fact:
  assumes ctx: "ids ctx = gen" and op: "step_fact f ctx w = Some w'"
  shows "sim gen w w'"
proof (cases f)
  case (F_agent_external k i st) with op sim_set_external [OF ctx] show ?thesis by auto
next
  case (F_agent_seen x) with op item_simD [OF item_sim_seeAgent [OF ctx]] show ?thesis by simp
next
  case (F_agent_linked x) with op item_simD [OF item_sim_linkAgent [OF ctx]] show ?thesis by simp
next
  case (F_input_admitted a i c) with op sim_inert_for [OF ctx] show ?thesis by auto
next
  case (F_turn_started x) with op sim_startTurn [OF ctx] show ?thesis by auto
next
  case (F_turn_ended x) with op sim_endTurn [OF ctx] show ?thesis by auto
next
  case (F_subagents_waiting a k t) with op item_simD [OF tree_item_sim [OF tree_sim_put_link]] show ?thesis by auto
next
  case (F_item_upsert a k d)
  with op show ?thesis by (auto intro: item_simD item_sim_trans [OF item_sim_upsert [OF ctx] item_sim_show_item])
next
  case (F_item_reconciled a k d)
  with op show ?thesis by (auto intro: item_simD item_sim_trans [OF item_sim_reconcile [OF ctx] item_sim_show_item])
next
  case (F_item_delta a k fld t) with op item_simD [OF item_sim_appendItem [OF ctx]] show ?thesis by auto
next
  case (F_interaction_opened x) with op sim_openInteraction [OF ctx] show ?thesis by simp
next
  case (F_interaction_closed x) with op sim_closeInteraction show ?thesis by auto
next
  case (F_background_started x) with op sim_startBackground [OF ctx] show ?thesis by simp
next
  case (F_background_listening k p) with op sim_listenBackground show ?thesis by auto
next
  case (F_background_ended k s u) with op sim_endBackground show ?thesis by auto
next
  case (F_usage a u) with op sim_inert_for [OF ctx] show ?thesis by auto
next
  case (F_context_sample a u) with op sim_inert_for [OF ctx] show ?thesis by auto
next
  case (F_process_exited d m) with op sim_exitProcess show ?thesis by auto
next
  case F_process_started
  have "sim gen w (w\<lparr>st_queueProvider := 0, st_queueCount := st_queueEngine w, st_processExit := None\<rparr>)"
    by (rule sim_frame) (simp_all add: agent_of_def fun_eq_iff others_def)
  with F_process_started op show ?thesis by auto
next
  case (F_queue_changed n so h st) with op sim_change_queue show ?thesis by auto
qed (use op in \<open>auto intro!: sim_with_agent [OF ctx] simp: note_retry_def clear_limit_def\<close>)

lemma sim_reconcileLinks: "ids ctx = gen \<Longrightarrow> reconcileLinks ctx w = Some w' \<Longrightarrow> sim gen w w'"
  by (rule item_simD [OF item_sim_reconcileLinks])

lemma sim_flushNotices: "ids ctx = gen \<Longrightarrow> sim gen w (flushNotices ctx w)"
  by (rule item_simD [OF item_sim_flushNotices])

lemma sim_quiet_end:
  assumes ctx: "ids ctx = gen" and op: "quiet_end b ctx w = Some w'"
  shows "sim gen w w'"
  using op unfolding quiet_end_def
  by (auto elim!: bind_SomeE split: if_splits intro: sim_flushNotices [OF ctx]
      sim_trans [OF sim_trans [OF sim_reconcileLinks [OF ctx] sim_recompute] sim_flushNotices [OF ctx]])

lemma sim_accept_fact:
  assumes ctx: "ids ctx = gen" and fin: "\<And>w w' x. finish w = Some (w', x) \<Longrightarrow> sim gen w w'"
    and op: "accept_fact finish quiet f ctx w0 = Some (w', x)"
  shows "sim gen w0 w'"
proof -
  from op obtain w where w: "ensureInitialRoot ctx w0 = Some w"
    unfolding accept_fact_def Let_def by (auto elim!: bind_SomeE)
  define w1 where "w1 = (if carries_signal f then w\<lparr>st_lastTransportSignalAt := Some (now ctx)\<rparr> else w)"
  define w2 where "w2 = signal f ctx w1"
  have "sim gen w w1" unfolding w1_def by (auto intro!: sim_frame simp: agent_of_def fun_eq_iff)
  moreover have "sim gen w0 w" by (rule item_simD [OF item_sim_ensureInitialRoot [OF ctx w]])
  moreover have "sim gen w1 w2" unfolding w2_def by (rule sim_signal [OF ctx])
  ultimately have s2: "sim gen w0 w2" by (blast intro: sim_trans)
  have wide: "sim gen w2 v" if "(do { w3 \<leftarrow> step_fact f ctx w2; w4 \<leftarrow> reconcileLinks ctx (flushNotices ctx w3); finish w4 }) = Some (v, y)" for v y
    using that
    by (elim bind_SomeE) (blast intro: sim_trans sim_step_fact [OF ctx] sim_flushNotices [OF ctx] sim_reconcileLinks [OF ctx] fin)
  show ?thesis
  proof (rule sim_trans [OF s2])
    note e = op [unfolded accept_fact_def Let_def w, simplified, folded w1_def, folded w2_def]
    show "sim gen w2 w'"
    proof (cases f)
      case (F_item_delta a k fld t)
      with e obtain c w3 b where "appendItem ctx a k fld t w2 = Some (c, w3)" "quiet_end b ctx w3 = Some w'"
        by (auto elim!: bind_SomeE)
      then show ?thesis by (blast intro: sim_trans sim_quiet_end [OF ctx] item_simD [OF item_sim_appendItem [OF ctx]])
    next
      case (F_retry_cleared a)
      show ?thesis
      proof (cases "nothing_to_clear a (ensureAgent ctx a w2)")
        case True
        with e F_retry_cleared obtain b where "quiet_end b ctx (ensureAgent ctx a w2) = Some w'" by auto
        then show ?thesis by (blast intro: sim_trans sim_quiet_end [OF ctx] sim_ensureAgent [OF ctx])
      next
        case False
        with e F_retry_cleared show ?thesis by (intro wide) simp
      qed
    qed (use e in \<open>auto intro: wide\<close>)
  qed
qed

text \<open>The events of one call start from an empty list.\<close>

lemma sim_fold_fact:
  assumes ctx: "ids ctx = gen" and fin: "\<And>w w' x. finish w = Some (w', x) \<Longrightarrow> sim gen w w'"
    and op: "fold_fact finish quiet rd input ctx w = Some (w', x)"
  shows "sim gen (w\<lparr>w_events := []\<rparr>) w'"
  using op sim_accept_fact [OF ctx fin] item_simD [OF item_sim_rejectFact [OF ctx]]
  by (auto simp: fold_fact_def Let_def split: if_splits sum.splits)

lemma shown_events [simp]: "shown gen v (w\<lparr>w_events := es\<rparr>) = shown gen v w"
proof -
  have "agent_of (w\<lparr>w_events := es\<rparr>) = agent_of w" by (simp add: agent_of_def fun_eq_iff)
  then show ?thesis by (simp add: shown_def shown_defs)
qed

lemma sim_from_reset: "sim gen (w\<lparr>w_events := []\<rparr>) w' \<Longrightarrow> shown gen v w \<Longrightarrow> shown gen (replayed v (w_events w')) w'"
  unfolding sim_def by (elim allE [of _ v]) simp

lemma shown_flush:
  assumes "flush_batch b = Some (es, b')" "shown gen v (fb_state b)"
  shows "shown gen (replayed v es) (fb_state b')"
proof (cases "fb_pendingAt b")
  case (Some t)
  with assms(1) obtain w where "recomputeStatuses t ((fb_state b)\<lparr>w_events := []\<rparr>) = Some w" "fb_state b' = w" "es = w_events w"
    by (auto simp: flush_batch_def elim!: bind_SomeE)
  with sim_recompute sim_from_reset assms(2) show ?thesis by blast
qed (use assms in \<open>auto simp: flush_batch_def\<close>)

lemma sim_batch_finish: "batch_finish q d p ctx w = Some (w', x) \<Longrightarrow> sim gen w w'"
proof -
  have "sim gen w (w\<lparr>st_statusObservedAt := Some (now ctx)\<rparr>)" by (rule sim_frame) (simp_all add: agent_of_def fun_eq_iff)
  then show "batch_finish q d p ctx w = Some (w', x) \<Longrightarrow> sim gen w w'"
    by (auto simp: batch_finish_def split: if_splits intro: sim_recompute)
qed

lemma shown_batch:
  assumes ctx: "ids ctx = gen" and op: "batch_apply rd input ctx b = Some (es, b')" and s: "shown gen v (fb_state b)"
  shows "shown gen (replayed v es) (fb_state b')"
proof -
  from op obtain pre b1 w p where
    b1: "(if \<not> batchable (fr_fact rd input) (fb_state b) \<or> fb_pendingAt b \<noteq> Some (now ctx)
          then flush_batch b else Some ([], b)) = Some (pre, b1)"
    and w: "fold_fact (batch_finish (stable_signal b1 (fr_fact rd input) ctx) (batchable (fr_fact rd input) (fb_state b))
          (fb_pendingAt b1) ctx) (fb_pendingAt b1) rd input ctx (fb_state b1) = Some (w, p)"
    and b': "fb_state b' = w" "es = pre @ w_events w"
    unfolding batch_apply_def Let_def by (elim bind_SomeE) (auto elim!: bind_SomeE)
  have "shown gen (replayed v pre) (fb_state b1)"
    using b1 s by (auto split: if_splits intro: shown_flush)
  then show ?thesis
    using sim_from_reset [OF sim_fold_fact [OF ctx _ w]] sim_batch_finish b' by auto
qed

lemma shown_apply:
  assumes ctx: "ids ctx = gen" and op: "apply_fact rd input ctx w = Some w'" and s: "shown gen v w"
  shows "shown gen (replayed v (w_events w')) w'"
proof -
  from op obtain x where
    "fold_fact (\<lambda>w. map_option (\<lambda>w'. (w', ())) (recomputeStatuses (now ctx) w)) () rd input ctx w = Some (w', x)"
    by (auto simp: apply_fact_def)
  from sim_fold_fact [OF ctx _ this] have "sim gen (w\<lparr>w_events := []\<rparr>) w'" by (auto intro: sim_recompute)
  from sim_from_reset [OF this s] show ?thesis .
qed

end

subsection \<open>Events as a client receives them\<close>

text \<open>The part of a view that mirrors the core does not depend on position and time of an event.\<close>

definition entities :: "thread_view \<Rightarrow> agent entry dict \<times> run entry dict \<times> item dict \<times> nat option \<times>
    interaction entry dict \<times> background_task dict \<times> thread_status \<times> ident" where
  "entities v = (v_agents v, v_runs v, v_items v, v_itemsBefore v, v_interactions v, v_backgroundTasks v,
     th_status (v_thread v), th_id (v_thread v))"

lemma reparent_before [simp]: "v_itemsBefore (reparentAgent i p q v) = v_itemsBefore v"
  by (simp add: reparentAgent_def)

lemma foldEvent_entities:
  assumes v: "entities v = entities v'" and d: "de_payload d = payload_of e" "de_threadId d = th_id (v_thread v)"
  shows "\<exists>u. foldEvent d v = Some u \<and> entities u = entities (show_event e v')"
proof -
  have "entities (fold_payload (de_at d) (payload_of e) (v\<lparr>v_thread := updateThread d (v_thread v)\<rparr>)) = entities (show_event e v')"
    using v d(1)
    by (cases e; simp add: entities_def show_event_def fold_defs Let_def updateThread_def stamped_def isSidebarEvent_def
        patch_thread_def split: option.split prod.split)
  then show ?thesis using d by (simp add: foldEvent_def)
qed

lemma foldEvents_entities:
  assumes "entities v = entities v'" "map de_payload ds = map payload_of es" "\<forall>d \<in> set ds. de_threadId d = th_id (v_thread v)"
  shows "\<exists>u. foldM foldEvent ds v = Some u \<and> entities u = entities (replayed v' es)"
  using assms
proof (induction ds arbitrary: es v v')
  case (Cons d ds)
  then obtain e es' where es: "es = e # es'" "de_payload d = payload_of e" "map de_payload ds = map payload_of es'" by auto
  from foldEvent_entities [OF Cons.prems(1) es(2)] Cons.prems(3)
  obtain u where u: "foldEvent d v = Some u" "entities u = entities (show_event e v')" by auto
  have "th_id (v_thread u) = th_id (v_thread v)"
    using u(2) Cons.prems(1) by (simp add: entities_def show_event_thread)
  with Cons.IH [OF u(2) es(3)] Cons.prems(3) u(1) show ?case by (simp add: es(1) replayed_def)
qed simp

lemma shown_entities: "entities v = entities v' \<Longrightarrow> shown gen v w = shown gen v' w"
  by (simp add: entities_def shown_def shown_defs)

subsection \<open>Whole threads\<close>

text \<open>A thread with the log of all events it has emitted, by single facts and by batches.\<close>

inductive logged :: "(id_kind \<Rightarrow> nat \<Rightarrow> ident) \<Rightarrow> world \<Rightarrow> event list \<Rightarrow> bool"
  and logging :: "(id_kind \<Rightarrow> nat \<Rightarrow> ident) \<Rightarrow> fact_batch \<Rightarrow> event list \<Rightarrow> bool"
  for gen where
  log_created: "createThreadState t rt cfg = Some s \<Longrightarrow> logged gen (world_of s) []"
| log_applied: "logged gen w es \<Longrightarrow> ids ctx = gen \<Longrightarrow> apply_fact rd input ctx w = Some w' \<Longrightarrow> logged gen w' (es @ w_events w')"
| log_opened: "logged gen w es \<Longrightarrow> logging gen (new_batch w stable_until) es"
| log_batched: "logging gen b es \<Longrightarrow> ids ctx = gen \<Longrightarrow> batch_apply rd input ctx b = Some (es', b') \<Longrightarrow> logging gen b' (es @ es')"
| log_flushed: "logging gen b es \<Longrightarrow> flush_batch b = Some (es', b') \<Longrightarrow> logged gen (fb_state b') (es @ es')"

lemma shown_initial:
  assumes "createThreadState t rt cfg = Some s" "th_status thread = New"
  shows "shown gen (createThreadView thread n) (world_of s)"
proof -
  let ?w = "world_of s"
  have e: "st_agents ?w = []" "st_runs ?w = []" "st_items ?w = []" "st_interactions ?w = []" "st_tasks ?w = []"
    "st_interactionHistory ?w = []" "st_taskHistory ?w = []" "st_status ?w = New"
    using assms(1) by (auto simp: world_of_def createThreadState_def thread_state.defs split: if_splits)
  show ?thesis
    using assms(2) by (simp add: shown_def shown_defs mirrored_def createThreadView_def agent_of_def no_history_def e)
qed

context view_source
begin

lemma logged_shown:
  assumes "th_status thread = New"
  shows "logged gen w es \<Longrightarrow> shown gen (replayed (createThreadView thread n) es) w"
    and "logging gen b es \<Longrightarrow> shown gen (replayed (createThreadView thread n) es) (fb_state b)"
proof (induction rule: logged_logging.inducts)
  case (log_created t rt cfg s)
  with shown_initial [OF log_created assms] show ?case by simp
next
  case (log_applied w es ctx rd input w')
  from shown_apply [OF log_applied(3,4,2)] show ?case by simp
next
  case (log_opened w es stable_until)
  then show ?case by (simp add: new_batch_def)
next
  case (log_batched b es ctx rd input es' b')
  from shown_batch [OF log_batched(3,4,2)] show ?case by simp
next
  case (log_flushed b es es' b')
  from shown_flush [OF log_flushed(3,2)] show ?case by simp
qed

end

lemma replay_core:
  assumes "view_source gen" "logged gen w es" "th_status thread = New"
    and "map de_payload ds = map payload_of es" "\<forall>d \<in> set ds. de_threadId d = th_id thread"
  shows "\<exists>v. foldM foldEvent ds (createThreadView thread n) = Some v \<and> shown gen v w"
proof -
  let ?v = "createThreadView thread n"
  have "\<forall>d \<in> set ds. de_threadId d = th_id (v_thread ?v)" using assms(5) by (simp add: createThreadView_def)
  from foldEvents_entities [OF refl assms(4) this]
  obtain u where u: "foldM foldEvent ds ?v = Some u" "entities u = entities (replayed ?v es)" by blast
  from view_source.logged_shown(1) [OF assms(1,3,2)] have "shown gen (replayed ?v es) w" .
  with u shown_entities show ?thesis by metis
qed


subsection \<open>An example thread\<close>

interpretation counter_view: view_source counter_ids
  by unfold_locales (simp add: counter_ids_def)

definition example_thread_entity :: thread where
  "example_thread_entity = \<lparr>th_id = ''thread'', th_status = New, th_rootAgentId = None, th_updatedAt = 0, th_rest = []\<rparr>"

definition example_log :: "event list" where
  "example_log = w_events example_active @ w_events example_settled"

definition delivered :: "nat \<times> event \<Rightarrow> delivery_event" where
  "delivered p = \<lparr>de_seq = fst p, de_firstSeq = None, de_at = 7, de_threadId = ''thread'', de_payload = payload_of (snd p)\<rparr>"

lemma logged_example: "logged counter_ids example_settled example_log"
proof -
  obtain s where s: "createThreadState ''thread'' None example_config = Some s"
    by (simp add: createThreadState_def example_config_def)
  have "logged counter_ids (world_of s) []" by (rule log_created [OF s])
  then have "logged counter_ids example_world []" by (simp add: example_world_def s)
  from log_applied [OF this, of "example_ctx 5" example_reader "turn_json ''turn.started''"] example_thread(1)
  have "logged counter_ids example_active (w_events example_active)" by (simp add: example_active_def)
  from log_applied [OF this, of "example_ctx 6" example_reader "turn_json ''turn.ended''"] example_thread(2)
  show ?thesis by (simp add: example_settled_def example_log_def)
qed


end
