(* ===== verification/Projection_Inv.thy ===== *)
theory Projection_Inv
  imports Projection_Mirror "HOL-Library.Multiset"
begin

text \<open>
  The well-formedness of a client's view (src/packages/projection/src/index.ts): every entity is kept
  under its own identity, the index of children lists exactly the children of the agents, and the
  order of the transcript lists every item once. Every fold keeps it, so the index that the folds
  maintain is the one that \<open>rebuildAgentChildren\<close> computes from the agents.
\<close>

subsection \<open>Entities under their own identity\<close>

definition keyed :: "('x \<Rightarrow> ident) \<Rightarrow> 'x dict \<Rightarrow> bool" where
  "keyed idf d \<longleftrightarrow> (\<forall>k x. get d k = Some x \<longrightarrow> idf x = k)"

lemma keyed_Nil [simp]: "keyed idf []"
  by (simp add: keyed_def)

lemma keyed_put [intro]: "keyed idf d \<Longrightarrow> idf x = k \<Longrightarrow> keyed idf (put d k x)"
  by (simp add: keyed_def)

lemma keyed_modify [intro]: "keyed idf d \<Longrightarrow> (\<And>x. idf (f x) = idf x) \<Longrightarrow> keyed idf (modify d k f)"
  by (auto simp: keyed_def)

lemma keyed_del [intro]: "keyed idf d \<Longrightarrow> keyed idf (del d k)"
  by (auto simp: keyed_def split: if_splits)

subsection \<open>The index of children\<close>

definition parent_in :: "agent entry dict \<Rightarrow> ident \<Rightarrow> ident option" where
  "parent_in agents i = Option.bind (get agents i) (\<lambda>b. a_parentId (fst b))"

definition children_indexed :: "agent entry dict \<Rightarrow> ident list dict \<Rightarrow> bool" where
  "children_indexed agents d \<longleftrightarrow> (\<forall>p. get d p \<noteq> Some [] \<and> distinct (children_of d p) \<and>
     set (children_of d p) = {i. p \<noteq> [] \<and> parent_in agents i = Some p})"

lemma children_indexedD:
  assumes "children_indexed agents d"
  shows "get d p \<noteq> Some []" "distinct (children_of d p)"
    "set (children_of d p) = {i. p \<noteq> [] \<and> parent_in agents i = Some p}"
  using assms by (simp_all add: children_indexed_def)

lemma parent_in_put [simp]: "parent_in (put agents i a) j = (if i = j then a_parentId (fst a) else parent_in agents j)"
  by (simp add: parent_in_def)

lemma parent_in_cong: "(\<And>i. map_option (\<lambda>b. a_parentId (fst b)) (get d i) = map_option (\<lambda>b. a_parentId (fst b)) (get d' i)) \<Longrightarrow>
    parent_in d = parent_in d'"
proof (rule ext)
  fix i
  assume "\<And>i. map_option (\<lambda>b. a_parentId (fst b)) (get d i) = map_option (\<lambda>b. a_parentId (fst b)) (get d' i)"
  from this [of i] show "parent_in d i = parent_in d' i"
    by (cases "get d i"; cases "get d' i") (auto simp: parent_in_def)
qed

lemma children_indexed_cong: "parent_in agents = parent_in agents' \<Longrightarrow> children_indexed agents d = children_indexed agents' d"
  by (simp add: children_indexed_def)

lemma children_of_Nil [simp]: "children_of [] p = []"
  by (simp add: children_of_def given_def)

lemma children_of_leave:
  "children_of (leave_parent i p d) q = (if p = Some q \<and> q \<noteq> [] then filter (\<lambda>c. c \<noteq> i) (children_of d q) else children_of d q)"
  by (auto simp: leave_parent_def id_present_def children_of_def Let_def given_def)

lemma children_of_join:
  "children_of (join_parent i p d) q = children_of d q @ (if p = Some q \<and> q \<noteq> [] then [i] else [])"
  by (auto simp: join_parent_def id_present_def children_of_def given_def)

lemma leave_not_empty: "get d q \<noteq> Some [] \<Longrightarrow> get (leave_parent i p d) q \<noteq> Some []"
  by (auto simp: leave_parent_def Let_def)

lemma join_not_empty: "get d q \<noteq> Some [] \<Longrightarrow> get (join_parent i p d) q \<noteq> Some []"
  by (auto simp: join_parent_def)

text \<open>Storing an agent and moving it from its old parent to its new one keeps the index exact.\<close>

lemma children_indexed_put:
  assumes "children_indexed agents d"
  shows "children_indexed (put agents i a)
    (if parent_in agents i = a_parentId (fst a) then d
     else join_parent i (a_parentId (fst a)) (leave_parent i (parent_in agents i) d))"
proof (cases "parent_in agents i = a_parentId (fst a)")
  case True
  then have "parent_in (put agents i a) = parent_in agents" by (auto simp: fun_eq_iff)
  from children_indexed_cong [OF this] assms show ?thesis unfolding if_P [OF True] by blast
next
  case False
  let ?d = "join_parent i (a_parentId (fst a)) (leave_parent i (parent_in agents i) d)"
  have "get ?d p \<noteq> Some []" for p
    using join_not_empty leave_not_empty children_indexedD(1) [OF assms] by blast
  moreover have "distinct (children_of ?d p)" for p
    using False children_indexedD(2,3) [OF assms, of p] by (auto simp: children_of_join children_of_leave)
  moreover have "set (children_of ?d p) = {j. p \<noteq> [] \<and> parent_in (put agents i a) j = Some p}" for p
    using False children_indexedD(3) [OF assms, of p] by (auto simp: children_of_join children_of_leave)
  ultimately show ?thesis using False by (simp add: children_indexed_def)
qed

subsection \<open>Well-formed views\<close>

definition view_wf :: "thread_view \<Rightarrow> bool" where
  "view_wf v \<longleftrightarrow> keyed (\<lambda>b. a_id (fst b)) (v_agents v) \<and> keyed (\<lambda>b. run_id (fst b)) (v_runs v) \<and>
     keyed item_id (v_items v) \<and> keyed (\<lambda>b. int_id (fst b)) (v_interactions v) \<and>
     keyed task_id (v_backgroundTasks v) \<and> children_indexed (v_agents v) (v_agentChildren v) \<and>
     distinct (v_itemOrder v) \<and> set (v_itemOrder v) = {i. has (v_items v) i}"

lemma view_wfD:
  assumes "view_wf v"
  shows "keyed (\<lambda>b. a_id (fst b)) (v_agents v)" "keyed (\<lambda>b. run_id (fst b)) (v_runs v)"
    "keyed item_id (v_items v)" "keyed (\<lambda>b. int_id (fst b)) (v_interactions v)"
    "keyed task_id (v_backgroundTasks v)" "children_indexed (v_agents v) (v_agentChildren v)"
    "distinct (v_itemOrder v)" "set (v_itemOrder v) = {i. has (v_items v) i}"
  using assms by (simp_all add: view_wf_def)

lemma view_wf_created: "view_wf (createThreadView thread n)"
  by (simp add: view_wf_def createThreadView_def children_indexed_def parent_in_def children_of_def given_def)

lemma view_wf_frame [simp]:
  "view_wf (v\<lparr>v_thread := t\<rparr>) = view_wf v" "view_wf (v\<lparr>v_seq := n\<rparr>) = view_wf v"
  "view_wf (v\<lparr>v_queue := q\<rparr>) = view_wf v" "view_wf (v\<lparr>v_usage := u\<rparr>) = view_wf v"
  "view_wf (v\<lparr>v_contextMeters := m\<rparr>) = view_wf v" "view_wf (v\<lparr>v_usageSnapshots := s\<rparr>) = view_wf v"
  by (simp_all add: view_wf_def)

lemma reparent_children_indexed:
  assumes "view_wf v" "p = parent_in (v_agents v) i" "q = a_parentId (fst a)"
  shows "children_indexed (put (v_agents v) i a) (v_agentChildren (reparentAgent i p q v))"
  using children_indexed_put [OF view_wfD(6) [OF assms(1)], of i a] assms(2,3)
  by (simp add: reparentAgent_def split: if_splits)

lemma reparent_order [simp]: "v_itemOrder (reparentAgent i p q v) = v_itemOrder v"
  by (simp add: reparentAgent_def)

lemma view_wf_agent:
  assumes "view_wf v" "a_id (fst a) = i" "p = parent_in (v_agents v) i" "q = a_parentId (fst a)"
  shows "view_wf ((reparentAgent i p q v)\<lparr>v_agents := put (v_agents v) i a\<rparr>)"
  using assms view_wfD [OF assms(1)] reparent_children_indexed [OF assms(1,3,4)]
  unfolding view_wf_def by (auto intro: keyed_put)

lemma view_wf_items:
  assumes "view_wf v" "keyed item_id d" "\<And>i. has d i = has (v_items v) i"
  shows "view_wf (v\<lparr>v_items := d\<rparr>)"
  using assms by (simp add: view_wf_def)

lemma view_wf_modify_items:
  assumes "view_wf v" "\<And>x. item_id (f x) = item_id x"
  shows "view_wf (v\<lparr>v_items := modify (v_items v) i f\<rparr>)"
  using assms view_wfD(3) [OF assms(1)] by (intro view_wf_items) (auto intro: keyed_modify)

lemma applyDelta_id: "applyDelta item fld added = Some item' \<Longrightarrow> item_id item' = item_id item"
  by (auto simp: applyDelta_def split: if_splits item_body.splits prod.splits)

lemma apply_update_id [simp]: "a_id (apply_update u a) = a_id a"
  by (simp add: apply_update_def)

lemma apply_update_parent: "a_parentId (apply_update u a) = given (u_parentId u) (a_parentId a)"
  by (simp add: apply_update_def)

lemma wf_fold_agent_created: "view_wf v \<Longrightarrow> view_wf (fold_agent_created a v)"
  using view_wf_agent [of v a "a_id (fst a)"] by (simp add: fold_agent_created_def parent_in_def Let_def)

lemma wf_fold_agent_updated:
  assumes "view_wf v"
  shows "view_wf (fold_agent_updated i u extra v)"
proof (cases "get (v_agents v) i")
  case (Some b)
  obtain a rest where b: "b = (a, rest)" by (cases b)
  let ?a = "(apply_update u a, spread rest extra)"
  have i: "a_id a = i" using view_wfD(1) [OF assms] Some b by (simp add: keyed_def)
  have p: "a_parentId a = parent_in (v_agents v) i" using Some b by (simp add: parent_in_def)
  have eq: "fold_agent_updated i u extra v =
      (reparentAgent i (a_parentId a) (a_parentId (fst ?a)) v)\<lparr>v_agents := put (v_agents v) i ?a\<rparr>"
    using Some b by (cases "u_parentId u")
      (auto simp: fold_agent_updated_def apply_update_parent given_def reparentAgent_def)
  show ?thesis unfolding eq by (rule view_wf_agent [OF assms]) (simp_all add: i p)
qed (simp add: fold_agent_updated_def assms)

lemma wf_fold_agent_status:
  assumes "view_wf v"
  shows "view_wf (fold_agent_status i st v)"
proof -
  let ?d = "modify (v_agents v) i (\<lambda>(a, rest). (a\<lparr>a_status := st\<rparr>, rest))"
  have "keyed (\<lambda>b. a_id (fst b)) ?d" using view_wfD(1) [OF assms] by (auto intro!: keyed_modify split: prod.split)
  moreover have "children_indexed ?d (v_agentChildren v)"
    using view_wfD(6) [OF assms]
    by (subst children_indexed_cong [of _ "v_agents v"]) (auto intro!: parent_in_cong simp: option.map_comp o_def prod.case_eq_if)
  ultimately show ?thesis using view_wfD [OF assms] by (simp add: view_wf_def fold_agent_status_def)
qed

lemma wf_fold_item:
  assumes "view_wf v"
  shows "view_wf (fold_item updated i v)"
  using view_wfD [OF assms] by (auto simp: fold_item_def view_wf_def has_def split: option.split intro!: keyed_put)

lemma wf_fold_item_deleted:
  assumes "view_wf v"
  shows "view_wf (fold_item_deleted i v)"
  using view_wfD [OF assms] by (auto simp: fold_item_deleted_def view_wf_def)

lemma view_wf_fold:
  assumes "view_wf v"
  shows "view_wf (fold_payload t p v)"
proof (cases p)
  case (P_run_client_updated i c)
  with view_wfD [OF assms] show ?thesis by (auto simp: view_wf_def intro!: keyed_modify)
next
  case (P_run_started r)
  with view_wfD [OF assms] show ?thesis by (auto simp: view_wf_def)
next
  case (P_run_ended i st steer t err tr)
  with view_wfD [OF assms] show ?thesis by (auto simp: view_wf_def end_run_def intro!: keyed_modify)
next
  case (P_interaction_opened x)
  with view_wfD [OF assms] show ?thesis by (auto simp: view_wf_def)
next
  case (P_interaction_closed i st t e r b a)
  with view_wfD [OF assms] show ?thesis by (auto simp: view_wf_def close_interaction_def intro!: keyed_modify)
next
  case (P_task_started task)
  with view_wfD [OF assms] show ?thesis by (auto simp: view_wf_def)
next
  case (P_task_updated i st t)
  with view_wfD [OF assms] show ?thesis by (auto simp: view_wf_def update_task_def intro!: keyed_modify)
next
  case (P_item_delta i a fld added)
  with assms show ?thesis
    by (auto simp: fold_delta_def given_def applyDelta_id intro!: view_wf_modify_items split: option.split)
next
  case (P_input_admitted i n c)
  with assms show ?thesis
    by (auto simp: fold_input_admitted_def admit_input_def intro!: view_wf_modify_items split: item_body.split)
qed (use assms in \<open>auto simp: wf_fold_agent_created wf_fold_agent_updated wf_fold_agent_status wf_fold_item
    wf_fold_item_deleted fold_usage_def\<close>)

lemma view_wf_foldEvent: "foldEvent e v = Some v' \<Longrightarrow> view_wf v \<Longrightarrow> view_wf v'"
  by (auto simp: foldEvent_def split: if_splits intro!: view_wf_fold)

subsection \<open>The rebuilt index\<close>

lemma children_of_collect:
  "children_of (collect_child d a) p =
     (if a_parentId a = Some p \<and> p \<noteq> [] then add_once (a_id a) (children_of d p) else children_of d p)"
  by (auto simp: collect_child_def id_present_def children_of_def given_def)

lemma collected:
  assumes "\<And>p. distinct (children_of d p)"
  shows "distinct (children_of (foldl collect_child d as) p) \<and>
    set (children_of (foldl collect_child d as) p) =
      set (children_of d p) \<union> {i. p \<noteq> [] \<and> (\<exists>a \<in> set as. a_id a = i \<and> a_parentId a = Some p)}"
  using assms
proof (induction as arbitrary: d)
  case (Cons a as)
  have d: "distinct (children_of (collect_child d a) q)" for q
    using Cons.prems [of q] by (simp add: children_of_collect add_once_def)
  from Cons.IH [OF d] show ?case by (auto simp: children_of_collect add_once_def)
qed simp

lemma distinct_collected: "distinct (map fst d) \<Longrightarrow> distinct (map fst (foldl collect_child d as))"
  by (induction as arbitrary: d) (simp_all add: collect_child_def distinct_put)

lemma get_foldl_put:
  "distinct (map fst l) \<Longrightarrow> get (foldl (\<lambda>d (p, cs). put d p cs) d l) k = orelse (get l k) (get d k)"
proof (induction l arbitrary: d)
  case (Cons x l)
  obtain p cs where x: "x = (p, cs)" by (cases x)
  have "get l p = None" using Cons.prems x in_keys_iff [of p l] by (auto simp: has_def)
  with Cons x show ?case by (auto simp: orelse_def split: option.split)
qed (simp add: orelse_def)

lemma children_of_rebuilt:
  assumes "keyed (\<lambda>b. a_id (fst b)) (v_agents v)"
  shows "distinct (children_of (v_agentChildren (rebuildAgentChildren v)) p)"
    "set (children_of (v_agentChildren (rebuildAgentChildren v)) p) = {i. p \<noteq> [] \<and> parent_in (v_agents v) i = Some p}"
proof -
  let ?as = "map fst (ovalues (v_agents v))"
  have c: "children_of (v_agentChildren (rebuildAgentChildren v)) p = children_of (foldl collect_child [] ?as) p"
    using get_foldl_put [OF distinct_collected [of "[]" ?as], of "[]"]
    by (simp add: rebuildAgentChildren_def children_of_def orelse_def split: option.split)
  note collected [of "[]" ?as p]
  moreover have "(\<exists>a \<in> set ?as. a_id a = i \<and> a_parentId a = Some p) \<longleftrightarrow> parent_in (v_agents v) i = Some p" for i
  proof
    assume "\<exists>a \<in> set ?as. a_id a = i \<and> a_parentId a = Some p"
    then obtain k b where b: "get (v_agents v) k = Some b" "a_id (fst b) = i" "a_parentId (fst b) = Some p"
      by (auto simp: set_ovalues)
    with assms have "k = i" unfolding keyed_def by metis
    with b show "parent_in (v_agents v) i = Some p" by (simp add: parent_in_def)
  next
    assume "parent_in (v_agents v) i = Some p"
    then obtain b where b: "get (v_agents v) i = Some b" "a_parentId (fst b) = Some p" by (auto simp: parent_in_def)
    then have "fst b \<in> set ?as" by (auto simp: set_ovalues simp del: split_paired_Ex)
    moreover have "a_id (fst b) = i" using assms b(1) unfolding keyed_def by metis
    ultimately show "\<exists>a \<in> set ?as. a_id a = i \<and> a_parentId a = Some p" using b(2) by blast
  qed
  ultimately show "distinct (children_of (v_agentChildren (rebuildAgentChildren v)) p)"
    "set (children_of (v_agentChildren (rebuildAgentChildren v)) p) = {i. p \<noteq> [] \<and> parent_in (v_agents v) i = Some p}"
    unfolding c by simp_all
qed

lemma view_wf_rebuilt:
  assumes "view_wf v"
  shows "mset (children_of (v_agentChildren (rebuildAgentChildren v)) p) = mset (children_of (v_agentChildren v) p)"
  using children_of_rebuilt [OF view_wfD(1) [OF assms], of p] children_indexedD(2,3) [OF view_wfD(6) [OF assms], of p]
  by (metis set_eq_iff_mset_eq_distinct)

end
