(* ===== verification/Projection_Window.thy ===== *)
theory Projection_Window
  imports Projection_Inv
begin

text \<open>
  Bounded windows of a transcript (src/packages/projection/src/item-order.ts, window.ts): the merge of
  two lists by creation sequence, the items a bounded tail keeps, the cursor from which a lane is
  complete, and the merge of a page of history into a view. A thrown error is \<^const>\<open>None\<close>.
\<close>

subsection \<open>Order (item-order.ts)\<close>

text \<open>\<open>push\<close>: the ids merged so far and the last one pushed.\<close>

definition push_id :: "ident \<Rightarrow> ident list \<times> ident option \<Rightarrow> ident list \<times> ident option" where
  "push_id i st = (case st of (merged, prev) \<Rightarrow> (if prev \<noteq> Some i then merged @ [i] else merged, Some i))"

fun merge_loop :: "(ident \<Rightarrow> int option) \<Rightarrow> ident list \<Rightarrow> ident list \<Rightarrow> ident list \<times> ident option \<Rightarrow>
    (ident list \<times> ident option) option" where
  "merge_loop seq (a # older) (b # recent) st = (case seq a of
       None \<Rightarrow> None
     | Some sa \<Rightarrow> (case seq b of
         None \<Rightarrow> None
       | Some sb \<Rightarrow>
           if sa \<le> sb then merge_loop seq older (if sa = sb \<and> a = b then recent else b # recent) (push_id a st)
           else merge_loop seq (a # older) recent (push_id b st)))"
| "merge_loop seq [] recent st = Some (fold push_id recent st)"
| "merge_loop seq older [] st = Some (fold push_id older st)"

definition mergeBySeq :: "ident list \<Rightarrow> ident list \<Rightarrow> (ident \<Rightarrow> int option) \<Rightarrow> ident list option" where
  "mergeBySeq older recent seq = map_option fst (merge_loop seq older recent ([], None))"

definition inRootLane :: "ident option \<Rightarrow> ident option \<Rightarrow> bool" where
  "inRootLane agentId rootAgentId \<longleftrightarrow> \<not> id_present agentId \<or> agentId = rootAgentId"

text \<open>\<open>before\<close> is a sequence, null (\<open>Some None\<close>) or undefined (\<open>None\<close>).\<close>

fun first_in_lane :: "(ident \<Rightarrow> nat option) \<Rightarrow> (ident \<Rightarrow> bool) \<Rightarrow> nat \<Rightarrow> ident list \<Rightarrow> nat" where
  "first_in_lane seq inLane before [] = before"
| "first_in_lane seq inLane before (i # order) =
     (if \<not> inLane i then first_in_lane seq inLane before order
      else case seq i of None \<Rightarrow> before | Some n \<Rightarrow> min n before)"

definition laneBefore :: "ident list \<Rightarrow> (ident \<Rightarrow> nat option) \<Rightarrow> (ident \<Rightarrow> bool) \<Rightarrow> nat option option \<Rightarrow> nat option option" where
  "laneBefore order seq inLane before = (case before of
       Some (Some n) \<Rightarrow> Some (Some (first_in_lane seq inLane n order))
     | _ \<Rightarrow> before)"

record tail_entry =
  te_id :: ident
  te_seq :: "nat option"
  te_root :: bool

record retained_tail =
  rt_kept :: "tail_entry list"
  rt_evicted :: "tail_entry list"
  rt_before :: "nat option"

text \<open>The counting loop: all root entries, and those among the newest \<open>capacity\<close>.\<close>

definition count_roots :: "nat \<Rightarrow> tail_entry list \<Rightarrow> nat \<times> nat" where
  "count_roots recentStart entries =
     foldl (\<lambda>(roots, recentRoots) (i, e).
         if te_root e then (roots + 1, if i \<ge> recentStart then recentRoots + 1 else recentRoots)
         else (roots, recentRoots))
       (0, 0) (enumerate 0 entries)"

text \<open>The backward loop with its two counters; the entries are given newest first.\<close>

fun keep_flags :: "int \<Rightarrow> int \<Rightarrow> tail_entry list \<Rightarrow> bool list" where
  "keep_flags keepRoots keepOthers [] = []"
| "keep_flags keepRoots keepOthers (e # es) =
     (if te_root e then (keepRoots > 0) # keep_flags (keepRoots - 1) keepOthers es
      else (keepOthers > 0) # keep_flags keepRoots (keepOthers - 1) es)"

definition keep_roots :: "tail_entry list \<Rightarrow> nat \<Rightarrow> nat" where
  "keep_roots entries capacity =
     (let (roots, recentRoots) = count_roots (length entries - capacity) entries
      in max recentRoots (min roots (capacity div 2)))"

definition keep_of :: "tail_entry list \<Rightarrow> nat \<Rightarrow> bool list" where
  "keep_of entries capacity =
     (let kr = int (keep_roots entries capacity)
      in rev (keep_flags kr (int capacity - kr) (rev entries)))"

text \<open>\<open>newestEvicted + 1\<close>, from the loop over the flags.\<close>

definition evicted_end :: "bool list \<Rightarrow> nat" where
  "evicted_end keep = foldl (\<lambda>n (i, k). if k then n else i + 1) 0 (enumerate 0 keep)"

definition retainedTail :: "tail_entry list \<Rightarrow> nat \<Rightarrow> retained_tail" where
  "retainedTail entries capacity =
     (if length entries \<le> capacity then \<lparr>rt_kept = entries, rt_evicted = [], rt_before = None\<rparr>
      else
        let keep = keep_of entries capacity;
            n = evicted_end keep;
            boundary = find (\<lambda>e. te_seq e \<noteq> None) (drop n entries);
            prev = (if n = 0 then None else te_seq (entries ! (n - 1)))
        in \<lparr>rt_kept = map fst (filter snd (zip entries keep)),
            rt_evicted = map fst (filter (\<lambda>e. \<not> snd e) (zip entries keep)),
            rt_before = orelse (Option.bind boundary te_seq) (map_option Suc prev)\<rparr>)"

subsection \<open>Pages of history (window.ts)\<close>

definition trackItem :: "item \<Rightarrow> thread_view \<Rightarrow> thread_view" where
  "trackItem item v = v\<lparr>v_items := put (v_items v) (item_id item) item\<rparr>"

record items_page =
  pg_threadId :: ident
  pg_items :: "item list"
  pg_itemSeqs :: "nat dict"
  pg_itemsBefore :: "nat option"

text \<open>The loop over the page: the items not held are tracked, those not ordered yet are collected.\<close>

definition page_step :: "item \<Rightarrow> thread_view \<times> ident list \<Rightarrow> thread_view \<times> ident list" where
  "page_step item st = (case st of (v, older) \<Rightarrow>
     (if has (v_items v) (item_id item) then v else trackItem item v,
      if item_id item \<in> set (v_itemOrder v) \<union> set older then older else older @ [item_id item]))"

definition safe_limit :: int where
  "safe_limit = 2 ^ 53 - 1"

definition page_seq :: "items_page \<Rightarrow> thread_view \<Rightarrow> ident list \<Rightarrow> ident \<Rightarrow> int option" where
  "page_seq page v fresh i = Some (case orelse (get (pg_itemSeqs page) i) (get (v_itemSeqs v) i) of
       Some n \<Rightarrow> int n
     | None \<Rightarrow> if i \<in> set fresh then - safe_limit else safe_limit)"

definition applyItemsPage :: "items_page \<Rightarrow> thread_view \<Rightarrow> thread_view option" where
  "applyItemsPage page v =
     (if pg_threadId page \<noteq> th_id (v_thread v) then None
      else
        let (v1, older) = fold page_step (pg_items page) (v, []) in
        map_option (\<lambda>order. v1\<lparr>v_itemOrder := order,
            v_itemsBefore := (case v_itemsBefore v of
                None \<Rightarrow> None
              | Some n \<Rightarrow> (case pg_itemsBefore page of None \<Rightarrow> None | Some m \<Rightarrow> Some (min n m)))\<rparr>)
          (mergeBySeq older (v_itemOrder v1) (page_seq page v1 older)))"

subsection \<open>The merge is the sorted union\<close>

text \<open>\<open>by_seq f xs\<close>: the ids are in strictly increasing order of their sequence \<open>f\<close>.\<close>

abbreviation by_seq :: "(ident \<Rightarrow> int) \<Rightarrow> ident list \<Rightarrow> bool" where
  "by_seq f \<equiv> sorted_wrt (\<lambda>a b. f a < f b)"

lemma push_new: "snd st \<noteq> Some i \<Longrightarrow> push_id i st = (fst st @ [i], Some i)"
  by (cases st) (simp add: push_id_def)

lemma fold_push_new:
  assumes "distinct xs" "snd st \<notin> Some ` set xs"
  shows "fst (fold push_id xs st) = fst st @ xs"
  using assms
proof (induction xs arbitrary: st)
  case (Cons x xs)
  then have "push_id x st = (fst st @ [x], Some x)" by (intro push_new) auto
  with Cons.IH [of "(fst st @ [x], Some x)"] Cons.prems(1) show ?case by auto
qed simp

lemma by_seq_distinct: "by_seq f xs \<Longrightarrow> distinct xs"
  by (induction xs) auto

text \<open>Lists without a common id: each id of both is in the result once.\<close>

lemma merge_loop_disjoint:
  assumes "distinct older" "distinct recent" "set older \<inter> set recent = {}"
    and "\<forall>i \<in> set older \<union> set recent. seq i \<noteq> None" "snd st \<notin> Some ` (set older \<union> set recent)"
  shows "\<exists>m p. merge_loop seq older recent st = Some (fst st @ m, p) \<and> distinct m \<and> set m = set older \<union> set recent"
  using assms
proof (induction seq older recent st rule: merge_loop.induct)
  case (1 seq a older b recent st)
  obtain sa sb where s: "seq a = Some sa" "seq b = Some sb" using 1(6) by auto
  have neq: "a \<noteq> b" using 1(5) by auto
  have pa: "push_id a st = (fst st @ [a], Some a)" and pb: "push_id b st = (fst st @ [b], Some b)"
    using 1(7) by (auto intro!: push_new)
  show ?case
  proof (cases "sa \<le> sb")
    case True
    obtain m p where "merge_loop seq older (b # recent) (fst st @ [a], Some a) = Some (fst st @ a # m, p)"
      "distinct m" "set m = set older \<union> set (b # recent)"
      using 1(1) [OF s True] 1(3-6) neq pa by fastforce
    with True s neq pa 1(3,5) show ?thesis by (intro exI [of _ "a # m"] exI [of _ p]) auto
  next
    case False
    obtain m p where "merge_loop seq (a # older) recent (fst st @ [b], Some b) = Some (fst st @ b # m, p)"
      "distinct m" "set m = set (a # older) \<union> set recent"
      using 1(2) [OF s False] 1(3-6) neq pb by fastforce
    with False s neq pb 1(4,5) show ?thesis by (intro exI [of _ "b # m"] exI [of _ p]) auto
  qed
next
  case (2 seq recent st)
  then have "fst (fold push_id recent st) = fst st @ recent" by (intro fold_push_new) auto
  with 2 show ?case by (intro exI [of _ recent] exI [of _ "snd (fold push_id recent st)"]) (simp add: prod_eq_iff)
next
  case (3 seq x older st)
  then have "fst (fold push_id (x # older) st) = fst st @ x # older" by (intro fold_push_new) auto
  with 3 show ?case by (intro exI [of _ "x # older"] exI [of _ "snd (fold push_id (x # older) st)"]) (simp add: prod_eq_iff)
qed

lemma merge_loop_sorted:
  assumes "by_seq f older" "by_seq f recent" "inj_on f (set older \<union> set recent)"
    and "\<forall>i \<in> set older \<union> set recent. seq i = Some (f i)" "snd st \<notin> Some ` (set older \<union> set recent)"
  shows "\<exists>m p. merge_loop seq older recent st = Some (fst st @ m, p) \<and> by_seq f m \<and> set m = set older \<union> set recent"
  using assms
proof (induction seq older recent st rule: merge_loop.induct)
  case (1 seq a older b recent st)
  have s: "seq a = Some (f a)" "seq b = Some (f b)" using 1(6) by auto
  have pa: "push_id a st = (fst st @ [a], Some a)" and pb: "push_id b st = (fst st @ [b], Some b)"
    using 1(7) by (auto intro!: push_new)
  have same: "a = b" if "f a = f b" using inj_onD [OF 1(5) that] by simp
  show ?case
  proof (cases "f a \<le> f b")
    case True
    define rest where "rest = (if f a = f b \<and> a = b then recent else b # recent)"
    have less: "f a < f i" if "i \<in> set older \<union> set rest" for i
      using that True same 1(3,4) by (fastforce simp: rest_def split: if_splits)
    have sub: "set older \<union> set rest \<subseteq> set (a # older) \<union> set (b # recent)" by (auto simp: rest_def)
    have "by_seq f older" "by_seq f rest" using 1(3,4) by (simp_all add: rest_def)
    moreover have "Some a \<notin> Some ` (set older \<union> set rest)" using less by fastforce
    moreover have "\<forall>i \<in> set older \<union> set rest. seq i = Some (f i)" using 1(6) sub by blast
    ultimately obtain m p where m: "merge_loop seq older rest (fst st @ [a], Some a) = Some (fst st @ a # m, p)"
      "by_seq f m" "set m = set older \<union> set rest"
      using 1(1) [OF s True] inj_on_subset [OF 1(5) sub] unfolding rest_def [symmetric] pa by auto
    have "merge_loop seq (a # older) (b # recent) st = Some (fst st @ a # m, p)"
      using m(1) s True pa by (simp add: rest_def)
    moreover have "by_seq f (a # m)" using m(2,3) less by simp
    moreover have "set (a # m) = set (a # older) \<union> set (b # recent)" using m(3) by (auto simp: rest_def split: if_splits)
    ultimately show ?thesis by blast
  next
    case False
    have less: "f b < f i" if "i \<in> set (a # older) \<union> set recent" for i
      using that False 1(3,4) by fastforce
    then have "Some b \<notin> Some ` (set (a # older) \<union> set recent)" by fastforce
    moreover have "inj_on f (set (a # older) \<union> set recent)" by (rule inj_on_subset [OF 1(5)]) auto
    ultimately obtain m p where m: "merge_loop seq (a # older) recent (fst st @ [b], Some b) = Some (fst st @ b # m, p)"
      "by_seq f m" "set m = set (a # older) \<union> set recent"
      using 1(2) [OF s False] 1(3,4,6) unfolding pb by auto
    have "merge_loop seq (a # older) (b # recent) st = Some (fst st @ b # m, p)" using m(1) s False pb by simp
    moreover have "by_seq f (b # m)" using m(2,3) less by simp
    moreover have "set (b # m) = set (a # older) \<union> set (b # recent)" using m(3) by auto
    ultimately show ?thesis by blast
  qed
next
  case (2 seq recent st)
  then have "fst (fold push_id recent st) = fst st @ recent" by (intro fold_push_new) (auto dest: by_seq_distinct)
  with 2 show ?case by (intro exI [of _ recent] exI [of _ "snd (fold push_id recent st)"]) (simp add: prod_eq_iff)
next
  case (3 seq x older st)
  then have "fst (fold push_id (x # older) st) = fst st @ x # older"
    by (intro fold_push_new) (auto dest: by_seq_distinct)
  with 3 show ?case by (intro exI [of _ "x # older"] exI [of _ "snd (fold push_id (x # older) st)"]) (simp add: prod_eq_iff)
qed

lemma by_seq_unique:
  assumes "by_seq f xs" "by_seq f ys" "set xs = set ys"
  shows "xs = ys"
proof -
  have strict: "sorted (map f zs) \<and> distinct (map f zs)" if "by_seq f zs" for zs
  proof -
    have "sorted_wrt (<) (map f zs)" using that by (simp add: sorted_wrt_map)
    then show ?thesis by (simp only: strict_sorted_iff)
  qed
  from strict [OF assms(1)] strict [OF assms(2)] have "map f xs = map f ys"
    using assms(3) by (intro sorted_distinct_set_unique) auto
  moreover have "inj_on f (set xs \<union> set ys)"
    using strict [OF assms(1)] assms(3) by (simp add: distinct_map)
  ultimately show ?thesis by (simp add: inj_on_map_eq_map)
qed

lemma by_seq_sort_key:
  assumes "inj_on f (set xs)"
  shows "by_seq f (sort_key f (remdups xs))"
proof -
  have "sorted_wrt (<) (map f (sort_key f (remdups xs)))"
    using assms by (simp add: strict_sorted_iff distinct_map)
  then show ?thesis by (simp add: sorted_wrt_map)
qed

text \<open>Two lists in the order of their sequences merge to the ids of both, each once, in that order.\<close>

lemma mergeBySeq_sort:
  assumes "by_seq f older" "by_seq f recent" "inj_on f (set older \<union> set recent)"
    and "\<forall>i \<in> set older \<union> set recent. seq i = Some (f i)"
  shows "mergeBySeq older recent seq = Some (sort_key f (remdups (older @ recent)))"
proof -
  obtain m p where m: "merge_loop seq older recent ([], None) = Some (m, p)" "by_seq f m" "set m = set older \<union> set recent"
    using merge_loop_sorted [OF assms, of "([], None)"] by auto
  then have "m = sort_key f (remdups (older @ recent))"
    using assms(3) by (intro by_seq_unique [where f = f]) (auto intro!: by_seq_sort_key)
  with m show ?thesis by (simp add: mergeBySeq_def)
qed

subsection \<open>A page keeps the view well formed\<close>

lemma page_steps:
  assumes "fold page_step is (v, older) = (v', older')"
    and "keyed item_id (v_items v)" "distinct (v_itemOrder v)" "distinct older" "set (v_itemOrder v) \<inter> set older = {}"
    and "set (v_itemOrder v) \<union> set older = {i. has (v_items v) i}"
  shows "keyed item_id (v_items v') \<and> v' = v\<lparr>v_items := v_items v'\<rparr> \<and> distinct older' \<and>
    set (v_itemOrder v) \<inter> set older' = {} \<and> set (v_itemOrder v) \<union> set older' = {i. has (v_items v') i} \<and>
    (\<forall>i x. get (v_items v) i = Some x \<longrightarrow> get (v_items v') i = Some x)"
  using assms
proof (induction "is" arbitrary: v older)
  case (Cons x "is")
  let ?v = "if has (v_items v) (item_id x) then v else trackItem x v"
  let ?o = "if item_id x \<in> set (v_itemOrder v) \<union> set older then older else older @ [item_id x]"
  have "page_step x (v, older) = (?v, ?o)" by (simp only: page_step_def prod.case)
  with Cons.prems(1) have step: "fold page_step is (?v, ?o) = (v', older')" by (simp only: fold_simps)
  have frame: "v_itemOrder ?v = v_itemOrder v" "?v = v\<lparr>v_items := v_items ?v\<rparr>" by (simp_all add: trackItem_def)
  have k: "keyed item_id (v_items ?v)" using Cons.prems(2) by (auto simp: trackItem_def)
  have d: "distinct ?o" "set (v_itemOrder v) \<inter> set ?o = {}" using Cons.prems(4,5) by auto
  have u: "set (v_itemOrder v) \<union> set ?o = {i. has (v_items ?v) i}"
    using Cons.prems(6) by (auto simp: trackItem_def)
  have old: "get (v_items v) i = Some y \<Longrightarrow> get (v_items ?v) i = Some y" for i y
    by (auto simp: trackItem_def has_def)
  from Cons.IH [OF step k, unfolded frame(1), OF Cons.prems(3) d u]
  have ih: "keyed item_id (v_items v')" "v' = ?v\<lparr>v_items := v_items v'\<rparr>" "distinct older'"
    "set (v_itemOrder v) \<inter> set older' = {}" "set (v_itemOrder v) \<union> set older' = {i. has (v_items v') i}"
    "\<forall>i x. get (v_items ?v) i = Some x \<longrightarrow> get (v_items v') i = Some x" by blast+
  from ih(2) have "v' = v\<lparr>v_items := v_items v'\<rparr>" by (subst (asm) frame(2)) simp
  with ih old show ?case by blast
qed simp

lemma applyItemsPage_wf:
  assumes "view_wf v" "pg_threadId page = th_id (v_thread v)"
  shows "\<exists>v'. applyItemsPage page v = Some v' \<and> view_wf v' \<and> v_thread v' = v_thread v \<and>
    (\<forall>i x. get (v_items v) i = Some x \<longrightarrow> get (v_items v') i = Some x)"
proof -
  obtain v' older where p: "fold page_step (pg_items page) (v, []) = (v', older)" by force
  note w = view_wfD [OF assms(1)]
  from page_steps [OF p w(3,7)] w(8)
  have v': "keyed item_id (v_items v')" "v' = v\<lparr>v_items := v_items v'\<rparr>" "distinct older"
    "set (v_itemOrder v) \<inter> set older = {}" "set (v_itemOrder v) \<union> set older = {i. has (v_items v') i}"
    "\<And>i x. get (v_items v) i = Some x \<Longrightarrow> get (v_items v') i = Some x" by auto
  have order: "v_itemOrder v' = v_itemOrder v" by (subst v'(2)) simp
  have "\<exists>m q. merge_loop (page_seq page v' older) older (v_itemOrder v') ([], None) = Some ([] @ m, q) \<and> distinct m \<and>
      set m = set older \<union> set (v_itemOrder v')"
    using merge_loop_disjoint [OF v'(3) w(7), of "page_seq page v' older" "([], None)"] v'(4) order
    by (auto simp: page_seq_def)
  then obtain m q where m: "merge_loop (page_seq page v' older) older (v_itemOrder v') ([], None) = Some (m, q)"
    "distinct m" "set m = set older \<union> set (v_itemOrder v')" by auto
  have "applyItemsPage page v = Some (v'\<lparr>v_itemOrder := m, v_itemsBefore := (case v_itemsBefore v of None \<Rightarrow> None
      | Some n \<Rightarrow> (case pg_itemsBefore page of None \<Rightarrow> None | Some k \<Rightarrow> Some (min n k)))\<rparr>)" (is "_ = Some (v'\<lparr>v_itemOrder := m, v_itemsBefore := ?b\<rparr>)")
    using assms(2) p m(1) by (simp add: applyItemsPage_def mergeBySeq_def)
  then have "applyItemsPage page v = Some (v\<lparr>v_items := v_items v', v_itemOrder := m, v_itemsBefore := ?b\<rparr>)"
    using arg_cong [OF v'(2), of "\<lambda>u. Some (u\<lparr>v_itemOrder := m, v_itemsBefore := ?b\<rparr>)"] by simp
  moreover have "view_wf (v\<lparr>v_items := v_items v', v_itemOrder := m, v_itemsBefore := ?b\<rparr>)"
    using w v'(1,5) m(2,3) order by (auto simp: view_wf_def)
  ultimately show ?thesis using v'(6) by simp
qed

lemma view_wf_page: "view_wf v \<Longrightarrow> applyItemsPage page v = Some v' \<Longrightarrow> view_wf v'"
  using applyItemsPage_wf [of v page] by (cases "pg_threadId page = th_id (v_thread v)") (auto simp: applyItemsPage_def)

subsection \<open>What a bounded tail keeps\<close>

lemma count_roots_gen:
  "foldl (\<lambda>(roots, recentRoots) (i, e).
       if te_root e then (roots + 1, if i \<ge> s then recentRoots + 1 else recentRoots) else (roots, recentRoots))
     (r, q) (enumerate n es) =
   (r + length (filter te_root es), q + length (filter te_root (drop (s - n) es)))"
proof (induction es arbitrary: r q n)
  case (Cons e es)
  show ?case by (cases "s \<le> n") (auto simp: Cons.IH drop_Cons' Suc_diff_le)
qed simp

lemma count_roots_eq: "count_roots s es = (length (filter te_root es), length (filter te_root (drop s es)))"
  using count_roots_gen [of s 0 0 0 es] by (simp add: count_roots_def)

lemma length_keep_flags [simp]: "length (keep_flags kr ko es) = length es"
  by (induction kr ko es rule: keep_flags.induct) simp_all

lemma keep_flags_lane:
  "filter te_root (map fst (filter snd (zip es (keep_flags kr ko es)))) = take (nat kr) (filter te_root es)"
  "filter (\<lambda>e. \<not> te_root e) (map fst (filter snd (zip es (keep_flags kr ko es)))) = take (nat ko) (filter (\<lambda>e. \<not> te_root e) es)"
proof -
  have Suc: "nat k = Suc (nat (k - 1))" if "k > 0" for k :: int using that by simp
  show "filter te_root (map fst (filter snd (zip es (keep_flags kr ko es)))) = take (nat kr) (filter te_root es)"
    by (induction kr ko es rule: keep_flags.induct) (auto simp: Suc)
  show "filter (\<lambda>e. \<not> te_root e) (map fst (filter snd (zip es (keep_flags kr ko es)))) = take (nat ko) (filter (\<lambda>e. \<not> te_root e) es)"
    by (induction kr ko es rule: keep_flags.induct) (auto simp: Suc)
qed

lemma length_keep_of [simp]: "length (keep_of es cap) = length es"
  by (simp add: keep_of_def Let_def)

abbreviation kept_of :: "tail_entry list \<Rightarrow> nat \<Rightarrow> tail_entry list" where
  "kept_of es cap \<equiv> map fst (filter snd (zip es (keep_of es cap)))"

lemma kept_rev:
  "kept_of es cap = rev (map fst (filter snd (zip (rev es)
     (keep_flags (int (keep_roots es cap)) (int cap - int (keep_roots es cap)) (rev es)))))"
proof -
  let ?k = "keep_flags (int (keep_roots es cap)) (int cap - int (keep_roots es cap)) (rev es)"
  have "zip es (rev ?k) = rev (zip (rev es) ?k)" using zip_rev [of "rev es" ?k] by simp
  then show ?thesis by (simp add: keep_of_def Let_def rev_map rev_filter)
qed

text \<open>Each lane keeps its newest run.\<close>

lemma kept_lanes:
  "filter te_root (kept_of es cap) =
     drop (length (filter te_root es) - keep_roots es cap) (filter te_root es)"
  "filter (\<lambda>e. \<not> te_root e) (kept_of es cap) =
     drop (length (filter (\<lambda>e. \<not> te_root e) es) - (cap - keep_roots es cap)) (filter (\<lambda>e. \<not> te_root e) es)"
  unfolding kept_rev
  by (simp_all add: rev_filter [symmetric] keep_flags_lane rev_take nat_diff_distrib' flip: rev_filter)

lemma keep_roots_bounds:
  assumes "cap < length es"
  shows "keep_roots es cap \<le> cap" "keep_roots es cap \<le> length (filter te_root es)"
    "cap - keep_roots es cap \<le> length (filter (\<lambda>e. \<not> te_root e) es)"
    "min (length (filter te_root es)) (cap div 2) \<le> keep_roots es cap"
    "length (filter te_root (drop (length es - cap) es)) \<le> keep_roots es cap"
proof -
  let ?old = "take (length es - cap) es" and ?new = "drop (length es - cap) es"
  have split: "length (filter P es) = length (filter P ?old) + length (filter P ?new)" for P
    by (metis append_take_drop_id filter_append length_append)
  have new: "length (filter te_root ?new) + length (filter (\<lambda>e. \<not> te_root e) ?new) = cap"
    using assms sum_length_filter_compl [of te_root ?new] by simp
  have k: "keep_roots es cap = max (length (filter te_root ?new)) (min (length (filter te_root es)) (cap div 2))"
    by (simp add: keep_roots_def count_roots_eq)
  show "keep_roots es cap \<le> cap" "keep_roots es cap \<le> length (filter te_root es)"
    "cap - keep_roots es cap \<le> length (filter (\<lambda>e. \<not> te_root e) es)"
    "min (length (filter te_root es)) (cap div 2) \<le> keep_roots es cap"
    "length (filter te_root ?new) \<le> keep_roots es cap"
    using new split [of te_root] split [of "\<lambda>e. \<not> te_root e"] unfolding k by linarith+
qed

lemma length_kept:
  assumes "cap < length es"
  shows "length (kept_of es cap) = cap"
    "length (filter te_root (kept_of es cap)) = keep_roots es cap"
  using keep_roots_bounds [OF assms] sum_length_filter_compl [of te_root "kept_of es cap"]
  unfolding kept_lanes by simp_all

lemma evicted_end_gen:
  assumes "n = foldl (\<lambda>n (i, k). if k then n else i + 1) m (enumerate s ks)" "m \<le> s"
  shows "(n = m \<and> list_all (\<lambda>k. k) ks) \<or> (s < n \<and> n \<le> s + length ks \<and> \<not> ks ! (n - s - 1) \<and> list_all (\<lambda>k. k) (drop (n - s) ks))"
  using assms
proof (induction ks arbitrary: s m)
  case (Cons k ks)
  define m' where "m' = (if k then m else s + 1)"
  have "(n = m' \<and> list_all (\<lambda>k. k) ks) \<or>
      (Suc s < n \<and> n \<le> Suc s + length ks \<and> \<not> ks ! (n - Suc s - 1) \<and> list_all (\<lambda>k. k) (drop (n - Suc s) ks))"
    using Cons.prems by (intro Cons.IH) (auto simp: m'_def)
  then consider "n = m'" "list_all (\<lambda>k. k) ks"
    | j where "n = s + Suc (Suc j)" "j < length ks" "\<not> ks ! j" "list_all (\<lambda>k. k) (drop (Suc j) ks)"
    by (auto dest!: less_imp_Suc_add)
  then show ?case by cases (auto simp: m'_def split: if_splits)
qed simp

lemma evicted_end:
  assumes "n = evicted_end ks"
  shows "n \<le> length ks" "list_all (\<lambda>k. k) (drop n ks)" "n > 0 \<Longrightarrow> \<not> ks ! (n - 1)"
  using evicted_end_gen [OF assms [unfolded evicted_end_def]] by auto

lemma after_evicted_kept:
  assumes "e \<in> set (drop (evicted_end (keep_of es cap)) es)"
  shows "e \<in> set (kept_of es cap)"
proof -
  let ?ks = "keep_of es cap" and ?n = "evicted_end (keep_of es cap)"
  from assms obtain j where j: "j < length (drop ?n es)" "e = drop ?n es ! j" by (auto simp: in_set_conv_nth)
  have "drop ?n ?ks ! j" using evicted_end(2) [OF refl, of ?ks] j(1) by (simp add: list_all_length)
  with j have "(e, True) \<in> set (zip es ?ks)" by (auto simp: in_set_zip intro!: exI [of _ "?n + j"])
  then show ?thesis by force
qed

text \<open>The entries of a held window: every one has its sequence, in strictly increasing order.\<close>

definition sequenced :: "tail_entry list \<Rightarrow> bool" where
  "sequenced es \<longleftrightarrow> (\<forall>e \<in> set es. te_seq e \<noteq> None) \<and> sorted_wrt (\<lambda>a b. the (te_seq a) < the (te_seq b)) es"

lemma sequencedD:
  assumes "sequenced (xs @ ys)" "x \<in> set xs" "y \<in> set ys" "te_seq x = Some m" "te_seq y = Some n"
  shows "m < n"
  using assms by (fastforce simp: sequenced_def sorted_wrt_append)

lemma before_complete:
  assumes "sequenced es" "cap < length es" "rt_before (retainedTail es cap) = Some b"
    and "e \<in> set es" "te_seq e = Some n" "b \<le> n"
  shows "e \<in> set (kept_of es cap)"
proof -
  define k where "k = evicted_end (keep_of es cap)"
  have es: "es = take k es @ drop k es" by simp
  have b: "Some b = orelse (Option.bind (find (\<lambda>e. te_seq e \<noteq> None) (drop k es)) te_seq)
      (map_option Suc (if k = 0 then None else te_seq (es ! (k - 1))))"
    using assms(2,3) unfolding retainedTail_def Let_def k_def by (simp split: if_splits)
  have "e \<in> set (drop k es)"
  proof (cases "drop k es")
    case (Cons x rest)
    have x: "x \<in> set es" using Cons in_set_dropD [of x k es] by simp
    with assms(1) have "te_seq x \<noteq> None" by (simp add: sequenced_def)
    with b Cons have xb: "te_seq x = Some b" by (auto simp: orelse_def)
    have "e \<notin> set (take k es)"
    proof
      assume "e \<in> set (take k es)"
      moreover have "sequenced (take k es @ drop k es)" using assms(1) by simp
      ultimately have "n < b" using sequencedD [of "take k es" "drop k es" e x n b] assms(5) xb Cons by simp
      with assms(6) show False by simp
    qed
    with assms(4) es show ?thesis by (metis Un_iff set_append)
  next
    case Nil
    have k: "k = length es" using Nil evicted_end(1) [OF k_def] by simp
    with assms(2) have "k > 0" by linarith
    with b Nil obtain m where m: "te_seq (es ! (k - 1)) = Some m" "b = Suc m" by (cases "te_seq (es ! (k - 1))") (auto simp: orelse_def)
    have split: "es = butlast es @ [es ! (k - 1)]" using k \<open>k > 0\<close> by (metis append_butlast_last_id last_conv_nth length_greater_0_conv)
    have "n \<le> m"
    proof (cases "e = es ! (k - 1)")
      case False
      with assms(4) split have "e \<in> set (butlast es)" by (metis UnE empty_iff empty_set set_ConsD set_append)
      then show ?thesis using sequencedD [of "butlast es" "[es ! (k - 1)]" e "es ! (k - 1)" n m] assms(1,5) m(1) split by force
    qed (use assms(5) m in simp)
    with assms(6) m(2) show ?thesis by simp
  qed
  then show ?thesis unfolding k_def by (rule after_evicted_kept)
qed

lemma first_in_lane_cases:
  "first_in_lane seq inLane before (map te_id es) = before \<or>
   (\<exists>x n. filter (\<lambda>e. inLane (te_id e)) es = x # tl (filter (\<lambda>e. inLane (te_id e)) es) \<and> seq (te_id x) = Some n \<and>
      first_in_lane seq inLane before (map te_id es) = min n before)"
  by (induction es) (auto split: option.split)

lemma lane_complete:
  assumes "sequenced es" "cap < length es" "rt_before (retainedTail es cap) = Some b"
    and lane: "\<forall>e \<in> set es. inLane (te_id e) = te_root e \<and> seq (te_id e) = te_seq e"
    and "laneBefore (map te_id (kept_of es cap)) seq inLane (Some (Some b)) = Some (Some c)"
    and e: "e \<in> set es" "te_root e" "te_seq e = Some n" "c \<le> n"
  shows "e \<in> set (kept_of es cap)"
proof (cases "b \<le> n")
  case True
  with before_complete [OF assms(1-3) e(1,3)] show ?thesis .
next
  case False
  let ?k = "kept_of es cap" and ?rs = "filter te_root es"
  have sub: "set ?k \<subseteq> set es" by (auto dest: set_zip_leftD)
  have lane': "filter (\<lambda>e. inLane (te_id e)) ?k = filter te_root ?k"
    using lane sub by (intro filter_cong) auto
  obtain x m where x: "filter te_root ?k = x # tl (filter te_root ?k)" "seq (te_id x) = Some m" "c = min m b"
    using first_in_lane_cases [of seq inLane b ?k] assms(5) False e(4) unfolding lane' laneBefore_def by auto
  define j where "j = length ?rs - keep_roots es cap"
  have rs: "?rs = take j ?rs @ filter te_root ?k" unfolding kept_lanes j_def by simp
  have "x \<in> set ?k" using x(1) by (metis filter_is_subset list.set_intros(1) subsetD)
  with x(2) lane sub have m: "te_seq x = Some m" by auto
  have "sequenced ?rs" using assms(1) by (auto simp: sequenced_def sorted_wrt_filter)
  then have "e \<notin> set (take j ?rs)"
    using sequencedD [of "take j ?rs" "filter te_root ?k" e x n m] rs x(1,3) m e(3,4) False by (metis list.set_intros(1) linorder_not_less min.absorb_iff2 min_def)
  moreover have "e \<in> set ?rs" using e by simp
  ultimately have "e \<in> set (filter te_root ?k)" using rs by (metis Un_iff set_append)
  then show ?thesis by simp
qed

subsection \<open>Properties\<close>

text \<open>The facts of the property below, one by one.\<close>

lemma retained_tail_spec:
  assumes "sequenced entries" "capacity < length entries" "retainedTail entries capacity = rt" "rt_before rt = Some b"
    and "\<forall>e \<in> set entries. inLane (te_id e) = te_root e \<and> seq (te_id e) = te_seq e"
    and "laneBefore (map te_id (rt_kept rt)) seq inLane (Some (Some b)) = Some (Some c)"
  shows "length (rt_kept rt) = capacity" "mset (rt_kept rt) + mset (rt_evicted rt) = mset entries"
    "\<exists>n. filter te_root (rt_kept rt) = drop n (filter te_root entries)"
    "\<exists>n. filter (\<lambda>e. \<not> te_root e) (rt_kept rt) = drop n (filter (\<lambda>e. \<not> te_root e) entries)"
    "min (length (filter te_root entries)) (capacity div 2) \<le> length (filter te_root (rt_kept rt))"
    "\<forall>e \<in> set entries. \<forall>n. te_seq e = Some n \<longrightarrow> b \<le> n \<longrightarrow> e \<in> set (rt_kept rt)"
    "\<forall>e \<in> set entries. \<forall>n. te_root e \<longrightarrow> te_seq e = Some n \<longrightarrow> c \<le> n \<longrightarrow> e \<in> set (rt_kept rt)"
proof -
  have kept: "rt_kept rt = kept_of entries capacity" and
    ev: "rt_evicted rt = map fst (filter (\<lambda>e. \<not> snd e) (zip entries (keep_of entries capacity)))"
    using assms(2,3) by (auto simp: retainedTail_def Let_def)
  note b = assms(4) [folded assms(3)]
  show "length (rt_kept rt) = capacity" unfolding kept by (rule length_kept(1) [OF assms(2)])
  have "mset (map fst (filter snd xs)) + mset (map fst (filter (\<lambda>e. \<not> snd e) xs)) = mset (map fst xs)"
    for xs :: "(tail_entry \<times> bool) list" by (induction xs) auto
  from this [of "zip entries (keep_of entries capacity)"]
  show "mset (rt_kept rt) + mset (rt_evicted rt) = mset entries" unfolding kept ev by (simp only: map_fst_zip length_keep_of)
  show "\<exists>n. filter te_root (rt_kept rt) = drop n (filter te_root entries)"
    "\<exists>n. filter (\<lambda>e. \<not> te_root e) (rt_kept rt) = drop n (filter (\<lambda>e. \<not> te_root e) entries)"
    unfolding kept kept_lanes by blast+
  show "min (length (filter te_root entries)) (capacity div 2) \<le> length (filter te_root (rt_kept rt))"
    unfolding kept length_kept(2) [OF assms(2)] by (rule keep_roots_bounds(4) [OF assms(2)])
  show "\<forall>e \<in> set entries. \<forall>n. te_seq e = Some n \<longrightarrow> b \<le> n \<longrightarrow> e \<in> set (rt_kept rt)"
    unfolding kept using before_complete [OF assms(1,2) b] by blast
  show "\<forall>e \<in> set entries. \<forall>n. te_root e \<longrightarrow> te_seq e = Some n \<longrightarrow> c \<le> n \<longrightarrow> e \<in> set (rt_kept rt)"
    using lane_complete [OF assms(1,2) b assms(5) assms(6) [unfolded kept]] unfolding kept by blast
qed

text \<open>C18: the bounded tail keeps what it promises. Of more entries than it may hold it keeps exactly
  its capacity; the root lane keeps its newest entries, at least half the capacity where it has them,
  and the other lanes keep their newest; every entry at or after the cursor is kept, and in the root
  lane every entry at or after the lane's own cursor.\<close>

theorem retainedTail_keeps:
  assumes "sequenced entries" "capacity < length entries" "retainedTail entries capacity = rt" "rt_before rt = Some b"
    and "\<forall>e \<in> set entries. inLane (te_id e) = te_root e \<and> seq (te_id e) = te_seq e"
    and "laneBefore (map te_id (rt_kept rt)) seq inLane (Some (Some b)) = Some (Some c)"
  shows "length (rt_kept rt) = capacity \<and>
    mset (rt_kept rt) + mset (rt_evicted rt) = mset entries \<and>
    (\<exists>n. filter te_root (rt_kept rt) = drop n (filter te_root entries)) \<and>
    (\<exists>n. filter (\<lambda>e. \<not> te_root e) (rt_kept rt) = drop n (filter (\<lambda>e. \<not> te_root e) entries)) \<and>
    min (length (filter te_root entries)) (capacity div 2) \<le> length (filter te_root (rt_kept rt)) \<and>
    (\<forall>e \<in> set entries. \<forall>n. te_seq e = Some n \<longrightarrow> b \<le> n \<longrightarrow> e \<in> set (rt_kept rt)) \<and>
    (\<forall>e \<in> set entries. \<forall>n. te_root e \<longrightarrow> te_seq e = Some n \<longrightarrow> c \<le> n \<longrightarrow> e \<in> set (rt_kept rt))"
  using retained_tail_spec [OF assms] by (intro conjI)

definition example_entries :: "tail_entry list" where
  "example_entries = map (\<lambda>(i, n, r). \<lparr>te_id = i, te_seq = Some n, te_root = r\<rparr>)
     [(''prompt'', 1, True), (''reply'', 2, True), (''a'', 3, False), (''b'', 5, False), (''c'', 8, False)]"

text \<open>Of five entries two fit: the busy subagent does not push out the root's last reply.\<close>

theorem retainedTail_keeps_witness:
  "map te_id (rt_kept (retainedTail example_entries 2)) = [''reply'', ''c''] \<and>
   mset (rt_kept (retainedTail example_entries 2)) + mset (rt_evicted (retainedTail example_entries 2)) = mset example_entries"
proof -
  let ?lane = "\<lambda>i. i = ''prompt'' \<or> i = ''reply''"
  let ?seq = "\<lambda>i. if i = ''prompt'' then Some 1 else if i = ''reply'' then Some 2 else if i = ''a'' then Some 3
    else if i = ''b'' then Some 5 else Some (8 :: nat)"
  have run: "map te_id (rt_kept (retainedTail example_entries 2)) = [''reply'', ''c'']"
    "rt_before (retainedTail example_entries 2) = Some 8" by code_simp+
  have "sequenced example_entries" by (simp add: sequenced_def example_entries_def)
  moreover have "2 < length example_entries" by (simp add: example_entries_def)
  moreover have "\<forall>e \<in> set example_entries. ?lane (te_id e) = te_root e \<and> ?seq (te_id e) = te_seq e"
    by (simp add: example_entries_def)
  moreover have "laneBefore (map te_id (rt_kept (retainedTail example_entries 2))) ?seq ?lane (Some (Some 8)) = Some (Some 2)"
    by (simp add: run(1) laneBefore_def)
  ultimately show ?thesis using retainedTail_keeps [OF _ _ refl run(2), of ?lane ?seq 2] run(1) by blast
qed

subsection \<open>The views a client can hold\<close>

inductive held :: "thread_view \<Rightarrow> bool" where
  held_created: "held (createThreadView thread n)"
| held_event: "held v \<Longrightarrow> applyEvent e v = Some (r, v') \<Longrightarrow> held v'"
| held_delivery: "held v \<Longrightarrow> applyDelivery m (Thread_view v) = Some (r, Thread_view v') \<Longrightarrow> held v'"
| held_page: "held v \<Longrightarrow> applyItemsPage page v = Some v' \<Longrightarrow> held v'"

fun snapshot_wf :: "snapshot_view \<Rightarrow> bool" where
  "snapshot_wf (Thread_view v) \<longleftrightarrow> view_wf v"
| "snapshot_wf (Threads_view l) \<longleftrightarrow> True"

lemma snapshot_wf_delivery:
  assumes "applyDelivery m sv = Some (r, sv')" "snapshot_wf sv"
  shows "snapshot_wf sv'"
proof -
  have seq: "snapshot_wf (set_seq n u) = snapshot_wf u" for n u by (cases u) simp_all
  have "snapshot_wf u'" if "foldM fold_view es u = Some u'" "snapshot_wf u" for es u u'
    using that(1)
  proof (rule foldM_invariant [where I = snapshot_wf])
    fix e u u'
    assume "fold_view e u = Some u'" "snapshot_wf u"
    then show "snapshot_wf u'" by (cases u) (auto dest: view_wf_foldEvent)
  qed (rule that(2))
  with assms seq show ?thesis by (auto simp: applyDelivery_def Let_def split: if_splits)
qed

lemma view_wf_applyEvent:
  assumes "applyEvent e v = Some (r, v')" "view_wf v"
  shows "view_wf v'"
  using assms by (auto simp: applyEvent_def Let_def split: if_splits dest!: view_wf_foldEvent)

lemma held_wf: "held v \<Longrightarrow> view_wf v"
proof (induction rule: held.induct)
  case (held_delivery v m r v')
  with snapshot_wf_delivery [of m "Thread_view v" r "Thread_view v'"] show ?case by simp
qed (auto intro: view_wf_created view_wf_applyEvent view_wf_page)


definition sample_thread :: thread where
  "sample_thread = \<lparr>th_id = ''t'', th_status = New, th_rootAgentId = None, th_updatedAt = 0, th_rest = []\<rparr>"

definition sample_item :: "ident \<Rightarrow> item" where
  "sample_item i = \<lparr>item_id = i, item_agentId = ''a'', item_runId = None, item_createdAt = 1, item_complete = True,
     item_body = Message User_role [], item_raw = [], item_rest = []\<rparr>"

definition sample_event :: "nat \<Rightarrow> payload \<Rightarrow> delivery_event" where
  "sample_event n p = \<lparr>de_seq = n, de_firstSeq = None, de_at = 5, de_threadId = ''t'', de_payload = p\<rparr>"

definition sample_page :: items_page where
  "sample_page = \<lparr>pg_threadId = ''t'', pg_items = [sample_item ''h''], pg_itemSeqs = [(''h'', 1)], pg_itemsBefore = None\<rparr>"

lemmas sample_defs = sample_thread_def sample_item_def sample_event_def sample_page_def createThreadView_def


end
