(* ===== verification/Outbox.thy ===== *)
theory Outbox
  imports Projection "HOL-Library.Word"
begin

text \<open>
  The daemon's sending side of one connection (src/apps/daemon/src/outbox.ts, wire-encoder.ts,
  compression-policy.ts): server messages become frames, wait while the transport is congested, are
  joined there, and leave in order; past its limits the connection is closed for the client to resume.

  Text on the wire is a list of UTF-16 units. What \<open>JSON.stringify\<close> prints for a message or an event is
  a parameter, because the model keeps the properties of entities that nothing reads as dictionaries.
  The socket is a record with the messages handed to it; how many bytes it reports as buffered after a
  send is a parameter too, and a call reads the clock once. A frame that holds encoded text holds here the message it encodes, and the
  caches of the encoder, keyed by event objects that never change, are left out.
\<close>

subsection \<open>Messages\<close>

type_synonym wire = "16 word list"

datatype server_message =
    Msg_events ident nat nat "delivery_event list"
  | Msg_progress ident nat nat
  | Msg_snapshot ident nat json
  | Msg_entities_page string ident nat json
  | Msg_snapshot_part ident nat nat bool wire
  | Msg_entities_page_part string ident nat nat bool wire
  | Msg_error string string string
  | Msg_other string fields

fun message_type :: "server_message \<Rightarrow> string" where
  "message_type (Msg_events _ _ _ _) = ''events''"
| "message_type (Msg_progress _ _ _) = ''progress''"
| "message_type (Msg_snapshot _ _ _) = ''snapshot''"
| "message_type (Msg_entities_page _ _ _ _) = ''entities.page''"
| "message_type (Msg_snapshot_part _ _ _ _ _) = ''snapshot.part''"
| "message_type (Msg_entities_page_part _ _ _ _ _ _) = ''entities.page.part''"
| "message_type (Msg_error _ _ _) = ''error''"
| "message_type (Msg_other t _) = t"

subsection \<open>Compression (compression-policy.ts)\<close>

definition compressible :: "string list" where
  "compressible = [''events'', ''snapshot'', ''snapshot.part'', ''entities.page'', ''entities.page.part'',
     ''items.page'', ''items.window'', ''turns.page'', ''turn.steps'', ''threads.patch'', ''thread.catchUp'',
     ''thread.search'', ''search.results'', ''history.list'', ''catalog.changed'', ''catalog.list.result'',
     ''models.result'', ''usage.result'']"

definition mayCompress :: "string \<Rightarrow> bool" where
  "mayCompress t \<longleftrightarrow> t \<in> set compressible"

subsection \<open>Encoding (wire-encoder.ts)\<close>

definition eventFrameBytes :: int where
  "eventFrameBytes = 1024 * 1024"

definition high_surrogate :: "16 word \<Rightarrow> bool" where
  "high_surrogate u \<longleftrightarrow> 0xd800 \<le> u \<and> u < 0xdc00"

definition low_surrogate :: "16 word \<Rightarrow> bool" where
  "low_surrogate u \<longleftrightarrow> 0xdc00 \<le> u \<and> u < 0xe000"

definition unit_bytes :: "16 word \<Rightarrow> int" where
  "unit_bytes u = (if u < 0x80 then 1 else if u < 0x800 then 2 else 3)"

text \<open>\<open>Buffer.byteLength\<close>: the length of the UTF-8 encoding; a lone surrogate becomes U+FFFD.\<close>

fun byteLength :: "wire \<Rightarrow> int" where
  "byteLength [] = 0"
| "byteLength [u] = unit_bytes u"
| "byteLength (u # w # us) =
     (if high_surrogate u \<and> low_surrogate w then 4 + byteLength us else unit_bytes u + byteLength (w # us))"

definition ascii :: "string \<Rightarrow> wire" where
  "ascii s = map (\<lambda>c. of_nat (byte c)) s"

record printer =
  pr_event :: "delivery_event \<Rightarrow> wire"
  pr_string :: "string \<Rightarrow> wire"
  pr_message :: "server_message \<Rightarrow> wire"

fun comma_joined :: "wire list \<Rightarrow> wire" where
  "comma_joined [] = []"
| "comma_joined [x] = x"
| "comma_joined (x # xs) = x @ ascii '','' @ comma_joined xs"

fun encode :: "printer \<Rightarrow> server_message \<Rightarrow> wire" where
  \<open>encode pr (Msg_events sub afterSeq throughSeq events) =
     ascii ''{"type":"events","subscriptionId":'' @ pr_string pr sub @
     ascii '',"afterSeq":'' @ ascii (decimal afterSeq) @
     ascii '',"throughSeq":'' @ ascii (decimal throughSeq) @
     ascii '',"events":['' @ comma_joined (map (pr_event pr) events) @ ascii '']}''\<close>
| "encode pr m = pr_message pr m"

definition eventBytes :: "printer \<Rightarrow> delivery_event \<Rightarrow> int" where
  "eventBytes pr e = byteLength (pr_event pr e)"

text \<open>The loop of \<open>split\<close>: the frames so far, the events of the next one, where it starts and its size.\<close>

definition split_step :: "printer \<Rightarrow> ident \<Rightarrow> int \<Rightarrow> delivery_event \<Rightarrow>
    server_message list \<times> delivery_event list \<times> nat \<times> int \<Rightarrow> server_message list \<times> delivery_event list \<times> nat \<times> int" where
  "split_step pr sub overhead e st = (case st of (frames, events, afterSeq, bytes) \<Rightarrow>
     let sz = eventBytes pr e + 1 in
     if events \<noteq> [] \<and> bytes + sz > eventFrameBytes then
       let throughSeq = de_seq (List.last events) in
       (frames @ [Msg_events sub afterSeq throughSeq events], [e], throughSeq, overhead + sz)
     else (frames, events @ [e], afterSeq, bytes + sz))"

definition split_events :: "printer \<Rightarrow> ident \<Rightarrow> nat \<Rightarrow> nat \<Rightarrow> delivery_event list \<Rightarrow> server_message list" where
  "split_events pr sub afterSeq throughSeq events =
     (let overhead = byteLength (pr_message pr (Msg_events sub afterSeq throughSeq [])) + 64;
          (frames, rest, start, _) = fold (split_step pr sub overhead) events ([], [], afterSeq, overhead)
      in frames @ [Msg_events sub start throughSeq rest])"

subsection \<open>Joining deltas (outbox.ts)\<close>

text \<open>The condition under which an event is joined to the one before it, and the joined event.\<close>

definition joins :: "delivery_event \<Rightarrow> delivery_event \<Rightarrow> bool" where
  "joins prev e = (case (de_payload prev, de_payload e) of
       (P_item_delta i a fld x, P_item_delta j b fld' y) \<Rightarrow>
         de_seq prev + 1 = first_seq e \<and> de_threadId prev = de_threadId e \<and> i = j \<and> a = b \<and> fld = fld' \<and>
         int (utf16Length x) + int (utf16Length y) \<le> 65536
     | _ \<Rightarrow> False)"

definition join_delta :: "delivery_event \<Rightarrow> delivery_event \<Rightarrow> delivery_event" where
  "join_delta prev e = e\<lparr>de_firstSeq := Some (first_seq prev), de_payload :=
     (case (de_payload prev, de_payload e) of
        (P_item_delta _ _ _ x, P_item_delta i a fld y) \<Rightarrow> P_item_delta i a fld (x @ y)
      | (_, p) \<Rightarrow> p)\<rparr>"

definition coalesce_step :: "delivery_event \<Rightarrow> delivery_event list \<Rightarrow> delivery_event list" where
  "coalesce_step e result =
     (if result \<noteq> [] \<and> joins (List.last result) e then butlast result @ [join_delta (List.last result) e]
      else result @ [e])"

definition appendCoalesced :: "delivery_event list \<Rightarrow> delivery_event list \<Rightarrow> delivery_event list" where
  "appendCoalesced result events = fold coalesce_step events result"

definition coalesceEvents :: "delivery_event list \<Rightarrow> delivery_event list" where
  "coalesceEvents events = appendCoalesced [] events"

subsection \<open>State\<close>

record pressure =
  softLimit :: int
  hardLimit :: int
  maxQueuedBytes :: int
  hardTimeoutMs :: int

definition defaultPressure :: pressure where
  "defaultPressure = \<lparr>softLimit = 256 * 1024, hardLimit = 4 * 1024 * 1024, maxQueuedBytes = 4 * 1024 * 1024,
     hardTimeoutMs = 5000\<rparr>"

definition RESYNC_CLOSE_CODE :: nat where
  "RESYNC_CLOSE_CODE = 4009"

definition replyFrameBytes :: int where
  "replyFrameBytes = eventFrameBytes * 2"

datatype part_header = Snapshot_header ident nat | Page_header string ident nat

datatype pending_frame =
    Batch int ident nat nat "delivery_event list"
  | Serialized int server_message bool
  | Stream part_header wire nat nat

fun chargedBytes :: "pending_frame \<Rightarrow> int" where
  "chargedBytes (Batch n _ _ _ _) = n"
| "chargedBytes (Serialized n _ _) = n"
| "chargedBytes (Stream _ _ _ _) = 0"

record socket =
  sk_open :: bool
  sk_buffered :: nat
  sk_sent :: "(server_message \<times> bool) list"
  sk_closed :: "nat option"

text \<open>\<open>pending\<close> is a \<open>Map\<close> in order of insertion.\<close>

record outbox =
  ob_pending :: "(nat \<times> pending_frame) list"
  ob_tail :: nat
  ob_streamSources :: int
  ob_sourceBytes :: int
  ob_bytes :: int
  ob_aboveHardSince :: "int option"
  ob_socket :: socket

record outbox_env =
  env_options :: pressure
  env_printer :: printer
  env_buffered :: "server_message \<Rightarrow> socket \<Rightarrow> nat"

definition new_outbox :: "socket \<Rightarrow> outbox" where
  "new_outbox sk = \<lparr>ob_pending = [], ob_tail = 0, ob_streamSources = 0, ob_sourceBytes = 0, ob_bytes = 0,
     ob_aboveHardSince = None, ob_socket = sk\<rparr>"

definition sk_close :: "nat \<Rightarrow> socket \<Rightarrow> socket" where
  "sk_close cd sk = sk\<lparr>sk_open := False, sk_closed := orelse (sk_closed sk) (Some cd)\<rparr>"

definition sk_send :: "outbox_env \<Rightarrow> server_message \<Rightarrow> bool \<Rightarrow> socket \<Rightarrow> socket" where
  "sk_send env m compress sk = sk\<lparr>sk_sent := sk_sent sk @ [(m, compress)], sk_buffered := env_buffered env m sk\<rparr>"

definition buffered :: "outbox \<Rightarrow> int" where
  "buffered ob = int (sk_buffered (ob_socket ob))"

subsection \<open>Operations (outbox.ts)\<close>

definition outbox_clear :: "outbox \<Rightarrow> outbox" where
  "outbox_clear ob = ob\<lparr>ob_pending := [], ob_bytes := 0, ob_tail := 0, ob_streamSources := 0, ob_sourceBytes := 0\<rparr>"

definition resync :: "outbox \<Rightarrow> outbox" where
  "resync ob = (outbox_clear ob)\<lparr>ob_socket := sk_close RESYNC_CLOSE_CODE (ob_socket ob)\<rparr>"

text \<open>\<open>admit\<close>: whether the bytes fit; where they do not, its callers close the connection (\<open>resync\<close>).\<close>

definition admits :: "outbox_env \<Rightarrow> int \<Rightarrow> outbox \<Rightarrow> bool" where
  "admits env bytes ob \<longleftrightarrow> ob_bytes ob + buffered ob + bytes \<le> maxQueuedBytes (env_options env)"

definition set_frame :: "pending_frame \<Rightarrow> outbox \<Rightarrow> outbox" where
  "set_frame f ob = ob\<lparr>ob_tail := ob_tail ob + 1, ob_pending := ob_pending ob @ [(ob_tail ob + 1, f)]\<rparr>"

definition part_bytes :: nat where
  "part_bytes = 131072"

fun part_message :: "part_header \<Rightarrow> nat \<Rightarrow> bool \<Rightarrow> wire \<Rightarrow> server_message" where
  "part_message (Snapshot_header sub seq) idx dn dat = Msg_snapshot_part sub seq idx dn dat"
| "part_message (Page_header req thread seq) idx dn dat = Msg_entities_page_part req thread seq idx dn dat"

text \<open>Taking the first frame: the message to send, whether to compress it, and the outbox without what
  is sent; a stream stays until its last part.\<close>

definition take_frame :: "outbox \<Rightarrow> server_message \<times> bool \<times> outbox" where
  "take_frame ob = (let (index, frame) = hd (ob_pending ob);
         ob1 = ob\<lparr>ob_bytes := ob_bytes ob - chargedBytes frame\<rparr>
     in case frame of
       Batch _ sub a t es \<Rightarrow> (Msg_events sub a t es, True, ob1\<lparr>ob_pending := tl (ob_pending ob)\<rparr>)
     | Serialized _ m compress \<Rightarrow> (m, compress, ob1\<lparr>ob_pending := tl (ob_pending ob)\<rparr>)
     | Stream h encoded offset idx \<Rightarrow>
         let stop = offset + part_bytes;
             m = part_message h idx (stop \<ge> length encoded) (take part_bytes (drop offset encoded))
         in (m, True,
             if stop \<ge> length encoded
             then ob1\<lparr>ob_pending := tl (ob_pending ob), ob_streamSources := ob_streamSources ob - 1,
                    ob_sourceBytes := ob_sourceBytes ob - int (length encoded) * 2\<rparr>
             else ob1\<lparr>ob_pending := (index, Stream h encoded stop (idx + 1)) # tl (ob_pending ob)\<rparr>))"

definition ready :: "outbox_env \<Rightarrow> outbox \<Rightarrow> bool" where
  "ready env ob \<longleftrightarrow> ob_pending ob \<noteq> [] \<and> sk_open (ob_socket ob) \<and> buffered ob \<le> max 0 (softLimit (env_options env))"

definition frame_work :: "pending_frame \<Rightarrow> nat" where
  "frame_work f = (case f of Stream _ encoded offset _ \<Rightarrow> Suc (length encoded - offset) | _ \<Rightarrow> 1)"

definition work :: "outbox \<Rightarrow> nat" where
  "work ob = sum_list (map (frame_work \<circ> snd) (ob_pending ob))"

lemma take_frame_work:
  assumes "ob_pending ob \<noteq> []" "take_frame ob = (m, c, ob')"
  shows "work ob' < work ob"
proof -
  obtain index frame rest where p: "ob_pending ob = (index, frame) # rest"
    using assms(1) by (cases "ob_pending ob") auto
  show ?thesis
    using assms(2) by (cases frame) (auto simp: take_frame_def p work_def frame_work_def Let_def part_bytes_def split: if_splits)
qed

lemma work_socket [simp]: "work (ob\<lparr>ob_socket := sk\<rparr>) = work ob"
  by (simp add: work_def)

text \<open>\<open>flush\<close>: frames leave while the transport takes them.\<close>

function flush :: "outbox_env \<Rightarrow> outbox \<Rightarrow> outbox" where
  "flush env ob =
     (if ready env ob then
        (case take_frame ob of (m, compress, ob1) \<Rightarrow>
           let bytes = byteLength (encode (env_printer env) m) in
           if bytes > replyFrameBytes then resync ob1
           else if \<not> admits env bytes ob1 then resync ob1
           else flush env (ob1\<lparr>ob_socket := sk_send env m compress (ob_socket ob1)\<rparr>))
      else ob)"
  by pat_completeness auto
termination
  by (relation "measure (work \<circ> snd)") (auto simp: ready_def dest: take_frame_work [OF _ sym])

declare flush.simps [simp del]

definition tick :: "outbox_env \<Rightarrow> int \<Rightarrow> outbox \<Rightarrow> outbox" where
  "tick env t ob =
     (let ob1 = (if buffered ob > hardLimit (env_options env) then
            let since = given (ob_aboveHardSince ob) t;
                ob' = ob\<lparr>ob_aboveHardSince := Some since\<rparr>
            in if t - since \<ge> hardTimeoutMs (env_options env) then resync ob' else ob'
          else ob\<lparr>ob_aboveHardSince := None\<rparr>)
      in if buffered ob1 \<le> softLimit (env_options env) then flush env ob1 else ob1)"

text \<open>\<open>this.pending.get(this.tail)\<close>, and the batch it is replaced with.\<close>

definition last_frame :: "outbox \<Rightarrow> pending_frame option" where
  "last_frame ob = map_of (ob_pending ob) (ob_tail ob)"

definition replace_last :: "pending_frame \<Rightarrow> outbox \<Rightarrow> outbox" where
  "replace_last f ob = ob\<lparr>ob_pending := map (\<lambda>(i, g). if i = ob_tail ob then (i, f) else (i, g)) (ob_pending ob)\<rparr>"

definition queue_batch :: "ident \<Rightarrow> nat \<Rightarrow> nat \<Rightarrow> delivery_event list \<Rightarrow> int \<Rightarrow> outbox \<Rightarrow> outbox" where
  "queue_batch sub afterSeq throughSeq events charge ob = (case last_frame ob of
       Some (Batch n sub' a t es) \<Rightarrow>
         if sub' = sub \<and> t = afterSeq \<and> n + charge \<le> eventFrameBytes
         then replace_last (Batch (n + charge) sub' a throughSeq (appendCoalesced es events)) ob
         else set_frame (Batch charge sub afterSeq throughSeq (coalesceEvents events)) ob
     | _ \<Rightarrow> set_frame (Batch charge sub afterSeq throughSeq (coalesceEvents events)) ob)"

definition send_frame :: "outbox_env \<Rightarrow> int \<Rightarrow> server_message \<Rightarrow> int \<Rightarrow> int \<Rightarrow> outbox \<Rightarrow> outbox" where
  "send_frame env t m charge limit ob =
     (if charge > limit then resync ob
      else if \<not> admits env charge ob then resync ob
      else
        let ob1 = set_frame (Serialized charge m (mayCompress (message_type m))) ob in
        tick env t (flush env (ob1\<lparr>ob_bytes := ob_bytes ob1 + charge\<rparr>)))"

definition sendOne :: "outbox_env \<Rightarrow> int \<Rightarrow> server_message \<Rightarrow> outbox \<Rightarrow> outbox" where
  "sendOne env t m ob =
     (if \<not> sk_open (ob_socket ob) then ob
      else
        let charge = byteLength (encode (env_printer env) m) in
        case m of
          Msg_events sub a th es \<Rightarrow>
            if buffered ob > softLimit (env_options env) then
              if charge > eventFrameBytes then resync ob
              else if \<not> admits env charge ob then resync ob
              else
                let ob1 = queue_batch sub a th es charge ob in
                tick env t (ob1\<lparr>ob_bytes := ob_bytes ob1 + charge\<rparr>)
            else send_frame env t m charge eventFrameBytes ob
        | _ \<Rightarrow> send_frame env t m charge replyFrameBytes ob)"

definition source_limit :: int where
  "source_limit = 64 * 1024 * 1024"

definition send_stream :: "outbox_env \<Rightarrow> int \<Rightarrow> part_header \<Rightarrow> wire \<Rightarrow> outbox \<Rightarrow> outbox" where
  "send_stream env t h encoded ob =
     (let sourceBytes = int (length encoded) * 2 in
      if ob_streamSources ob \<ge> 4 \<or> ob_sourceBytes ob + sourceBytes > source_limit then resync ob
      else
        let ob1 = set_frame (Stream h encoded 0 0) (ob\<lparr>ob_streamSources := ob_streamSources ob + 1,
              ob_sourceBytes := ob_sourceBytes ob + sourceBytes\<rparr>)
        in tick env t (flush env ob1))"

definition page_too_large :: "string \<Rightarrow> server_message" where
  "page_too_large req = Msg_error ''entity_page_too_large'' ''Entity page exceeds the 64 MiB retained-text budget'' req"

definition outbox_send :: "outbox_env \<Rightarrow> int \<Rightarrow> server_message \<Rightarrow> outbox \<Rightarrow> outbox" where
  "outbox_send env t m ob = (case m of
       Msg_events sub a th es \<Rightarrow> fold (sendOne env t) (split_events (env_printer env) sub a th es) ob
     | Msg_snapshot sub seq body \<Rightarrow>
         let encoded = encode (env_printer env) m in
         if byteLength encoded \<le> eventFrameBytes then sendOne env t m ob
         else send_stream env t (Snapshot_header sub seq) encoded ob
     | Msg_entities_page req thread seq page \<Rightarrow>
         let encoded = encode (env_printer env) m in
         if byteLength encoded \<le> eventFrameBytes then sendOne env t m ob
         else if int (length encoded) * 2 > source_limit then sendOne env t (page_too_large req) ob
         else send_stream env t (Page_header req thread seq) encoded ob
     | _ \<Rightarrow> sendOne env t m ob)"

end
