(* ===== verification/Outbox_Inv.thy ===== *)
theory Outbox_Inv
  imports Outbox
begin

text \<open>
  The bookkeeping of an outbox. Every operation is a sequence of small moves: a frame is handed to the
  socket, a message is queued, joined or streamed, or the connection is given up. An invariant is proved
  once per move. The bounds hold after any use of the outbox, whatever the network does.
\<close>

subsection \<open>Moves\<close>

inductive move :: "outbox_env \<Rightarrow> server_message list \<Rightarrow> outbox \<Rightarrow> outbox \<Rightarrow> bool" for env where
  mv_since: "move env [] ob (ob\<lparr>ob_aboveHardSince := x\<rparr>)"
| mv_resync: "move env ms ob (resync ob)"
| mv_closed: "\<not> sk_open (ob_socket ob) \<Longrightarrow> move env ms ob ob"
| mv_sent: "ready env ob \<Longrightarrow> take_frame ob = (m, c, ob1) \<Longrightarrow>
    move env [] ob (ob1\<lparr>ob_socket := sk_send env m c (ob_socket ob1)\<rparr>)"
| mv_serialized: "charge = byteLength (encode (env_printer env) m) \<Longrightarrow> charge \<le> replyFrameBytes \<Longrightarrow> admits env charge ob \<Longrightarrow>
    move env [m] ob ((set_frame (Serialized charge m c) ob)\<lparr>ob_bytes := ob_bytes ob + charge\<rparr>)"
| mv_batch: "charge = byteLength (encode (env_printer env) (Msg_events sub a th es)) \<Longrightarrow> charge \<le> eventFrameBytes \<Longrightarrow>
    admits env charge ob \<Longrightarrow>
    move env [Msg_events sub a th es] ob ((queue_batch sub a th es charge ob)\<lparr>ob_bytes := ob_bytes ob + charge\<rparr>)"
| mv_stream: "ob_streamSources ob < 4 \<Longrightarrow> ob_sourceBytes ob + int (length encoded) * 2 \<le> source_limit \<Longrightarrow>
    move env [] ob (set_frame (Stream h encoded 0 0) (ob\<lparr>ob_streamSources := ob_streamSources ob + 1,
      ob_sourceBytes := ob_sourceBytes ob + int (length encoded) * 2\<rparr>))"
| mv_network: "move env [] ob (ob\<lparr>ob_socket := (ob_socket ob)\<lparr>sk_buffered := n\<rparr>\<rparr>)"
| mv_lost: "move env [] ob (ob\<lparr>ob_socket := (ob_socket ob)\<lparr>sk_open := False\<rparr>\<rparr>)"
| mv_clear: "\<not> sk_open (ob_socket ob) \<Longrightarrow> move env [] ob (outbox_clear ob)"

text \<open>Several moves, with the messages they took in.\<close>

inductive moves :: "outbox_env \<Rightarrow> server_message list \<Rightarrow> outbox \<Rightarrow> outbox \<Rightarrow> bool" for env where
  moves_refl: "moves env [] ob ob"
| moves_step: "moves env ms ob ob' \<Longrightarrow> move env ms' ob' ob'' \<Longrightarrow> moves env (ms @ ms') ob ob''"

lemma moves_one: "move env ms ob ob' \<Longrightarrow> moves env ms ob ob'"
  using moves_step [OF moves_refl] by simp

lemma moves_trans:
  assumes "moves env ms' ob' ob''" "moves env ms ob ob'"
  shows "moves env (ms @ ms') ob ob''"
  using assms
proof (induction rule: moves.induct)
  case (moves_step ms1 ob1 ob2 ms2 ob3)
  then have "moves env (ms @ ms1) ob ob2" by simp
  from moves.moves_step [OF this moves_step(2)] show ?case by simp
qed simp

lemma moves_then: "moves env [] ob' ob'' \<Longrightarrow> moves env ms ob ob' \<Longrightarrow> moves env ms ob ob''"
  using moves_trans by fastforce

lemma resync_taken:
  assumes "ob_pending ob \<noteq> []" "take_frame ob = (m, c, ob1)"
  shows "resync ob1 = resync ob"
proof -
  obtain index frame rest where "ob_pending ob = (index, frame) # rest"
    using assms(1) by (cases "ob_pending ob") auto
  with assms(2) show ?thesis
    by (cases frame) (auto simp: take_frame_def Let_def resync_def outbox_clear_def split: if_splits)
qed

lemma moves_flush: "moves env [] ob (flush env ob)"
proof (induction env ob rule: flush.induct)
  case (1 env ob)
  show ?case
  proof (cases "ready env ob")
    case True
    obtain m c ob1 where t: "take_frame ob = (m, c, ob1)" by (cases "take_frame ob")
    let ?bytes = "byteLength (encode (env_printer env) m)"
    let ?ob2 = "ob1\<lparr>ob_socket := sk_send env m c (ob_socket ob1)\<rparr>"
    have p: "ob_pending ob \<noteq> []" using True by (simp add: ready_def)
    show ?thesis
    proof (cases "?bytes > replyFrameBytes \<or> \<not> admits env ?bytes ob1")
      case False
      then have "moves env [] ?ob2 (flush env ?ob2)" using 1 True t by auto
      from moves_then [OF this moves_one [OF mv_sent [OF True t]]] show ?thesis
        using True t False by (subst flush.simps) (simp add: Let_def)
    next
      case lost: True
      then have "flush env ob = resync ob"
        using True t resync_taken [OF p t] by (subst flush.simps) (auto simp: Let_def)
      then show ?thesis by (simp add: moves_one mv_resync)
    qed
  next
    case False
    then show ?thesis by (subst flush.simps) (simp add: moves_refl)
  qed
qed

lemma moves_tick: "moves env [] ob (tick env t ob)"
proof -
  define ob1 where "ob1 = (if buffered ob > hardLimit (env_options env) then
      let since = given (ob_aboveHardSince ob) t; ob' = ob\<lparr>ob_aboveHardSince := Some since\<rparr>
      in if t - since \<ge> hardTimeoutMs (env_options env) then resync ob' else ob'
    else ob\<lparr>ob_aboveHardSince := None\<rparr>)"
  have "moves env [] ob ob1"
    unfolding ob1_def by (auto simp: Let_def intro: moves_one mv_since moves_then [OF moves_one [OF mv_resync]])
  moreover have "tick env t ob = (if buffered ob1 \<le> softLimit (env_options env) then flush env ob1 else ob1)"
    by (simp add: tick_def ob1_def Let_def)
  ultimately show ?thesis using moves_then [OF moves_flush] by auto
qed

lemma moves_send_frame:
  assumes "charge = byteLength (encode (env_printer env) m)" "limit \<le> replyFrameBytes"
  shows "moves env [m] ob (send_frame env t m charge limit ob)"
proof (cases "charge > limit \<or> \<not> admits env charge ob")
  case True
  then show ?thesis by (auto simp: send_frame_def intro: moves_one mv_resync)
next
  case False
  let ?ob1 = "(set_frame (Serialized charge m (mayCompress (message_type m))) ob)\<lparr>ob_bytes := ob_bytes ob + charge\<rparr>"
  have "moves env [m] ob ?ob1" using False assms by (intro moves_one mv_serialized) auto
  from moves_then [OF moves_tick moves_then [OF moves_flush this]] False show ?thesis
    by (simp add: send_frame_def Let_def set_frame_def)
qed

lemma frame_limits: "eventFrameBytes \<le> replyFrameBytes"
  by (simp add: replyFrameBytes_def eventFrameBytes_def)

lemma moves_sendOne: "moves env [m] ob (sendOne env t m ob)"
proof (cases "sk_open (ob_socket ob)")
  case False
  then show ?thesis by (simp add: sendOne_def moves_one mv_closed)
next
  case True
  let ?charge = "byteLength (encode (env_printer env) m)"
  have one: "moves env [m] ob (send_frame env t m ?charge limit ob)" if "limit \<le> replyFrameBytes" for limit
    by (rule moves_send_frame [OF refl that])
  show ?thesis
  proof (cases m)
    case (Msg_events sub a th es)
    show ?thesis
    proof (cases "buffered ob > softLimit (env_options env)")
      case congested: True
      show ?thesis
      proof (cases "?charge > eventFrameBytes \<or> \<not> admits env ?charge ob")
        case True
        then have "sendOne env t m ob = resync ob" using \<open>sk_open _\<close> congested by (auto simp: sendOne_def Msg_events Let_def)
        then show ?thesis by (simp add: moves_one mv_resync)
      next
        case False
        let ?ob1 = "(queue_batch sub a th es ?charge ob)\<lparr>ob_bytes := ob_bytes ob + ?charge\<rparr>"
        have "ob_bytes (queue_batch sub a th es ?charge ob) = ob_bytes ob"
          by (simp add: queue_batch_def set_frame_def replace_last_def split: option.split pending_frame.split)
        then have "sendOne env t m ob = tick env t ?ob1"
          using True congested False by (simp add: sendOne_def Msg_events Let_def)
        moreover have "moves env [m] ob ?ob1"
          using False unfolding Msg_events by (intro moves_one mv_batch) auto
        ultimately show ?thesis using moves_then [OF moves_tick] by simp
      qed
    qed (use True one [OF frame_limits] in \<open>simp add: sendOne_def Msg_events\<close>)
  qed (use True one [OF order.refl] in \<open>simp_all add: sendOne_def\<close>)
qed

lemma moves_fold_sendOne: "moves env ms ob (fold (sendOne env t) ms ob)"
proof (induction ms arbitrary: ob)
  case (Cons m ms)
  from moves_trans [OF Cons [of "sendOne env t m ob"] moves_sendOne [of env m ob t]] show ?case by simp
qed (simp add: moves_refl)

text \<open>The messages a call of \<open>send\<close> takes in: the frames of a batch, the refusal of a page, or nothing
  that a subscription orders when the message is streamed.\<close>

definition taken :: "outbox_env \<Rightarrow> server_message \<Rightarrow> server_message list" where
  "taken env m = (case m of
       Msg_events sub a th es \<Rightarrow> split_events (env_printer env) sub a th es
     | Msg_snapshot sub seq body \<Rightarrow> if byteLength (encode (env_printer env) m) \<le> eventFrameBytes then [m] else []
     | Msg_entities_page req thread seq page \<Rightarrow>
         if byteLength (encode (env_printer env) m) \<le> eventFrameBytes then [m]
         else if int (length (encode (env_printer env) m)) * 2 > source_limit then [page_too_large req] else []
     | _ \<Rightarrow> [m])"

lemma moves_stream: "moves env [] ob (send_stream env t h encoded ob)"
proof (cases "ob_streamSources ob \<ge> 4 \<or> ob_sourceBytes ob + int (length encoded) * 2 > source_limit")
  case True
  then show ?thesis by (simp add: send_stream_def Let_def moves_one mv_resync)
next
  case False
  then have "ob_streamSources ob < 4" "ob_sourceBytes ob + int (length encoded) * 2 \<le> source_limit" by auto
  from moves_then [OF moves_tick moves_then [OF moves_flush moves_one [OF mv_stream [OF this]]]] False show ?thesis
    by (simp add: send_stream_def Let_def)
qed

lemma moves_send: "moves env (taken env m) ob (outbox_send env t m ob)"
proof (cases m)
  case (Msg_events sub a th es)
  then show ?thesis by (simp add: outbox_send_def taken_def moves_fold_sendOne)
qed (auto simp: outbox_send_def taken_def Let_def intro: moves_sendOne moves_stream)

subsection \<open>Use of an outbox\<close>

text \<open>The life of a connection, with everything that was sent through it: the daemon sends messages and
  ticks, the transport calls back after a send, its buffer fills and drains, the peer goes away, and the
  outbox of a closed connection is cleared.\<close>

inductive running :: "outbox_env \<Rightarrow> server_message list \<Rightarrow> outbox \<Rightarrow> bool" for env where
  run_start: "sk_sent sk = [] \<Longrightarrow> running env [] (new_outbox sk)"
| run_send: "running env ms ob \<Longrightarrow> running env (ms @ [m]) (outbox_send env t m ob)"
| run_tick: "running env ms ob \<Longrightarrow> running env ms (tick env t ob)"
| run_callback: "running env ms ob \<Longrightarrow> running env ms (flush env ob)"
| run_network: "running env ms ob \<Longrightarrow> running env ms (ob\<lparr>ob_socket := (ob_socket ob)\<lparr>sk_buffered := n\<rparr>\<rparr>)"
| run_lost: "running env ms ob \<Longrightarrow> running env ms (ob\<lparr>ob_socket := (ob_socket ob)\<lparr>sk_open := False\<rparr>\<rparr>)"
| run_clear: "running env ms ob \<Longrightarrow> \<not> sk_open (ob_socket ob) \<Longrightarrow> running env ms (outbox_clear ob)"

lemma running_moves:
  assumes "running env ms ob"
  shows "\<exists>sk. sk_sent sk = [] \<and> moves env (concat (map (taken env) ms)) (new_outbox sk) ob"
  using assms
proof (induction rule: running.induct)
  case (run_start sk)
  then show ?case using moves_refl by auto
next
  case (run_send ms ob m t)
  then show ?case using moves_trans [OF moves_send] by fastforce
next
  case (run_tick ms ob t)
  then show ?case using moves_then [OF moves_tick] by blast
next
  case (run_callback ms ob)
  then show ?case using moves_then [OF moves_flush] by blast
next
  case (run_network ms ob n)
  then show ?case using moves_then [OF moves_one [OF mv_network]] by blast
next
  case (run_lost ms ob)
  then show ?case using moves_then [OF moves_one [OF mv_lost]] by blast
next
  case (run_clear ms ob)
  then show ?case using moves_then [OF moves_one [OF mv_clear]] by blast
qed

subsection \<open>Bounds\<close>

fun source_of :: "pending_frame \<Rightarrow> int" where
  "source_of (Stream _ encoded _ _) = int (length encoded) * 2"
| "source_of _ = 0"

fun is_stream :: "pending_frame \<Rightarrow> bool" where
  "is_stream (Stream _ _ _ _) = True"
| "is_stream _ = False"

definition frames :: "outbox \<Rightarrow> pending_frame list" where
  "frames ob = map snd (ob_pending ob)"

fun frame_ok :: "pending_frame \<Rightarrow> bool" where
  "frame_ok (Batch n _ _ _ _) \<longleftrightarrow> 0 \<le> n \<and> n \<le> eventFrameBytes"
| "frame_ok (Serialized n _ _) \<longleftrightarrow> 0 \<le> n \<and> n \<le> replyFrameBytes"
| "frame_ok (Stream _ _ _ _) \<longleftrightarrow> True"

definition numbered :: "outbox \<Rightarrow> bool" where
  "numbered ob \<longleftrightarrow> sorted_wrt (<) (map fst (ob_pending ob)) \<and>
     (ob_pending ob \<noteq> [] \<longrightarrow> fst (List.last (ob_pending ob)) = ob_tail ob)"

definition counted :: "outbox \<Rightarrow> bool" where
  "counted ob \<longleftrightarrow> ob_bytes ob = sum_list (map chargedBytes (frames ob)) \<and>
     ob_streamSources ob = int (length (filter is_stream (frames ob))) \<and>
     ob_sourceBytes ob = sum_list (map source_of (frames ob)) \<and> list_all frame_ok (frames ob)"

definition bounded :: "outbox_env \<Rightarrow> outbox \<Rightarrow> bool" where
  "bounded env ob \<longleftrightarrow> ob_bytes ob \<le> max 0 (maxQueuedBytes (env_options env)) \<and>
     ob_streamSources ob \<le> 4 \<and> ob_sourceBytes ob \<le> source_limit"

definition outbox_ok :: "outbox_env \<Rightarrow> outbox \<Rightarrow> bool" where
  "outbox_ok env ob \<longleftrightarrow> numbered ob \<and> counted ob \<and> bounded env ob"

lemma byteLength_nonneg: "0 \<le> byteLength w"
  by (induction w rule: byteLength.induct) (auto simp: unit_bytes_def)

lemma outbox_ok_new: "outbox_ok env (new_outbox sk)"
  by (simp add: outbox_ok_def new_outbox_def numbered_def counted_def bounded_def frames_def source_limit_def)

lemma outbox_ok_clear: "outbox_ok env (outbox_clear ob)"
  by (simp add: outbox_ok_def outbox_clear_def numbered_def counted_def bounded_def frames_def source_limit_def)

lemma outbox_ok_frame [simp]:
  "outbox_ok env (ob\<lparr>ob_socket := sk\<rparr>) = outbox_ok env ob" "outbox_ok env (ob\<lparr>ob_aboveHardSince := x\<rparr>) = outbox_ok env ob"
  by (simp_all add: outbox_ok_def numbered_def counted_def bounded_def frames_def)

lemma outbox_ok_resync: "outbox_ok env (resync ob)"
  by (simp add: resync_def outbox_ok_clear)

lemma charges_nonneg: "list_all frame_ok fs \<Longrightarrow> 0 \<le> sum_list (map chargedBytes fs)"
proof (induction fs)
  case (Cons f fs)
  then show ?case by (cases f) auto
qed simp

lemma source_nonneg: "0 \<le> sum_list (map source_of fs)"
proof (induction fs)
  case (Cons f fs)
  then show ?case by (cases f) auto
qed simp

lemma outbox_ok_taken:
  assumes "outbox_ok env ob" "ob_pending ob \<noteq> []" "take_frame ob = (m, c, ob1)"
  shows "outbox_ok env ob1"
proof -
  obtain index frame rest where p: "ob_pending ob = (index, frame) # rest"
    using assms(2) by (cases "ob_pending ob") auto
  note ok = assms(1) [unfolded outbox_ok_def numbered_def counted_def bounded_def frames_def p]
  show ?thesis
  proof (cases frame)
    case (Stream h encoded offset idx)
    with ok assms(3) p show ?thesis
      by (auto simp: take_frame_def Let_def outbox_ok_def numbered_def counted_def bounded_def frames_def split: if_splits)
  qed (use ok assms(3) p in \<open>auto simp: take_frame_def Let_def outbox_ok_def numbered_def counted_def bounded_def
      frames_def split: if_splits\<close>)
qed

lemma numbered_set_frame: "numbered ob \<Longrightarrow> numbered (set_frame f ob)"
proof -
  assume n: "numbered ob"
  have "i \<le> ob_tail ob" if "i \<in> set (map fst (ob_pending ob))" for i
  proof (cases "ob_pending ob" rule: rev_cases)
    case (snoc ps p)
    with n that show ?thesis by (force simp: numbered_def sorted_wrt_append)
  qed (use that in simp)
  with n show ?thesis by (force simp: numbered_def set_frame_def sorted_wrt_append)
qed

lemma frames_set_frame [simp]: "frames (set_frame f ob) = frames ob @ [f]"
  by (simp add: frames_def set_frame_def)

lemma set_frame_keeps [simp]:
  "ob_bytes (set_frame f ob) = ob_bytes ob" "ob_streamSources (set_frame f ob) = ob_streamSources ob"
  "ob_sourceBytes (set_frame f ob) = ob_sourceBytes ob" "ob_socket (set_frame f ob) = ob_socket ob"
  by (simp_all add: set_frame_def)

lemma numbered_frame [simp]:
  "numbered (ob\<lparr>ob_bytes := n\<rparr>) = numbered ob" "numbered (ob\<lparr>ob_streamSources := n\<rparr>) = numbered ob"
  "numbered (ob\<lparr>ob_sourceBytes := n\<rparr>) = numbered ob"
  "frames (ob\<lparr>ob_bytes := n\<rparr>) = frames ob" "frames (ob\<lparr>ob_streamSources := n\<rparr>) = frames ob"
  "frames (ob\<lparr>ob_sourceBytes := n\<rparr>) = frames ob"
  by (simp_all add: numbered_def frames_def)

lemma outbox_ok_charged:
  assumes "outbox_ok env ob" "frame_ok f" "\<not> is_stream f" "admits env (chargedBytes f) ob"
  shows "outbox_ok env ((set_frame f ob)\<lparr>ob_bytes := ob_bytes ob + chargedBytes f\<rparr>)"
proof -
  have "source_of f = 0" using assms(3) by (cases f) auto
  moreover have "0 \<le> buffered ob" by (simp add: buffered_def)
  ultimately show ?thesis
    using assms by (auto simp: outbox_ok_def counted_def bounded_def admits_def numbered_set_frame)
qed

text \<open>The frame the last number belongs to is the last one.\<close>

lemma last_frame_last:
  assumes "numbered ob" "last_frame ob = Some f"
  shows "\<exists>ps. ob_pending ob = ps @ [(ob_tail ob, f)] \<and> (\<forall>g. replace_last g ob = ob\<lparr>ob_pending := ps @ [(ob_tail ob, g)]\<rparr>)"
proof (cases "ob_pending ob" rule: rev_cases)
  case (snoc ps p)
  obtain i g where p: "p = (i, g)" by (cases p)
  have i: "i = ob_tail ob" using assms(1) snoc p by (simp add: numbered_def)
  have less: "\<forall>q \<in> set ps. fst q < i" using assms(1) snoc p by (auto simp: numbered_def sorted_wrt_append)
  then have none: "map_of ps i = None" by (force simp: map_of_eq_None_iff)
  with assms(2) snoc p i have "g = f" by (simp add: last_frame_def map_add_def)
  moreover have "map (\<lambda>(j, h). if j = ob_tail ob then (j, g') else (j, h)) ps = ps" for g'
    using less i by (intro map_idI) auto
  ultimately show ?thesis using snoc p i by (intro exI [of _ ps]) (simp add: replace_last_def)
qed (use assms(2) in \<open>simp add: last_frame_def\<close>)

lemma outbox_ok_batch:
  assumes ok: "outbox_ok env ob" and c: "0 \<le> charge" "charge \<le> eventFrameBytes" "admits env charge ob"
  shows "outbox_ok env ((queue_batch sub a th es charge ob)\<lparr>ob_bytes := ob_bytes ob + charge\<rparr>)"
proof -
  have new: "outbox_ok env ((set_frame (Batch charge sub a th (coalesceEvents es)) ob)\<lparr>ob_bytes := ob_bytes ob + charge\<rparr>)"
    using outbox_ok_charged [OF ok, of "Batch charge sub a th (coalesceEvents es)"] c by simp
  show ?thesis
  proof (cases "\<exists>n a' es'. last_frame ob = Some (Batch n sub a' a es') \<and> n + charge \<le> eventFrameBytes")
    case True
    then obtain n a' es' where l: "last_frame ob = Some (Batch n sub a' a es')" "n + charge \<le> eventFrameBytes" by blast
    obtain ps where ps: "ob_pending ob = ps @ [(ob_tail ob, Batch n sub a' a es')]"
      "\<And>g. replace_last g ob = ob\<lparr>ob_pending := ps @ [(ob_tail ob, g)]\<rparr>"
      using last_frame_last [OF _ l(1)] ok unfolding outbox_ok_def by blast
    have "0 \<le> buffered ob" by (simp add: buffered_def)
    with ok l c ps show ?thesis
      by (auto simp: queue_batch_def outbox_ok_def numbered_def counted_def bounded_def frames_def admits_def)
  next
    case False
    then have "queue_batch sub a th es charge ob = set_frame (Batch charge sub a th (coalesceEvents es)) ob"
      by (auto simp: queue_batch_def split: option.split pending_frame.split)
    with new show ?thesis by simp
  qed
qed

lemma outbox_ok_move:
  assumes "move env ms ob ob'" "outbox_ok env ob"
  shows "outbox_ok env ob'"
  using assms
proof (cases rule: move.cases)
  case (mv_sent m c ob1)
  with assms(2) show ?thesis using outbox_ok_taken [of env ob m c ob1] by (simp add: ready_def)
next
  case (mv_serialized charge m c)
  with outbox_ok_charged [OF assms(2), of "Serialized charge m c"] byteLength_nonneg show ?thesis by simp
next
  case (mv_batch charge sub a th es)
  with outbox_ok_batch [OF assms(2)] byteLength_nonneg show ?thesis by simp
next
  case (mv_stream encoded h)
  with assms(2) show ?thesis by (auto simp: outbox_ok_def counted_def bounded_def numbered_set_frame)
qed (simp_all add: assms(2) outbox_ok_resync outbox_ok_clear)

lemma outbox_ok_moves: "moves env ms ob ob' \<Longrightarrow> outbox_ok env ob \<Longrightarrow> outbox_ok env ob'"
  by (induction rule: moves.induct) (auto intro: outbox_ok_move)

text \<open>C17: what a connection can hold back is bounded. After any messages, ticks and callbacks, however
  the transport fills, drains or closes, the bytes charged are the sum over the waiting frames and within
  the limit of the queue, at most four streamed sources wait, of at most 64 MiB, the counters of both are
  exact, a joined batch stays within the size of one event frame, and the frame that is joined to is the
  last in the queue.\<close>

theorem outbox_bounded:
  assumes "running env ms ob" "0 \<le> maxQueuedBytes (env_options env)"
  shows "ob_bytes ob = sum_list (map chargedBytes (frames ob)) \<and> ob_bytes ob \<le> maxQueuedBytes (env_options env) \<and>
    ob_streamSources ob = int (length (filter is_stream (frames ob))) \<and> ob_streamSources ob \<le> 4 \<and>
    ob_sourceBytes ob = sum_list (map source_of (frames ob)) \<and> ob_sourceBytes ob \<le> source_limit \<and>
    list_all frame_ok (frames ob) \<and>
    (\<forall>f. last_frame ob = Some f \<longrightarrow> f = List.last (frames ob))"
proof -
  obtain sk where "moves env (concat (map (taken env) ms)) (new_outbox sk) ob" using running_moves [OF assms(1)] by blast
  from outbox_ok_moves [OF this outbox_ok_new] have ok: "outbox_ok env ob" .
  have "f = List.last (frames ob)" if "last_frame ob = Some f" for f
    using last_frame_last [OF _ that] ok by (auto simp: outbox_ok_def frames_def)
  with ok assms(2) show ?thesis by (auto simp: outbox_ok_def counted_def bounded_def)
qed

subsection \<open>An example connection\<close>

definition example_env :: outbox_env where
  "example_env = \<lparr>env_options = \<lparr>softLimit = 0, hardLimit = 100, maxQueuedBytes = 1000, hardTimeoutMs = 5000\<rparr>,
     env_printer = \<lparr>pr_event = (\<lambda>_. ascii ''{}''), pr_string = (\<lambda>_. ascii ''s''), pr_message = (\<lambda>_. ascii ''{}'')\<rparr>,
     env_buffered = (\<lambda>_ _. 0)\<rparr>"

text \<open>A congested transport.\<close>

definition example_socket :: socket where
  "example_socket = \<lparr>sk_open = True, sk_buffered = 1, sk_sent = [], sk_closed = None\<rparr>"

definition example_waiting :: outbox where
  "example_waiting = outbox_send example_env 0 (Msg_events ''s'' 0 5 []) (new_outbox example_socket)"

lemma running_example: "running example_env [Msg_events ''s'' 0 5 []] example_waiting"
  using run_send [OF run_start [of example_socket], of example_env "Msg_events ''s'' 0 5 []" 0]
  by (simp add: example_waiting_def example_socket_def)

theorem outbox_bounded_witness:
  "length (frames example_waiting) = 1 \<and> 0 < ob_bytes example_waiting \<and>
   ob_bytes example_waiting \<le> maxQueuedBytes (env_options example_env)"
proof -
  have "length (frames example_waiting) = 1 \<and> 0 < ob_bytes example_waiting" by code_simp
  with outbox_bounded [OF running_example] show ?thesis by (simp add: example_env_def)
qed

end
