(* ===== verification/Outbox_Delivery.thy ===== *)
theory Outbox_Delivery
  imports Outbox_Inv Projection_Mirror
begin

text \<open>
  From the daemon's outbox to the client's view. A batch may be split into frames, wait, be joined with
  the next one and have its deltas concatenated; what reaches the client of each subscription is still
  the same sequence of events over the same interval, and folding it gives the same view.
\<close>

subsection \<open>Chains of deliveries\<close>

text \<open>The events of a delivery lie in its interval, in order and without overlap.\<close>

fun in_order :: "nat \<Rightarrow> nat \<Rightarrow> delivery_event list \<Rightarrow> bool" where
  "in_order prev through [] \<longleftrightarrow> prev \<le> through"
| "in_order prev through (e # es) \<longleftrightarrow> prev < first_seq e \<and> first_seq e \<le> de_seq e \<and> in_order (de_seq e) through es"

lemma in_order_le: "in_order p t es \<Longrightarrow> p \<le> t"
  by (induction es arbitrary: p) force+

lemma in_order_mono: "in_order p t es \<Longrightarrow> t \<le> t' \<Longrightarrow> in_order p t' es"
  by (induction es arbitrary: p) auto

lemma in_order_append: "in_order p t (xs @ ys) \<longleftrightarrow> (\<exists>q. in_order p q xs \<and> in_order q t ys)"
proof (induction xs arbitrary: p)
  case Nil
  show ?case
  proof
    assume "in_order p t ([] @ ys)"
    then show "\<exists>q. in_order p q [] \<and> in_order q t ys" by auto
  next
    assume "\<exists>q. in_order p q [] \<and> in_order q t ys"
    then obtain q where "p \<le> q" "in_order q t ys" by auto
    then show "in_order p t ([] @ ys)" by (cases ys) auto
  qed
qed auto

lemma in_order_last:
  assumes "in_order p t es" "es \<noteq> []"
  shows "in_order p (de_seq (List.last es)) es" "de_seq (List.last es) \<le> t"
proof -
  have "in_order p t (butlast es @ [List.last es])" using assms by simp
  then show "de_seq (List.last es) \<le> t" by (auto simp only: in_order_append in_order.simps)
  from \<open>in_order p t (butlast es @ [List.last es])\<close>
  have "in_order p (de_seq (List.last es)) (butlast es @ [List.last es])" by (auto simp only: in_order_append in_order.simps)
  with assms(2) show "in_order p (de_seq (List.last es)) es" by simp
qed

fun chained :: "nat \<Rightarrow> delivery list \<Rightarrow> bool" where
  "chained a [] \<longleftrightarrow> True"
| "chained a (d # ds) \<longleftrightarrow> d_after d = a \<and> in_order a (d_through d) (delivery_events d) \<and> chained (d_through d) ds"

fun chain_end :: "nat \<Rightarrow> delivery list \<Rightarrow> nat" where
  "chain_end a [] = a"
| "chain_end a (d # ds) = chain_end (d_through d) ds"

definition all_events :: "delivery list \<Rightarrow> delivery_event list" where
  "all_events ds = concat (map delivery_events ds)"

lemma chained_append [simp]: "chained a (xs @ ys) \<longleftrightarrow> chained a xs \<and> chained (chain_end a xs) ys"
  by (induction xs arbitrary: a) auto

lemma chain_end_append [simp]: "chain_end a (xs @ ys) = chain_end (chain_end a xs) ys"
  by (induction xs arbitrary: a) auto

lemma all_events_simps [simp]:
  "all_events [] = []" "all_events (d # ds) = delivery_events d @ all_events ds"
  "all_events (xs @ ys) = all_events xs @ all_events ys"
  by (simp_all add: all_events_def)

subsection \<open>Joined deltas\<close>

text \<open>\<open>coalesced es fs\<close>: \<open>fs\<close> is \<open>es\<close> with some neighbouring deltas joined.\<close>

inductive coalesced :: "delivery_event list \<Rightarrow> delivery_event list \<Rightarrow> bool" where
  co_Nil: "coalesced [] []"
| co_add: "coalesced es fs \<Longrightarrow> coalesced (es @ [e]) (fs @ [e])"
| co_join: "coalesced es (fs @ [l]) \<Longrightarrow> joins l e \<Longrightarrow> coalesced (es @ [e]) (fs @ [join_delta l e])"

lemma coalesced_append:
  assumes "coalesced es' fs'" "coalesced es fs"
  shows "coalesced (es @ es') (fs @ fs')"
  using assms
proof (induction rule: coalesced.induct)
  case (co_add es1 fs1 e)
  then show ?case using coalesced.co_add [of "es @ es1" "fs @ fs1" e] by simp
next
  case (co_join es1 fs1 l e)
  then show ?case using coalesced.co_join [of "es @ es1" "fs @ fs1" l e] by simp
qed simp

lemma coalesced_refl: "coalesced es es"
proof (induction es rule: rev_induct)
  case (snoc e es)
  then show ?case by (rule co_add)
qed (rule co_Nil)

lemma coalesced_appendCoalesced:
  assumes "coalesced es (pre @ L)"
  shows "coalesced (es @ new) (pre @ appendCoalesced L new)"
  using assms
proof (induction new arbitrary: es L)
  case (Cons e new)
  have "coalesced (es @ [e]) (pre @ coalesce_step e L)"
  proof (cases "L \<noteq> [] \<and> joins (List.last L) e")
    case True
    then have "pre @ L = (pre @ butlast L) @ [List.last L]" by simp
    with Cons.prems have "coalesced es ((pre @ butlast L) @ [List.last L])" by (simp only:)
    from co_join [OF this] True have "coalesced (es @ [e]) ((pre @ butlast L) @ [join_delta (List.last L) e])" by blast
    with True show ?thesis by (simp add: coalesce_step_def)
  next
    case False
    with co_add [OF Cons.prems, of e] show ?thesis by (auto simp: coalesce_step_def)
  qed
  from Cons.IH [OF this] show ?case by (simp add: appendCoalesced_def)
qed (simp add: appendCoalesced_def)

lemma in_order_coalesce_step:
  assumes "in_order p m L" "m < first_seq e" "first_seq e \<le> de_seq e"
  shows "in_order p (de_seq e) (coalesce_step e L)"
proof (cases "L \<noteq> [] \<and> joins (List.last L) e")
  case True
  let ?l = "List.last L"
  have "in_order p m (butlast L @ [?l])" using True assms(1) by simp
  then obtain q where "in_order p q (butlast L)" "q < first_seq ?l" "first_seq ?l \<le> de_seq ?l" "de_seq ?l \<le> m"
    by (auto simp only: in_order_append in_order.simps)
  moreover have "first_seq (join_delta ?l e) = first_seq ?l" "de_seq (join_delta ?l e) = de_seq e"
    by (simp_all add: join_delta_def first_seq_def given_def)
  ultimately have "in_order p (de_seq e) (butlast L @ [join_delta ?l e])"
    using assms(2,3) unfolding in_order_append by (intro exI [of _ q]) simp
  with True show ?thesis by (simp add: coalesce_step_def)
next
  case False
  have "in_order p (de_seq e) (L @ [e])" unfolding in_order_append using assms by auto
  with False show ?thesis by (auto simp: coalesce_step_def)
qed

lemma in_order_appendCoalesced:
  assumes "in_order p m L" "in_order m t es"
  shows "in_order p t (appendCoalesced L es)"
  using assms
proof (induction es arbitrary: L m)
  case (Cons e es)
  then have "in_order p (de_seq e) (coalesce_step e L)" by (intro in_order_coalesce_step) auto
  from Cons.IH [OF this] Cons.prems(2) show ?case by (simp add: appendCoalesced_def)
qed (auto simp: appendCoalesced_def intro: in_order_mono)

subsection \<open>The deliveries of a subscription\<close>

fun delivery_of :: "ident \<Rightarrow> server_message \<Rightarrow> delivery option" where
  "delivery_of s (Msg_events sub a t es) = (if sub = s then Some (Event_batch a t es) else None)"
| "delivery_of s (Msg_progress sub a t) = (if sub = s then Some (Progress a t) else None)"
| "delivery_of s _ = None"

definition deliveries :: "ident \<Rightarrow> server_message list \<Rightarrow> delivery list" where
  "deliveries s ms = List.map_filter (delivery_of s) ms"

fun frame_message :: "pending_frame \<Rightarrow> server_message option" where
  "frame_message (Batch _ sub a t es) = Some (Msg_events sub a t es)"
| "frame_message (Serialized _ m _) = Some m"
| "frame_message (Stream _ _ _ _) = None"

text \<open>What the socket has of a subscription, and what waits.\<close>

definition sent_to :: "ident \<Rightarrow> outbox \<Rightarrow> delivery list" where
  "sent_to s ob = deliveries s (map fst (sk_sent (ob_socket ob)))"

definition waiting_for :: "ident \<Rightarrow> outbox \<Rightarrow> delivery list" where
  "waiting_for s ob = deliveries s (List.map_filter frame_message (frames ob))"

lemma deliveries_simps [simp]:
  "deliveries s [] = []" "deliveries s (xs @ ys) = deliveries s xs @ deliveries s ys"
  "deliveries s (m # ms) = (case delivery_of s m of None \<Rightarrow> [] | Some d \<Rightarrow> [d]) @ deliveries s ms"
  by (simp_all add: deliveries_def List.map_filter_def split: option.split)

subsection \<open>Splitting\<close>

lemma fold_split:
  assumes "fold (split_step pr s overhead) es (fs, evs, start, bytes) = (fs', evs', start', bytes')"
    and "chained a (deliveries s fs)" "chain_end a (deliveries s fs) = start" "in_order start m evs" "in_order m t es"
  shows "chained a (deliveries s fs') \<and> chain_end a (deliveries s fs') = start' \<and> in_order start' t evs' \<and>
    all_events (deliveries s fs') @ evs' = all_events (deliveries s fs) @ evs @ es \<and>
    (\<forall>s'. s' \<noteq> s \<longrightarrow> deliveries s' fs' = deliveries s' fs)"
  using assms
proof (induction es arbitrary: fs evs start bytes m)
  case Nil
  then show ?case by (auto intro: in_order_mono)
next
  case (Cons e es)
  have e: "m < first_seq e" "first_seq e \<le> de_seq e" "in_order (de_seq e) t es" using Cons.prems(5) by auto
  obtain fs1 evs1 start1 bytes1 where st: "split_step pr s overhead e (fs, evs, start, bytes) = (fs1, evs1, start1, bytes1)"
    by (cases "split_step pr s overhead e (fs, evs, start, bytes)")
  have "chained a (deliveries s fs1) \<and> chain_end a (deliveries s fs1) = start1 \<and> in_order start1 (de_seq e) evs1 \<and>
      all_events (deliveries s fs1) @ evs1 = all_events (deliveries s fs) @ evs @ [e] \<and>
      (\<forall>s'. s' \<noteq> s \<longrightarrow> deliveries s' fs1 = deliveries s' fs)"
  proof (cases "evs \<noteq> [] \<and> bytes + (eventBytes pr e + 1) > eventFrameBytes")
    case True
    with st have "fs1 = fs @ [Msg_events s start (de_seq (List.last evs)) evs]" "evs1 = [e]" "start1 = de_seq (List.last evs)"
      by (auto simp: split_step_def Let_def)
    with Cons.prems(2-4) in_order_last [OF Cons.prems(4)] True e show ?thesis by auto
  next
    case False
    with st have *: "fs1 = fs" "evs1 = evs @ [e]" "start1 = start" by (auto simp: split_step_def Let_def split: if_splits)
    have "in_order start (de_seq e) (evs @ [e])" unfolding in_order_append using Cons.prems(4) e by auto
    with * Cons.prems(2,3) show ?thesis by simp
  qed
  moreover have "fold (split_step pr s overhead) es (fs1, evs1, start1, bytes1) = (fs', evs', start', bytes')"
    using Cons.prems(1) st by simp
  ultimately show ?case using Cons.IH [of fs1 evs1 start1 bytes1 "de_seq e"] e(3) by auto
qed

lemma split_events_chain:
  assumes "in_order a t es"
  shows "chained a (deliveries s (split_events pr s a t es)) \<and> chain_end a (deliveries s (split_events pr s a t es)) = t \<and>
    all_events (deliveries s (split_events pr s a t es)) = es"
proof -
  let ?o = "byteLength (pr_message pr (Msg_events s a t [])) + 64"
  obtain fs evs start bytes where f: "fold (split_step pr s ?o) es ([], [], a, ?o) = (fs, evs, start, bytes)"
    by (cases "fold (split_step pr s ?o) es ([], [], a, ?o)")
  from fold_split [OF f, of a a t] assms show ?thesis
    by (auto simp: split_events_def f)
qed

lemma split_events_other:
  assumes "s' \<noteq> s"
  shows "deliveries s' (split_events pr s a t es) = []"
proof -
  have "deliveries s' fs' = deliveries s' fs"
    if "fold (split_step pr s overhead) es (fs, evs, start, bytes) = (fs', evs', start', bytes')"
    for overhead fs evs start bytes fs' evs' start' bytes'
    using that
  proof (induction es arbitrary: fs evs start bytes)
    case (Cons e es)
    obtain fs1 evs1 start1 bytes1 where st: "split_step pr s overhead e (fs, evs, start, bytes) = (fs1, evs1, start1, bytes1)"
      by (cases "split_step pr s overhead e (fs, evs, start, bytes)")
    with assms have "deliveries s' fs1 = deliveries s' fs" by (auto simp: split_step_def Let_def split: if_splits)
    with Cons.IH [of fs1 evs1 start1 bytes1] Cons.prems st show ?case by simp
  qed simp
  with assms show ?thesis by (auto simp: split_events_def Let_def split: prod.split)
qed

subsection \<open>What leaves is what was sent\<close>

definition regrouped :: "delivery list \<Rightarrow> delivery list \<Rightarrow> bool" where
  "regrouped ds ds' \<longleftrightarrow> (\<forall>a. chained a ds \<longrightarrow> chained a ds' \<and> chain_end a ds' = chain_end a ds \<and>
     coalesced (all_events ds) (all_events ds'))"

lemma regrouped_Nil: "regrouped [] []"
  by (simp add: regrouped_def co_Nil)

lemma regrouped_snoc: "regrouped ds ds' \<Longrightarrow> regrouped (ds @ [d]) (ds' @ [d])"
  by (auto simp: regrouped_def intro: coalesced_append coalesced_refl)

lemma regrouped_batch:
  assumes "regrouped ds ds'"
  shows "regrouped (ds @ [Event_batch a t es]) (ds' @ [Event_batch a t (coalesceEvents es)])"
proof -
  have "coalesced es (coalesceEvents es)"
    using coalesced_appendCoalesced [of "[]" "[]" "[]" es] by (simp add: coalesceEvents_def co_Nil)
  moreover have "in_order a t (coalesceEvents es)" if "in_order a t es"
    using in_order_appendCoalesced [of a a "[]" t es] that by (simp add: coalesceEvents_def)
  ultimately show ?thesis using assms by (auto simp: regrouped_def intro: coalesced_append)
qed

lemma regrouped_merge:
  assumes "regrouped ds (ds' @ [Event_batch a m L])"
  shows "regrouped (ds @ [Event_batch m t es]) (ds' @ [Event_batch a t (appendCoalesced L es)])"
proof -
  have "coalesced (all_events ds @ es) (all_events ds' @ appendCoalesced L es)"
    if "coalesced (all_events ds) (all_events ds' @ L)" by (rule coalesced_appendCoalesced [OF that])
  with assms show ?thesis by (auto simp: regrouped_def intro: in_order_appendCoalesced)
qed

lemma waiting_for_append:
  "frames ob = fs @ gs \<Longrightarrow> waiting_for s ob =
     deliveries s (List.map_filter frame_message fs) @ deliveries s (List.map_filter frame_message gs)"
  by (simp add: waiting_for_def List.map_filter_def)

lemma waiting_set_frame:
  "waiting_for s (set_frame f ob) = waiting_for s ob @ deliveries s (List.map_filter frame_message [f])"
  by (simp add: waiting_for_def List.map_filter_def)

lemma out_frame [simp]:
  "waiting_for s (ob\<lparr>ob_bytes := n\<rparr>) = waiting_for s ob" "waiting_for s (ob\<lparr>ob_socket := sk\<rparr>) = waiting_for s ob"
  "waiting_for s (ob\<lparr>ob_aboveHardSince := x\<rparr>) = waiting_for s ob" "waiting_for s (ob\<lparr>ob_streamSources := n\<rparr>) = waiting_for s ob"
  "waiting_for s (ob\<lparr>ob_sourceBytes := n\<rparr>) = waiting_for s ob"
  by (simp_all add: waiting_for_def frames_def)

lemma delivery_of_part [simp]: "delivery_of s (part_message h idx dn dat) = None"
  by (cases h) simp_all

lemma taken_out:
  assumes "ob_pending ob \<noteq> []" "take_frame ob = (m, c, ob1)"
  shows "deliveries s [m] @ waiting_for s ob1 = waiting_for s ob" "ob_socket ob1 = ob_socket ob"
proof -
  obtain index frame rest where p: "ob_pending ob = (index, frame) # rest"
    using assms(1) by (cases "ob_pending ob") auto
  show "deliveries s [m] @ waiting_for s ob1 = waiting_for s ob" "ob_socket ob1 = ob_socket ob"
    using assms(2) by (cases frame;
        auto simp: take_frame_def p Let_def waiting_for_def frames_def List.map_filter_def split: if_splits)+
qed

lemma queue_batch_out:
  assumes "numbered ob" "regrouped ds (pre @ waiting_for s ob)"
  shows "regrouped (ds @ deliveries s [Msg_events sub a t es]) (pre @ waiting_for s (queue_batch sub a t es charge ob))"
proof -
  let ?f = "Batch charge sub a t (coalesceEvents es)"
  have new: "regrouped (ds @ deliveries s [Msg_events sub a t es]) (pre @ waiting_for s (set_frame ?f ob))"
    using assms(2) regrouped_batch [OF assms(2)] by (simp add: waiting_set_frame List.map_filter_def)
  show ?thesis
  proof (cases "\<exists>n a' es'. last_frame ob = Some (Batch n sub a' a es') \<and> n + charge \<le> eventFrameBytes")
    case True
    then obtain n a' es' where l: "last_frame ob = Some (Batch n sub a' a es')" "n + charge \<le> eventFrameBytes" by blast
    obtain ps where ps: "ob_pending ob = ps @ [(ob_tail ob, Batch n sub a' a es')]"
      "\<And>g. replace_last g ob = ob\<lparr>ob_pending := ps @ [(ob_tail ob, g)]\<rparr>"
      using last_frame_last [OF assms(1) l(1)] by blast
    define d where "d = deliveries s (List.map_filter frame_message (map snd ps))"
    have w: "waiting_for s ob = d @ (if sub = s then [Event_batch a' a es'] else [])"
      by (simp add: waiting_for_def frames_def ps(1) d_def List.map_filter_def)
    moreover have "queue_batch sub a t es charge ob =
        ob\<lparr>ob_pending := ps @ [(ob_tail ob, Batch (n + charge) sub a' t (appendCoalesced es' es))]\<rparr>"
      using l ps by (simp add: queue_batch_def)
    then have "waiting_for s (queue_batch sub a t es charge ob) =
        d @ (if sub = s then [Event_batch a' t (appendCoalesced es' es)] else [])"
      by (simp add: waiting_for_def frames_def d_def List.map_filter_def)
    ultimately show ?thesis
      using assms(2) regrouped_merge [of ds "pre @ d" a' a es' t es] by (cases "sub = s") simp_all
  next
    case False
    then have "queue_batch sub a t es charge ob = set_frame ?f ob"
      by (auto simp: queue_batch_def split: option.split pending_frame.split)
    with new show ?thesis by simp
  qed
qed

lemma queue_batch_socket [simp]: "ob_socket (queue_batch sub a t es charge ob) = ob_socket ob"
  by (simp add: queue_batch_def replace_last_def split: option.split pending_frame.split)

definition delivering :: "ident \<Rightarrow> server_message list \<Rightarrow> outbox \<Rightarrow> bool" where
  "delivering s ms ob \<longleftrightarrow> (sk_open (ob_socket ob) \<longrightarrow> regrouped (deliveries s ms) (sent_to s ob @ waiting_for s ob))"

lemma delivering_move:
  assumes "move env ms' ob ob'" "outbox_ok env ob" "delivering s ms ob"
  shows "delivering s (ms @ ms') ob'"
  using assms(1)
proof (cases rule: move.cases)
  case mv_resync
  then show ?thesis by (simp add: delivering_def resync_def sk_close_def)
next
  case (mv_sent m c ob1)
  with assms(3) show ?thesis
    using taken_out(1) [OF _ mv_sent(4), of s] taken_out(2) [OF _ mv_sent(4)] by (auto simp: delivering_def ready_def sk_send_def sent_to_def simp del: deliveries_simps(3))
next
  case (mv_serialized charge m c)
  have "regrouped (ds @ deliveries s [m]) (ds' @ deliveries s [m])" if "regrouped ds ds'" for ds ds'
    using that regrouped_snoc by (cases "delivery_of s m") auto
  with assms(3) mv_serialized show ?thesis
    by (auto simp: delivering_def sent_to_def waiting_set_frame List.map_filter_def simp flip: append_assoc simp del: deliveries_simps(3))
next
  case (mv_batch charge sub a th es)
  with assms queue_batch_out [of ob "deliveries s ms" "sent_to s ob" s sub a th es charge] show ?thesis
    by (simp add: delivering_def outbox_ok_def sent_to_def del: deliveries_simps(3))
next
  case (mv_stream encoded h)
  with assms(3) show ?thesis by (simp add: delivering_def sent_to_def waiting_set_frame List.map_filter_def)
qed (use assms(3) in \<open>auto simp: delivering_def sent_to_def outbox_clear_def\<close>)

lemma delivering_moves:
  assumes "moves env ms (new_outbox sk) ob" "sk_sent sk = []"
  shows "outbox_ok env ob \<and> delivering s ms ob"
proof -
  have "outbox_ok env ob' \<and> delivering s ms ob'" if "moves env ms ob ob'" "ob = new_outbox sk" for ms ob ob'
    using that
  proof (induction rule: moves.induct)
    case (moves_refl ob)
    with assms(2) outbox_ok_new show ?case
      by (auto simp: delivering_def sent_to_def waiting_for_def frames_def new_outbox_def regrouped_Nil List.map_filter_def)
  qed (auto intro: outbox_ok_move delivering_move)
  with assms(1) show ?thesis by blast
qed

lemma delivery_of_taken:
  assumes "\<And>sub a t es. m \<noteq> Msg_events sub a t es"
  shows "deliveries s (taken env m) = deliveries s [m]"
  using assms by (cases m) (auto simp: taken_def page_too_large_def)

lemma taken_regroups:
  assumes "chained a (deliveries s ms)"
  shows "chained a (deliveries s (concat (map (taken env) ms))) \<and>
    chain_end a (deliveries s (concat (map (taken env) ms))) = chain_end a (deliveries s ms) \<and>
    all_events (deliveries s (concat (map (taken env) ms))) = all_events (deliveries s ms)"
  using assms
proof (induction ms arbitrary: a)
  case (Cons m ms)
  let ?d = "deliveries s [m]"
  have ms: "chained (chain_end a ?d) (deliveries s ms)" and m: "chained a ?d"
    using Cons.prems chained_append [of a ?d "deliveries s ms"] by simp_all
  have "chained a (deliveries s (taken env m)) \<and> chain_end a (deliveries s (taken env m)) = chain_end a ?d \<and>
      all_events (deliveries s (taken env m)) = all_events ?d"
  proof (cases m)
    case (Msg_events sub a' t es)
    show ?thesis
    proof (cases "sub = s")
      case True
      with m Msg_events have "a' = a" "in_order a t es" by auto
      with split_events_chain [of a t es s] Msg_events True show ?thesis by (simp add: taken_def)
    next
      case False
      with Msg_events split_events_other [of s sub] show ?thesis by (simp add: taken_def)
    qed
  qed (use m delivery_of_taken [of m s env] in auto)
  with Cons.IH [OF ms] chained_append [of a ?d "deliveries s ms"] show ?case
    by (cases "delivery_of s m") auto
qed simp

text \<open>While the connection is open, nothing of a subscription is lost, reordered or repeated.\<close>

lemma outbox_regroups:
  assumes "running env ms ob" "sk_open (ob_socket ob)" "chained a (deliveries s ms)"
  shows "chained a (sent_to s ob @ waiting_for s ob) \<and>
    chain_end a (sent_to s ob @ waiting_for s ob) = chain_end a (deliveries s ms) \<and>
    coalesced (all_events (deliveries s ms)) (all_events (sent_to s ob @ waiting_for s ob))"
proof -
  obtain sk where "sk_sent sk = []" "moves env (concat (map (taken env) ms)) (new_outbox sk) ob"
    using running_moves [OF assms(1)] by blast
  from delivering_moves [OF this(2,1), of s] assms(2)
  have "regrouped (deliveries s (concat (map (taken env) ms))) (sent_to s ob @ waiting_for s ob)" by (simp add: delivering_def)
  with taken_regroups [OF assms(3), of env] show ?thesis unfolding regrouped_def by metis
qed

end
