(* ===== verification/Outbox_View.thy ===== *)
theory Outbox_View
  imports Outbox_Delivery
begin

text \<open>
  The client's end of a connection. Folding joined deltas gives the view that folding them one by one
  gives, up to the running summary of a shell's output, and a chain of deliveries applies to a view at
  its start like one list of events.
\<close>

subsection \<open>Views up to the summary of an output\<close>

definition map_values :: "('x \<Rightarrow> 'y) \<Rightarrow> 'x dict \<Rightarrow> 'y dict" where
  "map_values f d = map (\<lambda>(k, x). (k, f x)) d"

lemma get_map_values [simp]: "get (map_values f d) k = map_option f (get d k)"
  by (induction d) (auto simp: map_values_def)

lemma has_map_values [simp]: "has (map_values f d) k = has d k"
  by (simp add: has_def)

lemma put_map_values: "map_values f (put d k x) = put (map_values f d) k (f x)"
  by (induction d k x rule: put.induct) (auto simp: map_values_def)

lemma del_map_values: "map_values f (del d k) = del (map_values f d) k"
  by (simp add: map_values_def del_def filter_map o_def prod.case_eq_if)

definition show_plain :: "thread_view \<Rightarrow> thread_view" where
  "show_plain v = v\<lparr>v_items := map_values plain (v_items v)\<rparr>"

lemma show_plain_keeps [simp]:
  "v_seq (show_plain v) = v_seq v" "v_thread (show_plain v) = v_thread v" "v_agents (show_plain v) = v_agents v"
  "v_agentChildren (show_plain v) = v_agentChildren v" "v_runs (show_plain v) = v_runs v"
  "v_items (show_plain v) = map_values plain (v_items v)" "v_itemOrder (show_plain v) = v_itemOrder v"
  "v_itemsBefore (show_plain v) = v_itemsBefore v" "v_interactions (show_plain v) = v_interactions v"
  "v_backgroundTasks (show_plain v) = v_backgroundTasks v"
  by (simp_all add: show_plain_def)

definition delta_item :: "delta_field \<Rightarrow> string \<Rightarrow> item \<Rightarrow> item" where
  "delta_item fld added item = given (applyDelta item fld added) item"

lemma plain_plain [simp]: "plain (plain i) = plain i"
  by (simp add: plain_def set_detail_def split: item_body.split)

lemma plain_fields [simp]:
  "item_id (plain i) = item_id i" "item_createdAt (plain i) = item_createdAt i"
  by (simp_all add: plain_def set_detail_def split: item_body.split)

lemma plain_createdAt: "plain (i\<lparr>item_createdAt := t\<rparr>) = (plain i)\<lparr>item_createdAt := t\<rparr>"
  by (simp add: plain_def set_detail_def split: item_body.split)

lemma plain_delta_item: "plain (delta_item fld added (plain i)) = plain (delta_item fld added i)"
  by (cases "item_body i"; cases fld)
    (auto simp: plain_def set_detail_def delta_item_def applyDelta_def given_def split: prod.split)

lemma plain_admit_input: "plain (admit_input a n (plain i)) = plain (admit_input a n i)"
  by (auto simp: plain_def set_detail_def admit_input_def split: item_body.split)

lemma map_plain_modify:
  assumes "\<And>x. plain (g (plain x)) = plain (g x)"
  shows "map_values plain (modify (map_values plain d) k g) = map_values plain (modify d k g)"
proof -
  have id: "map_values plain (map_values plain d) = map_values plain d" by (simp add: map_values_def o_def prod.case_eq_if)
  show ?thesis by (cases "get d k") (simp_all add: modify_def put_map_values id assms)
qed

lemma map_plain_twice [simp]: "map_values plain (map_values plain d) = map_values plain d"
  by (simp add: map_values_def o_def prod.case_eq_if)

lemma plain_fold_item: "show_plain (fold_item updated i (show_plain v)) = show_plain (fold_item updated i v)"
  by (cases "get (v_items v) (item_id i)")
    (auto simp: fold_item_def show_plain_def put_map_values plain_createdAt has_def)

lemma show_plain_fold: "show_plain (fold_payload t p (show_plain v)) = show_plain (fold_payload t p v)"
proof (cases p)
  case (P_item_created i)
  then show ?thesis by (simp add: plain_fold_item)
next
  case (P_item_updated i)
  then show ?thesis by (simp add: plain_fold_item)
next
  case (P_item_deleted i)
  then show ?thesis by (simp add: fold_item_deleted_def show_plain_def del_map_values)
next
  case (P_item_delta i a fld added)
  have "(\<lambda>item. given (applyDelta item fld added) item) = delta_item fld added" by (simp add: delta_item_def fun_eq_iff)
  with P_item_delta show ?thesis
    by (simp add: fold_delta_def show_plain_def map_plain_modify plain_delta_item)
next
  case (P_input_admitted i n c)
  then show ?thesis
    by (simp add: fold_input_admitted_def show_plain_def map_plain_modify plain_admit_input)
qed (simp_all add: show_plain_def fold_agent_created_def fold_agent_status_def fold_agent_updated_def fold_usage_def
    reparentAgent_def Let_def split: option.split prod.split)

lemma show_plain_foldEvent:
  assumes "show_plain v = show_plain u" "foldEvent e v = Some v'"
  shows "\<exists>u'. foldEvent e u = Some u' \<and> show_plain u' = show_plain v'"
proof -
  have t: "v_thread u = v_thread v" using arg_cong [OF assms(1), of v_thread] by simp
  let ?up = "\<lambda>w. w\<lparr>v_thread := updateThread e (v_thread v)\<rparr>"
  have up: "show_plain (?up w) = ?up (show_plain w)" for w by (simp add: show_plain_def)
  have "show_plain (fold_payload t p (?up u)) = show_plain (fold_payload t p (?up v))" for t p
    using show_plain_fold [of t p "?up u"] show_plain_fold [of t p "?up v"] up assms(1) by metis
  with assms(2) t show ?thesis by (auto simp: foldEvent_def split: if_splits)
qed

subsection \<open>Texts that are part of their stream\<close>

fun source_ok :: "string \<Rightarrow> text_source option \<Rightarrow> bool" where
  "source_ok text None \<longleftrightarrow> True"
| "source_ok text (Some s) \<longleftrightarrow> given (src_offset s) 0 + utf16Length text * 2 \<le> src_bytes s"

fun part_ok :: "content_part \<Rightarrow> bool" where
  "part_ok (Text_part text source) \<longleftrightarrow> source_ok text source"
| "part_ok (Other_part _) \<longleftrightarrow> True"

definition item_ok :: "item \<Rightarrow> bool" where
  "item_ok i = (case item_body i of
       Message _ ps \<Rightarrow> list_all part_ok ps
     | Reasoning text source \<Rightarrow> source_ok text source
     | Notice _ text source \<Rightarrow> source_ok text source
     | _ \<Rightarrow> True)"

lemma utf16Length_append: "utf16Length (x @ y) = utf16Length x + utf16Length y"
  by (simp add: utf16Length_def)

lemma appendText_ok:
  assumes "source_ok text source" "appendText text source x = (text', source')"
  shows "source_ok text' source'" "appendText text source (x @ y) = appendText text' source' y"
  using assms by (cases source; auto simp: appendText_def holdsTail_def utf16Length_append given_def split: option.splits if_splits)+

lemma append_part_ok:
  assumes "list_all part_ok ps"
  shows "list_all part_ok (append_part ps x) \<and> append_part ps (x @ y) = append_part (append_part ps x) y"
proof -
  have none: "appendText x None y = (x @ y, None)" for x y by (simp add: appendText_def holdsTail_def)
  show ?thesis
  proof (cases ps rule: rev_cases)
    case (snoc qs q)
    show ?thesis
    proof (cases q)
      case (Text_part t0 s0)
      obtain t' s' where tx: "appendText t0 s0 x = (t', s')" by force
      have ok: "source_ok t0 s0" "list_all part_ok qs" using assms snoc Text_part by simp_all
      from appendText_ok [OF ok(1) tx] ok(2) tx snoc Text_part show ?thesis by simp
    qed (use assms snoc none in \<open>simp_all add: butlast_append\<close>)
  qed (simp add: none)
qed

lemma delta_item_ok:
  assumes "item_ok i"
  shows "item_ok (delta_item fld x i)" "plain (delta_item fld (x @ y) i) = plain (delta_item fld y (delta_item fld x i))"
proof -
  show "item_ok (delta_item fld x i)"
    using assms appendText_ok(1) append_part_ok by (cases "item_body i"; cases fld)
      (auto simp: item_ok_def delta_item_def applyDelta_def given_def simp del: append_part.simps split: prod.split)
  show "plain (delta_item fld (x @ y) i) = plain (delta_item fld y (delta_item fld x i))"
    using assms by (cases "item_body i"; cases fld)
      (auto simp: item_ok_def delta_item_def applyDelta_def given_def plain_def set_detail_def appendText_ok(2) append_part_ok
        simp del: append_part.simps split: prod.split)
qed

definition view_ok :: "thread_view \<Rightarrow> bool" where
  "view_ok v \<longleftrightarrow> (\<forall>i x. get (v_items v) i = Some x \<longrightarrow> item_ok x)"

text \<open>What a log guarantees of an event of a thread.\<close>

definition event_ok :: "ident \<Rightarrow> delivery_event \<Rightarrow> bool" where
  "event_ok tid e \<longleftrightarrow> de_threadId e = tid \<and> (case de_payload e of
       P_thread_created t \<Rightarrow> th_id t = tid
     | P_item_created i \<Rightarrow> item_ok i
     | P_item_updated i \<Rightarrow> item_ok i
     | _ \<Rightarrow> True)"

lemma updateThread_id: "th_id (updateThread e t) = th_id t"
  by (simp add: updateThread_def patch_thread_def Let_def split: payload.split option.split)

lemma item_ok_createdAt [simp]: "item_ok (i\<lparr>item_createdAt := t\<rparr>) = item_ok i"
  by (simp add: item_ok_def)

lemma item_ok_admit: "item_ok i \<Longrightarrow> item_ok (admit_input a n i)"
  by (auto simp: item_ok_def admit_input_def split: item_body.splits)

lemma view_ok_modify: "view_ok v \<Longrightarrow> (\<And>x. item_ok x \<Longrightarrow> item_ok (g x)) \<Longrightarrow> view_ok (v\<lparr>v_items := modify (v_items v) i g\<rparr>)"
  by (auto simp: view_ok_def)

lemma fold_delta_item: "fold_delta i fld added v = v\<lparr>v_items := modify (v_items v) i (delta_item fld added)\<rparr>"
  by (simp add: fold_delta_def delta_item_def [abs_def])

lemma fold_payload_ok:
  assumes "event_ok (th_id (v_thread v)) e" "view_ok v"
  shows "th_id (v_thread (fold_payload t (de_payload e) v)) = th_id (v_thread v) \<and> view_ok (fold_payload t (de_payload e) v)"
proof (cases "de_payload e")
  case (P_item_delta i a fld added)
  with assms(2) show ?thesis by (simp add: fold_delta_item view_ok_modify delta_item_ok)
next
  case (P_input_admitted i n c)
  with assms(2) show ?thesis by (simp add: fold_input_admitted_def view_ok_modify item_ok_admit)
qed (use assms in \<open>auto simp: event_ok_def view_ok_def fold_item_def fold_item_deleted_def fold_agent_created_def
    fold_agent_status_def fold_agent_updated_def fold_usage_def Let_def split: option.splits prod.splits if_splits\<close>)

lemma foldEvent_ok:
  assumes "event_ok (th_id (v_thread v)) e" "view_ok v"
  shows "\<exists>v'. foldEvent e v = Some v' \<and> th_id (v_thread v') = th_id (v_thread v) \<and> view_ok v'"
proof -
  let ?v = "v\<lparr>v_thread := updateThread e (v_thread v)\<rparr>"
  have "event_ok (th_id (v_thread ?v)) e" "view_ok ?v" using assms by (simp_all add: updateThread_id view_ok_def)
  from fold_payload_ok [OF this, of "de_at e"] assms(1) show ?thesis
    by (simp add: foldEvent_def updateThread_id event_ok_def)
qed

subsection \<open>Folding joined deltas\<close>

lemma foldEvent_delta:
  assumes "de_payload e = P_item_delta i a fld x" "de_threadId e = th_id (v_thread v)"
  shows "foldEvent e v = Some (fold_delta i fld x v)"
proof -
  have "updateThread e (v_thread v) = v_thread v" using assms(1) by (simp add: updateThread_def isSidebarEvent_def)
  with assms show ?thesis by (simp add: foldEvent_def)
qed

lemma fold_joined:
  assumes "joins l e" "view_ok v" "foldEvent l v = Some v1" "foldEvent e v1 = Some v2" "de_threadId l = th_id (v_thread v)"
  shows "\<exists>u. foldEvent (join_delta l e) v = Some u \<and> show_plain u = show_plain v2"
proof -
  from assms(1) obtain i a fld x y where p: "de_payload l = P_item_delta i a fld x" "de_payload e = P_item_delta i a fld y"
    and tid: "de_threadId l = de_threadId e" by (auto simp: joins_def split: payload.splits)
  have v1: "v1 = fold_delta i fld x v" using foldEvent_delta [OF p(1) assms(5)] assms(3) by simp
  have "de_threadId e = th_id (v_thread v1)" using tid assms(5) by (simp add: v1 fold_delta_item)
  with foldEvent_delta [OF p(2)] assms(4) have v2: "v2 = fold_delta i fld y (fold_delta i fld x v)" by (simp add: v1)
  have "de_payload (join_delta l e) = P_item_delta i a fld (x @ y)" "de_threadId (join_delta l e) = th_id (v_thread v)"
    using p tid assms(5) by (simp_all add: join_delta_def)
  from foldEvent_delta [OF this] have u: "foldEvent (join_delta l e) v = Some (fold_delta i fld (x @ y) v)" .
  have "show_plain (fold_delta i fld (x @ y) v) = show_plain v2"
  proof (cases "get (v_items v) i")
    case (Some it)
    with assms(2) have "item_ok it" by (simp add: view_ok_def)
    with Some show ?thesis
      by (simp add: v2 fold_delta_item show_plain_def modify_def put_map_values delta_item_ok(2) put_put)
  qed (simp add: v2 fold_delta_item modify_def)
  with u show ?thesis by blast
qed

lemma foldM_append: "foldM f (xs @ ys) s = Option.bind (foldM f xs s) (foldM f ys)"
  by (induction xs arbitrary: s) (auto split: bind_split)

lemma foldM_snoc: "foldM f (xs @ [x]) s = Option.bind (foldM f xs s) (f x)"
  proof -
  have "foldM f [x] = f x" by (rule ext) (simp add: Option.bind_eq_Some_conv option.expand split: bind_split)
  then show ?thesis by (simp add: foldM_append)
qed

lemma foldM_ok:
  assumes "\<forall>e \<in> set es. event_ok (th_id (v_thread v)) e" "view_ok v"
  shows "\<exists>u. foldM foldEvent es v = Some u \<and> th_id (v_thread u) = th_id (v_thread v) \<and> view_ok u"
  using assms
proof (induction es arbitrary: v)
  case (Cons e es)
  then obtain v' where v': "foldEvent e v = Some v'" "th_id (v_thread v') = th_id (v_thread v)" "view_ok v'"
    using foldEvent_ok [of v e] by auto
  with Cons.IH [of v'] Cons.prems(1) show ?case by simp
qed simp

lemma event_ok_join:
  assumes "joins l e" "event_ok tid e"
  shows "event_ok tid (join_delta l e)"
  using assms by (auto simp: joins_def join_delta_def event_ok_def split: payload.splits)

lemma coalesced_ok:
  assumes "coalesced es fs" "\<forall>e \<in> set es. event_ok tid e"
  shows "\<forall>e \<in> set fs. event_ok tid e"
  using assms by (induction rule: coalesced.induct) (auto intro: event_ok_join)

lemma fold_coalesced:
  assumes "coalesced es fs" "\<forall>e \<in> set es. event_ok (th_id (v_thread v)) e" "view_ok v"
  shows "\<exists>u u'. foldM foldEvent es v = Some u \<and> foldM foldEvent fs v = Some u' \<and> show_plain u' = show_plain u"
  using assms
proof (induction rule: coalesced.induct)
  case (co_add es fs e)
  then obtain u u' where u: "foldM foldEvent es v = Some u" "foldM foldEvent fs v = Some u'" "show_plain u' = show_plain u"
    by auto
  obtain w where w: "foldM foldEvent (es @ [e]) v = Some w" using foldM_ok [OF co_add.prems] by blast
  with u(1) have "foldEvent e u = Some w" by (simp add: foldM_snoc)
  with show_plain_foldEvent [OF u(3) [symmetric]] u(2) w show ?case by (auto simp: foldM_snoc)
next
  case (co_join es fs l e)
  have ok: "\<forall>x \<in> set (fs @ [l]). event_ok (th_id (v_thread v)) x"
    using coalesced_ok [OF co_join.hyps(1)] co_join.prems(1) by simp
  obtain u u' where u: "foldM foldEvent es v = Some u" "foldM foldEvent (fs @ [l]) v = Some u'" "show_plain u' = show_plain u"
    using co_join by auto
  obtain u0 where u0: "foldM foldEvent fs v = Some u0" "th_id (v_thread u0) = th_id (v_thread v)" "view_ok u0"
    using foldM_ok [of fs v] ok co_join.prems(2) by auto
  have l: "foldEvent l u0 = Some u'" using u(2) u0(1) by (simp add: foldM_snoc)
  obtain w where w: "foldM foldEvent (es @ [e]) v = Some w" using foldM_ok [OF co_join.prems] by blast
  with u(1) have "foldEvent e u = Some w" by (simp add: foldM_snoc)
  with show_plain_foldEvent [OF u(3) [symmetric]] obtain w' where w': "foldEvent e u' = Some w'" "show_plain w' = show_plain w"
    by blast
  have "de_threadId l = th_id (v_thread u0)" using ok u0(2) by (simp add: event_ok_def)
  from fold_joined [OF co_join.hyps(2) u0(3) l w'(1) this] obtain x where
    "foldEvent (join_delta l e) u0 = Some x" "show_plain x = show_plain w'" by blast
  with u0(1) w w'(2) show ?case by (auto simp: foldM_snoc)
qed auto

subsection \<open>Applying a chain of deliveries\<close>

definition deliver :: "delivery \<Rightarrow> thread_view \<Rightarrow> thread_view option" where
  "deliver d v = (case applyDelivery d (Thread_view v) of Some (_, Thread_view v') \<Rightarrow> Some v' | _ \<Rightarrow> None)"

lemma foldM_fold_view: "foldM fold_view es (Thread_view v) = map_option Thread_view (foldM foldEvent es v)"
proof (induction es arbitrary: v)
  case (Cons e es)
  then show ?case by (cases "foldEvent e v") auto
qed simp

lemma fold_payload_seq: "fold_payload t p (v\<lparr>v_seq := n\<rparr>) = (fold_payload t p v)\<lparr>v_seq := n\<rparr>"
  by (cases p) (auto simp: fold_defs reparentAgent_def Let_def split: option.split prod.split)

lemma foldEvents_seq: "foldM foldEvent es (v\<lparr>v_seq := n\<rparr>) = map_option (\<lambda>u. u\<lparr>v_seq := n\<rparr>) (foldM foldEvent es v)"
proof (induction es arbitrary: v)
  case (Cons e es)
  have swap: "(v\<lparr>v_seq := n\<rparr>)\<lparr>v_thread := x\<rparr> = (v\<lparr>v_thread := x\<rparr>)\<lparr>v_seq := n\<rparr>" for x by simp
  have "fold_payload t p ((v\<lparr>v_seq := n\<rparr>)\<lparr>v_thread := x\<rparr>) = (fold_payload t p (v\<lparr>v_thread := x\<rparr>))\<lparr>v_seq := n\<rparr>" for t p x
    unfolding swap by (rule fold_payload_seq)
  then have "foldEvent e (v\<lparr>v_seq := n\<rparr>) = map_option (\<lambda>u. u\<lparr>v_seq := n\<rparr>) (foldEvent e v)"
    by (simp add: foldEvent_def)
  with Cons show ?case by (cases "foldEvent e v") auto
qed simp

lemma show_plain_seq: "show_plain (v\<lparr>v_seq := n\<rparr>) = (show_plain v)\<lparr>v_seq := n\<rparr>"
  by (simp add: show_plain_def)

lemma check_in_order:
  assumes "in_order prev through es" "\<forall>e \<in> set es. in_scope sv e"
  shows "check_events sv through prev es = Applied"
  using assms
proof (induction es arbitrary: prev)
  case (Cons e es)
  then show ?case using in_order_le [of "de_seq e" through es] by auto
qed simp

lemma deliver_applies:
  assumes "d_after d = v_seq v" "in_order (d_after d) (d_through d) (delivery_events d)"
    and "\<forall>e \<in> set (delivery_events d). de_threadId e = th_id (v_thread v)"
  shows "deliver d v = map_option (\<lambda>u. u\<lparr>v_seq := d_through d\<rparr>) (foldM foldEvent (delivery_events d) v)"
proof (cases "d_through d \<le> v_seq v")
  case True
  with in_order_le [OF assms(2)] assms(1) have "d_through d = v_seq v" by simp
  moreover from this have "delivery_events d = []"
    using assms(1,2) in_order_le by (cases "delivery_events d") fastforce+
  ultimately show ?thesis by (simp add: deliver_def applyDelivery_def)
next
  case False
  have "check_events (Thread_view v) (d_through d) (d_after d) (delivery_events d) = Applied"
    using assms by (intro check_in_order) auto
  with False assms(1) show ?thesis
    by (cases "foldM foldEvent (delivery_events d) v") (simp_all add: deliver_def applyDelivery_def foldM_fold_view)
qed

lemma deliver_chain:
  assumes "chained (v_seq v) ds" "\<forall>e \<in> set (all_events ds). event_ok (th_id (v_thread v)) e" "view_ok v"
  shows "foldM deliver ds v = map_option (\<lambda>u. u\<lparr>v_seq := chain_end (v_seq v) ds\<rparr>) (foldM foldEvent (all_events ds) v)"
  using assms
proof (induction ds arbitrary: v)
  case (Cons d ds)
  obtain u where u: "foldM foldEvent (delivery_events d) v = Some u" "th_id (v_thread u) = th_id (v_thread v)" "view_ok u"
    using foldM_ok [of "delivery_events d" v] Cons.prems(2,3) by auto
  let ?u = "u\<lparr>v_seq := d_through d\<rparr>"
  have "deliver d v = Some ?u"
    using deliver_applies [of d v] Cons.prems(1,2) u(1) by (auto simp: event_ok_def)
  moreover have "foldM deliver ds ?u = map_option (\<lambda>w. w\<lparr>v_seq := chain_end (d_through d) ds\<rparr>) (foldM foldEvent (all_events ds) ?u)"
    using Cons.IH [of ?u] Cons.prems(1,2) u(2,3) by (simp add: view_ok_def)
  ultimately show ?case using u(1) by (simp add: foldM_append foldEvents_seq option.map_comp o_def)
qed (simp add: option.map_id)

lemma delivered_view:
  assumes "running env ms ob" "sk_open (ob_socket ob)" "chained (v_seq v) (deliveries s ms)"
    and "\<forall>e \<in> set (all_events (deliveries s ms)). event_ok (th_id (v_thread v)) e" "view_ok v"
  shows "\<exists>u u'. foldM deliver (deliveries s ms) v = Some u \<and> foldM deliver (sent_to s ob @ waiting_for s ob) v = Some u' \<and>
    v_seq u = chain_end (v_seq v) (deliveries s ms) \<and> show_plain u' = show_plain u"
proof -
  let ?out = "sent_to s ob @ waiting_for s ob" and ?n = "chain_end (v_seq v) (deliveries s ms)"
  from outbox_regroups [OF assms(1-3)] have out: "chained (v_seq v) ?out" "chain_end (v_seq v) ?out = ?n"
    "coalesced (all_events (deliveries s ms)) (all_events ?out)" by simp_all
  from fold_coalesced [OF out(3) assms(4,5)] obtain u u' where u: "foldM foldEvent (all_events (deliveries s ms)) v = Some u"
    "foldM foldEvent (all_events ?out) v = Some u'" "show_plain u' = show_plain u" by blast
  have "foldM deliver (deliveries s ms) v = Some (u\<lparr>v_seq := ?n\<rparr>)" using deliver_chain [OF assms(3-5)] u(1) by simp
  moreover have "foldM deliver ?out v = Some (u'\<lparr>v_seq := ?n\<rparr>)"
    using deliver_chain [OF out(1) coalesced_ok [OF out(3) assms(4)] assms(5)] u(2) out(2) by simp
  moreover have "show_plain (u'\<lparr>v_seq := ?n\<rparr>) = show_plain (u\<lparr>v_seq := ?n\<rparr>)"
    using u(3) by (simp add: show_plain_seq)
  ultimately show ?thesis by (intro exI [of _ "u\<lparr>v_seq := ?n\<rparr>"] exI [of _ "u'\<lparr>v_seq := ?n\<rparr>"]) simp
qed

text \<open>What the core's state looks like in a view does not depend on the summaries.\<close>

lemma mirrored_plain:
  assumes "map_values plain V = map_values plain V'" "mirrored g n idf (\<lambda>y i. plain y = plain i) d h V"
  shows "mirrored g n idf (\<lambda>y i. plain y = plain i) d h V'"
proof -
  have eq: "map_option plain (get V k) = map_option plain (get V' k)" for k
    using arg_cong [OF assms(1), of "\<lambda>d. get d k"] by simp
  have hs: "has V k = has V' k" for k using eq [of k] by (cases "get V k"; cases "get V' k") (auto simp: has_def)
  have q: "(\<exists>y. get U i = Some y \<and> plain y = z) \<longleftrightarrow> map_option plain (get U i) = Some z" for U i z
    by (cases "get U i") auto
  show ?thesis using assms(2) unfolding mirrored_def q eq hs .
qed

lemma shown_plain:
  assumes "show_plain u' = show_plain u" "shown gen u w"
  shows "shown gen u' w"
proof -
  have eq: "v_agents u' = v_agents u" "v_runs u' = v_runs u" "v_interactions u' = v_interactions u"
    "v_backgroundTasks u' = v_backgroundTasks u" "v_thread u' = v_thread u" "map_values plain (v_items u) = map_values plain (v_items u')"
    using arg_cong [OF assms(1), of v_agents] arg_cong [OF assms(1), of v_runs] arg_cong [OF assms(1), of v_interactions]
      arg_cong [OF assms(1), of v_backgroundTasks] arg_cong [OF assms(1), of v_thread] arg_cong [OF assms(1), of v_items] by simp_all
  have "items_shown gen u' w"
    using mirrored_plain [OF eq(6)] assms(2) unfolding shown_def items_shown_def by blast
  with assms(2) eq(1-5) show ?thesis by (simp add: shown_def shown_defs)
qed


subsection \<open>An example\<close>

definition example_message :: item where
  "example_message = \<lparr>item_id = ''i'', item_agentId = ''a'', item_runId = None, item_createdAt = 1, item_complete = False,
     item_body = Message Assistant_role [], item_raw = [], item_rest = []\<rparr>"

definition example_delivery :: "nat \<Rightarrow> payload \<Rightarrow> delivery_event" where
  "example_delivery n p = \<lparr>de_seq = n, de_firstSeq = None, de_at = 5, de_threadId = ''t'', de_payload = p\<rparr>"

definition example_batches :: "server_message list" where
  "example_batches = [
     Msg_events ''s'' 0 2 [example_delivery 1 (P_item_created example_message),
       example_delivery 2 (P_item_delta ''i'' ''a'' Text_field ''he'')],
     Msg_events ''s'' 2 3 [example_delivery 3 (P_item_delta ''i'' ''a'' Text_field ''y'')]]"

definition example_congested :: outbox where
  "example_congested = fold (outbox_send example_env 0) example_batches (new_outbox example_socket)"

definition example_view :: thread_view where
  "example_view = createThreadView \<lparr>th_id = ''t'', th_status = New, th_rootAgentId = None, th_updatedAt = 0, th_rest = []\<rparr> 0"

lemma running_congested: "running example_env example_batches example_congested"
proof -
  have "running example_env [] (new_outbox example_socket)" by (rule run_start) (simp add: example_socket_def)
  from run_send [OF run_send [OF this, where t = 0], where t = 0] show ?thesis by (simp add: example_congested_def example_batches_def)
qed


end
