(* ===== verification/Time_Ordered_Ids.thy ===== *)
theory Time_Ordered_Ids
  imports Projection_Mirror "HOL-Library.Word"
begin

text \<open>
  The daemon's identities (src/apps/daemon/src/time-ordered-id.ts): UUIDs of version 7 from a clock, a
  counter and random bytes. Numbers are integers; the clock reading, already rounded down, and the random
  bytes are arguments of a draw. A thrown error is \<^const>\<open>None\<close>; the generator has moved on by then.
\<close>

unbundle bit_operations_syntax

subsection \<open>Layout\<close>

definition byte_or_0 :: "8 word list \<Rightarrow> nat \<Rightarrow> int" where
  "byte_or_0 bs i = (if i < length bs then uint (bs ! i) else 0)"

text \<open>The loop that writes the timestamp from index 5 down to 0; the last argument is the bytes written.\<close>

fun ms_bytes :: "nat \<Rightarrow> int \<Rightarrow> int list \<Rightarrow> int list" where
  "ms_bytes 0 rest written = written"
| "ms_bytes (Suc n) rest written = ms_bytes n (rest div 256) (rest mod 256 # written)"

definition uuid_bytes :: "int \<Rightarrow> int \<Rightarrow> 8 word list \<Rightarrow> int list" where
  "uuid_bytes ms counter tail = ms_bytes 6 ms [] @
     [0x70 OR (drop_bit 8 counter AND 0x0f), counter AND 0xff, 0x80 OR (byte_or_0 tail 0 AND 0x3f)] @
     map (byte_or_0 tail) [1..<8]"

definition hex_digit :: "int \<Rightarrow> char" where
  "hex_digit d = char_of (nat (if d < 10 then 48 + d else 87 + d))"

definition hex_byte :: "int \<Rightarrow> string" where
  "hex_byte b = [hex_digit (b div 16), hex_digit (b mod 16)]"

definition dashed :: "string \<Rightarrow> string" where
  "dashed hex = take 8 hex @ ''-'' @ take 4 (drop 8 hex) @ ''-'' @ take 4 (drop 12 hex) @ ''-'' @
     take 4 (drop 16 hex) @ ''-'' @ drop 20 hex"

definition formatUuidV7 :: "int \<Rightarrow> int \<Rightarrow> 8 word list \<Rightarrow> string option" where
  "formatUuidV7 ms counter tail =
     (if \<bar>ms\<bar> > 2 ^ 53 - 1 \<or> ms < 0 \<or> ms \<ge> 2 ^ 48 then None
      else Some (dashed (concat (map hex_byte (uuid_bytes ms counter tail)))))"

subsection \<open>The generator\<close>

record id_clock =
  ic_lastMs :: int
  ic_counter :: int

definition fresh_clock :: id_clock where
  "fresh_clock = \<lparr>ic_lastMs = -1, ic_counter = 0\<rparr>"

definition next_tick :: "int \<Rightarrow> 8 word list \<Rightarrow> id_clock \<Rightarrow> id_clock" where
  "next_tick clock seed st =
     (if clock > ic_lastMs st then
        \<lparr>ic_lastMs = clock, ic_counter = (push_bit 8 (byte_or_0 seed 0) OR byte_or_0 seed 1) AND 0x7ff\<rparr>
      else if ic_counter st + 1 > 0xfff then \<lparr>ic_lastMs = ic_lastMs st + 1, ic_counter = 0\<rparr>
      else st\<lparr>ic_counter := ic_counter st + 1\<rparr>)"

text \<open>A reading of the clock, the seed of a counter and the random tail.\<close>

type_synonym id_draw = "int \<times> 8 word list \<times> 8 word list"

definition timeOrderedId :: "id_draw \<Rightarrow> id_clock \<Rightarrow> string option \<times> id_clock" where
  "timeOrderedId d st = (case d of (clock, seed, tail) \<Rightarrow>
     let st' = next_tick clock seed st in (formatUuidV7 (ic_lastMs st') (ic_counter st') tail, st'))"

fun timeOrderedIds :: "id_draw list \<Rightarrow> id_clock \<Rightarrow> string option list" where
  "timeOrderedIds [] st = []"
| "timeOrderedIds (d # ds) st = (case timeOrderedId d st of (i, st') \<Rightarrow> i # timeOrderedIds ds st')"

subsection \<open>Reading a timestamp\<close>

definition hex_value :: "char \<Rightarrow> int option" where
  "hex_value c = (let n = int (byte c) in
     if 48 \<le> n \<and> n \<le> 57 then Some (n - 48)
     else if 97 \<le> n \<and> n \<le> 102 then Some (n - 87)
     else if 65 \<le> n \<and> n \<le> 70 then Some (n - 55)
     else None)"

definition is_hex :: "char \<Rightarrow> bool" where
  "is_hex c \<longleftrightarrow> hex_value c \<noteq> None"

text \<open>\<open>/^[0-9a-f]{12}7[0-9a-f]{19}$/i\<close>\<close>

definition is_v7 :: "string \<Rightarrow> bool" where
  "is_v7 hex \<longleftrightarrow> length hex = 32 \<and> list_all is_hex (take 12 hex) \<and> hex ! 12 = CHR ''7'' \<and> list_all is_hex (drop 13 hex)"

definition parse_hex :: "string \<Rightarrow> int" where
  "parse_hex s = foldl (\<lambda>n c. n * 16 + given (hex_value c) 0) 0 s"

definition uuidV7Time :: "string \<Rightarrow> int option" where
  "uuidV7Time i = (let hex = filter (\<lambda>c. c \<noteq> CHR ''-'') i in
     if is_v7 hex then Some (parse_hex (take 12 hex)) else None)"

subsection \<open>The order of identities\<close>

text \<open>JavaScript compares strings by their units, which is the order of these ASCII bytes.\<close>

definition id_less :: "string \<Rightarrow> string \<Rightarrow> bool" where
  "id_less a b \<longleftrightarrow> ord_class.lexordp (map byte a) (map byte b)"

subsection \<open>Bytes and digits\<close>

definition bytes_ok :: "int list \<Rightarrow> bool" where
  "bytes_ok bs \<longleftrightarrow> (\<forall>b \<in> set bs. 0 \<le> b \<and> b < 256)"

lemma byte_hex_digit: "0 \<le> d \<Longrightarrow> d < 16 \<Longrightarrow> byte (hex_digit d) = nat (if d < 10 then 48 + d else 87 + d)"
  by (auto simp: byte_def hex_digit_def)

lemma hex_value_digit: "0 \<le> d \<Longrightarrow> d < 16 \<Longrightarrow> hex_value (hex_digit d) = Some d"
  by (auto simp: hex_value_def byte_hex_digit Let_def)

lemma hex_digit_dash: "0 \<le> d \<Longrightarrow> d < 16 \<Longrightarrow> hex_digit d \<noteq> CHR ''-''"
proof
  assume d: "0 \<le> d" "d < 16" "hex_digit d = CHR ''-''"
  then have "byte (hex_digit d) = 45" by (simp add: byte_def)
  with byte_hex_digit [OF d(1,2)] d show False by (auto split: if_splits)
qed

lemma ms_bytes_written: "ms_bytes n m ws = ms_bytes n m [] @ ws"
proof (induction n arbitrary: m ws)
  case (Suc n)
  show ?case using Suc [of "m div 256" "m mod 256 # ws"] Suc [of "m div 256" "[m mod 256]"] by simp
qed simp

lemma ms_bytes_Suc: "ms_bytes (Suc n) m [] = ms_bytes n (m div 256) [] @ [m mod 256]"
  using ms_bytes_written [of n "m div 256" "[m mod 256]"] by simp

lemma length_ms_bytes [simp]: "length (ms_bytes n m ws) = n + length ws"
  by (induction n arbitrary: m ws) simp_all

lemma ms_bytes_ok: "bytes_ok (ms_bytes n m [])"
  by (induction n arbitrary: m) (auto simp: bytes_ok_def ms_bytes_Suc simp del: ms_bytes.simps(2))

lemma ms_bytes_value: "0 \<le> m \<Longrightarrow> m < 256 ^ n \<Longrightarrow> foldl (\<lambda>k b. k * 256 + b) 0 (ms_bytes n m []) = m"
proof (induction n arbitrary: m)
  case (Suc n)
  then have "foldl (\<lambda>k b. k * 256 + b) 0 (ms_bytes n (m div 256) []) = m div 256"
    by (intro Suc.IH) (auto simp: pos_imp_zdiv_nonneg_iff)
  then show ?case by (simp add: ms_bytes_Suc del: ms_bytes.simps(2))
qed simp

lemma lexordp_append:
  fixes xs ys :: "'a :: linorder list"
  assumes "ord_class.lexordp xs ys" "length xs = length ys"
  shows "ord_class.lexordp (xs @ us) (ys @ vs)"
  using assms by (induction xs ys rule: list_induct2') auto

lemma ms_bytes_less: "0 \<le> m \<Longrightarrow> m < m' \<Longrightarrow> m' < 256 ^ n \<Longrightarrow> ord_class.lexordp (ms_bytes n m []) (ms_bytes n m' [])"
proof (induction n arbitrary: m m')
  case (Suc n)
  have le: "m div 256 \<le> m' div 256" using Suc.prems by (intro zdiv_mono1) auto
  show ?case
  proof (cases "m div 256 = m' div 256")
    case True
    then have "m mod 256 < m' mod 256" using Suc.prems by presburger
    with True show ?thesis by (simp add: ms_bytes_Suc lexordp_append_leftI del: ms_bytes.simps(2))
  next
    case False
    with le have "ord_class.lexordp (ms_bytes n (m div 256) []) (ms_bytes n (m' div 256) [])"
      using Suc.prems by (intro Suc.IH) auto
    then show ?thesis by (simp add: ms_bytes_Suc lexordp_append del: ms_bytes.simps(2))
  qed
qed simp

subsection \<open>The text of the bytes\<close>

text \<open>The text of the bytes from position \<open>k\<close> on, with its dashes.\<close>

fun spell :: "nat \<Rightarrow> int list \<Rightarrow> string" where
  "spell k [] = []"
| "spell k (b # bs) = hex_byte b @ (if k \<in> {3, 5, 7, 9} then ''-'' else []) @ spell (Suc k) bs"

lemma take_hex: "take (n + n) (concat (map hex_byte bs)) = concat (map hex_byte (take n bs))"
proof (induction n arbitrary: bs)
  case (Suc n)
  then show ?case by (cases bs) (simp_all add: hex_byte_def)
qed simp

lemma drop_hex: "drop (n + n) (concat (map hex_byte bs)) = concat (map hex_byte (drop n bs))"
proof (induction n arbitrary: bs)
  case (Suc n)
  then show ?case by (cases bs) (simp_all add: hex_byte_def)
qed simp

lemma spell_append: "spell k (xs @ ys) = spell k xs @ spell (k + length xs) ys"
  by (induction xs arbitrary: k) simp_all

lemma spell_plain: "(\<And>j. j < length xs \<Longrightarrow> k + j \<notin> {3, 5, 7, 9}) \<Longrightarrow> spell k xs = concat (map hex_byte xs)"
proof (induction xs arbitrary: k)
  case (Cons x xs)
  have "k \<notin> {3, 5, 7, 9}" using Cons.prems [of 0] by simp
  moreover have "spell (Suc k) xs = concat (map hex_byte xs)"
  proof (rule Cons.IH)
    fix j assume "j < length xs"
    then show "Suc k + j \<notin> {3, 5, 7, 9}" using Cons.prems [of "Suc j"] by simp
  qed
  ultimately show ?case by simp
qed simp

text \<open>A group of bytes that ends at a dash.\<close>

lemma spell_group:
  assumes "xs \<noteq> []" "k + length xs - 1 \<in> {3, 5, 7, 9}" "\<And>j. Suc j < length xs \<Longrightarrow> k + j \<notin> {3, 5, 7, 9}"
  shows "spell k xs = concat (map hex_byte xs) @ ''-''"
proof -
  have xs: "xs = butlast xs @ [List.last xs]" using assms(1) by simp
  have "spell k (butlast xs) = concat (map hex_byte (butlast xs))" using assms(3) by (intro spell_plain) auto
  moreover have "spell (k + length (butlast xs)) [List.last xs] = hex_byte (List.last xs) @ ''-''"
    using assms(1,2) by (cases xs) auto
  ultimately show ?thesis by (subst (1 2) xs) (simp only: spell_append map_append concat_append, simp)
qed

lemma dashed_spell:
  assumes "length bs = 16"
  shows "dashed (concat (map hex_byte bs)) = spell 0 bs"
proof -
  let ?h = "\<lambda>xs. concat (map hex_byte xs)"
  define g where "g m n = take n (drop m bs)" for m n
  have t: "take (n + n) (drop (m + m) (?h bs)) = ?h (g m n)" for m n by (simp add: g_def drop_hex take_hex)
  have "take 8 (?h bs) = ?h (g 0 4)" "take 4 (drop 8 (?h bs)) = ?h (g 4 2)" "take 4 (drop 12 (?h bs)) = ?h (g 6 2)"
    "take 4 (drop 16 (?h bs)) = ?h (g 8 2)" "drop 20 (?h bs) = ?h (drop 10 bs)"
    using t [of 4 0] t [of 2 4] t [of 2 6] t [of 2 8] drop_hex [of 10 bs] by simp_all
  then have d: "dashed (?h bs) = ?h (g 0 4) @ ''-'' @ ?h (g 4 2) @ ''-'' @ ?h (g 6 2) @ ''-'' @ ?h (g 8 2) @ ''-'' @ ?h (drop 10 bs)"
    by (simp add: dashed_def)
  have bs: "bs = g 0 4 @ g 4 2 @ g 6 2 @ g 8 2 @ drop 10 bs"
  proof -
    have "take (m + n) bs = take m bs @ g m n" for m n by (simp only: g_def take_add)
    from this [of 0 4] this [of 4 2] this [of 6 2] this [of 8 2] have "take 10 bs = g 0 4 @ g 4 2 @ g 6 2 @ g 8 2" by simp
    then show ?thesis using append_take_drop_id [of 10 bs] by (metis append_assoc)
  qed
  have len: "length (g 0 4) = 4" "length (g 4 2) = 2" "length (g 6 2) = 2" "length (g 8 2) = 2" "length (drop 10 bs) = 6"
    using assms by (simp_all add: g_def)
  have s: "spell 0 (g 0 4) = ?h (g 0 4) @ ''-''" "spell 4 (g 4 2) = ?h (g 4 2) @ ''-''" "spell 6 (g 6 2) = ?h (g 6 2) @ ''-''"
    "spell 8 (g 8 2) = ?h (g 8 2) @ ''-''" "spell 10 (drop 10 bs) = ?h (drop 10 bs)"
    using len by (auto intro!: spell_group spell_plain)
  have "spell 0 bs = spell 0 (g 0 4 @ g 4 2 @ g 6 2 @ g 8 2 @ drop 10 bs)" using bs by (rule arg_cong)
  then show ?thesis unfolding d by (simp add: spell_append len s)
qed

lemma hex_digit_less: "0 \<le> d \<Longrightarrow> d < e \<Longrightarrow> e < 16 \<Longrightarrow> byte (hex_digit d) < byte (hex_digit e)"
  by (simp add: byte_hex_digit)

lemma hex_byte_less:
  assumes "0 \<le> b" "b < c" "c < 256"
  shows "ord_class.lexordp (map byte (hex_byte b)) (map byte (hex_byte c))"
proof -
  have d: "0 \<le> b div 16" "b div 16 < 16" "0 \<le> c div 16" "c div 16 < 16" "0 \<le> b mod 16" "b mod 16 < 16" "0 \<le> c mod 16" "c mod 16 < 16"
    using assms by auto
  have "b div 16 < c div 16 \<or> b div 16 = c div 16 \<and> b mod 16 < c mod 16" using assms(2) by presburger
  then consider "b div 16 < c div 16" | "b div 16 = c div 16" "b mod 16 < c mod 16" by blast
  then show ?thesis
  proof cases
    case 1
    from hex_digit_less [OF d(1) this d(4)] show ?thesis by (simp add: hex_byte_def)
  next
    case 2
    from hex_digit_less [OF d(5) this(2) d(8)] 2(1) show ?thesis by (simp add: hex_byte_def)
  qed
qed

lemma spell_less:
  assumes "ord_class.lexordp bs cs" "length bs = length cs" "bytes_ok bs" "bytes_ok cs"
  shows "id_less (spell k bs) (spell k cs)"
  using assms
proof (induction bs cs arbitrary: k rule: list_induct2')
  case (4 b bs c cs)
  show ?case
  proof (cases "b < c")
    case True
    have "ord_class.lexordp (map byte (hex_byte b)) (map byte (hex_byte c))"
      using 4(4,5) True by (intro hex_byte_less) (auto simp: bytes_ok_def)
    from lexordp_append [OF this] show ?thesis by (simp add: id_less_def hex_byte_def)
  next
    case False
    with 4 have "id_less (spell (Suc k) bs) (spell (Suc k) cs)" "b = c" by (auto simp: bytes_ok_def)
    then show ?thesis by (auto simp: id_less_def intro!: lexordp_append_leftI)
  qed
qed simp_all

lemma filter_spell: "bytes_ok bs \<Longrightarrow> filter (\<lambda>c. c \<noteq> CHR ''-'') (spell k bs) = concat (map hex_byte bs)"
  by (induction k bs rule: spell.induct) (auto simp: bytes_ok_def hex_byte_def hex_digit_dash)

subsection \<open>The bytes of an identity\<close>

lemma and_ff: "(x :: int) AND 0xff = x mod 256" "(x :: int) AND 0x0f = x mod 16" "(x :: int) AND 0x3f = x mod 64"
  "(x :: int) AND 0x7ff = x mod 2048"
  using take_bit_eq_mask [of 8 x] take_bit_eq_mask [of 4 x] take_bit_eq_mask [of 6 x] take_bit_eq_mask [of 11 x]
  by (simp_all add: take_bit_eq_mod mask_eq_exp_minus_1)

lemma or_version: "0 \<le> x \<Longrightarrow> x < 16 \<Longrightarrow> (0x70 :: int) OR x = 112 + x"
proof -
  assume "0 \<le> x" "x < 16"
  then have "x \<in> {0, 1, 2, 3, 4, 5, 6, 7, 8, 9, 10, 11, 12, 13, 14, 15}" by (simp only: insert_iff empty_iff) presburger
  then show ?thesis by auto
qed

lemma or_variant: "0 \<le> x \<Longrightarrow> x < 64 \<Longrightarrow> 0 \<le> (0x80 :: int) OR x \<and> (0x80 :: int) OR x < 256"
  using OR_upper [of "0x80" 8 x] by simp

lemma byte_or_0_ok: "0 \<le> byte_or_0 bs i \<and> byte_or_0 bs i < 256"
  using uint_bounded [of "bs ! i"] by (simp add: byte_or_0_def)

lemma uuid_bytes_eq:
  assumes "0 \<le> c" "c \<le> 0xfff"
  shows "uuid_bytes ms c tail = ms_bytes 6 ms [] @ [112 + c div 256, c mod 256, 0x80 OR (byte_or_0 tail 0 AND 0x3f)] @
    map (byte_or_0 tail) [1..<8]"
proof -
  have "drop_bit 8 c AND 0x0f = c div 256" using assms by (simp add: and_ff drop_bit_eq_div)
  moreover have "0 \<le> c div 256" "c div 256 < 16" using assms by auto
  ultimately show ?thesis by (simp add: uuid_bytes_def or_version and_ff(1))
qed

lemma uuid_bytes_ok:
  assumes "0 \<le> c" "c \<le> 0xfff"
  shows "bytes_ok (uuid_bytes ms c tail)" "length (uuid_bytes ms c tail) = 16"
proof -
  have "0 \<le> byte_or_0 tail 0 AND 0x3f" "byte_or_0 tail 0 AND 0x3f < 64" by (simp_all add: and_ff)
  with or_variant have "0 \<le> (0x80 :: int) OR (byte_or_0 tail 0 AND 0x3f)" "(0x80 :: int) OR (byte_or_0 tail 0 AND 0x3f) < 256" by auto
  moreover have "0 \<le> 112 + c div 256" "112 + c div 256 < 256" using assms(1,2) by auto
  ultimately show "bytes_ok (uuid_bytes ms c tail)"
    using ms_bytes_ok [of 6 ms] byte_or_0_ok [of tail] unfolding uuid_bytes_eq [OF assms(1,2)] bytes_ok_def by auto
  show "length (uuid_bytes ms c tail) = 16" unfolding uuid_bytes_eq [OF assms(1,2)] by simp
qed

lemma formatUuidV7_spell:
  assumes "0 \<le> ms" "ms < 2 ^ 48" "0 \<le> c" "c \<le> 0xfff"
  shows "formatUuidV7 ms c tail = Some (spell 0 (uuid_bytes ms c tail))"
  using assms dashed_spell [OF uuid_bytes_ok(2)] by (simp add: formatUuidV7_def)

text \<open>A later timestamp, or a later count in the same millisecond, is a greater identity.\<close>

lemma uuid_less:
  assumes "0 \<le> ms" "ms' < 2 ^ 48" "ms < ms' \<or> ms = ms' \<and> c < c'"
    and c: "0 \<le> c" "c \<le> 0xfff" "0 \<le> c'" "c' \<le> 0xfff"
  shows "id_less (spell 0 (uuid_bytes ms c tail)) (spell 0 (uuid_bytes ms' c' tail'))"
proof (rule spell_less)
  show "ord_class.lexordp (uuid_bytes ms c tail) (uuid_bytes ms' c' tail')"
  proof (cases "ms < ms'")
    case True
    then have "ord_class.lexordp (ms_bytes 6 ms []) (ms_bytes 6 ms' [])"
      using assms(1,2) by (intro ms_bytes_less) auto
    from lexordp_append [OF this] show ?thesis by (simp only: uuid_bytes_eq c length_ms_bytes)
  next
    case False
    with assms(3) have "ms = ms'" "c < c'" by auto
    moreover have "c div 256 < c' div 256 \<or> c div 256 = c' div 256 \<and> c mod 256 < c' mod 256"
      using zdiv_mono1 [of c c' 256] mult_div_mod_eq [of 256 c] mult_div_mod_eq [of 256 c'] \<open>c < c'\<close> by linarith
    then have "ord_class.lexordp ([112 + c div 256, c mod 256, x] @ t) ([112 + c' div 256, c' mod 256, x'] @ t')" for x x' t t'
      by auto
    ultimately show ?thesis unfolding uuid_bytes_eq [OF c(1,2)] uuid_bytes_eq [OF c(3,4)]
      by (simp only: lexordp_append_leftI)
  qed
qed (use assms in \<open>simp_all add: uuid_bytes_ok\<close>)

lemma parse_hex_bytes:
  assumes "bytes_ok bs"
  shows "parse_hex (concat (map hex_byte bs)) = foldl (\<lambda>k b. k * 256 + b) 0 bs"
proof -
  have "foldl (\<lambda>n c. n * 16 + given (hex_value c) 0) k (concat (map hex_byte bs)) = foldl (\<lambda>k b. k * 256 + b) k bs" for k
    using assms
  proof (induction bs arbitrary: k)
    case (Cons b bs)
    have b: "0 \<le> b div 16" "b div 16 < 16" "0 \<le> b mod 16" "b mod 16 < 16" using Cons.prems by (auto simp: bytes_ok_def)
    have "(k * 16 + b div 16) * 16 + b mod 16 = k * 256 + b" by presburger
    with Cons b show ?case by (simp add: hex_byte_def hex_value_digit given_def bytes_ok_def mult.commute add.commute)
  qed simp
  then show ?thesis by (simp add: parse_hex_def)
qed

lemma all_hex: "bytes_ok bs \<Longrightarrow> list_all is_hex (concat (map hex_byte bs))"
  by (induction bs) (auto simp: bytes_ok_def hex_byte_def is_hex_def hex_value_digit)

lemma length_hex [simp]: "length (concat (map hex_byte bs)) = 2 * length bs"
  by (induction bs) (simp_all add: hex_byte_def)

lemma uuidV7Time_spell:
  assumes "0 \<le> ms" "ms < 2 ^ 48" "0 \<le> c" "c \<le> 0xfff"
  shows "uuidV7Time (spell 0 (uuid_bytes ms c tail)) = Some ms"
proof -
  let ?bs = "uuid_bytes ms c tail" and ?m = "ms_bytes 6 ms []"
  let ?hex = "concat (map hex_byte ?bs)"
  note ok = uuid_bytes_ok [OF assms(3,4), of ms tail]
  obtain rest where bs: "?bs = ?m @ (112 + c div 256) # rest" unfolding uuid_bytes_eq [OF assms(3,4)] by simp
  have m: "take 12 ?hex = concat (map hex_byte ?m)" using take_hex [of 6 ?bs] bs by simp
  have v: "hex_digit ((112 + c div 256) div 16) = CHR ''7''"
  proof -
    have "(112 + c div 256) div 16 = 7" using assms(3,4) by auto
    moreover have "hex_digit 7 = CHR ''7''" by code_simp
    ultimately show ?thesis by simp
  qed
  have "is_v7 ?hex"
  proof -
    have "?hex ! 12 = CHR ''7''" using v by (simp add: bs nth_append hex_byte_def [of "112 + c div 256"])
    moreover have "list_all is_hex (take 12 ?hex)" "list_all is_hex (drop 13 ?hex)"
      using all_hex [OF ok(1)] unfolding list_all_iff by (meson in_set_takeD in_set_dropD)+
    ultimately show ?thesis using ok(2) by (simp add: is_v7_def)
  qed
  moreover have "parse_hex (take 12 ?hex) = ms"
    using parse_hex_bytes [OF ms_bytes_ok [of 6 ms]] ms_bytes_value [of ms 6] assms(1,2) m by simp
  ultimately show ?thesis using filter_spell [OF ok(1)] by (simp add: uuidV7Time_def)
qed

subsection \<open>The sequence of a generator\<close>

definition counter_ok :: "id_clock \<Rightarrow> bool" where
  "counter_ok st \<longleftrightarrow> 0 \<le> ic_counter st \<and> ic_counter st \<le> 0xfff"

definition later :: "id_clock \<Rightarrow> id_clock \<Rightarrow> bool" where
  "later st st' \<longleftrightarrow> ic_lastMs st < ic_lastMs st' \<or> ic_lastMs st = ic_lastMs st' \<and> ic_counter st < ic_counter st'"

lemma later_trans: "later a b \<Longrightarrow> later b c \<Longrightarrow> later a c"
  by (auto simp: later_def)

lemma next_tick_ok:
  assumes "counter_ok st"
  shows "counter_ok (next_tick clock seed st)" "later st (next_tick clock seed st)" "clock \<le> ic_lastMs (next_tick clock seed st)"
proof -
  have "0 \<le> x AND 0x7ff \<and> x AND 0x7ff < 2048" for x :: int by (simp add: and_ff)
  then have "0 \<le> x AND 0x7ff" "x AND 0x7ff \<le> 0xfff" for x :: int by (smt (verit))+
  with assms show "counter_ok (next_tick clock seed st)" by (auto simp: counter_ok_def next_tick_def)
  show "later st (next_tick clock seed st)" "clock \<le> ic_lastMs (next_tick clock seed st)"
    by (auto simp: later_def next_tick_def)
qed

text \<open>The text an identity has at a clock.\<close>

definition id_at :: "id_clock \<Rightarrow> 8 word list \<Rightarrow> string" where
  "id_at st tail = spell 0 (uuid_bytes (ic_lastMs st) (ic_counter st) tail)"

definition in_range :: "id_clock \<Rightarrow> bool" where
  "in_range st \<longleftrightarrow> 0 \<le> ic_lastMs st \<and> ic_lastMs st < 2 ^ 48"

lemma format_at: "counter_ok st \<Longrightarrow> formatUuidV7 (ic_lastMs st) (ic_counter st) tail = (if in_range st then Some (id_at st tail) else None)"
  using formatUuidV7_spell [of "ic_lastMs st" "ic_counter st" tail]
  by (auto simp: counter_ok_def in_range_def id_at_def formatUuidV7_def)

lemma id_at_less: "counter_ok a \<Longrightarrow> counter_ok b \<Longrightarrow> in_range a \<Longrightarrow> in_range b \<Longrightarrow> later a b \<Longrightarrow> id_less (id_at a t) (id_at b t')"
  unfolding id_at_def by (rule uuid_less) (auto simp: counter_ok_def in_range_def later_def)

lemma timeOrderedIds_later:
  assumes "counter_ok st" "Some i \<in> set (timeOrderedIds ds st)"
  shows "\<exists>st' t. i = id_at st' t \<and> counter_ok st' \<and> in_range st' \<and> later st st'"
  using assms
proof (induction ds arbitrary: st)
  case (Cons d ds)
  obtain clock seed tail where d: "d = (clock, seed, tail)" by (cases d)
  let ?st = "next_tick clock seed st"
  note ok = next_tick_ok [OF Cons.prems(1), of clock seed]
  have "Some i = formatUuidV7 (ic_lastMs ?st) (ic_counter ?st) tail \<or> Some i \<in> set (timeOrderedIds ds ?st)"
    using Cons.prems(2) by (auto simp: d timeOrderedId_def Let_def)
  then show ?case
  proof
    assume "Some i = formatUuidV7 (ic_lastMs ?st) (ic_counter ?st) tail"
    with ok show ?thesis by (auto simp: format_at split: if_splits)
  next
    assume "Some i \<in> set (timeOrderedIds ds ?st)"
    with Cons.IH [OF ok(1)] ok(2) show ?thesis by (blast intro: later_trans)
  qed
qed simp

lemma timeOrderedIds_sorted:
  assumes "counter_ok st"
  shows "sorted_wrt id_less (List.map_filter id (timeOrderedIds ds st)) \<and>
    list_all2 (\<lambda>d i. \<forall>s. i = Some s \<longrightarrow> (\<exists>t. uuidV7Time s = Some t \<and> fst d \<le> t)) ds (timeOrderedIds ds st)"
  using assms
proof (induction ds arbitrary: st)
  case (Cons d ds)
  obtain clock seed tail where d: "d = (clock, seed, tail)" by (cases d)
  let ?st = "next_tick clock seed st"
  note ok = next_tick_ok [OF Cons.prems, of clock seed]
  have ids: "timeOrderedIds (d # ds) st = (if in_range ?st then Some (id_at ?st tail) else None) # timeOrderedIds ds ?st"
    by (simp add: d timeOrderedId_def Let_def format_at [OF ok(1)])
  have less: "id_less (id_at ?st tail) i" if "in_range ?st" "Some i \<in> set (timeOrderedIds ds ?st)" for i
    using timeOrderedIds_later [OF ok(1) that(2)] id_at_less [OF ok(1)] that(1) by blast
  have "uuidV7Time (id_at ?st tail) = Some (ic_lastMs ?st)" if "in_range ?st"
    unfolding id_at_def using that ok(1) by (intro uuidV7Time_spell) (auto simp: in_range_def counter_ok_def)
  with Cons.IH [OF ok(1)] less ok(3) show ?case
    unfolding ids by (auto simp: List.map_filter_def d)
qed (simp add: List.map_filter_def)

text \<open>C19: the identities of one generator are in the order they were drawn. Whatever the clock reads, also
  when it stands still or steps back, and whatever the random bytes, every identity is greater, as a string,
  than all before it, and the time read back from it is not before the clock at its draw.\<close>

theorem ids_increase:
  "sorted_wrt id_less (List.map_filter id (timeOrderedIds draws fresh_clock)) \<and>
   list_all2 (\<lambda>d i. case i of None \<Rightarrow> True | Some s \<Rightarrow> \<exists>t. uuidV7Time s = Some t \<and> fst d \<le> t)
     draws (timeOrderedIds draws fresh_clock)"
proof -
  have "counter_ok fresh_clock" by (simp add: counter_ok_def fresh_clock_def)
  from timeOrderedIds_sorted [OF this, of draws] show ?thesis by (auto elim!: list_all2_mono split: option.split)
qed

subsection \<open>The identity source of the daemon\<close>

text \<open>\<open>timeOrderedIdSource\<close> (src/apps/daemon/src/engine/repository.ts): one sequence for every kind. The
  generator throws when its time leaves 48 bits; the source is extended there by texts that are no UUIDs.\<close>

primrec clock_after :: "(nat \<Rightarrow> id_draw) \<Rightarrow> nat \<Rightarrow> id_clock" where
  "clock_after src 0 = next_tick (fst (src 0)) (fst (snd (src 0))) fresh_clock"
| "clock_after src (Suc n) = next_tick (fst (src (Suc n))) (fst (snd (src (Suc n)))) (clock_after src n)"

definition daemon_ids :: "(nat \<Rightarrow> id_draw) \<Rightarrow> id_kind \<Rightarrow> nat \<Rightarrow> ident" where
  "daemon_ids src k n = given (formatUuidV7 (ic_lastMs (clock_after src n)) (ic_counter (clock_after src n)) (snd (snd (src n))))
     (''unavailable:'' @ decimal n)"

lemma clock_after_ok: "counter_ok (clock_after src n)"
proof (induction n)
  case 0
  show ?case by (simp, rule next_tick_ok) (simp add: counter_ok_def fresh_clock_def)
qed (simp add: next_tick_ok)

lemma clock_after_later: "m < n \<Longrightarrow> later (clock_after src m) (clock_after src n)"
proof (induction n)
  case (Suc n)
  have step: "later (clock_after src n) (clock_after src (Suc n))" by (simp add: next_tick_ok clock_after_ok)
  show ?case
  proof (cases "m = n")
    case False
    with Suc have "later (clock_after src m) (clock_after src n)" by simp
    with step show ?thesis by (rule later_trans [rotated])
  qed (simp only: step)
qed simp

lemma daemon_ids_cases:
  "daemon_ids src k n = (if in_range (clock_after src n) then id_at (clock_after src n) (snd (snd (src n)))
     else ''unavailable:'' @ decimal n)"
  by (simp add: daemon_ids_def format_at clock_after_ok given_def)

lemma id_at_hd:
  assumes "counter_ok st"
  shows "id_at st t \<noteq> [] \<and> is_hex (hd (id_at st t))"
proof -
  have "length (uuid_bytes (ic_lastMs st) (ic_counter st) t) = 16" "bytes_ok (uuid_bytes (ic_lastMs st) (ic_counter st) t)"
    using uuid_bytes_ok assms by (simp_all add: counter_ok_def)
  then obtain b bs where "uuid_bytes (ic_lastMs st) (ic_counter st) t = b # bs" "0 \<le> b" "b < 256"
    by (cases "uuid_bytes (ic_lastMs st) (ic_counter st) t") (auto simp: bytes_ok_def)
  then show ?thesis by (auto simp: id_at_def hex_byte_def is_hex_def hex_value_digit)
qed

lemma not_hex: "\<not> is_hex CHR ''u''" "\<not> is_hex CHR ''i''"
  by (simp_all add: is_hex_def hex_value_def byte_def)

lemma id_at_distinct: "counter_ok st \<Longrightarrow> id_at st t \<noteq> ''unavailable:'' @ x" "counter_ok st \<Longrightarrow> id_at st t \<noteq> ''input:'' @ x"
  using id_at_hd [of st t] not_hex by force+

interpretation daemon_view: view_source "daemon_ids src" for src
proof (unfold_locales, goal_cases)
  case (1 k m n)
  note ok = clock_after_ok [of src]
  have neq: "daemon_ids src k m \<noteq> daemon_ids src k n" if "m < n" for m n
  proof (cases "in_range (clock_after src m) \<and> in_range (clock_after src n)")
    case True
    then have "id_less (daemon_ids src k m) (daemon_ids src k n)"
      using clock_after_later [OF that, of src] ok by (simp add: daemon_ids_cases id_at_less)
    then show ?thesis by (auto simp: id_less_def lexordp_irreflexive')
  next
    case False
    have "decimal m \<noteq> decimal n" using that by (metis digits_value_decimal nat_neq_iff)
    with False show ?thesis using id_at_distinct(1) [OF ok] by (auto simp: daemon_ids_cases eq_commute)
  qed
  with 1 show ?case by (metis nat_neq_iff)
next
  case (2 k n)
  show ?case using id_at_hd [OF clock_after_ok [of src n]] by (auto simp: daemon_ids_cases)
next
  case (3 n c)
  show ?case using id_at_distinct(2) [OF clock_after_ok [of src n]] by (simp add: daemon_ids_cases)
qed

end
