(* ===== verification/Spec2Isabelle.thy ===== *)
theory Spec2Isabelle
  imports Expiry_Map Output_Delta Core_Reduce_Inv Core_Deadlines_Inv Core_Policies Orchestrator_Stop
    Projection_Rebuild Projection_Window Outbox_View Time_Ordered_Ids
begin

text \<open>
  A verification library for the core of ace (src/), a multi-agent coding environment. A daemon runs
  coding agents as provider processes; an adapter per provider translates native frames into facts;
  the core package (src/packages/core/src) folds each fact into the state of a thread and emits the
  events that clients replay. The core is pure: the caller supplies the clock and the identities.

  \<^bold>\<open>Layout.\<close> Prelude has the dictionaries of the source (records keyed by strings, read in the order
  of \<open>Object.keys\<close>), the walk up a parent chain and the shared lemmas. Json and Json_Parse have JSON
  values and \<open>JSON.parse\<close>. Protocol has the entities of src/packages/protocol/src. Core_State has
  facts.ts, state.ts and emit.ts: the state of a thread, the facts and the initial state; a world adds
  the events emitted so far and the position of the identity source. Then one theory per file of the
  core, each followed by a theory of its invariants:
  Core_Indexes (indexes.ts), Core_Tree and Core_Tree_Inv (tree.ts), Ace_Tools (ace-tools.ts),
  Core_Items and Core_Items_Inv (items.ts, item-input.ts, reconciled-item.ts, output-snapshot.ts),
  Core_Runs, Core_Cleanup_Inv and Core_Runs_Inv (runs.ts, cleanup.ts),
  Core_Entities and Core_Entities_Inv (entities.ts), Core_Liveness (liveness.ts),
  Core_Status and Core_Status_Inv (status.ts, status-inputs.ts, background-hold.ts, external.ts,
  human.ts), Core_Diagnostics (diagnostics.ts), Core_Validate (validate.ts, fact-data.ts, fact-raw.ts),
  Core_Reduce and Core_Reduce_Inv (reduce.ts), Core_Deadlines and Core_Deadlines_Inv (deadlines.ts).
  Core_Policies has the small policies (switch-route.ts, storage-retention.ts, provider-admission.ts,
  provider-readiness.ts, permissions.ts, steering.ts, person-input.ts). Expiry_Map is expiry-map.ts, Output_Delta is
  src/packages/projection/src/delta.ts, which the items use for their output.
  Projection has the client's side of the log (src/packages/projection/src/index.ts, usage.ts): the view
  of a thread, the fold of every event into it, the list of threads and the delivery of batches with gap
  detection. Projection_Mirror says what it means that a view shows the state of the core,
  Projection_Replay has one simulation per operation of the core and Projection_Rebuild joins them over
  the log of a thread. Projection_Inv has the well-formedness of views, Projection_Window the bounded
  windows of a transcript (item-order.ts, window.ts) and the views a client can hold.
  Between the two stands the daemon (src/apps/daemon/src): Outbox has the queue of one connection
  (outbox.ts, wire-encoder.ts, compression-policy.ts), Outbox_Inv its bounds, as an invariant of small
  moves, Outbox_Delivery and Outbox_View what reaches the client. Time_Ordered_Ids has the identities
  (time-ordered-id.ts) and interprets the contract \<open>view_source\<close> of the core and the views on them.
  The orchestrator (src/packages/orchestrator/src) runs work over several lanes, each an agent thread.
  Orchestrator has its state and operations (state.ts, lifecycle.ts, reduce.ts, execution-policy.ts,
  executor.ts, spawn.ts, delegation.ts, recovery.ts); Orchestrator_Frame has what every operation keeps,
  Orchestrator_Inv the invariant and the lifecycle, Orchestrator_Steps the facts, Orchestrator_Run
  creation, spawning and the reachable runs, Orchestrator_Recover recovery and Orchestrator_Stop the end
  of a stopped run with the properties.

  \<^bold>\<open>Modelling.\<close> State is passed explicitly; a thrown exception is \<^const>\<open>None\<close>. An object
  shared by reference is updated under its key. Strings are the bytes of their UTF-8 encoding, numbers
  are integers. The zod schemas are parameters: \<open>item_schema\<close> and \<open>request_schema\<close> of the context
  and \<open>fr_parse\<close> of a fact reader; no property assumes anything of them. Identities come from a
  function of the kind and a counter; the locale \<open>id_source\<close> asks that it is injective. The
  orchestrator validates the length of its identities, so its locale \<open>orch_source\<close> asks for a first
  part of them to be valid, and a reachable run stays 2048 identities below the end, more than one fact
  can draw.

  \<^bold>\<open>Fuel.\<close> The memoised walks of liveness.ts and status.ts are recursive functions with fuel; the fuel
  is the number of agents not yet on the stack, and the walks are proved to return in every state, also
  where the restored tree has a cycle. \<open>finish_lane\<close> and \<open>reopen\<close> of the orchestrator follow the
  parents of a lane and get the depth of the run and two more, or one more, calls; every fact is proved
  to return (orch_apply_returns). The search of native payloads visits at most 64 values, which is
  the bound of the source. The flush loop of the outbox is a terminating function: a frame leaves or a
  stream advances.

  \<^bold>\<open>Results.\<close> In every state reachable by any sequence of facts, alone or in batches, the agent tree is
  well formed, an agent has at most one active run and the live indexes are exact (Core_Reduce_Inv). A
  run that ended never changes (ended_runs_final). A thread that reads done has nothing left to do
  (done_means_done). The index of deadlines, moved by each sign of life, always gives the deadline of a
  fresh reading (deadline_index_exact). A client that folds the log of events into a fresh view holds the
  core's agents, runs, items, interactions, tasks and thread status (replay_shows_core), also when the
  events come through an outbox that splits, holds back, merges and concatenates them (outbox_delivers;
  delivered_shows_core, below, composes the two). Every view is well typed (held_view_typed), an outbox
  holds back a bounded amount (outbox_bounded), a bounded tail keeps what it promises
  (retainedTail_keeps), and identities increase whatever the clock does (ids_increase). The other properties give the exact effect of the operations on their branches,
  the privacy of ace's own tool calls, the behaviour on rejected facts, and the correctness of the
  expiry heap and of the splitting and summarising of tool output. For the orchestrator, recovery accepts
  exactly the reachable states without a pending merge beside an open lane (recover_exact), a stopped
  run ends when its cancellations are confirmed (stopped_run_ends), and the limits of the template hold
  (orch_run_bounds). One fact can make a run unrecoverable (revival_blocks_recovery).

  \<^bold>\<open>Not modelled.\<close> The rest of the daemon (processes, SQLite, sockets, HTTP), the provider adapters
  and the clients are I/O. What \<open>JSON.stringify\<close> prints and the bytes a socket reports as buffered are
  parameters of the outbox. Of the orchestrator, commands.ts dispatches requests, git.ts runs git and
  summary.ts tabulates diffs; the host of a run is a parameter of \<open>execute\<close>, and the reachable runs
  assume that it acknowledges an intent after the fact of its execution. Of the projection package, the
  presentation policies (sidebar pages, snoozing, digests, notices) are not modelled.
\<close>

subsection \<open>From the facts to the client\<close>


text \<open>An example.\<close>

definition example_events :: "delivery_event list" where
  "example_events = map delivered (enumerate 1 example_log)"

definition example_outbox :: outbox where
  "example_outbox = outbox_send example_env 0 (Msg_events ''s'' 0 9 example_events)
     (new_outbox \<lparr>sk_open = True, sk_buffered = 0, sk_sent = [], sk_closed = None\<rparr>)"

lemma example_delivered:
  "sk_open (ob_socket example_outbox)" "length (sent_to ''s'' example_outbox) = 1"
  "in_order 0 9 example_events" "list_all (event_ok ''thread'') example_events"
  by code_simp+


end
